(* ===== verification/SF_Prelude.thy ===== *)
theory SF_Prelude
  imports Main "HOL-Library.Word" "HOL-Library.Monad_Syntax"
begin

text \<open>
  Shared vocabulary of the development: the C integer types as words, the masked XOR checksum
  every reply and every EEPROM block of the firmware carries, little-endian splitting and
  joining of multi-byte fields, saturating counters, and the interface (a locale) of a reply
  codec protected by such a checksum.
\<close>

unbundle bit_operations_syntax

section \<open>Integer types\<close>

text \<open>
  An unsigned C integer is a word of its width: arithmetic wraps. A signed one is the same
  word, read with \<open>sint\<close> where the code compares or divides it; a cast between the signed
  and the unsigned type of one width is then the identity, as it is on the bits in C.
\<close>

type_synonym u8 = "8 word"
type_synonym u16 = "16 word"
type_synonym u32 = "32 word"
type_synonym i8 = "8 word"
type_synonym i16 = "16 word"

type_synonym bytes = "u8 list"

named_theorems codec_defs "the encoders and decoders of the wire and EEPROM formats"
named_theorems hook_simps "the recording hooks"

section \<open>Bytes of a wider integer\<close>

definition byte_of :: "nat \<Rightarrow> 'a::len word \<Rightarrow> u8" where
  "byte_of n w = ucast (drop_bit (8 * n) w AND 0xFF)"

definition le16 :: "u8 \<Rightarrow> u8 \<Rightarrow> u16" where
  "le16 b0 b1 = ucast b0 OR push_bit 8 (ucast b1)"

definition le32 :: "u8 \<Rightarrow> u8 \<Rightarrow> u8 \<Rightarrow> u8 \<Rightarrow> u32" where
  "le32 b0 b1 b2 b3 =
     ucast b0 OR push_bit 8 (ucast b1) OR push_bit 16 (ucast b2) OR push_bit 24 (ucast b3)"

lemma bit_mask_FF: "bit (0xFF :: 'a::len word) n \<longleftrightarrow> n < 8 \<and> n < LENGTH('a)"
proof -
  have "(0xFF :: 'a word) = mask 8"
    by (simp add: mask_eq_exp_minus_1)
  then show ?thesis
    by (simp only: bit_mask_iff) auto
qed

lemma bit_int_FF: "bit (0xFF :: int) n \<longleftrightarrow> n < 8"
proof -
  have "(0xFF :: int) = mask 8"
    by (simp add: mask_eq_exp_minus_1)
  then show ?thesis
    by (simp only: bit_mask_iff) auto
qed

lemma bit_byte_of:
  "bit (byte_of n (w :: 'a::len word)) i \<longleftrightarrow> i < 8 \<and> bit w (8 * n + i)"
  by (auto simp: byte_of_def bit_unsigned_iff bit_and_iff bit_drop_bit_eq bit_mask_FF bit_int_FF
      dest: bit_imp_le_length)

lemma le16_byte_of [simp]: "le16 (byte_of 0 w) (byte_of (Suc 0) w) = w"
  by (rule bit_word_eqI) (auto simp: le16_def bit_simps bit_byte_of)

lemma byte_of_le16 [simp]:
  "byte_of 0 (le16 b0 b1) = b0"
  "byte_of (Suc 0) (le16 b0 b1) = b1"
  by (rule bit_word_eqI, auto simp: le16_def bit_simps bit_byte_of dest: bit_imp_le_length)+

lemma le32_byte_of [simp]:
  "le32 (byte_of 0 w) (byte_of (Suc 0) w) (byte_of 2 w) (byte_of 3 w) = w"
proof (rule bit_word_eqI)
  fix n assume "n < LENGTH(32)"
  then consider "n < 8" | "8 \<le> n" "n < 16" | "16 \<le> n" "n < 24" | "24 \<le> n" "n < 32"
    by fastforce
  then show "bit (le32 (byte_of 0 w) (byte_of (Suc 0) w) (byte_of 2 w) (byte_of 3 w)) n = bit w n"
    by cases (auto simp: le32_def bit_simps bit_byte_of)
qed

lemma byte_of_le32 [simp]:
  "byte_of 0 (le32 b0 b1 b2 b3) = b0"
  "byte_of (Suc 0) (le32 b0 b1 b2 b3) = b1"
  "byte_of 2 (le32 b0 b1 b2 b3) = b2"
  "byte_of 3 (le32 b0 b1 b2 b3) = b3"
  by (rule bit_word_eqI, auto simp: le32_def bit_simps bit_byte_of dest: bit_imp_le_length)+

lemma unat_u8_less: "unat (c :: u8) < 256"
  using unsigned_less [of c, where 'a = nat] by simp

section \<open>The number four bytes spell\<close>

lemma or_push_bit_nat: "a < 2 ^ n \<Longrightarrow> a OR push_bit n b = a + 2 ^ n * (b :: nat)"
proof -
  assume a: "a < 2 ^ n"
  have "a AND push_bit n b = 0"
  proof (rule bit_eqI)
    fix i
    have "bit a i \<Longrightarrow> i < n"
      using a by (metis bit_take_bit_iff take_bit_nat_eq_self)
    then show "bit (a AND push_bit n b) i = bit 0 i"
      by (auto simp: bit_and_iff bit_push_bit_iff)
  qed
  then show ?thesis
    by (simp add: disjunctive_add_eq_or [symmetric] push_bit_eq_mult mult.commute)
qed

lemma unat_push_byte:
  assumes "n \<le> 24" shows "unat (push_bit n (ucast (b :: u8)) :: u32) = 2 ^ n * unat b"
proof -
  have "2 ^ n * unat b < 2 ^ n * 2 ^ 8"
    using unat_u8_less [of b] by simp
  also have "\<dots> \<le> (2 ^ 32 :: nat)"
    using power_increasing [of "n + 8" 32 "2 :: nat"] assms by (simp add: power_add)
  finally show ?thesis
    by (simp only: unsigned_push_bit_eq)
      (use unat_u8_less [of b] in \<open>simp add: unsigned_ucast_eq push_bit_eq_mult take_bit_nat_eq_self mult.commute\<close>)
qed

lemma unat_ucast_byte: "unat (ucast (b :: u8) :: u32) = unat b"
  using unat_push_byte [of 0 b] by simp

lemma unat_le32:
  "unat (le32 b0 b1 b2 b3) =
     unat b0 + 256 * unat b1 + 65536 * unat b2 + 16777216 * unat b3"
proof -
  have l: "unat b0 < 256" "unat b1 < 256" "unat b2 < 256" "unat b3 < 256"
    by (rule unat_u8_less)+
  have p: "(256::nat) * k = push_bit 8 k" "(65536::nat) * k = push_bit 16 k" "(16777216::nat) * k = push_bit 24 k" for k
    by (simp_all add: push_bit_eq_mult)
  have "unat (le32 b0 b1 b2 b3) = ((unat b0 OR push_bit 8 (unat b1)) OR push_bit 16 (unat b2)) OR push_bit 24 (unat b3)"
    by (simp only: le32_def unsigned_or_eq unat_push_byte unat_ucast_byte) (simp add: unat_push_byte unat_ucast_byte p or.assoc)
  also have "unat b0 OR push_bit 8 (unat b1) = unat b0 + 256 * unat b1"
    using or_push_bit_nat [of "unat b0" 8 "unat b1"] l by simp
  also have "(unat b0 + 256 * unat b1) OR push_bit 16 (unat b2) = unat b0 + 256 * unat b1 + 65536 * unat b2"
    using or_push_bit_nat [of "unat b0 + 256 * unat b1" 16 "unat b2"] l by simp
  also have "(unat b0 + 256 * unat b1 + 65536 * unat b2) OR push_bit 24 (unat b3) = unat b0 + 256 * unat b1 + 65536 * unat b2 + 16777216 * unat b3"
    using or_push_bit_nat [of "unat b0 + 256 * unat b1 + 65536 * unat b2" 24 "unat b3"] l by simp
  finally show ?thesis .
qed
section \<open>The high bit of a byte\<close>

lemma bit_80: "bit (0x80 :: u8) n \<longleftrightarrow> n = 7" "bit (0x80 :: int) n \<longleftrightarrow> n = 7"
proof -
  have "(0x80 :: u8) = push_bit 7 1" "(0x80 :: int) = push_bit 7 1" by simp_all
  then show "bit (0x80 :: u8) n \<longleftrightarrow> n = 7" "bit (0x80 :: int) n \<longleftrightarrow> n = 7"
    by (simp_all only: bit_push_bit_iff bit_1_iff) auto
qed

lemma bit_7F: "bit (0x7F :: u8) n \<longleftrightarrow> n < 7" "bit (0x7F :: int) n \<longleftrightarrow> n < 7"
proof -
  have "(0x7F :: u8) = mask 7" "(0x7F :: int) = mask 7" by (simp_all add: mask_eq_exp_minus_1)
  then show "bit (0x7F :: u8) n \<longleftrightarrow> n < 7" "bit (0x7F :: int) n \<longleftrightarrow> n < 7"
    by (simp_all only: bit_mask_iff) auto
qed

lemma less_8_iff: "n < (8::nat) \<longleftrightarrow> n < 7 \<or> n = 7" by auto

lemmas bit_high = bit_and_iff bit_or_iff bit_7F bit_80 less_8_iff

lemma and_80_eq_0_iff: "(a :: u8) AND 0x80 = 0 \<longleftrightarrow> \<not> bit a 7"
proof
  assume "a AND 0x80 = 0"
  then have "\<not> bit (a AND 0x80) 7" by simp
  then show "\<not> bit a 7" by (simp add: bit_high)
next
  assume "\<not> bit a 7"
  then show "a AND 0x80 = 0" by (intro bit_word_eqI) (auto simp: bit_high)
qed

lemma bit_7_iff: "bit (a :: u8) 7 \<longleftrightarrow> 128 \<le> unat a"
proof -
  have "bit a 7 \<longleftrightarrow> bit (unat a) 7" by (simp add: bit_unsigned_iff)
  also have "\<dots> \<longleftrightarrow> odd (unat a div 128)" by (simp add: bit_iff_odd)
  also have "\<dots> \<longleftrightarrow> 128 \<le> unat a"
  proof (cases "128 \<le> unat a")
    case True
    then have "unat a div 128 = 1"
      using unat_u8_less [of a] by (intro div_nat_eqI) simp_all
    with True show ?thesis by simp
  qed simp
  finally show ?thesis .
qed

lemma le_7F_iff: "(a :: u8) \<le> 0x7F \<longleftrightarrow> \<not> bit a 7"
  unfolding bit_7_iff by (simp add: word_le_nat_alt) linarith

lemma split_high_bit:
  "((a :: u8) AND 0x7F) OR (if a AND 0x80 = 0 then 0 else 0x80) = a"
  unfolding and_80_eq_0_iff
  by (rule bit_word_eqI) (auto simp: bit_high)

lemma join_high_bit:
   "(a :: u8) \<le> 0x7F \<Longrightarrow> (a OR 0x80) AND 0x7F = a"
   "(a :: u8) \<le> 0x7F \<Longrightarrow> a AND 0x7F = a"
   "(a :: u8) \<le> 0x7F \<Longrightarrow> a AND 0x80 = 0"
   "(a OR 0x80) AND 0x80 \<noteq> 0"
   "a AND 0x7F \<le> 0x7F"
  unfolding le_7F_iff and_80_eq_0_iff
  by ((rule bit_word_eqI)?, auto simp: bit_high)+

lemma split_high_bit_cases:
  "(a :: u8) AND 0x80 \<noteq> 0 \<Longrightarrow> (a AND 0x7F) OR 0x80 = a"
  "a AND 0x80 = 0 \<Longrightarrow> a AND 0x7F = a"
  "\<not> 0x7F < a AND 0x7F"
  using split_high_bit [of a] join_high_bit(5) [of a] by (auto split: if_splits simp: not_less)

section \<open>The masked XOR checksum\<close>

text \<open>The loop \<open>x = 0; for (...) x ^= buf[i];\<close> over a list of bytes.\<close>

definition xor_bytes :: "bytes \<Rightarrow> u8" where
  "xor_bytes bs = foldl (XOR) 0 bs"

lemma foldl_xor: "foldl (XOR) a bs = a XOR foldl (XOR) (0 :: u8) bs"
proof (induction bs arbitrary: a)
  case (Cons b bs)
  show ?case
    using Cons.IH [of "a XOR b"] Cons.IH [of "0 XOR b"] by (simp add: xor.assoc)
qed simp

lemma xor_bytes_Nil [simp]: "xor_bytes [] = 0"
  by (simp add: xor_bytes_def)

lemma xor_bytes_Cons [simp]: "xor_bytes (b # bs) = b XOR xor_bytes bs"
  using foldl_xor [of "0 XOR b" bs] by (simp add: xor_bytes_def)

lemma xor_bytes_append [simp]: "xor_bytes (xs @ ys) = xor_bytes xs XOR xor_bytes ys"
  by (induction xs) (simp_all add: xor.assoc)

lemma xor_cancel_left [simp]: "(a :: 'a::len word) XOR (a XOR b) = b"
  by (simp flip: xor.assoc)

lemma xor_left_eq_iff [simp]: "(a :: 'a::len word) XOR b = a XOR c \<longleftrightarrow> b = c"
  by (metis xor_cancel_left)

lemma xor_right_eq_iff [simp]: "(b :: 'a::len word) XOR a = c XOR a \<longleftrightarrow> b = c"
  by (metis xor.commute xor_cancel_left)

lemma xor_bytes_update:
  "i < length bs \<Longrightarrow> xor_bytes (bs[i := b]) = xor_bytes bs XOR (bs ! i) XOR b"
proof (induction bs arbitrary: i)
  case (Cons a bs)
  show ?case
  proof (cases i)
    case 0
    then show ?thesis by (simp add: xor.commute xor.left_commute xor.assoc)
  next
    case (Suc j)
    with Cons show ?thesis by (simp add: xor.assoc)
  qed
qed simp

lemma xor_bytes_update_neq:
  assumes "i < length bs" and "b \<noteq> bs ! i"
  shows "xor_bytes (bs[i := b]) \<noteq> xor_bytes bs"
proof
  assume "xor_bytes (bs[i := b]) = xor_bytes bs"
  then have "xor_bytes bs XOR ((bs ! i) XOR b) = xor_bytes bs XOR 0"
    using xor_bytes_update [OF assms(1)] by (simp add: xor.assoc)
  then have "(bs ! i) XOR b = 0" by (simp only: xor_left_eq_iff)
  then have "b = bs ! i" by (metis xor_cancel_left xor.right_neutral)
  with assms(2) show False by simp
qed

definition masked_checksum :: "nat \<Rightarrow> u8 \<Rightarrow> bytes \<Rightarrow> u8" where
  "masked_checksum n cmask buf = xor_bytes (take n buf) XOR cmask"

text \<open>
  What makes an XOR checksum detect a fault: a buffer whose last byte is its checksum stops
  being one when any single byte changes.
\<close>

lemma masked_checksum_single_byte:
  assumes "length buf = Suc n" and "buf ! n = masked_checksum n cmask buf"
    and "i \<le> n" and "b \<noteq> buf ! i"
  shows "buf[i := b] ! n \<noteq> masked_checksum n cmask (buf[i := b])"
proof (cases "i = n")
  case True
  then have "take n (buf[i := b]) = take n buf"
    by simp
  with True assms show ?thesis
    by (simp add: masked_checksum_def)
next
  case False
  with assms have i: "i < n" by simp
  have "take n (buf[i := b]) = (take n buf)[i := b]"
    by (simp add: take_update_swap)
  moreover have "xor_bytes ((take n buf)[i := b]) \<noteq> xor_bytes (take n buf)"
    using assms i by (intro xor_bytes_update_neq) auto
  ultimately show ?thesis
    using i assms(2) by (simp add: masked_checksum_def)
qed

section \<open>Saturating counters\<close>

definition bump8 :: "u8 \<Rightarrow> u8" where
  "bump8 c = (if c < 0xFF then c + 1 else c)"

lemma unat_bump8: "unat (bump8 c) = min 255 (unat c + 1)"
proof (cases "c < 0xFF")
  case True
  then have "unat c < 255" by (simp add: word_less_nat_alt)
  with True show ?thesis by (simp add: bump8_def unat_word_ariths)
next
  case False
  moreover have "unat c < 256" by (rule unat_u8_less)
  ultimately have "unat c = 255" by (simp add: word_less_nat_alt)
  with False show ?thesis by (simp add: bump8_def)
qed

lemma bump8_mono: "c \<le> bump8 c"
  using unat_u8_less [of c] by (simp add: word_le_nat_alt unat_bump8)

section \<open>The interface of a checksummed reply\<close>

text \<open>
  \<open>masked_reply\<close>: what a reader of a fixed-length reply promises about the buffers it accepts.
  Its clients are the row masters, who act on a reply only when it was accepted.
  \<open>masked_codec\<close> adds the encoder on the unit's side and the round trip; \<open>exact_codec\<close> says
  that the accepted buffers are exactly the encodings.
\<close>

locale masked_reply =
  fixes n :: nat and cmask :: u8 and accept :: "bytes \<Rightarrow> bool"
  assumes accept_checksum:
    "length buf = Suc n \<Longrightarrow> accept buf \<Longrightarrow> buf ! n = masked_checksum n cmask buf"
begin

lemma single_byte_rejected:
  assumes "length buf = Suc n" and "accept buf" and "i \<le> n" and "b \<noteq> buf ! i"
  shows "\<not> accept (buf[i := b])"
proof
  assume "accept (buf[i := b])"
  moreover have "length (buf[i := b]) = Suc n" using assms(1) by simp
  ultimately have "buf[i := b] ! n = masked_checksum n cmask (buf[i := b])"
    by (intro accept_checksum)
  with masked_checksum_single_byte [OF assms(1) accept_checksum assms(3,4)] assms(1,2)
  show False by blast
qed

lemma wrong_mask_rejected:
  assumes "length buf = Suc n" and "buf ! n = masked_checksum n cmask' buf" and "cmask' \<noteq> cmask"
  shows "\<not> accept buf"
  using accept_checksum [OF assms(1)] assms(2,3) by (auto simp: masked_checksum_def)

end

locale masked_codec =
  fixes n :: nat and cmask :: u8 and ok :: "'a \<Rightarrow> bool"
    and enc :: "'a \<Rightarrow> bytes" and dec :: "bytes \<Rightarrow> 'a option"
  assumes dec_checksum:
      "length buf = Suc n \<Longrightarrow> dec buf = Some x \<Longrightarrow> buf ! n = masked_checksum n cmask buf"
    and length_enc: "length (enc x) = Suc n"
    and round_trip: "ok x \<Longrightarrow> dec (enc x) = Some x"

sublocale masked_codec \<subseteq> masked_reply n cmask "\<lambda>buf. dec buf \<noteq> None"
  by unfold_locales (auto dest: dec_checksum)

context masked_codec
begin

lemma enc_checksum: "ok x \<Longrightarrow> enc x ! n = masked_checksum n cmask (enc x)"
  using dec_checksum [OF length_enc round_trip] .

lemma corrupted_reply_rejected:
  "ok x \<Longrightarrow> i \<le> n \<Longrightarrow> b \<noteq> enc x ! i \<Longrightarrow> dec ((enc x)[i := b]) = None"
  using single_byte_rejected [OF length_enc] round_trip by fastforce

lemma enc_inj: "ok x \<Longrightarrow> ok y \<Longrightarrow> enc x = enc y \<Longrightarrow> x = y"
  by (metis option.inject round_trip)

end

locale exact_codec = masked_codec +
  assumes dec_enc: "length buf = Suc n \<Longrightarrow> dec buf = Some x \<Longrightarrow> ok x \<and> enc x = buf"
begin

lemma accepts_exactly:
  "length buf = Suc n \<Longrightarrow> dec buf = Some x \<longleftrightarrow> ok x \<and> enc x = buf"
  using dec_enc round_trip by blast

end

section \<open>Program memory in pages\<close>

type_synonym flash = "nat \<Rightarrow> u8"

definition put_page :: "flash \<Rightarrow> nat \<Rightarrow> bytes \<Rightarrow> flash" where
  "put_page f p page = (\<lambda>x. if x div 128 = p then page ! (x mod 128) else f x)"

definition page_at :: "flash \<Rightarrow> nat \<Rightarrow> bytes" where
  "page_at f p = map (\<lambda>i. f (128 * p + i)) [0..<128]"

lemma length_page_at [simp]: "length (page_at f p) = 128"
  by (simp add: page_at_def)

lemma page_at_put [simp]:
  "length page = 128 \<Longrightarrow> page_at (put_page f p page) q = (if q = p then page else page_at f q)"
  by (auto simp: page_at_def put_page_def intro: nth_equalityI)

lemma put_page_again [simp]: "put_page (put_page f p page) p page' = put_page f p page'"
  by (simp add: put_page_def fun_eq_iff)

lemma put_page_same: "page_at f p = page \<Longrightarrow> put_page f p page = f"
proof (rule ext)
  fix x assume "page_at f p = page"
  then show "put_page f p page x = f x"
    by (cases "x div 128 = p") (auto simp: put_page_def page_at_def mult.commute)
qed

lemma flash_eqI: "(\<And>p. page_at f p = page_at g p) \<Longrightarrow> f = g"
proof (rule ext)
  fix x assume eq: "\<And>p. page_at f p = page_at g p"
  have "f x = page_at f (x div 128) ! (x mod 128)" "g x = page_at g (x div 128) ! (x mod 128)"
    by (simp_all add: page_at_def)
  then show "f x = g x" by (simp add: eq)
qed

end
