(* ===== verification/Wire_Contract.thy ===== *)
theory Wire_Contract
  imports SF_Prelude
begin

text \<open>
  The master-unit contract: the opcode tables and limits of
  \<open>shared/SplitFlapProtocol.h\<close>, the core reads and writes of \<open>shared/UnitWireContract.h\<close>,
  and the letter read-back check of \<open>shared/UnitProtocolHelpers.h\<close>. A decoder that returns
  \<open>bool\<close> and fills an out parameter is a function into \<open>option\<close>; a buffer is the list of
  its bytes and \<open>len\<close> the length the transaction reported.
\<close>

section \<open>Constants of the contract\<close>

definition SFP_ALPHABET :: string where
  "SFP_ALPHABET = '' ABCDEFGHIJKLMNOPQRSTUVWXYZ$&#0123456789:.!?-''"

definition SFP_FLAP_AMOUNT :: int where
  "SFP_FLAP_AMOUNT = int (length SFP_ALPHABET)"

lemma SFP_FLAP_AMOUNT_eq [simp]: "SFP_FLAP_AMOUNT = 45"
  by (simp add: SFP_FLAP_AMOUNT_def SFP_ALPHABET_def)

abbreviation (input) SFP_I2C_ADDRESS_BASE :: nat where "SFP_I2C_ADDRESS_BASE \<equiv> 1"
abbreviation (input) SFP_PROTOCOL_VERSION :: u8 where "SFP_PROTOCOL_VERSION \<equiv> 1"
abbreviation (input) SFP_UNIT_SPEED_MAX :: int where "SFP_UNIT_SPEED_MAX \<equiv> 12"
abbreviation (input) SFP_LETTER_UNKNOWN :: u8 where "SFP_LETTER_UNKNOWN \<equiv> 0xFF"
abbreviation (input) SFP_OFFSET_LIMIT_STEPS :: int where "SFP_OFFSET_LIMIT_STEPS \<equiv> 2038"

abbreviation (input) SFP_CMD_ENTER_BOOTLOADER :: u8 where "SFP_CMD_ENTER_BOOTLOADER \<equiv> 0x80"
abbreviation (input) SFP_CMD_GET_VERSION :: u8 where "SFP_CMD_GET_VERSION \<equiv> 0x81"
abbreviation (input) SFP_CMD_GET_OFFSET :: u8 where "SFP_CMD_GET_OFFSET \<equiv> 0x82"
abbreviation (input) SFP_CMD_GET_STATUS :: u8 where "SFP_CMD_GET_STATUS \<equiv> 0x83"
abbreviation (input) SFP_CMD_GET_LETTER :: u8 where "SFP_CMD_GET_LETTER \<equiv> 0x84"
abbreviation (input) SFP_CMD_GET_ODOMETER :: u8 where "SFP_CMD_GET_ODOMETER \<equiv> 0x85"
abbreviation (input) SFP_CMD_GET_DIAG :: u8 where "SFP_CMD_GET_DIAG \<equiv> 0x86"
abbreviation (input) SFP_CMD_GET_SELF_TEST :: u8 where "SFP_CMD_GET_SELF_TEST \<equiv> 0x87"
abbreviation (input) SFP_CMD_GET_VITALS :: u8 where "SFP_CMD_GET_VITALS \<equiv> 0x88"
abbreviation (input) SFP_CMD_GET_EXT_DIAG :: u8 where "SFP_CMD_GET_EXT_DIAG \<equiv> 0x89"
abbreviation (input) SFP_CMD_GET_LIFETIME :: u8 where "SFP_CMD_GET_LIFETIME \<equiv> 0x8A"
abbreviation (input) SFP_CMD_GET_BOOT_INFO :: u8 where "SFP_CMD_GET_BOOT_INFO \<equiv> 0x8B"
abbreviation (input) SFP_CMD_GET_BUS_RECORD :: u8 where "SFP_CMD_GET_BUS_RECORD \<equiv> 0x8C"

abbreviation (input) SFP_CMD_HOME :: u8 where "SFP_CMD_HOME \<equiv> 0x90"
abbreviation (input) SFP_CMD_JOG :: u8 where "SFP_CMD_JOG \<equiv> 0x91"
abbreviation (input) SFP_CMD_REBOOT :: u8 where "SFP_CMD_REBOOT \<equiv> 0x92"
abbreviation (input) SFP_CMD_SET_OFFSET :: u8 where "SFP_CMD_SET_OFFSET \<equiv> 0x93"
abbreviation (input) SFP_CMD_SET_I2C_ADDRESS :: u8 where "SFP_CMD_SET_I2C_ADDRESS \<equiv> 0x94"
abbreviation (input) SFP_CMD_CLEAR_I2C_ADDRESS :: u8 where "SFP_CMD_CLEAR_I2C_ADDRESS \<equiv> 0x95"
abbreviation (input) SFP_CMD_IDENTIFY :: u8 where "SFP_CMD_IDENTIFY \<equiv> 0x96"
abbreviation (input) SFP_CMD_RESET_ODOMETER :: u8 where "SFP_CMD_RESET_ODOMETER \<equiv> 0x97"
abbreviation (input) SFP_CMD_START_SELF_TEST :: u8 where "SFP_CMD_START_SELF_TEST \<equiv> 0x98"
abbreviation (input) SFP_CMD_SET_GATES :: u8 where "SFP_CMD_SET_GATES \<equiv> 0x99"
abbreviation (input) SFP_CMD_BOOT_UPDATE :: u8 where "SFP_CMD_BOOT_UPDATE \<equiv> 0x9A"

definition sfp_queries :: "u8 list" where
  "sfp_queries =
     [SFP_CMD_ENTER_BOOTLOADER, SFP_CMD_GET_VERSION, SFP_CMD_GET_OFFSET, SFP_CMD_GET_STATUS,
      SFP_CMD_GET_LETTER, SFP_CMD_GET_ODOMETER, SFP_CMD_GET_DIAG, SFP_CMD_GET_SELF_TEST,
      SFP_CMD_GET_VITALS, SFP_CMD_GET_EXT_DIAG, SFP_CMD_GET_LIFETIME, SFP_CMD_GET_BOOT_INFO,
      SFP_CMD_GET_BUS_RECORD]"

definition sfp_mutations :: "u8 list" where
  "sfp_mutations =
     [SFP_CMD_HOME, SFP_CMD_JOG, SFP_CMD_REBOOT, SFP_CMD_SET_OFFSET, SFP_CMD_SET_I2C_ADDRESS,
      SFP_CMD_CLEAR_I2C_ADDRESS, SFP_CMD_IDENTIFY, SFP_CMD_RESET_ODOMETER,
      SFP_CMD_START_SELF_TEST, SFP_CMD_SET_GATES, SFP_CMD_BOOT_UPDATE]"

definition SFP_UNIT_GATE_IMPLEMENTED :: u8 where
  "SFP_UNIT_GATE_IMPLEMENTED = 0x01 OR 0x04 OR 0x08 OR 0x10"

lemma opcodes_distinct: "distinct (sfp_queries @ sfp_mutations)"
  by (simp add: sfp_queries_def sfp_mutations_def)

lemma opcodes_above_letters:
  "\<forall>op \<in> set (sfp_queries @ sfp_mutations). SFP_FLAP_AMOUNT \<le> uint op"
  by (simp add: sfp_queries_def sfp_mutations_def)

section \<open>The protocol-version gate\<close>

definition unitProtocolSupported :: "u8 \<Rightarrow> bool" where
  "unitProtocolSupported reportedVersion \<longleftrightarrow> reportedVersion = SFP_PROTOCOL_VERSION"

definition unitOpcodeAllowedWhenUnsupported :: "u8 \<Rightarrow> bool" where
  "unitOpcodeAllowedWhenUnsupported opcode \<longleftrightarrow>
     opcode = SFP_CMD_GET_VERSION \<or> opcode = SFP_CMD_ENTER_BOOTLOADER"

section \<open>GET_VERSION\<close>

record UnitVersionPacket =
  vp_rev :: bytes \<comment> \<open>nine bytes, the last one NUL\<close>
  vp_protocolVersion :: u8

definition versionChecksum :: "bytes \<Rightarrow> u8" where
  "versionChecksum buf = masked_checksum 9 0x4B buf"

text \<open>
  \<open>revp\<close> is a C string pointer: \<open>None\<close> is the null pointer, \<open>Some mem\<close> the memory it points
  to. The loop reads all eight positions, also those behind a terminator that comes earlier.
\<close>

definition versionEncodeReply :: "bytes option \<Rightarrow> u8 \<Rightarrow> bytes" where
  "versionEncodeReply revp protocolVersion =
     (let chars = map (\<lambda>i. case revp of None \<Rightarrow> 0
                         | Some mem \<Rightarrow> if mem ! i \<noteq> 0 then mem ! i else 0) [0..<8];
          body = chars @ [protocolVersion]
      in body @ [versionChecksum body])"

definition versionReadbackValid :: "bytes \<Rightarrow> nat \<Rightarrow> UnitVersionPacket option" where
  "versionReadbackValid buf len =
     (if len < 10 then None
      else if buf ! 9 \<noteq> versionChecksum buf then None
      else Some \<lparr>vp_rev = take 8 buf @ [0], vp_protocolVersion = buf ! 8\<rparr>)"

section \<open>GET_STATUS\<close>

definition statusChecksum :: "bytes \<Rightarrow> u8" where
  "statusChecksum buf = masked_checksum 8 0x7E buf"

definition statusEncodeReply :: "bytes \<Rightarrow> bytes" where
  "statusEncodeReply payload = take 8 payload @ [statusChecksum payload]"

definition statusReadbackValid :: "bytes \<Rightarrow> nat \<Rightarrow> bytes option" where
  "statusReadbackValid buf len =
     (if len < 9 then None
      else if buf ! 8 \<noteq> statusChecksum buf then None
      else Some (take 8 buf))"

section \<open>GET_OFFSET and SET_OFFSET\<close>

definition offsetChecksum :: "bytes \<Rightarrow> u8" where
  "offsetChecksum buf = (buf ! 0 XOR buf ! 1) XOR 0x1D"

definition offsetEncodeReply :: "i16 \<Rightarrow> bytes" where
  "offsetEncodeReply offset =
     (let body = [byte_of 0 offset, byte_of 1 offset] in body @ [offsetChecksum body])"

definition offsetReadbackValid :: "bytes \<Rightarrow> nat \<Rightarrow> i16 option" where
  "offsetReadbackValid buf len =
     (if len < 3 then None
      else if buf ! 2 \<noteq> offsetChecksum buf then None
      else Some (le16 (buf ! 0) (buf ! 1)))"

definition setOffsetEncode :: "i16 \<Rightarrow> bytes" where
  "setOffsetEncode offset =
     (let c = NOT offset in [byte_of 0 offset, byte_of 1 offset, byte_of 0 c, byte_of 1 c])"

definition setOffsetDecode :: "bytes \<Rightarrow> nat \<Rightarrow> i16 option" where
  "setOffsetDecode buf len =
     (if len < 4 then None
      else (let v = le16 (buf ! 0) (buf ! 1); c = le16 (buf ! 2) (buf ! 3)
            in if c \<noteq> NOT v then None else Some v))"

section \<open>SET_I2C_ADDRESS and SET_GATES\<close>

definition setAddressEncode :: "u8 \<Rightarrow> bytes" where
  "setAddressEncode address = [address, NOT address]"

definition setAddressDecode :: "bytes \<Rightarrow> nat \<Rightarrow> u8 option" where
  "setAddressDecode buf len =
     (if len < 2 then None else if buf ! 1 \<noteq> NOT (buf ! 0) then None else Some (buf ! 0))"

definition setGatesEncode :: "u8 \<Rightarrow> bytes" where
  "setGatesEncode gates = [gates, NOT gates]"

definition setGatesDecode :: "bytes \<Rightarrow> nat \<Rightarrow> u8 option" where
  "setGatesDecode buf len =
     (if len < 2 then None else if buf ! 1 \<noteq> NOT (buf ! 0) then None else Some (buf ! 0))"

section \<open>Mutations without an argument, JOG, letter writes\<close>

definition sfpIsNoArgMutation :: "u8 \<Rightarrow> bool" where
  "sfpIsNoArgMutation opcode \<longleftrightarrow>
     opcode \<in> {SFP_CMD_ENTER_BOOTLOADER, SFP_CMD_HOME, SFP_CMD_REBOOT,
        SFP_CMD_CLEAR_I2C_ADDRESS, SFP_CMD_IDENTIFY, SFP_CMD_RESET_ODOMETER,
        SFP_CMD_START_SELF_TEST}"

definition noArgGuardByte :: "u8 \<Rightarrow> u8" where
  "noArgGuardByte opcode = NOT opcode"

definition noArgMutationAccepted :: "u8 \<Rightarrow> nat \<Rightarrow> u8 \<Rightarrow> bool \<Rightarrow> bool" where
  "noArgMutationAccepted opcode extraLen guard strict =
     (if extraLen = 0 then \<not> strict \<or> opcode = SFP_CMD_ENTER_BOOTLOADER
      else if extraLen \<noteq> 1 then False
      else guard = noArgGuardByte opcode)"

definition jogEncode :: "u8 \<Rightarrow> bytes" where
  "jogEncode stepsByte = [stepsByte, NOT stepsByte]"

definition jogDecode :: "bytes \<Rightarrow> nat \<Rightarrow> bool \<Rightarrow> i8 option" where
  "jogDecode payload extraLen strict =
     (if extraLen = 1 then (if strict then None else Some (payload ! 0))
      else if extraLen \<noteq> 2 \<or> payload ! 1 \<noteq> NOT (payload ! 0) then None
      else Some (payload ! 0))"

definition unitClampSpeed :: "int \<Rightarrow> int" where
  "unitClampSpeed requested =
     (if requested < 1 then 1
      else if requested > SFP_UNIT_SPEED_MAX then SFP_UNIT_SPEED_MAX
      else requested)"

definition letterReplyIndex :: "u8 \<Rightarrow> bool \<Rightarrow> u8" where
  "letterReplyIndex displayedLetter homed = (if homed then displayedLetter else SFP_LETTER_UNKNOWN)"

definition letterReadbackValid :: "u8 \<Rightarrow> u8 \<Rightarrow> u8 \<Rightarrow> bool" where
  "letterReadbackValid val complement flapAmount =
     (if val XOR complement \<noteq> 0xFF then False else val < flapAmount)"

lemmas wire_codec_defs [codec_defs] =
  versionChecksum_def versionEncodeReply_def versionReadbackValid_def
  statusChecksum_def statusEncodeReply_def statusReadbackValid_def
  offsetChecksum_def offsetEncodeReply_def offsetReadbackValid_def masked_checksum_def

section \<open>The replies as codecs\<close>

definition version_packet_ok :: "UnitVersionPacket \<Rightarrow> bool" where
  "version_packet_ok p \<longleftrightarrow> length (vp_rev p) = 9 \<and> vp_rev p ! 8 = 0"

definition version_encode :: "UnitVersionPacket \<Rightarrow> bytes" where
  "version_encode p = versionEncodeReply (Some (vp_rev p)) (vp_protocolVersion p)"

lemma version_chars:
  "length mem = 9 \<Longrightarrow> map (\<lambda>i. if mem ! i \<noteq> 0 then mem ! i else 0) [0..<8] = take 8 mem"
  by (auto intro!: nth_equalityI simp: nth_map)

lemma version_encode_body:
  "version_packet_ok p \<Longrightarrow>
     version_encode p = (let body = take 8 (vp_rev p) @ [vp_protocolVersion p]
                         in body @ [versionChecksum body])"
  by (simp add: version_encode_def versionEncodeReply_def version_packet_ok_def
      version_chars Let_def)

lemma version_rev_split: "version_packet_ok p \<Longrightarrow> take 8 (vp_rev p) @ [0] = vp_rev p"
  by (auto simp: version_packet_ok_def intro!: nth_equalityI simp: nth_append less_Suc_eq
      numeral_eq_Suc)

lemma take_append_self: "length body = n \<Longrightarrow> take n (body @ ys) = body"
  by simp

interpretation version_reply: masked_codec 9 "0x4B" version_packet_ok version_encode
  "\<lambda>buf. versionReadbackValid buf (length buf)"
proof (unfold_locales, goal_cases)
  case (1 buf p)
  then show ?case
    by (auto simp: versionReadbackValid_def versionChecksum_def split: if_splits)
next
  case (2 p)
  then show ?case
    by (simp add: version_encode_def versionEncodeReply_def Let_def)
next
  case (3 p)
  then show ?case
    by (simp add: version_encode_body versionReadbackValid_def Let_def versionChecksum_def
        masked_checksum_def version_rev_split nth_append)
      (simp add: version_packet_ok_def)
qed

interpretation status_reply: masked_codec 8 "0x7E" "\<lambda>p. length p = 8" 
  "\<lambda>p. statusEncodeReply (take 8 (p @ replicate 8 0))"
  "\<lambda>buf. statusReadbackValid buf (length buf)"
proof (unfold_locales, goal_cases)
  case (1 buf p)
  then show ?case
    by (auto simp: statusReadbackValid_def statusChecksum_def split: if_splits)
next
  case (2 p)
  then show ?case by (simp add: statusEncodeReply_def)
next
  case (3 p)
  then show ?case
    by (simp add: statusReadbackValid_def statusEncodeReply_def statusChecksum_def
        masked_checksum_def nth_append)
qed

lemma list_length3: "length buf = 3 \<longleftrightarrow> (\<exists>a b c. buf = [a, b, c])"
  by (auto simp: numeral_eq_Suc length_Suc_conv)

interpretation offset_reply: exact_codec 2 "0x1D" "\<lambda>_. True" offsetEncodeReply
  "\<lambda>buf. offsetReadbackValid buf (length buf)"
  by unfold_locales
    (auto simp: codec_defs list_length3 numeral_3_eq_3 [symmetric] xor.assoc Let_def
      split: if_splits)

section \<open>What the write frames guarantee\<close>

lemma list_length_ge4: "4 \<le> length buf \<longleftrightarrow> (\<exists>a b c d rest. buf = a # b # c # d # rest)"
  by (auto simp: numeral_eq_Suc Suc_le_length_iff)

text \<open>A unit stores an offset from a SET_OFFSET frame exactly when the frame starts with the
  encoding of that offset, so a frame with any of its four bytes damaged is refused.\<close>

lemma set_offset_accepts_exactly:
  "setOffsetDecode buf (length buf) = Some v \<longleftrightarrow> take 4 buf = setOffsetEncode v"
proof (cases "4 \<le> length buf")
  case True
  then obtain a b c d rest where buf: "buf = a # b # c # d # rest"
    by (auto simp: list_length_ge4)
  show ?thesis
    unfolding buf setOffsetDecode_def setOffsetEncode_def Let_def
    by (auto split: if_splits) (metis byte_of_le16 le16_byte_of)+
next
  case False
  then show ?thesis
    by (auto simp: setOffsetDecode_def setOffsetEncode_def Let_def dest!: arg_cong [where f = length])
qed

text \<open>A letter write whose letter byte arrives as the opcode of any mutation that takes no
  argument never runs it: the second byte of a letter write is the clamped speed, and no clamped
  speed is the guard byte of such an opcode, in the strict and in the lenient rule alike.\<close>

lemma letter_write_guard:
  "sfpIsNoArgMutation opcode \<Longrightarrow>
     \<not> noArgMutationAccepted opcode 1 (word_of_int (unitClampSpeed requested)) strict"
proof -
  have "unitClampSpeed requested \<in> {1..12}"
    by (simp add: unitClampSpeed_def)
  also have "{1..12 :: int} = set [1, 2, 3, 4, 5, 6, 7, 8, 9, 10, 11, 12]"
    by (simp add: set_eq_iff) presburger
  finally show "sfpIsNoArgMutation opcode \<Longrightarrow> \<not> noArgMutationAccepted opcode 1 (word_of_int (unitClampSpeed requested)) strict"
    by (auto simp: sfpIsNoArgMutation_def noArgMutationAccepted_def noArgGuardByte_def)
qed

end
