(* ===== verification/Unit_Replies.thy ===== *)
theory Unit_Replies
  imports Wire_Contract
begin

text \<open>
  The diagnostic replies of a unit: \<open>Unit/UnitOdometer.h\<close>, \<open>Unit/UnitDrift.h\<close> (encoders),
  \<open>shared/UnitProtocolHelpers.h\<close> (the masters' decoders of those), \<open>shared/UnitSelfTest.h\<close>,
  \<open>shared/UnitVitals.h\<close>, \<open>shared/UnitExtDiag.h\<close>, \<open>shared/UnitLifetime.h\<close> and
  \<open>shared/UnitBusRecord.h\<close>. Every format is an instance of the codec interface of the
  prelude. A decoder that takes a fixed-size array is a function of the bytes read.
\<close>

section \<open>GET_ODOMETER\<close>

definition odometerEncodeReply :: "u32 \<Rightarrow> bytes" where
  "odometerEncodeReply revolutions =
     (let body = [byte_of 0 revolutions, byte_of 1 revolutions,
                  byte_of 2 revolutions, byte_of 3 revolutions]
      in body @ [masked_checksum 4 0xA5 body])"

definition odometerReadbackValid :: "bytes \<Rightarrow> u32 option" where
  "odometerReadbackValid buf =
     (if buf ! 4 \<noteq> masked_checksum 4 0xA5 buf then None
      else Some (le32 (buf ! 0) (buf ! 1) (buf ! 2) (buf ! 3)))"

section \<open>GET_DIAG\<close>

record UnitDiagReading =
  dr_physicalLetter :: u8
  dr_flags :: u8
  dr_driftEvents :: u8
  dr_lastDriftSteps :: i8

definition driftEncodeDiagReply :: "u8 \<Rightarrow> u8 \<Rightarrow> u8 \<Rightarrow> i16 \<Rightarrow> bytes" where
  "driftEncodeDiagReply physicalLetter flags driftEvents lastDriftSteps =
     (let c1 = (if sint lastDriftSteps > 127 then 127 else lastDriftSteps);
          c2 = (if sint c1 < -127 then -127 else c1);
          body = [physicalLetter, flags, driftEvents, ucast c2, 0]
      in body @ [masked_checksum 5 0xB7 body])"

definition diagReadbackValid :: "bytes \<Rightarrow> u8 \<Rightarrow> UnitDiagReading option" where
  "diagReadbackValid buf flapAmount =
     (if buf ! 5 \<noteq> masked_checksum 5 0xB7 buf then None
      else if buf ! 0 \<noteq> 0xFF \<and> buf ! 0 \<ge> flapAmount then None
      else Some \<lparr>dr_physicalLetter = buf ! 0, dr_flags = buf ! 1,
                 dr_driftEvents = buf ! 2, dr_lastDriftSteps = buf ! 3\<rparr>)"

section \<open>GET_SELF_TEST\<close>

abbreviation (input) SELFTEST_STATE_NEVER :: u8 where "SELFTEST_STATE_NEVER \<equiv> 0"
abbreviation (input) SELFTEST_STATE_RUNNING :: u8 where "SELFTEST_STATE_RUNNING \<equiv> 1"
abbreviation (input) SELFTEST_STATE_OK :: u8 where "SELFTEST_STATE_OK \<equiv> 2"
abbreviation (input) SELFTEST_STATE_FAILED :: u8 where "SELFTEST_STATE_FAILED \<equiv> 3"

abbreviation (input) SELFTEST_REASON_NONE :: u8 where "SELFTEST_REASON_NONE \<equiv> 0"
abbreviation (input) SELFTEST_REASON_HALL_STUCK :: u8 where "SELFTEST_REASON_HALL_STUCK \<equiv> 1"
abbreviation (input) SELFTEST_REASON_HALL_NEVER :: u8 where "SELFTEST_REASON_HALL_NEVER \<equiv> 2"
abbreviation (input) SELFTEST_REASON_REV_INCOMPLETE :: u8 where "SELFTEST_REASON_REV_INCOMPLETE \<equiv> 3"

record SelfTestResult =
  st_state :: u8
  st_stepsPerRev :: u16
  st_hallWindowSteps :: u16
  st_revTimeMs :: u16
  st_reason :: u8

definition selfTestEncodeReply :: "SelfTestResult \<Rightarrow> bytes" where
  "selfTestEncodeReply r =
     (let body = [st_state r,
                  byte_of 0 (st_stepsPerRev r), byte_of 1 (st_stepsPerRev r),
                  byte_of 0 (st_hallWindowSteps r), byte_of 1 (st_hallWindowSteps r),
                  byte_of 0 (st_revTimeMs r), byte_of 1 (st_revTimeMs r), st_reason r]
      in body @ [masked_checksum 8 0x5C body])"

definition selfTestReasonName :: "u8 \<Rightarrow> string" where
  "selfTestReasonName reason =
     (if reason = SELFTEST_REASON_HALL_STUCK then ''hall-stuck''
      else if reason = SELFTEST_REASON_HALL_NEVER then ''hall-never''
      else if reason = SELFTEST_REASON_REV_INCOMPLETE then ''rev-incomplete''
      else ''none'')"

text \<open>The decoder fills a \<open>UnitSelfTestReading\<close>, whose fields are those of the result.\<close>

definition selfTestReadbackValid :: "bytes \<Rightarrow> SelfTestResult option" where
  "selfTestReadbackValid buf =
     (if buf ! 8 \<noteq> masked_checksum 8 0x5C buf then None
      else if buf ! 0 > SELFTEST_STATE_FAILED then None
      else if buf ! 7 > SELFTEST_REASON_REV_INCOMPLETE then None
      else Some \<lparr>st_state = buf ! 0, st_stepsPerRev = le16 (buf ! 1) (buf ! 2),
                 st_hallWindowSteps = le16 (buf ! 3) (buf ! 4),
                 st_revTimeMs = le16 (buf ! 5) (buf ! 6), st_reason = buf ! 7\<rparr>)"

section \<open>GET_VITALS\<close>

record UnitVitals =
  vi_vccNow_mV :: u16
  vi_vccMin_mV :: u16
  vi_cmdPos :: u8
  vi_freeRamMin :: u16

definition unitVccFromAdc :: "u16 \<Rightarrow> u16" where
  "unitVccFromAdc adc =
     (if adc = 0 then 0
      else (let mv = (1100 * 1023 :: u32) div ucast adc
            in if mv > 0xFFFF then 0xFFFF else ucast mv))"

definition vitalsChecksum :: "bytes \<Rightarrow> u8" where
  "vitalsChecksum buf = masked_checksum 7 0x3C buf"

definition vitalsEncodeReply :: "UnitVitals \<Rightarrow> bytes" where
  "vitalsEncodeReply v =
     (let body = [byte_of 0 (vi_vccNow_mV v), byte_of 1 (vi_vccNow_mV v),
                  byte_of 0 (vi_vccMin_mV v), byte_of 1 (vi_vccMin_mV v), vi_cmdPos v,
                  byte_of 0 (vi_freeRamMin v), byte_of 1 (vi_freeRamMin v)]
      in body @ [vitalsChecksum body])"

definition vitalsReadbackValid :: "bytes \<Rightarrow> UnitVitals option" where
  "vitalsReadbackValid buf =
     (if buf ! 7 \<noteq> vitalsChecksum buf then None
      else Some \<lparr>vi_vccNow_mV = le16 (buf ! 0) (buf ! 1), vi_vccMin_mV = le16 (buf ! 2) (buf ! 3),
                 vi_cmdPos = buf ! 4, vi_freeRamMin = le16 (buf ! 5) (buf ! 6)\<rparr>)"

section \<open>GET_EXT_DIAG and its link-health extension\<close>

record UnitExtDiag =
  xd_stepExcessLast :: u16
  xd_stepExcessMax :: u16
  xd_vccSagLastMove :: u16
  xd_hallEdgesLastRev :: u8
  xd_dutyWindow :: u16
  xd_statusBits :: u8

definition extDiagWithTwiHeal :: "u8 \<Rightarrow> u8 \<Rightarrow> u8" where
  "extDiagWithTwiHeal statusBits count =
     (let c = (if count > 7 then 7 else count)
      in (statusBits AND NOT (push_bit 1 0x07)) OR push_bit 1 c)"

definition extDiagTwiHealCount :: "u8 \<Rightarrow> u8" where
  "extDiagTwiHealCount statusBits = drop_bit 1 (statusBits AND push_bit 1 0x07)"

definition extDiagChecksum :: "bytes \<Rightarrow> u8" where
  "extDiagChecksum buf = masked_checksum 10 0x93 buf"

definition extDiagEncodeReply :: "UnitExtDiag \<Rightarrow> bytes" where
  "extDiagEncodeReply d =
     (let body = [byte_of 0 (xd_stepExcessLast d), byte_of 1 (xd_stepExcessLast d),
                  byte_of 0 (xd_stepExcessMax d), byte_of 1 (xd_stepExcessMax d),
                  byte_of 0 (xd_vccSagLastMove d), byte_of 1 (xd_vccSagLastMove d),
                  xd_hallEdgesLastRev d,
                  byte_of 0 (xd_dutyWindow d), byte_of 1 (xd_dutyWindow d), xd_statusBits d]
      in body @ [extDiagChecksum body])"

definition extDiagReadbackValid :: "bytes \<Rightarrow> UnitExtDiag option" where
  "extDiagReadbackValid buf =
     (if buf ! 10 \<noteq> extDiagChecksum buf then None
      else Some \<lparr>xd_stepExcessLast = le16 (buf ! 0) (buf ! 1),
                 xd_stepExcessMax = le16 (buf ! 2) (buf ! 3),
                 xd_vccSagLastMove = le16 (buf ! 4) (buf ! 5),
                 xd_hallEdgesLastRev = buf ! 6,
                 xd_dutyWindow = le16 (buf ! 7) (buf ! 8), xd_statusBits = buf ! 9\<rparr>)"

record UnitLinkStats =
  ls_uptimeSeconds :: u32
  ls_rxFrames :: u16
  ls_txReplies :: u16
  ls_deafHeals :: u8

definition extDiagLinkChecksum :: "bytes \<Rightarrow> u8" where
  "extDiagLinkChecksum ext = masked_checksum 9 0xC6 ext"

definition extDiagLinkEncode :: "UnitLinkStats \<Rightarrow> bytes" where
  "extDiagLinkEncode l =
     (let body = [byte_of 0 (ls_uptimeSeconds l), byte_of 1 (ls_uptimeSeconds l),
                  byte_of 2 (ls_uptimeSeconds l), byte_of 3 (ls_uptimeSeconds l),
                  byte_of 0 (ls_rxFrames l), byte_of 1 (ls_rxFrames l),
                  byte_of 0 (ls_txReplies l), byte_of 1 (ls_txReplies l), ls_deafHeals l]
      in body @ [extDiagLinkChecksum body])"

definition extDiagLinkReadbackValid :: "bytes \<Rightarrow> UnitLinkStats option" where
  "extDiagLinkReadbackValid ext =
     (if ext ! 9 \<noteq> extDiagLinkChecksum ext then None
      else Some \<lparr>ls_uptimeSeconds = le32 (ext ! 0) (ext ! 1) (ext ! 2) (ext ! 3),
                 ls_rxFrames = le16 (ext ! 4) (ext ! 5), ls_txReplies = le16 (ext ! 6) (ext ! 7),
                 ls_deafHeals = ext ! 8\<rparr>)"

section \<open>GET_LIFETIME\<close>

record UnitLifetimeFacts =
  lt_layoutVersion :: u8
  lt_homeFailedCount :: u8
  lt_featureGates :: u8
  lt_idleHallFutileRehomes :: u8
  lt_idleHallStoodDown :: bool
  lt_stepExcessLifetimeMax :: u16
  lt_selfTestFirstHallWindow :: u16
  lt_selfTestFirstStepsPerRev :: u16
  lt_selfTestLastHallWindow :: u16
  lt_selfTestLastStepsPerRev :: u16

definition lifetimeChecksum :: "bytes \<Rightarrow> u8" where
  "lifetimeChecksum buf = masked_checksum 14 0x6E buf"

definition lifetimeEncodeReply :: "UnitLifetimeFacts \<Rightarrow> bytes" where
  "lifetimeEncodeReply f =
     (let body = [lt_layoutVersion f, lt_homeFailedCount f, lt_featureGates f,
                  (if lt_idleHallFutileRehomes f > 0x7F then 0x7F else lt_idleHallFutileRehomes f)
                    OR (if lt_idleHallStoodDown f then 0x80 else 0),
                  byte_of 0 (lt_stepExcessLifetimeMax f), byte_of 1 (lt_stepExcessLifetimeMax f),
                  byte_of 0 (lt_selfTestFirstHallWindow f), byte_of 1 (lt_selfTestFirstHallWindow f),
                  byte_of 0 (lt_selfTestFirstStepsPerRev f), byte_of 1 (lt_selfTestFirstStepsPerRev f),
                  byte_of 0 (lt_selfTestLastHallWindow f), byte_of 1 (lt_selfTestLastHallWindow f),
                  byte_of 0 (lt_selfTestLastStepsPerRev f), byte_of 1 (lt_selfTestLastStepsPerRev f)]
      in body @ [lifetimeChecksum body])"

definition lifetimeReadbackValid :: "bytes \<Rightarrow> nat \<Rightarrow> UnitLifetimeFacts option" where
  "lifetimeReadbackValid buf len =
     (if len < 15 then None
      else if buf ! 14 \<noteq> lifetimeChecksum buf then None
      else Some \<lparr>lt_layoutVersion = buf ! 0, lt_homeFailedCount = buf ! 1,
                 lt_featureGates = buf ! 2,
                 lt_idleHallFutileRehomes = (buf ! 3) AND 0x7F,
                 lt_idleHallStoodDown = ((buf ! 3) AND 0x80 \<noteq> 0),
                 lt_stepExcessLifetimeMax = le16 (buf ! 4) (buf ! 5),
                 lt_selfTestFirstHallWindow = le16 (buf ! 6) (buf ! 7),
                 lt_selfTestFirstStepsPerRev = le16 (buf ! 8) (buf ! 9),
                 lt_selfTestLastHallWindow = le16 (buf ! 10) (buf ! 11),
                 lt_selfTestLastStepsPerRev = le16 (buf ! 12) (buf ! 13)\<rparr>)"

section \<open>GET_BUS_RECORD\<close>

record UnitBusRecord =
  br_silences :: u8
  br_lastMinutes :: u8
  br_longestMinutes :: u8
  br_reinits :: u8
  br_reinitsHeard :: u8
  br_selfRestarts :: u8
  br_flags :: u8

definition busRecordChecksum :: "bytes \<Rightarrow> u8" where
  "busRecordChecksum buf = masked_checksum 8 0xD4 buf"

definition busRecordEncodeReply :: "UnitBusRecord \<Rightarrow> u8 \<Rightarrow> bytes" where
  "busRecordEncodeReply r silentNowMinutes =
     (let body = [br_silences r, br_lastMinutes r, br_longestMinutes r, br_reinits r,
                  br_reinitsHeard r, br_selfRestarts r, br_flags r, silentNowMinutes]
      in body @ [busRecordChecksum body])"

definition busRecordReadbackValid :: "bytes \<Rightarrow> nat \<Rightarrow> (UnitBusRecord \<times> u8) option" where
  "busRecordReadbackValid buf len =
     (if len < 9 then None
      else if buf ! 8 \<noteq> busRecordChecksum buf then None
      else Some (\<lparr>br_silences = buf ! 0, br_lastMinutes = buf ! 1, br_longestMinutes = buf ! 2,
                  br_reinits = buf ! 3, br_reinitsHeard = buf ! 4, br_selfRestarts = buf ! 5,
                  br_flags = buf ! 6\<rparr>, buf ! 7))"

section \<open>The replies as codecs\<close>

lemmas reply_codec_defs [codec_defs] =
  odometerEncodeReply_def odometerReadbackValid_def
  driftEncodeDiagReply_def diagReadbackValid_def
  selfTestEncodeReply_def selfTestReadbackValid_def
  vitalsChecksum_def vitalsEncodeReply_def vitalsReadbackValid_def
  extDiagChecksum_def extDiagEncodeReply_def extDiagReadbackValid_def
  extDiagLinkChecksum_def extDiagLinkEncode_def extDiagLinkReadbackValid_def
  lifetimeChecksum_def lifetimeEncodeReply_def lifetimeReadbackValid_def
  busRecordChecksum_def busRecordEncodeReply_def busRecordReadbackValid_def

lemma list_length5:
  "length buf = 5 \<longleftrightarrow> (\<exists>x0 x1 x2 x3 x4.
     buf = [x0, x1, x2, x3, x4])"
  by (auto simp: numeral_eq_Suc length_Suc_conv)

lemma list_length6:
  "length buf = 6 \<longleftrightarrow> (\<exists>x0 x1 x2 x3 x4 x5.
     buf = [x0, x1, x2, x3, x4, x5])"
  by (auto simp: numeral_eq_Suc length_Suc_conv)

lemma list_length8:
  "length buf = 8 \<longleftrightarrow> (\<exists>x0 x1 x2 x3 x4 x5 x6 x7.
     buf = [x0, x1, x2, x3, x4, x5, x6, x7])"
  by (auto simp: numeral_eq_Suc length_Suc_conv)

lemma list_length9:
  "length buf = 9 \<longleftrightarrow> (\<exists>x0 x1 x2 x3 x4 x5 x6 x7 x8.
     buf = [x0, x1, x2, x3, x4, x5, x6, x7, x8])"
  by (auto simp: numeral_eq_Suc length_Suc_conv)

lemma list_length10:
  "length buf = 10 \<longleftrightarrow> (\<exists>x0 x1 x2 x3 x4 x5 x6 x7 x8 x9.
     buf = [x0, x1, x2, x3, x4, x5, x6, x7, x8, x9])"
  by (auto simp: numeral_eq_Suc length_Suc_conv)

lemma list_length11:
  "length buf = 11 \<longleftrightarrow> (\<exists>x0 x1 x2 x3 x4 x5 x6 x7 x8 x9 x10.
     buf = [x0, x1, x2, x3, x4, x5, x6, x7, x8, x9, x10])"
  by (auto simp: numeral_eq_Suc length_Suc_conv)

lemma list_length15:
  "length buf = 15 \<longleftrightarrow> (\<exists>x0 x1 x2 x3 x4 x5 x6 x7 x8 x9 x10 x11 x12 x13 x14.
     buf = [x0, x1, x2, x3, x4, x5, x6, x7, x8, x9, x10, x11, x12, x13, x14])"
  by (auto simp: numeral_eq_Suc length_Suc_conv)

text \<open>The value sets the encoders are exact on.\<close>

definition selftest_ok :: "SelfTestResult \<Rightarrow> bool" where
  "selftest_ok r \<longleftrightarrow> st_state r \<le> SELFTEST_STATE_FAILED \<and> st_reason r \<le> SELFTEST_REASON_REV_INCOMPLETE"

definition lifetime_ok :: "UnitLifetimeFacts \<Rightarrow> bool" where
  "lifetime_ok f \<longleftrightarrow> lt_idleHallFutileRehomes f \<le> 0x7F"

definition diag_ok :: "UnitDiagReading \<Rightarrow> bool" where
  "diag_ok r \<longleftrightarrow> (dr_physicalLetter r = 0xFF \<or> dr_physicalLetter r < 45) \<and> dr_lastDriftSteps r \<noteq> 0x80"

definition diag_encode :: "UnitDiagReading \<Rightarrow> bytes" where
  "diag_encode r = driftEncodeDiagReply (dr_physicalLetter r) (dr_flags r) (dr_driftEvents r)
     (scast (dr_lastDriftSteps r))"

interpretation odometer_reply: exact_codec 4 "0xA5" "\<lambda>_. True" odometerEncodeReply
  odometerReadbackValid
  by unfold_locales
    (auto simp: codec_defs list_length5 xor.assoc Let_def split: if_splits)

interpretation vitals_reply: exact_codec 7 "0x3C" "\<lambda>_. True" vitalsEncodeReply
  vitalsReadbackValid
  by unfold_locales
    (auto simp: codec_defs list_length8 xor.assoc Let_def split: if_splits)

interpretation selftest_reply: exact_codec 8 "0x5C" selftest_ok selfTestEncodeReply
  selfTestReadbackValid
  by unfold_locales
    (auto simp: codec_defs selftest_ok_def list_length9 xor.assoc Let_def not_less split: if_splits)

interpretation ext_diag_reply: exact_codec 10 "0x93" "\<lambda>_. True" extDiagEncodeReply
  extDiagReadbackValid
  by unfold_locales
    (auto simp: codec_defs list_length11 xor.assoc Let_def split: if_splits)

interpretation ext_link_reply: exact_codec 9 "0xC6" "\<lambda>_. True" extDiagLinkEncode
  extDiagLinkReadbackValid
  by unfold_locales
    (auto simp: codec_defs list_length10 xor.assoc Let_def split: if_splits)

interpretation bus_record_reply: exact_codec 8 "0xD4" "\<lambda>_. True"
  "\<lambda>(r, silentNow). busRecordEncodeReply r silentNow"
  "\<lambda>buf. busRecordReadbackValid buf (length buf)"
  by unfold_locales
    (auto simp: codec_defs list_length9 xor.assoc Let_def split: if_splits prod.splits)

interpretation lifetime_reply: exact_codec 14 "0x6E" lifetime_ok lifetimeEncodeReply
  "\<lambda>buf. lifetimeReadbackValid buf (length buf)"
  by unfold_locales
    (auto simp: codec_defs lifetime_ok_def list_length15 xor.assoc Let_def not_less
      join_high_bit split_high_bit_cases split: if_splits)

lemma sint_scast_8_16 [simp]: "sint (scast (x :: i8) :: i16) = sint x"
  by (simp add: sint_up_scast is_up)

lemma ucast_scast_8_16 [simp]: "(ucast (scast (x :: i8) :: i16) :: i8) = x"
  by (rule bit_word_eqI) (auto simp: bit_simps)

lemma sint_8_range: "- 128 \<le> sint (x :: i8)" "sint x \<le> 127"
  using sint_range_size [of x] by (auto simp: word_size)

lemma sint_m128: "sint (x :: i8) = - 128 \<longleftrightarrow> x = 0x80"
proof -
  have "sint (0x80 :: i8) = - 128" by simp
  then show ?thesis by (metis signed_word_eqI)
qed

lemma diag_encode_eq:
  assumes "dr_lastDriftSteps r \<noteq> 0x80"
  shows "diag_encode r =
    (let body = [dr_physicalLetter r, dr_flags r, dr_driftEvents r, dr_lastDriftSteps r, 0]
     in body @ [masked_checksum 5 0xB7 body])"
proof -
  have "- 127 \<le> sint (dr_lastDriftSteps r)" "sint (dr_lastDriftSteps r) \<le> 127"
    using sint_8_range [of "dr_lastDriftSteps r"] sint_m128 [of "dr_lastDriftSteps r"] assms
    by linarith+
  then show ?thesis
    by (simp add: diag_encode_def driftEncodeDiagReply_def not_less)
qed

interpretation diag_reply: masked_codec 5 "0xB7" diag_ok diag_encode
  "\<lambda>buf. diagReadbackValid buf 45"
proof (unfold_locales, goal_cases)
  case (3 r)
  then have "dr_lastDriftSteps r \<noteq> 0x80" by (simp add: diag_ok_def)
  with 3 show ?case
    by (auto simp: diag_ok_def diag_encode_eq diagReadbackValid_def masked_checksum_def Let_def)
qed (auto simp: diag_encode_def driftEncodeDiagReply_def diagReadbackValid_def Let_def
    split: if_splits)

section \<open>What a reader may rely on\<close>

lemma replicate_numerals:
  "replicate (numeral k) x = x # replicate (pred_numeral k) x"
  by (simp add: numeral_eq_Suc)

text \<open>
  What a unit whose firmware predates a query answers it with: its one-byte status, repeated
  by a sender that restarts or followed by the padding of an undriven bus, or nothing driven at
  all.
\<close>

definition legacy_replies :: "nat \<Rightarrow> bytes list" where
  "legacy_replies n =
     [replicate n 0, replicate n 1, replicate n 0xFF,
      0 # replicate (n - 1) 0xFF, 1 # replicate (n - 1) 0xFF]"

text \<open>The wall runs several unit firmwares during a reflash. None of the shapes in which an
  older unit answers a query it does not know is accepted as a reading by any decoder, so an old
  unit shows as having no data and never as a phantom measurement.\<close>

lemma legacy_replies_rejected:
  "list_all (\<lambda>(n, rejects). list_all rejects (legacy_replies n))
     [(10, \<lambda>buf. versionReadbackValid buf (length buf) = None),
      (9, \<lambda>buf. statusReadbackValid buf (length buf) = None),
      (3, \<lambda>buf. offsetReadbackValid buf (length buf) = None),
      (5, \<lambda>buf. odometerReadbackValid buf = None),
      (6, \<lambda>buf. diagReadbackValid buf 45 = None),
      (9, \<lambda>buf. selfTestReadbackValid buf = None),
      (8, \<lambda>buf. vitalsReadbackValid buf = None),
      (11, \<lambda>buf. extDiagReadbackValid buf = None),
      (10, \<lambda>buf. extDiagLinkReadbackValid buf = None),
      (15, \<lambda>buf. lifetimeReadbackValid buf (length buf) = None),
      (9, \<lambda>buf. busRecordReadbackValid buf (length buf) = None)]"
  by (simp add: codec_defs legacy_replies_def replicate_numerals)

text \<open>Replies of the same length are never taken for each other: of the three decoders of
  nine-byte replies (status, self test, bus record) at most one accepts a given buffer.\<close>

lemma nine_byte_replies_not_confused:
  assumes "length buf = 9"
  shows "\<not> (statusReadbackValid buf (length buf) \<noteq> None \<and> selfTestReadbackValid buf \<noteq> None)
    \<and> \<not> (statusReadbackValid buf (length buf) \<noteq> None \<and> busRecordReadbackValid buf (length buf) \<noteq> None)
    \<and> \<not> (selfTestReadbackValid buf \<noteq> None \<and> busRecordReadbackValid buf (length buf) \<noteq> None)"
  using assms
    status_reply.accept_checksum [of buf] selftest_reply.accept_checksum [of buf]
    bus_record_reply.accept_checksum [of buf]
  by (fastforce simp: masked_checksum_def)

lemma nine_byte_replies_not_confused_witness:
  "busRecordReadbackValid (statusEncodeReply [1, 0, 2, 0, 0, 0, 0, 5]) 9 = None"
proof -
  have "length (statusEncodeReply [1, 0, 2, 0, 0, 0, 0, 5]) = 9"
    and "statusReadbackValid (statusEncodeReply [1, 0, 2, 0, 0, 0, 0, 5]) 9 \<noteq> None"
    by (simp_all add: codec_defs)
  then show ?thesis
    using nine_byte_replies_not_confused [of "statusEncodeReply [1, 0, 2, 0, 0, 0, 0, 5]"]
    by metis
qed

text \<open>The lifetime reply is exact: a 15-byte buffer decodes to a set of facts exactly when it
  is their encoding, so decoding loses nothing and every buffer that is no encoding is refused.
  The only value the format cannot carry is a re-home count above its seven bits.\<close>

lemma lifetime_reply_exact:
  assumes "length buf = 15"
  shows "lifetimeReadbackValid buf (length buf) = Some f \<longleftrightarrow>
    lt_idleHallFutileRehomes f \<le> 0x7F \<and> lifetimeEncodeReply f = buf"
  using lifetime_reply.accepts_exactly [of buf f] assms by (simp add: lifetime_ok_def)

lemma lifetime_reply_exact_witness:
  "lifetimeReadbackValid
     (lifetimeEncodeReply \<lparr>lt_layoutVersion = 1, lt_homeFailedCount = 2, lt_featureGates = 4,
       lt_idleHallFutileRehomes = 3, lt_idleHallStoodDown = True, lt_stepExcessLifetimeMax = 300,
       lt_selfTestFirstHallWindow = 46, lt_selfTestFirstStepsPerRev = 2038,
       lt_selfTestLastHallWindow = 12, lt_selfTestLastStepsPerRev = 2050\<rparr>) 15 =
   Some \<lparr>lt_layoutVersion = 1, lt_homeFailedCount = 2, lt_featureGates = 4,
       lt_idleHallFutileRehomes = 3, lt_idleHallStoodDown = True, lt_stepExcessLifetimeMax = 300,
       lt_selfTestFirstHallWindow = 46, lt_selfTestFirstStepsPerRev = 2038,
       lt_selfTestLastHallWindow = 12, lt_selfTestLastStepsPerRev = 2050\<rparr>"
proof -
  let ?f = "\<lparr>lt_layoutVersion = 1, lt_homeFailedCount = 2, lt_featureGates = 4,
       lt_idleHallFutileRehomes = 3, lt_idleHallStoodDown = True, lt_stepExcessLifetimeMax = 300,
       lt_selfTestFirstHallWindow = 46, lt_selfTestFirstStepsPerRev = 2038,
       lt_selfTestLastHallWindow = 12, lt_selfTestLastStepsPerRev = 2050\<rparr>"
  have "length (lifetimeEncodeReply ?f) = 15"
    by (simp add: lifetimeEncodeReply_def)
  then show ?thesis
    using lifetime_reply_exact [of "lifetimeEncodeReply ?f" ?f] by simp
qed

text \<open>No single damaged byte of a drift diagnosis goes unnoticed, wherever it is: a reply the
  master accepts stops being accepted when any one of its six bytes is replaced.\<close>

lemma diag_single_byte_detected:
  assumes "length buf = 6" and "diagReadbackValid buf 45 = Some r"
    and "i < 6" and "b \<noteq> buf ! i"
  shows "diagReadbackValid (buf[i := b]) 45 = None"
  using diag_reply.single_byte_rejected [of buf i b] assms by simp

lemma diag_single_byte_detected_witness:
  "diagReadbackValid ((driftEncodeDiagReply 3 2 1 (-200))[3 := 0x80]) 45 = None"
  by (rule diag_single_byte_detected [where i = 3 and b = "0x80"
        and r = "\<lparr>dr_physicalLetter = 3, dr_flags = 2, dr_driftEvents = 1, dr_lastDriftSteps = 0x81\<rparr>"])
    (simp_all add: codec_defs Let_def)

end
