(* ===== verification/Unit_Eeprom.thy ===== *)
theory Unit_Eeprom
  imports Unit_Replies
begin

text \<open>
  What a unit keeps across power cycles: the EEPROM map and block integrity of
  \<open>Unit/UnitEeprom.h\<close>, the reset causes of \<open>shared/UnitResetCause.h\<close>, and the glue of
  \<open>Unit/Unit.ino\<close> that reads and writes the blocks at boot and from \<open>loop()\<close>.
  The EEPROM is a map from addresses to bytes. An operation that writes it is the list of its
  byte writes in the order of the code, so that a power loss in the middle is a prefix.
\<close>

section \<open>The EEPROM and its writes\<close>

type_synonym eeprom = "nat \<Rightarrow> u8"
type_synonym ee_writes = "(nat \<times> u8) list"

definition ee_read :: "eeprom \<Rightarrow> nat \<Rightarrow> nat \<Rightarrow> bytes" where
  "ee_read ee at n = map ee [at..<at + n]"

text \<open>The loop \<open>for (i = 0; i < n; i++) EEPROM.update(at + i, block[i])\<close>.\<close>

definition ee_block_writes :: "nat \<Rightarrow> bytes \<Rightarrow> ee_writes" where
  "ee_block_writes at block = zip [at..<at + length block] block"

definition ee_apply :: "eeprom \<Rightarrow> ee_writes \<Rightarrow> eeprom" where
  "ee_apply ee ws = fold (\<lambda>(a, v) e. e(a := v)) ws ee"

lemma ee_apply_Nil [simp]: "ee_apply ee [] = ee"
  by (simp add: ee_apply_def)

lemma ee_apply_Cons [simp]: "ee_apply ee ((a, v) # ws) = ee_apply (ee(a := v)) ws"
  by (simp add: ee_apply_def)

lemma ee_apply_append [simp]: "ee_apply ee (xs @ ys) = ee_apply (ee_apply ee xs) ys"
  by (simp add: ee_apply_def)

lemma ee_apply_other: "a \<notin> fst ` set ws \<Longrightarrow> ee_apply ee ws a = ee a"
  by (induction ws arbitrary: ee) (auto simp: ee_apply_def)

lemma set_ee_block_writes: "fst ` set (ee_block_writes at block) = {at..<at + length block}"
  by (simp add: ee_block_writes_def flip: set_map)

lemma length_ee_block_writes [simp]: "length (ee_block_writes at block) = length block"
  by (simp add: ee_block_writes_def)

lemma length_ee_read [simp]: "length (ee_read ee at n) = n"
  by (simp add: ee_read_def)

lemma ee_block_writes_Cons: "ee_block_writes at (b # bs) = (at, b) # ee_block_writes (Suc at) bs"
  by (simp add: ee_block_writes_def upt_rec)

lemma ee_read_block_writes [simp]:
  "n = length block \<Longrightarrow> ee_read (ee_apply ee (ee_block_writes at block)) at n = block"
proof (induction block arbitrary: at ee n)
  case (Cons b bs)
  have "ee_apply (ee(at := b)) (ee_block_writes (Suc at) bs) at = b"
    by (subst ee_apply_other) (auto simp: set_ee_block_writes)
  moreover have "ee_read (ee_apply (ee(at := b)) (ee_block_writes (Suc at) bs)) (Suc at) (length bs) = bs"
    by (rule Cons.IH) simp
  ultimately show ?case
    using Cons.prems by (simp add: ee_block_writes_Cons ee_read_def upt_rec)
qed (simp add: ee_read_def)

lemma ee_block_writes_nth:
  assumes "i < length block"
  shows "ee_apply ee (ee_block_writes at block) (at + i) = block ! i"
proof -
  have "ee_read (ee_apply ee (ee_block_writes at block)) at (length block) ! i = block ! i"
    by simp
  with assms show ?thesis
    by (simp add: ee_read_def del: ee_read_block_writes)
qed

lemma ee_read_other:
  "{at..<at + n} \<inter> fst ` set ws = {} \<Longrightarrow> ee_read (ee_apply ee ws) at n = ee_read ee at n"
  by (auto simp: ee_read_def intro!: ee_apply_other)

section \<open>The map\<close>

abbreviation (input) UNIT_EE_LAYOUT_VERSION :: u8 where "UNIT_EE_LAYOUT_VERSION \<equiv> 1"
abbreviation (input) UNIT_EE_RING_INIT_VERSION :: u8 where "UNIT_EE_RING_INIT_VERSION \<equiv> 2"
abbreviation (input) UNIT_EE_RESET_MARK_REQUESTED :: u8 where "UNIT_EE_RESET_MARK_REQUESTED \<equiv> 0xA5"
abbreviation (input) EE_SIZE :: nat where "EE_SIZE \<equiv> 1024"
abbreviation (input) EE_LAYOUT_VERSION_ADDR :: nat where "EE_LAYOUT_VERSION_ADDR \<equiv> 0"
abbreviation (input) EE_CAL_OFFSET :: nat where "EE_CAL_OFFSET \<equiv> 4"
abbreviation (input) EE_HEALTH_BASE :: nat where "EE_HEALTH_BASE \<equiv> 8"
abbreviation (input) EE_RING_INIT_ADDR :: nat where "EE_RING_INIT_ADDR \<equiv> 24"
abbreviation (input) EE_RESET_MARK :: nat where "EE_RESET_MARK \<equiv> 26"
abbreviation (input) EE_BUS_RECORD :: nat where "EE_BUS_RECORD \<equiv> 28"
abbreviation (input) EE_ODO_RING_BASE :: nat where "EE_ODO_RING_BASE \<equiv> 64"

definition UNIT_GATE_ALL :: u8 where
  "UNIT_GATE_ALL = 0x01 OR 0x04 OR 0x08 OR 0x10"

definition unitGateEnabled :: "u8 \<Rightarrow> u8 \<Rightarrow> bool" where
  "unitGateEnabled gates gate \<longleftrightarrow> gates AND gate \<noteq> 0"

definition unitGateBitsKnown :: "u8 \<Rightarrow> bool" where
  "unitGateBitsKnown gates \<longleftrightarrow> gates AND NOT UNIT_GATE_ALL = 0"

section \<open>Blocks\<close>

definition unitEeBlockChecksum :: "bytes \<Rightarrow> nat \<Rightarrow> u8 \<Rightarrow> u8" where
  "unitEeBlockChecksum bs len cmask = masked_checksum len cmask bs"

definition unitEeIsBlank :: "u8 \<Rightarrow> bool" where
  "unitEeIsBlank layoutVersion \<longleftrightarrow> layoutVersion \<noteq> UNIT_EE_LAYOUT_VERSION"

definition unitEeIdentityEncode :: "u8 \<Rightarrow> bytes" where
  "unitEeIdentityEncode address =
     (let body = [UNIT_EE_LAYOUT_VERSION, address, 0x01]
      in body @ [unitEeBlockChecksum body 3 0x5A])"

definition unitEeIdentityClear :: bytes where
  "unitEeIdentityClear =
     (let body = [UNIT_EE_LAYOUT_VERSION, 0, 0] in body @ [unitEeBlockChecksum body 3 0x5A])"

definition unitEeIdentityAddress :: "bytes \<Rightarrow> u8" where
  "unitEeIdentityAddress block =
     (if unitEeIsBlank (block ! 0) then 0
      else if block ! 3 \<noteq> unitEeBlockChecksum block 3 0x5A then 0
      else if (block ! 2) AND 0x01 = 0 then 0
      else if block ! 1 < 1 \<or> block ! 1 > 126 then 0
      else block ! 1)"

definition unitEeResetMarkEncode :: "bool \<Rightarrow> bytes" where
  "unitEeResetMarkEncode requested =
     (let body = [if requested then UNIT_EE_RESET_MARK_REQUESTED else 0]
      in body @ [unitEeBlockChecksum body 1 0x96])"

definition unitEeResetMarkRequested :: "bytes \<Rightarrow> bool" where
  "unitEeResetMarkRequested block =
     (if block ! 1 \<noteq> unitEeBlockChecksum block 1 0x96 then False
      else block ! 0 = UNIT_EE_RESET_MARK_REQUESTED)"

definition unitEeBusRecordEncode :: "UnitBusRecord \<Rightarrow> bytes" where
  "unitEeBusRecordEncode r =
     (let body = [br_silences r, br_lastMinutes r, br_longestMinutes r, br_reinits r,
                  br_reinitsHeard r, br_selfRestarts r, br_flags r]
      in body @ [unitEeBlockChecksum body 7 0xB3])"

definition empty_bus_record :: UnitBusRecord where
  "empty_bus_record = \<lparr>br_silences = 0, br_lastMinutes = 0, br_longestMinutes = 0,
     br_reinits = 0, br_reinitsHeard = 0, br_selfRestarts = 0, br_flags = 0\<rparr>"

text \<open>The flag the function returns, with the record it leaves in \<open>out\<close>.\<close>

definition unitEeBusRecordDecode :: "bytes \<Rightarrow> bool \<times> UnitBusRecord" where
  "unitEeBusRecordDecode block =
     (if block ! 7 \<noteq> unitEeBlockChecksum block 7 0xB3 then (False, empty_bus_record)
      else (True, \<lparr>br_silences = block ! 0, br_lastMinutes = block ! 1,
              br_longestMinutes = block ! 2, br_reinits = block ! 3, br_reinitsHeard = block ! 4,
              br_selfRestarts = block ! 5, br_flags = block ! 6\<rparr>))"

definition unitEeRingInitEncode :: bytes where
  "unitEeRingInitEncode =
     (let body = [UNIT_EE_RING_INIT_VERSION] in body @ [unitEeBlockChecksum body 1 0x4B])"

definition unitEeRingInitDone :: "bytes \<Rightarrow> bool" where
  "unitEeRingInitDone block =
     (if block ! 1 \<noteq> unitEeBlockChecksum block 1 0x4B then False
      else block ! 0 = UNIT_EE_RING_INIT_VERSION)"

definition unitEeCalEncode :: "i16 \<Rightarrow> bytes" where
  "unitEeCalEncode offset =
     (let body = [byte_of 0 offset, byte_of 1 offset]
      in body @ [unitEeBlockChecksum body 2 0x2D])"

definition unitEeCalDecode :: "bytes \<Rightarrow> bool \<times> i16" where
  "unitEeCalDecode block =
     (if block ! 2 \<noteq> unitEeBlockChecksum block 2 0x2D then (False, 0)
      else (True, le16 (block ! 0) (block ! 1)))"

section \<open>Lifetime health\<close>

record UnitLifetimeHealth =
  lh_brownoutCount :: u8
  lh_watchdogCount :: u8
  lh_homeFailedCount :: u8
  lh_featureGates :: u8
  lh_stepExcessLifetimeMax :: u16
  lh_selfTestFirstHallWindow :: u16
  lh_selfTestFirstStepsPerRev :: u16
  lh_selfTestLastHallWindow :: u16
  lh_selfTestLastStepsPerRev :: u16

definition zero_health :: UnitLifetimeHealth where
  "zero_health = \<lparr>lh_brownoutCount = 0, lh_watchdogCount = 0, lh_homeFailedCount = 0,
     lh_featureGates = 0, lh_stepExcessLifetimeMax = 0, lh_selfTestFirstHallWindow = 0,
     lh_selfTestFirstStepsPerRev = 0, lh_selfTestLastHallWindow = 0,
     lh_selfTestLastStepsPerRev = 0\<rparr>"

definition unitEeHealthEncode :: "UnitLifetimeHealth \<Rightarrow> bytes" where
  "unitEeHealthEncode h =
     (let body = [lh_brownoutCount h, lh_watchdogCount h, lh_homeFailedCount h, lh_featureGates h,
                  byte_of 0 (lh_stepExcessLifetimeMax h), byte_of 1 (lh_stepExcessLifetimeMax h),
                  byte_of 0 (lh_selfTestFirstHallWindow h), byte_of 1 (lh_selfTestFirstHallWindow h),
                  byte_of 0 (lh_selfTestFirstStepsPerRev h), byte_of 1 (lh_selfTestFirstStepsPerRev h),
                  byte_of 0 (lh_selfTestLastHallWindow h), byte_of 1 (lh_selfTestLastHallWindow h),
                  byte_of 0 (lh_selfTestLastStepsPerRev h), byte_of 1 (lh_selfTestLastStepsPerRev h)]
      in body @ [unitEeBlockChecksum body 14 0x71])"

definition unitEeHealthDecode :: "bytes \<Rightarrow> bool \<times> UnitLifetimeHealth" where
  "unitEeHealthDecode block =
     (if block ! 14 \<noteq> unitEeBlockChecksum block 14 0x71 then (False, zero_health)
      else (True, \<lparr>lh_brownoutCount = block ! 0, lh_watchdogCount = block ! 1,
              lh_homeFailedCount = block ! 2, lh_featureGates = block ! 3,
              lh_stepExcessLifetimeMax = le16 (block ! 4) (block ! 5),
              lh_selfTestFirstHallWindow = le16 (block ! 6) (block ! 7),
              lh_selfTestFirstStepsPerRev = le16 (block ! 8) (block ! 9),
              lh_selfTestLastHallWindow = le16 (block ! 10) (block ! 11),
              lh_selfTestLastStepsPerRev = le16 (block ! 12) (block ! 13)\<rparr>))"

definition unitEeBumpSaturating :: "u8 \<Rightarrow> u8" where
  "unitEeBumpSaturating counter = bump8 counter"

definition unitEeRecordSelfTest :: "UnitLifetimeHealth \<Rightarrow> u16 \<Rightarrow> u16 \<Rightarrow> UnitLifetimeHealth" where
  "unitEeRecordSelfTest h hallWindow stepsPerRev =
     (let h1 = (if hallWindow \<noteq> 0
                then (let h' = (if lh_selfTestFirstHallWindow h = 0
                                then h\<lparr>lh_selfTestFirstHallWindow := hallWindow\<rparr> else h)
                      in h'\<lparr>lh_selfTestLastHallWindow := hallWindow\<rparr>)
                else h)
      in (if stepsPerRev \<noteq> 0
          then (let h' = (if lh_selfTestFirstStepsPerRev h1 = 0
                          then h1\<lparr>lh_selfTestFirstStepsPerRev := stepsPerRev\<rparr> else h1)
                in h'\<lparr>lh_selfTestLastStepsPerRev := stepsPerRev\<rparr>)
          else h1))"

definition unitEeRecordStepExcess :: "UnitLifetimeHealth \<Rightarrow> u16 \<Rightarrow> bool \<times> UnitLifetimeHealth" where
  "unitEeRecordStepExcess h excess =
     (if excess \<le> lh_stepExcessLifetimeMax h then (False, h)
      else (True, h\<lparr>lh_stepExcessLifetimeMax := excess\<rparr>))"

section \<open>Reset causes\<close>

datatype UnitResetKind =
  UNIT_RESET_UNKNOWN | UNIT_RESET_POWER_ON | UNIT_RESET_BROWNOUT | UNIT_RESET_WATCHDOG |
  UNIT_RESET_REQUESTED | UNIT_RESET_EXTERNAL

definition unitResetClassify :: "u8 \<Rightarrow> bool \<Rightarrow> UnitResetKind" where
  "unitResetClassify mcusr requested =
     (if mcusr AND 0x01 \<noteq> 0 then UNIT_RESET_POWER_ON
      else if mcusr AND 0x04 \<noteq> 0 then UNIT_RESET_BROWNOUT
      else if mcusr AND 0x08 \<noteq> 0
        then (if requested then UNIT_RESET_REQUESTED else UNIT_RESET_WATCHDOG)
      else if mcusr AND 0x02 \<noteq> 0 then UNIT_RESET_EXTERNAL
      else UNIT_RESET_UNKNOWN)"

definition unitResetStatusByte :: "u8 \<Rightarrow> UnitResetKind \<Rightarrow> u8" where
  "unitResetStatusByte mcusr kind =
     (let b = mcusr AND 0x0F in if kind = UNIT_RESET_REQUESTED then b OR 0x80 else b)"

definition unitResetFromStatusByte :: "u8 \<Rightarrow> UnitResetKind" where
  "unitResetFromStatusByte statusByte =
     unitResetClassify statusByte (statusByte AND 0x80 \<noteq> 0)"

definition unitResetKindName :: "UnitResetKind \<Rightarrow> string" where
  "unitResetKindName k =
     (case k of UNIT_RESET_POWER_ON \<Rightarrow> ''power-on'' | UNIT_RESET_BROWNOUT \<Rightarrow> ''brownout''
      | UNIT_RESET_WATCHDOG \<Rightarrow> ''watchdog'' | UNIT_RESET_REQUESTED \<Rightarrow> ''requested''
      | UNIT_RESET_EXTERNAL \<Rightarrow> ''external'' | UNIT_RESET_UNKNOWN \<Rightarrow> ''unknown'')"

section \<open>Blocks as codecs\<close>

lemmas eeprom_codec_defs [codec_defs] =
  unitEeBlockChecksum_def unitEeIdentityEncode_def unitEeIdentityClear_def
  unitEeIdentityAddress_def unitEeIsBlank_def unitEeResetMarkEncode_def
  unitEeResetMarkRequested_def unitEeBusRecordEncode_def unitEeBusRecordDecode_def
  unitEeRingInitEncode_def unitEeRingInitDone_def unitEeCalEncode_def unitEeCalDecode_def
  unitEeHealthEncode_def unitEeHealthDecode_def

definition valid_part :: "bool \<times> 'a \<Rightarrow> 'a option" where
  "valid_part r = (if fst r then Some (snd r) else None)"

interpretation health_block: exact_codec 14 "0x71" "\<lambda>_. True" unitEeHealthEncode
  "\<lambda>block. valid_part (unitEeHealthDecode block)"
  by unfold_locales
    (auto simp: codec_defs valid_part_def list_length15 xor.assoc Let_def split: if_splits)

interpretation bus_record_block: exact_codec 7 "0xB3" "\<lambda>_. True" unitEeBusRecordEncode
  "\<lambda>block. valid_part (unitEeBusRecordDecode block)"
  by unfold_locales
    (auto simp: codec_defs valid_part_def list_length8 xor.assoc Let_def split: if_splits)

interpretation cal_block: exact_codec 2 "0x2D" "\<lambda>_. True" unitEeCalEncode
  "\<lambda>block. valid_part (unitEeCalDecode block)"
  by unfold_locales
    (auto simp: codec_defs valid_part_def list_length3 numeral_3_eq_3 [symmetric] xor.assoc
      Let_def split: if_splits)

definition burnable :: "u8 \<Rightarrow> bool" where
  "burnable address \<longleftrightarrow> 1 \<le> address \<and> address \<le> 126"

interpretation identity_block: masked_codec 3 "0x5A" burnable unitEeIdentityEncode
  "\<lambda>block. if unitEeIdentityAddress block = 0 then None else Some (unitEeIdentityAddress block)"
  by unfold_locales
    (auto simp: codec_defs burnable_def not_less split: if_splits)

lemma health_decode_valid: "fst (unitEeHealthDecode (unitEeHealthEncode h))"
  and health_decode_encode [simp]: "unitEeHealthDecode (unitEeHealthEncode h) = (True, h)"
  using health_block.round_trip [of h]
  by (auto simp: valid_part_def prod_eq_iff split: if_splits)

lemma cal_decode_encode [simp]: "unitEeCalDecode (unitEeCalEncode v) = (True, v)"
  using cal_block.round_trip [of v] by (auto simp: valid_part_def prod_eq_iff split: if_splits)

lemma length_blocks [simp]:
  "length (unitEeHealthEncode h) = 15" "length (unitEeCalEncode v) = 3"
  "length unitEeIdentityClear = 4" "length (unitEeIdentityEncode a) = 4"
  "length (unitEeResetMarkEncode r) = 2" "length unitEeRingInitEncode = 2"
  "length (unitEeBusRecordEncode b) = 8"
  by (simp_all add: codec_defs)

lemma reset_mark_round_trip [simp]: "unitEeResetMarkRequested (unitEeResetMarkEncode r) = r"
  by (simp add: codec_defs)

section \<open>What the sketch does with the blocks\<close>

text \<open>\<open>getaddress()\<close>: the four switches are the value \<open>dipValue\<close> they spell.\<close>

definition getaddress :: "eeprom \<Rightarrow> nat \<Rightarrow> bool \<times> nat" where
  "getaddress ee dipValue =
     (let stored = unitEeIdentityAddress (ee_read ee EE_LAYOUT_VERSION_ADDR 4)
      in if stored \<noteq> 0 then (True, unat stored)
         else (False, SFP_I2C_ADDRESS_BASE + dipValue))"

definition getOffset :: "eeprom \<Rightarrow> i16" where
  "getOffset ee =
     (let stored = snd (unitEeCalDecode (ee_read ee EE_CAL_OFFSET 3))
      in if sint stored < -2038 \<or> sint stored > 2038 then 0 else stored)"

definition persist_lifetime_writes :: "UnitLifetimeHealth \<Rightarrow> ee_writes" where
  "persist_lifetime_writes lifetime = ee_block_writes EE_HEALTH_BASE (unitEeHealthEncode lifetime)"

definition reset_mark_writes :: "bool \<Rightarrow> ee_writes" where
  "reset_mark_writes requested = ee_block_writes EE_RESET_MARK (unitEeResetMarkEncode requested)"

text \<open>
  The day-0 initialisation of \<open>setup()\<close>: calibration and health block, then the identity block
  from its last byte down, the layout version last.
\<close>

definition day0_init_writes :: "eeprom \<Rightarrow> ee_writes" where
  "day0_init_writes ee =
     (if unitEeIsBlank (ee EE_LAYOUT_VERSION_ADDR)
      then ee_block_writes EE_CAL_OFFSET (unitEeCalEncode 0) @
           ee_block_writes EE_HEALTH_BASE (unitEeHealthEncode zero_health) @
           rev (ee_block_writes EE_LAYOUT_VERSION_ADDR unitEeIdentityClear)
      else [])"

record boot_health =
  bh_lifetime :: UnitLifetimeHealth
  bh_resetKind :: UnitResetKind
  bh_resetStatusByte :: u8
  bh_writes :: ee_writes

definition boot_lifetime_health :: "eeprom \<Rightarrow> u8 \<Rightarrow> boot_health" where
  "boot_lifetime_health ee resetFlags =
     (let (healthValid, lifetime) = unitEeHealthDecode (ee_read ee EE_HEALTH_BASE 15);
          resetRequested = unitEeResetMarkRequested (ee_read ee EE_RESET_MARK 2);
          markWrites = (if resetRequested then reset_mark_writes False else []);
          resetKind = unitResetClassify resetFlags resetRequested;
          lifetime1 = (if resetKind = UNIT_RESET_BROWNOUT
                       then lifetime\<lparr>lh_brownoutCount := unitEeBumpSaturating (lh_brownoutCount lifetime)\<rparr>
                       else lifetime);
          lifetime2 = (if resetKind = UNIT_RESET_WATCHDOG
                       then lifetime1\<lparr>lh_watchdogCount := unitEeBumpSaturating (lh_watchdogCount lifetime1)\<rparr>
                       else lifetime1);
          bumped = (resetKind = UNIT_RESET_BROWNOUT \<or> resetKind = UNIT_RESET_WATCHDOG)
      in \<lparr>bh_lifetime = lifetime2, bh_resetKind = resetKind,
          bh_resetStatusByte = unitResetStatusByte resetFlags resetKind,
          bh_writes = markWrites @ (if bumped \<or> \<not> healthValid then persist_lifetime_writes lifetime2 else [])\<rparr>)"

section \<open>Correctness\<close>

text \<open>A burned address is adopted only from an undamaged block. With any one byte of the
  identity block replaced, whatever the value, \<open>getaddress()\<close> falls back to the switches, where
  the bootloader always listens; with the block intact it returns the burned address.\<close>

lemma damaged_identity_falls_back_to_dip:
  assumes "burnable a" and "ee_read ee 0 4 = unitEeIdentityEncode a" and "i < 4" and "b \<noteq> ee i"
  shows "getaddress ee dip = (True, unat a) \<and> getaddress (ee(i := b)) dip = (False, 1 + dip)"
proof
  have "unitEeIdentityAddress (unitEeIdentityEncode a) = a" "a \<noteq> 0"
    using identity_block.round_trip [OF assms(1)] assms(1)
    by (auto simp: burnable_def split: if_splits)
  then show "getaddress ee dip = (True, unat a)"
    using assms(2) by (simp add: getaddress_def)
  have "ee_read (ee(i := b)) 0 4 = (unitEeIdentityEncode a)[i := b]"
    using assms(3) by (simp add: ee_read_def list_eq_iff_nth_eq nth_list_update flip: assms(2))
  moreover have "unitEeIdentityEncode a ! i = ee i"
    using assms(3) by (simp add: ee_read_def flip: assms(2))
  ultimately show "getaddress (ee(i := b)) dip = (False, 1 + dip)"
    using identity_block.corrupted_reply_rejected [OF assms(1), of i b] assms(3,4)
    by (auto simp: getaddress_def split: if_splits)
qed

lemma damaged_identity_falls_back_to_dip_witness:
  "getaddress ((ee_apply (\<lambda>_. 0xFF) (ee_block_writes 0 (unitEeIdentityEncode 7)))(1 := 8)) 3 = (False, 4)"
proof -
  let ?ee = "ee_apply (\<lambda>_. 0xFF) (ee_block_writes 0 (unitEeIdentityEncode 7))"
  have "burnable 7" by (simp add: burnable_def)
  moreover have "ee_read ?ee 0 4 = unitEeIdentityEncode 7" by simp
  moreover have "?ee 1 = 7"
    by (simp add: ee_block_writes_def unitEeIdentityEncode_def numeral_eq_Suc)
  ultimately show ?thesis
    using damaged_identity_falls_back_to_dip [of 7 ?ee 1 8 3] by simp
qed

text \<open>The writes of the day-0 initialisation on a blank EEPROM, spelled out.\<close>

lemma day0_writes_shape:
  assumes "unitEeIsBlank (ee 0)"
  obtains ws where "day0_init_writes ee = ws @ [(0, 1)]" and "0 \<notin> fst ` set ws"
proof
  have "rev (ee_block_writes 0 unitEeIdentityClear) =
      rev (ee_block_writes 1 (tl unitEeIdentityClear)) @ [(0, 1)]"
    by (simp add: unitEeIdentityClear_def ee_block_writes_Cons Let_def)
  with assms show "day0_init_writes ee = (ee_block_writes 4 (unitEeCalEncode 0) @
      ee_block_writes 8 (unitEeHealthEncode zero_health) @
      rev (ee_block_writes 1 (tl unitEeIdentityClear))) @ [(0, 1)]"
    by (simp add: day0_init_writes_def)
  show "0 \<notin> fst ` set (ee_block_writes 4 (unitEeCalEncode 0) @
      ee_block_writes 8 (unitEeHealthEncode zero_health) @
      rev (ee_block_writes 1 (tl unitEeIdentityClear)))"
    by (auto simp: image_Un set_ee_block_writes)
qed

lemma day0_complete:
  assumes "unitEeIsBlank (ee 0)"
  defines "ee' \<equiv> ee_apply ee (day0_init_writes ee)"
  shows "ee_read ee' 0 4 = unitEeIdentityClear" and "ee_read ee' 4 3 = unitEeCalEncode 0"
    and "ee_read ee' 8 15 = unitEeHealthEncode zero_health"
proof -
  let ?id = "rev (ee_block_writes 0 unitEeIdentityClear)"
  have id: "fst ` set ?id = {0..<4}"
    by (simp add: set_ee_block_writes)
  have "ee_apply e ?id = e(0 := 1, 1 := 0, 2 := 0, 3 := unitEeIdentityClear ! 3)" for e
    by (auto simp: unitEeIdentityClear_def ee_block_writes_Cons Let_def ee_block_writes_def)
  then show "ee_read ee' 0 4 = unitEeIdentityClear"
    using assms(1)
    by (simp add: ee'_def day0_init_writes_def ee_read_def upt_rec)
      (simp add: unitEeIdentityClear_def Let_def)
  show "ee_read ee' 8 15 = unitEeHealthEncode zero_health"
    using assms(1) id by (simp add: ee'_def day0_init_writes_def ee_read_other)
  show "ee_read ee' 4 3 = unitEeCalEncode 0"
    using assms(1) id
    by (simp add: ee'_def day0_init_writes_def ee_read_other set_ee_block_writes)
qed

text \<open>The day-0 initialisation survives a power loss at every point. After any prefix of its
  byte writes on a blank EEPROM, either the layout is still blank, so the next boot runs it again,
  or all of it is written: no burned address, a zero offset, a zero health record, each under a
  valid checksum.\<close>

lemma day0_power_loss_safe:
  assumes "unitEeIsBlank (ee 0)"
  shows "let ee' = ee_apply ee (take k (day0_init_writes ee)) in
    unitEeIsBlank (ee' 0) \<or>
    ee_read ee' 0 4 = unitEeIdentityClear \<and>
    unitEeCalDecode (ee_read ee' 4 3) = (True, 0) \<and>
    unitEeHealthDecode (ee_read ee' 8 15) = (True, zero_health)"
proof (cases "length (day0_init_writes ee) \<le> k")
  case True
  then show ?thesis
    using day0_complete [of ee, OF assms] by (simp add: Let_def)
next
  case False
  obtain ws where ws: "day0_init_writes ee = ws @ [(0, 1)]" and "0 \<notin> fst ` set ws"
    using day0_writes_shape [of ee, OF assms] .
  moreover have "take k (ws @ [(0, 1)]) = take k ws"
    using False ws by simp
  moreover have "0 \<notin> fst ` set (take k ws)"
    using \<open>0 \<notin> fst ` set ws\<close> by (auto dest: in_set_takeD)
  ultimately show ?thesis
    using assms by (simp add: Let_def ee_apply_other)
qed

lemma day0_power_loss_safe_witness:
  "let ee' = ee_apply (\<lambda>_. 0xFF) (take 30 (day0_init_writes (\<lambda>_. 0xFF))) in
    unitEeIsBlank (ee' 0) \<or>
    ee_read ee' 0 4 = unitEeIdentityClear \<and>
    unitEeCalDecode (ee_read ee' 4 3) = (True, 0) \<and>
    unitEeHealthDecode (ee_read ee' 8 15) = (True, zero_health)"
  by (rule day0_power_loss_safe) (simp add: unitEeIsBlank_def)

subsection \<open>Boot health and the reset mark\<close>

lemma ee_read_reset_mark [simp]:
  "ee_read (ee_apply ee (reset_mark_writes r)) 26 2 = unitEeResetMarkEncode r"
  by (simp add: reset_mark_writes_def)

lemma ee_read_health_after_mark [simp]:
  "ee_read (ee_apply ee (reset_mark_writes r)) 8 15 = ee_read ee 8 15"
  by (rule ee_read_other) (simp add: reset_mark_writes_def set_ee_block_writes)

lemma ee_read_mark_after_health [simp]:
  "ee_read (ee_apply ee (persist_lifetime_writes h)) 26 2 = ee_read ee 26 2"
  by (rule ee_read_other) (simp add: persist_lifetime_writes_def set_ee_block_writes)

lemma ee_read_persist_lifetime [simp]:
  "ee_read (ee_apply ee (persist_lifetime_writes h)) 8 15 = unitEeHealthEncode h"
  by (simp add: persist_lifetime_writes_def)

lemma health_decode_snd: "unitEeHealthDecode block = (v, h) \<Longrightarrow> \<not> v \<Longrightarrow> h = zero_health"
  by (auto simp: unitEeHealthDecode_def split: if_splits)

text \<open>Whatever the EEPROM held, after the boot the health block is valid and holds exactly the
  record the sketch runs with, and no reset mark is left: a torn or erased block starts over from
  zero once and is not re-zeroed at every boot, and a mark explains one reset at most.\<close>

lemma boot_health_establishes_block:
  "let b = boot_lifetime_health ee resetFlags; ee' = ee_apply ee (bh_writes b) in
     unitEeHealthDecode (ee_read ee' 8 15) = (True, bh_lifetime b) \<and>
     \<not> unitEeResetMarkRequested (ee_read ee' 26 2)"
  by (cases "unitEeHealthDecode (ee_read ee 8 15)")
    (auto simp: boot_lifetime_health_def Let_def)

text \<open>A reset the sketch asked for is not counted as a hang, and hides no later one. After
  \<open>markResetRequested()\<close> the next boot from a watchdog reset reports it as requested and leaves
  the watchdog counter alone; a watchdog reset after that boot is a hang again and is counted.\<close>

lemma requested_reset_explains_one_reset:
  assumes "unitEeHealthDecode (ee_read ee 8 15) = (True, h)"
  shows "let ee1 = ee_apply ee (reset_mark_writes True);
             b1 = boot_lifetime_health ee1 0x08; ee2 = ee_apply ee1 (bh_writes b1);
             b2 = boot_lifetime_health ee2 0x08 in
    bh_resetKind b1 = UNIT_RESET_REQUESTED \<and> bh_lifetime b1 = h \<and>
    bh_resetKind b2 = UNIT_RESET_WATCHDOG \<and>
    bh_lifetime b2 = h\<lparr>lh_watchdogCount := bump8 (lh_watchdogCount h)\<rparr>"
  using assms
  by (simp add: boot_lifetime_health_def Let_def unitResetClassify_def unitEeBumpSaturating_def)

lemma requested_reset_explains_one_reset_witness:
  "bh_resetKind (boot_lifetime_health
     (ee_apply (ee_apply (\<lambda>_. 0) (persist_lifetime_writes zero_health)) (reset_mark_writes True)) 0x08)
   = UNIT_RESET_REQUESTED"
  using requested_reset_explains_one_reset
    [of "ee_apply (\<lambda>_. 0) (persist_lifetime_writes zero_health)" zero_health]
  by (simp add: Let_def)

lemma reset_flag_bits:
  "(f AND 0x0F) AND 0x01 = f AND (0x01 :: u8)" "(f AND 0x0F) AND 0x04 = f AND (0x04 :: u8)"
  "(f AND 0x0F) AND 0x08 = f AND (0x08 :: u8)" "(f AND 0x0F) AND 0x02 = f AND (0x02 :: u8)"
  "(f AND 0x0F) AND 0x80 = (0 :: u8)"
  "((f AND 0x0F) OR 0x80) AND 0x01 = f AND (0x01 :: u8)"
  "((f AND 0x0F) OR 0x80) AND 0x04 = f AND (0x04 :: u8)"
  "((f AND 0x0F) OR 0x80) AND 0x08 = f AND (0x08 :: u8)"
  "((f AND 0x0F) OR 0x80) AND 0x02 = f AND (0x02 :: u8)"
  "((f AND 0x0F) OR 0x80) AND 0x80 = (0x80 :: u8)"
  by (simp_all add: and.assoc bit.conj_disj_distrib2)

text \<open>The reset cause survives the wire: a master reads from status byte 1 exactly the cause
  the unit classified, for every flag register value and with or without a reset mark.\<close>

lemma reset_kind_round_trip:
  "unitResetFromStatusByte (unitResetStatusByte mcusr (unitResetClassify mcusr requested)) =
     unitResetClassify mcusr requested"
  by (auto simp: unitResetFromStatusByte_def unitResetStatusByte_def unitResetClassify_def
      reset_flag_bits Let_def)

subsection \<open>The unit's record of its own decline\<close>

definition first_nonzero :: "u16 \<Rightarrow> u16 list \<Rightarrow> u16" where
  "first_nonzero a xs = (case filter (\<lambda>x. x \<noteq> 0) (a # xs) of [] \<Rightarrow> 0 | x # _ \<Rightarrow> x)"

definition last_nonzero :: "u16 \<Rightarrow> u16 list \<Rightarrow> u16" where
  "last_nonzero a xs = (case filter (\<lambda>x. x \<noteq> 0) xs of [] \<Rightarrow> a | ys \<Rightarrow> last ys)"

lemma first_nonzero_Cons [simp]:
  "first_nonzero a (x # xs) = first_nonzero (if a = 0 then x else a) xs"
  by (simp add: first_nonzero_def)

lemma last_nonzero_Cons [simp]:
  "last_nonzero a (x # xs) = last_nonzero (if x = 0 then a else x) xs"
  by (auto simp: last_nonzero_def split: list.splits)

lemma nonzero_Nil [simp]: "first_nonzero a [] = a" "last_nonzero a [] = a"
  by (simp_all add: first_nonzero_def last_nonzero_def)

text \<open>Over any history of self tests the baseline of each measurement is the first nonzero
  reading the unit ever took and the latest value is the last nonzero one: a test that measured
  nothing neither becomes the baseline nor erases a real reading.\<close>

lemma self_test_trend:
  "let h' = fold (\<lambda>(hall, steps) h. unitEeRecordSelfTest h hall steps) readings h in
     lh_selfTestFirstHallWindow h' = first_nonzero (lh_selfTestFirstHallWindow h) (map fst readings) \<and>
     lh_selfTestLastHallWindow h' = last_nonzero (lh_selfTestLastHallWindow h) (map fst readings) \<and>
     lh_selfTestFirstStepsPerRev h' = first_nonzero (lh_selfTestFirstStepsPerRev h) (map snd readings) \<and>
     lh_selfTestLastStepsPerRev h' = last_nonzero (lh_selfTestLastStepsPerRev h) (map snd readings)"
  by (induction readings arbitrary: h) (auto simp: unitEeRecordSelfTest_def Let_def)

text \<open>The lifetime drag mark is the maximum of everything recorded, and a write is asked for
  exactly when the mark moves.\<close>

lemma step_excess_high_water:
  "lh_stepExcessLifetimeMax (fold (\<lambda>e h. snd (unitEeRecordStepExcess h e)) es h) =
     fold max es (lh_stepExcessLifetimeMax h) \<and>
   fst (unitEeRecordStepExcess h e) = (snd (unitEeRecordStepExcess h e) \<noteq> h)"
proof
  show "lh_stepExcessLifetimeMax (fold (\<lambda>e h. snd (unitEeRecordStepExcess h e)) es h) =
      fold max es (lh_stepExcessLifetimeMax h)"
    by (induction es arbitrary: h)
      (auto simp: unitEeRecordStepExcess_def max_def)
  show "fst (unitEeRecordStepExcess h e) = (snd (unitEeRecordStepExcess h e) \<noteq> h)"
    by (cases h) (auto simp: unitEeRecordStepExcess_def)
qed

end
