(* ===== verification/Unit_Odometer.thy ===== *)
theory Unit_Odometer
  imports Unit_Eeprom
begin

text \<open>
  The revolution odometer: step accumulation, slot policy and boot recovery of
  \<open>Unit/UnitOdometer.h\<close>, and the glue of \<open>Unit/Unit.ino\<close> that heals the ring at boot, recovers
  the count from it and persists it from \<open>loop()\<close>. A step relation of the counter through moves,
  persists and power losses shows that no count that was written down is ever lost.
\<close>

abbreviation (input) ODO_RING_SLOTS :: nat where "ODO_RING_SLOTS \<equiv> 16"
abbreviation (input) ODO_RING_SWEEP_BYTES :: nat where "ODO_RING_SWEEP_BYTES \<equiv> 640"

record OdometerState =
  od_revolutions :: u32
  od_stepAccumulator :: u16

definition odometerAddSteps :: "OdometerState \<Rightarrow> int \<Rightarrow> u16 \<Rightarrow> OdometerState" where
  "odometerAddSteps s steps stepsPerRev =
     (let magnitude = (word_of_int (if steps < 0 then - steps else steps) :: u32);
          total = ucast (od_stepAccumulator s) + magnitude
      in \<lparr>od_revolutions = od_revolutions s + total div ucast stepsPerRev,
          od_stepAccumulator = ucast (total mod ucast stepsPerRev)\<rparr>)"

definition odometerSlotIndex :: "u32 \<Rightarrow> u8" where
  "odometerSlotIndex revolutions = ucast ((revolutions div 1) mod 16)"

definition odometerSlotOffset :: "u8 \<Rightarrow> u16" where
  "odometerSlotOffset slot = ucast slot * 5"

definition odometerShouldPersist :: "u32 \<Rightarrow> u32 \<Rightarrow> bool" where
  "odometerShouldPersist revolutions lastPersisted \<longleftrightarrow> revolutions - lastPersisted \<ge> 1"

definition odometerSlotChecksum :: "u32 \<Rightarrow> u8" where
  "odometerSlotChecksum v =
     (byte_of 0 v XOR byte_of 1 v XOR byte_of 2 v XOR byte_of 3 v) XOR 0x3C"

definition odometerBootScanInit :: u32 where
  "odometerBootScanInit = 0"

definition odometerBootScanSlot :: "u32 \<Rightarrow> u32 \<Rightarrow> u8 \<Rightarrow> u32" where
  "odometerBootScanSlot best v checksum =
     (if v \<noteq> 0xFFFFFFFF \<and> checksum = odometerSlotChecksum v \<and> v > best then v else best)"

section \<open>The glue\<close>

definition slot_at :: "u8 \<Rightarrow> nat" where
  "slot_at slot = EE_ODO_RING_BASE + unat (odometerSlotOffset slot)"

text \<open>\<open>EEPROM.get(at, value)\<close> and \<open>EEPROM.put(at, value)\<close>: four bytes, lowest first.\<close>

definition ee_get32 :: "eeprom \<Rightarrow> nat \<Rightarrow> u32" where
  "ee_get32 ee at = le32 (ee at) (ee (at + 1)) (ee (at + 2)) (ee (at + 3))"

definition ee_put32 :: "nat \<Rightarrow> u32 \<Rightarrow> ee_writes" where
  "ee_put32 at v = ee_block_writes at [byte_of 0 v, byte_of 1 v, byte_of 2 v, byte_of 3 v]"

definition boot_scan :: "eeprom \<Rightarrow> u32" where
  "boot_scan ee =
     fold (\<lambda>s best. odometerBootScanSlot best (ee_get32 ee (slot_at (of_nat s)))
             (ee (slot_at (of_nat s) + 4)))
       [0..<ODO_RING_SLOTS] odometerBootScanInit"

definition ring_heal_writes :: "eeprom \<Rightarrow> ee_writes" where
  "ring_heal_writes ee =
     (if unitEeRingInitDone (ee_read ee EE_RING_INIT_ADDR 2) then []
      else ee_block_writes EE_ODO_RING_BASE (replicate ODO_RING_SWEEP_BYTES 0) @
           rev (ee_block_writes EE_RING_INIT_ADDR unitEeRingInitEncode))"

record odo_unit =
  ou_ee :: eeprom
  ou_odometer :: OdometerState
  ou_lastPersistedRevs :: u32

definition odometer_boot :: "eeprom \<Rightarrow> odo_unit" where
  "odometer_boot ee =
     (let ee1 = ee_apply ee (ring_heal_writes ee); revs = boot_scan ee1
      in \<lparr>ou_ee = ee1,
          ou_odometer = \<lparr>od_revolutions = revs, od_stepAccumulator = 0\<rparr>,
          ou_lastPersistedRevs = revs\<rparr>)"

definition persist_writes :: "u32 \<Rightarrow> ee_writes" where
  "persist_writes revs =
     (let at = slot_at (odometerSlotIndex revs)
      in ee_put32 at revs @ [(at + 4, odometerSlotChecksum revs)])"

definition odometer_persist :: "odo_unit \<Rightarrow> odo_unit" where
  "odometer_persist u =
     (let revs = od_revolutions (ou_odometer u)
      in if odometerShouldPersist revs (ou_lastPersistedRevs u)
         then u\<lparr>ou_ee := ee_apply (ou_ee u) (persist_writes revs), ou_lastPersistedRevs := revs\<rparr>
         else u)"

definition odometer_reset_writes :: ee_writes where
  "odometer_reset_writes =
     concat (map (\<lambda>s. let at = slot_at (of_nat s)
                      in ee_put32 at 0 @ [(at + 4, odometerSlotChecksum 0)]) [0..<ODO_RING_SLOTS])"

definition odometer_reset :: "odo_unit \<Rightarrow> odo_unit" where
  "odometer_reset u =
     \<lparr>ou_ee = ee_apply (ou_ee u) odometer_reset_writes,
      ou_odometer = \<lparr>od_revolutions = 0, od_stepAccumulator = 0\<rparr>, ou_lastPersistedRevs = 0\<rparr>"

section \<open>Counting\<close>

lemma unat_ucast_16_32 [simp]: "unat (ucast (w :: u16) :: u32) = unat w"
  by (simp add: unsigned_ucast_eq take_bit_nat_eq_self_iff) (use unsigned_less [of w, where 'a = nat] in simp)
lemma odometer_total:
  assumes "unat (od_stepAccumulator s) + nat \<bar>steps\<bar> < 2 ^ 32"
  shows "unat (ucast (od_stepAccumulator s) + (word_of_int (if steps < 0 then - steps else steps)) :: u32)
    = unat (od_stepAccumulator s) + nat \<bar>steps\<bar>"
proof -
  have "(if steps < 0 then - steps else steps) = int (nat \<bar>steps\<bar>)" by simp
  then have "(word_of_int (if steps < 0 then - steps else steps) :: u32) = of_nat (nat \<bar>steps\<bar>)"
    by (metis of_int_of_nat_eq)
  moreover have "unat (of_nat (nat \<bar>steps\<bar>) :: u32) = nat \<bar>steps\<bar>"
    using assms by (simp only: unat_of_nat) (simp add: take_bit_nat_eq_self)
  ultimately show ?thesis
    using assms by (simp only: unat_word_ariths unat_ucast_16_32) simp
qed

lemma unat_add_no_wrap: "unat (a :: u32) + unat b < 2 ^ 32 \<Longrightarrow> unat (a + b) = unat a + unat b"
  by (simp add: unat_word_ariths)

text \<open>Counting loses no step. As long as the 32-bit counters do not overflow, the steps a
  unit has turned, revolutions times steps per revolution plus the accumulator, grow by exactly
  the magnitude of every move, in either direction, and the accumulator stays below one turn.\<close>

lemma odometer_counts_every_step:
  assumes "0 < stepsPerRev" and "unat (od_stepAccumulator s) + nat \<bar>steps\<bar> < 2 ^ 32"
    and "unat (od_revolutions s) + (unat (od_stepAccumulator s) + nat \<bar>steps\<bar>) div unat stepsPerRev
           < 2 ^ 32"
  defines "s' \<equiv> odometerAddSteps s steps stepsPerRev"
  shows "unat (od_revolutions s') * unat stepsPerRev + unat (od_stepAccumulator s') =
      unat (od_revolutions s) * unat stepsPerRev + unat (od_stepAccumulator s) + nat \<bar>steps\<bar> \<and>
    od_stepAccumulator s' < stepsPerRev"
proof -
  let ?n = "unat (od_stepAccumulator s) + nat \<bar>steps\<bar>" and ?r = "unat stepsPerRev"
  define t :: u32 where
    "t = ucast (od_stepAccumulator s) + word_of_int (if steps < 0 then - steps else steps)"
  have t: "unat t = ?n"
    unfolding t_def by (rule odometer_total [OF assms(2)])
  have s': "s' = \<lparr>od_revolutions = od_revolutions s + t div ucast stepsPerRev,
                 od_stepAccumulator = ucast (t mod ucast stepsPerRev)\<rparr>"
    unfolding s'_def odometerAddSteps_def t_def Let_def ..
  have r: "0 < ?r" "?r < 2 ^ 16"
    using assms(1) unsigned_less [of stepsPerRev, where 'a = nat] by (simp_all add: word_less_nat_alt)
  then have "?n mod ?r < 2 ^ 16"
    using mod_less_divisor [of ?r ?n] by linarith
  then have acc: "unat (od_stepAccumulator s') = ?n mod ?r"
    by (simp add: s' unsigned_ucast_eq unat_mod t take_bit_nat_eq_self)
  have rev: "unat (od_revolutions s') = unat (od_revolutions s) + ?n div ?r"
    using assms(3) by (simp add: s' unat_add_no_wrap unat_div t)
  show ?thesis
    unfolding word_less_nat_alt acc rev using r by (simp add: distrib_right)
qed

lemma odometer_counts_every_step_witness:
  "odometerAddSteps \<lparr>od_revolutions = 4, od_stepAccumulator = 2000\<rparr> (- 100) 2038 =
     \<lparr>od_revolutions = 5, od_stepAccumulator = 62\<rparr> \<and>
   (5 :: nat) * 2038 + 62 = 4 * 2038 + 2000 + 100"
  using odometer_counts_every_step [of 2038 "\<lparr>od_revolutions = 4, od_stepAccumulator = 2000\<rparr>" "- 100"]
  by (simp add: odometerAddSteps_def)
section \<open>The ring as slots\<close>

definition slot_raw :: "eeprom \<Rightarrow> nat \<Rightarrow> u32" where
  "slot_raw ee s = ee_get32 ee (64 + 5 * s)"

definition slot_valid :: "eeprom \<Rightarrow> nat \<Rightarrow> bool" where
  "slot_valid ee s \<longleftrightarrow>
     slot_raw ee s \<noteq> 0xFFFFFFFF \<and> ee (64 + 5 * s + 4) = odometerSlotChecksum (slot_raw ee s)"

lemma slot_at_of_nat: "s < 16 \<Longrightarrow> slot_at (of_nat s) = 64 + 5 * s"
  by (simp add: slot_at_def odometerSlotOffset_def unat_word_ariths unsigned_ucast_eq unat_of_nat
      take_bit_nat_eq_self)

lemma unat_slot_index: "unat (odometerSlotIndex v) = unat v mod 16"
proof -
  have "unat v mod 16 < 16" by simp
  then have "unat v mod 16 < 2 ^ 8" by simp
  then show ?thesis
    by (simp add: odometerSlotIndex_def unsigned_ucast_eq unat_mod take_bit_nat_eq_self)
qed

lemma slot_at_index: "slot_at (odometerSlotIndex v) = 64 + 5 * (unat v mod 16)"
proof -
  have "odometerSlotIndex v = of_nat (unat v mod 16)"
    by (simp flip: unat_slot_index)
  then show ?thesis
    using slot_at_of_nat [of "unat v mod 16"] by simp
qed

lemma scan_step:
  "s < 16 \<Longrightarrow>
     odometerBootScanSlot best (ee_get32 ee (slot_at (of_nat s))) (ee (slot_at (of_nat s) + 4)) =
       (if slot_valid ee s \<and> slot_raw ee s > best then slot_raw ee s else best)"
  by (simp add: slot_at_of_nat odometerBootScanSlot_def slot_valid_def slot_raw_def)

definition scan_from :: "eeprom \<Rightarrow> nat list \<Rightarrow> u32 \<Rightarrow> u32" where
  "scan_from ee xs best =
     fold (\<lambda>s best. if slot_valid ee s \<and> slot_raw ee s > best then slot_raw ee s else best) xs best"

lemma boot_scan_from: "boot_scan ee = scan_from ee [0..<16] 0"
  unfolding boot_scan_def odometerBootScanInit_def scan_from_def
  by (rule fold_cong) (simp_all add: scan_step)

lemma scan_from_props:
  "best \<le> scan_from ee xs best \<and>
   (\<forall>s \<in> set xs. slot_valid ee s \<longrightarrow> slot_raw ee s \<le> scan_from ee xs best) \<and>
   (scan_from ee xs best = best \<or>
    (\<exists>s \<in> set xs. slot_valid ee s \<and> slot_raw ee s = scan_from ee xs best))"
proof (induction xs arbitrary: best)
  case (Cons x xs)
  show ?case
  proof (cases "slot_valid ee x \<and> slot_raw ee x > best")
    case True
    then have "scan_from ee (x # xs) best = scan_from ee xs (slot_raw ee x)"
      by (simp add: scan_from_def)
    with True Cons.IH [of "slot_raw ee x"] show ?thesis by auto
  next
    case False
    then have "scan_from ee (x # xs) best = scan_from ee xs best"
      by (auto simp: scan_from_def)
    with False Cons.IH [of best] show ?thesis by (auto simp: not_less)
  qed
qed (simp add: scan_from_def)

lemma boot_scan_upper: "s < 16 \<Longrightarrow> slot_valid ee s \<Longrightarrow> slot_raw ee s \<le> boot_scan ee"
  using scan_from_props [of 0 ee "[0..<16]"] unfolding boot_scan_from by auto

lemma boot_scan_attained:
  "boot_scan ee = 0 \<or> (\<exists>s < 16. slot_valid ee s \<and> slot_raw ee s = boot_scan ee)"
  using scan_from_props [of 0 ee "[0..<16]"] unfolding boot_scan_from by fastforce

section \<open>A persist, whole or torn\<close>

lemma persist_writes_eq:
  "persist_writes v = (let a = 64 + 5 * (unat v mod 16) in
     [(a, byte_of 0 v), (a + 1, byte_of 1 v), (a + 2, byte_of 2 v), (a + 3, byte_of 3 v),
      (a + 4, odometerSlotChecksum v)])"
  by (simp add: persist_writes_def slot_at_index ee_put32_def ee_block_writes_Cons
      ee_block_writes_def Let_def)

lemma persist_other_slot:
  assumes "s < 16" and "s \<noteq> unat v mod 16"
  shows "slot_raw (ee_apply ee (take k (persist_writes v))) s = slot_raw ee s"
    and "slot_valid (ee_apply ee (take k (persist_writes v))) s = slot_valid ee s"
proof -
  have out: "64 + 5 * s + j \<notin> fst ` set (take k (persist_writes v))" if "j < 5" for j
  proof -
    have "fst ` set (persist_writes v) \<subseteq> {64 + 5 * (unat v mod 16)..<64 + 5 * (unat v mod 16) + 5}"
      by (auto simp: persist_writes_eq Let_def)
    moreover have "64 + 5 * s + j \<notin> {64 + 5 * (unat v mod 16)..<64 + 5 * (unat v mod 16) + 5}"
      using assms(2) that by (auto; linarith)
    ultimately show ?thesis
      using set_take_subset [of k "persist_writes v"] by blast
  qed
  have e: "ee_apply ee (take k (persist_writes v)) (64 + 5 * s + j) = ee (64 + 5 * s + j)" if "j < 5" for j
    by (rule ee_apply_other) (rule out [OF that])
  show r: "slot_raw (ee_apply ee (take k (persist_writes v))) s = slot_raw ee s"
    using e [of 0] e [of 1] e [of 2] e [of 3] by (simp add: slot_raw_def ee_get32_def)
  show "slot_valid (ee_apply ee (take k (persist_writes v))) s = slot_valid ee s"
    using e [of 4] by (simp add: slot_valid_def r)
qed

lemma persist_complete:
  fixes ee :: eeprom
  assumes "5 \<le> k" and "v \<noteq> 0xFFFFFFFF"
  shows "slot_raw (ee_apply ee (take k (persist_writes v))) (unat v mod 16) = v"
    and "slot_valid (ee_apply ee (take k (persist_writes v))) (unat v mod 16)"
proof -
  let ?ee = "ee_apply ee (persist_writes v)"
  have k: "take k (persist_writes v) = persist_writes v"
    using assms(1) by (simp add: persist_writes_eq Let_def)
  have raw: "slot_raw ?ee (unat v mod 16) = v"
    by (simp add: persist_writes_eq Let_def slot_raw_def ee_get32_def)
  moreover have "?ee (64 + 5 * (unat v mod 16) + 4) = odometerSlotChecksum v"
    by (simp add: persist_writes_eq Let_def)
  ultimately show "slot_raw (ee_apply ee (take k (persist_writes v))) (unat v mod 16) = v"
    and "slot_valid (ee_apply ee (take k (persist_writes v))) (unat v mod 16)"
    using assms(2) by (simp_all add: k slot_valid_def)
qed

text \<open>A torn slot holds low bytes of the new count under high bytes of the old one.\<close>

lemma torn_mix:
  fixes n old b new :: nat
  assumes "lo_new < b" and "lo_old < b" and "lo_old + b * hi_old \<le> lo_new + b * hi_new"
  shows "lo_new + b * hi_old \<le> lo_new + b * hi_new"
proof -
  have "b * hi_old < b * (hi_new + 1)"
    using assms by (simp add: distrib_left)
  then have "hi_old \<le> hi_new"
    using mult_less_cancel1 [of b hi_old "hi_new + 1"] by simp
  then show ?thesis by simp
qed

lemma torn_mod_16:
  "(n0 + 256 * a + 65536 * b + 16777216 * c) mod 16 = (n0 :: nat) mod 16"
proof -
  have "n0 + 256 * a + 65536 * b + 16777216 * c = n0 + 16 * (16 * a + 4096 * b + 1048576 * c)"
    by simp
  then show ?thesis by (simp only: mod_mult_self2)
qed

lemma take_four: "k < 5 \<Longrightarrow> k = 0 \<or> k = 1 \<or> k = 2 \<or> k = 3 \<or> k = (4 :: nat)"
  by auto

lemma persist_torn:
  fixes ee :: eeprom
  assumes "0 < k" and "k < 5" and "slot_raw ee (unat v mod 16) \<le> v"
  defines "ee' \<equiv> ee_apply ee (take k (persist_writes v))"
  shows "slot_raw ee' (unat v mod 16) \<le> v \<and>
    unat (slot_raw ee' (unat v mod 16)) mod 16 = unat v mod 16"
proof -
  let ?a = "64 + 5 * (unat v mod 16)"
  define o0 o1 o2 o3 where o: "o0 = unat (ee ?a)" "o1 = unat (ee (?a + 1))"
    "o2 = unat (ee (?a + 2))" "o3 = unat (ee (?a + 3))"
  define n0 n1 n2 n3 where n: "n0 = unat (byte_of 0 v)" "n1 = unat (byte_of (Suc 0) v)"
    "n2 = unat (byte_of 2 v)" "n3 = unat (byte_of 3 v)"
  have v: "unat v = n0 + 256 * n1 + 65536 * n2 + 16777216 * n3"
    unfolding n by (metis le32_byte_of unat_le32)
  have lt: "o0 < 256" "o1 < 256" "o2 < 256" "n0 < 256" "n1 < 256" "n2 < 256"
    unfolding o n by (rule unat_u8_less)+
  have le: "o0 + 256 * o1 + 65536 * o2 + 16777216 * o3 \<le> n0 + 256 * n1 + 65536 * n2 + 16777216 * n3"
    using assms(3) unfolding word_le_nat_alt v slot_raw_def ee_get32_def unat_le32 o .
  have raw: "unat (slot_raw ee' (unat v mod 16)) =
      n0 + 256 * (if 2 \<le> k then n1 else o1) + 65536 * (if 3 \<le> k then n2 else o2)
         + 16777216 * (if 4 \<le> k then n3 else o3)"
    using take_four [OF assms(2)] assms(1) unfolding ee'_def slot_raw_def ee_get32_def unat_le32 o n
    by (elim disjE) (simp_all add: persist_writes_eq Let_def)
  have "k = 1 \<or> k = 2 \<or> k = 3 \<or> k = 4"
    using take_four [OF assms(2)] assms(1) by auto
  then have "unat (slot_raw ee' (unat v mod 16)) \<le> unat v"
  proof (elim disjE)
    assume "k = 1"
    with torn_mix [of n0 256 o0 "o1 + 256 * o2 + 65536 * o3" "n1 + 256 * n2 + 65536 * n3"] lt le
    show ?thesis by (subst raw, subst v) simp
  next
    assume "k = 2"
    with torn_mix [of "n0 + 256 * n1" 65536 "o0 + 256 * o1" "o2 + 256 * o3" "n2 + 256 * n3"] lt le
    show ?thesis by (subst raw, subst v) simp
  next
    assume "k = 3"
    with torn_mix [of "n0 + 256 * n1 + 65536 * n2" 16777216 "o0 + 256 * o1 + 65536 * o2" o3 n3] lt le
    show ?thesis by (subst raw, subst v) simp
  next
    assume "k = 4"
    then show ?thesis by (subst raw, subst v) simp
  qed
  moreover have "unat (slot_raw ee' (unat v mod 16)) mod 16 = unat v mod 16"
    by (subst raw, subst v) (simp only: torn_mod_16)
  ultimately show ?thesis by (simp add: word_le_nat_alt)
qed

section \<open>The counter through power losses\<close>

text \<open>The writes \<open>loop()\<close> is about to do; a power loss takes effect after any prefix of them.\<close>

definition pending_writes :: "odo_unit \<Rightarrow> ee_writes" where
  "pending_writes u =
     (let revs = od_revolutions (ou_odometer u)
      in if odometerShouldPersist revs (ou_lastPersistedRevs u) then persist_writes revs else [])"

text \<open>
  \<open>turn\<close> is any motion between two looks at the counter: fewer than 16 revolutions, the size
  of the ring, since the last persist, and no overflow of the 32-bit count.
\<close>

inductive odo_step :: "odo_unit \<Rightarrow> odo_unit \<Rightarrow> bool" where
  turn: "odo_step u (u\<lparr>ou_odometer := od'\<rparr>)"
    if "od' = odometerAddSteps (ou_odometer u) steps 2038"
      and "od_revolutions (ou_odometer u) \<le> od_revolutions od'" and "od_revolutions od' < 0xFFFFFFFF"
      and "unat (od_revolutions od') < unat (ou_lastPersistedRevs u) + 16"
| persist: "odo_step u (odometer_persist u)"
| power_loss: "odo_step u (odometer_boot (ee_apply (ou_ee u) (take k (pending_writes u))))"

definition ring_inv :: "eeprom \<Rightarrow> u32 \<Rightarrow> bool" where
  "ring_inv ee m \<longleftrightarrow>
     unitEeRingInitDone (ee_read ee 24 2) \<and>
     (\<forall>s < 16. \<forall>c > unat m. c mod 16 = s \<longrightarrow> unat (slot_raw ee s) \<le> c) \<and>
     (\<forall>s < 16. slot_valid ee s \<longrightarrow> slot_raw ee s \<le> m) \<and>
     (m = 0 \<or> slot_valid ee (unat m mod 16) \<and> slot_raw ee (unat m mod 16) = m)"

definition odo_inv :: "odo_unit \<Rightarrow> bool" where
  "odo_inv u \<longleftrightarrow>
     (let m = ou_lastPersistedRevs u; r = od_revolutions (ou_odometer u)
      in ring_inv (ou_ee u) m \<and> m \<le> r \<and> unat r < unat m + 16 \<and> r < 0xFFFFFFFF)"

lemma boot_scan_ring_inv: "ring_inv ee m \<Longrightarrow> boot_scan ee = m"
  using boot_scan_upper [of "unat m mod 16" ee] boot_scan_attained [of ee]
  by (auto simp: ring_inv_def intro: order.antisym)

lemma ring_inv_boot:
  "ring_inv ee m \<Longrightarrow> odometer_boot ee =
     \<lparr>ou_ee = ee, ou_odometer = \<lparr>od_revolutions = m, od_stepAccumulator = 0\<rparr>, ou_lastPersistedRevs = m\<rparr>"
  using boot_scan_ring_inv [of ee m]
  by (simp add: odometer_boot_def ring_heal_writes_def ring_inv_def)

lemma persist_keeps_marker:
  "ee_read (ee_apply ee (take k (persist_writes v))) 24 2 = ee_read ee 24 2"
proof (rule ee_read_other)
  have "\<forall>a \<in> fst ` set (persist_writes v). 64 \<le> a"
    by (auto simp: persist_writes_eq Let_def)
  then have "\<forall>a \<in> fst ` set (take k (persist_writes v)). 64 \<le> a"
    by (auto dest!: in_set_takeD)
  then show "{24..<24 + 2} \<inter> fst ` set (take k (persist_writes v)) = {}"
    by fastforce
qed

lemma same_slot_gap: "a mod 16 = b mod 16 \<Longrightarrow> a < b \<Longrightarrow> a + 16 \<le> (b :: nat)"
proof -
  assume "a mod 16 = b mod 16" "a < b"
  then have "16 dvd b - a"
    by (metis less_imp_le_nat mod_eq_dvd_iff_nat)
  with \<open>a < b\<close> show ?thesis
    by (auto dest!: dvd_imp_le)
qed

lemma ring_inv_torn:
  fixes k :: nat
  assumes inv: "ring_inv ee m" and v: "m < v" "unat v < unat m + 16" "v < 0xFFFFFFFF"
  defines "ee' \<equiv> ee_apply ee (take k (persist_writes v))"
  shows "ring_inv ee' m \<or> ring_inv ee' v"
proof -
  let ?i = "unat v mod 16"
  have mv: "unat m < unat v" using v(1) by (simp add: word_less_nat_alt)
  have raw_i: "slot_raw ee ?i \<le> v"
    using inv mv by (simp add: ring_inv_def word_le_nat_alt)
  have marker: "unitEeRingInitDone (ee_read ee' 24 2)"
    using inv by (simp add: ee'_def persist_keeps_marker ring_inv_def)
  have other: "slot_raw ee' s = slot_raw ee s" "slot_valid ee' s = slot_valid ee s"
    if "s < 16" "s \<noteq> ?i" for s
    using persist_other_slot [OF that] by (simp_all add: ee'_def)
  have m_slot: "unat m mod 16 \<noteq> ?i"
    using same_slot_gap [of "unat m" "unat v"] mv v(2) by auto
  have ring_v: "ring_inv ee' v" if "slot_valid ee' ?i" "slot_raw ee' ?i = v"
    unfolding ring_inv_def
  proof (intro conjI allI impI marker disjI2)
    fix s c assume s: "s < 16" "unat v < c" "c mod 16 = s"
    then show "unat (slot_raw ee' s) \<le> c"
      using inv mv that(2) by (cases "s = ?i") (simp_all add: other ring_inv_def)
  next
    fix s assume "s < 16" "slot_valid ee' s"
    then show "slot_raw ee' s \<le> v"
      using inv v(1) that(2) by (cases "s = ?i") (auto simp: other ring_inv_def intro: order.trans less_imp_le)
  qed (use that in auto)
  have ring_m: "ring_inv ee' m" if "slot_raw ee' ?i \<le> v" "slot_valid ee' ?i \<Longrightarrow> slot_raw ee' ?i \<le> m"
    unfolding ring_inv_def
  proof (intro conjI allI impI marker)
    fix s c assume s: "s < 16" "unat m < c" "c mod 16 = s"
    show "unat (slot_raw ee' s) \<le> c"
    proof (cases "s = ?i")
      case True
      then have "unat v \<le> c"
        using same_slot_gap [of c "unat v"] s v(2) by fastforce
      with True that(1) show ?thesis by (simp add: word_le_nat_alt)
    next
      case False
      with s inv show ?thesis by (simp add: other ring_inv_def)
    qed
  next
    fix s assume "s < 16" "slot_valid ee' s"
    then show "slot_raw ee' s \<le> m"
      using inv that(2) by (cases "s = ?i") (auto simp: other ring_inv_def)
  next
    show "m = 0 \<or> slot_valid ee' (unat m mod 16) \<and> slot_raw ee' (unat m mod 16) = m"
      using inv m_slot by (simp add: other ring_inv_def)
  qed
  consider "k = 0" | "0 < k" "k < 5" | "5 \<le> k" by linarith
  then show ?thesis
  proof cases
    case 1
    with inv show ?thesis by (simp add: ee'_def)
  next
    case 2
    then have torn: "slot_raw ee' ?i \<le> v" "unat (slot_raw ee' ?i) mod 16 = ?i"
      using persist_torn [OF 2 raw_i] by (simp_all add: ee'_def)
    show ?thesis
    proof (cases "slot_raw ee' ?i = v")
      case True
      show ?thesis
      proof (cases "slot_valid ee' ?i")
        case False
        then show ?thesis using ring_m torn(1) by blast
      qed (use True ring_v in blast)
    next
      case False
      then have "unat (slot_raw ee' ?i) < unat v"
        using torn(1) by (metis order_le_neq_trans word_less_nat_alt)
      then have "unat (slot_raw ee' ?i) + 16 \<le> unat v"
        by (rule same_slot_gap [OF torn(2)])
      then have "slot_raw ee' ?i \<le> m"
        using v(2) by (simp add: word_le_nat_alt)
      then show ?thesis using ring_m torn(1) by blast
    qed
  next
    case 3
    have "v \<noteq> 0xFFFFFFFF" using v(3) by auto
    from persist_complete [OF 3 this, of ee] ring_v show ?thesis
      by (simp add: ee'_def)
  qed
qed

lemma ring_inv_persisted:
  assumes "ring_inv ee m" "m < v" "unat v < unat m + 16" "v < 0xFFFFFFFF"
  shows "ring_inv (ee_apply ee (persist_writes v)) v"
proof -
  have v: "v \<noteq> 0xFFFFFFFF" using assms(4) by auto
  have k: "take 5 (persist_writes v) = persist_writes v"
    by (simp add: persist_writes_eq Let_def)
  have "v \<le> boot_scan (ee_apply ee (persist_writes v))"
    using boot_scan_upper [of "unat v mod 16" "ee_apply ee (persist_writes v)"]
      persist_complete [of 5 v ee] v by (simp add: k)
  then have "\<not> ring_inv (ee_apply ee (persist_writes v)) m"
    using boot_scan_ring_inv assms(2) by (metis leD)
  then show ?thesis
    using ring_inv_torn [OF assms, of 5] by (simp add: k)
qed

lemma should_persist_iff: "m \<le> r \<Longrightarrow> odometerShouldPersist r m \<longleftrightarrow> m < r"
proof -
  assume "m \<le> r"
  have "1 \<le> r - m \<longleftrightarrow> r - m \<noteq> 0"
    by (metis le_zero_eq word_le_nat_alt unat_eq_zero unat_1 less_one linorder_not_less One_nat_def nat_less_le not_less_eq_eq)
  with \<open>m \<le> r\<close> show ?thesis
    by (auto simp: odometerShouldPersist_def)
qed

lemma power_loss_ring_inv:
  assumes "odo_inv u"
  defines "m \<equiv> ou_lastPersistedRevs u" and "r \<equiv> od_revolutions (ou_odometer u)"
    and "ee' \<equiv> \<lambda>k. ee_apply (ou_ee u) (take k (pending_writes u))"
  shows "ring_inv (ee' k) m \<or> ring_inv (ee' k) r"
proof (cases "m < r")
  case True
  then show ?thesis
    using assms(1) ring_inv_torn [of "ou_ee u" m r k]
    by (auto simp: ee'_def pending_writes_def should_persist_iff m_def r_def odo_inv_def Let_def)
next
  case False
  then show ?thesis
    using assms(1)
    by (auto simp: ee'_def pending_writes_def should_persist_iff m_def r_def odo_inv_def Let_def)
qed

lemma odo_inv_booted: "ring_inv ee m \<Longrightarrow> m < 0xFFFFFFFF \<Longrightarrow> odo_inv (odometer_boot ee)"
  by (simp add: ring_inv_boot odo_inv_def)

lemma odo_step_inv: "odo_step u u' \<Longrightarrow> odo_inv u \<Longrightarrow> odo_inv u'"
proof (induction rule: odo_step.induct)
  case (turn od' u steps)
  then show ?case
    by (auto simp: odo_inv_def Let_def simp del: turn(1) intro: order.trans)
next
  case (persist u)
  then show ?case
    using ring_inv_persisted
    by (auto simp: odometer_persist_def odo_inv_def should_persist_iff Let_def)
next
  case (power_loss u k)
  have "ou_lastPersistedRevs u < 0xFFFFFFFF" "od_revolutions (ou_odometer u) < 0xFFFFFFFF"
    using power_loss by (auto simp: odo_inv_def Let_def)
  with power_loss_ring_inv [OF power_loss, of k] odo_inv_booted show ?case by blast
qed

lemma odo_steps_inv: "odo_step\<^sup>*\<^sup>* u u' \<Longrightarrow> odo_inv u \<Longrightarrow> odo_inv u'"
  by (induction rule: rtranclp_induct) (auto intro: odo_step_inv)

section \<open>The healing of the ring\<close>

lemma heal_shape:
  assumes "\<not> unitEeRingInitDone (ee_read ee 24 2)"
  shows "ring_heal_writes ee =
    ee_block_writes 64 (replicate 640 0) @ [(25, unitEeRingInitEncode ! 1), (24, 2)]"
  using assms
  by (simp add: ring_heal_writes_def unitEeRingInitEncode_def ee_block_writes_Cons
      ee_block_writes_def Let_def)

lemma swept_zero:
  assumes "64 \<le> a" and "a < 704"
  shows "ee_apply ee (ee_block_writes 64 (replicate 640 0)) a = 0"
proof -
  obtain i where i: "a = 64 + i" "i < 640"
    using assms le_Suc_ex [of 64 a] by auto
  have "ee_apply ee (ee_block_writes 64 (replicate 640 0)) (64 + i) = replicate 640 0 ! i"
    by (rule ee_block_writes_nth) (simp add: i)
  also have "\<dots> = 0" by (rule nth_replicate) (rule i)
  finally show ?thesis by (simp only: i)
qed

lemma healed:
  assumes "\<not> unitEeRingInitDone (ee_read ee 24 2)"
  shows "ring_inv (ee_apply ee (ring_heal_writes ee)) 0"
proof -
  let ?ee = "ee_apply ee (ring_heal_writes ee)"
  have zero: "?ee a = 0" if "64 \<le> a" "a < 704" for a
    using swept_zero [OF that] that by (simp add: heal_shape [OF assms])
  have raw: "slot_raw ?ee s = 0" if "s < 16" for s
    using that zero [of "64 + 5 * s"] zero [of "64 + 5 * s + 1"] zero [of "64 + 5 * s + 2"]
      zero [of "64 + 5 * s + 3"]
    by (simp add: slot_raw_def ee_get32_def le32_def)
  have "ee_read ?ee 24 2 = unitEeRingInitEncode"
    by (simp add: heal_shape [OF assms] ee_read_def upt_rec unitEeRingInitEncode_def Let_def)
  then show ?thesis
    using raw by (simp add: ring_inv_def slot_valid_def zero unitEeRingInitDone_def unitEeRingInitEncode_def
        odometerSlotChecksum_def byte_of_def Let_def unitEeBlockChecksum_def masked_checksum_def)
qed

lemma heal_untouched:
  assumes "\<not> unitEeRingInitDone (ee_read ee 24 2)" and "k \<le> 640"
  shows "ee_read (ee_apply ee (take k (ring_heal_writes ee))) 24 2 = ee_read ee 24 2"
proof (rule ee_read_other)
  have "fst ` set (take k (ring_heal_writes ee)) \<subseteq> fst ` set (ee_block_writes 64 (replicate 640 0))"
    using assms by (auto simp: heal_shape dest!: in_set_takeD)
  also have "\<dots> = {64..<704}" by (simp add: set_ee_block_writes)
  finally show "{24..<24 + 2} \<inter> fst ` set (take k (ring_heal_writes ee)) = {}"
    by fastforce
qed

section \<open>Properties\<close>

text \<open>C40: No revolution that was written down is ever lost, and no torn write is ever adopted.
  A unit whose ring was healed lives through any sequence of moves, persists and power losses,
  each power loss after any prefix of the bytes of the persist then due. At one more power loss
  the count recovered at boot is the last persisted count or the count being written, nothing
  else, and the persisted count is what the next persist builds on.\<close>

theorem persisted_count_survives:
  assumes "\<not> unitEeRingInitDone (ee_read ee 24 2)"
    and "odo_step\<^sup>*\<^sup>* (odometer_boot ee) u"
  shows "let u' = odometer_boot (ee_apply (ou_ee u) (take k (pending_writes u))) in
    od_revolutions (ou_odometer u') \<in> {ou_lastPersistedRevs u, od_revolutions (ou_odometer u)} \<and>
    ou_lastPersistedRevs u \<le> od_revolutions (ou_odometer u') \<and>
    ou_lastPersistedRevs u' = od_revolutions (ou_odometer u') \<and>
    od_revolutions (ou_odometer (odometer_boot (ou_ee (odometer_persist u)))) =
      od_revolutions (ou_odometer u)"
proof -
  have "odometer_boot ee = odometer_boot (ee_apply ee (ring_heal_writes ee))"
    using ring_inv_boot [OF healed [OF assms(1)]] boot_scan_ring_inv [OF healed [OF assms(1)]]
    by (simp add: odometer_boot_def)
  then have "odo_inv (odometer_boot ee)"
    using odo_inv_booted [OF healed [OF assms(1)]] by simp
  then have inv: "odo_inv u"
    by (rule odo_steps_inv [OF assms(2)])
  have "odo_inv (odometer_persist u)"
    by (rule odo_step_inv [OF odo_step.persist inv])
  then have "ring_inv (ou_ee (odometer_persist u)) (ou_lastPersistedRevs (odometer_persist u))"
    by (simp add: odo_inv_def Let_def)
  moreover have "ou_lastPersistedRevs (odometer_persist u) = od_revolutions (ou_odometer u)"
    using inv by (auto simp: odometer_persist_def odo_inv_def should_persist_iff Let_def)
  ultimately have "od_revolutions (ou_odometer (odometer_boot (ou_ee (odometer_persist u)))) =
      od_revolutions (ou_odometer u)"
    by (simp add: ring_inv_boot)
  then show ?thesis
    using power_loss_ring_inv [OF inv, of k] inv
    by (auto simp: ring_inv_boot odo_inv_def Let_def)
qed

lemma persisted_count_survives_witness:
  "\<exists>u. odo_step\<^sup>*\<^sup>* (odometer_boot (\<lambda>_. 0)) u \<and> od_revolutions (ou_odometer u) = 2 \<and>
     od_revolutions (ou_odometer (odometer_boot (ou_ee (odometer_persist u)))) = 2"
proof -
  let ?booted = "odometer_boot (\<lambda>_. 0)"
  let ?turned = "?booted\<lparr>ou_odometer := odometerAddSteps (ou_odometer ?booted) 4076 2038\<rparr>"
  have fresh: "\<not> unitEeRingInitDone (ee_read (\<lambda>_. 0) 24 2)"
    by (simp add: unitEeRingInitDone_def ee_read_def upt_rec unitEeBlockChecksum_def
        masked_checksum_def)
  have u0: "od_revolutions (ou_odometer ?booted) = 0" "ou_lastPersistedRevs ?booted = 0"
    "od_stepAccumulator (ou_odometer ?booted) = 0"
    using boot_scan_ring_inv [OF healed [OF fresh]] by (simp_all add: odometer_boot_def Let_def)
  have two: "od_revolutions (ou_odometer ?turned) = 2"
    by (simp add: odometerAddSteps_def u0)
  have "odo_step ?booted ?turned"
    by (rule odo_step.turn [OF refl]) (simp_all add: odometerAddSteps_def u0)
  then have "odo_step\<^sup>*\<^sup>* ?booted ?turned" by blast
  with persisted_count_survives [OF fresh this] two show ?thesis
    by (auto simp: Let_def)
qed

text \<open>The one-shot sweep of the ring is safe against a power loss at every byte: whenever the
  marker reads as done after a prefix of the sweep, every byte any ring geometry ever used is zero
  and the count recovered is zero, so no stale slot of an older geometry is read back.\<close>

lemma ring_heal_power_loss_safe:
  assumes "\<not> unitEeRingInitDone (ee_read ee 24 2)"
  defines "ee' \<equiv> \<lambda>k. ee_apply ee (take k (ring_heal_writes ee))"
  shows "unitEeRingInitDone (ee_read (ee' k) 24 2) \<longrightarrow>
    boot_scan (ee' k) = 0 \<and> (\<forall>a \<in> {64..<704}. ee' k a = 0)"
proof
  assume d: "unitEeRingInitDone (ee_read (ee' k) 24 2)"
  with heal_untouched [OF assms(1), of k] assms(1) have k: "640 < k"
    by (metis ee'_def not_less)
  let ?sw = "ee_block_writes 64 (replicate 640 0)"
  have eq: "ee' k = ee_apply (ee_apply ee ?sw) (take (k - 640) [(25, unitEeRingInitEncode ! 1), (24, 2)])"
    using k by (simp add: ee'_def heal_shape [OF assms(1)])
  have zero: "ee' k a = 0" if "64 \<le> a" "a < 704" for a
  proof -
    have "a \<notin> fst ` set (take (k - 640) [(25, unitEeRingInitEncode ! 1), (24 :: nat, 2)])"
      using that by (auto dest!: in_set_takeD)
    then show ?thesis
      unfolding eq by (subst ee_apply_other) (assumption, rule swept_zero [OF that])
  qed
  have "slot_raw (ee' k) s = 0" if "s < 16" for s
    using that zero [of "64 + 5 * s"] zero [of "64 + 5 * s + 1"] zero [of "64 + 5 * s + 2"]
      zero [of "64 + 5 * s + 3"]
    by (simp add: slot_raw_def ee_get32_def le32_def)
  then have "boot_scan (ee' k) = 0"
    using boot_scan_attained [of "ee' k"] by auto
  with zero show "boot_scan (ee' k) = 0 \<and> (\<forall>a \<in> {64..<704}. ee' k a = 0)"
    by simp
qed

lemma ring_heal_power_loss_safe_witness:
  "boot_scan (ee_apply (\<lambda>_. 0xFF) (take 642 (ring_heal_writes (\<lambda>_. 0xFF)))) = 0"
proof -
  have blank: "\<not> unitEeRingInitDone (ee_read (\<lambda>_. 0xFF) 24 2)"
    by (simp add: unitEeRingInitDone_def ee_read_def upt_rec unitEeBlockChecksum_def masked_checksum_def)
  then have "take 642 (ring_heal_writes (\<lambda>_. 0xFF)) = ring_heal_writes (\<lambda>_. 0xFF)"
    by (simp add: heal_shape)
  then have "unitEeRingInitDone (ee_read (ee_apply (\<lambda>_. 0xFF) (take 642 (ring_heal_writes (\<lambda>_. 0xFF)))) 24 2)"
    using healed [OF blank] by (simp add: ring_inv_def)
  with ring_heal_power_loss_safe [OF blank, of 642] show ?thesis
    by blast
qed

text \<open>
  A fact about the sweep the comment above it denies: on a factory-fresh unit, whose slots are
  erased, it writes every one of the 640 bytes.
\<close>

lemma fresh_unit_is_swept:
  "let ee = (\<lambda>_. 0xFF) in \<forall>a \<in> {64..<704}. ee a = (0xFF :: u8) \<and> ee_apply ee (ring_heal_writes ee) a = 0"
proof -
  have "\<not> unitEeRingInitDone (ee_read (\<lambda>_. 0xFF) 24 2)"
    by (simp add: unitEeRingInitDone_def ee_read_def upt_rec unitEeBlockChecksum_def masked_checksum_def)
  then show ?thesis
    by (simp add: heal_shape swept_zero)
qed

end
