(* ===== verification/Unit_Drift.thy ===== *)
theory Unit_Drift
  imports Unit_Replies "HOL-Library.Signed_Division"
begin

text \<open>
  The drum-position tracking of \<open>Unit/UnitDrift.h\<close>: position past the hall edge modulo one
  revolution, the deviation an observed edge measures, and the letter the drum physically
  shows. C's remainder truncates toward zero: it is \<open>smod\<close> on the integers.
\<close>

abbreviation (input) DRIFT_THRESHOLD_STEPS :: u16 where "DRIFT_THRESHOLD_STEPS \<equiv> 23"
abbreviation (input) DRIFT_LETTER_UNKNOWN :: u8 where "DRIFT_LETTER_UNKNOWN \<equiv> 0xFF"

record DriftState =
  ds_drumPosition :: u16
  ds_positionKnown :: bool
  ds_driftEvents :: u8
  ds_lastDriftSteps :: i16
  ds_driftPending :: bool

definition driftReset :: DriftState where
  "driftReset = \<lparr>ds_drumPosition = 0, ds_positionKnown = False, ds_driftEvents = 0,
     ds_lastDriftSteps = 0, ds_driftPending = False\<rparr>"

definition driftAdvance :: "DriftState \<Rightarrow> int \<Rightarrow> u16 \<Rightarrow> DriftState" where
  "driftAdvance s steps stepsPerRev =
     (let pos = uint (ds_drumPosition s) + steps;
          pos1 = pos smod uint stepsPerRev;
          pos2 = (if pos1 < 0 then pos1 + uint stepsPerRev else pos1)
      in s\<lparr>ds_drumPosition := word_of_int pos2\<rparr>)"

definition driftFoldDeviation :: "u16 \<Rightarrow> u16 \<Rightarrow> i16" where
  "driftFoldDeviation position stepsPerRev =
     (if position \<le> stepsPerRev div 2 then position
      else word_of_int (uint position - uint stepsPerRev))"

definition driftMarkSynced :: "DriftState \<Rightarrow> DriftState" where
  "driftMarkSynced s = s\<lparr>ds_drumPosition := 0, ds_positionKnown := True\<rparr>"

definition driftObserveEdge :: "DriftState \<Rightarrow> u16 \<Rightarrow> u16 \<Rightarrow> bool \<times> DriftState" where
  "driftObserveEdge s stepsPerRev thresholdSteps =
     (let hadExpectation = ds_positionKnown s;
          deviation = driftFoldDeviation (ds_drumPosition s) stepsPerRev;
          s1 = driftMarkSynced s
      in if \<not> hadExpectation then (False, s1)
         else (let magnitude = (if sint deviation < 0 then - deviation else deviation)
               in if sint magnitude \<le> sint thresholdSteps then (False, s1)
                  else (True, s1\<lparr>ds_driftEvents := bump8 (ds_driftEvents s1),
                              ds_lastDriftSteps := deviation\<rparr>)))"

definition driftPhysicalLetter :: "DriftState \<Rightarrow> i16 \<Rightarrow> u16 \<Rightarrow> u8 \<Rightarrow> u8" where
  "driftPhysicalLetter s calOffset stepsPerRev flapAmount =
     (if \<not> ds_positionKnown s then DRIFT_LETTER_UNKNOWN
      else (let fromZero = (uint (ds_drumPosition s) - sint calOffset) smod uint stepsPerRev;
                fromZero1 = (if fromZero < 0 then fromZero + uint stepsPerRev else fromZero);
                letter = ((word_of_int fromZero1 :: u32) * ucast flapAmount
                            + ucast (stepsPerRev div 2)) div ucast stepsPerRev
            in ucast (letter mod ucast flapAmount)))"

section \<open>Positions\<close>

text \<open>The remainder with the correction of negative results is the mathematical modulus.\<close>

lemma smod_fold:
  assumes "0 < (b :: int)"
  shows "(if a smod b < 0 then a smod b + b else a smod b) = a mod b"
proof (cases "0 \<le> a")
  case True
  then have "a smod b = a mod b"
    using assms
    by (cases "a = 0")
      (simp_all add: signed_modulo_int_def signed_divide_int_def minus_div_mult_eq_mod)
  with assms show ?thesis
    by (simp add: not_less pos_mod_sign)
next
  case False
  then have "a smod b = - (- a mod b)"
    using assms by (simp add: signed_modulo_int_def signed_divide_int_def minus_div_mult_eq_mod
        sgn_if minus_mult_div_eq_mod algebra_simps)
  moreover have "a mod b = (if - a mod b = 0 then 0 else b - - a mod b)"
    using zmod_zminus1_eq_if [of "- a" b] by simp
  moreover have "0 \<le> - a mod b" "- a mod b < b"
    using assms by simp_all
  ultimately show ?thesis by (auto split: if_splits)
qed

lemma drift_advance_position:
  assumes "0 < stepsPerRev"
  shows "uint (ds_drumPosition (driftAdvance s steps stepsPerRev)) =
    (uint (ds_drumPosition s) + steps) mod uint stepsPerRev"
proof -
  have b: "0 < uint stepsPerRev" "uint stepsPerRev < 2 ^ 16"
    using assms unsigned_less [of stepsPerRev, where 'a = int] by (simp_all add: word_less_def)
  let ?p = "(uint (ds_drumPosition s) + steps) mod uint stepsPerRev"
  have "ds_drumPosition (driftAdvance s steps stepsPerRev) = word_of_int ?p"
    using smod_fold [OF b(1), of "uint (ds_drumPosition s) + steps"]
    by (simp add: driftAdvance_def Let_def)
  moreover have "0 \<le> ?p" "?p < uint stepsPerRev"
    using b by simp_all
  ultimately show ?thesis
    using b(2) by (simp add: unsigned_of_int take_bit_int_eq_self)
qed

lemma drift_advance_other [simp]:
  "ds_positionKnown (driftAdvance s steps r) = ds_positionKnown s"
  "ds_driftEvents (driftAdvance s steps r) = ds_driftEvents s"
  "ds_lastDriftSteps (driftAdvance s steps r) = ds_lastDriftSteps s"
  by (simp_all add: driftAdvance_def Let_def)

text \<open>Between two observations of the hall edge the tracked position is exactly the sum of
  all moves modulo one revolution, forward and backward moves alike, and it always stays inside
  the revolution.\<close>

lemma drift_position_tracks_moves:
  fixes moves :: "int list"
  assumes "0 < stepsPerRev" and "uint (ds_drumPosition s) < uint stepsPerRev"
  defines "s' \<equiv> fold (\<lambda>steps s. driftAdvance s steps stepsPerRev) moves s"
  shows "uint (ds_drumPosition s') = (uint (ds_drumPosition s) + sum_list moves) mod uint stepsPerRev \<and>
    ds_drumPosition s' < stepsPerRev"
proof -
  have b: "0 < uint stepsPerRev" using assms(1) by (simp add: word_less_def)
  have "uint (ds_drumPosition (fold (\<lambda>steps s. driftAdvance s steps stepsPerRev) moves s)) =
      (uint (ds_drumPosition s) + sum_list moves) mod uint stepsPerRev"
    using assms(2)
  proof (induction moves arbitrary: s)
    case (Cons m ms)
    have "uint (ds_drumPosition (driftAdvance s m stepsPerRev)) < uint stepsPerRev"
      using pos_mod_bound [OF b] by (simp add: drift_advance_position [OF assms(1)])
    with Cons.IH [of "driftAdvance s m stepsPerRev"] show ?case
      by (simp add: drift_advance_position [OF assms(1)] mod_add_left_eq add.assoc)
  qed simp
  then show ?thesis
    using pos_mod_bound [OF b] by (simp add: s'_def word_less_def)
qed

lemma drift_position_tracks_moves_witness:
  "uint (ds_drumPosition (fold (\<lambda>steps s. driftAdvance s steps 2038) [2000, 100, -70] driftReset)) = 2030"
  using drift_position_tracks_moves [of 2038 driftReset "[2000, 100, -70]"]
  by (simp add: driftReset_def)

section \<open>Edges\<close>

lemma drift_deviation:
  assumes "0 < stepsPerRev" and "stepsPerRev \<le> 0x7FFF" and "position < stepsPerRev"
  shows "sint (driftFoldDeviation position stepsPerRev) =
    (if 2 * uint position \<le> uint stepsPerRev then uint position else uint position - uint stepsPerRev)"
proof -
  have b: "0 \<le> uint position" "uint position < uint stepsPerRev" "uint stepsPerRev \<le> 0x7FFF"
    using assms by (simp_all add: word_less_def word_le_def)
  have le: "position \<le> stepsPerRev div 2 \<longleftrightarrow> 2 * uint position \<le> uint stepsPerRev"
    by (simp add: word_le_def uint_div) linarith
  have s: "sint (word_of_int i :: 16 word) = i" if "- 32768 \<le> i" "i < 32768" for i
    using that by (simp add: signed_of_int signed_take_bit_int_eq_self)
  show ?thesis
  proof (cases "2 * uint position \<le> uint stepsPerRev")
    case True
    then have "sint (word_of_int (uint position) :: 16 word) = uint position"
      using b by (intro s) linarith+
    with True le show ?thesis by (simp add: driftFoldDeviation_def)
  next
    case False
    then have "sint (word_of_int (uint position - uint stepsPerRev) :: 16 word) =
        uint position - uint stepsPerRev"
      using b by (intro s) linarith+
    with False le show ?thesis by (simp add: driftFoldDeviation_def)
  qed
qed

lemma sint_small: "- 32768 \<le> i \<Longrightarrow> i < 32768 \<Longrightarrow> sint (word_of_int i :: 16 word) = i"
  by (simp add: signed_of_int signed_take_bit_int_eq_self)

text \<open>An observed hall edge is the truth. If the tracked position is off by \<open>e\<close> steps, at
  most half a turn either way, the observation counts an event exactly when a position was known
  and \<open>e\<close> exceeds the threshold in magnitude; it then reports \<open>e\<close> with its sign, and in every
  case the position restarts from the edge.\<close>

lemma drift_edge_measures_error:
  assumes "0 < stepsPerRev" and "stepsPerRev \<le> 0x7FFF" and "thr \<le> 0x7FFF"
    and "- uint stepsPerRev < 2 * e" and "2 * e \<le> uint stepsPerRev"
    and "uint (ds_drumPosition s) = e mod uint stepsPerRev"
  shows "driftObserveEdge s stepsPerRev thr =
    (if ds_positionKnown s \<and> \<bar>e\<bar> > uint thr
     then (True, s\<lparr>ds_drumPosition := 0, ds_positionKnown := True,
             ds_driftEvents := bump8 (ds_driftEvents s), ds_lastDriftSteps := word_of_int e\<rparr>)
     else (False, s\<lparr>ds_drumPosition := 0, ds_positionKnown := True\<rparr>))"
proof -
  have b: "0 < uint stepsPerRev" "uint stepsPerRev \<le> 0x7FFF" "uint thr \<le> 0x7FFF"
    using assms by (simp_all add: word_less_def word_le_def)
  have pos: "ds_drumPosition s < stepsPerRev"
    using pos_mod_bound [OF b(1)] assms(6) by (simp add: word_less_def)
  have "sint (driftFoldDeviation (ds_drumPosition s) stepsPerRev) = e"
  proof (cases "0 \<le> e")
    case True
    then have "e mod uint stepsPerRev = e" using assms(5) b by simp
    with drift_deviation [OF assms(1,2) pos] assms(5,6) show ?thesis by simp
  next
    case False
    then have "e mod uint stepsPerRev = e + uint stepsPerRev"
      using mod_pos_pos_trivial [of "e + uint stepsPerRev" "uint stepsPerRev"] assms(4) by simp
    with drift_deviation [OF assms(1,2) pos] assms(4,6) False show ?thesis by simp
  qed
  from arg_cong [OF this, of "word_of_int :: int \<Rightarrow> i16"]
  have dev: "driftFoldDeviation (ds_drumPosition s) stepsPerRev = word_of_int e"
    by simp
  have e: "sint (word_of_int e :: 16 word) = e" "sint (word_of_int (- e) :: 16 word) = - e"
    using sint_small [of e] sint_small [of "- e"] assms(4,5) b by auto
  have "sint thr = uint thr"
    using sint_small [of "uint thr"] b unsigned_greater_eq [of thr, where 'a = int] by simp
  then show ?thesis
    using e by (auto simp: driftObserveEdge_def dev driftMarkSynced_def Let_def)
qed

lemma drift_edge_measures_error_witness:
  "driftObserveEdge \<lparr>ds_drumPosition = 2000, ds_positionKnown = True, ds_driftEvents = 0,
     ds_lastDriftSteps = 0, ds_driftPending = False\<rparr> 2038 23 =
   (True, \<lparr>ds_drumPosition = 0, ds_positionKnown = True, ds_driftEvents = 1,
     ds_lastDriftSteps = - 38, ds_driftPending = False\<rparr>)"
  using drift_edge_measures_error [of 2038 23 "- 38" "\<lparr>ds_drumPosition = 2000, ds_positionKnown = True,
     ds_driftEvents = 0, ds_lastDriftSteps = 0, ds_driftPending = False\<rparr>"]
  by (simp add: bump8_def)

section \<open>The letter the drum shows\<close>

lemma nearest_flap:
  assumes "k < 45" and "\<bar>e\<bar> \<le> 21" and m: "int m = (int k * 2038 div 45 + e) mod 2038"
  shows "(m * 45 + 1019) div 2038 mod 45 = k"
proof -
  define q where "q = int k * 2038 div 45"
  have q: "45 * q \<le> 2038 * int k" "2038 * int k < 45 * q + 45"
    unfolding q_def by linarith+
  show ?thesis
  proof (cases "0 \<le> q + e")
    case True
    have "q + e < 2038" using q assms(1,2) by linarith
    then have "int m = q + e"
      using True m by (simp add: q_def)
    then have "2038 * int k \<le> int m * 45 + 1019" "int m * 45 + 1019 < 2038 * int k + 2038"
      using q assms(2) by linarith+
    then have "2038 * k \<le> m * 45 + 1019" "m * 45 + 1019 < 2038 * k + 2038"
      by linarith+
    then have "(m * 45 + 1019) div 2038 = k"
      by (intro div_nat_eqI) simp_all
    with assms(1) show ?thesis by simp
  next
    case False
    then have k: "k = 0" using q assms(2) by linarith
    with False have "(q + e + 2038) mod 2038 = q + e + 2038"
      using assms(2) by (intro mod_pos_pos_trivial) (simp_all add: q_def)
    then have "int m = e + 2038"
      using m k by (simp add: q_def)
    then have "2038 * 45 \<le> m * 45 + 1019" "m * 45 + 1019 < 2038 * 46"
      using assms(2) False k by (simp_all add: q_def; linarith)+
    then have "(m * 45 + 1019) div 2038 = 45"
      by (intro div_nat_eqI) simp_all
    with k show ?thesis by simp
  qed
qed

text \<open>The hall-corrected letter is the letter the drum really shows: standing within 21 steps
  of the place of letter \<open>k\<close>, for any legal calibration offset, it reads \<open>k\<close>. A few steps of error
  never flip it to a neighbour.\<close>

lemma physical_letter_correct:
  assumes "ds_positionKnown s" and "k < 45" and "\<bar>e\<bar> \<le> 21"
    and "uint (ds_drumPosition s) = (sint cal + int k * 2038 div 45 + e) mod 2038"
  shows "driftPhysicalLetter s cal 2038 45 = of_nat k"
proof -
  let ?x = "int k * 2038 div 45 + e"
  let ?f = "(uint (ds_drumPosition s) - sint cal) smod 2038"
  have "(if ?f < 0 then ?f + 2038 else ?f) = (uint (ds_drumPosition s) - sint cal) mod 2038"
    by (rule smod_fold) simp
  also have "\<dots> = ?x mod 2038"
    unfolding assms(4) by (simp add: mod_diff_left_eq add.commute add_diff_eq)
  finally have x: "(if ?f < 0 then ?f + 2038 else ?f) = ?x mod 2038" .
  define m where "m = nat (?x mod 2038)"
  have m: "int m = ?x mod 2038" "m < 2038" by (simp_all add: m_def nat_less_iff)
  have letter: "(m * 45 + 1019) div 2038 mod 45 = k"
    using nearest_flap [OF assms(2,3) m(1)] .
  let ?w = "((of_nat m :: u32) * 45 + 1019) div 2038 mod 45"
  have "(of_nat m :: u32) * 45 + 1019 = of_nat (m * 45 + 1019)"
    by simp
  moreover have "unat (of_nat (m * 45 + 1019) :: u32) = m * 45 + 1019"
    using m(2) by (simp only: unat_of_nat) (simp add: take_bit_nat_eq_self)
  ultimately have "unat ?w = k"
    using letter by (simp only: unat_mod unat_div) simp
  from arg_cong [OF this, of "of_nat :: nat \<Rightarrow> u32"] have w: "?w = of_nat k"
    by (simp only: of_nat_unat ucast_id)
  have "(if ?f < 0 then ?f + uint (2038 :: u16) else ?f) = int m"
    using x m(1) by (simp split: if_splits)
  then have "driftPhysicalLetter s cal 2038 45 = ucast ?w"
    using assms(1) by (simp add: driftPhysicalLetter_def Let_def split del: if_split)
  moreover have "(ucast (of_nat k :: u32) :: u8) = of_nat k"
    using assms(2) by (simp add: word_unat_eq_iff unsigned_ucast_eq unat_of_nat take_bit_nat_eq_self)
  ultimately show ?thesis
    by (simp only: w)
qed

lemma physical_letter_correct_witness:
  "driftPhysicalLetter \<lparr>ds_drumPosition = 2038 - 5, ds_positionKnown = True, ds_driftEvents = 0,
     ds_lastDriftSteps = 0, ds_driftPending = False\<rparr> (- 20) 2038 45 = 0"
  using physical_letter_correct [of "\<lparr>ds_drumPosition = 2038 - 5, ds_positionKnown = True,
     ds_driftEvents = 0, ds_lastDriftSteps = 0, ds_driftPending = False\<rparr>" 0 15 "- 20"]
  by simp

end
