(* ===== verification/SF_Text.thy ===== *)
theory SF_Text
  imports SF_Prelude
begin

text \<open>
  The formatting of the C library the sources use: \<open>%u\<close>, \<open>%02x\<close>, \<open>%08lx\<close> and the truncation of
  \<open>snprintf\<close>, which writes at most \<open>cap - 1\<close> characters and a terminator.
\<close>

definition digit :: "nat \<Rightarrow> char" where
  "digit n = ''0123456789'' ! n"

fun show_dec :: "nat \<Rightarrow> string" where
  "show_dec n = (if n < 10 then [digit n] else show_dec (n div 10) @ [digit (n mod 10)])"

declare show_dec.simps [simp del]

definition hex_digit :: "nat \<Rightarrow> char" where
  "hex_digit n = ''0123456789abcdef'' ! n"

definition show_hex2 :: "u8 \<Rightarrow> string" where
  "show_hex2 b = [hex_digit (unat b div 16), hex_digit (unat b mod 16)]"

definition show_hex8 :: "u32 \<Rightarrow> string" where
  "show_hex8 w = show_hex2 (byte_of 3 w) @ show_hex2 (byte_of 2 w) @ show_hex2 (byte_of 1 w)
     @ show_hex2 (byte_of 0 w)"

definition snprintf_text :: "nat \<Rightarrow> string \<Rightarrow> string" where
  "snprintf_text cap s = take (cap - 1) s"

text \<open>A JSON key or value in quotes.\<close>

definition quoted :: "string \<Rightarrow> string" where
  "quoted s = CHR 0x22 # s @ [CHR 0x22]"

lemma length_quoted [simp]: "length (quoted s) = length s + 2"
  by (simp add: quoted_def)

lemma length_show_dec: "n < 10 ^ k \<Longrightarrow> 0 < k \<Longrightarrow> length (show_dec n) \<le> k"
proof (induction n arbitrary: k rule: show_dec.induct)
  case (1 n)
  show ?case
  proof (cases "n < 10")
    case True
    then show ?thesis using 1(3) by (simp add: show_dec.simps)
  next
    case False
    obtain j where k: "k = Suc j" using 1(3) by (cases k) auto
    with False 1(2) have "0 < j" by (cases j) simp_all
    with k have j: "k = Suc j" "0 < j" by auto
    then have "n div 10 < 10 ^ j" using 1(2) by simp
    with 1(1) [OF False this j(2)] False j show ?thesis
      by (subst show_dec.simps) simp
  qed
qed

lemma length_show_dec_pos: "0 < length (show_dec n)"
  by (subst show_dec.simps) simp

lemma length_show_hex [simp]: "length (show_hex2 b) = 2" "length (show_hex8 w) = 8"
  by (simp_all add: show_hex2_def show_hex8_def)

lemma length_show_u8: "length (show_dec (unat (b :: u8))) \<le> 3"
  using unat_u8_less [of b] by (intro length_show_dec) simp_all

lemma length_show_u16: "length (show_dec (unat (b :: u16))) \<le> 5"
  using unsigned_less [of b, where 'a = nat] by (intro length_show_dec) simp_all

lemma snprintf_text_fits: "length s < cap \<Longrightarrow> snprintf_text cap s = s"
  by (simp add: snprintf_text_def)

end
