(* ===== verification/Boot_Section.thy ===== *)
theory Boot_Section
  imports Unit_Replies SF_Text
begin

text \<open>
  What a unit and its master know about the unit's boot section:
  \<open>shared/BootSectionClassify.h\<close> (which image it holds), \<open>shared/BootUpdateReport.h\<close> (the boot
  report on the wire), \<open>shared/BootUpdatePlan.h\<close> (which update stages a report calls for),
  \<open>shared/BootIntegrity.h\<close> (the watch for damage), \<open>shared/BootInfo.h\<close> and
  \<open>shared/BootDump.h\<close> (what the web interface is told).
\<close>

section \<open>Classification\<close>

abbreviation (input) BOOT_STATE_UNKNOWN :: u8 where "BOOT_STATE_UNKNOWN \<equiv> 0"
abbreviation (input) BOOT_STATE_OLD :: u8 where "BOOT_STATE_OLD \<equiv> 1"
abbreviation (input) BOOT_STATE_PAGE7_INSTALLED :: u8 where "BOOT_STATE_PAGE7_INSTALLED \<equiv> 2"
abbreviation (input) BOOT_STATE_TRAMPOLINE :: u8 where "BOOT_STATE_TRAMPOLINE \<equiv> 3"
abbreviation (input) BOOT_STATE_NEW :: u8 where "BOOT_STATE_NEW \<equiv> 4"
abbreviation (input) BOOT_STATE_PREV_NEW :: u8 where "BOOT_STATE_PREV_NEW \<equiv> 5"

abbreviation (input) BOOT_FIELDED_CRC32 :: u32 where "BOOT_FIELDED_CRC32 \<equiv> 0x18173add"
abbreviation (input) BOOT_CURRENT_CRC32 :: u32 where "BOOT_CURRENT_CRC32 \<equiv> 0x506b3970"
abbreviation (input) BOOT_PREV_NEW_CRC32 :: u32 where "BOOT_PREV_NEW_CRC32 \<equiv> 0xe422a668"
abbreviation (input) BOOT_PREV_NEW2_CRC32 :: u32 where "BOOT_PREV_NEW2_CRC32 \<equiv> 0x081c2954"
abbreviation (input) BOOT_PREV_NEW3_CRC32 :: u32 where "BOOT_PREV_NEW3_CRC32 \<equiv> 0xc65e3dbf"
abbreviation (input) BOOT_FIELDED_PAGES_0_6_CRC32 :: u32 where "BOOT_FIELDED_PAGES_0_6_CRC32 \<equiv> 0x2524e944"
abbreviation (input) BOOT_TRAMPOLINE_WORD0 :: u16 where "BOOT_TRAMPOLINE_WORD0 \<equiv> 0x940C"
abbreviation (input) BOOT_TRAMPOLINE_WORD1 :: u16 where "BOOT_TRAMPOLINE_WORD1 \<equiv> 0x0000"

record BootSectionFacts =
  bf_fullCrc32 :: u32
  bf_pages0_6Crc32 :: u32
  bf_page0Word0 :: u16
  bf_page0Word1 :: u16

definition classifyBootSection :: "BootSectionFacts \<Rightarrow> u32 \<Rightarrow> u32 \<Rightarrow> u8" where
  "classifyBootSection f newFullCrc32 page7InstalledCrc32 =
     (if bf_fullCrc32 f = newFullCrc32 then BOOT_STATE_NEW
      else if bf_fullCrc32 f = BOOT_PREV_NEW_CRC32 \<or> bf_fullCrc32 f = BOOT_PREV_NEW2_CRC32
        \<or> bf_fullCrc32 f = BOOT_PREV_NEW3_CRC32 then BOOT_STATE_PREV_NEW
      else if bf_fullCrc32 f = BOOT_FIELDED_CRC32 then BOOT_STATE_OLD
      else if bf_fullCrc32 f = page7InstalledCrc32 then BOOT_STATE_PAGE7_INSTALLED
      else if bf_page0Word0 f = BOOT_TRAMPOLINE_WORD0 \<and> bf_page0Word1 f = BOOT_TRAMPOLINE_WORD1
        then BOOT_STATE_TRAMPOLINE
      else if bf_pages0_6Crc32 f = BOOT_FIELDED_PAGES_0_6_CRC32 then BOOT_STATE_OLD
      else BOOT_STATE_UNKNOWN)"

definition bootLockPermitsBootWrite :: "u8 \<Rightarrow> bool" where
  "bootLockPermitsBootWrite lockByte \<longleftrightarrow> lockByte AND 0x10 \<noteq> 0"

section \<open>The boot report\<close>

abbreviation (input) BOOT_RESULT_NONE :: u8 where "BOOT_RESULT_NONE \<equiv> 0"
abbreviation (input) BOOT_RESULT_STAGE1_OK :: u8 where "BOOT_RESULT_STAGE1_OK \<equiv> 1"
abbreviation (input) BOOT_RESULT_STAGE2_OK :: u8 where "BOOT_RESULT_STAGE2_OK \<equiv> 2"
abbreviation (input) BOOT_RESULT_REFUSED_STATE :: u8 where "BOOT_RESULT_REFUSED_STATE \<equiv> 3"
abbreviation (input) BOOT_RESULT_REFUSED_LOCK :: u8 where "BOOT_RESULT_REFUSED_LOCK \<equiv> 4"
abbreviation (input) BOOT_RESULT_REFUSED_BUSY :: u8 where "BOOT_RESULT_REFUSED_BUSY \<equiv> 5"
abbreviation (input) BOOT_RESULT_VERIFY_FAILED :: u8 where "BOOT_RESULT_VERIFY_FAILED \<equiv> 6"
abbreviation (input) BOOT_RESULT_COUNT :: u8 where "BOOT_RESULT_COUNT \<equiv> 7"
abbreviation (input) BOOT_INFO_FLAG_LOCKFUSE_UNREADABLE :: u8 where "BOOT_INFO_FLAG_LOCKFUSE_UNREADABLE \<equiv> 0x80"

record BootUpdateReport =
  bu_lockByte :: u8
  bu_fuseLow :: u8
  bu_fuseHigh :: u8
  bu_fuseExt :: u8
  bu_lockFuseReadable :: bool
  bu_sigRow :: "u8 \<times> u8 \<times> u8"
  bu_bootCrc32 :: u32
  bu_state :: u8
  bu_lastResult :: u8

definition empty_report :: BootUpdateReport where
  "empty_report = \<lparr>bu_lockByte = 0xFF, bu_fuseLow = 0xFF, bu_fuseHigh = 0xFF, bu_fuseExt = 0xFF,
     bu_lockFuseReadable = True, bu_sigRow = (0xFF, 0xFF, 0xFF), bu_bootCrc32 = 0,
     bu_state = BOOT_STATE_UNKNOWN, bu_lastResult = BOOT_RESULT_NONE\<rparr>"

definition bootInfoEncode :: "BootUpdateReport \<Rightarrow> bytes" where
  "bootInfoEncode r =
     (let head = (if bu_lockFuseReadable r
                  then [bu_lockByte r, bu_fuseLow r, bu_fuseHigh r, bu_fuseExt r]
                  else (case bu_sigRow r of (s0, s1, s2) \<Rightarrow> [0xFF, s0, s1, s2]));
          body = head @ [byte_of 0 (bu_bootCrc32 r), byte_of 1 (bu_bootCrc32 r),
                         byte_of 2 (bu_bootCrc32 r), byte_of 3 (bu_bootCrc32 r), bu_state r,
                         bu_lastResult r OR (if bu_lockFuseReadable r then 0
                                             else BOOT_INFO_FLAG_LOCKFUSE_UNREADABLE)]
      in body @ [masked_checksum 10 0x5A body])"

definition bootInfoDecode :: "bytes \<Rightarrow> BootUpdateReport option" where
  "bootInfoDecode buf =
     (if buf ! 10 \<noteq> masked_checksum 10 0x5A buf then None
      else if buf ! 8 > BOOT_STATE_PREV_NEW then None
      else (let result = (buf ! 9) AND NOT BOOT_INFO_FLAG_LOCKFUSE_UNREADABLE in
        if result \<ge> BOOT_RESULT_COUNT then None
        else (let readable = ((buf ! 9) AND BOOT_INFO_FLAG_LOCKFUSE_UNREADABLE = 0) in
          Some \<lparr>bu_lockByte = (if readable then buf ! 0 else 0xFF),
                bu_fuseLow = (if readable then buf ! 1 else 0xFF),
                bu_fuseHigh = (if readable then buf ! 2 else 0xFF),
                bu_fuseExt = (if readable then buf ! 3 else 0xFF),
                bu_lockFuseReadable = readable,
                bu_sigRow = (if readable then (0xFF, 0xFF, 0xFF) else (buf ! 1, buf ! 2, buf ! 3)),
                bu_bootCrc32 = le32 (buf ! 4) (buf ! 5) (buf ! 6) (buf ! 7),
                bu_state = buf ! 8, bu_lastResult = result\<rparr>)))"

definition bootSigRowReported :: "BootUpdateReport \<Rightarrow> bool" where
  "bootSigRowReported r \<longleftrightarrow> \<not> bu_lockFuseReadable r \<and> bu_sigRow r \<noteq> (0xFF, 0xFF, 0xFF)"

definition bootSigRowIsAtmega328p :: "BootUpdateReport \<Rightarrow> bool" where
  "bootSigRowIsAtmega328p r \<longleftrightarrow> bootSigRowReported r \<and> bu_sigRow r = (0x1E, 0x95, 0x0F)"

definition bootLockFuseReadFellThrough :: "u8 \<Rightarrow> u8 \<Rightarrow> u8 \<Rightarrow> u8 \<Rightarrow> bytes \<Rightarrow> bool" where
  "bootLockFuseReadFellThrough lockByte fuseLow fuseHigh fuseExt flash0to3 \<longleftrightarrow>
     fuseLow = flash0to3 ! 0 \<and> lockByte = flash0to3 ! 1 \<and> fuseExt = flash0to3 ! 2 \<and>
     fuseHigh = flash0to3 ! 3"

definition bootEffectiveLockByte :: "BootUpdateReport \<Rightarrow> u8" where
  "bootEffectiveLockByte r = (if bu_lockFuseReadable r then bu_lockByte r else 0xFF)"

section \<open>The update plan\<close>

datatype BootUpdateTerminal =
  BOOT_PLAN_PROCEED | BOOT_PLAN_ALREADY_NEW | BOOT_PLAN_LOCK_REFUSED | BOOT_PLAN_UNKNOWN_STATE

record BootUpdatePlan =
  pl_needStage1 :: bool
  pl_needStage2 :: bool
  pl_terminal :: BootUpdateTerminal

definition bootUpdateDecide :: "BootUpdateReport \<Rightarrow> BootUpdatePlan" where
  "bootUpdateDecide info =
     (let proceed = (\<lambda>needStage1 needStage2.
            if \<not> bootLockPermitsBootWrite (bootEffectiveLockByte info)
            then \<lparr>pl_needStage1 = False, pl_needStage2 = False, pl_terminal = BOOT_PLAN_LOCK_REFUSED\<rparr>
            else \<lparr>pl_needStage1 = needStage1, pl_needStage2 = needStage2,
                  pl_terminal = BOOT_PLAN_PROCEED\<rparr>)
      in if bu_state info = BOOT_STATE_NEW
         then \<lparr>pl_needStage1 = False, pl_needStage2 = False, pl_terminal = BOOT_PLAN_ALREADY_NEW\<rparr>
         else if bu_state info = BOOT_STATE_OLD then proceed True True
         else if bu_state info = BOOT_STATE_PAGE7_INSTALLED \<or> bu_state info = BOOT_STATE_TRAMPOLINE
           \<or> bu_state info = BOOT_STATE_PREV_NEW then proceed False True
         else \<lparr>pl_needStage1 = False, pl_needStage2 = False, pl_terminal = BOOT_PLAN_UNKNOWN_STATE\<rparr>)"

datatype BootUpdateFailure =
  BOOT_FAIL_NONE | BOOT_FAIL_BUSY | BOOT_FAIL_LOCK | BOOT_FAIL_STATE | BOOT_FAIL_VERIFY

definition bootResultFailure :: "u8 \<Rightarrow> BootUpdateFailure" where
  "bootResultFailure lastResult =
     (if lastResult = BOOT_RESULT_REFUSED_BUSY then BOOT_FAIL_BUSY
      else if lastResult = BOOT_RESULT_REFUSED_LOCK then BOOT_FAIL_LOCK
      else if lastResult = BOOT_RESULT_REFUSED_STATE then BOOT_FAIL_STATE
      else if lastResult = BOOT_RESULT_VERIFY_FAILED then BOOT_FAIL_VERIFY
      else BOOT_FAIL_NONE)"

datatype BootPollVerdict = BOOT_POLL_WAIT | BOOT_POLL_DONE | BOOT_POLL_FAILED

definition bootStage2Poll :: "BootUpdateReport \<Rightarrow> u8 \<Rightarrow> BootPollVerdict" where
  "bootStage2Poll now resultBeforeSend =
     (if bu_state now = BOOT_STATE_NEW then BOOT_POLL_DONE
      else if bootResultFailure (bu_lastResult now) \<noteq> BOOT_FAIL_NONE
        \<and> bu_lastResult now \<noteq> resultBeforeSend then BOOT_POLL_FAILED
      else BOOT_POLL_WAIT)"

text \<open>
  \<open>bootStage1WentOffBus\<close> over the two callbacks it takes, as functions on a world \<open>'w\<close>.
\<close>

fun stage1_gaps :: "('w \<Rightarrow> bool \<times> 'w) \<Rightarrow> (u16 \<Rightarrow> 'w \<Rightarrow> 'w) \<Rightarrow> u16 list \<Rightarrow> 'w \<Rightarrow> bool \<times> 'w" where
  "stage1_gaps answers pause [] w = (False, w)"
| "stage1_gaps answers pause (gap # gaps) w =
     (case answers (pause gap w) of
        (True, w1) \<Rightarrow> stage1_gaps answers pause gaps w1
      | (False, w1) \<Rightarrow>
          (case answers (pause 50 w1) of
             (True, w2) \<Rightarrow> stage1_gaps answers pause gaps w2
           | (False, w2) \<Rightarrow> (True, w2)))"

definition bootStage1WentOffBus :: "('w \<Rightarrow> bool \<times> 'w) \<Rightarrow> (u16 \<Rightarrow> 'w \<Rightarrow> 'w) \<Rightarrow> 'w \<Rightarrow> bool \<times> 'w" where
  "bootStage1WentOffBus answers pause w = stage1_gaps answers pause [200, 300] w"

section \<open>The integrity watch\<close>

definition bootInfoRefreshDue :: "u32 \<Rightarrow> u32 \<Rightarrow> bool \<Rightarrow> bool" where
  "bootInfoRefreshDue nowMs lastRefreshMs drumIdle \<longleftrightarrow> drumIdle \<and> nowMs - lastRefreshMs \<ge> 600000"

abbreviation (input) BOOT_INTEGRITY_UNREAD :: u8 where "BOOT_INTEGRITY_UNREAD \<equiv> 0"
abbreviation (input) BOOT_INTEGRITY_OK :: u8 where "BOOT_INTEGRITY_OK \<equiv> 1"
abbreviation (input) BOOT_INTEGRITY_OUTDATED :: u8 where "BOOT_INTEGRITY_OUTDATED \<equiv> 2"
abbreviation (input) BOOT_INTEGRITY_CORRUPT :: u8 where "BOOT_INTEGRITY_CORRUPT \<equiv> 3"

definition bootIntegrityJudge :: "BootUpdateReport \<Rightarrow> u32 \<Rightarrow> u8" where
  "bootIntegrityJudge r expectedCrc32 =
     (if bu_bootCrc32 r = expectedCrc32 then BOOT_INTEGRITY_OK
      else if bu_state r = BOOT_STATE_UNKNOWN then BOOT_INTEGRITY_CORRUPT
      else BOOT_INTEGRITY_OUTDATED)"

definition bootIntegrityName :: "u8 \<Rightarrow> string" where
  "bootIntegrityName v =
     (if v = BOOT_INTEGRITY_OK then ''ok'' else if v = BOOT_INTEGRITY_OUTDATED then ''outdated''
      else if v = BOOT_INTEGRITY_CORRUPT then ''corrupt'' else ''unread'')"

text \<open>The pair (emit a log line, the verdict to store back).\<close>

definition bootIntegrityEdge :: "u8 \<Rightarrow> u8 \<Rightarrow> bool \<times> u8" where
  "bootIntegrityEdge logged cur =
     (if cur = BOOT_INTEGRITY_UNREAD \<or> cur = logged then (False, logged)
      else (let quietFirstOk = (logged = BOOT_INTEGRITY_UNREAD \<and> cur = BOOT_INTEGRITY_OK)
            in (\<not> quietFirstOk, cur)))"

section \<open>What the web interface is told\<close>

record BootInfoSlot =
  is_seq :: u32
  is_addr :: u8
  is_done :: bool
  is_ok :: bool
  is_report :: BootUpdateReport

definition bootInfoStateName :: "u8 \<Rightarrow> string" where
  "bootInfoStateName state =
     (if state = BOOT_STATE_OLD then ''old'' else if state = BOOT_STATE_PAGE7_INSTALLED then ''page7''
      else if state = BOOT_STATE_TRAMPOLINE then ''trampoline''
      else if state = BOOT_STATE_NEW then ''new''
      else if state = BOOT_STATE_PREV_NEW then ''prev-new'' else ''unknown'')"

definition bootInfoResultName :: "u8 \<Rightarrow> string" where
  "bootInfoResultName result =
     (if result = BOOT_RESULT_NONE then ''none''
      else if result = BOOT_RESULT_STAGE1_OK then ''stage1-ok''
      else if result = BOOT_RESULT_STAGE2_OK then ''stage2-ok''
      else if result = BOOT_RESULT_REFUSED_STATE then ''refused-state''
      else if result = BOOT_RESULT_REFUSED_LOCK then ''refused-lock''
      else if result = BOOT_RESULT_REFUSED_BUSY then ''refused-busy''
      else if result = BOOT_RESULT_VERIFY_FAILED then ''verify-failed'' else ''unknown'')"

text \<open>One \<open>"key":value\<close> of a JSON object.\<close>

definition json_field :: "string \<Rightarrow> string \<Rightarrow> string" where
  "json_field key v = quoted key @ '':'' @ v"

fun json_object :: "string list \<Rightarrow> string" where
  "json_object [] = ''{}''"
| "json_object (f # fs) = ''{'' @ f @ concat (map (\<lambda>g. '','' @ g) fs) @ ''}''"

text \<open>
  The text \<open>buildBootInfoJson\<close> leaves in the buffer (\<open>None\<close> for \<open>cap == 0\<close>, where it writes
  nothing); the length it returns is the length of this text.
\<close>

definition boot_info_fields :: "BootInfoSlot \<Rightarrow> u32 \<Rightarrow> string list" where
  "boot_info_fields slot seq =
     (let r = is_report slot;
          front = [json_field ''state'' (quoted ''ok''), json_field ''addr'' (show_dec (unat (is_addr slot))),
                   json_field ''boot'' (quoted (bootInfoStateName (bu_state r))),
                   json_field ''crc32'' (quoted (show_hex8 (bu_bootCrc32 r)))];
          last = [json_field ''last'' (quoted (bootInfoResultName (bu_lastResult r)))]
      in if is_seq slot < seq \<or> is_seq slot = seq \<and> \<not> is_done slot
         then [json_field ''state'' (quoted ''pending'')]
         else if is_seq slot > seq then [json_field ''state'' (quoted ''expired'')]
         else if \<not> is_ok slot
         then [json_field ''state'' (quoted ''failed''), json_field ''addr'' (show_dec (unat (is_addr slot))),
               json_field ''reason'' (quoted ''read-fail'')]
         else if bootSigRowReported r
         then front @ [json_field ''lockfuse'' (quoted ''unreadable''),
               json_field ''sigrow'' (quoted (case bu_sigRow r of (a, b, c) \<Rightarrow>
                 show_hex2 a @ show_hex2 b @ show_hex2 c)),
               json_field ''sig'' (quoted (if bootSigRowIsAtmega328p r then ''ok'' else ''other''))] @ last
         else if \<not> bu_lockFuseReadable r
         then front @ [json_field ''lockfuse'' (quoted ''unreadable'')] @ last
         else front @ [json_field ''lock'' (quoted (show_hex2 (bu_lockByte r))),
               json_field ''lfuse'' (quoted (show_hex2 (bu_fuseLow r))),
               json_field ''hfuse'' (quoted (show_hex2 (bu_fuseHigh r))),
               json_field ''efuse'' (quoted (show_hex2 (bu_fuseExt r)))] @ last)"

definition buildBootInfoJson :: "nat \<Rightarrow> BootInfoSlot \<Rightarrow> u32 \<Rightarrow> string option" where
  "buildBootInfoJson cap slot seq =
     (if cap = 0 then None else Some (snprintf_text cap (json_object (boot_info_fields slot seq))))"

datatype BootDumpOutcome =
  DumpPending | DumpOk | DumpEnterFail | DumpBootloaderSilent | DumpChipMismatch | DumpReadFail

record BootDumpSlot =
  dp_seq :: u32
  dp_addr :: u8
  dp_outcome :: BootDumpOutcome
  dp_crc32 :: u32

definition bootDumpOutcomeName :: "BootDumpOutcome \<Rightarrow> string" where
  "bootDumpOutcomeName o' =
     (case o' of DumpOk \<Rightarrow> ''ok'' | DumpEnterFail \<Rightarrow> ''enter-fail''
      | DumpBootloaderSilent \<Rightarrow> ''bootloader-silent'' | DumpChipMismatch \<Rightarrow> ''chip-mismatch''
      | DumpReadFail \<Rightarrow> ''read-fail'' | DumpPending \<Rightarrow> ''pending'')"

text \<open>One byte of the bitwise CRC-32: eight shift-and-xor rounds.\<close>

definition crc32_round :: "u32 \<Rightarrow> u32" where
  "crc32_round crc = drop_bit 1 crc XOR (0xEDB88320 AND (0 - (crc AND 1)))"

definition crc32_byte :: "u32 \<Rightarrow> u8 \<Rightarrow> u32" where
  "crc32_byte crc b = (crc32_round ^^ 8) (crc XOR ucast b)"

definition bootDumpCrc32 :: "bytes \<Rightarrow> u32" where
  "bootDumpCrc32 data = NOT (foldl crc32_byte 0xFFFFFFFF data)"

definition boot_dump_head :: "BootDumpSlot \<Rightarrow> string" where
  "boot_dump_head slot =
     ''{'' @ json_field ''state'' (quoted ''ok'') @ '','' @ json_field ''addr'' (show_dec (unat (dp_addr slot)))
      @ '','' @ json_field ''start'' (show_dec 0x7C00) @ '','' @ json_field ''len'' (show_dec 1024)
      @ '','' @ json_field ''crc32'' (quoted (show_hex8 (dp_crc32 slot))) @ '','' @ quoted ''hex'' @ '':''
      @ [CHR 0x22]"

definition buildBootDumpJson :: "nat \<Rightarrow> BootDumpSlot \<Rightarrow> u32 \<Rightarrow> bytes option \<Rightarrow> string option" where
  "buildBootDumpJson cap slot seq dump =
     (if cap = 0 then None
      else Some (
        if dp_seq slot < seq \<or> dp_seq slot = seq \<and> dp_outcome slot = DumpPending
        then snprintf_text cap (json_object [json_field ''state'' (quoted ''pending'')])
        else if dp_seq slot > seq \<or> dp_outcome slot = DumpOk \<and> dump = None
        then snprintf_text cap (json_object [json_field ''state'' (quoted ''expired'')])
        else if dp_outcome slot \<noteq> DumpOk
        then snprintf_text cap (json_object [json_field ''state'' (quoted ''failed''),
               json_field ''addr'' (show_dec (unat (dp_addr slot))),
               json_field ''reason'' (quoted (bootDumpOutcomeName (dp_outcome slot)))])
        else if length (boot_dump_head slot) + 2 * 1024 + 3 \<le> cap
        then boot_dump_head slot @ concat (map (\<lambda>i. show_hex2 (the dump ! i)) [0..<1024])
               @ [CHR 0x22] @ ''}''
        else snprintf_text cap ''{}''))"

section \<open>The boot report as a codec\<close>

definition report_ok :: "BootUpdateReport \<Rightarrow> bool" where
  "report_ok r \<longleftrightarrow> bu_state r \<le> BOOT_STATE_PREV_NEW \<and> bu_lastResult r < BOOT_RESULT_COUNT \<and>
     (if bu_lockFuseReadable r then bu_sigRow r = (0xFF, 0xFF, 0xFF)
      else bu_lockByte r = 0xFF \<and> bu_fuseLow r = 0xFF \<and> bu_fuseHigh r = 0xFF \<and> bu_fuseExt r = 0xFF)"

lemmas boot_report_defs [codec_defs] = bootInfoEncode_def bootInfoDecode_def

lemma small_result: "(x :: u8) < 7 \<Longrightarrow> x \<le> 0x7F"
  by (simp add: word_less_nat_alt word_le_nat_alt)

lemma not_high_bit: "(- 129 :: u8) = 0x7F"
  by simp

interpretation boot_report: masked_codec 10 "0x5A" report_ok bootInfoEncode bootInfoDecode
proof (unfold_locales, goal_cases)
  case (1 buf x)
  then show ?case by (auto simp: bootInfoDecode_def Let_def split: if_splits)
next
  case (2 x)
  then show ?case by (simp add: bootInfoEncode_def Let_def split: prod.splits)
next
  case (3 r)
  then have "bu_lastResult r \<le> 0x7F" by (intro small_result) (simp add: report_ok_def)
  with 3 show ?case
    by (cases r; cases "bu_lockFuseReadable r")
      (auto simp: report_ok_def bootInfoEncode_def bootInfoDecode_def masked_checksum_def
        not_high_bit join_high_bit not_less not_le xor.assoc Let_def split: prod.splits)
qed

text \<open>What a unit reports about its boot section reaches the master unchanged, the readable and
  the unreadable lock form alike, and no such report with a damaged byte is accepted: decisions
  about rewriting a bootloader are never taken on a corrupted report.\<close>

lemma boot_report_round_trip:
  assumes "report_ok r"
  shows "bootInfoDecode (bootInfoEncode r) = Some r \<and>
    (i < 11 \<longrightarrow> b \<noteq> bootInfoEncode r ! i \<longrightarrow> bootInfoDecode ((bootInfoEncode r)[i := b]) = None)"
  using boot_report.round_trip [OF assms] boot_report.corrupted_reply_rejected [OF assms, of i b]
  by auto

lemma boot_report_round_trip_witness:
  "bootInfoDecode ((bootInfoEncode empty_report)[8 := 4]) = None"
  using boot_report_round_trip [of empty_report 8 4]
  by (simp add: report_ok_def empty_report_def bootInfoEncode_def Let_def)

section \<open>Decisions\<close>

text \<open>The plan asks for a write to the boot section only when the report carries a recognised
  image other than the current one and the lock is open as far as it can be read. The stage that
  needs the fielded bootloader intact is planned for exactly those units, and a unit that is up
  to date is never told its lock is in the way.\<close>

lemma boot_plan_sound:
  "let p = bootUpdateDecide r in
     (pl_terminal p = BOOT_PLAN_PROCEED \<longleftrightarrow>
        bu_state r \<in> {BOOT_STATE_OLD, BOOT_STATE_PAGE7_INSTALLED, BOOT_STATE_TRAMPOLINE, BOOT_STATE_PREV_NEW} \<and>
        (if bu_lockFuseReadable r then bu_lockByte r AND 0x10 \<noteq> 0 else True)) \<and>
     (pl_needStage2 p \<longleftrightarrow> pl_terminal p = BOOT_PLAN_PROCEED) \<and>
     (pl_needStage1 p \<longleftrightarrow> pl_terminal p = BOOT_PLAN_PROCEED \<and> bu_state r = BOOT_STATE_OLD) \<and>
     (pl_terminal p = BOOT_PLAN_ALREADY_NEW \<longleftrightarrow> bu_state r = BOOT_STATE_NEW)"
  by (auto simp: bootUpdateDecide_def bootLockPermitsBootWrite_def bootEffectiveLockByte_def Let_def)

text \<open>The verdicts over a run of health polls: which of them produce a log line.\<close>

fun integrity_log :: "u8 \<Rightarrow> u8 list \<Rightarrow> u8 list" where
  "integrity_log logged [] = []"
| "integrity_log logged (c # cs) =
     (case bootIntegrityEdge logged c of
        (True, logged') \<Rightarrow> c # integrity_log logged' cs
      | (False, logged') \<Rightarrow> integrity_log logged' cs)"

lemma integrity_log_eq:
  "logged \<noteq> 0 \<Longrightarrow> logged # integrity_log logged cs = remdups_adj (logged # filter (\<lambda>c. c \<noteq> 0) cs)"
  by (induction cs arbitrary: logged) (auto simp: bootIntegrityEdge_def Let_def)

text \<open>The integrity watch writes one line per change of verdict and nothing else: whatever polls
  a lossy bus fails to read, the lines are the changes of the verdicts that were read, and only a
  first reading of a good bootloader says nothing.\<close>

lemma integrity_log_is_changes:
  "integrity_log BOOT_INTEGRITY_UNREAD verdicts =
     (case remdups_adj (filter (\<lambda>v. v \<noteq> BOOT_INTEGRITY_UNREAD) verdicts) of
        [] \<Rightarrow> []
      | v # vs \<Rightarrow> if v = BOOT_INTEGRITY_OK then vs else v # vs)"
proof (induction verdicts)
  case (Cons c cs)
  show ?case
  proof (cases "c = 0")
    case True
    with Cons show ?thesis by (simp add: bootIntegrityEdge_def)
  next
    case False
    with integrity_log_eq [OF this, of cs] show ?thesis
      by (auto simp: bootIntegrityEdge_def Let_def simp flip: integrity_log_eq)
  qed
qed simp

lemma length_json_field [simp]: "length (json_field k v) = length k + length v + 3"
  by (simp add: json_field_def)

lemma names_bounded:
  "length (bootInfoStateName s) \<le> 10" "length (bootInfoResultName r) \<le> 13"
  by (simp_all add: bootInfoStateName_def bootInfoResultName_def)

text \<open>The boot report always fits its buffer: the JSON text has at most 160 characters, below
  the 176 of \<open>BOOT_INFO_JSON_CAP\<close>, so the text the web interface gets is never cut off.\<close>

lemma boot_info_json_fits:
  "length (json_object (boot_info_fields slot seq)) \<le> 160 \<and>
   buildBootInfoJson 176 slot seq = Some (json_object (boot_info_fields slot seq))"
proof -
  have "length (json_object (boot_info_fields slot seq)) \<le> 160"
    using names_bounded(1) [of "bu_state (is_report slot)"]
      names_bounded(2) [of "bu_lastResult (is_report slot)"] length_show_u8 [of "is_addr slot"]
    by (auto simp: boot_info_fields_def Let_def split: prod.splits)
  then show ?thesis
    by (simp add: buildBootInfoJson_def snprintf_text_fits)
qed

end
