(* ===== verification/Unit_Facts.thy ===== *)
theory Unit_Facts
  imports Boot_Section
begin

text \<open>
  What a row master knows about each unit: \<open>shared/UnitHealth.h\<close> (the facts, the fault predicates,
  the grading of a firmware revision, the facts document), \<open>shared/HeartbeatPolicy.h\<close> (freshness),
  \<open>shared/DriftLogPolicy.h\<close>, \<open>shared/UnitRescuePolicy.h\<close> (when a lost unit is probed) and the
  bootloader identity of \<open>shared/TwibootProtocol.h\<close>. C strings are the characters before their
  terminator.
\<close>

section \<open>The bootloader's identity\<close>

abbreviation (input) TWIBOOT_PAGE_SIZE :: nat where "TWIBOOT_PAGE_SIZE \<equiv> 128"
abbreviation (input) TWIBOOT_GEN_UNREAD :: u8 where "TWIBOOT_GEN_UNREAD \<equiv> 0"
abbreviation (input) TWIBOOT_GEN_NO_IDENTITY :: u8 where "TWIBOOT_GEN_NO_IDENTITY \<equiv> 1"
abbreviation (input) TWIBOOT_GEN_UNKNOWN :: u8 where "TWIBOOT_GEN_UNKNOWN \<equiv> 0xFF"

definition isAtmega328pSignature :: "u8 \<Rightarrow> u8 \<Rightarrow> u8 \<Rightarrow> bool" where
  "isAtmega328pSignature sig0 sig1 sig2 \<longleftrightarrow> sig0 = 0x1E \<and> sig1 = 0x95 \<and> sig2 = 0x0F"

record TwibootIdentity =
  ti_generation :: u8
  ti_caps :: u8
  ti_fusesValid :: bool
  ti_lfuse :: u8
  ti_lock :: u8
  ti_efuse :: u8
  ti_hfuse :: u8
  ti_crashValid :: bool
  ti_crashCount :: u8

definition fresh_identity :: TwibootIdentity where
  "fresh_identity = \<lparr>ti_generation = TWIBOOT_GEN_UNREAD, ti_caps = 0, ti_fusesValid = False,
     ti_lfuse = 0, ti_lock = 0, ti_efuse = 0, ti_hfuse = 0, ti_crashValid = False, ti_crashCount = 0\<rparr>"

definition twibootHeldForCrashing :: "TwibootIdentity \<Rightarrow> bool" where
  "twibootHeldForCrashing ident \<longleftrightarrow> ti_crashValid ident \<and> ti_crashCount ident \<ge> 3"

section \<open>The facts\<close>

record UnitStatus =
  us_flags :: u8
  us_mcusrAtBoot :: u8
  us_lifetimeBrownoutCount :: u8
  us_lifetimeWatchdogCount :: u8
  us_uptimeSeconds :: u16
  us_badCommandCount :: u8
  us_lastHomingStepCount :: u16

record UnitResetBaseline =
  rb_valid :: bool
  rb_brownout :: u8
  rb_watchdog :: u8

record UnitRebootWatch =
  rw_lastUptime :: u16
  rw_lastBrownout :: u8
  rw_lastWatchdog :: u8
  rw_primed :: bool

record UnitFacts =
  uf_state :: u8
  uf_fwStatus :: u8
  uf_rev :: string
  uf_statusValid :: bool
  uf_status :: UnitStatus
  uf_protocolVersion :: u8
  uf_protocolKnown :: bool
  uf_offset :: i16
  uf_offsetValid :: bool
  uf_odometer :: u32
  uf_odometerValid :: bool
  uf_physLetter :: u8
  uf_driftFlags :: u8
  uf_driftEvents :: u8
  uf_lastDriftSteps :: i8
  uf_diagValid :: bool
  uf_driftEventsBaseline :: i16
  uf_vitals :: UnitVitals
  uf_vitalsValid :: bool
  uf_extDiag :: UnitExtDiag
  uf_extDiagValid :: bool
  uf_link :: UnitLinkStats
  uf_linkValid :: bool
  uf_lifetime :: UnitLifetimeFacts
  uf_lifetimeValid :: bool
  uf_busRecord :: UnitBusRecord
  uf_busSilentNowMinutes :: u8
  uf_busRecordValid :: bool
  uf_lastSeenMs :: u32
  uf_misses :: u8
  uf_stale :: bool
  uf_mismatch :: bool
  uf_healthEventState :: u8
  uf_i2cErrors :: u16
  uf_lastErrorMs :: u32
  uf_rescueExits :: u16
  uf_rebootWatch :: UnitRebootWatch
  uf_resetSeen :: bool
  uf_bootVerdict :: u8
  uf_bootCrc32 :: u32
  uf_bootloader :: TwibootIdentity

definition fresh_status :: UnitStatus where
  "fresh_status = \<lparr>us_flags = 0, us_mcusrAtBoot = 0, us_lifetimeBrownoutCount = 0,
     us_lifetimeWatchdogCount = 0, us_uptimeSeconds = 0, us_badCommandCount = 0,
     us_lastHomingStepCount = 0\<rparr>"

text \<open>A slot as the constructor leaves it.\<close>

definition fresh_facts :: UnitFacts where
  "fresh_facts = \<lparr>uf_state = 0, uf_fwStatus = 2, uf_rev = '''', uf_statusValid = False,
     uf_status = fresh_status, uf_protocolVersion = 0, uf_protocolKnown = False, uf_offset = 0,
     uf_offsetValid = False, uf_odometer = 0, uf_odometerValid = False, uf_physLetter = 0xFF,
     uf_driftFlags = 0, uf_driftEvents = 0, uf_lastDriftSteps = 0, uf_diagValid = False,
     uf_driftEventsBaseline = -1,
     uf_vitals = \<lparr>vi_vccNow_mV = 0, vi_vccMin_mV = 0, vi_cmdPos = 0, vi_freeRamMin = 0\<rparr>,
     uf_vitalsValid = False,
     uf_extDiag = \<lparr>xd_stepExcessLast = 0, xd_stepExcessMax = 0, xd_vccSagLastMove = 0,
       xd_hallEdgesLastRev = 0, xd_dutyWindow = 0, xd_statusBits = 0\<rparr>,
     uf_extDiagValid = False,
     uf_link = \<lparr>ls_uptimeSeconds = 0, ls_rxFrames = 0, ls_txReplies = 0, ls_deafHeals = 0\<rparr>,
     uf_linkValid = False,
     uf_lifetime = \<lparr>lt_layoutVersion = 0, lt_homeFailedCount = 0, lt_featureGates = 0,
       lt_idleHallFutileRehomes = 0, lt_idleHallStoodDown = False, lt_stepExcessLifetimeMax = 0,
       lt_selfTestFirstHallWindow = 0, lt_selfTestFirstStepsPerRev = 0,
       lt_selfTestLastHallWindow = 0, lt_selfTestLastStepsPerRev = 0\<rparr>,
     uf_lifetimeValid = False,
     uf_busRecord = \<lparr>br_silences = 0, br_lastMinutes = 0, br_longestMinutes = 0, br_reinits = 0,
       br_reinitsHeard = 0, br_selfRestarts = 0, br_flags = 0\<rparr>,
     uf_busSilentNowMinutes = 0, uf_busRecordValid = False, uf_lastSeenMs = 0, uf_misses = 0,
     uf_stale = False, uf_mismatch = False, uf_healthEventState = 0, uf_i2cErrors = 0,
     uf_lastErrorMs = 0, uf_rescueExits = 0,
     uf_rebootWatch = \<lparr>rw_lastUptime = 0, rw_lastBrownout = 0, rw_lastWatchdog = 0, rw_primed = False\<rparr>,
     uf_resetSeen = False, uf_bootVerdict = BOOT_INTEGRITY_UNREAD, uf_bootCrc32 = 0,
     uf_bootloader = fresh_identity\<rparr>"

definition unitBootHomeState :: "u8 \<Rightarrow> u8" where
  "unitBootHomeState flags =
     (if flags AND 0x20 \<noteq> 0 then 2 else if flags AND 0x01 \<noteq> 0 then 1 else 0)"

definition unitResetBaselineFold :: "UnitResetBaseline \<Rightarrow> u8 \<Rightarrow> u8 \<Rightarrow> bool \<times> UnitResetBaseline" where
  "unitResetBaselineFold b brownout watchdog =
     (if \<not> rb_valid b
      then (False, \<lparr>rb_valid = True, rb_brownout = brownout, rb_watchdog = watchdog\<rparr>)
      else (let b1 = (if brownout < rb_brownout b then b\<lparr>rb_brownout := brownout\<rparr> else b);
                b2 = (if watchdog < rb_watchdog b1 then b1\<lparr>rb_watchdog := watchdog\<rparr> else b1)
            in (brownout > rb_brownout b2 \<or> watchdog > rb_watchdog b2, b2)))"

definition unitFactsFoldExtDiag :: "UnitFacts \<Rightarrow> bytes \<Rightarrow> UnitFacts" where
  "unitFactsFoldExtDiag u buf =
     (let f0 = u\<lparr>uf_extDiagValid := False, uf_linkValid := False\<rparr>;
          f1 = (case extDiagReadbackValid buf of
                  Some d \<Rightarrow> f0\<lparr>uf_extDiag := d, uf_extDiagValid := True\<rparr> | None \<Rightarrow> f0)
      in case extDiagLinkReadbackValid (drop 11 buf) of
           Some l \<Rightarrow> f1\<lparr>uf_link := l, uf_linkValid := True\<rparr> | None \<Rightarrow> f1)"

definition unitDrivable :: "UnitFacts \<Rightarrow> bool" where
  "unitDrivable u \<longleftrightarrow>
     uf_state u = 1 \<and> \<not> (uf_protocolKnown u \<and> \<not> unitProtocolSupported (uf_protocolVersion u))"

definition unitFactsApplyOffsetWrite :: "UnitFacts \<Rightarrow> i16 \<Rightarrow> UnitFacts" where
  "unitFactsApplyOffsetWrite u value = u\<lparr>uf_offset := value, uf_offsetValid := True\<rparr>"

definition unitFactsApplyOdometerReset :: "UnitFacts \<Rightarrow> UnitFacts" where
  "unitFactsApplyOdometerReset u = u\<lparr>uf_odometer := 0, uf_odometerValid := True\<rparr>"

definition unitFactsApplyGatesWrite :: "UnitFacts \<Rightarrow> u8 \<Rightarrow> UnitFacts" where
  "unitFactsApplyGatesWrite u gates = u\<lparr>uf_lifetime := (uf_lifetime u)\<lparr>lt_featureGates := gates\<rparr>\<rparr>"

definition unitFactsInvalidateReads :: "UnitFacts \<Rightarrow> UnitFacts" where
  "unitFactsInvalidateReads u =
     u\<lparr>uf_offsetValid := False, uf_statusValid := False, uf_odometerValid := False\<rparr>"

definition unitErrBump :: "u16 \<Rightarrow> u16" where
  "unitErrBump prev = (if prev \<ge> 0xFFFF then 0xFFFF else prev + 1)"

section \<open>Grading a revision\<close>

text \<open>
  \<open>unitRevMatches\<close> compares at most eight characters; a comma or blank in the second string reads
  as its end. Reading past the end of a string yields the terminator.
\<close>

definition char_at :: "string \<Rightarrow> nat \<Rightarrow> char" where
  "char_at s i = (if i < length s then s ! i else CHR 0x00)"

fun rev_matches_from :: "nat \<Rightarrow> nat \<Rightarrow> string \<Rightarrow> string \<Rightarrow> bool" where
  "rev_matches_from 0 i version entry = True"
| "rev_matches_from (Suc n) i version entry =
     (let r = (if char_at entry i = CHR '','' \<or> char_at entry i = CHR '' '' then CHR 0x00 else char_at entry i) in
      if char_at version i \<noteq> r then False
      else if char_at version i = CHR 0x00 then True
      else rev_matches_from n (Suc i) version entry)"

definition unitRevMatches :: "string \<Rightarrow> string \<Rightarrow> bool" where
  "unitRevMatches version entry = rev_matches_from 8 0 version entry"

text \<open>The walk over the comma-separated list of equivalent revisions.\<close>

function matches_some_entry :: "string \<Rightarrow> string \<Rightarrow> bool" where
  "matches_some_entry version p =
     (let p' = dropWhile (\<lambda>c. c = CHR '','' \<or> c = CHR '' '') p in
      if p' = [] then False
      else if unitRevMatches version p' then True
      else matches_some_entry version (dropWhile (\<lambda>c. c \<noteq> CHR '','') p'))"
  by pat_completeness (simp only: prod.inject)

termination matches_some_entry
proof (relation "measure (\<lambda>(version, p). length p)", goal_cases)
  case (2 version p p')
  let ?sep = "\<lambda>c. c = CHR '','' \<or> c = CHR '' ''"
  have "\<not> ?sep (hd p')" using 2(2) unfolding 2(1) by (rule hd_dropWhile)
  then have "length (dropWhile (\<lambda>c. c \<noteq> CHR '','') p') < length p'"
    using 2(2) length_dropWhile_le [of "\<lambda>c. c \<noteq> CHR '',''" "tl p'"] by (cases p') auto
  also have "length p' \<le> length p" unfolding 2(1) by (rule length_dropWhile_le)
  finally show ?case by simp
qed simp

declare matches_some_entry.simps [simp del]

definition unitFwStatusFromRev :: "string \<Rightarrow> string \<Rightarrow> string \<Rightarrow> u8" where
  "unitFwStatusFromRev version bundledRev equivalentRevs =
     (if version = [] then 2
      else if bundledRev = [] then 2
      else if unitRevMatches version bundledRev then 0
      else if matches_some_entry version equivalentRevs then 0
      else 1)"

section \<open>Faults\<close>

definition unitFleetVccMin :: "UnitFacts list \<Rightarrow> u16" where
  "unitFleetVccMin units =
     (let lo = foldl (\<lambda>lo u. let v = vi_vccMin_mV (uf_vitals u) in
                 if uf_vitalsValid u \<and> v \<noteq> 0 \<and> v < lo then v else lo) 0xFFFF units
      in if lo = 0xFFFF then 0 else lo)"

definition unitStatusIsFaulty :: "UnitStatus \<Rightarrow> bool" where
  "unitStatusIsFaulty s \<longleftrightarrow>
     (if us_flags s AND 0x02 \<noteq> 0 then True else if us_flags s AND 0x04 \<noteq> 0 then True else False)"

definition unitFactsBecomeBootloader :: "UnitFacts \<Rightarrow> TwibootIdentity \<Rightarrow> UnitFacts" where
  "unitFactsBecomeBootloader u ident =
     fresh_facts\<lparr>uf_state := 2, uf_bootloader := ident, uf_i2cErrors := uf_i2cErrors u,
       uf_lastErrorMs := uf_lastErrorMs u, uf_rescueExits := uf_rescueExits u\<rparr>"

definition unitIsLost :: "UnitFacts \<Rightarrow> bool" where
  "unitIsLost u \<longleftrightarrow> uf_state u = 1 \<and> uf_stale u"

definition unitIsFaultyOrLost :: "UnitFacts \<Rightarrow> bool" where
  "unitIsFaultyOrLost u \<longleftrightarrow>
     (if unitIsLost u then True
      else if uf_bootVerdict u = BOOT_INTEGRITY_CORRUPT then True
      else if uf_state u = 2 \<and> twibootHeldForCrashing (uf_bootloader u) then True
      else uf_statusValid u \<and> (unitStatusIsFaulty (uf_status u) \<or> uf_resetSeen u))"

definition computeFaultyUnitCount :: "UnitFacts list \<Rightarrow> nat" where
  "computeFaultyUnitCount units = foldl (\<lambda>count u. if unitIsFaultyOrLost u then count + 1 else count) 0 units"

definition computeLostUnitCount :: "UnitFacts list \<Rightarrow> nat" where
  "computeLostUnitCount units = foldl (\<lambda>count u. if unitIsLost u then count + 1 else count) 0 units"

text \<open>\<open>%0*X\<close>: upper-case hexadecimal, padded with zeros.\<close>

definition HEX_digit :: "nat \<Rightarrow> char" where
  "HEX_digit n = ''0123456789ABCDEF'' ! n"

fun show_HEX :: "nat \<Rightarrow> nat \<Rightarrow> string" where
  "show_HEX 0 n = []"
| "show_HEX (Suc k) n = show_HEX k (n div 16) @ [HEX_digit (n mod 16)]"

definition unitFaultMaskHex :: "UnitFacts list \<Rightarrow> nat \<Rightarrow> string \<times> nat" where
  "unitFaultMaskHex units cap =
     (let width = min 32 (length units) in
      if width = 0 then ([], 0)
      else (let mask = foldl (\<lambda>m i. if unitIsFaultyOrLost (units ! i) then m OR push_bit i 1 else m)
                         (0 :: u32) [0..<width];
                nibbles = (width + 3) div 4;
                s = show_HEX nibbles (unat mask)
            in if cap = 0 then ([], 0)
               else (snprintf_text cap s, if length s < cap then length s else cap - 1)))"

section \<open>Freshness\<close>

abbreviation (input) HEARTBEAT_MISS_THRESHOLD :: u8 where "HEARTBEAT_MISS_THRESHOLD \<equiv> 3"

definition heartbeatMissCount :: "u8 \<Rightarrow> bool \<Rightarrow> u8" where
  "heartbeatMissCount prev ok = (if ok then 0 else if prev \<ge> 0xFF then 0xFF else prev + 1)"

definition heartbeatIsStale :: "u8 \<Rightarrow> u8 \<Rightarrow> bool" where
  "heartbeatIsStale misses threshold \<longleftrightarrow> misses \<ge> threshold"

definition heartbeatNextSlot :: "int \<Rightarrow> int \<Rightarrow> int" where
  "heartbeatNextSlot slot width =
     (if width \<le> 0 then 0 else let nxt = slot + 1 in if nxt \<ge> width then 0 else nxt)"

definition heartbeatApply :: "UnitFacts \<Rightarrow> bool \<Rightarrow> u32 \<Rightarrow> u8 \<Rightarrow> UnitFacts" where
  "heartbeatApply u ok nowMs threshold =
     (if uf_state u \<noteq> 1 then u\<lparr>uf_misses := 0, uf_stale := False\<rparr>
      else (let misses = heartbeatMissCount (uf_misses u) ok;
                u1 = u\<lparr>uf_misses := misses, uf_stale := heartbeatIsStale misses threshold\<rparr>
            in if ok then u1\<lparr>uf_lastSeenMs := nowMs\<rparr> else u1))"

section \<open>Drift log\<close>

record DriftLogDecision =
  dl_shouldLog :: bool
  dl_newEvents :: u8
  dl_newBaseline :: i16

definition driftLogEvaluate :: "i16 \<Rightarrow> u8 \<Rightarrow> DriftLogDecision" where
  "driftLogEvaluate baseline curEvents =
     (let r = \<lparr>dl_shouldLog = False, dl_newEvents = 0, dl_newBaseline = ucast curEvents\<rparr> in
      if sint baseline \<ge> 0 \<and> uint curEvents > sint baseline
      then r\<lparr>dl_shouldLog := True, dl_newEvents := word_of_int (uint curEvents - sint baseline)\<rparr>
      else r)"

section \<open>Rescue\<close>

datatype UnitRescueProbe = Rescue_NoAck | Rescue_Bootloader | Rescue_SketchSilent | Rescue_CrashHeld
  | Rescue_ExitRefused

record UnitRescueState =
  rs_attempted :: bool
  rs_lastAttemptMs :: u32
  rs_restorePending :: bool
  rs_attempts :: u16
  rs_exits :: u16

abbreviation (input) UNIT_RESCUE_RETRY_MS :: u32 where "UNIT_RESCUE_RETRY_MS \<equiv> 60000"

definition unitRescueDue :: "UnitFacts \<Rightarrow> UnitRescueState \<Rightarrow> u32 \<Rightarrow> bool" where
  "unitRescueDue u r nowMs \<longleftrightarrow>
     (if \<not> unitIsLost u then False
      else if \<not> rs_attempted r then True
      else nowMs - rs_lastAttemptMs r \<ge> UNIT_RESCUE_RETRY_MS)"

definition unitRescueNoteAttempt :: "UnitRescueState \<Rightarrow> u32 \<Rightarrow> UnitRescueProbe \<Rightarrow> UnitRescueState" where
  "unitRescueNoteAttempt r nowMs probe =
     r\<lparr>rs_attempted := True, rs_lastAttemptMs := nowMs,
       rs_attempts := (if rs_attempts r < 0xFFFF then rs_attempts r + 1 else rs_attempts r),
       rs_exits := (if probe = Rescue_Bootloader \<and> rs_exits r < 0xFFFF then rs_exits r + 1 else rs_exits r),
       rs_restorePending := True\<rparr>"

definition unitHeldRecheckDue :: "UnitFacts \<Rightarrow> UnitRescueState \<Rightarrow> u32 \<Rightarrow> bool" where
  "unitHeldRecheckDue u r nowMs \<longleftrightarrow>
     uf_state u = 2 \<and> twibootHeldForCrashing (uf_bootloader u) \<and>
     nowMs - rs_lastAttemptMs r \<ge> UNIT_RESCUE_RETRY_MS"

definition unitRescueObserve :: "UnitRescueState \<Rightarrow> UnitFacts \<Rightarrow> bool \<times> UnitRescueState" where
  "unitRescueObserve r u =
     (if unitIsLost u \<or> \<not> uf_statusValid u then (False, r)
      else (let r1 = r\<lparr>rs_attempted := False\<rparr> in
            if \<not> rs_restorePending r1 then (False, r1)
            else (True, r1\<lparr>rs_restorePending := False\<rparr>)))"

section \<open>The facts document\<close>

text \<open>
  \<open>UNIT_HEALTH_APPEND\<close>: nothing more once the buffer is full; otherwise as much of the text as
  fits, and the running length grows by the whole text.
\<close>

definition show_int :: "int \<Rightarrow> string" where
  "show_int i = (if i < 0 then CHR ''-'' # show_dec (nat (- i)) else show_dec (nat i))"

definition jkey :: "string \<Rightarrow> string \<Rightarrow> string" where
  "jkey k v = CHR '','' # json_field k v"

definition jnum :: "string \<Rightarrow> 'a::len word \<Rightarrow> string" where
  "jnum k w = jkey k (show_dec (unat w))"

fun health_append :: "nat \<Rightarrow> string list \<Rightarrow> string \<times> nat \<Rightarrow> string \<times> nat" where
  "health_append cap [] st = st"
| "health_append cap (p # ps) (buf, n) =
     (if n \<ge> cap then (buf, n) else health_append cap ps (buf @ take (cap - n - 1) p, n + length p))"

definition opt_piece :: "bool \<Rightarrow> string \<Rightarrow> string list" where
  "opt_piece c p = (if c then [p] else [])"

definition status_pieces :: "UnitFacts \<Rightarrow> string list" where
  "status_pieces u =
     (let s = uf_status u in
      if uf_statusValid u
      then (jnum ''fw'' (uf_fwStatus u) @ jkey ''rev'' (quoted (uf_rev u)) @ jnum ''up'' (us_uptimeSeconds s)
            @ jnum ''br'' (us_lifetimeBrownoutCount s) @ jnum ''wd'' (us_lifetimeWatchdogCount s)
            @ jnum ''bc'' (us_badCommandCount s) @ jnum ''mc'' (us_mcusrAtBoot s) @ jnum ''fl'' (us_flags s)
            @ jnum ''hs'' (us_lastHomingStepCount s)
            @ jkey ''ae'' (show_dec (if us_flags s AND 0x10 \<noteq> 0 then 1 else 0)))
           # opt_piece (uf_resetSeen u) (jkey ''rs'' ''1'')
      else [])"

definition diag_pieces :: "UnitFacts \<Rightarrow> string list" where
  "diag_pieces u =
     (if uf_diagValid u
      then (jnum ''de'' (uf_driftEvents u) @ jkey ''ds'' (show_int (sint (uf_lastDriftSteps u))))
           # opt_piece (uf_driftFlags u AND 0x01 \<noteq> 0) (jkey ''dp'' ''1'')
           @ (if uf_driftFlags u AND 0x02 \<noteq> 0 \<and> uf_physLetter u \<noteq> 0xFF
              then jnum ''phys'' (uf_physLetter u) # opt_piece (uf_mismatch u) (jkey ''mm'' ''1'')
              else [])
      else [])"

definition measure_pieces :: "UnitFacts \<Rightarrow> string list" where
  "measure_pieces u =
     (let vt = uf_vitals u; e = uf_extDiag u; l = uf_link u in
      opt_piece (uf_vitalsValid u)
        (jnum ''vcc'' (vi_vccNow_mV vt) @ jnum ''vmin'' (vi_vccMin_mV vt) @ jnum ''cp'' (vi_cmdPos vt)
         @ jnum ''ram'' (vi_freeRamMin vt))
      @ opt_piece (uf_extDiagValid u)
        (jnum ''se'' (xd_stepExcessLast e) @ jnum ''sx'' (xd_stepExcessMax e)
         @ jnum ''sag'' (xd_vccSagLastMove e) @ jnum ''he'' (xd_hallEdgesLastRev e)
         @ jnum ''dw'' (xd_dutyWindow e) @ jnum ''sb'' (xd_statusBits e))
      @ opt_piece (uf_linkValid u)
        (jnum ''ut'' (ls_uptimeSeconds l) @ jnum ''rx'' (ls_rxFrames l) @ jnum ''tx'' (ls_txReplies l)
         @ jnum ''dh'' (ls_deafHeals l))
      @ (if uf_protocolKnown u
         then jnum ''pv'' (uf_protocolVersion u)
              # opt_piece (\<not> unitProtocolSupported (uf_protocolVersion u)) (jkey ''pmm'' ''1'')
         else []))"

definition lifetime_pieces :: "UnitFacts \<Rightarrow> string list" where
  "lifetime_pieces u =
     (let lt = uf_lifetime u in
      if uf_lifetimeValid u
      then opt_piece (lt_homeFailedCount lt \<noteq> 0) (jnum ''hf'' (lt_homeFailedCount lt))
        @ opt_piece (lt_featureGates lt \<noteq> 0) (jnum ''gates'' (lt_featureGates lt))
        @ opt_piece (lt_stepExcessLifetimeMax lt \<noteq> 0) (jnum ''sxl'' (lt_stepExcessLifetimeMax lt))
        @ opt_piece (lt_selfTestFirstHallWindow lt \<noteq> 0 \<or> lt_selfTestLastHallWindow lt \<noteq> 0)
            (jnum ''stw0'' (lt_selfTestFirstHallWindow lt) @ jnum ''stw1'' (lt_selfTestLastHallWindow lt))
        @ opt_piece (lt_selfTestFirstStepsPerRev lt \<noteq> 0 \<or> lt_selfTestLastStepsPerRev lt \<noteq> 0)
            (jnum ''str0'' (lt_selfTestFirstStepsPerRev lt) @ jnum ''str1'' (lt_selfTestLastStepsPerRev lt))
        @ opt_piece (lt_idleHallFutileRehomes lt \<noteq> 0) (jnum ''fr'' (lt_idleHallFutileRehomes lt))
        @ opt_piece (lt_idleHallStoodDown lt) (jkey ''frd'' ''1'')
      else [])"

definition bus_record_pieces :: "UnitFacts \<Rightarrow> string list" where
  "bus_record_pieces u =
     (let br = uf_busRecord u in
      if uf_busRecordValid u
      then jnum ''bsn'' (br_silences br)
        # opt_piece (br_lastMinutes br \<noteq> 0) (jnum ''bsl'' (br_lastMinutes br))
        @ opt_piece (br_longestMinutes br \<noteq> 0) (jnum ''bsx'' (br_longestMinutes br))
        @ opt_piece (br_reinits br \<noteq> 0) (jnum ''bsr'' (br_reinits br))
        @ opt_piece (br_reinitsHeard br \<noteq> 0) (jnum ''bsh'' (br_reinitsHeard br))
        @ opt_piece (br_selfRestarts br \<noteq> 0) (jnum ''bss'' (br_selfRestarts br))
        @ opt_piece (br_flags br \<noteq> 0) (jnum ''bsf'' (br_flags br))
        @ opt_piece (uf_busSilentNowMinutes u \<noteq> 0) (jnum ''bsq'' (uf_busSilentNowMinutes u))
      else [])"

definition sketch_pieces :: "UnitFacts \<Rightarrow> u32 \<Rightarrow> string list" where
  "sketch_pieces u nowMs =
     (if uf_state u = 1
      then (jnum ''age'' (nowMs - uf_lastSeenMs u) @ jnum ''hs2'' (unitBootHomeState (us_flags (uf_status u))))
        # opt_piece (uf_misses u > 0) (jnum ''misses'' (uf_misses u))
        @ opt_piece (uf_stale u) (jkey ''stale'' ''1'')
        @ opt_piece (uf_i2cErrors u > 0) (jnum ''err'' (uf_i2cErrors u) @ jnum ''errAge'' (nowMs - uf_lastErrorMs u))
        @ opt_piece (uf_rescueExits u > 0) (jnum ''rsx'' (uf_rescueExits u))
      else [])"

definition boot_pieces :: "UnitFacts \<Rightarrow> string list" where
  "boot_pieces u =
     (let b = uf_bootloader u in
      (if uf_bootVerdict u \<noteq> BOOT_INTEGRITY_UNREAD
       then jnum ''bv'' (uf_bootVerdict u)
            # opt_piece (uf_bootVerdict u \<noteq> BOOT_INTEGRITY_OK)
                (jkey ''bcrc'' (quoted (show_hex8 (uf_bootCrc32 u))))
       else [])
      @ (if uf_state u = 2 \<and> ti_generation b \<noteq> TWIBOOT_GEN_UNREAD
         then (jnum ''blv'' (ti_generation b) @ jnum ''blc'' (ti_caps b))
           # opt_piece (ti_fusesValid b)
               (jkey ''blk'' (quoted (show_hex2 (ti_lock b)))
                @ jkey ''blf'' (quoted (show_hex2 (ti_lfuse b) @ show_hex2 (ti_hfuse b) @ show_hex2 (ti_efuse b))))
           @ opt_piece (ti_crashValid b \<and> ti_crashCount b \<ge> 2) (jnum ''blx'' (ti_crashCount b))
         else []))"

definition unit_pieces :: "UnitFacts \<Rightarrow> nat \<Rightarrow> nat \<Rightarrow> u32 \<Rightarrow> string list" where
  "unit_pieces u i base nowMs =
     ((if i = 0 then '''' else '','') @ ''{'' @ json_field ''i'' (show_dec i) @ jkey ''a'' (show_dec (base + i))
        @ jnum ''st'' (uf_state u) @ jkey ''v'' (show_dec (if uf_statusValid u then 1 else 0)))
     # status_pieces u
     @ opt_piece (uf_odometerValid u) (jnum ''odo'' (uf_odometer u))
     @ opt_piece (uf_offsetValid u) (jkey ''ofs'' (show_int (sint (uf_offset u))))
     @ diag_pieces u @ measure_pieces u @ lifetime_pieces u @ bus_record_pieces u
     @ sketch_pieces u nowMs @ boot_pieces u @ [''}'']"

definition health_pieces :: "UnitFacts list \<Rightarrow> nat \<Rightarrow> nat \<Rightarrow> u32 \<Rightarrow> string list" where
  "health_pieces units faulty base nowMs =
     (let vccMinAll = unitFleetVccMin units in
      [''{'' @ json_field ''width'' (show_dec (length units)) @ jkey ''faulty'' (show_dec faulty)]
      @ opt_piece (vccMinAll \<noteq> 0) (jnum ''vccMin'' vccMinAll)
      @ [jkey ''units'' ''['']
      @ concat (map (\<lambda>i. unit_pieces (units ! i) i base nowMs) [0..<length units])
      @ ['']}''])"

definition buildUnitHealthJson :: "nat \<Rightarrow> UnitFacts list \<Rightarrow> nat \<Rightarrow> nat \<Rightarrow> u32 \<Rightarrow> string \<times> nat" where
  "buildUnitHealthJson cap units faulty base nowMs =
     health_append cap (health_pieces units faulty base nowMs) ([], 0)"

section \<open>The size of the document\<close>

definition width_of :: "string list \<Rightarrow> nat" where
  "width_of ps = sum_list (map length ps)"

lemma width_of_simps [simp]:
  "width_of [] = 0" "width_of (p # ps) = length p + width_of ps" "width_of (ps @ qs) = width_of ps + width_of qs"
  by (simp_all add: width_of_def)

lemma health_append_fits:
  "n + width_of ps < cap \<Longrightarrow> health_append cap ps (buf, n) = (buf @ concat ps, n + width_of ps)"
  by (induction ps arbitrary: buf n) simp_all

lemma length_jkey [simp]: "length (jkey k v) = length k + length v + 4"
  by (simp add: jkey_def json_field_def)

lemma opt_width: "width_of (opt_piece c p) \<le> length p"
  by (simp add: opt_piece_def)

lemma num8: "length (jnum k (w :: u8)) \<le> length k + 7"
  using length_show_u8 [of w] by (simp add: jnum_def)

lemma num16: "length (jnum k (w :: u16)) \<le> length k + 9"
  using length_show_u16 [of w] by (simp add: jnum_def)

lemma num32: "length (jnum k (w :: u32)) \<le> length k + 14"
proof -
  have "length (show_dec (unat w)) \<le> 10"
    using unsigned_less [of w, where 'a = nat] by (intro length_show_dec) simp_all
  then show ?thesis by (simp add: jnum_def)
qed

lemma width_rules:
  "length a \<le> m \<Longrightarrow> length b \<le> n \<Longrightarrow> length (a @ b) \<le> m + n"
  "length p \<le> m \<Longrightarrow> width_of (opt_piece c p) \<le> m"
  "length p \<le> m \<Longrightarrow> width_of ps \<le> n \<Longrightarrow> width_of (p # ps) \<le> m + n"
  "width_of ps \<le> m \<Longrightarrow> width_of qs \<le> n \<Longrightarrow> width_of (ps @ qs) \<le> m + n"
  "width_of ps \<le> m \<Longrightarrow> width_of (if c then ps else []) \<le> m"
  "width_of [] \<le> 0"
  "length v \<le> m \<Longrightarrow> length (jkey k v) \<le> length k + m + 4"
  "length s \<le> m \<Longrightarrow> length (quoted s) \<le> m + 2"
  "length (show_dec (if c then 1 else 0)) \<le> 1" "length (show_hex2 c8) \<le> 2" "length (show_hex8 w) \<le> 8"
  by (simp_all add: opt_piece_def show_dec.simps)

lemmas width_intros = width_rules num8 num16 num32

lemma show_int_width:
  "length (show_int (sint (w8 :: i8))) \<le> 4" "length (show_int (sint (w16 :: i16))) \<le> 6"
proof -
  have r8: "nat (- sint w8) < 10 ^ 3" "nat (sint w8) < 10 ^ 3"
    using sint_range_size [of w8] by (simp_all add: word_size nat_less_iff) linarith+
  have r16: "nat (- sint w16) < 10 ^ 5" "nat (sint w16) < 10 ^ 5"
    using sint_range_size [of w16] by (simp_all add: word_size nat_less_iff) linarith+
  show "length (show_int (sint w8)) \<le> 4"
    using length_show_dec [OF r8(1)] length_show_dec [OF r8(2)] by (simp add: show_int_def)
  show "length (show_int (sint w16)) \<le> 6"
    using length_show_dec [OF r16(1)] length_show_dec [OF r16(2)] by (simp add: show_int_def)
qed

lemma num_small: "unat w < 10 \<Longrightarrow> length (jnum k w) \<le> length k + 5"
  using length_show_dec [of "unat w" 1] by (simp add: jnum_def)

lemma num_medium: "unat w < 100 \<Longrightarrow> length (jnum k w) \<le> length k + 6"
  using length_show_dec [of "unat w" 2] by (simp add: jnum_def)

text \<open>What every way of filling a slot keeps: the ranges the decoders and graders enforce.\<close>

definition facts_ok :: "UnitFacts \<Rightarrow> bool" where
  "facts_ok u \<longleftrightarrow> length (uf_rev u) \<le> 8 \<and> unat (uf_state u) \<le> 2 \<and> unat (uf_fwStatus u) \<le> 2 \<and>
     unat (uf_bootVerdict u) \<le> 3 \<and> (uf_physLetter u = 0xFF \<or> unat (uf_physLetter u) < 45)"

lemma facts_okD:
  assumes "facts_ok u"
  shows "length (uf_rev u) \<le> 8" "unat (uf_state u) < 10" "unat (uf_fwStatus u) < 10"
    "unat (uf_bootVerdict u) < 10"
  using assms by (simp_all add: facts_ok_def)

lemma fw_width: "facts_ok u \<Longrightarrow> length (jnum ''fw'' (uf_fwStatus u)) \<le> 7"
  using num_small [OF facts_okD(3), of u "''fw''"] by simp

lemma st_width: "facts_ok u \<Longrightarrow> length (jnum ''st'' (uf_state u)) \<le> 7"
  using num_small [OF facts_okD(2), of u "''st''"] by simp

lemma bv_width: "facts_ok u \<Longrightarrow> length (jnum ''bv'' (uf_bootVerdict u)) \<le> 7"
  using num_small [OF facts_okD(4), of u "''bv''"] by simp

lemma hs2_width: "length (jnum ''hs2'' (unitBootHomeState f)) \<le> 8"
  using num_small [of "unitBootHomeState f" "''hs2''"] by (simp add: unitBootHomeState_def)

lemmas facts_intros = fw_width st_width bv_width hs2_width facts_okD(1) width_intros show_int_width

lemma status_width: "facts_ok u \<Longrightarrow> width_of (status_pieces u) \<le> 105"
  unfolding status_pieces_def Let_def
  by (rule order_trans, (rule facts_intros | assumption | rule order_refl)+, simp)

lemma diag_width: "facts_ok u \<Longrightarrow> width_of (diag_pieces u) \<le> 43"
proof -
  assume ok: "facts_ok u"
  have phys: "length (jnum ''phys'' (uf_physLetter u)) \<le> 10" if "uf_physLetter u \<noteq> 0xFF"
    using ok that num_medium [of "uf_physLetter u" "''phys''"] by (auto simp: facts_ok_def)
  show ?thesis
    using phys num8 [of "''de''" "uf_driftEvents u"] show_int_width(1) [of "uf_lastDriftSteps u"]
    by (auto simp: diag_pieces_def opt_piece_def)
qed

lemma measure_width: "width_of (measure_pieces u) \<le> 173"
  unfolding measure_pieces_def Let_def
  by (rule order_trans, (rule facts_intros | assumption | rule order_refl)+, simp)

lemma lifetime_width: "width_of (lifetime_pieces u) \<le> 102"
  unfolding lifetime_pieces_def Let_def
  by (rule order_trans, (rule facts_intros | assumption | rule order_refl)+, simp)

lemma bus_record_width: "width_of (bus_record_pieces u) \<le> 80"
  unfolding bus_record_pieces_def Let_def
  by (rule order_trans, (rule facts_intros | assumption | rule order_refl)+, simp)

lemma sketch_width: "width_of (sketch_pieces u nowMs) \<le> 92"
  unfolding sketch_pieces_def Let_def
  by (rule order_trans, (rule facts_intros | assumption | rule order_refl)+, simp)

lemma boot_width: "facts_ok u \<Longrightarrow> width_of (sketch_pieces u nowMs) + width_of (boot_pieces u) \<le> 117"
proof (cases "uf_state u = 1")
  case True
  assume ok: "facts_ok u"
  have "width_of (boot_pieces u) \<le> 25"
    using bv_width [OF ok] num_small [of "1 :: u8" "''bv''"] True by (simp add: boot_pieces_def opt_piece_def)
  then show ?thesis using sketch_width [of u nowMs] by simp
next
  case False
  assume ok: "facts_ok u"
  have "width_of (boot_pieces u) \<le> 90"
    unfolding boot_pieces_def Let_def
    by (rule order_trans, (rule facts_intros ok | assumption | rule order_refl)+, simp)
  then show ?thesis using False by (simp add: sketch_pieces_def)
qed

lemma unit_width:
  assumes ok: "facts_ok u" and i: "base + i < 100"
  shows "width_of (unit_pieces u i base nowMs) \<le> 679"
proof -
  have digits: "length (show_dec i) \<le> 2" "length (show_dec (base + i)) \<le> 2"
    using i by (auto intro!: length_show_dec)
  have one: "length (show_dec (if c then 1 else 0)) \<le> 1" for c by (rule width_rules)
  have odo: "width_of (opt_piece (uf_odometerValid u) (jnum ''odo'' (uf_odometer u))) \<le> 17"
    using num32 [of "''odo''" "uf_odometer u"] by (simp add: opt_piece_def)
  have ofs: "width_of (opt_piece (uf_offsetValid u) (jkey ''ofs'' (show_int (sint (uf_offset u))))) \<le> 13"
    using show_int_width(2) [of "uf_offset u"] by (simp add: opt_piece_def)
  have head: "length ((if i = 0 then '''' else '','') @ ''{'' @ json_field ''i'' (show_dec i) @ jkey ''a'' (show_dec (base + i))
        @ jnum ''st'' (uf_state u) @ jkey ''v'' (show_dec (if uf_statusValid u then 1 else 0))) \<le> 28"
    using digits one [of "uf_statusValid u"] st_width [OF ok] by (auto simp: json_field_def)
  show ?thesis
    using head odo ofs status_width [OF ok] diag_width [OF ok]
      measure_width [of u] lifetime_width [of u] bus_record_width [of u] boot_width [OF ok, of nowMs]
    unfolding unit_pieces_def width_of_simps by simp
qed

text \<open>The facts document of a row is never cut short: for at most 16 units with facts in range,
  in a buffer of the size the boards reserve, it is returned whole, with its true length.\<close>

lemma facts_document_fits:
  assumes "list_all facts_ok units" "length units \<le> 16" "faulty \<le> 16" "base \<le> 10"
  shows "buildUnitHealthJson (252 + length units * 679) units faulty base nowMs =
     (concat (health_pieces units faulty base nowMs), length (concat (health_pieces units faulty base nowMs)))"
proof -
  let ?u = "\<lambda>i. unit_pieces (units ! i) i base nowMs"
  have w: "width_of ps = length (concat ps)" for ps by (simp add: width_of_def length_concat)
  have sum: "width_of (concat (map ?u [0..<n])) \<le> n * 679" if "n \<le> length units" for n
    using that
  proof (induction n)
    case (Suc n)
    have "width_of (?u n) \<le> 679" using Suc.prems assms by (intro unit_width) (simp_all add: list_all_length)
    then show ?case using Suc by simp
  qed simp
  have "length (show_dec (length units)) \<le> 2" "length (show_dec faulty) \<le> 2"
    using assms by (auto intro!: length_show_dec)
  then have "width_of (health_pieces units faulty base nowMs) < 252 + length units * 679"
    using sum [of "length units"] num16 [of "''vccMin''" "unitFleetVccMin units"]
    by (simp add: health_pieces_def json_field_def opt_piece_def Let_def)
  then show ?thesis
    using health_append_fits [of 0 _ "252 + length units * 679" "[]"]
    by (simp add: buildUnitHealthJson_def w)
qed

lemma facts_document_fits_witness:
  "snd (buildUnitHealthJson 931 [fresh_facts] 0 1 0) = length (concat (health_pieces [fresh_facts] 0 1 0))"
  using facts_document_fits [of "[fresh_facts]" 0 1 0] by (simp add: facts_ok_def fresh_facts_def)

section \<open>Freshness, resets and revisions\<close>

lemma poll_misses:
  assumes "uf_state u = 1"
  shows "uf_state (heartbeatApply u ok t th) = 1"
    and "uf_misses (heartbeatApply u ok t th) = heartbeatMissCount (uf_misses u) ok"
    and "uf_stale (heartbeatApply u ok t th) = (th \<le> heartbeatMissCount (uf_misses u) ok)"
  using assms by (simp_all add: heartbeatApply_def heartbeatIsStale_def Let_def)

definition trailing_misses :: "(bool \<times> u32) list \<Rightarrow> nat" where
  "trailing_misses polls = length (takeWhile (\<lambda>p. \<not> fst p) (rev polls))"

lemma polls_misses:
  assumes "uf_state u = 1" "uf_misses u = 0"
  shows "uf_state (foldl (\<lambda>u (ok, t). heartbeatApply u ok t th) u polls) = 1 \<and>
     unat (uf_misses (foldl (\<lambda>u (ok, t). heartbeatApply u ok t th) u polls)) = min 255 (trailing_misses polls)"
proof (induction polls rule: rev_induct)
  case Nil
  then show ?case using assms by (simp add: trailing_misses_def)
next
  case (snoc p polls)
  obtain ok t where p: "p = (ok, t)" by fastforce
  let ?v = "foldl (\<lambda>u (ok, t). heartbeatApply u ok t th) u polls"
  have v: "uf_state ?v = 1" "unat (uf_misses ?v) = min 255 (trailing_misses polls)" using snoc by simp_all
  have inc: "unat (m + 1) = Suc (unat m)" if "unat m < 255" for m :: u8
    using that by (simp add: unat_word_ariths(1))
  have sat: "m \<ge> 0xFF \<longleftrightarrow> unat m \<ge> 255" for m :: u8 by (simp add: word_le_nat_alt)
  have "unat (heartbeatMissCount (uf_misses ?v) ok) = min 255 (trailing_misses (polls @ [p]))"
    using v(2) inc [of "uf_misses ?v"] sat [of "uf_misses ?v"]
    by (cases ok) (auto simp: heartbeatMissCount_def trailing_misses_def p min_def split: if_splits)
  then show ?case using v poll_misses [OF v(1)] by (simp add: p)
qed

lemma trailing_iff:
  "n \<le> trailing_misses polls \<longleftrightarrow> n \<le> length polls \<and> list_all (\<lambda>p. \<not> fst p) (drop (length polls - n) polls)"
proof -
  have take: "n \<le> length (takeWhile P xs) \<longleftrightarrow> n \<le> length xs \<and> list_all P (take n xs)" for P and xs :: "(bool \<times> u32) list"
  proof (induction xs arbitrary: n)
    case (Cons x xs)
    then show ?case by (cases n) auto
  qed simp
  have "list_all P (take n (rev polls)) = list_all P (drop (length polls - n) polls)" for P
    by (simp add: take_rev list_all_iff)
  then show ?thesis by (simp add: trailing_misses_def take)
qed

text \<open>A unit is declared lost exactly when its last three polls all failed: however long it has
  been watched, one good poll among the last three keeps it, and no counter overflow revives a unit
  that stays silent.\<close>

lemma lost_iff_three_misses:
  assumes "uf_state u = 1" "uf_misses u = 0" "\<not> uf_stale u"
  shows "unitIsLost (foldl (\<lambda>u (ok, t). heartbeatApply u ok t HEARTBEAT_MISS_THRESHOLD) u polls) \<longleftrightarrow>
     3 \<le> length polls \<and> list_all (\<lambda>p. \<not> fst p) (drop (length polls - 3) polls)"
proof (cases polls rule: rev_cases)
  case Nil
  then show ?thesis using assms by (simp add: unitIsLost_def)
next
  case (snoc ps p)
  let ?v = "foldl (\<lambda>u (ok, t). heartbeatApply u ok t 3) u"
  obtain ok t where p: "p = (ok, t)" by fastforce
  have "uf_stale (?v polls) \<longleftrightarrow> 3 \<le> uf_misses (?v polls)"
    using poll_misses [of "?v ps" ok t 3] polls_misses [OF assms(1,2), of 3 ps] by (simp add: snoc p)
  also have "\<dots> \<longleftrightarrow> 3 \<le> trailing_misses polls"
    using polls_misses [OF assms(1,2), of 3 polls] by (simp add: word_le_nat_alt)
  finally show ?thesis
    using polls_misses [OF assms(1,2), of 3 polls] trailing_iff [of 3 polls] by (simp add: unitIsLost_def)
qed

lemma lost_iff_three_misses_witness:
  "unitIsLost (foldl (\<lambda>u (ok, t). heartbeatApply u ok t 3) (fresh_facts\<lparr>uf_state := 1\<rparr>)
     [(True, 0), (False, 1), (False, 2), (False, 3)])"
  using lost_iff_three_misses [of "fresh_facts\<lparr>uf_state := 1\<rparr>" "[(True, 0), (False, 1), (False, 2), (False, 3)]"]
  by (simp add: fresh_facts_def)

text \<open>A history of status reads, as pairs of the two lifetime counters.\<close>

definition baseline_after :: "(u8 \<times> u8) list \<Rightarrow> UnitResetBaseline \<Rightarrow> UnitResetBaseline" where
  "baseline_after rs b = foldl (\<lambda>b (bo, wd). snd (unitResetBaselineFold b bo wd)) b rs"

lemma baseline_after_min:
  assumes "rs \<noteq> []" "\<not> rb_valid b"
  shows "rb_valid (baseline_after rs b)" and "rb_brownout (baseline_after rs b) = Min (fst ` set rs)"
    and "rb_watchdog (baseline_after rs b) = Min (snd ` set rs)"
proof -
  have "rb_valid (baseline_after rs b) \<and> rb_brownout (baseline_after rs b) = Min (fst ` set rs) \<and>
    rb_watchdog (baseline_after rs b) = Min (snd ` set rs)"
    using assms(1)
  proof (induction rs rule: rev_nonempty_induct)
    case (single r)
    then show ?case using assms(2) by (cases r) (simp add: baseline_after_def unitResetBaselineFold_def)
  next
    case (snoc r rs)
    obtain bo wd where r: "r = (bo, wd)" by fastforce
    have step: "baseline_after (rs @ [r]) b = snd (unitResetBaselineFold (baseline_after rs b) bo wd)"
      by (simp add: baseline_after_def r)
    have "Min (fst ` set (rs @ [r])) = min bo (Min (fst ` set rs))"
      "Min (snd ` set (rs @ [r])) = min wd (Min (snd ` set rs))"
      using snoc.hyps by (simp_all add: r)
    then show ?case
      using snoc.IH unfolding step by (simp add: unitResetBaselineFold_def Let_def min_def) auto
  qed
  then show "rb_valid (baseline_after rs b)" "rb_brownout (baseline_after rs b) = Min (fst ` set rs)"
    "rb_watchdog (baseline_after rs b) = Min (snd ` set rs)" by auto
qed

text \<open>A reset counts as a fault exactly when it happened on this master's watch: after any history
  of status reads, the next read raises the fault exactly when one of its two counters stands above
  some earlier reading, so old history in the unit's EEPROM never does.\<close>

lemma reset_seen_iff_climbed:
  assumes "\<not> rb_valid b"
  shows "fst (unitResetBaselineFold (baseline_after rs b) brownout watchdog) \<longleftrightarrow>
     list_ex (\<lambda>(bo, wd). bo < brownout \<or> wd < watchdog) rs"
proof (cases "rs = []")
  case True
  then show ?thesis using assms by (simp add: baseline_after_def unitResetBaselineFold_def)
next
  case False
  have "fst (unitResetBaselineFold (baseline_after rs b) brownout watchdog) \<longleftrightarrow>
      Min (fst ` set rs) < brownout \<or> Min (snd ` set rs) < watchdog"
    using baseline_after_min [OF False assms] by (auto simp: unitResetBaselineFold_def Let_def)
  also have "\<dots> \<longleftrightarrow> (\<exists>r\<in>set rs. fst r < brownout) \<or> (\<exists>r\<in>set rs. snd r < watchdog)"
    using False by (simp add: Min_less_iff)
  finally show ?thesis by (auto simp: list_ex_iff case_prod_beta)
qed

lemma reset_seen_iff_climbed_witness:
  "fst (unitResetBaselineFold (baseline_after [(7, 2), (7, 3)] \<lparr>rb_valid = False, rb_brownout = 0, rb_watchdog = 0\<rparr>) 7 3)"
  using reset_seen_iff_climbed [of "\<lparr>rb_valid = False, rb_brownout = 0, rb_watchdog = 0\<rparr>" "[(7, 2), (7, 3)]" 7 3]
  by simp

section \<open>The revision list\<close>

text \<open>What the comparison and the walk mean: a list is split at its commas, an entry is what is left
  of its first blank-free run, and eight characters decide.\<close>

definition entry_key :: "string \<Rightarrow> string" where
  "entry_key e = takeWhile (\<lambda>c. c \<noteq> CHR '' '') (dropWhile (\<lambda>c. c = CHR '' '') e)"

fun comma_split :: "string \<Rightarrow> string list" where
  "comma_split [] = [[]]"
| "comma_split (c # cs) =
     (if c = CHR '','' then [] # comma_split cs
      else (c # hd (comma_split cs)) # tl (comma_split cs))"

definition no_nul :: "string \<Rightarrow> bool" where
  "no_nul s \<longleftrightarrow> CHR 0x00 \<notin> set s"

definition entry_end :: "char \<Rightarrow> bool" where
  "entry_end c \<longleftrightarrow> c = CHR '','' \<or> c = CHR '' ''"

lemma rev_matches_from_iff:
  assumes "no_nul version" "no_nul entry" "i \<le> length version" "i \<le> length (takeWhile (\<lambda>c. \<not> entry_end c) entry)"
  shows "rev_matches_from n i version entry \<longleftrightarrow>
     take n (drop i version) = take n (drop i (takeWhile (\<lambda>c. \<not> entry_end c) entry))"
  using assms(3,4)
proof (induction n arbitrary: i)
  case (Suc n)
  let ?k = "takeWhile (\<lambda>c. \<not> entry_end c) entry"
  have nul: "x \<noteq> CHR 0x00" if "x \<in> set version \<or> x \<in> set entry" for x
    using that assms(1,2) unfolding no_nul_def by blast
  define r where "r = (if char_at entry i = CHR '','' \<or> char_at entry i = CHR '' '' then CHR 0x00 else char_at entry i)"
  have r: "r = (if i < length ?k then ?k ! i else CHR 0x00)"
  proof (cases "i < length ?k")
    case True
    then have "entry ! i = ?k ! i" "i < length entry" "\<not> entry_end (?k ! i)"
      using takeWhile_nth [OF True] length_takeWhile_le [of _ entry] nth_mem [OF True]
      by (auto dest: set_takeWhileD less_le_trans)
    then show ?thesis using True by (simp add: r_def char_at_def entry_end_def)
  next
    case False
    then have i: "i = length ?k" using Suc.prems by simp
    show ?thesis
    proof (cases "i < length entry")
      case True
      then have "entry_end (entry ! i)" unfolding i using nth_length_takeWhile by force
      then show ?thesis using False True by (auto simp: r_def char_at_def entry_end_def)
    qed (use False in \<open>simp add: r_def char_at_def\<close>)
  qed
  have step: "rev_matches_from (Suc n) i version entry \<longleftrightarrow>
      (if char_at version i \<noteq> r then False else if char_at version i = CHR 0x00 then True
       else rev_matches_from n (Suc i) version entry)"
    by (simp add: r_def Let_def)
  have dv: "drop i version = (if i < length version then version ! i # drop (Suc i) version else [])"
    by (simp add: Cons_nth_drop_Suc)
  have dk: "drop i ?k = (if i < length ?k then ?k ! i # drop (Suc i) ?k else [])"
    by (simp add: Cons_nth_drop_Suc)
  have v0: "i < length version \<Longrightarrow> version ! i \<noteq> CHR 0x00" using nul by simp
  have k0: "?k ! i \<noteq> CHR 0x00" if "i < length ?k"
  proof -
    have "?k ! i \<in> set entry" using nth_mem [OF that] by (blast dest: set_takeWhileD)
    then show ?thesis using nul by blast
  qed
  show ?case
  proof (cases "i < length version \<and> i < length ?k")
    case True
    then show ?thesis using Suc.IH [of "Suc i"] v0 unfolding step dv dk by (auto simp: char_at_def r)
  next
    case False
    then show ?thesis using v0 k0 unfolding step dv dk by (auto simp: char_at_def r)
  qed
qed simp

lemma unitRevMatches_iff:
  "no_nul version \<Longrightarrow> no_nul entry \<Longrightarrow>
     unitRevMatches version entry \<longleftrightarrow> take 8 version = take 8 (takeWhile (\<lambda>c. \<not> entry_end c) entry)"
  by (simp add: unitRevMatches_def rev_matches_from_iff)

definition entry_matches :: "string \<Rightarrow> string \<Rightarrow> bool" where
  "entry_matches version e \<longleftrightarrow> entry_key e \<noteq> [] \<and> take 8 version = take 8 (entry_key e)"

lemma comma_split_nonempty [simp]: "comma_split p \<noteq> []"
  by (cases p) simp_all

lemma entry_matches_blank [simp]:
  "entry_matches version (CHR '' '' # e) = entry_matches version e"
  "entry_matches version [] \<longleftrightarrow> False"
  by (simp_all add: entry_matches_def entry_key_def)

lemma split_drop_separators:
  "list_ex (entry_matches version) (comma_split (dropWhile (\<lambda>c. c = CHR '','' \<or> c = CHR '' '') p)) =
   list_ex (entry_matches version) (comma_split p)"
proof (induction p)
  case (Cons c p)
  have "list_ex (entry_matches version) (comma_split (c # p)) = list_ex (entry_matches version) (comma_split p)"
    if "c = CHR '','' \<or> c = CHR '' ''"
  proof -
    obtain x xs where "comma_split p = x # xs" by (cases "comma_split p") simp_all
    then show ?thesis using that by auto
  qed
  then show ?case using Cons by (cases "c = CHR '','' \<or> c = CHR '' ''") (simp_all only: dropWhile.simps if_True if_False)
qed simp

lemma comma_split_first:
  "comma_split p = takeWhile (\<lambda>c. c \<noteq> CHR '','') p # tl (comma_split p)"
  "list_ex (entry_matches version) (tl (comma_split p)) =
     list_ex (entry_matches version) (comma_split (dropWhile (\<lambda>c. c \<noteq> CHR '','') p))"
proof -
  show "comma_split p = takeWhile (\<lambda>c. c \<noteq> CHR '','') p # tl (comma_split p)"
    by (induction p) (auto, metis list.sel(1))
  show "list_ex (entry_matches version) (tl (comma_split p)) =
     list_ex (entry_matches version) (comma_split (dropWhile (\<lambda>c. c \<noteq> CHR '','') p))"
    by (induction p) (auto simp: entry_matches_def entry_key_def)
qed

lemma matches_some_entry_iff:
  "no_nul version \<Longrightarrow> no_nul p \<Longrightarrow>
     matches_some_entry version p = list_ex (entry_matches version) (comma_split p)"
proof (induction version p rule: matches_some_entry.induct)
  case (1 version p)
  let ?sep = "\<lambda>c. c = CHR '','' \<or> c = CHR '' ''"
  let ?p = "dropWhile ?sep p"
  have nul: "no_nul ?p" "no_nul (dropWhile (\<lambda>c. c \<noteq> CHR '','') ?p)"
    using "1.prems"(2) by (auto simp: no_nul_def dest: set_dropWhileD)
  show ?case
  proof (cases "?p = []")
    case True
    have "matches_some_entry version p \<longleftrightarrow> False"
      by (subst matches_some_entry.simps) (simp only: True Let_def refl if_True)
    moreover have "list_ex (entry_matches version) (comma_split p) \<longleftrightarrow> False"
      unfolding split_drop_separators [of version p, symmetric] True by simp
    ultimately show ?thesis by simp
  next
    case False
    have "\<not> ?sep (hd ?p)" using False by (rule hd_dropWhile)
    then have key: "entry_key (takeWhile (\<lambda>c. c \<noteq> CHR '','') ?p) = takeWhile (\<lambda>c. \<not> entry_end c) ?p"
      and ne: "takeWhile (\<lambda>c. \<not> entry_end c) ?p \<noteq> []"
      using False by (cases ?p; auto simp: entry_key_def entry_end_def takeWhile_takeWhile conj_commute)+
    have "list_ex (entry_matches version) (comma_split ?p) \<longleftrightarrow>
        unitRevMatches version ?p \<or> list_ex (entry_matches version) (comma_split (dropWhile (\<lambda>c. c \<noteq> CHR '','') ?p))"
      by (subst comma_split_first(1))
         (simp add: comma_split_first(2) entry_matches_def [of _ "takeWhile _ _"] key ne
           unitRevMatches_iff [OF "1.prems"(1) nul(1)])
    then show ?thesis
      using "1.IH" [OF refl False] "1.prems"(1) nul split_drop_separators [of version p] False
      by (auto simp: matches_some_entry.simps [of version p])
  qed
qed

text \<open>The hand-written walk over the list of equivalent revisions grades exactly as its meaning
  says. A unit is current when its first eight characters are those of the bundled revision or of
  one entry of the comma-separated list, blanks around entries not counting; it is unknown when
  either revision is missing and outdated otherwise.\<close>

lemma revision_grading_correct:
  assumes "no_nul version" "no_nul bundled" "no_nul equivalents"
  shows "unitFwStatusFromRev version bundled equivalents =
     (if version = [] \<or> bundled = [] then 2
      else if take 8 version = take 8 (takeWhile (\<lambda>c. \<not> entry_end c) bundled) \<or>
              list_ex (entry_matches version) (comma_split equivalents) then 0 else 1)"
  using assms by (simp add: unitFwStatusFromRev_def unitRevMatches_iff matches_some_entry_iff)

lemma revision_grading_correct_witness:
  "unitFwStatusFromRev ''a2'' ''f0'' ''01, a2 '' = 0"
  by (rule trans [OF revision_grading_correct])
    (simp_all add: no_nul_def entry_matches_def entry_key_def entry_end_def)

end
