(* ===== verification/SF_Monad.thy ===== *)
theory SF_Monad
  imports SF_Prelude "HOL-Library.State_Monad"
begin

text \<open>
  Code that drives hardware, as values of the state monad over a world the caller chooses, and the
  triples the proofs about it use. A triple says of every run that starts in a state with the
  precondition that its result and its last state satisfy the postcondition; there is one rule per
  construct, and loops are recursions on fuel, so no rule for them is needed.
\<close>

section \<open>Triples\<close>

definition triple :: "('w \<Rightarrow> bool) \<Rightarrow> ('w, 'a) state \<Rightarrow> ('a \<Rightarrow> 'w \<Rightarrow> bool) \<Rightarrow> bool" where
  "triple P m Q \<longleftrightarrow> (\<forall>w. P w \<longrightarrow> Q (fst (run_state m w)) (snd (run_state m w)))"

named_theorems triple_rules

lemma run_bind: "run_state (m \<bind> f) w = run_state (f (fst (run_state m w))) (snd (run_state m w))"
  by (simp add: case_prod_beta)

lemma tripleI: "(\<And>w a w'. P w \<Longrightarrow> run_state m w = (a, w') \<Longrightarrow> Q a w') \<Longrightarrow> triple P m Q"
  by (simp add: triple_def prod_eq_iff)

lemma tripleD: "triple P m Q \<Longrightarrow> P w \<Longrightarrow> run_state m w = (a, w') \<Longrightarrow> Q a w'"
  unfolding triple_def by fastforce

lemma triple_run: "triple P m Q \<Longrightarrow> P w \<Longrightarrow> Q (fst (run_state m w)) (snd (run_state m w))"
  by (simp add: triple_def)

lemma triple_return [triple_rules]: "triple (Q a) (State_Monad.return a) Q"
  by (simp add: triple_def)

lemma triple_bind:
  "triple P m R \<Longrightarrow> (\<And>a. triple (R a) (f a) Q) \<Longrightarrow> triple P (m \<bind> f) Q"
  unfolding triple_def run_bind by blast

lemma triple_bind_pre:
  "triple P' m R \<Longrightarrow> (\<And>w. P w \<Longrightarrow> P' w) \<Longrightarrow> (\<And>a. triple (R a) (f a) Q) \<Longrightarrow> triple P (m \<bind> f) Q"
  unfolding triple_def run_bind by blast

lemma triple_if:
  "(c \<Longrightarrow> triple P m Q) \<Longrightarrow> (\<not> c \<Longrightarrow> triple P n Q) \<Longrightarrow> triple P (if c then m else n) Q"
  by simp

lemma triple_option:
  "(x = None \<Longrightarrow> triple P m Q) \<Longrightarrow> (\<And>a. x = Some a \<Longrightarrow> triple P (n a) Q) \<Longrightarrow>
     triple P (case x of None \<Rightarrow> m | Some a \<Rightarrow> n a) Q"
  by (cases x) simp_all

lemma triple_weaken:
  "triple P m Q \<Longrightarrow> (\<And>w. P' w \<Longrightarrow> P w) \<Longrightarrow> (\<And>a w. Q a w \<Longrightarrow> Q' a w) \<Longrightarrow> triple P' m Q'"
  unfolding triple_def by blast

lemma triple_post: "triple P m Q \<Longrightarrow> (\<And>a w. Q a w \<Longrightarrow> Q' a w) \<Longrightarrow> triple P m Q'"
  by (erule triple_weaken)

lemma triple_conj: "triple P m Q \<Longrightarrow> triple P m R \<Longrightarrow> triple P m (\<lambda>a w. Q a w \<and> R a w)"
  unfolding triple_def by auto

lemma triple_false [simp]: "triple (\<lambda>_. False) m Q"
  by (simp add: triple_def)

lemma triple_return_iff: "triple P (State_Monad.return a) Q \<longleftrightarrow> (\<forall>w. P w \<longrightarrow> Q a w)"
  by (simp add: triple_def)

text \<open>A read that is known to deliver, in front of what is done with it.\<close>

lemma triple_known:
  "triple P m (\<lambda>x w. P w \<and> x = v) \<Longrightarrow> triple P (f v) Q \<Longrightarrow> triple P (m \<bind> f) Q"
  by (rule triple_bind, assumption) (auto simp: triple_def)

lemma triple_known_pre:
  "triple P m (\<lambda>x w. R w \<and> x = v) \<Longrightarrow> (\<And>w. P' w \<Longrightarrow> P w) \<Longrightarrow> triple R (f v) Q \<Longrightarrow> triple P' (m \<bind> f) Q"
  by (rule triple_bind_pre, assumption, assumption) (auto simp: triple_def)

lemma triple_fact: "(C \<Longrightarrow> triple P m Q) \<Longrightarrow> triple (\<lambda>w. P w \<and> C) m Q"
  by (auto simp: triple_def)

text \<open>What holds of the result whatever the world did.\<close>

definition always :: "('a \<Rightarrow> bool) \<Rightarrow> ('w, 'a) state \<Rightarrow> bool" where
  "always Q m \<longleftrightarrow> triple (\<lambda>_. True) m (\<lambda>a _. Q a)"

lemma always_run: "always Q m \<Longrightarrow> run_state m w = (a, w') \<Longrightarrow> Q a"
  using tripleD [of "\<lambda>_. True" m "\<lambda>a _. Q a" w a w'] by (simp add: always_def)

lemma alwaysI: "(\<And>w a w'. run_state m w = (a, w') \<Longrightarrow> Q a) \<Longrightarrow> always Q m"
  unfolding always_def by (rule tripleI)

lemma always_return: "Q a \<Longrightarrow> always Q (State_Monad.return a)"
  by (simp add: always_def triple_def)

lemma always_bind: "always R m \<Longrightarrow> (\<And>a. R a \<Longrightarrow> always Q (f a)) \<Longrightarrow> always Q (m \<bind> f)"
  unfolding always_def triple_def run_bind by blast

lemma always_bind_any: "(\<And>a. always Q (f a)) \<Longrightarrow> always Q (m \<bind> f)"
  unfolding always_def triple_def run_bind by blast

lemma always_if: "(c \<Longrightarrow> always Q m) \<Longrightarrow> (\<not> c \<Longrightarrow> always Q n) \<Longrightarrow> always Q (if c then m else n)"
  by simp

lemma always_option:
  "(x = None \<Longrightarrow> always Q m) \<Longrightarrow> (\<And>a. x = Some a \<Longrightarrow> always Q (n a)) \<Longrightarrow>
     always Q (case x of None \<Rightarrow> m | Some a \<Rightarrow> n a)"
  by (cases x) simp_all

lemma always_prod:
  "(\<And>a b. x = (a, b) \<Longrightarrow> always Q (f a b)) \<Longrightarrow> always Q (case x of (a, b) \<Rightarrow> f a b)"
  by (cases x) simp

lemma always_weaken: "always Q m \<Longrightarrow> (\<And>a. Q a \<Longrightarrow> R a) \<Longrightarrow> always R m"
  unfolding always_def by (erule triple_weaken) simp_all

section \<open>Repetition\<close>

fun repeat_state :: "nat \<Rightarrow> ('w, 'a) state \<Rightarrow> ('w, 'a list) state" where
  "repeat_state 0 m = State_Monad.return []"
| "repeat_state (Suc n) m = do {
     x \<leftarrow> m;
     xs \<leftarrow> repeat_state n m;
     State_Monad.return (x # xs)
   }"

fun each_state :: "('b \<Rightarrow> ('w, 'a) state) \<Rightarrow> 'b list \<Rightarrow> ('w, unit) state" where
  "each_state f [] = State_Monad.return ()"
| "each_state f (x # xs) = do { f x; each_state f xs }"

lemma each_state_append: "each_state f (xs @ ys) = do { each_state f xs; each_state f ys }"
  by (induction xs) simp_all

lemma repeat_length: "always (\<lambda>xs. length xs = n) (repeat_state n m)"
proof (induction n)
  case (Suc n)
  show ?case
    by (simp, rule always_bind_any, rule always_bind [OF Suc.IH], rule always_return) simp
qed (simp add: always_return)

end
