(* ===== verification/Unit_Bus.thy ===== *)
theory Unit_Bus
  imports Unit_Facts SF_Monad
begin

text \<open>
  The row master's side of the two-wire protocol (\<open>shared/UnitBusCore.h\<close>). The source is a set of
  templates over the bus adapter of the tree that instantiates it; here the adapter is a record of
  operations on a world \<open>'w\<close>, and a template is a function of that record into the state monad. An
  out parameter is returned. Everything a read or a poll says of its result holds for every adapter.
\<close>

section \<open>The bus adapter\<close>

datatype UnitBusAct = Act_Write | Act_Read | Act_Probe

record 'w bus =
  b_begin :: "u8 \<Rightarrow> ('w, unit) state"
  b_write :: "u8 \<Rightarrow> ('w, nat) state"
  b_end :: "bool \<Rightarrow> ('w, int) state"
  b_request :: "u8 \<Rightarrow> u8 \<Rightarrow> ('w, u8) state"
  b_read :: "('w, int) state"
  b_available :: "('w, int) state"
  b_now :: "('w, u32) state"
  b_sleep :: "u32 \<Rightarrow> ('w, unit) state"
  b_readFailed :: "('w, unit) state"
  b_endCounted :: "('w, int) state"
  b_noteReadError :: "('w, unit) state"
  b_mark :: "UnitBusAct \<Rightarrow> u8 \<Rightarrow> ('w, unit) state"

text \<open>A byte read is the low half of the \<open>int\<close> the adapter returns. Emptying the receive buffer
  takes at most 255 reads, the most a request can ask for.\<close>

definition read_byte :: "'w bus \<Rightarrow> ('w, u8) state" where
  "read_byte bus = do { v \<leftarrow> b_read bus; State_Monad.return (word_of_int v) }"

fun drain :: "nat \<Rightarrow> 'w bus \<Rightarrow> ('w, unit) state" where
  "drain 0 bus = State_Monad.return ()"
| "drain (Suc n) bus = do {
     more \<leftarrow> b_available bus;
     if more \<noteq> 0 then do { b_read bus; drain n bus } else State_Monad.return ()
   }"

definition drain_all :: "'w bus \<Rightarrow> ('w, unit) state" where
  "drain_all bus = drain 256 bus"

section \<open>Error attribution\<close>

record UnitErrorLedger =
  el_count :: "u16 list"
  el_lastMs :: "u32 list"

definition ledger_note :: "UnitErrorLedger \<Rightarrow> int \<Rightarrow> u32 \<Rightarrow> UnitErrorLedger" where
  "ledger_note l index nowMs =
     (if index < 0 \<or> index \<ge> int (length (el_count l)) then l
      else (let i = nat index in
        l\<lparr>el_count := (el_count l)[i := unitErrBump (el_count l ! i)],
          el_lastMs := (el_lastMs l)[i := nowMs]\<rparr>))"

definition ledger_fold_one :: "UnitErrorLedger \<Rightarrow> UnitFacts \<Rightarrow> int \<Rightarrow> UnitFacts" where
  "ledger_fold_one l u index =
     (if index < 0 \<or> index \<ge> int (length (el_count l)) then u
      else u\<lparr>uf_i2cErrors := el_count l ! nat index, uf_lastErrorMs := el_lastMs l ! nat index\<rparr>)"

definition ledger_fold :: "UnitErrorLedger \<Rightarrow> UnitFacts list \<Rightarrow> UnitFacts list" where
  "ledger_fold l us = map (\<lambda>(i, u). ledger_fold_one l u (int i)) (enumerate 0 us)"

section \<open>Framing\<close>

definition unitSendGuarded :: "'w bus \<Rightarrow> u8 \<Rightarrow> u8 \<Rightarrow> ('w, int) state" where
  "unitSendGuarded bus addr opcode = do {
     b_mark bus Act_Write addr;
     b_begin bus addr;
     b_write bus opcode;
     b_write bus (noArgGuardByte opcode);
     b_endCounted bus
   }"

definition unitSendPayload :: "'w bus \<Rightarrow> u8 \<Rightarrow> u8 \<Rightarrow> bytes \<Rightarrow> ('w, int) state" where
  "unitSendPayload bus addr opcode payload = do {
     b_mark bus Act_Write addr;
     b_begin bus addr;
     b_write bus opcode;
     each_state (\<lambda>b. do { b_write bus b; State_Monad.return () }) payload;
     b_endCounted bus
   }"

definition unitQuery :: "'w bus \<Rightarrow> u8 \<Rightarrow> u8 \<Rightarrow> u8 \<Rightarrow> ('w, bytes option) state" where
  "unitQuery bus addr opcode n = do {
     b_mark bus Act_Write addr;
     b_begin bus addr;
     b_write bus opcode;
     status \<leftarrow> b_endCounted bus;
     if status \<noteq> 0 then State_Monad.return None
     else do {
       b_sleep bus 2;
       b_mark bus Act_Read addr;
       got \<leftarrow> b_request bus addr n;
       if got \<noteq> n then do {
         drain_all bus;
         b_noteReadError bus;
         b_readFailed bus;
         State_Monad.return None
       } else do {
         buf \<leftarrow> repeat_state (unat n) (read_byte bus);
         State_Monad.return (Some buf)
       }
     }
   }"

section \<open>Reads\<close>

text \<open>A query, and its reply through a decoder.\<close>

definition query_decode ::
    "'w bus \<Rightarrow> u8 \<Rightarrow> u8 \<Rightarrow> u8 \<Rightarrow> (bytes \<Rightarrow> 'a option) \<Rightarrow> ('w, 'a option) state" where
  "query_decode bus addr opcode n decode = do {
     reply \<leftarrow> unitQuery bus addr opcode n;
     State_Monad.return (case reply of None \<Rightarrow> None | Some buf \<Rightarrow> decode buf)
   }"

definition status_of_payload :: "bytes \<Rightarrow> UnitStatus" where
  "status_of_payload p =
     \<lparr>us_flags = p ! 0, us_mcusrAtBoot = p ! 1, us_lifetimeBrownoutCount = p ! 2,
      us_lifetimeWatchdogCount = p ! 3,
      us_uptimeSeconds = push_bit 8 (ucast (p ! 4)) OR ucast (p ! 5),
      us_badCommandCount = p ! 6, us_lastHomingStepCount = push_bit 4 (ucast (p ! 7))\<rparr>"

definition status_decode :: "bytes \<Rightarrow> UnitStatus option" where
  "status_decode buf = map_option status_of_payload (statusReadbackValid buf 9)"

definition unitReadStatus :: "'w bus \<Rightarrow> u8 \<Rightarrow> ('w, UnitStatus option) state" where
  "unitReadStatus bus addr = query_decode bus addr SFP_CMD_GET_STATUS 9 status_decode"

definition unitReadOdometer :: "'w bus \<Rightarrow> u8 \<Rightarrow> ('w, u32 option) state" where
  "unitReadOdometer bus addr = query_decode bus addr SFP_CMD_GET_ODOMETER 5 odometerReadbackValid"

definition unitReadDiag :: "'w bus \<Rightarrow> u8 \<Rightarrow> ('w, UnitDiagReading option) state" where
  "unitReadDiag bus addr = query_decode bus addr SFP_CMD_GET_DIAG 6
     (\<lambda>buf. diagReadbackValid buf (word_of_int SFP_FLAP_AMOUNT))"

definition unitReadVitals :: "'w bus \<Rightarrow> u8 \<Rightarrow> ('w, UnitVitals option) state" where
  "unitReadVitals bus addr = query_decode bus addr SFP_CMD_GET_VITALS 8 vitalsReadbackValid"

definition unitReadLifetime :: "'w bus \<Rightarrow> u8 \<Rightarrow> ('w, UnitLifetimeFacts option) state" where
  "unitReadLifetime bus addr = query_decode bus addr SFP_CMD_GET_LIFETIME 15
     (\<lambda>buf. lifetimeReadbackValid buf 15)"

definition unitReadBusRecord :: "'w bus \<Rightarrow> u8 \<Rightarrow> ('w, (UnitBusRecord \<times> u8) option) state" where
  "unitReadBusRecord bus addr = query_decode bus addr SFP_CMD_GET_BUS_RECORD 9
     (\<lambda>buf. busRecordReadbackValid buf 9)"

definition unitReadOffset :: "'w bus \<Rightarrow> u8 \<Rightarrow> ('w, i16 option) state" where
  "unitReadOffset bus addr = query_decode bus addr SFP_CMD_GET_OFFSET 3
     (\<lambda>buf. offsetReadbackValid buf 3)"

text \<open>The revision is the bytes before the first zero; a byte outside printable ASCII, a quote or a
  backslash among them, or no byte at all, refuses the reply.\<close>

definition version_decode :: "bytes \<Rightarrow> (string \<times> u8) option" where
  "version_decode buf =
     (case versionReadbackValid buf 10 of
        None \<Rightarrow> None
      | Some pkt \<Rightarrow>
          (let text = takeWhile (\<lambda>b. b \<noteq> 0) (take 8 (vp_rev pkt))
           in if list_ex (\<lambda>b. b < 32 \<or> b > 126 \<or> b = 34 \<or> b = 92) text then None
              else if text = [] then None
              else Some (map (\<lambda>b. char_of (unat b)) text, vp_protocolVersion pkt)))"

definition unitReadVersion :: "'w bus \<Rightarrow> u8 \<Rightarrow> ('w, string \<times> u8 \<times> bool) state" where
  "unitReadVersion bus addr = do {
     r \<leftarrow> query_decode bus addr SFP_CMD_GET_VERSION 10 version_decode;
     State_Monad.return (case r of None \<Rightarrow> ('''', 0, False) | Some (text, protocol) \<Rightarrow> (text, protocol, True))
   }"

definition unitReadDisplayedLetter :: "'w bus \<Rightarrow> u8 \<Rightarrow> ('w, int option) state" where
  "unitReadDisplayedLetter bus addr = query_decode bus addr SFP_CMD_GET_LETTER 2
     (\<lambda>buf. if letterReadbackValid (buf ! 0) (buf ! 1) (word_of_int SFP_FLAP_AMOUNT)
            then Some (uint (buf ! 0)) else None)"

definition unitReadSelfTest :: "'w bus \<Rightarrow> u8 \<Rightarrow> ('w, SelfTestResult option) state" where
  "unitReadSelfTest bus addr = query_decode bus addr SFP_CMD_GET_SELF_TEST 9 selfTestReadbackValid"

definition unitReadBootInfo :: "'w bus \<Rightarrow> u8 \<Rightarrow> ('w, BootUpdateReport option) state" where
  "unitReadBootInfo bus addr = query_decode bus addr SFP_CMD_GET_BOOT_INFO 11 bootInfoDecode"

definition unitMovingStatus :: "'w bus \<Rightarrow> u8 \<Rightarrow> ('w, int) state" where
  "unitMovingStatus bus addr = do {
     b_mark bus Act_Read addr;
     b_request bus addr 1;
     some \<leftarrow> b_available bus;
     active \<leftarrow> (if some \<noteq> 0 then b_read bus else State_Monad.return (-1));
     if active = -1 then do {
       b_readFailed bus;
       b_begin bus addr;
       b_end bus True;
       State_Monad.return active
     } else State_Monad.return active
   }"

text \<open>One round of the batch wait, which stops at the first unit that is not idle, and the rounds,
  at least 100 ms apart, until the time is up.\<close>

fun all_idle :: "'w bus \<Rightarrow> u8 list \<Rightarrow> ('w, bool) state" where
  "all_idle bus [] = State_Monad.return True"
| "all_idle bus (a # as) = do {
     moving \<leftarrow> unitMovingStatus bus a;
     if moving \<noteq> 0 then State_Monad.return False else all_idle bus as
   }"

fun wait_rounds ::
    "nat \<Rightarrow> 'w bus \<Rightarrow> u8 list \<Rightarrow> u32 \<Rightarrow> u32 \<Rightarrow> ('w, unit) state \<Rightarrow> ('w, bool) state" where
  "wait_rounds 0 bus addrs start timeoutMs keepAlive = State_Monad.return False"
| "wait_rounds (Suc n) bus addrs start timeoutMs keepAlive = do {
     now \<leftarrow> b_now bus;
     if now - start < timeoutMs then do {
       keepAlive;
       idle \<leftarrow> all_idle bus addrs;
       if idle then State_Monad.return True
       else do {
         b_sleep bus 100;
         wait_rounds n bus addrs start timeoutMs keepAlive
       }
     } else State_Monad.return False
   }"

definition unitWaitBatchIdle ::
    "'w bus \<Rightarrow> u8 list \<Rightarrow> u32 \<Rightarrow> ('w, unit) state \<Rightarrow> ('w, bool) state" where
  "unitWaitBatchIdle bus addrs timeoutMs keepAlive =
     (if addrs = [] then State_Monad.return True
      else do {
        b_sleep bus 1000;
        start \<leftarrow> b_now bus;
        wait_rounds (unat timeoutMs + 1) bus addrs start timeoutMs keepAlive
      })"

section \<open>Folds into a unit's facts\<close>

text \<open>A fold takes the facts, and where the source has one the out parameter, and returns them as it
  leaves them.\<close>

definition fresh_diag :: UnitDiagReading where
  "fresh_diag = \<lparr>dr_physicalLetter = 0xFF, dr_flags = 0, dr_driftEvents = 0, dr_lastDriftSteps = 0\<rparr>"

definition unitRefreshDiag ::
    "'w bus \<Rightarrow> UnitFacts \<Rightarrow> u8 \<Rightarrow> UnitDiagReading \<Rightarrow>
     ('w, DriftLogDecision \<times> UnitFacts \<times> UnitDiagReading) state" where
  "unitRefreshDiag bus u addr reading = do {
     r \<leftarrow> unitReadDiag bus addr;
     let u = u\<lparr>uf_diagValid := False\<rparr>;
     case r of
       None \<Rightarrow> State_Monad.return
         (\<lparr>dl_shouldLog = False, dl_newEvents = 0, dl_newBaseline = uf_driftEventsBaseline u\<rparr>, u, reading)
     | Some d \<Rightarrow>
         (let drift = driftLogEvaluate (uf_driftEventsBaseline u) (dr_driftEvents d) in
          State_Monad.return (drift,
            u\<lparr>uf_driftEventsBaseline := dl_newBaseline drift, uf_physLetter := dr_physicalLetter d,
              uf_driftFlags := dr_flags d, uf_driftEvents := dr_driftEvents d,
              uf_lastDriftSteps := dr_lastDriftSteps d, uf_diagValid := True\<rparr>, d))
   }"

definition unitRefreshVitals :: "'w bus \<Rightarrow> UnitFacts \<Rightarrow> u8 \<Rightarrow> ('w, UnitFacts) state" where
  "unitRefreshVitals bus u addr = do {
     r \<leftarrow> unitReadVitals bus addr;
     let u = u\<lparr>uf_vitalsValid := False\<rparr>;
     State_Monad.return
       (case r of None \<Rightarrow> u | Some v \<Rightarrow> u\<lparr>uf_vitals := v, uf_vitalsValid := True\<rparr>)
   }"

definition unitRefreshExtDiag :: "'w bus \<Rightarrow> UnitFacts \<Rightarrow> u8 \<Rightarrow> ('w, UnitFacts) state" where
  "unitRefreshExtDiag bus u addr = do {
     reply \<leftarrow> unitQuery bus addr SFP_CMD_GET_EXT_DIAG 21;
     let u = u\<lparr>uf_extDiagValid := False, uf_linkValid := False\<rparr>;
     State_Monad.return (case reply of None \<Rightarrow> u | Some buf \<Rightarrow> unitFactsFoldExtDiag u buf)
   }"

definition unitRefreshLifetime :: "'w bus \<Rightarrow> UnitFacts \<Rightarrow> u8 \<Rightarrow> ('w, UnitFacts) state" where
  "unitRefreshLifetime bus u addr = do {
     r \<leftarrow> unitReadLifetime bus addr;
     let u = u\<lparr>uf_lifetimeValid := False\<rparr>;
     State_Monad.return
       (case r of None \<Rightarrow> u | Some lt \<Rightarrow> u\<lparr>uf_lifetime := lt, uf_lifetimeValid := True\<rparr>)
   }"

definition unitRefreshBusRecord :: "'w bus \<Rightarrow> UnitFacts \<Rightarrow> u8 \<Rightarrow> ('w, UnitFacts) state" where
  "unitRefreshBusRecord bus u addr = do {
     r \<leftarrow> unitReadBusRecord bus addr;
     let u = u\<lparr>uf_busRecordValid := False\<rparr>;
     State_Monad.return
       (case r of
          None \<Rightarrow> u
        | Some (record, silentNow) \<Rightarrow>
            u\<lparr>uf_busRecord := record, uf_busSilentNowMinutes := silentNow, uf_busRecordValid := True\<rparr>)
   }"

definition unitRefreshBootVerdict ::
    "'w bus \<Rightarrow> UnitFacts \<Rightarrow> u8 \<Rightarrow> u8 \<Rightarrow> BootUpdateReport \<Rightarrow>
     ('w, bool \<times> UnitFacts \<times> u8 \<times> BootUpdateReport) state" where
  "unitRefreshBootVerdict bus u addr logged report = do {
     r \<leftarrow> unitReadBootInfo bus addr;
     let u = u\<lparr>uf_bootVerdict := BOOT_INTEGRITY_UNREAD\<rparr>;
     State_Monad.return
       (case r of
          None \<Rightarrow> (False, u, logged, report)
        | Some rep \<Rightarrow>
            (let verdict = bootIntegrityJudge rep BOOT_CURRENT_CRC32;
                 e = bootIntegrityEdge logged verdict
             in (fst e, u\<lparr>uf_bootCrc32 := bu_bootCrc32 rep, uf_bootVerdict := verdict\<rparr>, snd e, rep)))
   }"

definition unitReadIdentity ::
    "'w bus \<Rightarrow> UnitFacts \<Rightarrow> u8 \<Rightarrow> string \<Rightarrow> string \<Rightarrow> ('w, bool \<times> UnitFacts) state" where
  "unitReadIdentity bus u addr bundledRev bundledEquivRevs = do {
     v \<leftarrow> unitReadVersion bus addr;
     let (text, protocol, versionOk) = v;
     let u = u\<lparr>uf_rev := text\<rparr>;
     let u = (if versionOk
              then u\<lparr>uf_fwStatus := unitFwStatusFromRev text bundledRev bundledEquivRevs,
                     uf_protocolVersion := protocol, uf_protocolKnown := True\<rparr>
              else u);
     off \<leftarrow> unitReadOffset bus addr;
     State_Monad.return
       (versionOk, (case off of None \<Rightarrow> u | Some v \<Rightarrow> unitFactsApplyOffsetWrite u v))
   }"

definition unitPollStatus ::
    "'w bus \<Rightarrow> UnitFacts \<Rightarrow> u8 \<Rightarrow> UnitResetBaseline \<Rightarrow> ('w, bool \<times> UnitFacts \<times> UnitResetBaseline) state" where
  "unitPollStatus bus u addr baseline = do {
     r \<leftarrow> unitReadStatus bus addr;
     let u = u\<lparr>uf_statusValid := False\<rparr>;
     State_Monad.return
       (case r of
          None \<Rightarrow> (False, u, baseline)
        | Some s \<Rightarrow>
            (let (seen, b) = unitResetBaselineFold baseline (us_lifetimeBrownoutCount s)
                               (us_lifetimeWatchdogCount s)
             in (True, u\<lparr>uf_status := s, uf_statusValid := True, uf_resetSeen := seen\<rparr>, b)))
   }"

definition unitRefreshOdometer :: "'w bus \<Rightarrow> UnitFacts \<Rightarrow> u8 \<Rightarrow> ('w, UnitFacts) state" where
  "unitRefreshOdometer bus u addr = do {
     r \<leftarrow> unitReadOdometer bus addr;
     State_Monad.return
       (case r of None \<Rightarrow> u | Some n \<Rightarrow> u\<lparr>uf_odometer := n, uf_odometerValid := True\<rparr>)
   }"

section \<open>Probe and health poll\<close>

record 'w note_sink =
  nt_identityRead :: "u8 \<Rightarrow> UnitFacts \<Rightarrow> bool \<Rightarrow> ('w, unit) state"
  nt_driftSeen :: "u8 \<Rightarrow> DriftLogDecision \<Rightarrow> UnitDiagReading \<Rightarrow> ('w, unit) state"
  nt_bootVerdictChanged :: "u8 \<Rightarrow> UnitFacts \<Rightarrow> BootUpdateReport \<Rightarrow> ('w, unit) state"

definition unitRefreshDiagnostics ::
    "'w bus \<Rightarrow> 'w note_sink \<Rightarrow> UnitFacts \<Rightarrow> u8 \<Rightarrow> u8 \<Rightarrow> ('w, UnitFacts \<times> u8) state" where
  "unitRefreshDiagnostics bus notes u addr bootLogged = do {
     u \<leftarrow> unitRefreshOdometer bus u addr;
     (drift, u, diag) \<leftarrow> unitRefreshDiag bus u addr fresh_diag;
     (if dl_shouldLog drift then nt_driftSeen notes addr drift diag else State_Monad.return ());
     u \<leftarrow> unitRefreshVitals bus u addr;
     u \<leftarrow> unitRefreshExtDiag bus u addr;
     u \<leftarrow> unitRefreshLifetime bus u addr;
     u \<leftarrow> unitRefreshBusRecord bus u addr;
     (changed, u, bootLogged, report) \<leftarrow> unitRefreshBootVerdict bus u addr bootLogged empty_report;
     (if changed then nt_bootVerdictChanged notes addr u report else State_Monad.return ());
     State_Monad.return (u, bootLogged)
   }"

definition unitProbeSketchUnit ::
    "'w bus \<Rightarrow> 'w note_sink \<Rightarrow> UnitFacts \<Rightarrow> u8 \<Rightarrow> string \<Rightarrow> string \<Rightarrow> u8 \<Rightarrow>
     ('w, bool \<times> UnitFacts \<times> u8) state" where
  "unitProbeSketchUnit bus notes u addr bundledRev bundledEquivRevs bootLogged = do {
     (versionOk, u) \<leftarrow> unitReadIdentity bus u addr bundledRev bundledEquivRevs;
     nt_identityRead notes addr u versionOk;
     (u, bootLogged) \<leftarrow> unitRefreshDiagnostics bus notes u addr bootLogged;
     State_Monad.return (versionOk, u, bootLogged)
   }"

definition unitForgetDiagnostics :: "UnitFacts \<Rightarrow> UnitFacts" where
  "unitForgetDiagnostics u =
     u\<lparr>uf_diagValid := False, uf_vitalsValid := False, uf_extDiagValid := False, uf_linkValid := False,
       uf_lifetimeValid := False, uf_busRecordValid := False, uf_bootVerdict := BOOT_INTEGRITY_UNREAD\<rparr>"

definition unitPollHealth ::
    "'w bus \<Rightarrow> 'w note_sink \<Rightarrow> UnitFacts \<Rightarrow> u8 \<Rightarrow> UnitResetBaseline \<Rightarrow> u8 \<Rightarrow>
     ('w, bool \<times> UnitFacts \<times> UnitResetBaseline \<times> u8) state" where
  "unitPollHealth bus notes u addr baseline bootLogged = do {
     (ok, u, baseline) \<leftarrow> unitPollStatus bus u addr baseline;
     if \<not> ok \<and> uf_misses u > 0
     then State_Monad.return (False, unitForgetDiagnostics u, baseline, bootLogged)
     else do {
       (u, bootLogged) \<leftarrow> unitRefreshDiagnostics bus notes u addr bootLogged;
       State_Monad.return (ok, u, baseline, bootLogged)
     }
   }"

section \<open>Writes\<close>

abbreviation (input) UNIT_BUS_OFFSET_UNVERIFIED :: int where "UNIT_BUS_OFFSET_UNVERIFIED \<equiv> 20"
abbreviation (input) UNIT_BUS_OFFSET_MISMATCH :: int where "UNIT_BUS_OFFSET_MISMATCH \<equiv> 21"
abbreviation (input) UNIT_BUS_GATES_UNVERIFIED :: int where "UNIT_BUS_GATES_UNVERIFIED \<equiv> 22"
abbreviation (input) UNIT_BUS_GATES_MISMATCH :: int where "UNIT_BUS_GATES_MISMATCH \<equiv> 23"

definition unitWriteLetter :: "'w bus \<Rightarrow> u8 \<Rightarrow> u8 \<Rightarrow> u8 \<Rightarrow> ('w, int) state" where
  "unitWriteLetter bus addr letter unitSpeed = do {
     b_mark bus Act_Write addr;
     b_begin bus addr;
     b_write bus letter;
     b_write bus unitSpeed;
     b_endCounted bus
   }"

definition unitWriteOffset :: "'w bus \<Rightarrow> u8 \<Rightarrow> i16 \<Rightarrow> ('w, int) state" where
  "unitWriteOffset bus addr v = do {
     status \<leftarrow> unitSendPayload bus addr SFP_CMD_SET_OFFSET (setOffsetEncode v);
     if status \<noteq> 0 then State_Monad.return status
     else do {
       b_sleep bus 30;
       r \<leftarrow> unitReadOffset bus addr;
       State_Monad.return
         (case r of None \<Rightarrow> UNIT_BUS_OFFSET_UNVERIFIED
          | Some back \<Rightarrow> if back = v then 0 else UNIT_BUS_OFFSET_MISMATCH)
     }
   }"

definition maintEncodeJogByte :: "int \<Rightarrow> u8" where
  "maintEncodeJogByte steps =
     (let s = (if steps > 127 then 127 else steps); s = (if s < -127 then -127 else s) in word_of_int s)"

definition unitJog :: "'w bus \<Rightarrow> u8 \<Rightarrow> int \<Rightarrow> ('w, int) state" where
  "unitJog bus addr steps = unitSendPayload bus addr SFP_CMD_JOG (jogEncode (maintEncodeJogByte steps))"

definition unitHome :: "'w bus \<Rightarrow> u8 \<Rightarrow> ('w, int) state" where
  "unitHome bus addr = unitSendGuarded bus addr SFP_CMD_HOME"

definition unitIdentify :: "'w bus \<Rightarrow> u8 \<Rightarrow> ('w, int) state" where
  "unitIdentify bus addr = unitSendGuarded bus addr SFP_CMD_IDENTIFY"

definition unitResetOdometer :: "'w bus \<Rightarrow> u8 \<Rightarrow> ('w, int) state" where
  "unitResetOdometer bus addr = unitSendGuarded bus addr SFP_CMD_RESET_ODOMETER"

definition unitStartSelfTest :: "'w bus \<Rightarrow> u8 \<Rightarrow> ('w, int) state" where
  "unitStartSelfTest bus addr = unitSendGuarded bus addr SFP_CMD_START_SELF_TEST"

definition unitRebootSketch :: "'w bus \<Rightarrow> u8 \<Rightarrow> ('w, int) state" where
  "unitRebootSketch bus addr = unitSendGuarded bus addr SFP_CMD_REBOOT"

definition unitClearAddress :: "'w bus \<Rightarrow> u8 \<Rightarrow> ('w, int) state" where
  "unitClearAddress bus addr = unitSendGuarded bus addr SFP_CMD_CLEAR_I2C_ADDRESS"

definition unitSetGates :: "'w bus \<Rightarrow> u8 \<Rightarrow> u8 \<Rightarrow> ('w, int) state" where
  "unitSetGates bus addr gates = do {
     status \<leftarrow> unitSendPayload bus addr SFP_CMD_SET_GATES (setGatesEncode gates);
     if status \<noteq> 0 then State_Monad.return status
     else do {
       b_sleep bus 30;
       r \<leftarrow> unitReadLifetime bus addr;
       State_Monad.return
         (case r of None \<Rightarrow> UNIT_BUS_GATES_UNVERIFIED
          | Some lt \<Rightarrow> if lt_featureGates lt = gates then 0 else UNIT_BUS_GATES_MISMATCH)
     }
   }"

definition unitSendBootUpdate :: "'w bus \<Rightarrow> u8 \<Rightarrow> u8 \<Rightarrow> ('w, int) state" where
  "unitSendBootUpdate bus addr stage = unitSendPayload bus addr SFP_CMD_BOOT_UPDATE [stage, NOT stage]"

definition unitEnterBootloader :: "'w bus \<Rightarrow> u8 \<Rightarrow> ('w, int) state" where
  "unitEnterBootloader bus addr = unitSendPayload bus addr SFP_CMD_ENTER_BOOTLOADER []"

definition unitSetAddress :: "'w bus \<Rightarrow> u8 \<Rightarrow> u8 \<Rightarrow> ('w, int) state" where
  "unitSetAddress bus addr newAddress =
     unitSendPayload bus addr SFP_CMD_SET_I2C_ADDRESS (setAddressEncode newAddress)"

section \<open>On any bus\<close>

text \<open>The refreshes touch the diagnostics only; whatever the adapter and the log do, the status half of
  the facts stays.\<close>

lemma refresh_keeps_status:
  "always (\<lambda>u'. uf_statusValid u' = uf_statusValid u) (unitRefreshOdometer bus u a)"
  "always (\<lambda>x. uf_statusValid (fst (snd x)) = uf_statusValid u) (unitRefreshDiag bus u a reading)"
  "always (\<lambda>u'. uf_statusValid u' = uf_statusValid u) (unitRefreshVitals bus u a)"
  "always (\<lambda>u'. uf_statusValid u' = uf_statusValid u) (unitRefreshExtDiag bus u a)"
  "always (\<lambda>u'. uf_statusValid u' = uf_statusValid u) (unitRefreshLifetime bus u a)"
  "always (\<lambda>u'. uf_statusValid u' = uf_statusValid u) (unitRefreshBusRecord bus u a)"
  "always (\<lambda>x. uf_statusValid (fst (snd x)) = uf_statusValid u) (unitRefreshBootVerdict bus u a logged report)"
  unfolding unitRefreshOdometer_def unitRefreshDiag_def unitRefreshVitals_def unitRefreshExtDiag_def
    unitRefreshLifetime_def unitRefreshBusRecord_def unitRefreshBootVerdict_def unitFactsFoldExtDiag_def Let_def
  by (rule always_bind_any; simp add: always_return split: option.split prod.split)+

lemma diagnostics_keep_status:
  "always (\<lambda>x. uf_statusValid (fst x) = uf_statusValid u) (unitRefreshDiagnostics bus sink u a logged)"
  unfolding unitRefreshDiagnostics_def
  by (rule always_bind [OF refresh_keeps_status(1)], rule always_bind [OF refresh_keeps_status(2)],
      (rule always_prod)+, rule always_bind_any, rule always_bind [OF refresh_keeps_status(3)],
      rule always_bind [OF refresh_keeps_status(4)], rule always_bind [OF refresh_keeps_status(5)],
      rule always_bind [OF refresh_keeps_status(6)], rule always_bind [OF refresh_keeps_status(7)],
      (rule always_prod)+, rule always_bind_any, rule always_return) simp

end
