(* ===== verification/Bus_Sim.thy ===== *)
theory Bus_Sim
  imports Unit_Bus
begin

text \<open>
  A bus with one unit on it, as an adapter for the templates: what it is told is queued and reaches
  the unit as one transaction, and the fate of each transaction comes from an oracle. A transaction
  is delivered, or is lost with its address unanswered, or breaks off after some byte, in which case
  the master sees an error. The unit itself is a record of what it does with a write, a read, and the
  passing of time, so the sketch and the bootloader can both be put there.
\<close>

section \<open>The wire\<close>

record 'u slave =
  sl_write :: "bytes \<Rightarrow> 'u \<Rightarrow> bool \<times> 'u"
  sl_read :: "nat \<Rightarrow> 'u \<Rightarrow> bytes \<times> 'u"
  sl_sleep :: "nat \<Rightarrow> 'u \<Rightarrow> 'u"

datatype fate = Delivered | Lost | Broken nat

record 'u wire =
  wi_unit :: 'u
  wi_addr :: u8
  wi_target :: u8
  wi_tx :: bytes
  wi_rx :: bytes
  wi_ms :: nat
  wi_fates :: "nat \<Rightarrow> fate"
  wi_count :: nat
  wi_cap :: nat

definition wire_write :: "'u slave \<Rightarrow> 'u wire \<Rightarrow> int \<times> 'u wire" where
  "wire_write sl w =
     (if wi_target w \<noteq> wi_addr w then (2, w)
      else (let w1 = w\<lparr>wi_count := wi_count w + 1\<rparr> in
        case wi_fates w (wi_count w) of
          Delivered \<Rightarrow>
            (case sl_write sl (wi_tx w) (wi_unit w) of (ack, u) \<Rightarrow> (if ack then 0 else 3, w1\<lparr>wi_unit := u\<rparr>))
        | Lost \<Rightarrow> (2, w1)
        | Broken n \<Rightarrow> (4, w1\<lparr>wi_unit := snd (sl_write sl (take (n + 1) (wi_tx w)) (wi_unit w))\<rparr>)))"

definition wire_read :: "'u slave \<Rightarrow> u8 \<Rightarrow> nat \<Rightarrow> 'u wire \<Rightarrow> u8 \<times> 'u wire" where
  "wire_read sl a n w =
     (if a \<noteq> wi_addr w then (0, w\<lparr>wi_rx := []\<rparr>)
      else (let w1 = w\<lparr>wi_count := wi_count w + 1\<rparr> in
        case wi_fates w (wi_count w) of
          Delivered \<Rightarrow>
            (case sl_read sl n (wi_unit w) of (bs, u) \<Rightarrow>
               (of_nat (length bs), w1\<lparr>wi_unit := u, wi_rx := bs\<rparr>))
        | Lost \<Rightarrow> (0, w1\<lparr>wi_rx := []\<rparr>)
        | Broken k \<Rightarrow>
            (case sl_read sl (min k n) (wi_unit w) of (bs, u) \<Rightarrow>
               (of_nat (length bs), w1\<lparr>wi_unit := u, wi_rx := bs\<rparr>))))"

definition sim_bus :: "'u slave \<Rightarrow> 'u wire bus" where
  "sim_bus sl =
     \<lparr>b_begin = (\<lambda>a. State (\<lambda>w. ((), w\<lparr>wi_target := a, wi_tx := []\<rparr>))),
      b_write = (\<lambda>b. State (\<lambda>w. if length (wi_tx w) < wi_cap w
                   then (1, w\<lparr>wi_tx := wi_tx w @ [b]\<rparr>) else (0, w))),
      b_end = (\<lambda>stop. State (wire_write sl)),
      b_request = (\<lambda>a n. State (wire_read sl a (unat n))),
      b_read = State (\<lambda>w. case wi_rx w of [] \<Rightarrow> (-1, w) | b # bs \<Rightarrow> (uint b, w\<lparr>wi_rx := bs\<rparr>)),
      b_available = State (\<lambda>w. (int (length (wi_rx w)), w)),
      b_now = State (\<lambda>w. (of_nat (wi_ms w), w)),
      b_sleep = (\<lambda>ms. State (\<lambda>w. ((), w\<lparr>wi_ms := wi_ms w + unat ms,
                   wi_unit := sl_sleep sl (unat ms) (wi_unit w)\<rparr>))),
      b_readFailed = State_Monad.return (),
      b_endCounted = State (wire_write sl),
      b_noteReadError = State_Monad.return (),
      b_mark = (\<lambda>act a. State_Monad.return ())\<rparr>"

section \<open>Running the adapter's operations\<close>

named_theorems wire_run

lemma sim_bus_run [wire_run]:
  "run_state (b_begin (sim_bus sl) a) w = ((), w\<lparr>wi_target := a, wi_tx := []\<rparr>)"
  "run_state (b_write (sim_bus sl) b) w =
     (if length (wi_tx w) < wi_cap w then (1, w\<lparr>wi_tx := wi_tx w @ [b]\<rparr>) else (0, w))"
  "run_state (b_end (sim_bus sl) stop) w = wire_write sl w"
  "run_state (b_endCounted (sim_bus sl)) w = wire_write sl w"
  "run_state (b_request (sim_bus sl) a n) w = wire_read sl a (unat n) w"
  "run_state (b_read (sim_bus sl)) w =
     (case wi_rx w of [] \<Rightarrow> (-1, w) | b # bs \<Rightarrow> (uint b, w\<lparr>wi_rx := bs\<rparr>))"
  "run_state (b_available (sim_bus sl)) w = (int (length (wi_rx w)), w)"
  "run_state (b_now (sim_bus sl)) w = (of_nat (wi_ms w), w)"
  "run_state (b_sleep (sim_bus sl) ms) w =
     ((), w\<lparr>wi_ms := wi_ms w + unat ms, wi_unit := sl_sleep sl (unat ms) (wi_unit w)\<rparr>)"
  "b_readFailed (sim_bus sl) = State_Monad.return ()"
  "b_noteReadError (sim_bus sl) = State_Monad.return ()"
  "b_mark (sim_bus sl) act a = State_Monad.return ()"
  by (simp_all add: sim_bus_def)

lemma queue_bytes:
  "length (wi_tx w) + length bs \<le> wi_cap w \<Longrightarrow>
     run_state (each_state (\<lambda>b. do { b_write (sim_bus sl) b; State_Monad.return () }) bs) w =
     ((), w\<lparr>wi_tx := wi_tx w @ bs\<rparr>)"
  by (induction bs arbitrary: w) (simp_all add: wire_run)

lemma take_bytes:
  "wi_rx w = bs @ rest \<Longrightarrow>
     run_state (repeat_state (length bs) (read_byte (sim_bus sl))) w = (bs, w\<lparr>wi_rx := rest\<rparr>)"
  by (induction bs arbitrary: w) (simp_all add: wire_run read_byte_def)

text \<open>A framed write: the unit sees the frame, or a first part of it, or nothing.\<close>

definition sent :: "'u slave \<Rightarrow> bytes \<Rightarrow> 'u \<Rightarrow> 'u \<Rightarrow> bool" where
  "sent sl frame u u' \<longleftrightarrow> u' = u \<or> (\<exists>n. u' = snd (sl_write sl (take n frame) u))"

end
