(* ===== verification/Unit_Guards.thy ===== *)
theory Unit_Guards
  imports Unit_Replies
begin

text \<open>
  The rules a unit follows on its own: \<open>Unit/UnitBusSilence.h\<close> (what it does when its master
  stops addressing it), \<open>Unit/UnitTwiHeal.h\<close> (bus hardware that wedged or went deaf),
  \<open>Unit/UnitSupplyWait.h\<close> (moves held back on a low supply), \<open>Unit/UnitHomePolicy.h\<close> (retries
  of a failed home) and \<open>Unit/BootHomePolicy.h\<close> (the staggered first home). Times are
  \<open>millis()\<close> values: 32-bit words whose differences wrap.
\<close>

section \<open>Bus silence\<close>

abbreviation (input) BUS_SILENCE_AFTER_MS :: u32 where "BUS_SILENCE_AFTER_MS \<equiv> 180000"
abbreviation (input) BUS_SILENCE_RESTART_MS :: u32 where "BUS_SILENCE_RESTART_MS \<equiv> 1200000"
abbreviation (input) BUS_SILENCE_CONTACT_FRAMES :: u16 where "BUS_SILENCE_CONTACT_FRAMES \<equiv> 8"
abbreviation (input) BUS_SILENCE_REINIT_HEARD_MS :: u32 where "BUS_SILENCE_REINIT_HEARD_MS \<equiv> 5000"
abbreviation (input) BUS_SILENCE_TRAFFIC_OWN_MS :: u32 where "BUS_SILENCE_TRAFFIC_OWN_MS \<equiv> 1000"

abbreviation (input) BUS_SILENCE_DO_SAVE :: u8 where "BUS_SILENCE_DO_SAVE \<equiv> 0x01"
abbreviation (input) BUS_SILENCE_DO_REINIT :: u8 where "BUS_SILENCE_DO_REINIT \<equiv> 0x02"
abbreviation (input) BUS_SILENCE_DO_WATCH_TRAFFIC :: u8 where "BUS_SILENCE_DO_WATCH_TRAFFIC \<equiv> 0x04"
abbreviation (input) BUS_SILENCE_DO_RESTART :: u8 where "BUS_SILENCE_DO_RESTART \<equiv> 0x08"

abbreviation (input) BUS_RECORD_FLAG_TRAFFIC :: u8 where "BUS_RECORD_FLAG_TRAFFIC \<equiv> 0x01"
abbreviation (input) BUS_RECORD_FLAG_LINE_LOW :: u8 where "BUS_RECORD_FLAG_LINE_LOW \<equiv> 0x02"
abbreviation (input) BUS_RECORD_FLAG_ENDED :: u8 where "BUS_RECORD_FLAG_ENDED \<equiv> 0x04"
abbreviation (input) BUS_RECORD_FLAG_RESTARTED :: u8 where "BUS_RECORD_FLAG_RESTARTED \<equiv> 0x08"

record BusSilence =
  bs_lastFrames :: u16
  bs_contactFrames :: u16
  bs_heardMs :: u32
  bs_silent :: bool
  bs_savedMinutes :: u8
  bs_reinitMs :: u32
  bs_reinitOpen :: bool
  bs_restarted :: bool
  bs_trafficOpen :: bool
  bs_trafficMs :: u32

definition busSilenceMinutes :: "u32 \<Rightarrow> u8" where
  "busSilenceMinutes ms = (let minutes = ms div 60000 in if minutes > 0xFF then 0xFF else ucast minutes)"

definition busSilenceBump :: "u8 \<Rightarrow> u8" where
  "busSilenceBump counter = bump8 counter"

definition busSilenceNowMinutes :: "BusSilence \<Rightarrow> u32 \<Rightarrow> u8" where
  "busSilenceNowMinutes s nowMs =
     (if \<not> bs_silent s then 0
      else (let minutes = busSilenceMinutes (nowMs - bs_heardMs s)
            in if minutes = 0 then 1 else minutes))"

text \<open>
  One pass of \<open>loop()\<close>, in the stages of the code: each takes and returns the state, the record
  and the bits of \<open>todo\<close> collected so far.
\<close>

type_synonym silence_pass = "BusSilence \<times> UnitBusRecord \<times> u8"

definition silence_heard :: "BusSilence \<Rightarrow> UnitBusRecord \<Rightarrow> u16 \<Rightarrow> u32 \<Rightarrow> silence_pass" where
  "silence_heard s r frames nowMs =
     (let arrived = frames - bs_lastFrames s;
          contact = bs_contactFrames s + arrived;
          s1 = s\<lparr>bs_lastFrames := frames,
                 bs_contactFrames := (if contact > BUS_SILENCE_CONTACT_FRAMES
                                      then BUS_SILENCE_CONTACT_FRAMES else contact)\<rparr>;
          (r1, todo) =
            (if bs_silent s1
             then (let minutes = busSilenceMinutes (nowMs - bs_heardMs s1);
                       ra = r\<lparr>br_lastMinutes := (if minutes = 0 then 1 else minutes)\<rparr>;
                       rb = (if br_lastMinutes ra > br_longestMinutes ra
                             then ra\<lparr>br_longestMinutes := br_lastMinutes ra\<rparr> else ra);
                       rc = rb\<lparr>br_flags := br_flags rb OR BUS_RECORD_FLAG_ENDED\<rparr>;
                       rd = (if bs_reinitOpen s1 \<and> nowMs - bs_reinitMs s1 \<le> BUS_SILENCE_REINIT_HEARD_MS
                             then rc\<lparr>br_reinitsHeard := busSilenceBump (br_reinitsHeard rc)\<rparr> else rc)
                   in (rd, if bs_savedMinutes s1 \<noteq> 0 then BUS_SILENCE_DO_SAVE else 0))
             else (r, 0))
      in (s1\<lparr>bs_heardMs := nowMs, bs_silent := False, bs_reinitOpen := False,
             bs_restarted := False, bs_trafficOpen := False\<rparr>, r1, todo))"

definition silence_begin :: "bool \<Rightarrow> u32 \<Rightarrow> u32 \<Rightarrow> silence_pass \<Rightarrow> silence_pass" where
  "silence_begin lineLow quiet nowMs = (\<lambda>(s, r, todo).
     if bs_silent s then (s, r, todo)
     else (let r1 = r\<lparr>br_silences := busSilenceBump (br_silences r),
                      br_lastMinutes := busSilenceMinutes quiet\<rparr>;
               r2 = (if br_longestMinutes r1 < br_lastMinutes r1
                     then r1\<lparr>br_longestMinutes := br_lastMinutes r1\<rparr> else r1)
           in (s\<lparr>bs_silent := True, bs_savedMinutes := 0, bs_reinitOpen := False,
                 bs_restarted := False, bs_trafficOpen := False,
                 bs_reinitMs := nowMs - BUS_SILENCE_AFTER_MS\<rparr>,
               r2\<lparr>br_flags := (if lineLow then BUS_RECORD_FLAG_LINE_LOW else 0)\<rparr>,
               todo OR BUS_SILENCE_DO_WATCH_TRAFFIC)))"

definition silence_traffic :: "bool \<Rightarrow> u32 \<Rightarrow> silence_pass \<Rightarrow> silence_pass" where
  "silence_traffic traffic nowMs = (\<lambda>(s, r, todo).
     (let s1 = (if traffic \<and> \<not> bs_trafficOpen s \<and> br_flags r AND BUS_RECORD_FLAG_TRAFFIC = 0
                then s\<lparr>bs_trafficOpen := True, bs_trafficMs := nowMs\<rparr> else s)
      in if bs_trafficOpen s1 \<and> nowMs - bs_trafficMs s1 \<ge> BUS_SILENCE_TRAFFIC_OWN_MS
         then (s1\<lparr>bs_trafficOpen := False\<rparr>,
               r\<lparr>br_flags := br_flags r OR BUS_RECORD_FLAG_TRAFFIC\<rparr>, todo)
         else (s1, r, todo)))"

definition silence_reinit :: "bool \<Rightarrow> u32 \<Rightarrow> silence_pass \<Rightarrow> silence_pass" where
  "silence_reinit lineLow nowMs = (\<lambda>(s, r, todo).
     if \<not> lineLow \<and> nowMs - bs_reinitMs s \<ge> BUS_SILENCE_AFTER_MS
     then (s\<lparr>bs_reinitMs := nowMs, bs_reinitOpen := True\<rparr>,
           r\<lparr>br_reinits := busSilenceBump (br_reinits r)\<rparr>, todo OR BUS_SILENCE_DO_REINIT)
     else (s, r, todo))"

definition silence_mark :: "BusSilence \<Rightarrow> u8" where
  "silence_mark s =
     (if bs_savedMinutes s = 0 then busSilenceMinutes (2 * BUS_SILENCE_AFTER_MS)
      else if bs_savedMinutes s < 0x80 then bs_savedMinutes s * 2 else 0xFF)"

definition silence_save :: "u8 \<Rightarrow> silence_pass \<Rightarrow> silence_pass" where
  "silence_save minutes = (\<lambda>(s, r, todo).
     if minutes \<ge> silence_mark s \<and> minutes > bs_savedMinutes s
     then (s\<lparr>bs_savedMinutes := minutes\<rparr>,
           r\<lparr>br_lastMinutes := minutes,
             br_longestMinutes := (if minutes > br_longestMinutes r then minutes else br_longestMinutes r)\<rparr>,
           todo OR BUS_SILENCE_DO_SAVE)
     else (s, r, todo))"

definition silence_restart :: "bool \<Rightarrow> u32 \<Rightarrow> u8 \<Rightarrow> silence_pass \<Rightarrow> silence_pass" where
  "silence_restart restartAllowed quiet minutes = (\<lambda>(s, r, todo).
     if restartAllowed \<and> \<not> bs_restarted s \<and> quiet \<ge> BUS_SILENCE_RESTART_MS
     then (s\<lparr>bs_restarted := True, bs_savedMinutes := (if minutes = 0 then 1 else minutes)\<rparr>,
           r\<lparr>br_lastMinutes := minutes,
             br_longestMinutes := (if minutes > br_longestMinutes r then minutes else br_longestMinutes r),
             br_flags := br_flags r OR BUS_RECORD_FLAG_RESTARTED,
             br_selfRestarts := busSilenceBump (br_selfRestarts r)\<rparr>,
           todo OR (BUS_SILENCE_DO_SAVE OR BUS_SILENCE_DO_RESTART))
     else (s, r, todo))"

definition busSilenceTick ::
  "BusSilence \<Rightarrow> UnitBusRecord \<Rightarrow> u16 \<Rightarrow> bool \<Rightarrow> bool \<Rightarrow> bool \<Rightarrow> u32 \<Rightarrow> silence_pass" where
  "busSilenceTick s r frames lineLow traffic restartAllowed nowMs =
     (if frames \<noteq> bs_lastFrames s then silence_heard s r frames nowMs
      else if bs_contactFrames s < BUS_SILENCE_CONTACT_FRAMES
        then (s\<lparr>bs_heardMs := nowMs\<rparr>, r, 0)
      else (let quiet = nowMs - bs_heardMs s; minutes = busSilenceMinutes quiet in
        if \<not> bs_silent s \<and> quiet < BUS_SILENCE_AFTER_MS then (s, r, 0)
        else silence_restart restartAllowed quiet minutes
               (silence_save minutes
                 (silence_reinit lineLow nowMs
                   (silence_traffic traffic nowMs
                     (silence_begin lineLow quiet nowMs (s, r, 0)))))))"

section \<open>TWI heals\<close>

abbreviation (input) TWI_HEAL_HOLD_MS :: u32 where "TWI_HEAL_HOLD_MS \<equiv> 50"
abbreviation (input) TWI_HEAL_COOLDOWN_MS :: u32 where "TWI_HEAL_COOLDOWN_MS \<equiv> 1000"
abbreviation (input) TWI_DEAF_MAX_SAMPLE_GAP_MS :: u32 where "TWI_DEAF_MAX_SAMPLE_GAP_MS \<equiv> 10"

record TwiHealState =
  th_lowSeen :: bool
  th_lowSinceMs :: u32
  th_everReset :: bool
  th_lastResetMs :: u32
  th_selfResets :: u8

definition twiHealShouldReset :: "TwiHealState \<Rightarrow> bool \<Rightarrow> u32 \<Rightarrow> bool \<times> TwiHealState" where
  "twiHealShouldReset s lineHeld nowMs =
     (if \<not> lineHeld then (False, s\<lparr>th_lowSeen := False\<rparr>)
      else (let s1 = (if \<not> th_lowSeen s then s\<lparr>th_lowSeen := True, th_lowSinceMs := nowMs\<rparr> else s)
            in if nowMs - th_lowSinceMs s1 < TWI_HEAL_HOLD_MS then (False, s1)
               else (\<not> th_everReset s1 \<or> nowMs - th_lastResetMs s1 \<ge> TWI_HEAL_COOLDOWN_MS, s1)))"

definition twiHealNoteReset :: "TwiHealState \<Rightarrow> u32 \<Rightarrow> bool \<Rightarrow> TwiHealState" where
  "twiHealNoteReset s nowMs releasedByUs =
     s\<lparr>th_everReset := True, th_lastResetMs := nowMs,
       th_selfResets := (if releasedByUs then bump8 (th_selfResets s) else th_selfResets s)\<rparr>"

definition twiListenConfigIntact :: "u8 \<Rightarrow> u8 \<Rightarrow> u8 \<Rightarrow> bool" where
  "twiListenConfigIntact twcr twar address \<longleftrightarrow>
     twcr AND 0x45 = 0x45 \<and> twar = (push_bit 1 address OR 0x01)"

record TwiDeafState =
  td_badSeen :: bool
  td_badSinceMs :: u32
  td_lastSampleMs :: u32
  td_everReset :: bool
  td_lastResetMs :: u32
  td_resets :: u8

definition twiDeafShouldReset :: "TwiDeafState \<Rightarrow> bool \<Rightarrow> bool \<Rightarrow> u32 \<Rightarrow> bool \<times> TwiDeafState" where
  "twiDeafShouldReset s configIntact linesFree nowMs =
     (if configIntact then (False, s\<lparr>td_badSeen := False\<rparr>)
      else (let s1 = (if \<not> td_badSeen s \<or> nowMs - td_lastSampleMs s > TWI_DEAF_MAX_SAMPLE_GAP_MS
                      then s\<lparr>td_badSeen := True, td_badSinceMs := nowMs\<rparr> else s);
                s2 = s1\<lparr>td_lastSampleMs := nowMs\<rparr>
            in if nowMs - td_badSinceMs s2 < TWI_HEAL_HOLD_MS then (False, s2)
               else if \<not> linesFree then (False, s2)
               else (\<not> td_everReset s2 \<or> nowMs - td_lastResetMs s2 \<ge> TWI_HEAL_COOLDOWN_MS, s2)))"

definition twiDeafNoteReset :: "TwiDeafState \<Rightarrow> u32 \<Rightarrow> TwiDeafState" where
  "twiDeafNoteReset s nowMs =
     s\<lparr>td_everReset := True, td_lastResetMs := nowMs, td_badSeen := False,
       td_resets := bump8 (td_resets s)\<rparr>"

section \<open>Supply hold\<close>

abbreviation (input) SUPPLY_WAIT_DROP_MV :: u32 where "SUPPLY_WAIT_DROP_MV \<equiv> 300"
abbreviation (input) SUPPLY_WAIT_MAX_MS :: u32 where "SUPPLY_WAIT_MAX_MS \<equiv> 2000"

definition supplyIdleLevelFold :: "u16 \<Rightarrow> u16 \<Rightarrow> u16" where
  "supplyIdleLevelFold levelMv idleMv =
     (if idleMv = 0 then levelMv
      else if levelMv = 0 \<or> idleMv \<ge> levelMv then idleMv
      else (let step = (levelMv - idleMv) div 256 in levelMv - (if step = 0 then 1 else step)))"

record SupplyWait =
  sw_waiting :: bool
  sw_held :: bool
  sw_sinceMs :: u32

definition supplyReadsLow :: "u16 \<Rightarrow> u16 \<Rightarrow> bool" where
  "supplyReadsLow vccMv idleLevelMv \<longleftrightarrow>
     vccMv \<noteq> 0 \<and> idleLevelMv \<noteq> 0 \<and> (ucast vccMv :: u32) + SUPPLY_WAIT_DROP_MV < ucast idleLevelMv"

definition supplyWaitHold :: "SupplyWait \<Rightarrow> u16 \<Rightarrow> u16 \<Rightarrow> u32 \<Rightarrow> bool \<times> SupplyWait" where
  "supplyWaitHold s vccMv idleLevelMv nowMs =
     (if \<not> supplyReadsLow vccMv idleLevelMv then (False, s\<lparr>sw_waiting := False\<rparr>)
      else if \<not> sw_waiting s then (True, s\<lparr>sw_waiting := True, sw_held := True, sw_sinceMs := nowMs\<rparr>)
      else if nowMs - sw_sinceMs s \<ge> SUPPLY_WAIT_MAX_MS then (False, s\<lparr>sw_waiting := False\<rparr>)
      else (True, s))"

definition supplyWaitTakeHeld :: "SupplyWait \<Rightarrow> bool \<times> SupplyWait" where
  "supplyWaitTakeHeld s = (sw_held s, s\<lparr>sw_held := False\<rparr>)"

definition supplyWaitReset :: "SupplyWait \<Rightarrow> SupplyWait" where
  "supplyWaitReset s = s\<lparr>sw_waiting := False, sw_held := False\<rparr>"

section \<open>Home retries and the first home\<close>

abbreviation (input) HOME_RETRY_BASE_MS :: u32 where "HOME_RETRY_BASE_MS \<equiv> 30000"

record HomeBackoff =
  hb_consecutiveFails :: u8
  hb_lastFailEndMs :: u32

definition homeRetryWaitMs :: "u8 \<Rightarrow> u32" where
  "homeRetryWaitMs consecutiveFails =
     (if consecutiveFails = 0 then 0
      else (let shift = consecutiveFails - 1; shift1 = (if shift > 5 then 5 else shift)
            in push_bit (unat shift1) HOME_RETRY_BASE_MS))"

definition homeAttemptAllowed :: "HomeBackoff \<Rightarrow> u32 \<Rightarrow> bool" where
  "homeAttemptAllowed b nowMs =
     (if hb_consecutiveFails b = 0 then True
      else nowMs - hb_lastFailEndMs b \<ge> homeRetryWaitMs (hb_consecutiveFails b))"

definition homeRetryOwed :: "HomeBackoff \<Rightarrow> bool" where
  "homeRetryOwed b \<longleftrightarrow> hb_consecutiveFails b \<noteq> 0"

definition homeCommandAllowed :: "HomeBackoff \<Rightarrow> u32 \<Rightarrow> bool" where
  "homeCommandAllowed b nowMs =
     (if hb_consecutiveFails b = 0 then True else nowMs - hb_lastFailEndMs b \<ge> HOME_RETRY_BASE_MS)"

definition homeNoteResult :: "HomeBackoff \<Rightarrow> bool \<Rightarrow> u32 \<Rightarrow> HomeBackoff" where
  "homeNoteResult b found nowMs =
     (if found then b\<lparr>hb_consecutiveFails := 0\<rparr>
      else b\<lparr>hb_consecutiveFails := bump8 (hb_consecutiveFails b), hb_lastFailEndMs := nowMs\<rparr>)"

record BootHomeInputs =
  bi_homed :: bool
  bi_masterEverContacted :: bool
  bi_elapsedMs :: u32
  bi_dipIndex :: u8
  bi_jitterMs :: u16

definition bootHomeSelfHomeDeadline :: "u8 \<Rightarrow> u16 \<Rightarrow> u32" where
  "bootHomeSelfHomeDeadline dipIndex jitterMs = 30000 + ucast dipIndex * 600 + ucast jitterMs"

definition bootHomeShouldSelfHome :: "BootHomeInputs \<Rightarrow> bool" where
  "bootHomeShouldSelfHome i =
     (if bi_homed i then False
      else if bi_masterEverContacted i then bi_elapsedMs i \<ge> 120000
      else bi_elapsedMs i \<ge> bootHomeSelfHomeDeadline (bi_dipIndex i) (bi_jitterMs i))"

section \<open>What a silence costs\<close>

fun silence_run :: "(bool \<times> bool \<times> bool \<times> u32) list \<Rightarrow> BusSilence \<Rightarrow> UnitBusRecord \<Rightarrow> u8 list" where
  "silence_run [] s r = []"
| "silence_run ((lineLow, traffic, allowed, now) # xs) s r =
     (case busSilenceTick s r (bs_lastFrames s) lineLow traffic allowed now of
        (s', r', todo) \<Rightarrow> todo # silence_run xs s' r')"

text \<open>How many more saves a silence can cost: one per doubling up to the saturated length, and one
  for the restart.\<close>

definition save_rank :: "nat \<Rightarrow> nat" where
  "save_rank m = (if m = 0 then 7 else if m < 12 then 6 else if m < 24 then 5 else if m < 48 then 4
     else if m < 96 then 3 else if m < 192 then 2 else if m < 255 then 1 else 0)"

definition restart_credit :: "BusSilence \<Rightarrow> nat" where
  "restart_credit s = (if bs_silent s \<and> bs_restarted s then 0 else 1)"

definition save_credit :: "BusSilence \<Rightarrow> nat" where
  "save_credit s = (if bs_silent s then save_rank (unat (bs_savedMinutes s)) else 7) + restart_credit s"

definition silence_inv :: "u32 \<Rightarrow> BusSilence \<Rightarrow> bool" where
  "silence_inv now s \<longleftrightarrow> bs_heardMs s \<le> now \<and>
     (bs_silent s \<longrightarrow> 8 \<le> bs_contactFrames s \<and> bs_savedMinutes s \<le> busSilenceMinutes (now - bs_heardMs s) \<and>
        (bs_savedMinutes s = 0 \<or> 6 \<le> bs_savedMinutes s))"

lemma unat_busSilenceMinutes: "unat (busSilenceMinutes ms) = min 255 (unat ms div 60000)"
proof -
  have "unat (ucast (ms div 60000 :: u32) :: u8) = unat ms div 60000" if "unat ms div 60000 \<le> 255"
    using that by (simp add: unsigned_ucast_eq unat_div take_bit_nat_eq_self)
  then show ?thesis
    by (auto simp: busSilenceMinutes_def Let_def word_less_nat_alt unat_div)
qed

lemma busSilenceMinutes_mono: "a \<le> b \<Longrightarrow> busSilenceMinutes a \<le> busSilenceMinutes b"
  by (simp add: word_le_nat_alt unat_busSilenceMinutes div_le_mono min.coboundedI2)

lemma word_diff_mono: "h \<le> a \<Longrightarrow> a \<le> b \<Longrightarrow> a - h \<le> b - (h :: u32)"
proof -
  assume "h \<le> a" "a \<le> b"
  then have "unat (a - h) = unat a - unat h" "unat (b - h) = unat b - unat h"
    by (auto intro!: unat_sub)
  with \<open>a \<le> b\<close> show ?thesis by (simp add: word_le_nat_alt)
qed

lemma stage_fields [simp]:
  "bs_savedMinutes (fst (silence_traffic t now p)) = bs_savedMinutes (fst p)"
  "bs_restarted (fst (silence_traffic t now p)) = bs_restarted (fst p)"
  "bs_silent (fst (silence_traffic t now p)) = bs_silent (fst p)"
  "bs_heardMs (fst (silence_traffic t now p)) = bs_heardMs (fst p)"
  "bs_lastFrames (fst (silence_traffic t now p)) = bs_lastFrames (fst p)"
  "bs_contactFrames (fst (silence_traffic t now p)) = bs_contactFrames (fst p)"
  "bs_contactFrames (fst (silence_reinit l now p)) = bs_contactFrames (fst p)"
  "snd (snd (silence_traffic t now p)) = snd (snd p)"
  "bs_savedMinutes (fst (silence_reinit l now p)) = bs_savedMinutes (fst p)"
  "bs_restarted (fst (silence_reinit l now p)) = bs_restarted (fst p)"
  "bs_silent (fst (silence_reinit l now p)) = bs_silent (fst p)"
  "bs_heardMs (fst (silence_reinit l now p)) = bs_heardMs (fst p)"
  "bs_lastFrames (fst (silence_reinit l now p)) = bs_lastFrames (fst p)"
  by (cases p, simp add: silence_traffic_def silence_reinit_def Let_def)+

lemma word_bits_mono:
  "(a OR 0x02) AND 0x01 = a AND (0x01 :: u8)" "(a OR 0x02) AND 0x08 = a AND (0x08 :: u8)"
  "(a OR 0x04) AND 0x01 = a AND (0x01 :: u8)" "(a OR 0x04) AND 0x08 = a AND (0x08 :: u8)"
  "(a OR 0x01) AND 0x08 = a AND (0x08 :: u8)" "(a OR 0x01) AND 0x01 = (0x01 :: u8)"
  "(a OR 0x09) AND 0x08 = (0x08 :: u8)" "(a OR 0x09) AND 0x01 = (0x01 :: u8)"
  by (simp_all add: bit.conj_disj_distrib2)

lemma silence_reinit_bits:
  "snd (snd (silence_reinit l now p)) AND 0x01 = snd (snd p) AND 0x01"
  "snd (snd (silence_reinit l now p)) AND 0x08 = snd (snd p) AND 0x08"
  by (cases p, auto simp: silence_reinit_def word_bits_mono)+

lemma save_fields [simp]:
  "bs_silent (fst (silence_save m p)) = bs_silent (fst p)"
  "bs_heardMs (fst (silence_save m p)) = bs_heardMs (fst p)"
  by (cases p, simp add: silence_save_def)+

text \<open>Whether a pass asks for a save and a restart, against what it uses up.\<close>

definition within_credit :: "u32 \<Rightarrow> BusSilence \<Rightarrow> silence_pass \<Rightarrow> bool" where
  "within_credit now s p \<longleftrightarrow> silence_inv now (fst p) \<and> bs_lastFrames (fst p) = bs_lastFrames s \<and>
     save_credit (fst p) + (if snd (snd p) AND 0x01 \<noteq> 0 then 1 else 0) \<le> save_credit s \<and>
     restart_credit (fst p) + (if snd (snd p) AND 0x08 \<noteq> 0 then 1 else 0) \<le> restart_credit s"

lemma credit_begin:
  assumes "silence_inv old s" "old \<le> now"
  and "bs_silent s \<or> 8 \<le> bs_contactFrames s"
  shows "within_credit now s (silence_begin l (now - bs_heardMs s) now (s, r, 0))"
    and "bs_silent (fst (silence_begin l q now (s, r, 0)))"
    "bs_heardMs (fst (silence_begin l q now (s, r, 0))) = bs_heardMs s"
    "snd (snd (silence_begin l q now (s, r, 0))) AND 0x01 = 0"
proof -
  have h: "bs_heardMs s \<le> now" using assms by (auto simp: silence_inv_def)
  have "busSilenceMinutes (old - bs_heardMs s) \<le> busSilenceMinutes (now - bs_heardMs s)"
    using assms by (intro busSilenceMinutes_mono word_diff_mono) (auto simp: silence_inv_def)
  with h assms show "within_credit now s (silence_begin l (now - bs_heardMs s) now (s, r, 0))"
    by (auto simp: within_credit_def silence_begin_def silence_inv_def Let_def save_credit_def
        restart_credit_def save_rank_def word_bits_mono intro: order.trans)
qed (simp_all add: silence_begin_def Let_def)


lemma save_rank_drops:
  assumes "m = 0 \<or> 6 \<le> m" and "n > m" and "n \<le> 255"
    and "n \<ge> (if m = 0 then 6 else if m < 128 then 2 * m else 255)"
  shows "save_rank n < save_rank m"
  using assms by (auto simp: save_rank_def split: if_splits)

lemma save_rank_mono: "m \<le> n \<Longrightarrow> save_rank n \<le> save_rank m"
  by (auto simp: save_rank_def)

lemma unat_silence_mark:
  "unat (silence_mark s) =
     (let m = unat (bs_savedMinutes s) in if m = 0 then 6 else if m < 128 then 2 * m else 255)"
  by (auto simp: silence_mark_def Let_def busSilenceMinutes_def word_less_nat_alt unat_word_ariths
      unat_eq_zero)

lemma credit_save:
  assumes "within_credit now s p" and "bs_silent (fst p)" and "snd (snd p) AND 0x01 = 0"
    and "minutes = busSilenceMinutes (now - bs_heardMs (fst p))"
  shows "within_credit now s (silence_save minutes p)"
proof -
  obtain s1 r1 todo where p: "p = (s1, r1, todo)" by (cases p)
  show ?thesis
  proof (cases "minutes \<ge> silence_mark s1 \<and> minutes > bs_savedMinutes s1")
    case False
    then show ?thesis using assms(1) by (auto simp: p silence_save_def)
  next
    case True
    have m: "unat (bs_savedMinutes s1) = 0 \<or> 6 \<le> unat (bs_savedMinutes s1)"
      using assms(1,2) by (auto simp: within_credit_def silence_inv_def p word_le_nat_alt unat_eq_zero)
    have drop: "save_rank (unat minutes) < save_rank (unat (bs_savedMinutes s1))"
      using True m unat_silence_mark [of s1] unat_u8_less [of minutes]
      by (intro save_rank_drops) (auto simp: word_le_nat_alt word_less_nat_alt Let_def)
    have six: "6 \<le> minutes"
      using True m unat_silence_mark [of s1]
      by (auto simp: word_le_nat_alt word_less_nat_alt Let_def split: if_splits)
    show ?thesis
      using assms True drop six
      by (auto simp: within_credit_def silence_inv_def silence_save_def p save_credit_def
          restart_credit_def word_bits_mono)
  qed
qed

lemma credit_restart:
  assumes "within_credit now s p" and "bs_silent (fst p)"
    and "minutes = busSilenceMinutes (now - bs_heardMs (fst p))" and "q = now - bs_heardMs (fst p)"
  shows "within_credit now s (silence_restart allowed q minutes p)"
proof -
  obtain s1 r1 todo where p: "p = (s1, r1, todo)" by (cases p)
  show ?thesis
  proof (cases "allowed \<and> \<not> bs_restarted s1 \<and> q \<ge> 1200000")
    case False
    then show ?thesis using assms(1) by (auto simp: p silence_restart_def)
  next
    case True
    have "20 \<le> unat minutes"
      using True assms(3,4) div_le_mono [of 1200000 "unat q" 60000] by (simp add: unat_busSilenceMinutes word_le_nat_alt p)
    then have six: "6 \<le> minutes" "minutes \<noteq> 0"
      by (auto simp: word_le_nat_alt)
    have "bs_savedMinutes s1 \<le> minutes"
      using assms by (simp add: within_credit_def silence_inv_def p)
    then have "save_rank (unat minutes) \<le> save_rank (unat (bs_savedMinutes s1))"
      by (intro save_rank_mono) (simp add: word_le_nat_alt)
    then show ?thesis
      using assms True six
      by (auto simp: within_credit_def silence_inv_def silence_restart_def p save_credit_def
          restart_credit_def word_bits_mono split: if_splits)
  qed
qed

lemma credit_tick:
  assumes inv: "silence_inv old s" and le: "old \<le> now"
  shows "within_credit now s (busSilenceTick s r (bs_lastFrames s) l t a now)"
proof -
  have minv: "silence_inv now s"
  proof -
    have "busSilenceMinutes (old - bs_heardMs s) \<le> busSilenceMinutes (now - bs_heardMs s)"
      using assms by (intro busSilenceMinutes_mono word_diff_mono) (auto simp: silence_inv_def)
    then show ?thesis using assms by (auto simp: silence_inv_def)
  qed
  show ?thesis
  proof (cases "bs_contactFrames s < 8")
    case True
    then show ?thesis
      using minv inv by (auto simp: busSilenceTick_def within_credit_def silence_inv_def
          save_credit_def restart_credit_def)
  next
    case False
    note nocontact = this
    show ?thesis
    proof (cases "\<not> bs_silent s \<and> now - bs_heardMs s < 180000")
      case True
      with False minv show ?thesis
        by (simp add: busSilenceTick_def within_credit_def)
    next
      case False
      let ?q = "now - bs_heardMs s"
      let ?p0 = "silence_begin l ?q now (s, r, 0)"
      let ?p1 = "silence_reinit l now (silence_traffic t now ?p0)"
      have contact: "bs_silent s \<or> 8 \<le> bs_contactFrames s"
        using nocontact by auto
      note b = credit_begin(1) [OF inv le contact, where l = l and r = r]
        credit_begin(2-4) [OF inv le contact, where l = l and q = ?q and r = r]
      have p1: "within_credit now s ?p1"
        using b by (simp add: within_credit_def silence_inv_def save_credit_def restart_credit_def
            silence_reinit_bits)
      have "within_credit now s (silence_save (busSilenceMinutes ?q) ?p1)"
        using b by (intro credit_save [OF p1]) (simp_all add: silence_reinit_bits)
      then have "within_credit now s
          (silence_restart a ?q (busSilenceMinutes ?q) (silence_save (busSilenceMinutes ?q) ?p1))"
        using b by (intro credit_restart) (simp_all)
      then show ?thesis
        using False nocontact by (auto simp: busSilenceTick_def Let_def)
    qed
  qed
qed

definition asks :: "u8 \<Rightarrow> u8 list \<Rightarrow> nat" where
  "asks b todos = length (filter (\<lambda>todo. todo AND b \<noteq> 0) todos)"

lemma asks_Cons: "asks b (t # ts) = (if t AND b \<noteq> 0 then 1 else 0) + asks b ts"
  by (simp add: asks_def)

lemma silence_run_within_credit:
  assumes "silence_inv old s" and "sorted (old # map (\<lambda>(l, t, a, now). now) xs)"
  shows "asks 0x01 (silence_run xs s r) \<le> save_credit s \<and> asks 0x08 (silence_run xs s r) \<le> restart_credit s"
  using assms
proof (induction xs arbitrary: s r old)
  case (Cons x xs)
  obtain l t a now where x: "x = (l, t, a, now)" by (cases x)
  obtain s' r' todo where tick: "busSilenceTick s r (bs_lastFrames s) l t a now = (s', r', todo)"
    by (cases "busSilenceTick s r (bs_lastFrames s) l t a now")
  have w: "within_credit now s (s', r', todo)"
    using credit_tick [OF Cons.prems(1), of now r l t a] Cons.prems(2) by (simp add: x tick)
  then have "silence_inv now s'" by (simp add: within_credit_def)
  with Cons.IH [of now s' r'] Cons.prems(2)
  have "asks 0x01 (silence_run xs s' r') \<le> save_credit s'" 
    "asks 0x08 (silence_run xs s' r') \<le> restart_credit s'"
    by (simp_all add: x)
  with w show ?case
    by (auto simp: x tick asks_Cons within_credit_def)
qed (simp add: asks_def)

text \<open>A silence costs a bounded number of EEPROM writes and at most one restart, however long
  it lasts. In any run of \<open>loop()\<close> passes that begins in contact and in which no frame arrives,
  the record is asked to be written at most eight times and the unit to restart itself at most
  once, whatever the lines and the gate do, as long as \<open>millis()\<close> does not wrap in it.\<close>

lemma silence_costs_bounded:
  assumes "\<not> bs_silent s" and "bs_heardMs s \<le> start"
    and "sorted (start # map (\<lambda>(lineLow, traffic, allowed, now). now) passes)"
  shows "asks BUS_SILENCE_DO_SAVE (silence_run passes s r) \<le> 8 \<and>
    asks BUS_SILENCE_DO_RESTART (silence_run passes s r) \<le> 1"
  using silence_run_within_credit [of start s passes r] assms
  by (simp add: silence_inv_def save_credit_def restart_credit_def)

lemma silence_costs_bounded_witness:
  "asks BUS_SILENCE_DO_RESTART (silence_run
     [(False, False, True, 200000), (False, False, True, 1300000), (False, False, True, 2600000)]
     \<lparr>bs_lastFrames = 9, bs_contactFrames = 8, bs_heardMs = 0, bs_silent = False, bs_savedMinutes = 0,
       bs_reinitMs = 0, bs_reinitOpen = False, bs_restarted = False, bs_trafficOpen = False,
       bs_trafficMs = 0\<rparr>
     \<lparr>br_silences = 0, br_lastMinutes = 0, br_longestMinutes = 0, br_reinits = 0, br_reinitsHeard = 0,
       br_selfRestarts = 0, br_flags = 0\<rparr>) \<le> 1"
  by (rule conjunct2 [OF silence_costs_bounded [where start = 0]]) simp_all

section \<open>What the heals and holds guarantee\<close>

text \<open>\<open>twiHealTick()\<close> over a run of samples: whether a line reads low, whether our release would free
  it, and the time. The result lists the times of the resets.\<close>

fun heal_run :: "(bool \<times> bool \<times> u32) list \<Rightarrow> TwiHealState \<Rightarrow> u32 list" where
  "heal_run [] s = []"
| "heal_run ((held, released, now) # xs) s =
     (case twiHealShouldReset s held now of
        (False, s') \<Rightarrow> heal_run xs s'
      | (True, s') \<Rightarrow> now # heal_run xs (twiHealNoteReset s' now released))"

lemma should_reset_ever:
  "twiHealShouldReset s held now = (b, s') \<Longrightarrow>
     th_everReset s' = th_everReset s \<and> th_lastResetMs s' = th_lastResetMs s \<and>
     (b \<longrightarrow> held \<and> (th_everReset s \<longrightarrow> now - th_lastResetMs s \<ge> 1000))"
  by (auto simp: twiHealShouldReset_def Let_def split: if_splits)

lemma heal_run_cooldown:
  "successively (\<lambda>a b. b - a \<ge> 1000) (heal_run xs s) \<and>
   (th_everReset s \<longrightarrow> heal_run xs s \<noteq> [] \<longrightarrow> hd (heal_run xs s) - th_lastResetMs s \<ge> 1000)"
proof (induction xs arbitrary: s)
  case (Cons x xs)
  obtain held released now where x: "x = (held, released, now)" by (cases x)
  obtain b s' where r: "twiHealShouldReset s held now = (b, s')" by fastforce
  note e = should_reset_ever [OF r]
  show ?case
  proof (cases b)
    case False
    with Cons.IH [of s'] e show ?thesis by (simp add: x r)
  next
    case True
    let ?s = "twiHealNoteReset s' now released"
    have "heal_run (x # xs) s = now # heal_run xs ?s"
      using True by (simp add: x r)
    moreover have "th_everReset ?s" "th_lastResetMs ?s = now"
      by (simp_all add: twiHealNoteReset_def)
    ultimately show ?thesis
      using Cons.IH [of ?s] e True by (auto simp: successively_Cons)
  qed
qed simp

text \<open>A unit whose bus hardware keeps wedging resets it at most once a second: any two
  successive resets are at least the cooldown apart, whatever the lines do and across a wrap of
  the clock, so a line held by another unit cannot drive a unit into resetting in a loop.\<close>

lemma twi_heal_cooldown:
  "successively (\<lambda>t1 t2. t2 - t1 \<ge> TWI_HEAL_COOLDOWN_MS) (heal_run samples s)"
  using heal_run_cooldown by blast

text \<open>The answers of the supply hold over successive attempts to start one move.\<close>

fun hold_run :: "(u16 \<times> u16 \<times> u32) list \<Rightarrow> SupplyWait \<Rightarrow> bool list" where
  "hold_run [] s = []"
| "hold_run ((vcc, idle, now) # xs) s =
     (case supplyWaitHold s vcc idle now of (h, s') \<Rightarrow> h # hold_run xs s')"

lemma hold_run_since:
  "sw_waiting s \<Longrightarrow> list_all (\<lambda>h. h) (hold_run xs s) \<Longrightarrow>
     list_all (\<lambda>(_, _, now). now - sw_sinceMs s < 2000) xs"
proof (induction xs arbitrary: s)
  case (Cons x xs)
  obtain vcc idle now where x: "x = (vcc, idle, now)" by (cases x)
  with Cons.prems have "supplyWaitHold s vcc idle now = (True, s)" "now - sw_sinceMs s < 2000"
    by (auto simp: supplyWaitHold_def not_le split: if_splits prod.splits)
  with Cons x show ?case by simp
qed simp

text \<open>A low supply never parks the wall: while one move is being held back, every attempt that
  is still answered with hold lies within two seconds of the first one, however low the rail reads.\<close>

lemma supply_hold_bounded:
  assumes "\<not> sw_waiting s" and "list_all (\<lambda>held. held) (hold_run ((vcc, idle, t) # attempts) s)"
  shows "list_all (\<lambda>(_, _, now). now - t < SUPPLY_WAIT_MAX_MS) attempts"
proof -
  have h: "supplyWaitHold s vcc idle t =
      (True, s\<lparr>sw_waiting := True, sw_held := True, sw_sinceMs := t\<rparr>)"
    using assms by (auto simp: supplyWaitHold_def split: if_splits prod.splits)
  with assms(2) hold_run_since [of "s\<lparr>sw_waiting := True, sw_held := True, sw_sinceMs := t\<rparr>" attempts]
  show ?thesis by simp
qed

lemma supply_hold_bounded_witness:
  "list_all (\<lambda>(_ :: u16, _ :: u16, now). now - 0xFFFFFF00 < (2000 :: u32)) [(4500, 5000, 100), (4600, 5000, 1000)]"
  by (rule supply_hold_bounded [where s = "\<lparr>sw_waiting = False, sw_held = False, sw_sinceMs = 0\<rparr>"
        and vcc = 4400 and idle = 5000])
    (simp_all add: supplyWaitHold_def supplyReadsLow_def)

lemma home_wait_values:
  "0 < n \<Longrightarrow> 30000 \<le> homeRetryWaitMs n \<and> homeRetryWaitMs n \<le> 960000"
proof -
  assume "0 < n"
  define k where "k = unat (if n - 1 > 5 then 5 else n - 1)"
  have "k \<le> 5" by (auto simp: k_def word_less_nat_alt not_less)
  then have "k \<in> {0, 1, 2, 3, 4, 5}" by auto
  moreover have "homeRetryWaitMs n = push_bit k 30000"
    using \<open>0 < n\<close> by (auto simp: homeRetryWaitMs_def k_def Let_def)
  ultimately show ?thesis by auto
qed

text \<open>A unit whose home keeps failing drives its motor at a bounded rate and is never stranded:
  after any failure an automatic retry waits between 30 seconds and 16 minutes, a HOME command is
  accepted no later than an automatic retry would be, and one success clears the debt.\<close>

lemma home_backoff_bounded:
  "let b' = homeNoteResult b False end_ms in
     homeRetryOwed b' \<and>
     (now - end_ms < 30000 \<longrightarrow> \<not> homeCommandAllowed b' now \<and> \<not> homeAttemptAllowed b' now) \<and>
     (homeAttemptAllowed b' now \<longrightarrow> homeCommandAllowed b' now) \<and>
     (now - end_ms \<ge> 960000 \<longrightarrow> homeAttemptAllowed b' now) \<and>
     homeAttemptAllowed (homeNoteResult b' True end_ms') now \<and> \<not> homeRetryOwed (homeNoteResult b' True end_ms')"
proof -
  have "0 < unat (bump8 (hb_consecutiveFails b))" by (simp add: unat_bump8)
  then have n: "0 < bump8 (hb_consecutiveFails b)" by (simp add: word_less_nat_alt)
  from home_wait_values [OF n] n show ?thesis
    by (auto simp: Let_def homeNoteResult_def homeRetryOwed_def homeCommandAllowed_def
        homeAttemptAllowed_def)
qed

lemma home_backoff_bounded_witness:
  "homeAttemptAllowed (homeNoteResult \<lparr>hb_consecutiveFails = 9, hb_lastFailEndMs = 5\<rparr> False 1000) 961000"
  using home_backoff_bounded [of "\<lparr>hb_consecutiveFails = 9, hb_lastFailEndMs = 5\<rparr>" 1000 961000 0]
  by (simp add: Let_def)

text \<open>On one supply rail no two units that home by themselves start within 350 ms of each
  other: the deadlines of two different switch positions differ by at least that, whatever jitter
  each drew.\<close>

lemma self_home_staggered:
  assumes "i < j" and "ji \<le> 250" and "jj \<le> 250"
  shows "bootHomeSelfHomeDeadline i ji + 350 \<le> bootHomeSelfHomeDeadline j jj"
proof -
  have u: "unat (bootHomeSelfHomeDeadline d w) = 30000 + unat d * 600 + unat w" for d w
  proof -
    have "unat d < 256" "unat w < 65536"
      using unat_u8_less unsigned_less [of w, where 'a = nat] by simp_all
    then show ?thesis
      by (simp add: bootHomeSelfHomeDeadline_def unat_word_ariths unsigned_ucast_eq take_bit_nat_eq_self)
  qed
  have "unat (bootHomeSelfHomeDeadline i ji + 350) = 30000 + unat i * 600 + unat ji + 350"
    using unat_u8_less [of i] assms(2) by (simp add: unat_word_ariths(1) u word_le_nat_alt)
  moreover have "unat i + 1 \<le> unat j" "unat ji \<le> 250"
    using assms by (simp_all add: word_less_nat_alt word_le_nat_alt)
  ultimately show ?thesis
    by (simp add: word_le_nat_alt u)
qed

lemma self_home_staggered_witness:
  "bootHomeSelfHomeDeadline 3 250 + 350 \<le> bootHomeSelfHomeDeadline 4 0"
  by (rule self_home_staggered) simp_all

end
