(* ===== verification/Unit_Protocol.thy ===== *)
theory Unit_Protocol
  imports Unit_Eeprom Unit_Guards Unit_Facts
begin

text \<open>
  The unit's side of the two-wire protocol: the receive and request handlers of
  \<open>Unit/UnitI2CProtocol.ino\<close>, which run in the interrupt and leave mutations pending, and the parts
  of \<open>loop()\<close> in \<open>Unit/Unit.ino\<close> that carry the pending writes out. The globals the handlers touch are
  one record; a buffer another part of the sketch encodes is a field of it. The idle hall check of
  \<open>Unit/UnitIdleHall.h\<close>, whose state the lifetime reply reports, is here too.
\<close>

section \<open>The idle hall check\<close>

abbreviation (input) IDLE_HALL_EXPECT_UNKNOWN :: u8 where "IDLE_HALL_EXPECT_UNKNOWN \<equiv> 0"
abbreviation (input) IDLE_HALL_EXPECT_LOW :: u8 where "IDLE_HALL_EXPECT_LOW \<equiv> 1"
abbreviation (input) IDLE_HALL_EXPECT_HIGH :: u8 where "IDLE_HALL_EXPECT_HIGH \<equiv> 2"

record IdleHallWindow =
  iw_steps :: u16
  iw_margin :: u16

definition idleHallResolveWindow :: "u16 \<Rightarrow> IdleHallWindow" where
  "idleHallResolveWindow measuredSteps =
     (if measuredSteps < 23 \<or> measuredSteps > 127 then \<lparr>iw_steps = 46, iw_margin = 24\<rparr>
      else \<lparr>iw_steps = measuredSteps, iw_margin = 12\<rparr>)"

definition idleHallStandDown :: "u8 \<Rightarrow> bool" where
  "idleHallStandDown futileRehomes \<longleftrightarrow> futileRehomes \<ge> 3"

definition idleHallExpectation :: "u16 \<Rightarrow> IdleHallWindow \<Rightarrow> u16 \<Rightarrow> u8" where
  "idleHallExpectation position w stepsPerRev =
     (if position \<ge> stepsPerRev then IDLE_HALL_EXPECT_UNKNOWN
      else if iw_steps w > iw_margin w \<and> position \<ge> iw_margin w \<and>
              uint position + uint (iw_margin w) < uint (iw_steps w) then IDLE_HALL_EXPECT_LOW
      else if position \<ge> iw_steps w + iw_margin w \<and>
              uint position + uint (iw_margin w) < uint stepsPerRev then IDLE_HALL_EXPECT_HIGH
      else IDLE_HALL_EXPECT_UNKNOWN)"

record IdleHallCheck =
  ih_streak :: u8
  ih_expectation :: u8

definition idleHallReset :: "IdleHallCheck \<Rightarrow> IdleHallCheck" where
  "idleHallReset s = s\<lparr>ih_streak := 0, ih_expectation := IDLE_HALL_EXPECT_UNKNOWN\<rparr>"

definition idleHallObserve :: "IdleHallCheck \<Rightarrow> u8 \<Rightarrow> bool \<Rightarrow> bool \<times> IdleHallCheck" where
  "idleHallObserve s expectation hallLow =
     (let contradicted = (expectation = IDLE_HALL_EXPECT_LOW \<and> \<not> hallLow \<or>
                          expectation = IDLE_HALL_EXPECT_HIGH \<and> hallLow)
      in if \<not> contradicted then (False, idleHallReset s)
         else (let s1 = (if ih_expectation s \<noteq> expectation
                         then s\<lparr>ih_expectation := expectation, ih_streak := 0\<rparr> else s);
                   s2 = s1\<lparr>ih_streak := ih_streak s1 + 1\<rparr>
               in if ih_streak s2 < 6 then (False, s2) else (True, idleHallReset s2)))"

section \<open>The globals the handlers share with the loop\<close>

datatype UnitReply =
  REPLY_NONE | REPLY_VERSION | REPLY_OFFSET | REPLY_STATUS | REPLY_LETTER | REPLY_ODOMETER |
  REPLY_DIAG | REPLY_SELF_TEST | REPLY_VITALS | REPLY_EXT_DIAG | REPLY_LIFETIME | REPLY_BOOT_INFO |
  REPLY_BUS_RECORD

record sketch =
  sk_pendingReply :: UnitReply
  sk_linkRxFrames :: u16
  sk_linkTxReplies :: u16
  sk_masterEverContacted :: bool
  sk_badCommandCount :: u8
  sk_receivedNumber :: int
  sk_stepperSpeed :: int
  sk_pendingBootloader :: bool
  sk_pendingSelfTest :: bool
  sk_pendingOffsetWrite :: bool
  sk_pendingOffsetValue :: i16
  sk_pendingJogSteps :: i8
  sk_pendingHome :: bool
  sk_pendingSetAddress :: bool
  sk_pendingAddressValue :: u8
  sk_pendingClearAddress :: bool
  sk_pendingIdentify :: bool
  sk_pendingOdometerReset :: bool
  sk_pendingGatesWrite :: bool
  sk_pendingGatesValue :: u8
  sk_pendingBootUpdate :: bool
  sk_pendingBootUpdateStage :: u8
  sk_lifetime :: UnitLifetimeHealth
  sk_idleHall :: IdleHallCheck
  sk_idleHallFutileRehomes :: u8
  sk_calOffset :: i16
  sk_displayedLetter :: int
  sk_homed :: bool
  sk_odometerRevolutions :: u32
  sk_currentlyrotating :: bool
  sk_statusLastHomeFailed :: bool
  sk_statusHallNeverTriggered :: bool
  sk_addressFromEeprom :: bool
  sk_resetStatusByte :: u8
  sk_lifetimeBrownoutCount :: u8
  sk_lifetimeWatchdogCount :: u8
  sk_lastHomingStepCount :: u16
  sk_uptimeSeconds :: u16
  sk_uptimeSecondsFull :: u32
  sk_uptimeLastTickMs :: u32
  sk_gitRev :: bytes
  sk_diagReplyBuf :: bytes
  sk_selfTestReplyBuf :: bytes
  sk_vitalsReplyBuf :: bytes
  sk_extDiagReplyBuf :: bytes
  sk_lifetimeReplyBuf :: bytes
  sk_bootInfoReplyBuf :: bytes
  sk_busRecordReplyBuf :: bytes
  sk_twiHeal :: TwiHealState
  sk_twiDeaf :: TwiDeafState
  sk_busSilence :: BusSilence
  sk_busRecord :: UnitBusRecord
  sk_busTrafficSeen :: bool
  sk_trafficWatch :: bool
  sk_twcr :: u8
  sk_twar :: u8
  sk_i2cAddress :: u8
  sk_identifyStartMs :: u32
  sk_eeprom :: eeprom

section \<open>Receiving\<close>

definition bad_command :: "sketch \<Rightarrow> sketch" where
  "bad_command st = st\<lparr>sk_badCommandCount := bump8 (sk_badCommandCount st)\<rparr>"

text \<open>What the dispatch of an opcode does with the bytes after it; for an argument-less mutation the
  guard byte has been taken and checked before.\<close>

definition dispatch_set_offset :: "bytes \<Rightarrow> sketch \<Rightarrow> sketch" where
  "dispatch_set_offset args st =
     (if length args \<ge> 4
      then (case setOffsetDecode (take 4 args) 4 of
              None \<Rightarrow> bad_command st
            | Some v \<Rightarrow>
                if -2038 \<le> sint v \<and> sint v \<le> 2038
                then st\<lparr>sk_pendingOffsetValue := v, sk_pendingOffsetWrite := True\<rparr>
                else bad_command st)
      else bad_command st)"

definition dispatch_jog :: "bool \<Rightarrow> bytes \<Rightarrow> sketch \<Rightarrow> sketch" where
  "dispatch_jog strict args st =
     (let extraLen = (if length args > 0xFF then 0xFF else length args);
          pay = take 2 (args @ [0, 0])
      in case jogDecode pay extraLen strict of
           Some steps \<Rightarrow> st\<lparr>sk_pendingJogSteps := steps\<rparr>
         | None \<Rightarrow> bad_command st)"

definition dispatch_set_address :: "bytes \<Rightarrow> sketch \<Rightarrow> sketch" where
  "dispatch_set_address args st =
     (if length args \<ge> 2
      then (case setAddressDecode (take 2 args) 2 of
              Some v \<Rightarrow> st\<lparr>sk_pendingAddressValue := v, sk_pendingSetAddress := True\<rparr>
            | None \<Rightarrow> bad_command st)
      else bad_command st)"

definition dispatch_set_gates :: "bytes \<Rightarrow> sketch \<Rightarrow> sketch" where
  "dispatch_set_gates args st =
     (if length args \<ge> 2
      then (case setGatesDecode (take 2 args) 2 of
              Some v \<Rightarrow> if unitGateBitsKnown v
                then st\<lparr>sk_pendingGatesValue := v, sk_pendingGatesWrite := True\<rparr>
                else bad_command st
            | None \<Rightarrow> bad_command st)
      else bad_command st)"

definition dispatch_boot_update :: "bytes \<Rightarrow> sketch \<Rightarrow> sketch" where
  "dispatch_boot_update args st =
     (if length args \<ge> 2
      then (let stage = args ! 0; comp = args ! 1
            in if stage XOR comp = 0xFF \<and> (stage = 1 \<or> stage = 2)
               then st\<lparr>sk_pendingBootUpdateStage := stage, sk_pendingBootUpdate := True\<rparr>
               else bad_command st)
      else bad_command st)"

definition dispatch :: "u8 \<Rightarrow> bool \<Rightarrow> bytes \<Rightarrow> sketch \<Rightarrow> sketch" where
  "dispatch opcode strict args st =
     (if opcode = SFP_CMD_ENTER_BOOTLOADER \<or> opcode = SFP_CMD_REBOOT then st\<lparr>sk_pendingBootloader := True\<rparr>
      else if opcode = SFP_CMD_GET_VERSION then st\<lparr>sk_pendingReply := REPLY_VERSION\<rparr>
      else if opcode = SFP_CMD_GET_OFFSET then st\<lparr>sk_pendingReply := REPLY_OFFSET\<rparr>
      else if opcode = SFP_CMD_GET_STATUS then st\<lparr>sk_pendingReply := REPLY_STATUS\<rparr>
      else if opcode = SFP_CMD_GET_LETTER then st\<lparr>sk_pendingReply := REPLY_LETTER\<rparr>
      else if opcode = SFP_CMD_GET_ODOMETER then st\<lparr>sk_pendingReply := REPLY_ODOMETER\<rparr>
      else if opcode = SFP_CMD_GET_DIAG then st\<lparr>sk_pendingReply := REPLY_DIAG\<rparr>
      else if opcode = SFP_CMD_GET_SELF_TEST then st\<lparr>sk_pendingReply := REPLY_SELF_TEST\<rparr>
      else if opcode = SFP_CMD_GET_VITALS then st\<lparr>sk_pendingReply := REPLY_VITALS\<rparr>
      else if opcode = SFP_CMD_GET_EXT_DIAG then st\<lparr>sk_pendingReply := REPLY_EXT_DIAG\<rparr>
      else if opcode = SFP_CMD_GET_LIFETIME then st\<lparr>sk_pendingReply := REPLY_LIFETIME\<rparr>
      else if opcode = SFP_CMD_GET_BOOT_INFO then st\<lparr>sk_pendingReply := REPLY_BOOT_INFO\<rparr>
      else if opcode = SFP_CMD_GET_BUS_RECORD then st\<lparr>sk_pendingReply := REPLY_BUS_RECORD\<rparr>
      else if opcode = SFP_CMD_START_SELF_TEST then st\<lparr>sk_pendingSelfTest := True\<rparr>
      else if opcode = SFP_CMD_SET_OFFSET then dispatch_set_offset args st
      else if opcode = SFP_CMD_JOG then dispatch_jog strict args st
      else if opcode = SFP_CMD_HOME then st\<lparr>sk_pendingHome := True\<rparr>
      else if opcode = SFP_CMD_SET_I2C_ADDRESS then dispatch_set_address args st
      else if opcode = SFP_CMD_CLEAR_I2C_ADDRESS then st\<lparr>sk_pendingClearAddress := True\<rparr>
      else if opcode = SFP_CMD_IDENTIFY then st\<lparr>sk_pendingIdentify := True\<rparr>
      else if opcode = SFP_CMD_RESET_ODOMETER then st\<lparr>sk_pendingOdometerReset := True\<rparr>
      else if opcode = SFP_CMD_SET_GATES then dispatch_set_gates args st
      else if opcode = SFP_CMD_BOOT_UPDATE then dispatch_boot_update args st
      else bad_command st)"

definition receive_opcode :: "u8 \<Rightarrow> bytes \<Rightarrow> sketch \<Rightarrow> sketch" where
  "receive_opcode opcode args st =
     (let strict = unitGateEnabled (lh_featureGates (sk_lifetime st)) 0x04
      in if sfpIsNoArgMutation opcode
         then (let extraLen = (if length args > 0xFF then 0xFF else length args);
                   guard = (case args of [] \<Rightarrow> 0 | g # _ \<Rightarrow> g)
               in if \<not> noArgMutationAccepted opcode extraLen guard strict then bad_command st
                  else dispatch opcode strict (drop 1 args) st)
         else dispatch opcode strict args st)"

definition receiveLetter :: "bytes \<Rightarrow> sketch \<Rightarrow> sketch" where
  "receiveLetter frame st0 =
     (let st = st0\<lparr>sk_pendingReply := REPLY_NONE, sk_linkRxFrames := sk_linkRxFrames st0 + 1\<rparr>
      in case frame of
           [] \<Rightarrow> st
         | firstByte # rest \<Rightarrow>
             (let st1 = st\<lparr>sk_masterEverContacted := True\<rparr>
              in if uint firstByte \<ge> SFP_FLAP_AMOUNT then receive_opcode firstByte rest st1
                 else if length frame \<noteq> 2
                 then (if length frame > 2 then bad_command st1 else st1)
                 else st1\<lparr>sk_receivedNumber := uint firstByte,
                          sk_stepperSpeed := unitClampSpeed (uint (rest ! 0))\<rparr>))"

section \<open>Answering\<close>

definition status_payload :: "sketch \<Rightarrow> bytes" where
  "status_payload st =
     (let flags = (if sk_currentlyrotating st then 0x01 else 0) OR
                  (if sk_statusLastHomeFailed st then 0x02 else 0) OR
                  (if sk_statusHallNeverTriggered st then 0x04 else 0) OR
                  (if sk_addressFromEeprom st then 0x10 else 0) OR
                  (if sk_homed st then 0x20 else 0);
          scaled16 = drop_bit 4 (sk_lastHomingStepCount st);
          scaled = (if scaled16 > 0xFF then 0xFF else ucast scaled16)
      in [flags, sk_resetStatusByte st, sk_lifetimeBrownoutCount st, sk_lifetimeWatchdogCount st,
          byte_of 1 (sk_uptimeSeconds st), byte_of 0 (sk_uptimeSeconds st),
          sk_badCommandCount st, scaled])"

definition requestEvent :: "sketch \<Rightarrow> bytes \<times> sketch" where
  "requestEvent st0 =
     (let reply = sk_pendingReply st0;
          st = st0\<lparr>sk_pendingReply := REPLY_NONE, sk_linkTxReplies := sk_linkTxReplies st0 + 1\<rparr>;
          out = (case reply of
              REPLY_VERSION \<Rightarrow> versionEncodeReply (Some (sk_gitRev st)) SFP_PROTOCOL_VERSION
            | REPLY_OFFSET \<Rightarrow> offsetEncodeReply (sk_calOffset st)
            | REPLY_LETTER \<Rightarrow>
                (let letter = letterReplyIndex (word_of_int (sk_displayedLetter st)) (sk_homed st)
                 in [letter, NOT letter])
            | REPLY_ODOMETER \<Rightarrow> odometerEncodeReply (sk_odometerRevolutions st)
            | REPLY_DIAG \<Rightarrow> sk_diagReplyBuf st
            | REPLY_SELF_TEST \<Rightarrow> sk_selfTestReplyBuf st
            | REPLY_VITALS \<Rightarrow> sk_vitalsReplyBuf st
            | REPLY_EXT_DIAG \<Rightarrow> sk_extDiagReplyBuf st @
                extDiagLinkEncode \<lparr>ls_uptimeSeconds = sk_uptimeSecondsFull st,
                  ls_rxFrames = sk_linkRxFrames st, ls_txReplies = sk_linkTxReplies st,
                  ls_deafHeals = td_resets (sk_twiDeaf st)\<rparr>
            | REPLY_LIFETIME \<Rightarrow> sk_lifetimeReplyBuf st
            | REPLY_BOOT_INFO \<Rightarrow> sk_bootInfoReplyBuf st
            | REPLY_BUS_RECORD \<Rightarrow> sk_busRecordReplyBuf st
            | REPLY_STATUS \<Rightarrow> statusEncodeReply (status_payload st)
            | REPLY_NONE \<Rightarrow> [if sk_currentlyrotating st then 1 else 0])
      in (out, st))"

section \<open>What the loop does with the pending writes\<close>

definition lifetime_facts :: "sketch \<Rightarrow> UnitLifetimeFacts" where
  "lifetime_facts st =
     (let lt = sk_lifetime st in
      \<lparr>lt_layoutVersion = UNIT_EE_LAYOUT_VERSION, lt_homeFailedCount = lh_homeFailedCount lt,
       lt_featureGates = lh_featureGates lt,
       lt_idleHallFutileRehomes = sk_idleHallFutileRehomes st,
       lt_idleHallStoodDown = idleHallStandDown (sk_idleHallFutileRehomes st),
       lt_stepExcessLifetimeMax = lh_stepExcessLifetimeMax lt,
       lt_selfTestFirstHallWindow = lh_selfTestFirstHallWindow lt,
       lt_selfTestFirstStepsPerRev = lh_selfTestFirstStepsPerRev lt,
       lt_selfTestLastHallWindow = lh_selfTestLastHallWindow lt,
       lt_selfTestLastStepsPerRev = lh_selfTestLastStepsPerRev lt\<rparr>)"

definition refreshLifetimeReply :: "sketch \<Rightarrow> sketch" where
  "refreshLifetimeReply st = st\<lparr>sk_lifetimeReplyBuf := lifetimeEncodeReply (lifetime_facts st)\<rparr>"

definition persistLifetimeHealth :: "sketch \<Rightarrow> sketch" where
  "persistLifetimeHealth st =
     refreshLifetimeReply (st\<lparr>sk_eeprom := ee_apply (sk_eeprom st) (persist_lifetime_writes (sk_lifetime st))\<rparr>)"

definition drain_offset :: "sketch \<Rightarrow> sketch" where
  "drain_offset st =
     (if sk_pendingOffsetWrite st
      then (let v = sk_pendingOffsetValue st in
            st\<lparr>sk_pendingOffsetWrite := False, sk_calOffset := v,
               sk_eeprom := ee_apply (sk_eeprom st) (ee_block_writes EE_CAL_OFFSET (unitEeCalEncode v))\<rparr>)
      else st)"

definition drain_gates :: "sketch \<Rightarrow> sketch" where
  "drain_gates st =
     (if sk_pendingGatesWrite st
      then (let v = sk_pendingGatesValue st;
                st1 = persistLifetimeHealth (st\<lparr>sk_pendingGatesWrite := False,
                        sk_lifetime := (sk_lifetime st)\<lparr>lh_featureGates := v\<rparr>\<rparr>)
            in st1\<lparr>sk_idleHall := idleHallReset (sk_idleHall st1)\<rparr>)
      else st)"

definition drain_set_address :: "sketch \<Rightarrow> sketch" where
  "drain_set_address st =
     (if sk_pendingSetAddress st
      then (let v = sk_pendingAddressValue st; st1 = st\<lparr>sk_pendingSetAddress := False\<rparr> in
            if 1 \<le> v \<and> v \<le> 126
            then st1\<lparr>sk_eeprom := ee_apply (sk_eeprom st)
                       (ee_block_writes EE_LAYOUT_VERSION_ADDR (unitEeIdentityEncode v)),
                     sk_pendingBootloader := True\<rparr>
            else bad_command st1)
      else st)"

definition drain_clear_address :: "sketch \<Rightarrow> sketch" where
  "drain_clear_address st =
     (if sk_pendingClearAddress st
      then st\<lparr>sk_pendingClearAddress := False,
              sk_eeprom := ee_apply (sk_eeprom st) (ee_block_writes EE_LAYOUT_VERSION_ADDR unitEeIdentityClear),
              sk_pendingBootloader := True\<rparr>
      else st)"

definition drain_identify :: "u32 \<Rightarrow> sketch \<Rightarrow> sketch" where
  "drain_identify nowMs st =
     (if sk_pendingIdentify st
      then st\<lparr>sk_pendingIdentify := False, sk_identifyStartMs := (if nowMs = 0 then 1 else nowMs)\<rparr>
      else st)"

text \<open>Uptime is caught up in whole seconds; a pass that blocked for \<open>n\<close> seconds counts \<open>n\<close>.\<close>

function uptime_catch_up :: "u32 \<Rightarrow> u32 \<Rightarrow> u32 \<Rightarrow> u32 \<times> u32" where
  "uptime_catch_up nowMs lastTickMs full =
     (if nowMs - lastTickMs \<ge> 1000 then uptime_catch_up nowMs (lastTickMs + 1000) (full + 1)
      else (lastTickMs, full))"
  by pat_completeness (simp only: prod.inject)

termination uptime_catch_up
proof (relation "measure (\<lambda>(nowMs, lastTickMs, full). unat (nowMs - lastTickMs))", goal_cases)
  case (2 nowMs lastTickMs full)
  then have "nowMs - (lastTickMs + 1000) < nowMs - lastTickMs"
    by (simp add: diff_diff_eq [symmetric] word_less_nat_alt word_le_nat_alt unat_sub)
  then show ?case by (simp add: word_less_nat_alt)
qed simp

declare uptime_catch_up.simps [simp del]

definition uptime_tick :: "u32 \<Rightarrow> sketch \<Rightarrow> sketch" where
  "uptime_tick nowMs st =
     (case uptime_catch_up nowMs (sk_uptimeLastTickMs st) (sk_uptimeSecondsFull st) of
        (lastTick, full) \<Rightarrow>
          st\<lparr>sk_uptimeLastTickMs := lastTick, sk_uptimeSecondsFull := full,
             sk_uptimeSeconds := (if full > 0xFFFF then 0xFFFF else ucast full)\<rparr>)"

section \<open>The bus hardware\<close>

text \<open>The two lines as the port reads them, both high when the bus is free, are an input; switching
  the hardware off is a write of the bare interrupt flag, and \<open>Wire.begin\<close> sets the listening bits
  and the address, after which general calls are enabled again.\<close>

definition wire_begin :: "sketch \<Rightarrow> sketch" where
  "wire_begin st = st\<lparr>sk_twcr := 0x45, sk_twar := push_bit 1 (sk_i2cAddress st) OR 0x01\<rparr>"

definition twiReinit :: "sketch \<Rightarrow> sketch" where
  "twiReinit st = wire_begin (st\<lparr>sk_twcr := 0, sk_pendingReply := REPLY_NONE\<rparr>)"

definition twiHealTick :: "bool \<Rightarrow> bool \<Rightarrow> u32 \<Rightarrow> sketch \<Rightarrow> sketch" where
  "twiHealTick held freeAfter now st =
     (case twiHealShouldReset (sk_twiHeal st) held now of (reset, heal) \<Rightarrow>
        (let st1 = st\<lparr>sk_twiHeal := heal\<rparr> in
         if \<not> reset then st1
         else (let st2 = wire_begin (st1\<lparr>sk_twcr := 0, sk_pendingReply := REPLY_NONE\<rparr>)
               in st2\<lparr>sk_twiHeal := twiHealNoteReset heal now freeAfter\<rparr>)))"

definition twiDeafTick :: "bool \<Rightarrow> u32 \<Rightarrow> sketch \<Rightarrow> sketch" where
  "twiDeafTick linesFree now st =
     (let intact = twiListenConfigIntact (sk_twcr st) (sk_twar st) (sk_i2cAddress st) in
      case twiDeafShouldReset (sk_twiDeaf st) intact linesFree now of (reset, deaf) \<Rightarrow>
        (let st1 = st\<lparr>sk_twiDeaf := deaf\<rparr> in
         if \<not> reset then st1 else (twiReinit st1)\<lparr>sk_twiDeaf := twiDeafNoteReset deaf now\<rparr>))"

definition refreshBusRecordReply :: "u32 \<Rightarrow> sketch \<Rightarrow> sketch" where
  "refreshBusRecordReply nowMs st =
     st\<lparr>sk_busRecordReplyBuf :=
          busRecordEncodeReply (sk_busRecord st) (busSilenceNowMinutes (sk_busSilence st) nowMs)\<rparr>"

definition loadBusRecord :: "u32 \<Rightarrow> sketch \<Rightarrow> sketch" where
  "loadBusRecord nowMs st =
     refreshBusRecordReply nowMs
       (st\<lparr>sk_busRecord := snd (unitEeBusRecordDecode (ee_read (sk_eeprom st) EE_BUS_RECORD 8))\<rparr>)"

definition persistBusRecord :: "sketch \<Rightarrow> sketch" where
  "persistBusRecord st =
     st\<lparr>sk_eeprom := ee_apply (sk_eeprom st)
          (ee_block_writes EE_BUS_RECORD (unitEeBusRecordEncode (sk_busRecord st)))\<rparr>"

definition busSilenceLoop :: "bool \<Rightarrow> u32 \<Rightarrow> sketch \<Rightarrow> sketch" where
  "busSilenceLoop lineLow nowMs st =
     (let frames = sk_linkRxFrames st; traffic = sk_busTrafficSeen st;
          minutesBefore = sk_busRecordReplyBuf st ! 7 in
      case busSilenceTick (sk_busSilence st) (sk_busRecord st) frames lineLow traffic
             (unitGateEnabled (lh_featureGates (sk_lifetime st)) 0x10) nowMs of (s, r, todo) \<Rightarrow>
        (let st1 = st\<lparr>sk_busTrafficSeen := False, sk_busSilence := s, sk_busRecord := r\<rparr>;
             st2 = (if \<not> bs_silent s then st1\<lparr>sk_trafficWatch := False\<rparr> else st1);
             st3 = (if todo AND BUS_SILENCE_DO_WATCH_TRAFFIC \<noteq> 0 then st2\<lparr>sk_trafficWatch := True\<rparr> else st2);
             st4 = (if todo AND BUS_SILENCE_DO_REINIT \<noteq> 0 then twiReinit st3 else st3);
             st5 = (if todo AND BUS_SILENCE_DO_SAVE \<noteq> 0 then persistBusRecord st4 else st4);
             st6 = (if todo \<noteq> 0 \<or> busSilenceNowMinutes s nowMs \<noteq> minutesBefore
                    then refreshBusRecordReply nowMs st5 else st5)
         in if todo AND BUS_SILENCE_DO_RESTART \<noteq> 0 then st6\<lparr>sk_pendingBootloader := True\<rparr> else st6))"

text \<open>The one-shot watch takes itself off at the first edge.\<close>

definition PCINT1_vect :: "sketch \<Rightarrow> sketch" where
  "PCINT1_vect st = (if sk_trafficWatch st then st\<lparr>sk_trafficWatch := False, sk_busTrafficSeen := True\<rparr> else st)"

end
