(* ===== verification/Unit_Link.thy ===== *)
theory Unit_Link
  imports Bus_Sim Unit_Protocol
begin

text \<open>
  The master's templates on a bus with the sketch's handlers at the other end: what a health poll
  brings back, and what a verified write proves.
\<close>

section \<open>The sketch as a slave\<close>

text \<open>Bytes read past the end of a reply are what the idle line reads as. While the master waits the
  loop runs and carries out pending writes.\<close>

definition sketch_slave :: "sketch slave" where
  "sketch_slave =
     \<lparr>sl_write = (\<lambda>frame st. (True, receiveLetter frame st)),
      sl_read = (\<lambda>n st. case requestEvent st of (out, st') \<Rightarrow> (take n (out @ replicate n 0xFF), st')),
      sl_sleep = (\<lambda>ms st. drain_gates (drain_offset st))\<rparr>"

lemma sketch_slave_run [simp]:
  "sl_write sketch_slave frame st = (True, receiveLetter frame st)"
  "sl_read sketch_slave n st = (case requestEvent st of (out, st') \<Rightarrow> (take n (out @ replicate n 0xFF), st'))"
  "sl_sleep sketch_slave ms st = drain_gates (drain_offset st)"
  by (simp_all add: sketch_slave_def)

text \<open>A sketch that was asked \<open>k\<close> things and answered them: its counters have moved on by \<open>k\<close>, the reply
  slot is empty, and nothing else differs.\<close>

definition asked :: "sketch \<Rightarrow> u16 \<Rightarrow> sketch \<Rightarrow> bool" where
  "asked st0 k st \<longleftrightarrow> (\<exists>seen. st = st0\<lparr>sk_pendingReply := REPLY_NONE, sk_linkRxFrames := sk_linkRxFrames st0 + k,
     sk_linkTxReplies := sk_linkTxReplies st0 + k, sk_masterEverContacted := seen\<rparr>)"

definition healthy :: "u8 \<Rightarrow> sketch \<Rightarrow> u16 \<Rightarrow> sketch wire \<Rightarrow> bool" where
  "healthy a st0 k w \<longleftrightarrow> wi_addr w = a \<and> wi_fates w = (\<lambda>_. Delivered) \<and> wi_cap w \<ge> 6 \<and>
     asked st0 k (wi_unit w) \<and> \<not> sk_pendingOffsetWrite st0 \<and> \<not> sk_pendingGatesWrite st0"

text \<open>A read opcode fills the reply slot and nothing else.\<close>

definition staged :: "UnitReply \<Rightarrow> sketch \<Rightarrow> sketch" where
  "staged reply st = st\<lparr>sk_pendingReply := reply, sk_linkRxFrames := sk_linkRxFrames st + 1,
     sk_masterEverContacted := True\<rparr>"

definition stages :: "u8 \<Rightarrow> UnitReply \<Rightarrow> bool" where
  "stages opcode reply \<longleftrightarrow> (\<forall>st. receiveLetter [opcode] st = staged reply st)"

lemma read_opcodes_stage:
  "stages SFP_CMD_GET_VERSION REPLY_VERSION" "stages SFP_CMD_GET_OFFSET REPLY_OFFSET"
  "stages SFP_CMD_GET_STATUS REPLY_STATUS" "stages SFP_CMD_GET_LETTER REPLY_LETTER"
  "stages SFP_CMD_GET_ODOMETER REPLY_ODOMETER" "stages SFP_CMD_GET_DIAG REPLY_DIAG"
  "stages SFP_CMD_GET_SELF_TEST REPLY_SELF_TEST" "stages SFP_CMD_GET_VITALS REPLY_VITALS"
  "stages SFP_CMD_GET_EXT_DIAG REPLY_EXT_DIAG" "stages SFP_CMD_GET_LIFETIME REPLY_LIFETIME"
  "stages SFP_CMD_GET_BOOT_INFO REPLY_BOOT_INFO" "stages SFP_CMD_GET_BUS_RECORD REPLY_BUS_RECORD"
  by (simp_all add: stages_def staged_def receiveLetter_def receive_opcode_def dispatch_def sfpIsNoArgMutation_def Let_def)

definition answers :: "sketch \<Rightarrow> u16 \<Rightarrow> UnitReply \<Rightarrow> bytes \<Rightarrow> bool" where
  "answers st0 k reply out \<longleftrightarrow> (\<exists>st. asked st0 k st \<and> out = fst (requestEvent (staged reply st)))"

lemma ask_sketch: "asked st0 k st \<Longrightarrow> asked st0 (k + 1) (snd (requestEvent (staged reply st)))"
  by (cases st0) (auto simp: asked_def requestEvent_def staged_def Let_def add.assoc)

lemma query_sketch:
  assumes "stages opcode reply" "\<And>out. answers st0 k reply out \<Longrightarrow> unat n \<le> length out"
  shows "triple (healthy a st0 k) (unitQuery (sim_bus sketch_slave) a opcode n)
     (\<lambda>r w. healthy a st0 (k + 1) w \<and> (\<exists>out. answers st0 k reply out \<and> r = Some (take (unat n) out)))"
proof (rule tripleI)
  fix w r w'
  assume h: "healthy a st0 k w" and run: "run_state (unitQuery (sim_bus sketch_slave) a opcode n) w = (r, w')"
  define st where "st = staged reply (wi_unit w)"
  define out st' where "out = fst (requestEvent st)" and "st' = snd (requestEvent st)"
  have asked: "asked st0 k (wi_unit w)" using h by (simp add: healthy_def)
  have out: "answers st0 k reply out" using asked by (auto simp: answers_def out_def st_def)
  have rx: "receiveLetter [opcode] (wi_unit w) = st" using assms(1) by (simp add: stages_def st_def)
  have idle: "drain_gates (drain_offset st) = st"
    using asked h by (auto simp: drain_gates_def drain_offset_def healthy_def asked_def st_def staged_def)
  have tk: "take (unat n) (out @ replicate (unat n) 0xFF) = take (unat n) out" "min (length out) (unat n) = unat n"
    using assms(2) [OF out] by simp_all
  define v where "v = w\<lparr>wi_target := a, wi_tx := [opcode], wi_ms := wi_ms w + 2, wi_count := wi_count w + 2,
      wi_unit := st', wi_rx := take (unat n) out\<rparr>"
  have read: "run_state (repeat_state (unat n) (read_byte (sim_bus sketch_slave))) v = (take (unat n) out, v\<lparr>wi_rx := []\<rparr>)"
    using take_bytes [of v "take (unat n) out" "[]" sketch_slave] tk(2) by (simp add: v_def)
  have "run_state (unitQuery (sim_bus sketch_slave) a opcode n) w = (Some (take (unat n) out), v\<lparr>wi_rx := []\<rparr>)"
    using h read unfolding unitQuery_def v_def
    by (simp add: wire_run wire_write_def wire_read_def healthy_def Let_def idle rx tk
        prod.case_eq_if out_def [symmetric] st'_def [symmetric] del: take_append)
  then show "healthy a st0 (k + 1) w' \<and> (\<exists>out. answers st0 k reply out \<and> r = Some (take (unat n) out))"
    using run h out ask_sketch [OF asked, of reply] by (auto simp: healthy_def v_def st'_def st_def)
qed

section \<open>What a health poll brings back\<close>

text \<open>The link statistics of a unit once it was asked \<open>k\<close> things.\<close>

definition link_stats :: "sketch \<Rightarrow> u16 \<Rightarrow> UnitLinkStats" where
  "link_stats st k = \<lparr>ls_uptimeSeconds = sk_uptimeSecondsFull st, ls_rxFrames = sk_linkRxFrames st + k,
     ls_txReplies = sk_linkTxReplies st + k, ls_deafHeals = td_resets (sk_twiDeaf st)\<rparr>"

lemma answers_buffer:
  "answers st0 k REPLY_DIAG out \<Longrightarrow> out = sk_diagReplyBuf st0"
  "answers st0 k REPLY_VITALS out \<Longrightarrow> out = sk_vitalsReplyBuf st0"
  "answers st0 k REPLY_LIFETIME out \<Longrightarrow> out = sk_lifetimeReplyBuf st0"
  "answers st0 k REPLY_BUS_RECORD out \<Longrightarrow> out = sk_busRecordReplyBuf st0"
  "answers st0 k REPLY_BOOT_INFO out \<Longrightarrow> out = sk_bootInfoReplyBuf st0"
  "answers st0 k REPLY_ODOMETER out \<Longrightarrow> out = odometerEncodeReply (sk_odometerRevolutions st0)"
  "answers st0 k REPLY_OFFSET out \<Longrightarrow> out = offsetEncodeReply (sk_calOffset st0)"
  "answers st0 k REPLY_STATUS out \<Longrightarrow> out = statusEncodeReply (status_payload st0)"
  "answers st0 k REPLY_EXT_DIAG out \<Longrightarrow> out = sk_extDiagReplyBuf st0 @ extDiagLinkEncode (link_stats st0 (k + 1))"
  by (auto simp: answers_def asked_def requestEvent_def staged_def status_payload_def link_stats_def Let_def add.assoc)

text \<open>What a unit whose buffers are up to date has to report.\<close>

record unit_report =
  ur_diag :: UnitDiagReading
  ur_vitals :: UnitVitals
  ur_extDiag :: UnitExtDiag
  ur_busRecord :: UnitBusRecord
  ur_silentNow :: u8
  ur_bootInfo :: BootUpdateReport

definition publishes :: "sketch \<Rightarrow> unit_report \<Rightarrow> bool" where
  "publishes st r \<longleftrightarrow>
     diag_ok (ur_diag r) \<and> sk_diagReplyBuf st = diag_encode (ur_diag r) \<and>
     sk_vitalsReplyBuf st = vitalsEncodeReply (ur_vitals r) \<and>
     sk_extDiagReplyBuf st = extDiagEncodeReply (ur_extDiag r) \<and>
     sk_idleHallFutileRehomes st \<le> 0x7F \<and> sk_lifetimeReplyBuf st = lifetimeEncodeReply (lifetime_facts st) \<and>
     sk_busRecordReplyBuf st = busRecordEncodeReply (ur_busRecord r) (ur_silentNow r) \<and>
     report_ok (ur_bootInfo r) \<and> sk_bootInfoReplyBuf st = bootInfoEncode (ur_bootInfo r)"

lemma read_sketch:
  assumes "stages opcode reply" "\<And>out. answers st0 k reply out \<Longrightarrow> unat n \<le> length out \<and> decode (take (unat n) out) = x"
  shows "triple (healthy a st0 k) (query_decode (sim_bus sketch_slave) a opcode n decode)
     (\<lambda>r w. healthy a st0 (k + 1) w \<and> r = x)"
  unfolding query_decode_def
proof (rule triple_bind)
  show "triple (healthy a st0 k) (unitQuery (sim_bus sketch_slave) a opcode n)
      (\<lambda>r w. healthy a st0 (k + 1) w \<and> (\<exists>out. answers st0 k reply out \<and> r = Some (take (unat n) out)))"
    using assms by (intro query_sketch) auto
  show "triple (\<lambda>w. healthy a st0 (k + 1) w \<and> (\<exists>out. answers st0 k reply out \<and> r = Some (take (unat n) out)))
      (State_Monad.return (case r of None \<Rightarrow> None | Some buf \<Rightarrow> decode buf)) (\<lambda>r w. healthy a st0 (k + 1) w \<and> r = x)" for r
    using assms(2) by (auto simp: triple_return_iff)
qed

lemma reply_lengths [simp]:
  "length (diag_encode d) = 6" "length (vitalsEncodeReply v) = 8" "length (lifetimeEncodeReply l) = 15"
  "length (busRecordEncodeReply b s) = 9" "length (bootInfoEncode rep) = 11" "length (odometerEncodeReply k) = 5"
  "length (offsetEncodeReply z) = 3" "length (extDiagEncodeReply e) = 11" "length (extDiagLinkEncode ls) = 10"
  using diag_reply.length_enc [of d] vitals_reply.length_enc [of v] lifetime_reply.length_enc [of l]
    bus_record_reply.length_enc [of "(b, s)"] boot_report.length_enc [of rep] odometer_reply.length_enc [of k]
    offset_reply.length_enc [of z] ext_diag_reply.length_enc [of e] ext_link_reply.length_enc [of ls]
  by simp_all

lemma lifetime_facts_ok: "sk_idleHallFutileRehomes st \<le> 0x7F \<Longrightarrow> lifetime_ok (lifetime_facts st)"
  by (simp add: lifetime_ok_def lifetime_facts_def Let_def)

abbreviation (input) sketch_bus :: "sketch wire bus" where "sketch_bus \<equiv> sim_bus sketch_slave"

lemma read_diag:
  assumes "publishes st0 r"
  shows "triple (healthy a st0 k) (unitReadDiag sketch_bus a) (\<lambda>x w. healthy a st0 (k + 1) w \<and> x = Some (ur_diag r))"
  unfolding unitReadDiag_def using assms diag_reply.round_trip [of "ur_diag r"]
  by (intro read_sketch [OF read_opcodes_stage(6)]) (auto dest!: answers_buffer simp: publishes_def)

lemma read_vitals:
  assumes "publishes st0 r"
  shows "triple (healthy a st0 k) (unitReadVitals sketch_bus a) (\<lambda>x w. healthy a st0 (k + 1) w \<and> x = Some (ur_vitals r))"
  unfolding unitReadVitals_def using assms vitals_reply.round_trip [of "ur_vitals r"]
  by (intro read_sketch [OF read_opcodes_stage(8)]) (auto dest!: answers_buffer simp: publishes_def)

lemma read_lifetime:
  assumes "publishes st0 r"
  shows "triple (healthy a st0 k) (unitReadLifetime sketch_bus a) (\<lambda>x w. healthy a st0 (k + 1) w \<and> x = Some (lifetime_facts st0))"
  unfolding unitReadLifetime_def using assms lifetime_reply.round_trip [OF lifetime_facts_ok [of st0]]
  by (intro read_sketch [OF read_opcodes_stage(10)]) (auto dest!: answers_buffer simp: publishes_def)

lemma read_bus_record:
  assumes "publishes st0 r"
  shows "triple (healthy a st0 k) (unitReadBusRecord sketch_bus a)
    (\<lambda>x w. healthy a st0 (k + 1) w \<and> x = Some (ur_busRecord r, ur_silentNow r))"
  unfolding unitReadBusRecord_def using assms bus_record_reply.round_trip [of "(ur_busRecord r, ur_silentNow r)"]
  by (intro read_sketch [OF read_opcodes_stage(12)]) (auto dest!: answers_buffer simp: publishes_def)

lemma read_boot_info:
  assumes "publishes st0 r"
  shows "triple (healthy a st0 k) (unitReadBootInfo sketch_bus a) (\<lambda>x w. healthy a st0 (k + 1) w \<and> x = Some (ur_bootInfo r))"
  unfolding unitReadBootInfo_def using assms boot_report.round_trip [of "ur_bootInfo r"]
  by (intro read_sketch [OF read_opcodes_stage(11)]) (auto dest!: answers_buffer simp: publishes_def)

lemma read_odometer:
  "triple (healthy a st0 k) (unitReadOdometer sketch_bus a)
    (\<lambda>x w. healthy a st0 (k + 1) w \<and> x = Some (sk_odometerRevolutions st0))"
  unfolding unitReadOdometer_def using odometer_reply.round_trip [of "sk_odometerRevolutions st0"]
  by (intro read_sketch [OF read_opcodes_stage(5)]) (auto dest!: answers_buffer)

lemma read_offset:
  "triple (healthy a st0 k) (unitReadOffset sketch_bus a) (\<lambda>x w. healthy a st0 (k + 1) w \<and> x = Some (sk_calOffset st0))"
  unfolding unitReadOffset_def using offset_reply.round_trip [of "sk_calOffset st0"]
  by (intro read_sketch [OF read_opcodes_stage(2)]) (auto dest!: answers_buffer)

lemma length_status_payload [simp]: "length (status_payload st) = 8"
  by (simp add: status_payload_def Let_def)

lemma read_status:
  "triple (healthy a st0 k) (unitReadStatus sketch_bus a)
    (\<lambda>x w. healthy a st0 (k + 1) w \<and> x = Some (status_of_payload (status_payload st0)))"
proof -
  have "statusReadbackValid (statusEncodeReply (status_payload st0)) 9 = Some (status_payload st0)"
    using status_reply.round_trip [of "status_payload st0"] by (simp add: statusEncodeReply_def)
  then show ?thesis
    unfolding unitReadStatus_def
    by (intro read_sketch [OF read_opcodes_stage(3)]) (auto dest!: answers_buffer simp: status_decode_def statusEncodeReply_def)
qed

lemma ext_diag_prefix:
  "extDiagReadbackValid (extDiagEncodeReply x @ ys) = Some x"
proof -
  have l: "length (extDiagEncodeReply x) = 11" by simp
  have "extDiagReadbackValid (extDiagEncodeReply x @ ys) = extDiagReadbackValid (extDiagEncodeReply x)"
    using l by (simp add: extDiagReadbackValid_def extDiagChecksum_def masked_checksum_def nth_append)
  then show ?thesis using ext_diag_reply.round_trip [of x] by simp
qed

text \<open>The facts after a poll, as a function of what the unit holds; the link counters are those of the
  moment the reply was encoded.\<close>

definition diag_folded :: "UnitDiagReading \<Rightarrow> UnitFacts \<Rightarrow> UnitFacts" where
  "diag_folded d u =
     u\<lparr>uf_driftEventsBaseline := dl_newBaseline (driftLogEvaluate (uf_driftEventsBaseline u) (dr_driftEvents d)),
       uf_physLetter := dr_physicalLetter d, uf_driftFlags := dr_flags d, uf_driftEvents := dr_driftEvents d,
       uf_lastDriftSteps := dr_lastDriftSteps d, uf_diagValid := True\<rparr>"

definition polled :: "sketch \<Rightarrow> unit_report \<Rightarrow> UnitLinkStats \<Rightarrow> UnitFacts \<Rightarrow> UnitFacts" where
  "polled st r l u =
     (diag_folded (ur_diag r) u)\<lparr>
       uf_odometer := sk_odometerRevolutions st, uf_odometerValid := True,
       uf_vitals := ur_vitals r, uf_vitalsValid := True,
       uf_extDiag := ur_extDiag r, uf_extDiagValid := True, uf_link := l, uf_linkValid := True,
       uf_lifetime := lifetime_facts st, uf_lifetimeValid := True,
       uf_busRecord := ur_busRecord r, uf_busSilentNowMinutes := ur_silentNow r, uf_busRecordValid := True,
       uf_bootCrc32 := bu_bootCrc32 (ur_bootInfo r),
       uf_bootVerdict := bootIntegrityJudge (ur_bootInfo r) BOOT_CURRENT_CRC32\<rparr>"

lemma triple_step: "triple P m (\<lambda>x w. R w \<and> x = v) \<Longrightarrow> triple R (f v) Q \<Longrightarrow> triple P (m \<bind> f) Q"
  by (rule triple_known_pre)

definition quiet_notes :: "'w note_sink" where
  "quiet_notes = \<lparr>nt_identityRead = (\<lambda>_ _ _. State_Monad.return ()),
     nt_driftSeen = (\<lambda>_ _ _. State_Monad.return ()), nt_bootVerdictChanged = (\<lambda>_ _ _. State_Monad.return ())\<rparr>"

lemma quiet_notes_simps [simp]:
  "nt_identityRead quiet_notes a u k = State_Monad.return ()"
  "nt_driftSeen quiet_notes a d g = State_Monad.return ()"
  "nt_bootVerdictChanged quiet_notes a u rep = State_Monad.return ()"
  by (simp_all add: quiet_notes_def)

lemma refresh_ext_diag:
  assumes "publishes st0 r"
  shows "triple (healthy a st0 k) (unitRefreshExtDiag sketch_bus u a)
    (\<lambda>u' w. healthy a st0 (k + 1) w \<and> u' = u\<lparr>uf_extDiag := ur_extDiag r, uf_extDiagValid := True,
       uf_link := link_stats st0 (k + 1), uf_linkValid := True\<rparr>)"
  unfolding unitRefreshExtDiag_def
proof (rule triple_bind)
  show "triple (healthy a st0 k) (unitQuery sketch_bus a SFP_CMD_GET_EXT_DIAG 21)
     (\<lambda>x w. healthy a st0 (k + 1) w \<and> (\<exists>out. answers st0 k REPLY_EXT_DIAG out \<and> x = Some (take (unat (21 :: u8)) out)))"
    using assms by (intro query_sketch [OF read_opcodes_stage(9)]) (auto dest!: answers_buffer simp: publishes_def)
  fix x
  show "triple (\<lambda>w. healthy a st0 (k + 1) w \<and> (\<exists>out. answers st0 k REPLY_EXT_DIAG out \<and> x = Some (take (unat (21 :: u8)) out)))
    (let u = u\<lparr>uf_extDiagValid := False, uf_linkValid := False\<rparr> in
     State_Monad.return (case x of None \<Rightarrow> u | Some buf \<Rightarrow> unitFactsFoldExtDiag u buf))
    (\<lambda>u' w. healthy a st0 (k + 1) w \<and> u' = u\<lparr>uf_extDiag := ur_extDiag r, uf_extDiagValid := True,
       uf_link := link_stats st0 (k + 1), uf_linkValid := True\<rparr>)"
    using assms ext_link_reply.round_trip
    by (cases u) (auto dest!: answers_buffer
      simp: triple_return_iff publishes_def unitFactsFoldExtDiag_def ext_diag_prefix Let_def)
qed

lemma refresh_odometer:
  "triple (healthy a st0 k) (unitRefreshOdometer sketch_bus u a) (\<lambda>x w. healthy a st0 (k + 1) w \<and>
     x = u\<lparr>uf_odometer := sk_odometerRevolutions st0, uf_odometerValid := True\<rparr>)"
  unfolding unitRefreshOdometer_def by (rule triple_step [OF read_odometer]) (simp add: triple_return_iff)

lemma refresh_diag:
  assumes "publishes st0 r"
  shows "triple (healthy a st0 k) (unitRefreshDiag sketch_bus u a reading) (\<lambda>x w. healthy a st0 (k + 1) w \<and>
     x = (driftLogEvaluate (uf_driftEventsBaseline u) (dr_driftEvents (ur_diag r)), diag_folded (ur_diag r) u, ur_diag r))"
  unfolding unitRefreshDiag_def
  by (rule triple_step [OF read_diag [OF assms]]) (cases u, simp add: triple_return_iff diag_folded_def Let_def)

lemma refresh_vitals:
  assumes "publishes st0 r"
  shows "triple (healthy a st0 k) (unitRefreshVitals sketch_bus u a) (\<lambda>x w. healthy a st0 (k + 1) w \<and>
     x = u\<lparr>uf_vitals := ur_vitals r, uf_vitalsValid := True\<rparr>)"
  unfolding unitRefreshVitals_def
  by (rule triple_step [OF read_vitals [OF assms]]) (cases u, simp add: triple_return_iff)

lemma refresh_lifetime:
  assumes "publishes st0 r"
  shows "triple (healthy a st0 k) (unitRefreshLifetime sketch_bus u a) (\<lambda>x w. healthy a st0 (k + 1) w \<and>
     x = u\<lparr>uf_lifetime := lifetime_facts st0, uf_lifetimeValid := True\<rparr>)"
  unfolding unitRefreshLifetime_def
  by (rule triple_step [OF read_lifetime [OF assms]]) (cases u, simp add: triple_return_iff)

lemma refresh_bus_record:
  assumes "publishes st0 r"
  shows "triple (healthy a st0 k) (unitRefreshBusRecord sketch_bus u a) (\<lambda>x w. healthy a st0 (k + 1) w \<and>
     x = u\<lparr>uf_busRecord := ur_busRecord r, uf_busSilentNowMinutes := ur_silentNow r, uf_busRecordValid := True\<rparr>)"
  unfolding unitRefreshBusRecord_def
  by (rule triple_step [OF read_bus_record [OF assms]]) (cases u, simp add: triple_return_iff)

lemma refresh_boot_verdict:
  assumes "publishes st0 r"
  shows "triple (healthy a st0 k) (unitRefreshBootVerdict sketch_bus u a logged report) (\<lambda>x w. healthy a st0 (k + 1) w \<and>
     x = (let verdict = bootIntegrityJudge (ur_bootInfo r) BOOT_CURRENT_CRC32; e = bootIntegrityEdge logged verdict in
          (fst e, u\<lparr>uf_bootCrc32 := bu_bootCrc32 (ur_bootInfo r), uf_bootVerdict := verdict\<rparr>, snd e, ur_bootInfo r)))"
  unfolding unitRefreshBootVerdict_def
  by (rule triple_step [OF read_boot_info [OF assms]]) (cases u, simp add: triple_return_iff Let_def)

lemma refresh_diagnostics:
  assumes "publishes st0 r"
  shows "triple (healthy a st0 k) (unitRefreshDiagnostics sketch_bus quiet_notes u a logged)
    (\<lambda>x w. healthy a st0 (k + 7) w \<and> x = (polled st0 r (link_stats st0 (k + 4)) u,
       snd (bootIntegrityEdge logged (bootIntegrityJudge (ur_bootInfo r) BOOT_CURRENT_CRC32))))"
  unfolding unitRefreshDiagnostics_def
  by (rule triple_step [OF refresh_odometer], rule triple_step [OF refresh_diag [OF assms]],
      simp only: prod.case quiet_notes_simps if_cancel bind_left_identity,
      rule triple_step [OF refresh_vitals [OF assms]],
      rule triple_step [OF refresh_ext_diag [OF assms]],
      rule triple_step [OF refresh_lifetime [OF assms]],
      rule triple_step [OF refresh_bus_record [OF assms]],
      rule triple_step [OF refresh_boot_verdict [OF assms]],
      cases u, simp add: triple_return_iff polled_def diag_folded_def Let_def add.assoc)

text \<open>C10: A health poll brings back exactly what the unit knows. With the master's poll at one end of
  a bus that delivers and the sketch's handlers at the other, the status, the odometer, the drift
  reading, the supply readings, the measurements, the link statistics as they stood when they were
  asked for (the fifth question of the poll), the lifetime record, the bus record and the boot
  verdict in the facts are the unit's own, every one of them marked valid, and the poll counts as
  answered; nothing else in the facts changes but what the baselines fold.\<close>

theorem poll_reports_the_unit:
  assumes "publishes st0 r" "healthy a st0 0 w"
  shows "fst (run_state (unitPollHealth sketch_bus quiet_notes u a baseline logged) w) =
     (case unitResetBaselineFold baseline (sk_lifetimeBrownoutCount st0) (sk_lifetimeWatchdogCount st0) of (seen, b) \<Rightarrow>
      (True,
       polled st0 r
         \<lparr>ls_uptimeSeconds = sk_uptimeSecondsFull st0, ls_rxFrames = sk_linkRxFrames st0 + 5,
          ls_txReplies = sk_linkTxReplies st0 + 5, ls_deafHeals = td_resets (sk_twiDeaf st0)\<rparr>
         (u\<lparr>uf_status := status_of_payload (status_payload st0), uf_statusValid := True, uf_resetSeen := seen\<rparr>),
       b, snd (bootIntegrityEdge logged (bootIntegrityJudge (ur_bootInfo r) BOOT_CURRENT_CRC32))))"
proof -
  let ?s = "status_of_payload (status_payload st0)"
  have counts: "us_lifetimeBrownoutCount ?s = sk_lifetimeBrownoutCount st0"
    "us_lifetimeWatchdogCount ?s = sk_lifetimeWatchdogCount st0"
    by (simp_all add: status_of_payload_def status_payload_def Let_def)
  obtain seen b where fold: "unitResetBaselineFold baseline (sk_lifetimeBrownoutCount st0) (sk_lifetimeWatchdogCount st0) = (seen, b)"
    by force
  let ?u = "u\<lparr>uf_status := ?s, uf_statusValid := True, uf_resetSeen := seen\<rparr>"
  have status: "triple (healthy a st0 0) (unitPollStatus sketch_bus u a baseline)
      (\<lambda>x w. healthy a st0 1 w \<and> x = (True, ?u, b))"
    unfolding unitPollStatus_def
    by (rule triple_step [OF read_status [where k = 0, simplified]])
       (cases u, simp add: triple_return_iff counts fold Let_def)
  have "triple (healthy a st0 0) (unitPollHealth sketch_bus quiet_notes u a baseline logged)
      (\<lambda>x w. x = (True, polled st0 r (link_stats st0 5) ?u, b,
         snd (bootIntegrityEdge logged (bootIntegrityJudge (ur_bootInfo r) BOOT_CURRENT_CRC32))))"
    unfolding unitPollHealth_def
    by (rule triple_step [OF status], simp only: prod.case not_True_eq_False simp_thms if_False,
        rule triple_step [OF refresh_diagnostics [OF assms(1), where k = 1]])
       (simp add: triple_return_iff)
  from triple_run [OF this assms(2)] show ?thesis using fold by (simp add: link_stats_def)
qed

definition sample_report :: unit_report where
  "sample_report = \<lparr>ur_diag = \<lparr>dr_physicalLetter = 3, dr_flags = 2, dr_driftEvents = 1, dr_lastDriftSteps = 5\<rparr>,
     ur_vitals = \<lparr>vi_vccNow_mV = 4900, vi_vccMin_mV = 4700, vi_cmdPos = 3, vi_freeRamMin = 600\<rparr>,
     ur_extDiag = \<lparr>xd_stepExcessLast = 1, xd_stepExcessMax = 9, xd_vccSagLastMove = 4800,
       xd_hallEdgesLastRev = 1, xd_dutyWindow = 4, xd_statusBits = 0\<rparr>,
     ur_busRecord = empty_bus_record, ur_silentNow = 0,
     ur_bootInfo = empty_report\<lparr>bu_bootCrc32 := 0x506b3970, bu_state := 4\<rparr>\<rparr>"

definition sample_sketch :: sketch where
  "sample_sketch =
    \<lparr>sk_pendingReply = REPLY_NONE, sk_linkRxFrames = 0, sk_linkTxReplies = 0, sk_masterEverContacted = False,
     sk_badCommandCount = 0, sk_receivedNumber = 3, sk_stepperSpeed = 10, sk_pendingBootloader = False,
     sk_pendingSelfTest = False, sk_pendingOffsetWrite = False, sk_pendingOffsetValue = 0,
     sk_pendingJogSteps = 0, sk_pendingHome = False, sk_pendingSetAddress = False,
     sk_pendingAddressValue = 0, sk_pendingClearAddress = False, sk_pendingIdentify = False,
     sk_pendingOdometerReset = False, sk_pendingGatesWrite = False, sk_pendingGatesValue = 0,
     sk_pendingBootUpdate = False, sk_pendingBootUpdateStage = 0, sk_lifetime = zero_health,
     sk_idleHall = \<lparr>ih_streak = 0, ih_expectation = 0\<rparr>, sk_idleHallFutileRehomes = 0, sk_calOffset = 100,
     sk_displayedLetter = 3, sk_homed = True, sk_odometerRevolutions = 4242, sk_currentlyrotating = False,
     sk_statusLastHomeFailed = False, sk_statusHallNeverTriggered = False, sk_addressFromEeprom = True,
     sk_resetStatusByte = 1, sk_lifetimeBrownoutCount = 2, sk_lifetimeWatchdogCount = 0,
     sk_lastHomingStepCount = 800, sk_uptimeSeconds = 600, sk_uptimeSecondsFull = 600,
     sk_uptimeLastTickMs = 600000, sk_gitRev = [0x61, 0x62, 0x63, 0x31, 0x32, 0x33, 0x34, 0, 0],
     sk_diagReplyBuf = diag_encode (ur_diag sample_report), sk_selfTestReplyBuf = replicate 9 0,
     sk_vitalsReplyBuf = vitalsEncodeReply (ur_vitals sample_report),
     sk_extDiagReplyBuf = extDiagEncodeReply (ur_extDiag sample_report), sk_lifetimeReplyBuf = [],
     sk_bootInfoReplyBuf = bootInfoEncode (ur_bootInfo sample_report),
     sk_busRecordReplyBuf = busRecordEncodeReply (ur_busRecord sample_report) (ur_silentNow sample_report),
     sk_twiHeal = \<lparr>th_lowSeen = False, th_lowSinceMs = 0, th_everReset = False, th_lastResetMs = 0, th_selfResets = 0\<rparr>,
     sk_twiDeaf = \<lparr>td_badSeen = False, td_badSinceMs = 0, td_lastSampleMs = 0, td_everReset = False, td_lastResetMs = 0, td_resets = 0\<rparr>,
     sk_busSilence = \<lparr>bs_lastFrames = 0, bs_contactFrames = 0, bs_heardMs = 0, bs_silent = False, bs_savedMinutes = 0,
       bs_reinitMs = 0, bs_reinitOpen = False, bs_restarted = False, bs_trafficOpen = False, bs_trafficMs = 0\<rparr>,
     sk_busRecord = empty_bus_record, sk_busTrafficSeen = False, sk_trafficWatch = False, sk_twcr = 0x45,
     sk_twar = 0x0B, sk_i2cAddress = 5, sk_identifyStartMs = 0, sk_eeprom = (\<lambda>_. 0xFF)\<rparr>"

definition sample_unit :: sketch where
  "sample_unit = refreshLifetimeReply sample_sketch"

definition sample_wire :: "sketch \<Rightarrow> (nat \<Rightarrow> fate) \<Rightarrow> sketch wire" where
  "sample_wire st fates = \<lparr>wi_unit = st, wi_addr = 5, wi_target = 0, wi_tx = [], wi_rx = [], wi_ms = 0,
     wi_fates = fates, wi_count = 0, wi_cap = 32\<rparr>"

lemma status_read_back:
  "us_uptimeSeconds (status_of_payload (status_payload st)) = sk_uptimeSeconds st"
  "us_badCommandCount (status_of_payload (status_payload st)) = sk_badCommandCount st"
  "us_mcusrAtBoot (status_of_payload (status_payload st)) = sk_resetStatusByte st"
proof -
  have "push_bit 8 (ucast (byte_of (Suc 0) x)) OR ucast (byte_of 0 x) = x" for x :: u16
    by (rule bit_word_eqI) (auto simp: bit_simps bit_byte_of)
  then show "us_uptimeSeconds (status_of_payload (status_payload st)) = sk_uptimeSeconds st"
    by (simp add: status_of_payload_def status_payload_def Let_def)
qed (simp_all add: status_of_payload_def status_payload_def Let_def)

lemma sample_publishes: "publishes sample_unit sample_report"
  by (simp add: publishes_def sample_unit_def refreshLifetimeReply_def sample_sketch_def diag_ok_def report_ok_def
      sample_report_def empty_report_def lifetime_facts_def Let_def)

lemma sample_healthy: "healthy 5 sample_unit 0 (sample_wire sample_unit (\<lambda>_. Delivered))"
  unfolding healthy_def sample_wire_def asked_def
  by (auto intro!: exI [of _ False] simp: sample_unit_def refreshLifetimeReply_def sample_sketch_def)

lemma poll_reports_the_unit_witness:
  "\<exists>u b logged. fst (run_state (unitPollHealth sketch_bus quiet_notes fresh_facts 5 \<lparr>rb_valid = True, rb_brownout = 1, rb_watchdog = 0\<rparr> 0)
      (sample_wire sample_unit (\<lambda>_. Delivered))) = (True, u, b, logged) \<and>
     uf_odometer u = 4242 \<and> uf_vitalsValid u \<and> us_uptimeSeconds (uf_status u) = 600 \<and> uf_resetSeen u
     \<and> ls_rxFrames (uf_link u) = 5"
proof -
  have seen: "fst (unitResetBaselineFold \<lparr>rb_valid = True, rb_brownout = 1, rb_watchdog = 0\<rparr>
      (sk_lifetimeBrownoutCount sample_unit) (sk_lifetimeWatchdogCount sample_unit))"
    by (simp add: unitResetBaselineFold_def sample_unit_def refreshLifetimeReply_def sample_sketch_def Let_def)
  show ?thesis
    unfolding poll_reports_the_unit [OF sample_publishes sample_healthy] using seen
    by (simp add: polled_def diag_folded_def status_read_back case_prod_beta)
      (simp add: sample_unit_def refreshLifetimeReply_def sample_sketch_def)
qed

section \<open>What a verified write proves\<close>

text \<open>On a bus that may lose or break off anything: a query that returns a reply was delivered, and
  the reply is what the sketch answered.\<close>

lemma write_fates:
  assumes "wi_addr w = wi_target w" "run_state (b_endCounted sketch_bus) w = (s, w')"
  shows "\<exists>n. w' = w\<lparr>wi_count := wi_count w + 1, wi_unit := (if s = 2 then wi_unit w else receiveLetter (take n (wi_tx w)) (wi_unit w))\<rparr>
     \<and> s \<in> {0, 2, 4} \<and> (s = 0 \<longrightarrow> length (wi_tx w) \<le> n)"
proof (cases "wi_fates w (wi_count w)")
  case Delivered
  then show ?thesis using assms by (intro exI [of _ "length (wi_tx w)"]) (auto simp: wire_run wire_write_def Let_def)
next
  case Lost
  then show ?thesis using assms by (auto simp: wire_run wire_write_def Let_def)
next
  case (Broken n)
  then show ?thesis using assms by (intro exI [of _ "n + 1"]) (auto simp: wire_run wire_write_def Let_def)
qed

definition clocked :: "nat \<Rightarrow> sketch \<Rightarrow> bytes" where
  "clocked n st = take n (fst (requestEvent st) @ replicate n 0xFF)"

lemma length_clocked [simp]: "length (clocked n st) = n"
  by (simp add: clocked_def)

lemma sketch_read_clocked: "sl_read sketch_slave n st = (clocked n st, snd (requestEvent st))"
  by (simp add: clocked_def case_prod_beta)

lemma read_fates:
  assumes "wi_addr w = a" "n \<noteq> 0" "wire_read sketch_slave a (unat n) w = (n, w')"
  shows "wi_unit w' = snd (requestEvent (wi_unit w)) \<and> wi_rx w' = clocked (unat n) (wi_unit w)"
proof (cases "wi_fates w (wi_count w)")
  case Delivered
  then show ?thesis using assms by (auto simp: wire_read_def Let_def sketch_read_clocked simp del: sketch_slave_run)
next
  case Lost
  then show ?thesis using assms by (simp add: wire_read_def)
next
  case (Broken k)
  then have w': "wi_unit w' = snd (requestEvent (wi_unit w))" "wi_rx w' = clocked (min k (unat n)) (wi_unit w)"
    and got: "of_nat (min k (unat n)) = n"
    using assms by (auto simp: wire_read_def Let_def sketch_read_clocked simp del: sketch_slave_run)
  have "min k (unat n) < 256" using unat_u8_less [of n] by simp
  then have "unat (of_nat (min k (unat n)) :: u8) = min k (unat n)" by (simp add: unat_of_nat)
  then show ?thesis using w' got by simp
qed

lemma query_delivered:
  assumes "wi_addr w = a" "1 \<le> wi_cap w" "n \<noteq> 0"
    and "run_state (unitQuery sketch_bus a opcode n) w = (Some buf, w')"
  shows "\<exists>st. st = drain_gates (drain_offset (receiveLetter [opcode] (wi_unit w))) \<and>
     wi_unit w' = snd (requestEvent st) \<and> buf = clocked (unat n) st"
proof -
  have d1: "wi_fates w (wi_count w) = Delivered"
    using assms by (cases "wi_fates w (wi_count w)")
      (auto simp: unitQuery_def wire_run wire_write_def Let_def split: if_splits prod.splits)
  define st where "st = drain_gates (drain_offset (receiveLetter [opcode] (wi_unit w)))"
  define w2 where "w2 = w\<lparr>wi_target := a, wi_tx := [opcode], wi_count := wi_count w + 1, wi_ms := wi_ms w + 2,
     wi_unit := st\<rparr>"
  obtain got w3 where req: "wire_read sketch_slave a (unat n) w2 = (got, w3)" by force
  have run: "run_state (unitQuery sketch_bus a opcode n) w =
      (if got \<noteq> n then (None, snd (run_state (drain_all sketch_bus) w3))
       else (Some (fst (run_state (repeat_state (unat n) (read_byte sketch_bus)) w3)),
             snd (run_state (repeat_state (unat n) (read_byte sketch_bus)) w3)))"
    using assms(1,2) d1 req unfolding w2_def st_def
    by (simp add: unitQuery_def wire_run wire_write_def Let_def case_prod_beta)
  have got: "got = n" using assms(4) unfolding run by (simp split: if_splits)
  have w3: "wi_unit w3 = snd (requestEvent st)" "wi_rx w3 = clocked (unat n) st"
    using read_fates [of w2 a n w3] assms(1,3) req got by (simp_all add: w2_def)
  have "run_state (repeat_state (unat n) (read_byte sketch_bus)) w3 = (wi_rx w3, w3\<lparr>wi_rx := []\<rparr>)"
    using take_bytes [of w3 "wi_rx w3" "[]" sketch_slave] w3(2) by simp
  then show ?thesis using assms(4) w3 got unfolding run st_def by auto
qed

definition loop_pass :: "sketch \<Rightarrow> sketch" where
  "loop_pass st = drain_gates (drain_offset st)"

lemma send_payload_run:
  "length payload < wi_cap w \<Longrightarrow>
     run_state (unitSendPayload (sim_bus sl) a opcode payload) w =
     wire_write sl (w\<lparr>wi_target := a, wi_tx := opcode # payload\<rparr>)"
  by (simp add: unitSendPayload_def wire_run queue_bytes)

text \<open>A write that is acknowledged, the settling time, and a read that delivers.\<close>

lemma write_settle_read:
  assumes "wi_addr w = a" "length payload < wi_cap w" "n \<noteq> 0"
    and "run_state (unitSendPayload sketch_bus a opcode payload) w = (0, w1)"
    and "run_state (b_sleep sketch_bus ms) w1 = ((), w2)"
    and "run_state (unitQuery sketch_bus a op' n) w2 = (Some buf, w')"
  shows "\<exists>st. st = loop_pass (receiveLetter [op'] (loop_pass (receiveLetter (opcode # payload) (wi_unit w)))) \<and>
     wi_unit w' = snd (requestEvent st) \<and> buf = clocked (unat n) st"
proof -
  have w1: "wi_unit w1 = receiveLetter (opcode # payload) (wi_unit w)" "wi_addr w1 = a" "wi_cap w1 = wi_cap w"
    using write_fates [of "w\<lparr>wi_target := a, wi_tx := opcode # payload\<rparr>" 0 w1] assms(1,2,4)
    by (auto simp: send_payload_run wire_run)
  then have w2: "wi_unit w2 = loop_pass (receiveLetter (opcode # payload) (wi_unit w))" "wi_addr w2 = a"
    "1 \<le> wi_cap w2"
    using assms(2,5) by (auto simp: wire_run loop_pass_def)
  from query_delivered [OF w2(2,3) assms(3,6)] show ?thesis unfolding w2(1) loop_pass_def by blast
qed

text \<open>What a pass of the loop leaves alone, and that nothing is pending after it.\<close>

lemma loop_pass_offset:
  "sk_calOffset (loop_pass st) = (if sk_pendingOffsetWrite st then sk_pendingOffsetValue st else sk_calOffset st)"
  "\<not> sk_pendingOffsetWrite (loop_pass st)" "\<not> sk_pendingGatesWrite (loop_pass st)"
  "sk_pendingReply (loop_pass st) = sk_pendingReply st"
  "lh_featureGates (sk_lifetime (loop_pass st)) =
     (if sk_pendingGatesWrite st then sk_pendingGatesValue st else lh_featureGates (sk_lifetime st))"
  "ee_read (sk_eeprom (loop_pass st)) EE_CAL_OFFSET 3 =
     (if sk_pendingOffsetWrite st then unitEeCalEncode (sk_pendingOffsetValue st)
      else ee_read (sk_eeprom st) EE_CAL_OFFSET 3)"
proof -
  have cal: "ee_read (ee_apply ee (persist_lifetime_writes h)) EE_CAL_OFFSET 3 = ee_read ee EE_CAL_OFFSET 3" for ee h
    by (rule ee_read_other) (simp add: persist_lifetime_writes_def set_ee_block_writes)
  show "sk_calOffset (loop_pass st) = (if sk_pendingOffsetWrite st then sk_pendingOffsetValue st else sk_calOffset st)"
  "\<not> sk_pendingOffsetWrite (loop_pass st)" "\<not> sk_pendingGatesWrite (loop_pass st)"
  "sk_pendingReply (loop_pass st) = sk_pendingReply st"
  "lh_featureGates (sk_lifetime (loop_pass st)) =
     (if sk_pendingGatesWrite st then sk_pendingGatesValue st else lh_featureGates (sk_lifetime st))"
  "ee_read (sk_eeprom (loop_pass st)) EE_CAL_OFFSET 3 =
     (if sk_pendingOffsetWrite st then unitEeCalEncode (sk_pendingOffsetValue st)
      else ee_read (sk_eeprom st) EE_CAL_OFFSET 3)"
    by (simp_all add: loop_pass_def drain_gates_def drain_offset_def persistLifetimeHealth_def refreshLifetimeReply_def
        Let_def cal)
qed

lemma loop_pass_idle: "\<not> sk_pendingOffsetWrite st \<Longrightarrow> \<not> sk_pendingGatesWrite st \<Longrightarrow> loop_pass st = st"
  by (simp add: loop_pass_def drain_gates_def drain_offset_def)

lemma receive_read: "stages opcode reply \<Longrightarrow> receiveLetter [opcode] st = staged reply st"
  by (simp add: stages_def)

lemma receive_set_offset:
  "receiveLetter (SFP_CMD_SET_OFFSET # setOffsetEncode v) st =
     (let st1 = st\<lparr>sk_pendingReply := REPLY_NONE, sk_linkRxFrames := sk_linkRxFrames st + 1,
                  sk_masterEverContacted := True\<rparr> in
      if -2038 \<le> sint v \<and> sint v \<le> 2038
      then st1\<lparr>sk_pendingOffsetValue := v, sk_pendingOffsetWrite := True\<rparr> else bad_command st1)"
proof -
  have "setOffsetDecode (setOffsetEncode v) 4 = Some v" "length (setOffsetEncode v) = 4"
    by (simp_all add: setOffsetDecode_def setOffsetEncode_def Let_def)
  then show ?thesis
    by (simp add: receiveLetter_def receive_opcode_def dispatch_def sfpIsNoArgMutation_def dispatch_set_offset_def Let_def)
qed

definition offset_in_range :: "sketch \<Rightarrow> bool" where
  "offset_in_range st \<longleftrightarrow> -2038 \<le> sint (sk_calOffset st) \<and> sint (sk_calOffset st) \<le> 2038 \<and>
     (sk_pendingOffsetWrite st \<longrightarrow> -2038 \<le> sint (sk_pendingOffsetValue st) \<and> sint (sk_pendingOffsetValue st) \<le> 2038)"

text \<open>C11: An offset the master calls written is written. On a bus that may lose or break off any
  transaction, a verified offset write that returns 0 leaves the unit using that offset, with the
  offset under its checksum in EEPROM, so the next boot adopts it; and it is within one revolution.\<close>

theorem offset_write_verified:
  assumes "wi_addr w = a" "6 \<le> wi_cap w" "offset_in_range (wi_unit w)"
    and "run_state (unitWriteOffset sketch_bus a v) w = (0, w')"
  shows "sk_calOffset (wi_unit w') = v \<and> getOffset (sk_eeprom (wi_unit w')) = v \<and> \<bar>sint v\<bar> \<le> 2038"
proof -
  obtain status w1 where send: "run_state (unitSendPayload sketch_bus a SFP_CMD_SET_OFFSET (setOffsetEncode v)) w = (status, w1)"
    by force
  have len: "length (setOffsetEncode v) < wi_cap w" using assms(2) by (simp add: setOffsetEncode_def Let_def)
  have status: "status = 0" using assms(4) send by (auto simp: unitWriteOffset_def split: if_splits)
  obtain w2 where sleep: "run_state (b_sleep sketch_bus 30) w1 = ((), w2)" by (simp add: wire_run)
  obtain reply w3 where query: "run_state (unitQuery sketch_bus a SFP_CMD_GET_OFFSET 3) w2 = (reply, w3)" by force
  have "(case reply of None \<Rightarrow> None | Some buf \<Rightarrow> offsetReadbackValid buf 3) = Some v" and w': "w' = w3"
    using assms(4) send status sleep query
    by (auto simp: unitWriteOffset_def unitReadOffset_def query_decode_def split: option.splits if_splits)
  then obtain buf where buf: "reply = Some buf" "offsetReadbackValid buf 3 = Some v" by (auto split: option.splits)
  define u where "u = loop_pass (receiveLetter (SFP_CMD_SET_OFFSET # setOffsetEncode v) (wi_unit w))"
  define st where "st = loop_pass (staged REPLY_OFFSET u)"
  have fin: "wi_unit w' = snd (requestEvent st)" "buf = clocked 3 st"
    using write_settle_read [OF assms(1) len, of 3, OF _ send [unfolded status] sleep query [unfolded buf(1)]]
    unfolding receive_read [OF read_opcodes_stage(2)] u_def [symmetric] st_def [symmetric] w' by simp_all
  have idle: "st = staged REPLY_OFFSET u"
    unfolding st_def by (rule loop_pass_idle) (simp_all add: staged_def u_def loop_pass_offset)
  have "buf = offsetEncodeReply (sk_calOffset u)"
    unfolding fin(2) idle by (simp add: clocked_def requestEvent_def staged_def Let_def)
  then have cal: "sk_calOffset u = v"
    using buf(2) offset_reply.round_trip [of "sk_calOffset u"] by simp
  have unit: "sk_calOffset (wi_unit w') = sk_calOffset u" "sk_eeprom (wi_unit w') = sk_eeprom u"
    unfolding fin(1) idle by (simp_all add: requestEvent_def staged_def Let_def)
  show ?thesis
  proof (cases "-2038 \<le> sint v \<and> sint v \<le> 2038")
    case True
    then have "ee_read (sk_eeprom u) EE_CAL_OFFSET 3 = unitEeCalEncode v"
      unfolding u_def by (simp add: loop_pass_offset receive_set_offset Let_def)
    then have "getOffset (sk_eeprom u) = v" using True by (simp add: getOffset_def not_less)
    then show ?thesis using True unit cal by (simp add: abs_le_iff)
  next
    case False
    have rx: "receiveLetter (SFP_CMD_SET_OFFSET # setOffsetEncode v) (wi_unit w) = bad_command ((wi_unit w)\<lparr>sk_pendingReply := REPLY_NONE,
        sk_linkRxFrames := sk_linkRxFrames (wi_unit w) + 1, sk_masterEverContacted := True\<rparr>)"
      by (simp only: receive_set_offset Let_def False if_False)
    then have "sk_calOffset u = (if sk_pendingOffsetWrite (wi_unit w) then sk_pendingOffsetValue (wi_unit w) else sk_calOffset (wi_unit w))"
      unfolding u_def by (simp add: loop_pass_offset bad_command_def)
    moreover have "-2038 \<le> sint (if p then sk_pendingOffsetValue (wi_unit w) else sk_calOffset (wi_unit w)) \<and>
        sint (if p then sk_pendingOffsetValue (wi_unit w) else sk_calOffset (wi_unit w)) \<le> 2038"
      if "p = sk_pendingOffsetWrite (wi_unit w)" for p
      using assms(3) that by (simp add: offset_in_range_def)
    ultimately show ?thesis using False cal by simp
  qed
qed

text \<open>On a bus that delivers, the verified write answers 0 for an offset within one revolution and
  reports the mismatch for any other.\<close>

lemma asked_self: "sk_pendingReply st = REPLY_NONE \<Longrightarrow> asked st 0 st"
  unfolding asked_def by (intro exI [of _ "sk_masterEverContacted st"]) simp

lemma healthy_write:
  assumes "wi_addr w = a" "wi_fates w = (\<lambda>_. Delivered)" "6 \<le> wi_cap w" "length payload \<le> 4"
  shows "fst (run_state (unitSendPayload sketch_bus a opcode payload) w) = 0"
    and "sk_pendingReply (receiveLetter (opcode # payload) (wi_unit w)) = REPLY_NONE \<Longrightarrow>
      healthy a (loop_pass (receiveLetter (opcode # payload) (wi_unit w))) 0
       (snd (run_state (b_sleep sketch_bus ms) (snd (run_state (unitSendPayload sketch_bus a opcode payload) w))))"
  using assms by (auto simp: send_payload_run wire_run wire_write_def Let_def healthy_def loop_pass_offset asked_self
      simp flip: loop_pass_def)

lemma offset_write_answers:
  assumes "wi_addr w = a" "wi_fates w = (\<lambda>_. Delivered)" "6 \<le> wi_cap w" "offset_in_range (wi_unit w)"
  shows "fst (run_state (unitWriteOffset sketch_bus a v) w) =
     (if \<bar>sint v\<bar> \<le> 2038 then 0 else UNIT_BUS_OFFSET_MISMATCH)"
proof -
  define u where "u = loop_pass (receiveLetter (SFP_CMD_SET_OFFSET # setOffsetEncode v) (wi_unit w))"
  have len: "length (setOffsetEncode v) \<le> 4" by (simp add: setOffsetEncode_def Let_def)
  have none: "sk_pendingReply (receiveLetter (SFP_CMD_SET_OFFSET # setOffsetEncode v) (wi_unit w)) = REPLY_NONE"
    by (simp add: receive_set_offset bad_command_def Let_def)
  define w2 where "w2 = snd (run_state (b_sleep sketch_bus 30) (snd (run_state (unitSendPayload sketch_bus a SFP_CMD_SET_OFFSET (setOffsetEncode v)) w)))"
  have h: "healthy a u 0 w2" using healthy_write(2) [OF assms(1-3) len none] by (simp add: u_def w2_def)
  have read: "fst (run_state (unitReadOffset sketch_bus a) w2) = Some (sk_calOffset u)"
    using triple_run [OF read_offset h] by simp
  have "fst (run_state (unitWriteOffset sketch_bus a v) w) = (if sk_calOffset u = v then 0 else UNIT_BUS_OFFSET_MISMATCH)"
    using healthy_write(1) [OF assms(1-3) len, of SFP_CMD_SET_OFFSET] read
    by (simp add: unitWriteOffset_def case_prod_beta w2_def)
  moreover have "sk_calOffset u = v \<longleftrightarrow> \<bar>sint v\<bar> \<le> 2038"
    using assms(4) by (auto simp: u_def loop_pass_offset receive_set_offset bad_command_def offset_in_range_def Let_def)
  ultimately show ?thesis by simp
qed

lemma sample_offset: "offset_in_range sample_unit"
  by (simp add: offset_in_range_def sample_unit_def refreshLifetimeReply_def sample_sketch_def)

lemma offset_write_verified_witness:
  "sk_calOffset (wi_unit (snd (run_state (unitWriteOffset sketch_bus 5 (- 55)) (sample_wire sample_unit (\<lambda>_. Delivered))))) = - 55"
proof -
  let ?w = "sample_wire sample_unit (\<lambda>_. Delivered)"
  have w: "wi_addr ?w = 5" "wi_fates ?w = (\<lambda>_. Delivered)" "6 \<le> wi_cap ?w" "wi_unit ?w = sample_unit"
    by (simp_all add: sample_wire_def)
  have "fst (run_state (unitWriteOffset sketch_bus 5 (- 55)) ?w) = 0"
    using offset_write_answers [of ?w 5 "- 55"] w sample_offset by simp
  then have "run_state (unitWriteOffset sketch_bus 5 (- 55)) ?w = (0, snd (run_state (unitWriteOffset sketch_bus 5 (- 55)) ?w))"
    by (metis prod.collapse)
  from offset_write_verified [OF w(1,3) _ this] show ?thesis using w(4) sample_offset by simp
qed

section \<open>Feature gates\<close>

lemma receive_set_gates:
  "receiveLetter (SFP_CMD_SET_GATES # setGatesEncode g) st =
     (let st1 = st\<lparr>sk_pendingReply := REPLY_NONE, sk_linkRxFrames := sk_linkRxFrames st + 1,
                  sk_masterEverContacted := True\<rparr> in
      if unitGateBitsKnown g
      then st1\<lparr>sk_pendingGatesValue := g, sk_pendingGatesWrite := True\<rparr> else bad_command st1)"
proof -
  have "setGatesDecode (setGatesEncode g) 2 = Some g" "length (setGatesEncode g) = 2"
    by (simp_all add: setGatesDecode_def setGatesEncode_def)
  then show ?thesis
    by (simp add: receiveLetter_def receive_opcode_def dispatch_def sfpIsNoArgMutation_def dispatch_set_gates_def Let_def)
qed

definition gates_in_sync :: "sketch \<Rightarrow> bool" where
  "gates_in_sync st \<longleftrightarrow> unitGateBitsKnown (lh_featureGates (sk_lifetime st)) \<and>
     (sk_pendingGatesWrite st \<longrightarrow> unitGateBitsKnown (sk_pendingGatesValue st)) \<and>
     sk_idleHallFutileRehomes st \<le> 0x7F \<and> sk_lifetimeReplyBuf st = lifetimeEncodeReply (lifetime_facts st)"

lemma loop_pass_gates:
  "sk_idleHallFutileRehomes (loop_pass st) = sk_idleHallFutileRehomes st"
  by (simp add: loop_pass_def drain_gates_def drain_offset_def persistLifetimeHealth_def refreshLifetimeReply_def Let_def)

lemma loop_pass_reply:
  "sk_lifetimeReplyBuf st = lifetimeEncodeReply (lifetime_facts st) \<Longrightarrow>
     sk_lifetimeReplyBuf (loop_pass st) = lifetimeEncodeReply (lifetime_facts (loop_pass st))"
proof -
  have facts: "lifetime_facts (st\<lparr>sk_pendingOffsetWrite := p, sk_calOffset := v, sk_eeprom := e\<rparr>) = lifetime_facts st"
    "lifetime_facts (st\<lparr>sk_pendingOffsetWrite := p, sk_calOffset := v\<rparr>) = lifetime_facts st"
    "lifetime_facts (st\<lparr>sk_eeprom := e\<rparr>) = lifetime_facts st"
    "lifetime_facts (st\<lparr>sk_lifetimeReplyBuf := b\<rparr>) = lifetime_facts st"
    "lifetime_facts (st\<lparr>sk_idleHall := i\<rparr>) = lifetime_facts st" for st p v e b i
    by (simp_all add: lifetime_facts_def)
  assume "sk_lifetimeReplyBuf st = lifetimeEncodeReply (lifetime_facts st)"
  then show ?thesis
    by (simp add: loop_pass_def drain_gates_def drain_offset_def persistLifetimeHealth_def refreshLifetimeReply_def
        facts Let_def)
qed

lemma loop_pass_health:
  assumes "sk_pendingGatesWrite st"
  shows "snd (unitEeHealthDecode (ee_read (sk_eeprom (loop_pass st)) EE_HEALTH_BASE 15)) = sk_lifetime (loop_pass st)"
proof -
  have "snd (unitEeHealthDecode (unitEeHealthEncode h)) = h" for h
    using health_block.round_trip [of h] by (simp split: if_splits)
  then show ?thesis
    using assms by (simp add: loop_pass_def drain_gates_def drain_offset_def persistLifetimeHealth_def
        refreshLifetimeReply_def Let_def)
qed

text \<open>Feature gates the master calls written are in force. On a bus that may lose or break off any
  transaction, a verified gates write that returns 0 leaves the unit running with exactly those gates,
  keeping them across a power cycle, and every one of them is a gate this firmware has code for.\<close>

lemma gates_write_verified:
  assumes "wi_addr w = a" "6 \<le> wi_cap w" "gates_in_sync (wi_unit w)"
    and "run_state (unitSetGates sketch_bus a g) w = (0, w')"
  shows "lh_featureGates (sk_lifetime (wi_unit w')) = g \<and> unitGateBitsKnown g \<and>
     lh_featureGates (snd (unitEeHealthDecode (ee_read (sk_eeprom (wi_unit w')) EE_HEALTH_BASE 15))) = g"
proof -
  obtain status w1 where send: "run_state (unitSendPayload sketch_bus a SFP_CMD_SET_GATES (setGatesEncode g)) w = (status, w1)"
    by force
  have len: "length (setGatesEncode g) < wi_cap w" using assms(2) by (simp add: setGatesEncode_def)
  have status: "status = 0" using assms(4) send by (auto simp: unitSetGates_def split: if_splits)
  obtain w2 where sleep: "run_state (b_sleep sketch_bus 30) w1 = ((), w2)" by (simp add: wire_run)
  obtain reply w3 where query: "run_state (unitQuery sketch_bus a SFP_CMD_GET_LIFETIME 15) w2 = (reply, w3)" by force
  obtain buf lt where buf: "reply = Some buf" "lifetimeReadbackValid buf 15 = Some lt" "lt_featureGates lt = g" and w': "w' = w3"
    using assms(4) send status sleep query
    by (auto simp: unitSetGates_def unitReadLifetime_def query_decode_def split: option.splits if_splits)
  define u where "u = loop_pass (receiveLetter (SFP_CMD_SET_GATES # setGatesEncode g) (wi_unit w))"
  define st where "st = loop_pass (staged REPLY_LIFETIME u)"
  have fin: "wi_unit w' = snd (requestEvent st)" "buf = clocked 15 st"
    using write_settle_read [OF assms(1) len, of 15, OF _ send [unfolded status] sleep query [unfolded buf(1)]]
    unfolding receive_read [OF read_opcodes_stage(10)] u_def [symmetric] st_def [symmetric] w' by simp_all
  have idle: "st = staged REPLY_LIFETIME u"
    unfolding st_def by (rule loop_pass_idle) (simp_all add: staged_def u_def loop_pass_offset)
  let ?rx = "receiveLetter (SFP_CMD_SET_GATES # setGatesEncode g) (wi_unit w)"
  have rx: "sk_lifetimeReplyBuf ?rx = lifetimeEncodeReply (lifetime_facts ?rx)" "sk_idleHallFutileRehomes ?rx \<le> 0x7F"
    using assms(3) by (simp_all add: receive_set_gates gates_in_sync_def bad_command_def lifetime_facts_def Let_def)
  have sync: "sk_lifetimeReplyBuf u = lifetimeEncodeReply (lifetime_facts u)" "sk_idleHallFutileRehomes u \<le> 0x7F"
    using loop_pass_gates [of ?rx] loop_pass_reply [of ?rx] rx by (simp_all add: u_def)
  have "buf = lifetimeEncodeReply (lifetime_facts u)"
    unfolding fin(2) idle by (simp add: clocked_def requestEvent_def staged_def sync(1) Let_def)
  then have gates: "lh_featureGates (sk_lifetime u) = g"
    using buf(2,3) lifetime_reply.round_trip [OF lifetime_facts_ok [OF sync(2)]] by (auto simp: lifetime_facts_def Let_def)
  have unit: "sk_lifetime (wi_unit w') = sk_lifetime u" "sk_eeprom (wi_unit w') = sk_eeprom u"
    unfolding fin(1) idle by (simp_all add: requestEvent_def staged_def Let_def)
  show ?thesis
  proof (cases "unitGateBitsKnown g")
    case True
    then have "sk_pendingGatesWrite ?rx" by (simp add: receive_set_gates Let_def)
    then show ?thesis using True unit gates loop_pass_health [of ?rx] by (simp add: u_def)
  next
    case False
    then have "lh_featureGates (sk_lifetime u) =
        (if sk_pendingGatesWrite (wi_unit w) then sk_pendingGatesValue (wi_unit w) else lh_featureGates (sk_lifetime (wi_unit w)))"
      unfolding u_def by (simp add: loop_pass_offset receive_set_gates bad_command_def Let_def)
    then show ?thesis using False assms(3) gates by (auto simp: gates_in_sync_def split: if_splits)
  qed
qed

lemma publishes_loop_pass: "publishes st r \<Longrightarrow> publishes (loop_pass st) r"
proof -
  assume p: "publishes st r"
  have "sk_diagReplyBuf (loop_pass st) = sk_diagReplyBuf st" "sk_vitalsReplyBuf (loop_pass st) = sk_vitalsReplyBuf st"
    "sk_extDiagReplyBuf (loop_pass st) = sk_extDiagReplyBuf st" "sk_busRecordReplyBuf (loop_pass st) = sk_busRecordReplyBuf st"
    "sk_bootInfoReplyBuf (loop_pass st) = sk_bootInfoReplyBuf st"
    by (simp_all add: loop_pass_def drain_gates_def drain_offset_def persistLifetimeHealth_def refreshLifetimeReply_def Let_def)
  then show "publishes (loop_pass st) r"
    using p loop_pass_reply [of st] by (simp add: publishes_def loop_pass_gates)
qed

text \<open>On a bus that delivers, a unit takes the gates it has code for and the master sees it refuse any
  other.\<close>

lemma gates_write_answers:
  assumes "wi_addr w = a" "wi_fates w = (\<lambda>_. Delivered)" "6 \<le> wi_cap w"
    and "gates_in_sync (wi_unit w)" "publishes (wi_unit w) r"
  shows "fst (run_state (unitSetGates sketch_bus a g) w) =
     (if unitGateBitsKnown g then 0 else UNIT_BUS_GATES_MISMATCH)"
proof -
  let ?rx = "receiveLetter (SFP_CMD_SET_GATES # setGatesEncode g) (wi_unit w)"
  define u where "u = loop_pass ?rx"
  have len: "length (setGatesEncode g) \<le> 4" by (simp add: setGatesEncode_def)
  have none: "sk_pendingReply ?rx = REPLY_NONE" by (simp add: receive_set_gates bad_command_def Let_def)
  define w2 where "w2 = snd (run_state (b_sleep sketch_bus 30) (snd (run_state (unitSendPayload sketch_bus a SFP_CMD_SET_GATES (setGatesEncode g)) w)))"
  have h: "healthy a u 0 w2" using healthy_write(2) [OF assms(1-3) len none] by (simp add: u_def w2_def)
  have "publishes ?rx r"
    using assms(5) by (simp add: receive_set_gates bad_command_def publishes_def lifetime_facts_def Let_def)
  then have "publishes u r" unfolding u_def by (rule publishes_loop_pass)
  then have read: "fst (run_state (unitReadLifetime sketch_bus a) w2) = Some (lifetime_facts u)"
    using triple_run [OF read_lifetime h] by blast
  have "fst (run_state (unitSetGates sketch_bus a g) w) =
      (if lh_featureGates (sk_lifetime u) = g then 0 else UNIT_BUS_GATES_MISMATCH)"
    using healthy_write(1) [OF assms(1-3) len, of SFP_CMD_SET_GATES] read
    by (simp add: unitSetGates_def case_prod_beta w2_def lifetime_facts_def Let_def)
  moreover have "lh_featureGates (sk_lifetime u) = g \<longleftrightarrow> unitGateBitsKnown g"
    using assms(4) by (auto simp: u_def loop_pass_offset receive_set_gates bad_command_def gates_in_sync_def Let_def)
  ultimately show ?thesis by simp
qed

lemma gates_write_verified_witness:
  "lh_featureGates (sk_lifetime (wi_unit (snd (run_state (unitSetGates sketch_bus 5 0x0C)
     (sample_wire sample_unit (\<lambda>_. Delivered)))))) = 0x0C"
proof -
  let ?w = "sample_wire sample_unit (\<lambda>_. Delivered)"
  have w: "wi_addr ?w = 5" "wi_fates ?w = (\<lambda>_. Delivered)" "6 \<le> wi_cap ?w" "wi_unit ?w = sample_unit"
    by (simp_all add: sample_wire_def)
  have sync: "gates_in_sync (wi_unit ?w)"
    using sample_publishes unfolding w(4)
    by (simp add: gates_in_sync_def publishes_def)
      (simp add: sample_unit_def refreshLifetimeReply_def sample_sketch_def zero_health_def unitGateBitsKnown_def)
  have known: "unitGateBitsKnown 0x0C"
    by (simp add: unitGateBitsKnown_def UNIT_GATE_ALL_def)
  have "fst (run_state (unitSetGates sketch_bus 5 0x0C) ?w) = 0"
    using gates_write_answers [of ?w 5 sample_report "0x0C"] w sample_publishes sync known by simp
  then have "run_state (unitSetGates sketch_bus 5 0x0C) ?w = (0, snd (run_state (unitSetGates sketch_bus 5 0x0C) ?w))"
    by (metis prod.collapse)
  from gates_write_verified [OF w(1,3) sync this] show ?thesis by simp
qed

section \<open>What a frame can set off\<close>

text \<open>The mutations a frame can leave pending.\<close>

definition pending :: "sketch \<Rightarrow> bool list" where
  "pending st = [sk_pendingBootloader st, sk_pendingSelfTest st, sk_pendingOffsetWrite st, sk_pendingHome st,
     sk_pendingSetAddress st, sk_pendingClearAddress st, sk_pendingIdentify st, sk_pendingOdometerReset st,
     sk_pendingGatesWrite st, sk_pendingBootUpdate st]"

text \<open>C12: What a letter write can do whose letter byte is damaged on the way. For every byte that can
  arrive in place of the letter, the unit's handler leaves every pending mutation but a jog as it was: no
  reset, no home, no EEPROM write, no address change, no boot update. A jog it sets off in one case only,
  when the byte became the jog opcode and the strict gate is off, and then by the speed byte of the write,
  a few steps forward.\<close>

theorem damaged_letter_write_jogs_at_most:
  "pending (receiveLetter [b, word_of_int (unitClampSpeed speed)] st) = pending st \<and>
   sk_pendingJogSteps (receiveLetter [b, word_of_int (unitClampSpeed speed)] st) =
     (if b = 0x91 \<and> \<not> unitGateEnabled (lh_featureGates (sk_lifetime st)) 0x04
      then word_of_int (unitClampSpeed speed) else sk_pendingJogSteps st) \<and>
   unitClampSpeed speed \<in> {1..SFP_UNIT_SPEED_MAX}"
proof -
  have speed: "unitClampSpeed speed \<in> {1..SFP_UNIT_SPEED_MAX}" by (simp add: unitClampSpeed_def)
  let ?v = "word_of_int (unitClampSpeed speed) :: u8"
  let ?st = "st\<lparr>sk_pendingReply := REPLY_NONE, sk_linkRxFrames := sk_linkRxFrames st + 1, sk_masterEverContacted := True\<rparr>"
  consider "uint b < SFP_FLAP_AMOUNT" | "\<not> uint b < SFP_FLAP_AMOUNT" "sfpIsNoArgMutation b"
    | "\<not> uint b < SFP_FLAP_AMOUNT" "\<not> sfpIsNoArgMutation b" by blast
  then show ?thesis
  proof cases
    case 1
    then have "b \<noteq> 0x91" by auto
    with 1 speed show ?thesis by (simp add: receiveLetter_def pending_def Let_def)
  next
    case 2
    then have "receiveLetter [b, ?v] st = bad_command ?st"
      using letter_write_guard [OF 2(2)] by (simp add: receiveLetter_def receive_opcode_def Let_def)
    moreover have "b \<noteq> 0x91" using 2(2) by (auto simp: sfpIsNoArgMutation_def)
    ultimately show ?thesis using speed by (simp add: bad_command_def pending_def)
  next
    case 3
    let ?strict = "unitGateEnabled (lh_featureGates (sk_lifetime st)) 0x04"
    have rx: "receiveLetter [b, ?v] st = dispatch b ?strict [?v] ?st"
      using 3 by (simp add: receiveLetter_def receive_opcode_def Let_def)
    have short: "dispatch_set_offset [v] x = bad_command x" "dispatch_set_address [v] x = bad_command x"
      "dispatch_set_gates [v] x = bad_command x" "dispatch_boot_update [v] x = bad_command x" for v x
      by (simp_all add: dispatch_set_offset_def dispatch_set_address_def dispatch_set_gates_def dispatch_boot_update_def)
    have jog: "dispatch_jog ?strict [v] x = (if ?strict then bad_command x else x\<lparr>sk_pendingJogSteps := v\<rparr>)" for v x
      by (simp add: dispatch_jog_def jogDecode_def Let_def)
    have bad: "pending (bad_command x) = pending x" "sk_pendingJogSteps (bad_command x) = sk_pendingJogSteps x" for x
      by (simp_all add: bad_command_def pending_def)
    have "pending (dispatch b ?strict [?v] ?st) = pending ?st \<and>
        sk_pendingJogSteps (dispatch b ?strict [?v] ?st) = (if b = 0x91 \<and> \<not> ?strict then ?v else sk_pendingJogSteps ?st)"
      using 3(2) unfolding dispatch_def sfpIsNoArgMutation_def
      by (simp only: short jog) (auto simp: bad, simp_all add: pending_def)
    then show ?thesis unfolding rx using speed by (simp add: pending_def)
  qed
qed

section \<open>A unit that stays silent\<close>

text \<open>Asking for every reading in vain leaves what not asking leaves.\<close>

definition unanswered :: "'w bus \<Rightarrow> u8 \<Rightarrow> bool" where
  "unanswered bus a \<longleftrightarrow> (\<forall>opcode n w. fst (run_state (unitQuery bus a opcode n) w) = None)"

lemma vain_read: "unanswered bus a \<Longrightarrow> triple (\<lambda>_. True) (query_decode bus a opcode n decode) (\<lambda>x w. True \<and> x = None)"
  unfolding query_decode_def by (simp add: triple_def unanswered_def run_bind case_prod_beta)

lemma vain_refresh:
  assumes "unanswered bus a"
  shows "triple (\<lambda>_. True) (unitRefreshOdometer bus u a) (\<lambda>x w. True \<and> x = u)"
    and "triple (\<lambda>_. True) (unitRefreshDiag bus u a reading) (\<lambda>x w. True \<and> x =
      (\<lparr>dl_shouldLog = False, dl_newEvents = 0, dl_newBaseline = uf_driftEventsBaseline u\<rparr>, u\<lparr>uf_diagValid := False\<rparr>, reading))"
    and "triple (\<lambda>_. True) (unitRefreshVitals bus u a) (\<lambda>x w. True \<and> x = u\<lparr>uf_vitalsValid := False\<rparr>)"
    and "triple (\<lambda>_. True) (unitRefreshExtDiag bus u a) (\<lambda>x w. True \<and> x = u\<lparr>uf_extDiagValid := False, uf_linkValid := False\<rparr>)"
    and "triple (\<lambda>_. True) (unitRefreshLifetime bus u a) (\<lambda>x w. True \<and> x = u\<lparr>uf_lifetimeValid := False\<rparr>)"
    and "triple (\<lambda>_. True) (unitRefreshBusRecord bus u a) (\<lambda>x w. True \<and> x = u\<lparr>uf_busRecordValid := False\<rparr>)"
    and "triple (\<lambda>_. True) (unitRefreshBootVerdict bus u a logged report)
      (\<lambda>x w. True \<and> x = (False, u\<lparr>uf_bootVerdict := BOOT_INTEGRITY_UNREAD\<rparr>, logged, report))"
proof -
  have query: "triple (\<lambda>_. True) (unitQuery bus a opcode n) (\<lambda>x w. True \<and> x = None)" for opcode n
    using assms by (simp add: triple_def unanswered_def)
  show "triple (\<lambda>_. True) (unitRefreshExtDiag bus u a) (\<lambda>x w. True \<and> x = u\<lparr>uf_extDiagValid := False, uf_linkValid := False\<rparr>)"
    unfolding unitRefreshExtDiag_def by (rule triple_known [OF query]) (simp add: triple_return_iff Let_def)
qed (unfold unitRefreshOdometer_def unitReadOdometer_def unitRefreshDiag_def unitReadDiag_def unitRefreshVitals_def
    unitReadVitals_def unitRefreshLifetime_def unitReadLifetime_def unitRefreshBusRecord_def unitReadBusRecord_def
    unitRefreshBootVerdict_def unitReadBootInfo_def,
    (rule triple_known [OF vain_read [OF assms]], simp add: triple_return_iff Let_def)+)

lemma refresh_in_vain:
  assumes "unanswered bus a"
  shows "fst (run_state (unitRefreshDiagnostics bus sink u a logged) w) = (unitForgetDiagnostics u, logged)"
proof -
  have "triple (\<lambda>_. True) (unitRefreshDiagnostics bus sink u a logged) (\<lambda>x w. x = (unitForgetDiagnostics u, logged))"
    unfolding unitRefreshDiagnostics_def
    by (rule triple_known [OF vain_refresh(1) [OF assms]], rule triple_known [OF vain_refresh(2) [OF assms]],
        simp only: prod.case UnitFacts.simps DriftLogDecision.simps if_False bind_left_identity,
        rule triple_known [OF vain_refresh(3) [OF assms]], rule triple_known [OF vain_refresh(4) [OF assms]],
        rule triple_known [OF vain_refresh(5) [OF assms]], rule triple_known [OF vain_refresh(6) [OF assms]],
        rule triple_known [OF vain_refresh(7) [OF assms]])
       (cases u, simp add: triple_return_iff unitForgetDiagnostics_def)
  from triple_run [OF this TrueI] show ?thesis by simp
qed

text \<open>C13: A unit that stays silent is asked once. Whatever the bus does, a health poll reports the unit as
  answering exactly when the status in the facts is this poll's; and when a unit that missed its status
  before misses it again, nothing else is asked of the bus, and the facts are those that asking for all
  the rest in vain would leave: every reading of the diagnostic replies is marked invalid, and the
  revolution count keeps its last value and mark, as it does whenever it cannot be read.\<close>

theorem silent_unit_is_left_alone:
  assumes "run_state (unitPollHealth bus sink u a baseline logged) w = ((ok, u', baseline', logged'), w')"
  shows "(ok \<longleftrightarrow> uf_statusValid u') \<and>
    (if \<not> ok \<and> uf_misses u > 0
     then w' = snd (run_state (unitReadStatus bus a) w) \<and> logged' = logged \<and> baseline' = baseline \<and>
       \<not> (uf_diagValid u' \<or> uf_vitalsValid u' \<or> uf_extDiagValid u' \<or> uf_linkValid u' \<or> uf_lifetimeValid u' \<or>
          uf_busRecordValid u') \<and> uf_bootVerdict u' = BOOT_INTEGRITY_UNREAD \<and>
       uf_odometer u' = uf_odometer u \<and> uf_odometerValid u' = uf_odometerValid u \<and>
       (\<forall>dead v. unanswered dead a \<longrightarrow>
          fst (run_state (unitRefreshDiagnostics dead sink (u\<lparr>uf_statusValid := False\<rparr>) a logged) v) = (u', logged'))
     else True)"
proof -
  obtain r w1 where read: "run_state (unitReadStatus bus a) w = (r, w1)" by force
  obtain k v b w2 where poll: "run_state (unitPollStatus bus u a baseline) w = ((k, v, b), w2)"
    by (metis prod.collapse)
  then have status: "run_state (unitPollStatus bus u a baseline) w = ((k, v, b), w1)"
    and kv: "uf_statusValid v = k" "uf_misses v = uf_misses u" "\<not> k \<Longrightarrow> b = baseline \<and> v = u\<lparr>uf_statusValid := False\<rparr>"
    using read by (auto simp: unitPollStatus_def Let_def split: option.splits prod.splits)
  show ?thesis
  proof (cases "\<not> k \<and> uf_misses u > 0")
    case True
    then have "(ok, u', baseline', logged') = (False, unitForgetDiagnostics v, b, logged)" "w' = w1"
      using assms status kv by (auto simp: unitPollHealth_def)
    moreover have v: "v = u\<lparr>uf_statusValid := False\<rparr>" using True kv(3) by simp
    ultimately show ?thesis using True kv read
      by (simp add: refresh_in_vain v) (simp add: unitForgetDiagnostics_def)
  next
    case False
    obtain v' l' w2 where diag: "run_state (unitRefreshDiagnostics bus sink v a logged) w1 = ((v', l'), w2)"
      by (metis prod.collapse)
    have "ok = k" "u' = v'" using assms status kv False diag by (auto simp: unitPollHealth_def)
    moreover have "uf_statusValid v' = uf_statusValid v"
      using always_run [OF diagnostics_keep_status diag] by simp
    ultimately show ?thesis using kv False by auto
  qed
qed

lemma silent_unit_is_left_alone_witness:
  "\<exists>u b logged w. run_state (unitPollHealth sketch_bus quiet_notes (fresh_facts\<lparr>uf_misses := 1, uf_vitalsValid := True\<rparr>) 5
      \<lparr>rb_valid = False, rb_brownout = 0, rb_watchdog = 0\<rparr> 0) (sample_wire sample_unit (\<lambda>_. Lost)) = ((False, u, b, logged), w)
    \<and> \<not> uf_vitalsValid u"
proof -
  let ?u = "fresh_facts\<lparr>uf_misses := 1, uf_vitalsValid := True\<rparr>"
  let ?poll = "run_state (unitPollHealth sketch_bus quiet_notes ?u 5
      \<lparr>rb_valid = False, rb_brownout = 0, rb_watchdog = 0\<rparr> 0) (sample_wire sample_unit (\<lambda>_. Lost))"
  obtain ok u b logged w where poll: "?poll = ((ok, u, b, logged), w)" by (metis prod.collapse)
  have "fst (fst ?poll) = False"
    by (simp add: unitPollHealth_def unitPollStatus_def unitReadStatus_def query_decode_def unitQuery_def wire_run
        wire_write_def sample_wire_def Let_def fresh_facts_def)
  then have no: "\<not> ok" using poll by simp
  have "\<not> uf_vitalsValid u"
    using silent_unit_is_left_alone [OF poll] no by (simp add: fresh_facts_def)
  then show ?thesis using poll no by auto
qed

end
