(* ===== verification/Twiboot_Client.thy ===== *)
theory Twiboot_Client
  imports Unit_Bus SF_Text
begin

text \<open>
  The row master's client of the unit bootloader: the twiboot commands of \<open>shared/TwibootFlash.h\<close> and
  the sequences of \<open>shared/UnitBusTwiboot.h\<close> on top of them (rescue probe, boot-section read, the
  flash of one unit). As in \<open>Unit_Bus\<close>, a template is a function of the bus adapter into the state
  monad and an out parameter is returned. A C loop with a constant bound is a recursion on that bound;
  the ready-wait, bounded only by the clock, has fuel.
\<close>

section \<open>Steps and single commands\<close>

datatype TwibootStep =
    Step_Ok | ChipRequestFailed | ChipShortRead | ChipBadSignature | ChipBadPageSize | PageNotReady
  | PageBurstTruncated | PageWriteFailed | PageStuckBusy | PageReadFailed | PageVerifyMismatch

definition twibootStepName :: "TwibootStep \<Rightarrow> string" where
  "twibootStepName s = (case s of
       Step_Ok \<Rightarrow> ''ok''
     | ChipRequestFailed \<Rightarrow> ''chipinfo request failed''
     | ChipShortRead \<Rightarrow> ''chipinfo read short''
     | ChipBadSignature \<Rightarrow> ''unexpected chip signature''
     | ChipBadPageSize \<Rightarrow> ''unexpected page size''
     | PageNotReady \<Rightarrow> ''twiboot not ready before page''
     | PageBurstTruncated \<Rightarrow> ''page burst truncated''
     | PageWriteFailed \<Rightarrow> ''page write failed''
     | PageStuckBusy \<Rightarrow> ''twiboot stuck busy after page''
     | PageReadFailed \<Rightarrow> ''verify read failed''
     | PageVerifyMismatch \<Rightarrow> ''verify mismatch persisted'')"

definition twibootImageFits :: "nat \<Rightarrow> bool" where
  "twibootImageFits len \<longleftrightarrow> len \<le> 0x7C00"

text \<open>Queueing a frame, the same loop of \<open>bus.write\<close> calls everywhere, with the bytes queued.\<close>

fun queue_count :: "'w bus \<Rightarrow> bytes \<Rightarrow> ('w, nat) state" where
  "queue_count bus [] = State_Monad.return 0"
| "queue_count bus (b # bs) = do {
     n \<leftarrow> b_write bus b;
     m \<leftarrow> queue_count bus bs;
     State_Monad.return (n + m)
   }"

definition send_frame :: "'w bus \<Rightarrow> u8 \<Rightarrow> bytes \<Rightarrow> bool \<Rightarrow> ('w, int) state" where
  "send_frame bus addr frame stop = do {
     b_begin bus addr;
     queue_count bus frame;
     b_end bus stop
   }"

definition twibootPing :: "'w bus \<Rightarrow> u8 \<Rightarrow> ('w, int) state" where
  "twibootPing bus addr = send_frame bus addr [0x00] True"

definition twibootExit :: "'w bus \<Rightarrow> u8 \<Rightarrow> ('w, int) state" where
  "twibootExit bus addr = send_frame bus addr [0x01, 0x80] True"

text \<open>\<open>(int32_t)(now - deadline) < 0\<close>: the clock may wrap between the two.\<close>

definition before :: "u32 \<Rightarrow> u32 \<Rightarrow> bool" where
  "before now deadline \<longleftrightarrow> sint (now - deadline) < 0"

fun wait_ready :: "nat \<Rightarrow> 'w bus \<Rightarrow> u8 \<Rightarrow> u32 \<Rightarrow> ('w, bool) state" where
  "wait_ready 0 bus addr deadline = State_Monad.return False"
| "wait_ready (Suc n) bus addr deadline = do {
     now \<leftarrow> b_now bus;
     if before now deadline then do {
       status \<leftarrow> twibootPing bus addr;
       if status = 0 then State_Monad.return True
       else do { b_sleep bus 1; wait_ready n bus addr deadline }
     } else State_Monad.return False
   }"

definition twibootWaitReady :: "'w bus \<Rightarrow> u8 \<Rightarrow> u16 \<Rightarrow> ('w, bool) state" where
  "twibootWaitReady bus addr timeoutMs = do {
     now \<leftarrow> b_now bus;
     wait_ready (unat timeoutMs + 1) bus addr (now + ucast timeoutMs)
   }"

fun await_bootloader :: "nat \<Rightarrow> 'w bus \<Rightarrow> u8 \<Rightarrow> ('w, bool) state" where
  "await_bootloader 0 bus addr = State_Monad.return False"
| "await_bootloader (Suc n) bus addr = do {
     status \<leftarrow> twibootPing bus addr;
     if status = 0 then State_Monad.return True
     else do { b_sleep bus 100; await_bootloader n bus addr }
   }"

definition twibootAwaitBootloader :: "'w bus \<Rightarrow> u8 \<Rightarrow> ('w, bool) state" where
  "twibootAwaitBootloader bus addr = await_bootloader 5 bus addr"

definition twibootDrain :: "'w bus \<Rightarrow> ('w, unit) state" where
  "twibootDrain bus = drain_all bus"

text \<open>What follows every read that came back short: the rest is read away and the tree told.\<close>

definition short_read :: "'w bus \<Rightarrow> ('w, unit) state" where
  "short_read bus = do { twibootDrain bus; b_readFailed bus }"

section \<open>Who is there\<close>

definition twibootIsBootloader :: "'w bus \<Rightarrow> u8 \<Rightarrow> ('w, bool) state" where
  "twibootIsBootloader bus addr = do {
     status \<leftarrow> send_frame bus addr [0x02, 0x00, 0x00, 0x00] False;
     if status \<noteq> 0 then State_Monad.return False
     else do {
       got \<leftarrow> b_request bus addr 8;
       if got < 3 then do { short_read bus; State_Monad.return False }
       else do {
         sig0 \<leftarrow> read_byte bus;
         sig1 \<leftarrow> read_byte bus;
         sig2 \<leftarrow> read_byte bus;
         twibootDrain bus;
         State_Monad.return (isAtmega328pSignature sig0 sig1 sig2)
       }
     }
   }"

definition twibootParseVersion :: "bytes \<Rightarrow> TwibootIdentity" where
  "twibootParseVersion info =
     (if info ! 0 = 0x53 \<and> info ! 1 = 0x46 \<and> info ! 2 \<ge> 2 \<and> info ! 2 \<noteq> TWIBOOT_GEN_UNKNOWN
      then fresh_identity\<lparr>ti_generation := info ! 2, ti_caps := info ! 3\<rparr>
      else if take 7 info = [0x54, 0x57, 0x49, 0x42, 0x4F, 0x4F, 0x54]
      then fresh_identity\<lparr>ti_generation := TWIBOOT_GEN_NO_IDENTITY\<rparr>
      else fresh_identity\<lparr>ti_generation := TWIBOOT_GEN_UNKNOWN\<rparr>)"

definition TWIBOOT_CAP_CRASH_RECORD :: u8 where "TWIBOOT_CAP_CRASH_RECORD = 0x04"
definition TWIBOOT_CAP_FUSE_CHIPINFO :: u8 where "TWIBOOT_CAP_FUSE_CHIPINFO = 0x08"

text \<open>The last part of the identity: flash bytes 0..3 are read back and compared with the fuses.\<close>

definition read_fuses_back ::
    "'w bus \<Rightarrow> u8 \<Rightarrow> TwibootIdentity \<Rightarrow> bytes \<Rightarrow> ('w, bool \<times> TwibootIdentity) state" where
  "read_fuses_back bus addr out fuses = do {
     status \<leftarrow> send_frame bus addr [0x02, 0x01, 0x00, 0x00] False;
     if status \<noteq> 0 then State_Monad.return (True, out)
     else do {
       got \<leftarrow> b_request bus addr 4;
       if got \<noteq> 4 then do { short_read bus; State_Monad.return (True, out) }
       else do {
         flash0to3 \<leftarrow> repeat_state 4 (read_byte bus);
         let (lfuse, lock, efuse, hfuse) = (fuses ! 0, fuses ! 1, fuses ! 2, fuses ! 3);
         State_Monad.return
           (if bootLockFuseReadFellThrough lock lfuse hfuse efuse flash0to3 then (True, out)
            else (True, out\<lparr>ti_fusesValid := True, ti_lfuse := lfuse, ti_lock := lock,
                            ti_efuse := efuse, ti_hfuse := hfuse\<rparr>))
       }
     }
   }"

text \<open>What an image with the capabilities serves behind its chipinfo.\<close>

definition read_capabilities ::
    "'w bus \<Rightarrow> u8 \<Rightarrow> TwibootIdentity \<Rightarrow> ('w, bool \<times> TwibootIdentity) state" where
  "read_capabilities bus addr out =
     (let wantFuses = (ti_caps out AND TWIBOOT_CAP_FUSE_CHIPINFO \<noteq> 0);
          wantCrash = (ti_caps out AND TWIBOOT_CAP_CRASH_RECORD \<noteq> 0);
          chipLen = (if wantCrash then 13 else 12)
      in if \<not> wantFuses \<and> \<not> wantCrash then State_Monad.return (True, out)
         else do {
           status \<leftarrow> send_frame bus addr [0x02, 0x00, 0x00, 0x00] False;
           if status \<noteq> 0 then State_Monad.return (True, out)
           else do {
             got \<leftarrow> b_request bus addr chipLen;
             if got \<noteq> chipLen then do { short_read bus; State_Monad.return (True, out) }
             else do {
               repeat_state 8 (b_read bus);
               fuses \<leftarrow> repeat_state 4 (read_byte bus);
               out \<leftarrow> (if wantCrash then do {
                        n \<leftarrow> read_byte bus;
                        State_Monad.return (out\<lparr>ti_crashCount := n, ti_crashValid := True\<rparr>)
                      } else State_Monad.return out);
               if \<not> wantFuses then State_Monad.return (True, out)
               else read_fuses_back bus addr out fuses
             }
           }
         })"

definition twibootReadIdentity :: "'w bus \<Rightarrow> u8 \<Rightarrow> ('w, bool \<times> TwibootIdentity) state" where
  "twibootReadIdentity bus addr = do {
     status \<leftarrow> send_frame bus addr [0x01] False;
     if status \<noteq> 0 then State_Monad.return (False, fresh_identity)
     else do {
       got \<leftarrow> b_request bus addr 16;
       if got \<noteq> 16 then do { short_read bus; State_Monad.return (False, fresh_identity) }
       else do {
         info \<leftarrow> repeat_state 16 (read_byte bus);
         let out = twibootParseVersion info;
         if ti_generation out < 2 \<or> ti_generation out = TWIBOOT_GEN_UNKNOWN
         then State_Monad.return (True, out)
         else read_capabilities bus addr out
       }
     }
   }"

definition twibootIdentityText :: "nat \<Rightarrow> TwibootIdentity \<Rightarrow> string" where
  "twibootIdentityText cap ident =
     (if ti_generation ident = TWIBOOT_GEN_UNREAD then ''''
      else if ti_generation ident = TWIBOOT_GEN_NO_IDENTITY
      then snprintf_text cap '' (bootloader without identity bytes)''
      else if ti_generation ident = TWIBOOT_GEN_UNKNOWN
      then snprintf_text cap '' (bootloader identity not recognised)''
      else
        (let crash = (if ti_crashValid ident \<and> ti_crashCount ident \<ge> 2
               then snprintf_text 36 ('', '' @ (if twibootHeldForCrashing ident then ''HELD after '' else '''')
                      @ show_dec (unat (ti_crashCount ident)) @ '' crash reset(s)'')
               else '''')
         in if \<not> ti_fusesValid ident
            then snprintf_text cap ('' (bootloader v'' @ show_dec (unat (ti_generation ident)) @ crash
                   @ '', lock/fuses unreadable)'')
            else snprintf_text cap ('' (bootloader v'' @ show_dec (unat (ti_generation ident)) @ crash
                   @ '', lock '' @ show_hex2 (ti_lock ident) @ '', fuses l '' @ show_hex2 (ti_lfuse ident)
                   @ '' h '' @ show_hex2 (ti_hfuse ident) @ '' e '' @ show_hex2 (ti_efuse ident) @ '')'')))"

definition twibootVerifyChip :: "'w bus \<Rightarrow> u8 \<Rightarrow> ('w, TwibootStep) state" where
  "twibootVerifyChip bus addr = do {
     status \<leftarrow> send_frame bus addr [0x02, 0x00, 0x00, 0x00] False;
     if status \<noteq> 0 then State_Monad.return ChipRequestFailed
     else do {
       got \<leftarrow> b_request bus addr 8;
       if got \<noteq> 8 then do { short_read bus; State_Monad.return ChipShortRead }
       else do {
         sig0 \<leftarrow> read_byte bus;
         sig1 \<leftarrow> read_byte bus;
         sig2 \<leftarrow> read_byte bus;
         pageSize \<leftarrow> read_byte bus;
         twibootDrain bus;
         State_Monad.return
           (if \<not> isAtmega328pSignature sig0 sig1 sig2 then ChipBadSignature
            else if pageSize \<noteq> 128 then ChipBadPageSize else Step_Ok)
       }
     }
   }"

section \<open>Pages\<close>

definition hold_code :: bytes where
  "hold_code = [0xF8, 0x94, 0x88, 0xE1, 0x80, 0x93, 0x60, 0x00,
                0x88, 0xE0, 0x80, 0x93, 0x60, 0x00, 0xFF, 0xCF]"

definition twibootFillHoldPage :: bytes where
  "twibootFillHoldPage = hold_code @ replicate 112 0xFF"

definition page_header :: "u16 \<Rightarrow> bytes" where
  "page_header flashAddr = [0x02, 0x01, byte_of 1 flashAddr, byte_of 0 flashAddr]"

definition twibootReadFlashPage :: "'w bus \<Rightarrow> u8 \<Rightarrow> u16 \<Rightarrow> ('w, bytes option) state" where
  "twibootReadFlashPage bus addr flashAddr = do {
     status \<leftarrow> send_frame bus addr (page_header flashAddr) False;
     if status \<noteq> 0 then State_Monad.return None
     else do {
       got \<leftarrow> b_request bus addr 128;
       if got \<noteq> 128 then do { short_read bus; State_Monad.return None }
       else do {
         bs \<leftarrow> repeat_state 128 (read_byte bus);
         State_Monad.return (Some bs)
       }
     }
   }"

definition twibootWriteFlashPage :: "'w bus \<Rightarrow> u8 \<Rightarrow> u16 \<Rightarrow> bytes \<Rightarrow> ('w, TwibootStep) state" where
  "twibootWriteFlashPage bus addr flashAddr page = do {
     b_begin bus addr;
     queued \<leftarrow> queue_count bus (page_header flashAddr @ take 128 page);
     if queued \<noteq> 128 + 4 then State_Monad.return PageBurstTruncated
     else do {
       status \<leftarrow> b_end bus True;
       State_Monad.return (if status = 0 then Step_Ok else PageWriteFailed)
     }
   }"

fun read_attempts :: "nat \<Rightarrow> 'w bus \<Rightarrow> u8 \<Rightarrow> u16 \<Rightarrow> ('w, bytes option) state" where
  "read_attempts 0 bus addr flashAddr = State_Monad.return None"
| "read_attempts (Suc n) bus addr flashAddr = do {
     r \<leftarrow> twibootReadFlashPage bus addr flashAddr;
     case r of None \<Rightarrow> read_attempts n bus addr flashAddr | Some bs \<Rightarrow> State_Monad.return (Some bs)
   }"

fun write_attempts ::
    "nat \<Rightarrow> 'w bus \<Rightarrow> u8 \<Rightarrow> u16 \<Rightarrow> bytes \<Rightarrow> u8 \<Rightarrow> ('w, TwibootStep \<times> u8) state" where
  "write_attempts 0 bus addr flashAddr page rewrites = State_Monad.return (PageVerifyMismatch, rewrites)"
| "write_attempts (Suc n) bus addr flashAddr page rewrites = do {
     ready \<leftarrow> twibootWaitReady bus addr 100;
     if \<not> ready then State_Monad.return (PageNotReady, rewrites)
     else do {
       wrote \<leftarrow> twibootWriteFlashPage bus addr flashAddr page;
       if wrote \<noteq> Step_Ok then State_Monad.return (wrote, rewrites)
       else do {
         again \<leftarrow> twibootWaitReady bus addr 50;
         if \<not> again then State_Monad.return (PageStuckBusy, rewrites)
         else do {
           back \<leftarrow> read_attempts 3 bus addr flashAddr;
           case back of
             None \<Rightarrow> State_Monad.return (PageReadFailed, rewrites)
           | Some bs \<Rightarrow>
               if bs = take 128 page then State_Monad.return (Step_Ok, rewrites)
               else write_attempts n bus addr flashAddr page (rewrites + 1)
         }
       }
     }
   }"

definition twibootFlashAndVerifyPage ::
    "'w bus \<Rightarrow> u8 \<Rightarrow> u16 \<Rightarrow> bytes \<Rightarrow> ('w, TwibootStep \<times> u8) state" where
  "twibootFlashAndVerifyPage bus addr flashAddr page = write_attempts 2 bus addr flashAddr page 0"

fun await_sketch :: "nat \<Rightarrow> 'w bus \<Rightarrow> u8 \<Rightarrow> ('w, bool) state" where
  "await_sketch 0 bus addr = State_Monad.return False"
| "await_sketch (Suc n) bus addr = do {
     b_sleep bus 500;
     status \<leftarrow> send_frame bus addr [] True;
     if status = 0 then State_Monad.return True else await_sketch n bus addr
   }"

definition twibootAwaitSketch :: "'w bus \<Rightarrow> u8 \<Rightarrow> ('w, bool) state" where
  "twibootAwaitSketch bus addr = await_sketch 5 bus addr"

section \<open>The rescue probe\<close>

definition unitRescueProbe :: "'w bus \<Rightarrow> u8 \<Rightarrow> ('w, UnitRescueProbe \<times> TwibootIdentity) state" where
  "unitRescueProbe bus addr = do {
     b_mark bus Act_Probe addr;
     status \<leftarrow> send_frame bus addr [] True;
     if status \<noteq> 0 then State_Monad.return (Rescue_NoAck, fresh_identity)
     else do {
       isBoot \<leftarrow> twibootIsBootloader bus addr;
       if \<not> isBoot then State_Monad.return (Rescue_SketchSilent, fresh_identity)
       else do {
         (ok, ident) \<leftarrow> twibootReadIdentity bus addr;
         ident \<leftarrow> (if ok then State_Monad.return ident
                   else do { (_, ident) \<leftarrow> twibootReadIdentity bus addr; State_Monad.return ident });
         if twibootHeldForCrashing ident then State_Monad.return (Rescue_CrashHeld, ident)
         else do {
           status \<leftarrow> twibootExit bus addr;
           State_Monad.return (if status \<noteq> 0 then Rescue_ExitRefused else Rescue_Bootloader, ident)
         }
       }
     }
   }"

section \<open>The boot-section read\<close>

datatype UnitBootReadResult = BootRead_Ok | BootRead_Silent | BootRead_ChipMismatch | BootRead_Failed

fun read_boot_pages ::
    "nat \<Rightarrow> nat \<Rightarrow> 'w bus \<Rightarrow> u8 \<Rightarrow> ('w, unit) state \<Rightarrow> ('w, bytes option) state" where
  "read_boot_pages 0 page bus addr keepAlive = State_Monad.return (Some [])"
| "read_boot_pages (Suc n) page bus addr keepAlive = do {
     keepAlive;
     r \<leftarrow> read_attempts 2 bus addr (of_nat (0x7C00 + page * 128));
     case r of
       None \<Rightarrow> State_Monad.return None
     | Some bs \<Rightarrow> do {
         rest \<leftarrow> read_boot_pages n (page + 1) bus addr keepAlive;
         State_Monad.return (map_option (\<lambda>more. bs @ more) rest)
       }
   }"

fun exit_attempts :: "nat \<Rightarrow> 'w bus \<Rightarrow> u8 \<Rightarrow> ('w, bool) state" where
  "exit_attempts 0 bus addr = State_Monad.return False"
| "exit_attempts (Suc n) bus addr = do {
     status \<leftarrow> twibootExit bus addr;
     if status = 0 then State_Monad.return True
     else do { b_sleep bus 20; exit_attempts n bus addr }
   }"

record boot_read =
  br_result :: UnitBootReadResult
  br_out :: "bytes option"
  br_exitAcked :: bool
  br_answeredAfter :: bool

definition unitReadBootSection :: "'w bus \<Rightarrow> u8 \<Rightarrow> ('w, unit) state \<Rightarrow> ('w, boot_read) state" where
  "unitReadBootSection bus addr keepAlive = do {
     live \<leftarrow> twibootAwaitBootloader bus addr;
     if \<not> live
     then State_Monad.return \<lparr>br_result = BootRead_Silent, br_out = None, br_exitAcked = False,
                              br_answeredAfter = False\<rparr>
     else do {
       chip \<leftarrow> twibootVerifyChip bus addr;
       (result, out) \<leftarrow>
         (if chip \<noteq> Step_Ok then State_Monad.return (BootRead_ChipMismatch, None)
          else do {
            r \<leftarrow> read_boot_pages 8 0 bus addr keepAlive;
            State_Monad.return (case r of None \<Rightarrow> (BootRead_Failed, None) | Some bs \<Rightarrow> (BootRead_Ok, Some bs))
          });
       exitAcked \<leftarrow> exit_attempts 3 bus addr;
       if \<not> exitAcked
       then State_Monad.return \<lparr>br_result = result, br_out = out, br_exitAcked = False, br_answeredAfter = False\<rparr>
       else do {
         keepAlive;
         b_sleep bus 2000;
         status \<leftarrow> send_frame bus addr [] True;
         (if status = 0 then do { unitRebootSketch bus addr; State_Monad.return () }
          else State_Monad.return ());
         State_Monad.return \<lparr>br_result = result, br_out = out, br_exitAcked = True,
                             br_answeredAfter = (status = 0)\<rparr>
       }
     }
   }"

section \<open>The flash of one unit\<close>

datatype UnitFlashResult =
    Flash_Ok | ImageTooLarge | BootloaderSilent | ChipMismatch | PageFailed | ExitFailed
  | PostBootSilent | Flash_Aborted

record UnitFlashReport =
  fr_result :: UnitFlashResult
  fr_step :: TwibootStep
  fr_pageAddr :: u16
  fr_rebootStatus :: int

definition fresh_flash_report :: UnitFlashReport where
  "fresh_flash_report = \<lparr>fr_result = Flash_Ok, fr_step = Step_Ok, fr_pageAddr = 0, fr_rebootStatus = 0\<rparr>"

record 'w flash_watch =
  fw_keepGoing :: "('w, bool) state"
  fw_pageRewritten :: "u16 \<Rightarrow> u8 \<Rightarrow> ('w, unit) state"

text \<open>The page loop from \<open>at\<close> on, with \<open>n\<close> rounds left: a report ends the flash, \<open>None\<close> is a full run.\<close>

fun flash_pages ::
    "nat \<Rightarrow> nat \<Rightarrow> 'w bus \<Rightarrow> u8 \<Rightarrow> nat \<Rightarrow> (nat \<Rightarrow> bytes) \<Rightarrow> 'w flash_watch \<Rightarrow>
     UnitFlashReport \<Rightarrow> ('w, UnitFlashReport \<times> bool) state" where
  "flash_pages 0 at bus addr pageCount pages watch report = State_Monad.return (report, True)"
| "flash_pages (Suc n) at bus addr pageCount pages watch report = do {
     go \<leftarrow> fw_keepGoing watch;
     if \<not> go then State_Monad.return (report\<lparr>fr_result := Flash_Aborted\<rparr>, False)
     else do {
       let pageIndex = (if at = pageCount then 0 else at);
       let flashAddr = of_nat (pageIndex * 128);
       let pageBuf = (if at = 0 then twibootFillHoldPage else pages pageIndex);
       (s, rewrites) \<leftarrow> twibootFlashAndVerifyPage bus addr flashAddr pageBuf;
       (if rewrites > 0 then fw_pageRewritten watch flashAddr rewrites else State_Monad.return ());
       if s \<noteq> Step_Ok
       then State_Monad.return
              (report\<lparr>fr_step := s, fr_result := PageFailed, fr_pageAddr := flashAddr\<rparr>, False)
       else flash_pages n (at + 1) bus addr pageCount pages watch (report\<lparr>fr_step := s\<rparr>)
     }
   }"

text \<open>What follows the last page: the exit, the wait for the sketch, its clean restart.\<close>

definition flash_finish :: "'w bus \<Rightarrow> u8 \<Rightarrow> UnitFlashReport \<Rightarrow> ('w, UnitFlashReport) state" where
  "flash_finish bus addr report = do {
     status \<leftarrow> twibootExit bus addr;
     if status \<noteq> 0 then State_Monad.return (report\<lparr>fr_result := ExitFailed\<rparr>)
     else do {
       up \<leftarrow> twibootAwaitSketch bus addr;
       if \<not> up then State_Monad.return (report\<lparr>fr_result := PostBootSilent\<rparr>)
       else do {
         reboot \<leftarrow> unitRebootSketch bus addr;
         State_Monad.return (report\<lparr>fr_rebootStatus := reboot\<rparr>)
       }
     }
   }"

definition unitFlashImage ::
    "'w bus \<Rightarrow> u8 \<Rightarrow> nat \<Rightarrow> (nat \<Rightarrow> bytes) \<Rightarrow> 'w flash_watch \<Rightarrow> ('w, UnitFlashReport) state" where
  "unitFlashImage bus addr imageLen pages watch =
     (let report = fresh_flash_report in
      if \<not> twibootImageFits imageLen then State_Monad.return (report\<lparr>fr_result := ImageTooLarge\<rparr>)
      else do {
        live \<leftarrow> twibootAwaitBootloader bus addr;
        if \<not> live then State_Monad.return (report\<lparr>fr_result := BootloaderSilent\<rparr>)
        else do {
          chip \<leftarrow> twibootVerifyChip bus addr;
          let report = report\<lparr>fr_step := chip\<rparr>;
          if chip \<noteq> Step_Ok then State_Monad.return (report\<lparr>fr_result := ChipMismatch\<rparr>)
          else do {
            let pageCount = imageLen div 128;
            (report, whole) \<leftarrow>
              flash_pages (if pageCount > 0 then pageCount + 1 else 0) 0 bus addr pageCount pages watch report;
            if \<not> whole then State_Monad.return report
            else flash_finish bus addr report
          }
        }
      })"

end
