(* ===== verification/Flash_Contract.thy ===== *)
theory Flash_Contract
  imports Twiboot_Client
begin

text \<open>
  What the flash client of \<open>Twiboot_Client\<close> relies on, as an interface: a bus at whose far end a unit
  sits in its bootloader, with the program memory as an abstract value and every command free to fail.
  The client's guarantees are proved here from the interface alone; \<open>Flash_Link\<close> shows that the model
  of the bootloader, on the simulated wire, provides it.

  The bootloader leaves for the application when it has not been addressed for a while. \<open>held n w\<close> says
  that it stays for at least another \<open>n\<close> ticks of its timer; \<open>started w\<close>, that it has left.
\<close>

section \<open>The interface\<close>

abbreviation (input) fresh_hold :: nat where "fresh_hold \<equiv> 1800"

text \<open>A tick takes a little over 16 ms, so this is the most that fit into a sleep.\<close>

definition sleep_ticks :: "u32 \<Rightarrow> nat" where
  "sleep_ticks ms = unat ms div 16 + 1"

text \<open>A page write is trusted with nothing: the page may end up with anything, the rest of memory is as
  before. That a page is right is known only from reading it back.\<close>

definition page_touched :: "flash \<Rightarrow> nat \<Rightarrow> flash \<Rightarrow> bool" where
  "page_touched f p g \<longleftrightarrow> (\<exists>page. length page = 128 \<and> g = put_page f p page)"

lemma page_touched_refl [simp]: "page_touched f p f"
  using put_page_same [of f p] unfolding page_touched_def by (metis length_page_at)

lemma page_touched_again: "page_touched f p g \<Longrightarrow> page_touched g p h \<Longrightarrow> page_touched f p h"
  by (auto simp: page_touched_def)

lemma page_touched_verified:
  "page_touched f p g \<Longrightarrow> page_at g p = page \<Longrightarrow> g = put_page f p page"
  by (auto simp: page_touched_def)

locale flash_bus =
  fixes bus :: "'w bus" and addr :: u8
    and flash_of :: "'w \<Rightarrow> flash" and held :: "nat \<Rightarrow> 'w \<Rightarrow> bool" and started :: "'w \<Rightarrow> bool"
  assumes held_less: "held n w \<Longrightarrow> m \<le> n \<Longrightarrow> held m w"
    and now_law: "triple (\<lambda>w. held n w \<and> flash_of w = f) (b_now bus) (\<lambda>_ w. held n w \<and> flash_of w = f)"
    and sleep_law: "triple (\<lambda>w. held (n + sleep_ticks ms) w \<and> flash_of w = f) (b_sleep bus ms)
                      (\<lambda>_ w. held n w \<and> flash_of w = f)"
    and ping_law: "triple (\<lambda>w. held n w \<and> flash_of w = f) (twibootPing bus addr)
                     (\<lambda>r w. held n w \<and> flash_of w = f \<and> (r = 0 \<longrightarrow> held fresh_hold w))"
    and chip_law: "triple (\<lambda>w. held n w \<and> flash_of w = f) (twibootVerifyChip bus addr)
                     (\<lambda>_ w. held n w \<and> flash_of w = f)"
    and read_law: "unat a mod 128 = 0 \<Longrightarrow>
                   triple (\<lambda>w. held n w \<and> flash_of w = f) (twibootReadFlashPage bus addr a)
                     (\<lambda>r w. held n w \<and> flash_of w = f \<and> (r \<noteq> None \<longrightarrow> r = Some (page_at f (unat a div 128))))"
    and write_law: "unat a mod 128 = 0 \<Longrightarrow> unat a < 0x7C00 \<Longrightarrow> length page = 128 \<Longrightarrow>
                   triple (\<lambda>w. held n w \<and> flash_of w = f) (twibootWriteFlashPage bus addr a page)
                     (\<lambda>_ w. held n w \<and> page_touched f (unat a div 128) (flash_of w))"
    and exit_law: "triple (\<lambda>w. held n w \<and> flash_of w = f) (twibootExit bus addr)
                     (\<lambda>r w. flash_of w = f \<and> (started w \<or> r \<noteq> 0 \<and> held n w))"
    and started_sleep: "triple (\<lambda>w. started w \<and> flash_of w = f) (b_sleep bus ms) (\<lambda>_ w. started w \<and> flash_of w = f)"
    and started_send: "length frame \<le> 2 \<Longrightarrow> triple (\<lambda>w. started w \<and> flash_of w = f) (send_frame bus addr frame True)
                          (\<lambda>_ w. started w \<and> flash_of w = f)"
    and started_reboot: "triple (\<lambda>w. started w \<and> flash_of w = f) (unitRebootSketch bus addr)
                          (\<lambda>_ w. started w \<and> flash_of w = f)"

section \<open>The states of program memory during a flash\<close>

text \<open>The write of round \<open>k\<close> of a flash of \<open>n\<close> pages, and memory after the first \<open>k\<close> rounds.\<close>

definition round_page :: "nat \<Rightarrow> nat \<Rightarrow> nat" where
  "round_page n k = (if k = n then 0 else k)"

definition round_data :: "nat \<Rightarrow> (nat \<Rightarrow> bytes) \<Rightarrow> nat \<Rightarrow> bytes" where
  "round_data n pages k = (if k = 0 then twibootFillHoldPage else pages (round_page n k))"

fun flash_after :: "flash \<Rightarrow> nat \<Rightarrow> (nat \<Rightarrow> bytes) \<Rightarrow> nat \<Rightarrow> flash" where
  "flash_after f n pages 0 = f"
| "flash_after f n pages (Suc k) =
     put_page (flash_after f n pages k) (round_page n k) (round_data n pages k)"

text \<open>The three that matter: the old program, a program that only resets into the bootloader, with
  every other page old or new, and the new program over the rest of the old memory.\<close>

definition image_over :: "flash \<Rightarrow> nat \<Rightarrow> (nat \<Rightarrow> bytes) \<Rightarrow> flash" where
  "image_over f n pages = (\<lambda>x. if x div 128 < n then pages (x div 128) ! (x mod 128) else f x)"

definition safe_flash :: "flash \<Rightarrow> nat \<Rightarrow> (nat \<Rightarrow> bytes) \<Rightarrow> flash \<Rightarrow> bool" where
  "safe_flash f n pages g \<longleftrightarrow>
     g = f \<or> g = image_over f n pages \<or>
     page_at g 0 = twibootFillHoldPage \<and>
       (\<forall>p > 0. page_at g p = page_at f p \<or> p < n \<and> page_at g p = pages p)"

lemma length_hold [simp]: "length twibootFillHoldPage = 128"
  by (simp add: twibootFillHoldPage_def hold_code_def)

lemma page_at_image_over:
  assumes "\<forall>p < n. length (pages p) = 128"
  shows "page_at (image_over f n pages) p = (if p < n then pages p else page_at f p)"
  using assms by (auto simp: page_at_def image_over_def intro: nth_equalityI)

lemma flash_after_pages:
  assumes "\<forall>p < n. length (pages p) = 128" "0 < k" "k \<le> n"
  shows "page_at (flash_after f n pages k) p =
     (if p = 0 then twibootFillHoldPage else if p < k then pages p else page_at f p)"
  using assms(2,3)
proof (induction k)
  case (Suc k)
  have "length (round_data n pages k) = 128" using assms(1) Suc.prems by (simp add: round_data_def round_page_def)
  moreover have "round_page n k = k" using Suc.prems by (simp add: round_page_def)
  ultimately show ?case
    using Suc by (cases "k = 0") (auto simp: round_data_def round_page_def)
qed simp

lemma flash_after_whole:
  assumes "\<forall>p < n. length (pages p) = 128" "0 < n"
  shows "flash_after f n pages (Suc n) = image_over f n pages"
proof (rule flash_eqI)
  fix p
  show "page_at (flash_after f n pages (Suc n)) p = page_at (image_over f n pages) p"
    using assms flash_after_pages [OF assms(1), of n f] by (simp add: round_data_def round_page_def page_at_image_over)
qed

lemma flash_after_safe:
  assumes "\<forall>p < n. length (pages p) = 128" "0 < n" "k \<le> Suc n"
  shows "safe_flash f n pages (flash_after f n pages k)"
proof -
  consider "k = 0" | "0 < k" "k \<le> n" | "k = Suc n" using assms(3) by linarith
  then show ?thesis
  proof cases
    case 1
    then show ?thesis by (simp add: safe_flash_def)
  next
    case 2
    then show ?thesis using flash_after_pages [OF assms(1), of k f] by (auto simp: safe_flash_def)
  next
    case 3
    then show ?thesis using flash_after_whole [OF assms(1,2)] by (simp add: safe_flash_def del: flash_after.simps(2))
  qed
qed

section \<open>What the client makes of it\<close>

text \<open>The tree's hooks do not touch the unit.\<close>

definition hooks_quiet :: "('w \<Rightarrow> flash) \<Rightarrow> (nat \<Rightarrow> 'w \<Rightarrow> bool) \<Rightarrow> 'w flash_watch \<Rightarrow> bool" where
  "hooks_quiet flash_of held watch \<longleftrightarrow>
     (\<forall>n f. triple (\<lambda>w. held n w \<and> flash_of w = f) (fw_keepGoing watch) (\<lambda>_ w. held n w \<and> flash_of w = f)) \<and>
     (\<forall>n f a r. triple (\<lambda>w. held n w \<and> flash_of w = f) (fw_pageRewritten watch a r)
        (\<lambda>_ w. held n w \<and> flash_of w = f))"

text \<open>What a flash that came back leaves, by what it reported. A page that failed may hold anything; the
  memory around it is still one of the safe states, and unless it was the first page a unit that starts
  by itself only resets.\<close>

definition flash_outcome :: "flash \<Rightarrow> nat \<Rightarrow> (nat \<Rightarrow> bytes) \<Rightarrow> UnitFlashReport \<Rightarrow> flash \<Rightarrow> bool" where
  "flash_outcome f n pages r g \<longleftrightarrow> (case fr_result r of
       Flash_Ok \<Rightarrow> g = image_over f n pages
     | ExitFailed \<Rightarrow> g = image_over f n pages
     | PostBootSilent \<Rightarrow> g = image_over f n pages
     | Flash_Aborted \<Rightarrow> safe_flash f n pages g
     | PageFailed \<Rightarrow> (let p = unat (fr_pageAddr r) div 128 in
         (\<exists>h. safe_flash f n pages h \<and> page_touched h p g) \<and>
         (p \<noteq> 0 \<longrightarrow> page_at g 0 = twibootFillHoldPage))
     | _ \<Rightarrow> g = f)"

lemma page_touched_other: "page_touched h p g \<Longrightarrow> q \<noteq> p \<Longrightarrow> page_at g q = page_at h q"
  by (auto simp: page_touched_def)

lemma failed_round_outcome:
  assumes "\<forall>p < n. length (pages p) = 128" "0 < n" "k \<le> n" "n \<le> 248"
    and "page_touched (flash_after f n pages k) (round_page n k) g"
  shows "flash_outcome f n pages
     (report\<lparr>fr_step := s, fr_result := PageFailed, fr_pageAddr := of_nat (round_page n k * 128)\<rparr>) g"
proof -
  have "round_page n k < 248" using assms(3,4) by (simp add: round_page_def)
  then have "unat (of_nat (round_page n k * 128) :: u16) = round_page n k * 128"
    by (intro of_nat_inverse) simp_all
  then have p: "unat (of_nat (round_page n k * 128) :: u16) div 128 = round_page n k" by simp
  have "page_at g 0 = twibootFillHoldPage" if "round_page n k \<noteq> 0"
    using page_touched_other [OF assms(5), of 0] that flash_after_pages [OF assms(1), of k f 0] assms(3)
    by (simp add: round_page_def split: if_splits)
  then show ?thesis
    using flash_after_safe [OF assms(1,2), of k f] assms(3,5) unfolding flash_outcome_def Let_def p [simplified]
    by (auto simp: p [simplified])
qed

context flash_bus
begin

lemma triple_any_flash:
  "(\<And>g. T g \<Longrightarrow> triple (\<lambda>w. held n w \<and> flash_of w = g) m R) \<Longrightarrow>
     triple (\<lambda>w. held n w \<and> T (flash_of w)) m R"
  unfolding triple_def by blast

lemma sleep_then:
  assumes "triple (\<lambda>w. held k w \<and> flash_of w = f) m R"
    and "\<And>w. P w \<Longrightarrow> held (k + sleep_ticks ms) w \<and> flash_of w = f"
  shows "triple P (b_sleep bus ms \<bind> (\<lambda>_. m)) R"
  by (rule triple_bind [where R = "\<lambda>_ w. held k w \<and> flash_of w = f"])
     (rule triple_weaken [OF sleep_law], erule assms(2), assumption, rule assms(1))

lemma wait_ready_law:
  "triple (\<lambda>w. held (n + m) w \<and> flash_of w = f) (wait_ready n bus addr d)
     (\<lambda>r w. held m w \<and> flash_of w = f \<and> (r \<longrightarrow> held fresh_hold w))"
proof (induction n)
  case 0
  show ?case by (simp add: triple_return_iff)
next
  case (Suc n)
  have tick: "sleep_ticks 1 = 1" by (simp add: sleep_ticks_def)
  have less: "held m w" if "held (Suc n + m) w" for w using held_less [OF that] by simp
  show ?case
    unfolding wait_ready.simps
    apply (rule triple_bind [OF now_law])
    apply (rule triple_if)
     apply (rule triple_bind [OF ping_law])
     apply (rule triple_if)
      apply (simp add: triple_return_iff less)
     apply (rule sleep_then [OF Suc.IH])
     apply (simp add: tick)
    apply (simp add: triple_return_iff less)
    done
qed

lemma waitReady_law:
  assumes "unat t + 1 + m \<le> n"
  shows "triple (\<lambda>w. held n w \<and> flash_of w = f) (twibootWaitReady bus addr t)
     (\<lambda>r w. held m w \<and> flash_of w = f \<and> (r \<longrightarrow> held fresh_hold w))"
  unfolding twibootWaitReady_def
  by (rule triple_bind [OF now_law], rule triple_weaken [OF wait_ready_law [of "unat t + 1" m]])
     (use assms held_less in auto)

lemma await_law:
  "triple (\<lambda>w. held (7 * n + m) w \<and> flash_of w = f) (await_bootloader n bus addr)
     (\<lambda>r w. held m w \<and> flash_of w = f \<and> (r \<longrightarrow> held fresh_hold w))"
proof (induction n)
  case 0
  show ?case by (simp add: triple_return_iff)
next
  case (Suc n)
  have tick: "sleep_ticks 100 = 7" by (simp add: sleep_ticks_def)
  have less: "held m w" if "held (7 * Suc n + m) w" for w using held_less [OF that] by simp
  show ?case
    unfolding await_bootloader.simps
    apply (rule triple_bind [OF ping_law])
    apply (rule triple_if)
     apply (simp add: triple_return_iff less)
    apply (rule sleep_then [OF Suc.IH])
    apply (simp add: tick algebra_simps)
    done
qed

lemma read_attempts_law:
  assumes "unat a mod 128 = 0"
  shows "triple (\<lambda>w. held n w \<and> flash_of w = f) (read_attempts k bus addr a)
     (\<lambda>r w. held n w \<and> flash_of w = f \<and> (r \<noteq> None \<longrightarrow> r = Some (page_at f (unat a div 128))))"
proof (induction k)
  case 0
  show ?case by (simp add: triple_return_iff)
next
  case (Suc k)
  show ?case
    unfolding read_attempts.simps
    by (rule triple_bind [OF read_law [OF assms]], rule triple_option, rule triple_weaken [OF Suc.IH])
       (auto simp: triple_return_iff)
qed

lemma write_attempts_law:
  assumes a: "unat a mod 128 = 0" "unat a < 0x7C00" "length page = 128"
    and g: "page_touched f (unat a div 128) g"
  shows "triple (\<lambda>w. held 101 w \<and> flash_of w = g) (write_attempts k bus addr a page rw)
     (\<lambda>r w. held 0 w \<and> page_touched f (unat a div 128) (flash_of w) \<and>
        (fst r = Step_Ok \<longrightarrow> held fresh_hold w \<and> flash_of w = put_page f (unat a div 128) page))"
  (is "triple _ _ ?post")
  using g
proof (induction k arbitrary: rw g)
  case 0
  then show ?case by (auto simp: triple_return_iff elim: held_less)
next
  case (Suc k)
  let ?t = "page_touched f (unat a div 128)"
  have t: "?t h" if "page_touched g (unat a div 128) h" for h
    using page_touched_again [OF Suc.prems that] .
  have less: "held 0 w" "held 101 w" if "held fresh_hold w" for w using held_less [OF that] by simp_all
  note wait = waitReady_law [of _ 0]
  have verify: "triple (\<lambda>w. held fresh_hold w \<and> flash_of w = h)
      (read_attempts 3 bus addr a \<bind> (\<lambda>back. case back of None \<Rightarrow> State_Monad.return (PageReadFailed, rw)
         | Some bs \<Rightarrow> if bs = take 128 page then State_Monad.return (Step_Ok, rw)
             else write_attempts k bus addr a page (rw + 1))) ?post"
    if h: "?t h" for h
    apply (rule triple_bind [OF read_attempts_law [OF a(1)]])
    apply (rule triple_option)
     apply (simp add: triple_return_iff less h)
    apply (rule triple_if)
     apply (simp add: triple_return_iff less h a(3) page_touched_verified)
    apply (rule triple_weaken [OF Suc.IH [OF h]])
     apply (auto simp: less)
    done
  have after: "triple (\<lambda>w. held fresh_hold w \<and> ?t (flash_of w))
      (twibootWaitReady bus addr 50 \<bind> (\<lambda>again. if \<not> again then State_Monad.return (PageStuckBusy, rw)
         else read_attempts 3 bus addr a \<bind> (\<lambda>back. case back of
             None \<Rightarrow> State_Monad.return (PageReadFailed, rw)
           | Some bs \<Rightarrow> if bs = take 128 page then State_Monad.return (Step_Ok, rw)
               else write_attempts k bus addr a page (rw + 1)))) ?post"
    apply (rule triple_any_flash)
    apply (rule triple_bind [OF wait [of 50 fresh_hold]], simp)
    apply (rule triple_if)
     apply (simp add: triple_return_iff)
    apply (rule triple_weaken [OF verify], assumption)
     apply auto
    done
  show ?case
    unfolding write_attempts.simps
    apply (rule triple_bind [OF wait [of 100 101]], simp)
    apply (rule triple_if)
     apply (simp add: triple_return_iff Suc.prems)
    apply (rule triple_bind_pre [OF write_law [OF a, of fresh_hold g]])
     apply simp
    apply (rule triple_if)
     apply (simp add: triple_return_iff t less)
    apply (rule triple_weaken [OF after])
     apply (auto simp: t)
    done
qed

lemma flash_pages_law:
  assumes pages: "\<forall>p < n. length (pages p) = 128" and n: "0 < n" "n \<le> 248"
    and hooks: "hooks_quiet flash_of held watch" and k: "at + m = Suc n"
  shows "triple (\<lambda>w. held fresh_hold w \<and> flash_of w = flash_after f n pages at)
     (flash_pages m at bus addr n pages watch report)
     (\<lambda>r w. if snd r then held fresh_hold w \<and> flash_of w = flash_after f n pages (Suc n) \<and>
                         fr_result (fst r) = fr_result report
            else flash_outcome f n pages (fst r) (flash_of w))"
  (is "triple _ _ ?post")
  using k
proof (induction m arbitrary: at report)
  case 0
  then show ?case by (simp add: triple_return_iff)
next
  case (Suc m)
  let ?p = "round_page n at" and ?h = "flash_after f n pages at"
  have at: "at \<le> n" using Suc.prems by simp
  have addr: "(if at = n then 0 else at) = ?p" by (simp add: round_page_def)
  have data: "(if at = 0 then twibootFillHoldPage else pages ?p) = round_data n pages at"
    by (simp add: round_data_def)
  have p: "?p < 248" using at n by (simp add: round_page_def)
  have len: "length (round_data n pages at) = 128"
    using pages n at by (simp add: round_data_def round_page_def)
  have "unat (of_nat (?p * 128) :: u16) = ?p * 128" using p by (intro of_nat_inverse) simp_all
  then have a: "unat (of_nat (?p * 128) :: u16) mod 128 = 0" "unat (of_nat (?p * 128) :: u16) < 0x7C00"
    "unat (of_nat (?p * 128) :: u16) div 128 = ?p" using p by simp_all
  have page: "triple (\<lambda>w. held fresh_hold w \<and> flash_of w = ?h)
      (twibootFlashAndVerifyPage bus addr (of_nat (?p * 128)) (round_data n pages at))
      (\<lambda>r w. held 0 w \<and> page_touched ?h ?p (flash_of w) \<and>
        (fst r = Step_Ok \<longrightarrow> held fresh_hold w \<and> flash_of w = flash_after f n pages (Suc at)))"
    unfolding twibootFlashAndVerifyPage_def
    by (rule triple_weaken [OF write_attempts_law [OF a(1,2) len page_touched_refl, of ?h 2 0, unfolded a(3)]])
       (auto elim: held_less)
  have keep: "triple (\<lambda>w. held fresh_hold w \<and> flash_of w = ?h) (fw_keepGoing watch)
      (\<lambda>_ w. held fresh_hold w \<and> flash_of w = ?h)"
    using hooks by (simp add: hooks_quiet_def)
  have hook: "triple (\<lambda>w. held j w \<and> T (flash_of w))
      (if (0 :: u8) < r then fw_pageRewritten watch b r else State_Monad.return ())
      (\<lambda>_ w. held j w \<and> T (flash_of w))" for j T b r
  proof (rule triple_if, rule triple_any_flash)
    fix g assume "T g"
    then show "triple (\<lambda>w. held j w \<and> flash_of w = g) (fw_pageRewritten watch b r) (\<lambda>_ w. held j w \<and> T (flash_of w))"
      using hooks unfolding hooks_quiet_def by (blast intro: triple_post)
  qed (simp add: triple_return_iff)
  show ?case
    unfolding flash_pages.simps addr data Let_def
    apply (rule triple_bind [OF keep])
    apply (rule triple_if)
     apply (simp add: triple_return_iff flash_outcome_def flash_after_safe [OF pages n(1)] at le_SucI)
    apply (rule triple_bind [OF page])
    apply (simp only: case_prod_beta)
    subgoal for go r
    proof (cases "fst r = Step_Ok")
      case True
      show ?thesis
        apply (rule triple_bind_pre [OF hook [where T = "\<lambda>g. g = flash_after f n pages (Suc at)" and j = fresh_hold]])
         apply (simp add: True)
        apply (simp add: True del: flash_after.simps)
        apply (rule triple_post [OF Suc.IH])
        using Suc.prems by (simp_all del: flash_after.simps)
    next
      case False
      show ?thesis
        apply (rule triple_bind_pre [OF hook [where T = "page_touched ?h ?p" and j = 0]])
         apply simp
        using failed_round_outcome [OF pages n(1) at n(2), of f] by (simp add: False triple_return_iff)
    qed
    done
qed

lemmas started_probe = started_send [of "[]", simplified]

lemma started_seq: "triple (\<lambda>w. started w \<and> flash_of w = f) (await_sketch n bus addr)
    (\<lambda>_ w. started w \<and> flash_of w = f)"
proof (induction n)
  case (Suc n)
  show ?case
    unfolding await_sketch.simps
    by (rule triple_bind [OF started_sleep], rule triple_bind [OF started_probe], rule triple_if)
       (simp_all add: triple_return_iff Suc.IH)
qed (simp add: triple_return_iff)

lemma flash_finish_law:
  "triple (\<lambda>w. (held n w \<and> flash_of w = f) \<and> fr_result report = Flash_Ok) (flash_finish bus addr report)
     (\<lambda>r w. flash_of w = f \<and> fr_result r \<in> {Flash_Ok, ExitFailed, PostBootSilent})"
  unfolding flash_finish_def twibootAwaitSketch_def
  apply (rule triple_fact)
  apply (rule triple_bind [OF exit_law])
  apply (rule triple_if)
   apply (simp add: triple_return_iff)
  apply (rule triple_bind_pre [OF started_seq [of f]])
   apply simp
  apply (rule triple_if)
   apply (simp add: triple_return_iff)
  apply (rule triple_bind [OF started_reboot])
  apply (simp add: triple_return_iff)
  done

lemma flash_image_law:
  assumes pages: "\<forall>p < len div 128. length (pages p) = 128" and hooks: "hooks_quiet flash_of held watch"
  shows "triple (\<lambda>w. held 35 w \<and> flash_of w = f) (unitFlashImage bus addr len pages watch)
     (\<lambda>r w. flash_outcome f (len div 128) pages r (flash_of w))"
proof (cases "len \<le> 0x7C00")
  case False
  then show ?thesis
    by (simp add: unitFlashImage_def twibootImageFits_def fresh_flash_report_def triple_return_iff flash_outcome_def)
next
  case True
  let ?n = "len div 128"
  have n: "?n \<le> 248" using True div_le_mono [of len 31744 128] by simp
  have stream: "triple (\<lambda>w. held fresh_hold w \<and> flash_of w = f)
      (flash_pages (if 0 < ?n then ?n + 1 else 0) 0 bus addr ?n pages watch report)
      (\<lambda>r w. if snd r then held fresh_hold w \<and> flash_of w = image_over f ?n pages \<and> fr_result (fst r) = fr_result report
             else flash_outcome f ?n pages (fst r) (flash_of w))" for report
  proof (cases "0 < ?n")
    case True
    have k: "0 + (?n + 1) = Suc ?n" by simp
    show ?thesis
      using flash_pages_law [OF pages True n hooks k, of f report]
      unfolding flash_after_whole [OF pages True] flash_after.simps(1) by (simp only: True if_True)
  next
    case False
    then have "image_over f ?n pages = f" by (simp add: image_over_def)
    with False show ?thesis by (simp add: triple_return_iff)
  qed
  show ?thesis
    unfolding unitFlashImage_def twibootAwaitBootloader_def twibootImageFits_def Let_def
    apply (simp only: True not_True_eq_False if_False)
    apply (rule triple_bind_pre [OF await_law [of 5 0 f]])
     apply simp
    apply (rule triple_if)
     apply (simp add: triple_return_iff fresh_flash_report_def flash_outcome_def)
    apply (rule triple_bind_pre [OF chip_law [of fresh_hold f]])
     apply simp
    apply (rule triple_if)
     apply (simp add: triple_return_iff fresh_flash_report_def flash_outcome_def)
    apply (rule triple_bind [OF stream])
    apply (simp only: case_prod_beta)
    apply (rule triple_if)
     apply (simp add: triple_return_iff)
    apply (rule triple_weaken [OF flash_finish_law [of fresh_hold "image_over f ?n pages"]])
     apply (simp add: fresh_flash_report_def)
    apply (auto simp: flash_outcome_def)
    done
qed

end

section \<open>Reading the boot section\<close>

definition boot_section_of :: "flash \<Rightarrow> bytes" where
  "boot_section_of f = map f [0x7C00..<0x8000]"

context flash_bus
begin

lemma read_boot_pages_law:
  assumes keep: "triple (\<lambda>w. held n w \<and> flash_of w = f) keepAlive (\<lambda>_ w. held n w \<and> flash_of w = f)"
    and "page + m \<le> 8"
  shows "triple (\<lambda>w. held n w \<and> flash_of w = f) (read_boot_pages m page bus addr keepAlive)
     (\<lambda>r w. held n w \<and> flash_of w = f \<and>
        (r \<noteq> None \<longrightarrow> r = Some (concat (map (\<lambda>p. page_at f (248 + p)) [page..<page + m]))))"
  using assms(2)
proof (induction m arbitrary: page)
  case 0
  then show ?case by (simp add: triple_return_iff)
next
  case (Suc m)
  let ?a = "of_nat (0x7C00 + page * 128) :: u16"
  have "unat ?a = 0x7C00 + page * 128" using Suc.prems by (intro of_nat_inverse) simp_all
  then have a: "unat ?a mod 128 = 0" "unat ?a div 128 = 248 + page" by (simp_all add: mult.commute)
  have list: "[page..<page + Suc m] = page # [Suc page..<Suc page + m]" by (simp add: upt_conv_Cons)
  show ?case
    unfolding read_boot_pages.simps list
    apply (rule triple_bind [OF keep])
    apply (rule triple_bind [OF read_attempts_law [OF a(1), of _ f, unfolded a(2)]])
    apply (rule triple_option)
     apply (simp add: triple_return_iff)
    subgoal for go r bs
      apply (rule triple_weaken [where P = "\<lambda>w. (held n w \<and> flash_of w = f) \<and> bs = page_at f (248 + page)"])
        apply (rule triple_fact)
        apply (rule triple_bind [OF Suc.IH])
      using Suc.prems by (auto simp: triple_return_iff simp del: upt_Suc)
    done
qed

lemma started_exit: "triple (\<lambda>w. started w \<and> flash_of w = f) (twibootExit bus addr)
    (\<lambda>_ w. started w \<and> flash_of w = f)"
  unfolding twibootExit_def by (rule started_send) simp

lemma exit_attempts_started:
  "triple (\<lambda>w. started w \<and> flash_of w = f) (exit_attempts n bus addr) (\<lambda>r w. started w \<and> flash_of w = f)"
proof (induction n)
  case (Suc n)
  show ?case
    unfolding exit_attempts.simps
    by (rule triple_bind [OF started_exit], rule triple_if)
       (simp add: triple_return_iff, rule triple_bind [OF started_sleep Suc.IH])
qed (simp add: triple_return_iff)

lemma exit_attempts_law:
  "triple (\<lambda>w. held (2 * n + m) w \<and> flash_of w = f) (exit_attempts n bus addr)
     (\<lambda>r w. flash_of w = f \<and> (r \<longrightarrow> started w))"
proof (induction n)
  case (Suc n)
  have tick: "sleep_ticks 20 = 2" by (simp add: sleep_ticks_def)
  have gone: "triple (\<lambda>w. started w \<and> flash_of w = f) (b_sleep bus 20 \<bind> (\<lambda>_. exit_attempts n bus addr))
      (\<lambda>r w. flash_of w = f \<and> (r \<longrightarrow> started w))"
    by (rule triple_bind [OF started_sleep], rule triple_post [OF exit_attempts_started]) simp
  have still: "triple (\<lambda>w. held (2 * Suc n + m) w \<and> flash_of w = f)
      (b_sleep bus 20 \<bind> (\<lambda>_. exit_attempts n bus addr)) (\<lambda>r w. flash_of w = f \<and> (r \<longrightarrow> started w))"
    by (rule sleep_then [OF Suc.IH]) (simp add: tick algebra_simps)
  show ?case
    unfolding exit_attempts.simps
    apply (rule triple_bind [OF exit_law])
    apply (rule triple_if)
     apply (simp add: triple_return_iff)
    using gone still unfolding triple_def by blast
qed (simp add: triple_return_iff)

text \<open>A boot-section read that says Ok has the unit's boot section, memory is never written, and a unit
  whose exit was acknowledged has left its bootloader.\<close>

lemma boot_section_law:
  assumes keep: "\<And>n. triple (\<lambda>w. held n w \<and> flash_of w = f) keepAlive (\<lambda>_ w. held n w \<and> flash_of w = f)"
    and keep': "triple (\<lambda>w. started w \<and> flash_of w = f) keepAlive (\<lambda>_ w. started w \<and> flash_of w = f)"
  shows "triple (\<lambda>w. held 35 w \<and> flash_of w = f) (unitReadBootSection bus addr keepAlive)
     (\<lambda>r w. flash_of w = f \<and> (br_exitAcked r \<longrightarrow> started w) \<and>
        (br_result r = BootRead_Ok \<longrightarrow> br_out r = Some (boot_section_of f)))"
  (is "triple _ _ ?post")
proof -
  let ?boot = "boot_section_of f"
  have pages: "concat (map (\<lambda>p. page_at f (248 + p)) [0..<0 + 8]) = ?boot"
  proof -
    have split: "[31744 + 128 * p..<31744 + 128 * (p + 1)] = map (\<lambda>i. 128 * (248 + p) + i) [0..<128]" for p :: nat
      by (simp add: map_add_upt [symmetric] add.commute) (simp add: map_add_upt algebra_simps)
    have "map f [31744..<31744 + 128 * m] = concat (map (\<lambda>p. page_at f (248 + p)) [0..<m])" for m
    proof (induction m)
      case (Suc m)
      have "[31744..<31744 + 128 * Suc m] = [31744..<31744 + 128 * m] @ [31744 + 128 * m..<31744 + 128 * (m + 1)]"
        using upt_add_eq_append [of 31744 "31744 + 128 * m" 128] by (simp add: algebra_simps)
      then show ?case using Suc unfolding split by (simp add: page_at_def comp_def)
    qed simp
    from this [of 8] show ?thesis by (simp only: boot_section_of_def add_0) simp
  qed
  have rest: "triple (\<lambda>w. (held fresh_hold w \<and> flash_of w = f) \<and> (res = BootRead_Ok \<longrightarrow> out = Some ?boot))
      (exit_attempts 3 bus addr \<bind> (\<lambda>exitAcked.
        if \<not> exitAcked
        then State_Monad.return \<lparr>br_result = res, br_out = out, br_exitAcked = False, br_answeredAfter = False\<rparr>
        else do {
          keepAlive;
          b_sleep bus 2000;
          status \<leftarrow> send_frame bus addr [] True;
          (if status = 0 then do { unitRebootSketch bus addr; State_Monad.return () } else State_Monad.return ());
          State_Monad.return \<lparr>br_result = res, br_out = out, br_exitAcked = True, br_answeredAfter = (status = 0)\<rparr>
        })) ?post" for res out
    apply (rule triple_fact)
    apply (rule triple_bind_pre [OF exit_attempts_law [of 3 0 f]])
     apply (auto elim: held_less) [1]
    apply (rule triple_if)
     apply (simp add: triple_return_iff)
    apply (rule triple_bind_pre [OF keep'])
     apply simp
    apply (rule triple_bind [OF started_sleep])
    apply (rule triple_bind [OF started_probe])
    apply (rule triple_bind [where R = "\<lambda>_ w. started w \<and> flash_of w = f"])
     apply (rule triple_if)
      apply (rule triple_bind [OF started_reboot])
      apply (simp_all add: triple_return_iff)
    done
  have boot_pages: "triple (\<lambda>w. held fresh_hold w \<and> flash_of w = f) (read_boot_pages 8 0 bus addr keepAlive)
      (\<lambda>r w. held fresh_hold w \<and> flash_of w = f \<and> (r \<noteq> None \<longrightarrow> r = Some ?boot))"
    using read_boot_pages_law [OF keep, of 0 8] unfolding pages by simp
  show ?thesis
    unfolding unitReadBootSection_def twibootAwaitBootloader_def
    apply (rule triple_bind_pre [OF await_law [of 5 0 f]])
     apply simp
    apply (rule triple_if)
     apply (simp add: triple_return_iff)
    apply (rule triple_bind_pre [OF chip_law [of fresh_hold f]])
     apply simp
    apply (rule triple_bind [where R = "\<lambda>r w. (held fresh_hold w \<and> flash_of w = f) \<and>
        (fst r = BootRead_Ok \<longrightarrow> snd r = Some ?boot)"])
     apply (rule triple_if)
      apply (simp add: triple_return_iff)
     apply (rule triple_bind_pre [OF boot_pages])
      apply simp
     subgoal for live chip r
       by (cases r) (simp_all add: triple_return_iff)
    apply (simp only: case_prod_beta)
    apply (rule rest)
    done
qed

end

section \<open>A bus that loses nothing\<close>

text \<open>With every transaction delivered, every page write taken and the clock standing still but for the
  sleeps, the flash goes through.\<close>

locale sure_flash_bus = flash_bus +
  fixes clock :: "'a \<Rightarrow> u32"
  assumes clock_law: "triple (\<lambda>w. held n w \<and> flash_of w = f \<and> clock w = c) (b_now bus)
      (\<lambda>t w. (held n w \<and> flash_of w = f \<and> clock w = c) \<and> t = c)"
    and ping_ok: "triple (held n) (twibootPing bus addr) (\<lambda>r _. r = 0)"
    and chip_ok: "triple (held n) (twibootVerifyChip bus addr) (\<lambda>r _. r = Step_Ok)"
    and read_ok: "unat a mod 128 = 0 \<Longrightarrow> triple (held n) (twibootReadFlashPage bus addr a) (\<lambda>r _. r \<noteq> None)"
    and write_ok: "unat a mod 128 = 0 \<Longrightarrow> unat a < 0x7C00 \<Longrightarrow> length page = 128 \<Longrightarrow>
      triple (\<lambda>w. held n w \<and> flash_of w = f) (twibootWriteFlashPage bus addr a page)
        (\<lambda>r w. (held n w \<and> flash_of w = put_page f (unat a div 128) page) \<and> r = Step_Ok)"
    and exit_ok: "triple (held n) (twibootExit bus addr) (\<lambda>r _. r = 0)"
begin

lemma and_sure:
  "triple (held n) m (\<lambda>r _. C r) \<Longrightarrow> triple (\<lambda>w. held n w \<and> flash_of w = f) m Q \<Longrightarrow>
     triple (\<lambda>w. held n w \<and> flash_of w = f) m (\<lambda>r w. Q r w \<and> C r)"
  by (auto simp: triple_def)

lemma sure_ping:
  "triple (\<lambda>w. held n w \<and> flash_of w = f) (twibootPing bus addr)
     (\<lambda>r w. (held fresh_hold w \<and> flash_of w = f) \<and> r = 0)"
  by (rule triple_post [OF and_sure [OF ping_ok ping_law]]) simp

lemma sure_ready:
  assumes "t = 100 \<or> t = 50"
  shows "triple (\<lambda>w. held n w \<and> flash_of w = f) (twibootWaitReady bus addr t)
     (\<lambda>r w. (held fresh_hold w \<and> flash_of w = f) \<and> r)"
proof -
  have t: "before c (c + ucast t)" for c :: u32
    using assms by (auto simp: before_def)
  have "triple (\<lambda>w. held n w \<and> flash_of w = f \<and> clock w = c) (twibootWaitReady bus addr t)
     (\<lambda>r w. (held fresh_hold w \<and> flash_of w = f) \<and> r)" for c
    unfolding twibootWaitReady_def Suc_eq_plus1 [symmetric] wait_ready.simps
    apply (rule triple_known [OF clock_law])
    apply (rule triple_known [OF clock_law])
    apply (simp add: t)
    apply (rule triple_bind_pre [OF sure_ping [of n f]])
     apply simp
    apply (auto simp: triple_def)
    done
  then show ?thesis by (auto simp: triple_def)
qed

lemma sure_page:
  assumes a: "unat a mod 128 = 0" "unat a < 0x7C00" "length page = 128"
  shows "triple (\<lambda>w. held n w \<and> flash_of w = f) (twibootFlashAndVerifyPage bus addr a page)
     (\<lambda>r w. (held fresh_hold w \<and> flash_of w = put_page f (unat a div 128) page) \<and> r = (Step_Ok, 0))"
proof -
  have two: "(2 :: nat) = Suc 1" "(3 :: nat) = Suc 2" by simp_all
  have verified: "take 128 page = page" "page_at (put_page f (unat a div 128) page) (unat a div 128) = page"
    using a(3) by simp_all
  have read: "triple (\<lambda>w. held fresh_hold w \<and> flash_of w = g) (read_attempts 3 bus addr a)
     (\<lambda>r w. (held fresh_hold w \<and> flash_of w = g) \<and> r = Some (page_at g (unat a div 128)))" for g
    unfolding two(2) read_attempts.simps
    apply (rule triple_known [where v = "Some (page_at g (unat a div 128))"])
     apply (rule triple_post [OF and_sure [OF read_ok [OF a(1)] read_law [OF a(1)]]])
     apply auto
    by (simp add: triple_return_iff)
  show ?thesis
    unfolding twibootFlashAndVerifyPage_def two(1) write_attempts.simps
    apply (rule triple_bind [OF sure_ready [of 100 n f]], simp)
    apply (rule triple_if)
     apply (simp add: triple_def)
    apply (rule triple_bind_pre [OF write_ok [OF a, of fresh_hold f]])
     apply simp
    apply (rule triple_if)
     apply (simp add: triple_def)
    apply (rule triple_bind_pre [OF sure_ready [of 50 fresh_hold "put_page f (unat a div 128) page"]], simp)
     apply simp
    apply (rule triple_if)
     apply (simp add: triple_def)
    apply (rule triple_bind_pre [OF read])
     apply simp
    apply (simp only: verified)
    apply (auto simp: triple_def split: option.split)
    done
qed

lemma sure_pages:
  assumes pages: "\<forall>p < n. length (pages p) = 128" and n: "0 < n" "n \<le> 248"
    and go: "\<And>f. triple (\<lambda>w. held fresh_hold w \<and> flash_of w = f) (fw_keepGoing watch)
      (\<lambda>r w. (held fresh_hold w \<and> flash_of w = f) \<and> r)"
    and k: "at + m = Suc n"
  shows "triple (\<lambda>w. held fresh_hold w \<and> flash_of w = flash_after f n pages at)
     (flash_pages m at bus addr n pages watch report)
     (\<lambda>r w. (held fresh_hold w \<and> flash_of w = flash_after f n pages (Suc n)) \<and>
        snd r \<and> fr_result (fst r) = fr_result report)"
  using k
proof (induction m arbitrary: at report)
  case 0
  then show ?case by (simp add: triple_return_iff)
next
  case (Suc m)
  let ?p = "round_page n at" and ?h = "flash_after f n pages at"
  have addr: "(if at = n then 0 else at) = ?p" by (simp add: round_page_def)
  have data: "(if at = 0 then twibootFillHoldPage else pages ?p) = round_data n pages at"
    by (simp add: round_data_def)
  have p: "?p < 248" using Suc.prems n by (simp add: round_page_def)
  have len: "length (round_data n pages at) = 128"
    using pages n Suc.prems by (simp add: round_data_def round_page_def)
  have "unat (of_nat (?p * 128) :: u16) = ?p * 128" using p by (intro of_nat_inverse) simp_all
  then have a: "unat (of_nat (?p * 128) :: u16) mod 128 = 0" "unat (of_nat (?p * 128) :: u16) < 0x7C00"
    "unat (of_nat (?p * 128) :: u16) div 128 = ?p" using p by simp_all
  show ?case
    unfolding flash_pages.simps addr data Let_def
    apply (rule triple_bind [OF go])
    apply (rule triple_if)
     apply (simp add: triple_def)
    apply (rule triple_known_pre [OF sure_page [OF a(1,2) len, of fresh_hold ?h, unfolded a(3)]])
     apply simp
    apply (simp del: flash_after.simps)
    apply (simp only: flash_after.simps(2) [symmetric])
    apply (rule triple_post [OF Suc.IH])
    using Suc.prems by (simp_all del: flash_after.simps)
qed

lemma sure_image:
  assumes pages: "\<forall>p < len div 128. length (pages p) = 128" and len: "len \<le> 0x7C00"
    and go: "\<And>f. triple (\<lambda>w. held fresh_hold w \<and> flash_of w = f) (fw_keepGoing watch)
      (\<lambda>r w. (held fresh_hold w \<and> flash_of w = f) \<and> r)"
  shows "triple (\<lambda>w. held n w \<and> flash_of w = f) (unitFlashImage bus addr len pages watch)
     (\<lambda>r w. flash_of w = image_over f (len div 128) pages \<and> fr_result r \<in> {Flash_Ok, PostBootSilent})"
proof -
  let ?n = "len div 128"
  have n: "?n \<le> 248" using len div_le_mono [of len 31744 128] by simp
  have stream: "triple (\<lambda>w. held fresh_hold w \<and> flash_of w = f)
      (flash_pages (if 0 < ?n then ?n + 1 else 0) 0 bus addr ?n pages watch report)
      (\<lambda>r w. (held fresh_hold w \<and> flash_of w = image_over f ?n pages) \<and> snd r \<and> fr_result (fst r) = fr_result report)"
    for report
  proof (cases "0 < ?n")
    case True
    have k: "0 + (?n + 1) = Suc ?n" by simp
    show ?thesis
      using sure_pages [OF pages True n go k, of f report]
      unfolding flash_after_whole [OF pages True] flash_after.simps(1) by (simp only: True if_True)
  next
    case False
    then have "image_over f ?n pages = f" by (simp add: image_over_def)
    with False show ?thesis by (simp add: triple_return_iff)
  qed
  have finish: "triple (\<lambda>w. (held fresh_hold w \<and> flash_of w = g) \<and> fr_result report = Flash_Ok)
      (flash_finish bus addr report)
      (\<lambda>r w. flash_of w = g \<and> fr_result r \<in> {Flash_Ok, PostBootSilent})" for g report
    unfolding flash_finish_def twibootAwaitSketch_def
    apply (rule triple_fact)
    apply (rule triple_bind [OF and_sure [OF exit_ok exit_law]])
    apply (rule triple_if)
     apply (simp add: triple_def)
    apply (rule triple_bind_pre [OF started_seq [of g]])
     apply simp
    apply (rule triple_if)
     apply (simp add: triple_return_iff)
    apply (rule triple_bind [OF started_reboot])
    apply (simp add: triple_return_iff)
    done
  have five: "(5 :: nat) = Suc 4" by simp
  have await: "triple (\<lambda>w. held n w \<and> flash_of w = f) (await_bootloader 5 bus addr)
      (\<lambda>r w. (held fresh_hold w \<and> flash_of w = f) \<and> r = True)"
    unfolding five await_bootloader.simps
    by (rule triple_known_pre [OF sure_ping [of n f]]) (simp_all add: triple_return_iff)
  show ?thesis
    unfolding unitFlashImage_def twibootAwaitBootloader_def twibootImageFits_def Let_def
    apply (simp only: len not_True_eq_False if_False)
    apply (rule triple_known_pre [OF await])
     apply simp
    apply (simp only: not_True_eq_False if_False)
    apply (rule triple_bind [OF and_sure [OF chip_ok chip_law]])
    apply (rule triple_if)
     apply (simp add: triple_def)
    apply (rule triple_bind_pre [OF stream])
     apply simp
    apply (simp only: case_prod_beta)
    apply (rule triple_if)
     apply (simp add: triple_def)
    apply (rule triple_weaken [OF finish [of "image_over f ?n pages"]])
     apply (simp_all add: fresh_flash_report_def)
    done
qed

end

end
