(* ===== verification/Boot_Stages.thy ===== *)
theory Boot_Stages
  imports Boot_Section
begin

text \<open>
  The unit rewriting its own boot section: \<open>Unit/BootUpdateAvr.h\<close> and its sketch glue
  \<open>Unit/UnitBootUpdate.ino\<close>.

  The boot section is a map from offsets (0 to 1023) to bytes. The self-program unit of the chip is
  driven one instruction at a time, as the code drives it through \<open>do_spm\<close>. Each page erase and
  each page write either works or leaves the page with contents of the adversary's choosing
  (\<open>spm_fault\<close>, indexed by the number of operations done before); the log keeps every such
  operation together with the section as it was before it, so that a statement about the log is a
  statement about every moment at which power can fail. The installed image and the CRC of the
  mixed image come from a header the build generates and are arguments.
\<close>

section \<open>The flash and the self-program unit\<close>

datatype spm_op = Page_Erase nat | Page_Write nat "u16 list"

record spm_world =
  spm_flash :: flash
  spm_fill :: "nat \<Rightarrow> u16"
  spm_log :: "(spm_op \<times> flash) list"
  spm_fault :: "nat \<Rightarrow> flash option"
  spm_twi :: bool

abbreviation (input) BOOT_SECTION_START :: nat where "BOOT_SECTION_START \<equiv> 0x7C00"
abbreviation (input) BOOT_PAGE_SIZE :: nat where "BOOT_PAGE_SIZE \<equiv> 128"
abbreviation (input) BOOT_PAGE7_OFFSET :: nat where "BOOT_PAGE7_OFFSET \<equiv> 896"

definition spm_page_op :: "spm_op \<Rightarrow> nat \<Rightarrow> flash \<Rightarrow> spm_world \<Rightarrow> spm_world" where
  "spm_page_op op p contents w =
     (let result = (case spm_fault w (length (spm_log w)) of None \<Rightarrow> contents | Some bad \<Rightarrow> bad)
      in w\<lparr>spm_flash := (\<lambda>a. if a div BOOT_PAGE_SIZE = p then result a else spm_flash w a),
           spm_log := (op, spm_flash w) # spm_log w\<rparr>)"

definition word_byte :: "(nat \<Rightarrow> u16) \<Rightarrow> nat \<Rightarrow> u8" where
  "word_byte ws a = byte_of (a mod 2) (ws ((a mod BOOT_PAGE_SIZE) div 2))"

text \<open>
  One call of \<open>do_spm\<close>: \<open>3\<close> erases the page of the address, \<open>1\<close> fills one word of the page
  buffer, \<open>5\<close> programs the page (bits can only be cleared) and empties the buffer, \<open>0x11\<close>
  re-enables the read-while-write section.
\<close>

definition do_spm :: "nat \<Rightarrow> u8 \<Rightarrow> u16 \<Rightarrow> spm_world \<Rightarrow> spm_world" where
  "do_spm addr action data w =
     (let a = addr - BOOT_SECTION_START; p = a div BOOT_PAGE_SIZE in
      if action = 0x03 then spm_page_op (Page_Erase p) p (\<lambda>_. 0xFF) w
      else if action = 0x01
      then w\<lparr>spm_fill := (spm_fill w)((a mod BOOT_PAGE_SIZE) div 2 := data)\<rparr>
      else if action = 0x05
      then (spm_page_op (Page_Write p (map (spm_fill w) [0..<64])) p
              (\<lambda>x. spm_flash w x AND word_byte (spm_fill w) x) w)\<lparr>spm_fill := (\<lambda>_. 0xFFFF)\<rparr>
      else w)"

section \<open>Read-back\<close>

definition bootCrc32Update :: "u32 \<Rightarrow> u8 \<Rightarrow> u32" where
  "bootCrc32Update crc b = ((\<lambda>c. drop_bit 1 c XOR (0xEDB88320 AND (0 - (c AND 1)))) ^^ 8) (crc XOR ucast b)"

definition flash_word :: "flash \<Rightarrow> nat \<Rightarrow> u16" where
  "flash_word f a = le16 (f a) (f (a + 1))"

definition bootReadFacts :: "flash \<Rightarrow> BootSectionFacts" where
  "bootReadFacts f =
     (let step = (\<lambda>(crc, c06) a. let crc' = bootCrc32Update crc (f a)
                    in (crc', if a = BOOT_PAGE7_OFFSET - 1 then NOT crc' else c06));
          (crc, c06) = foldl step (0xFFFFFFFF, 0) [0..<1024]
      in \<lparr>bf_fullCrc32 = NOT crc, bf_pages0_6Crc32 = c06,
          bf_page0Word0 = flash_word f 0, bf_page0Word1 = flash_word f 2\<rparr>)"

definition bootClassify :: "u32 \<Rightarrow> BootSectionFacts \<Rightarrow> u8" where
  "bootClassify page7Crc f = classifyBootSection f BOOT_CURRENT_CRC32 page7Crc"

definition bootCurrentState :: "u32 \<Rightarrow> flash \<Rightarrow> u8" where
  "bootCurrentState page7Crc f = bootClassify page7Crc (bootReadFacts f)"

definition bootPageMatchesImage :: "flash \<Rightarrow> flash \<Rightarrow> nat \<Rightarrow> bool" where
  "bootPageMatchesImage img f pageIndex \<longleftrightarrow>
     (let off = pageIndex * BOOT_PAGE_SIZE
      in list_all (\<lambda>i. f (off + i) = img (off + i)) [0..<BOOT_PAGE_SIZE])"

definition bootPage7HoldsDoSpm :: "flash \<Rightarrow> flash \<Rightarrow> bool" where
  "bootPage7HoldsDoSpm img f = bootPageMatchesImage img f 7"

definition bootPage0IsTrampoline :: "flash \<Rightarrow> bool" where
  "bootPage0IsTrampoline f \<longleftrightarrow>
     flash_word f 0 = BOOT_TRAMPOLINE_WORD0 \<and> flash_word f 2 = BOOT_TRAMPOLINE_WORD1"

section \<open>Stage 1\<close>

text \<open>
  Stage 1 seeds the fielded bootloader's page buffer with page 7 of the image and jumps into its
  write handler, which erases, fills and writes that page; the watchdog then resets the chip.
\<close>

definition bootStage1InstallDoSpm :: "flash \<Rightarrow> spm_world \<Rightarrow> spm_world" where
  "bootStage1InstallDoSpm img w =
     (let ps = BOOT_SECTION_START + BOOT_PAGE7_OFFSET;
          buf = (\<lambda>i. img (BOOT_PAGE7_OFFSET + i));
          fill = (\<lambda>w i. do_spm (ps + 2 * i) 0x01 (le16 (buf (2 * i)) (buf (2 * i + 1))) w)
      in do_spm ps 0x11 0 (do_spm ps 0x05 0 (foldl fill (do_spm ps 0x03 0 (w\<lparr>spm_twi := False\<rparr>)) [0..<64])))"

section \<open>Stage 2\<close>

definition bootWritePageFromImage :: "flash \<Rightarrow> nat \<Rightarrow> spm_world \<Rightarrow> spm_world" where
  "bootWritePageFromImage img pageIndex w =
     (let ps = BOOT_SECTION_START + pageIndex * BOOT_PAGE_SIZE;
          off = pageIndex * BOOT_PAGE_SIZE;
          fill = (\<lambda>w i. do_spm (ps + 2 * i) 0x01 (le16 (img (off + 2 * i)) (img (off + 2 * i + 1))) w)
      in do_spm ps 0x11 0 (do_spm ps 0x05 0 (foldl fill (do_spm ps 0x03 0 w) [0..<64])))"

definition bootWriteTrampolinePage :: "spm_world \<Rightarrow> spm_world" where
  "bootWriteTrampolinePage w =
     (let ps = BOOT_SECTION_START;
          w1 = do_spm ps 0x03 0 w;
          w2 = do_spm (ps + 0) 0x01 BOOT_TRAMPOLINE_WORD0 w1;
          w3 = do_spm (ps + 2) 0x01 BOOT_TRAMPOLINE_WORD1 w2;
          w4 = foldl (\<lambda>w i. do_spm (ps + 2 * i) 0x01 0xFFFF w) w3 [2..<64]
      in do_spm ps 0x11 0 (do_spm ps 0x05 0 w4))"

fun trampoline_attempts :: "nat \<Rightarrow> spm_world \<Rightarrow> bool \<times> spm_world" where
  "trampoline_attempts 0 w = (False, w)"
| "trampoline_attempts (Suc n) w =
     (let w' = bootWriteTrampolinePage w
      in if bootPage0IsTrampoline (spm_flash w') then (True, w') else trampoline_attempts n w')"

definition bootWriteTrampolineVerified :: "spm_world \<Rightarrow> bool \<times> spm_world" where
  "bootWriteTrampolineVerified w = trampoline_attempts 3 w"

text \<open>The loop over pages 1 to 6: a matching page is skipped, a page that does not verify stops it.\<close>

fun stage2_pages :: "flash \<Rightarrow> nat list \<Rightarrow> spm_world \<Rightarrow> bool \<times> spm_world" where
  "stage2_pages img [] w = (True, w)"
| "stage2_pages img (pg # pgs) w =
     (if bootPageMatchesImage img (spm_flash w) pg then stage2_pages img pgs w
      else let w' = bootWritePageFromImage img pg w
           in if bootPageMatchesImage img (spm_flash w') pg then stage2_pages img pgs w'
              else (False, w'))"

definition bootStage2Rewrite :: "flash \<Rightarrow> u32 \<Rightarrow> spm_world \<Rightarrow> u8 \<times> spm_world" where
  "bootStage2Rewrite img page7Crc w =
     (if \<not> bootPage7HoldsDoSpm img (spm_flash w) then (BOOT_RESULT_REFUSED_STATE, w)
      else
        (let w0 = w\<lparr>spm_twi := False\<rparr> in
         case (if \<not> bootPage0IsTrampoline (spm_flash w0) then bootWriteTrampolineVerified w0
               else (True, w0)) of
           (False, w1) \<Rightarrow> (BOOT_RESULT_VERIFY_FAILED, w1)
         | (True, w1) \<Rightarrow>
             (case stage2_pages img [1..<7] w1 of
                (False, w2) \<Rightarrow> (BOOT_RESULT_VERIFY_FAILED, w2)
              | (True, w2) \<Rightarrow>
                  (let w3 = bootWritePageFromImage img 0 w2 in
                   if bootPageMatchesImage img (spm_flash w3) 0
                   then (if bootCurrentState page7Crc (spm_flash w3) = BOOT_STATE_NEW
                         then BOOT_RESULT_STAGE2_OK else BOOT_RESULT_VERIFY_FAILED, w3)
                   else (BOOT_RESULT_VERIFY_FAILED, snd (bootWriteTrampolineVerified w3))))))"

section \<open>Dispatch\<close>

text \<open>A result \<open>None\<close> stands for the stage that never returns: the chip has been reset.\<close>

definition bootRunStage :: "flash \<Rightarrow> u32 \<Rightarrow> u8 \<Rightarrow> u8 \<Rightarrow> spm_world \<Rightarrow> u8 option \<times> spm_world" where
  "bootRunStage img page7Crc stage lockByte w =
     (let st = bootCurrentState page7Crc (spm_flash w) in
      if stage = 1 then
        (if st \<noteq> BOOT_STATE_OLD then (Some BOOT_RESULT_REFUSED_STATE, w)
         else if \<not> bootLockPermitsBootWrite lockByte then (Some BOOT_RESULT_REFUSED_LOCK, w)
         else (None, bootStage1InstallDoSpm img w))
      else if stage = 2 then
        (if st \<noteq> BOOT_STATE_PAGE7_INSTALLED \<and> st \<noteq> BOOT_STATE_TRAMPOLINE \<and> st \<noteq> BOOT_STATE_PREV_NEW
         then (Some BOOT_RESULT_REFUSED_STATE, w)
         else if \<not> bootLockPermitsBootWrite lockByte then (Some BOOT_RESULT_REFUSED_LOCK, w)
         else (case bootStage2Rewrite img page7Crc w of (r, w') \<Rightarrow> (Some r, w')))
      else (Some BOOT_RESULT_REFUSED_STATE, w))"

definition bootAutoResume :: "flash \<Rightarrow> u32 \<Rightarrow> spm_world \<Rightarrow> u8 \<times> spm_world" where
  "bootAutoResume img page7Crc w =
     (if bootCurrentState page7Crc (spm_flash w) \<noteq> BOOT_STATE_TRAMPOLINE then (BOOT_RESULT_NONE, w)
      else bootStage2Rewrite img page7Crc w)"

section \<open>The sketch around it\<close>

text \<open>What the chip answers when the code reads its lock, fuse and signature bytes.\<close>

record chip_reads =
  cr_lock :: u8
  cr_low :: u8
  cr_high :: u8
  cr_ext :: u8
  cr_flash0to3 :: bytes
  cr_signature :: "u8 \<times> u8 \<times> u8"

definition readLockAndFuses :: "chip_reads \<Rightarrow> BootUpdateReport \<Rightarrow> BootUpdateReport" where
  "readLockAndFuses c r =
     (if bootLockFuseReadFellThrough (cr_lock c) (cr_low c) (cr_high c) (cr_ext c) (cr_flash0to3 c)
      then r\<lparr>bu_lockFuseReadable := False, bu_sigRow := cr_signature c\<rparr>
      else r\<lparr>bu_lockFuseReadable := True, bu_lockByte := cr_lock c, bu_fuseLow := cr_low c,
             bu_fuseHigh := cr_high c, bu_fuseExt := cr_ext c\<rparr>)"

record boot_unit =
  bt_world :: spm_world
  bt_homed :: bool
  bt_rotating :: bool
  bt_lastResult :: u8
  bt_resetMarked :: bool
  bt_reply :: bytes

definition refreshBootInfoReply :: "u32 \<Rightarrow> chip_reads \<Rightarrow> boot_unit \<Rightarrow> boot_unit" where
  "refreshBootInfoReply page7Crc c u =
     (let f = bootReadFacts (spm_flash (bt_world u));
          r = readLockAndFuses c empty_report
      in u\<lparr>bt_reply := bootInfoEncode (r\<lparr>bu_bootCrc32 := bf_fullCrc32 f,
             bu_state := bootClassify page7Crc f, bu_lastResult := bt_lastResult u\<rparr>)\<rparr>)"

text \<open>
  \<open>runBootUpdate\<close>: \<open>Inl\<close> is the chip reset at the end of stage 1, with everything in RAM gone;
  \<open>Inr\<close> the return to the sketch. The rewrite switches the bus hardware off and the last step
  switches it on again.
\<close>

definition runBootUpdate :: "flash \<Rightarrow> u32 \<Rightarrow> chip_reads \<Rightarrow> u8 \<Rightarrow> boot_unit \<Rightarrow> boot_unit + boot_unit" where
  "runBootUpdate img page7Crc c stage u =
     (if \<not> bt_homed u \<or> bt_rotating u
      then Inr (refreshBootInfoReply page7Crc c (u\<lparr>bt_lastResult := BOOT_RESULT_REFUSED_BUSY\<rparr>))
      else
        (let u1 = (if stage = 1 then u\<lparr>bt_resetMarked := True\<rparr> else u);
             lock = bootEffectiveLockByte (readLockAndFuses c empty_report) in
         case bootRunStage img page7Crc stage lock (bt_world u1) of
           (None, w) \<Rightarrow> Inl (u1\<lparr>bt_world := w\<rparr>)
         | (Some r, w) \<Rightarrow>
             (let u2 = u1\<lparr>bt_world := w\<rparr>;
                  u3 = (if stage = 1 then u2\<lparr>bt_resetMarked := False\<rparr> else u2);
                  u4 = (if \<not> (r = BOOT_RESULT_REFUSED_STATE \<and>
                              bt_lastResult u3 = BOOT_RESULT_STAGE2_OK)
                        then u3\<lparr>bt_lastResult := r\<rparr> else u3);
                  u5 = (if \<not> spm_twi (bt_world u4) then u4\<lparr>bt_world := (bt_world u4)\<lparr>spm_twi := True\<rparr>\<rparr> else u4)
              in Inr (refreshBootInfoReply page7Crc c u5))))"

definition bootUpdateAutoResume :: "flash \<Rightarrow> u32 \<Rightarrow> boot_unit \<Rightarrow> boot_unit" where
  "bootUpdateAutoResume img page7Crc u =
     (case bootAutoResume img page7Crc (bt_world u) of
        (r, w) \<Rightarrow> u\<lparr>bt_world := w, bt_lastResult := r\<rparr>)"

section \<open>What one page write does\<close>

definition page_image :: "flash \<Rightarrow> nat \<Rightarrow> u16 list" where
  "page_image img p = map (\<lambda>i. le16 (img (p * 128 + 2 * i)) (img (p * 128 + 2 * i + 1))) [0..<64]"

definition trampoline_words :: "u16 list" where
  "trampoline_words = [BOOT_TRAMPOLINE_WORD0, BOOT_TRAMPOLINE_WORD1] @ replicate 62 0xFFFF"

lemma do_spm_simps:
  "do_spm addr 3 d w = spm_page_op (Page_Erase ((addr - 0x7C00) div 128)) ((addr - 0x7C00) div 128) (\<lambda>_. 0xFF) w"
  "do_spm addr 1 d w = w\<lparr>spm_fill := (spm_fill w)(((addr - 0x7C00) mod 128) div 2 := d)\<rparr>"
  "do_spm addr 5 d w = (spm_page_op (Page_Write ((addr - 0x7C00) div 128) (map (spm_fill w) [0..<64]))
     ((addr - 0x7C00) div 128) (\<lambda>x. spm_flash w x AND word_byte (spm_fill w) x) w)\<lparr>spm_fill := (\<lambda>_. 0xFFFF)\<rparr>"
  "do_spm addr 0x11 d w = w"
  by (simp_all add: do_spm_def Let_def)

lemma fill_page:
  assumes "m \<le> k" "k \<le> 64"
  shows "foldl (\<lambda>w i. do_spm (0x7C00 + p * 128 + 2 * i) 1 (ws i) w) w [m..<k] =
     w\<lparr>spm_fill := (\<lambda>i. if m \<le> i \<and> i < k then ws i else spm_fill w i)\<rparr>"
  using assms
proof (induction k)
  case 0
  then show ?case by (simp add: fun_eq_iff)
next
  case (Suc k)
  show ?case
  proof (cases "m = Suc k")
    case True
    have none: "(\<lambda>i. if Suc k \<le> i \<and> i < Suc k then ws i else spm_fill w i) = spm_fill w"
      by (auto simp: fun_eq_iff)
    show ?thesis unfolding True none by simp
  next
    case False
    then have k: "m \<le> k" "k < 64" and idx: "(p * 128 + 2 * k) mod 128 = 2 * k" using Suc.prems by simp_all
    have upd: "(\<lambda>i. if m \<le> i \<and> i < k then ws i else spm_fill w i)(k := ws k)
        = (\<lambda>i. if m \<le> i \<and> i < Suc k then ws i else spm_fill w i)"
      using k by (auto simp: fun_eq_iff)
    show ?thesis
      using Suc.IH k by (simp add: do_spm_simps idx upd)
  qed
qed

lemma page_op_simps [simp]:
  "spm_log (spm_page_op op p c w) = (op, spm_flash w) # spm_log w"
  "spm_fault (spm_page_op op p c w) = spm_fault w"
  "spm_twi (spm_page_op op p c w) = spm_twi w"
  "spm_fill (spm_page_op op p c w) = spm_fill w"
  "a div 128 \<noteq> p \<Longrightarrow> spm_flash (spm_page_op op p c w) a = spm_flash w a"
  "spm_flash (spm_page_op op p c (w\<lparr>spm_fill := b\<rparr>)) = spm_flash (spm_page_op op p c w)"
  by (simp_all add: spm_page_op_def Let_def cong: if_cong)

text \<open>The write of a page: an erase, then a write of the buffer, nothing else.\<close>

definition page_write :: "nat \<Rightarrow> u16 list \<Rightarrow> spm_world \<Rightarrow> spm_world" where
  "page_write p ws w =
     (let w1 = spm_page_op (Page_Erase p) p (\<lambda>_. 0xFF) w
      in (spm_page_op (Page_Write p ws) p (\<lambda>x. spm_flash w1 x AND word_byte (\<lambda>i. ws ! i) x) w1)
           \<lparr>spm_fill := (\<lambda>_. 0xFFFF)\<rparr>)"

lemma word_byte_cong: "(\<And>i. i < 64 \<Longrightarrow> u i = v i) \<Longrightarrow> word_byte u x = word_byte v x"
  by (simp add: word_byte_def)

lemma fill_upd_eq: "(w\<lparr>spm_fill := b\<rparr>)\<lparr>spm_fill := c\<rparr> = w\<lparr>spm_fill := c\<rparr>"
  by simp

lemma page_op_fill: "spm_page_op op p c (w\<lparr>spm_fill := b\<rparr>) = (spm_page_op op p c w)\<lparr>spm_fill := b\<rparr>"
  by (simp add: spm_page_op_def Let_def cong: if_cong)

lemma filled_buffer:
  assumes "length ws = 64" "\<And>i. i < 64 \<Longrightarrow> b i = ws ! i"
  shows "map b [0..<64] = ws" and "word_byte b x = word_byte (\<lambda>i. ws ! i) x"
proof -
  show "map b [0..<64] = ws" using assms by (intro nth_equalityI) simp_all
  show "word_byte b x = word_byte (\<lambda>i. ws ! i) x" using assms(2) by (rule word_byte_cong)
qed

lemma write_from_image_eq: "bootWritePageFromImage img p w = page_write p (page_image img p) w"
proof -
  let ?ws = "\<lambda>i. le16 (img (p * 128 + 2 * i)) (img (p * 128 + 2 * i + 1))"
  let ?b = "\<lambda>old i. if i < 64 then ?ws i else old i"
  have words: "map (?b old) [0..<64] = page_image img p" for old
    by (rule filled_buffer) (simp_all add: page_image_def)
  have bytes: "word_byte (?b old) x = word_byte (\<lambda>i. page_image img p ! i) x" for x old
    by (rule filled_buffer) (simp_all add: page_image_def)
  show ?thesis
    unfolding bootWritePageFromImage_def Let_def fill_page [of 0 64, simplified]
    by (simp add: do_spm_simps words bytes page_write_def Let_def page_op_fill)
qed

lemma write_trampoline_eq: "bootWriteTrampolinePage w = page_write 0 trampoline_words w"
proof -
  let ?b = "\<lambda>old i. if 2 \<le> i \<and> i < 64 then 0xFFFF else if i = Suc 0 then 0 else if i = 0 then 0x940C else old i"
  have words: "map (?b old) [0..<64] = trampoline_words" for old
    by (rule filled_buffer) (auto simp: trampoline_words_def nth_Cons split: nat.splits)
  have bytes: "word_byte (?b old) x = word_byte (\<lambda>i. trampoline_words ! i) x" for x old
    by (rule filled_buffer) (auto simp: trampoline_words_def nth_Cons split: nat.splits)
  have fill: "foldl (\<lambda>w i. do_spm (0x7C00 + 2 * i) 1 0xFFFF w) w [2..<64] =
      w\<lparr>spm_fill := (\<lambda>i. if 2 \<le> i \<and> i < 64 then 0xFFFF else spm_fill w i)\<rparr>" for w
    using fill_page [of 2 64 0 "\<lambda>_. 0xFFFF" w] by simp
  show ?thesis
    unfolding bootWriteTrampolinePage_def Let_def fill
    by (simp add: do_spm_simps words bytes page_write_def Let_def page_op_fill cong: if_cong)
qed

text \<open>The log and the flash after a page write.\<close>

lemma page_write_simps [simp]:
  "spm_fault (page_write p ws w) = spm_fault w"
  "a div 128 \<noteq> p \<Longrightarrow> spm_flash (page_write p ws w) a = spm_flash w a"
  by (simp_all add: page_write_def Let_def)

lemma page_write_log:
  "\<exists>f. spm_log (page_write p ws w) = (Page_Write p ws, f) # (Page_Erase p, spm_flash w) # spm_log w
     \<and> (\<forall>a. a div 128 \<noteq> p \<longrightarrow> f a = spm_flash w a)"
  by (auto simp: page_write_def Let_def)

lemma page_write_no_fault:
  assumes "\<And>n. spm_fault w n = None" "a div 128 = p"
  shows "spm_flash (page_write p ws w) a = word_byte (\<lambda>i. ws ! i) a"
proof -
  have ones: "0xFF AND (v :: u8) = v" for v
    by (rule bit_word_eqI) (simp add: bit_and_iff bit_mask_FF bit_int_FF)
  show ?thesis using assms by (simp add: page_write_def spm_page_op_def Let_def ones)
qed

lemma word_byte_image:
  "a div 128 = p \<Longrightarrow> word_byte (\<lambda>i. page_image img p ! i) a = img a"
proof -
  assume p: "a div 128 = p"
  define k where "k = a mod 128 div 2"
  have a: "a = p * 128 + 2 * k + a mod 2" 
  proof -
    have "a = a div 128 * 128 + a mod 128" by (rule div_mult_mod_eq [symmetric])
    moreover have "a mod 128 = k * 2 + a mod 128 mod 2" unfolding k_def by (rule div_mult_mod_eq [symmetric])
    moreover have "a mod 128 mod 2 = a mod 2" by (simp add: mod_mod_cancel)
    ultimately show ?thesis using p by simp
  qed
  have k: "k < 64" by (simp add: k_def)
  have w: "page_image img p ! k = le16 (img (p * 128 + 2 * k)) (img (p * 128 + 2 * k + 1))"
    using k by (simp add: page_image_def)
  consider "a mod 2 = 0" "p * 128 + 2 * k = a" | "a mod 2 = 1" "Suc (p * 128 + 2 * k) = a"
    using a by linarith
  then show ?thesis
    by cases (simp_all add: word_byte_def k_def [symmetric] w)
qed

section \<open>The order of the writes\<close>

fun op_page :: "spm_op \<Rightarrow> nat" where
  "op_page (Page_Erase p) = p"
| "op_page (Page_Write p ws) = p"

definition pages_match :: "flash \<Rightarrow> flash \<Rightarrow> nat list \<Rightarrow> bool" where
  "pages_match img f ps = list_all (bootPageMatchesImage img f) ps"

text \<open>When an operation of stage 2 is in order, given the section it finds.\<close>

fun op_in_order :: "flash \<Rightarrow> flash \<Rightarrow> spm_op \<Rightarrow> bool" where
  "op_in_order img f (Page_Erase p) =
     (p \<le> 6 \<and> bootPageMatchesImage img f 7 \<and> (p = 0 \<or> bootPage0IsTrampoline f))"
| "op_in_order img f (Page_Write p ws) =
     (p \<le> 6 \<and> bootPageMatchesImage img f 7 \<and>
      (if p = 0 then ws = trampoline_words \<or> ws = page_image img 0 \<and> pages_match img f [1..<8]
       else bootPage0IsTrampoline f \<and> ws = page_image img p))"

definition wrote :: "(spm_op \<Rightarrow> flash \<Rightarrow> bool) \<Rightarrow> spm_world \<Rightarrow> spm_world \<Rightarrow> bool" where
  "wrote P w w' \<longleftrightarrow> (\<exists>new. spm_log w' = new @ spm_log w \<and> list_all (\<lambda>(op, f). P op f) new)"

lemma wrote_refl [simp, intro]: "wrote P w w"
  by (simp add: wrote_def)

lemma wrote_trans: "wrote P w w' \<Longrightarrow> wrote P w' w'' \<Longrightarrow> wrote P w w''"
  unfolding wrote_def by (metis append.assoc list_all_append)

lemma wrote_twi [simp]:
  "wrote P (w\<lparr>spm_twi := b\<rparr>) w' = wrote P w w'" "wrote P w (w'\<lparr>spm_twi := b\<rparr>) = wrote P w w'"
  by (simp_all add: wrote_def)

lemma matches_iff: "bootPageMatchesImage img f p \<longleftrightarrow> (\<forall>a. a div 128 = p \<longrightarrow> f a = img a)"
proof
  assume L: "bootPageMatchesImage img f p"
  show "\<forall>a. a div 128 = p \<longrightarrow> f a = img a"
  proof (intro allI impI)
    fix a assume a: "a div 128 = p"
    then have "f (p * 128 + a mod 128) = img (p * 128 + a mod 128)"
      using L by (simp add: bootPageMatchesImage_def list_all_iff Let_def)
    then show "f a = img a" using a by (metis div_mult_mod_eq)
  qed
next
  assume "\<forall>a. a div 128 = p \<longrightarrow> f a = img a"
  then show "bootPageMatchesImage img f p"
    by (simp add: bootPageMatchesImage_def list_all_iff Let_def)
qed

lemma matches_frame:
  "p \<noteq> q \<Longrightarrow> (\<And>a. a div 128 \<noteq> q \<Longrightarrow> g a = f a) \<Longrightarrow>
     bootPageMatchesImage img g p = bootPageMatchesImage img f p"
  by (auto simp: matches_iff)

lemma trampoline_frame:
  "q \<noteq> 0 \<Longrightarrow> (\<And>a. a div 128 \<noteq> q \<Longrightarrow> g a = f a) \<Longrightarrow>
     bootPage0IsTrampoline g = bootPage0IsTrampoline f"
  by (simp add: bootPage0IsTrampoline_def flash_word_def)

lemma matches_page_write [simp]:
  "p \<noteq> q \<Longrightarrow> bootPageMatchesImage img (spm_flash (page_write q ws w)) p = bootPageMatchesImage img (spm_flash w) p"
  by (rule matches_frame [of p q]) simp_all

lemma trampoline_page_write [simp]:
  "q \<noteq> 0 \<Longrightarrow> bootPage0IsTrampoline (spm_flash (page_write q ws w)) = bootPage0IsTrampoline (spm_flash w)"
  by (rule trampoline_frame [of q]) simp_all

lemma wrote_page_write:
  assumes "P (Page_Erase p) (spm_flash w)"
    and "\<And>f. (\<And>a. a div 128 \<noteq> p \<Longrightarrow> f a = spm_flash w a) \<Longrightarrow> P (Page_Write p ws) f"
  shows "wrote P w (page_write p ws w)"
  using page_write_log [of p ws w] assms by (force simp: wrote_def)

lemma wrote_image_page:
  assumes "0 < p" "p \<le> 6" "bootPageMatchesImage img (spm_flash w) 7" "bootPage0IsTrampoline (spm_flash w)"
  shows "wrote (\<lambda>op f. op_in_order img f op) w (page_write p (page_image img p) w)"
proof (rule wrote_page_write)
  show "op_in_order img (spm_flash w) (Page_Erase p)" using assms by simp
  fix f assume f: "\<And>a. a div 128 \<noteq> p \<Longrightarrow> f a = spm_flash w a"
  show "op_in_order img f (Page_Write p (page_image img p))"
    using assms matches_frame [of 7 p f "spm_flash w" img, OF _ f] trampoline_frame [of p f, OF _ f] by simp
qed

lemma wrote_page0:
  assumes "bootPageMatchesImage img (spm_flash w) 7"
    and "ws = trampoline_words \<or> ws = page_image img 0 \<and> pages_match img (spm_flash w) [1..<8]"
  shows "wrote (\<lambda>op f. op_in_order img f op) w (page_write 0 ws w)"
proof (rule wrote_page_write)
  show "op_in_order img (spm_flash w) (Page_Erase 0)" using assms by simp
  fix f assume f: "\<And>a. a div 128 \<noteq> 0 \<Longrightarrow> f a = spm_flash w a"
  have keep: "p \<noteq> 0 \<Longrightarrow> bootPageMatchesImage img f p = bootPageMatchesImage img (spm_flash w) p" for p
    by (rule matches_frame [of p 0]) (simp_all add: f)
  show "op_in_order img f (Page_Write 0 ws)"
    using assms by (auto simp: keep pages_match_def list_all_iff)
qed

lemma trampoline_attempts:
  assumes "trampoline_attempts n w = (ok, w')" "bootPageMatchesImage img (spm_flash w) 7"
  shows "wrote (\<lambda>op f. op_in_order img f op) w w'" and "ok \<Longrightarrow> bootPage0IsTrampoline (spm_flash w')"
    and "p \<noteq> 0 \<Longrightarrow> bootPageMatchesImage img (spm_flash w') p = bootPageMatchesImage img (spm_flash w) p"
    and "spm_fault w' = spm_fault w"
  using assms
  by (induction n arbitrary: w)
     (auto simp: write_trampoline_eq Let_def split: if_splits intro: wrote_trans wrote_page0)

lemma stage2_pages:
  assumes "stage2_pages img pgs w = (ok, w')" "list_all (\<lambda>p. 0 < p \<and> p \<le> 6) pgs"
    and "bootPageMatchesImage img (spm_flash w) 7" "bootPage0IsTrampoline (spm_flash w)"
  shows "wrote (\<lambda>op f. op_in_order img f op) w w'" and "bootPage0IsTrampoline (spm_flash w')"
    and "bootPageMatchesImage img (spm_flash w') 7"
    and "ok \<Longrightarrow> bootPageMatchesImage img (spm_flash w) p \<or> p \<in> set pgs \<Longrightarrow> bootPageMatchesImage img (spm_flash w') p"
    and "spm_fault w' = spm_fault w"
  using assms
proof (induction pgs arbitrary: w)
  case Nil
  { case 1 then show ?case by auto next case 2 then show ?case by auto next case 3 then show ?case by auto
    next case 4 then show ?case by auto next case 5 then show ?case by auto }
next
  case (Cons pg pgs)
  { case 1 then show ?case using Cons.IH(1) by (auto simp: write_from_image_eq Let_def split: if_splits intro: wrote_trans wrote_image_page)
    next case 2 then show ?case using Cons.IH(2) by (auto simp: write_from_image_eq Let_def split: if_splits)
    next case 3 then show ?case using Cons.IH(3) by (auto simp: write_from_image_eq Let_def split: if_splits)
    next case 4 then show ?case using Cons.IH(4) [of w] Cons.IH(4) [of "page_write pg (page_image img pg) w"]
      by (cases "p = pg") (auto simp: write_from_image_eq Let_def split: if_splits)
    next case 5 then show ?case using Cons.IH(5) by (auto simp: write_from_image_eq Let_def split: if_splits) }
qed


lemma stage2_page_list: "list_all (\<lambda>p. 0 < p \<and> p \<le> 6) [1..<7]"
  by (simp add: list_all_iff)

lemma all_pages:
  assumes "\<And>p. p < 8 \<Longrightarrow> bootPageMatchesImage img f p" "a < 1024"
  shows "f a = img a"
  using assms(1) [of "a div 128"] assms(2) by (simp add: matches_iff)

text \<open>What can be said of a run of stage 2, in one case analysis: every write was in order, and how
  the section stands at the end.\<close>

definition last_attempts_failed :: "spm_world \<Rightarrow> bool" where
  "last_attempts_failed w \<longleftrightarrow>
     map fst (take 6 (spm_log w)) =
       [Page_Write 0 trampoline_words, Page_Erase 0, Page_Write 0 trampoline_words, Page_Erase 0,
        Page_Write 0 trampoline_words, Page_Erase 0]"

definition stage2_end :: "flash \<Rightarrow> u32 \<Rightarrow> u8 \<Rightarrow> spm_world \<Rightarrow> bool" where
  "stage2_end img page7Crc r w =
     (if r = BOOT_RESULT_STAGE2_OK
      then pages_match img (spm_flash w) [0..<8] \<and> bootCurrentState page7Crc (spm_flash w) = BOOT_STATE_NEW
      else r = BOOT_RESULT_VERIFY_FAILED \<and>
        (bootPage0IsTrampoline (spm_flash w) \<or> last_attempts_failed w \<or>
         (pages_match img (spm_flash w) [0..<8] \<and> bootCurrentState page7Crc (spm_flash w) \<noteq> BOOT_STATE_NEW)))"

lemma three_attempts:
  assumes "bootWriteTrampolineVerified w = (ok, w')"
  shows "bootPage0IsTrampoline (spm_flash w') \<or> last_attempts_failed w'"
proof -
  have logs: "map fst (spm_log (page_write 0 ws v)) = Page_Write 0 ws # Page_Erase 0 # map fst (spm_log v)" for ws v
    using page_write_log [of 0 ws v] by auto
  have six: "last_attempts_failed (page_write 0 trampoline_words (page_write 0 trampoline_words (page_write 0 trampoline_words w)))"
    by (simp add: last_attempts_failed_def take_map [symmetric] logs eval_nat_numeral)
  show ?thesis
    using assms six
    by (auto simp: bootWriteTrampolineVerified_def eval_nat_numeral Let_def write_trampoline_eq split: if_splits)
qed

lemma stage2_run:
  assumes run: "bootStage2Rewrite img c w = (r, w')" and p7: "bootPageMatchesImage img (spm_flash w) 7"
  shows "wrote (\<lambda>op f. op_in_order img f op) w w'" and "stage2_end img c r w'"
proof -
  obtain ok1 w1 where w1: "(if \<not> bootPage0IsTrampoline (spm_flash w) then bootWriteTrampolineVerified (w\<lparr>spm_twi := False\<rparr>)
      else (True, w\<lparr>spm_twi := False\<rparr>)) = (ok1, w1)"
    by fastforce
  have first: "wrote (\<lambda>op f. op_in_order img f op) w w1" "ok1 \<Longrightarrow> bootPage0IsTrampoline (spm_flash w1)"
      "bootPageMatchesImage img (spm_flash w1) 7"
      "bootPage0IsTrampoline (spm_flash w1) \<or> last_attempts_failed w1"
    using w1 p7 trampoline_attempts [of 3 "w\<lparr>spm_twi := False\<rparr>" ok1 w1 img] three_attempts [of "w\<lparr>spm_twi := False\<rparr>"]
    by (auto simp: bootWriteTrampolineVerified_def split: if_splits)
  show "wrote (\<lambda>op f. op_in_order img f op) w w'" "stage2_end img c r w'"
  proof -
    have "wrote (\<lambda>op f. op_in_order img f op) w w' \<and> stage2_end img c r w'"
    proof (cases ok1)
      case False
      then show ?thesis
        using run p7 w1 first by (auto simp: bootStage2Rewrite_def bootPage7HoldsDoSpm_def stage2_end_def Let_def split: if_splits)
    next
      case True
      obtain ok2 w2 where w2: "stage2_pages img [1..<7] w1 = (ok2, w2)" by fastforce
      note pages = stage2_pages [OF w2 stage2_page_list first(3) first(2) [OF True]]
      have w12: "wrote (\<lambda>op f. op_in_order img f op) w w2" using first(1) pages(1) by (rule wrote_trans)
      show ?thesis
      proof (cases ok2)
        case False
        then show ?thesis
          using run p7 w1 w2 True w12 pages
          by (auto simp: bootStage2Rewrite_def bootPage7HoldsDoSpm_def stage2_end_def Let_def split: if_splits)
      next
        case ok2: True
        define w3 where "w3 = page_write 0 (page_image img 0) w2"
        have m: "p \<noteq> 0 \<Longrightarrow> p < 8 \<Longrightarrow> bootPageMatchesImage img (spm_flash w2) p" for p
          using pages(3) pages(4) [OF ok2, of p] by (cases "p = 7") auto
        then have m3: "p \<noteq> 0 \<Longrightarrow> p < 8 \<Longrightarrow> bootPageMatchesImage img (spm_flash w3) p" for p
          by (simp add: w3_def)
        have "wrote (\<lambda>op f. op_in_order img f op) w2 w3"
          unfolding w3_def by (rule wrote_page0) (use m in \<open>auto simp: pages_match_def list_all_iff\<close>)
        then have w13: "wrote (\<lambda>op f. op_in_order img f op) w w3" using w12 wrote_trans by blast
        show ?thesis
        proof (cases "bootPageMatchesImage img (spm_flash w3) 0")
          case True
          then have "pages_match img (spm_flash w3) [0..<8]"
            using m3 by (auto simp: pages_match_def list_all_iff) (metis gr0I)
          then show ?thesis
            using run p7 w1 w2 \<open>ok1\<close> ok2 w13 True
            by (auto simp: bootStage2Rewrite_def bootPage7HoldsDoSpm_def stage2_end_def Let_def
                write_from_image_eq w3_def split: if_splits)
        next
          case False
          obtain ok4 w4 where w4: "bootWriteTrampolineVerified w3 = (ok4, w4)" by fastforce
          have "wrote (\<lambda>op f. op_in_order img f op) w3 w4"
            using w4 trampoline_attempts(1) [of 3 w3] m3 [of 7] by (simp add: bootWriteTrampolineVerified_def)
          then have "wrote (\<lambda>op f. op_in_order img f op) w w4" using w13 wrote_trans by blast
          then show ?thesis
            using run p7 w1 w2 \<open>ok1\<close> ok2 False w4 three_attempts [OF w4]
            by (auto simp: bootStage2Rewrite_def bootPage7HoldsDoSpm_def stage2_end_def Let_def
                write_from_image_eq w3_def split: if_splits)
        qed
      qed
    qed
    then show "wrote (\<lambda>op f. op_in_order img f op) w w'" "stage2_end img c r w'" by simp_all
  qed
qed


lemma stage2_refused: "\<not> bootPageMatchesImage img (spm_flash w) 7 \<Longrightarrow> bootStage2Rewrite img c w = (BOOT_RESULT_REFUSED_STATE, w)"
  by (simp add: bootStage2Rewrite_def bootPage7HoldsDoSpm_def)

text \<open>C3: However the flash misbehaves, stage 2 keeps the order that makes an interruption
  survivable. It only ever writes pages 0 to 6, with \<open>do_spm\<close> intact in page 7; pages 1 to 6 are
  touched only while page 0 is the jump to the application; and page 0 is only ever given that jump
  or, once pages 1 to 7 all read back as the new image, the image's own page 0. Each entry of the
  log carries the section as a power failure at that moment would leave it.\<close>

theorem stage2_write_order:
  "wrote (\<lambda>op f. op_in_order img f op) w (snd (bootStage2Rewrite img page7Crc w))"
proof (cases "bootPageMatchesImage img (spm_flash w) 7")
  case True
  then show ?thesis by (rule stage2_run(1) [OF prod.collapse [symmetric]])
qed (simp add: stage2_refused)

lemma flash_congs:
  assumes "\<And>a. a < 1024 \<Longrightarrow> f a = g a"
  shows "bootCurrentState c f = bootCurrentState c g"
proof -
  let ?step = "\<lambda>f (crc, c06) a. let crc' = bootCrc32Update crc (f a)
                    in (crc', if a = BOOT_PAGE7_OFFSET - 1 then NOT crc' else c06)"
  have "foldl (?step f) (0xFFFFFFFF, 0) [0..<1024] = foldl (?step g) (0xFFFFFFFF, 0) [0..<1024]"
    by (rule foldl_cong) (auto simp: assms)
  moreover have "flash_word f 0 = flash_word g 0" "flash_word f 2 = flash_word g 2"
    by (simp_all add: flash_word_def assms)
  ultimately have "bootReadFacts f = bootReadFacts g"
    unfolding bootReadFacts_def Let_def by simp
  then show ?thesis by (simp add: bootCurrentState_def)
qed

text \<open>A section that holds the image is classified as the image is.\<close>

lemma pages_match_state:
  assumes "pages_match img f [0..<8]"
  shows "bootCurrentState c f = bootCurrentState c img"
proof (rule flash_congs)
  fix x :: nat
  assume x: "x < 1024"
  then have "bootPageMatchesImage img f (x div 128)" using assms by (auto simp: pages_match_def list_all_iff)
  then show "f x = img x" unfolding matches_iff by simp
qed

text \<open>C4: Whatever the flash does, stage 2 reports success only when the section holds the exact new image and
  is classified as new, and otherwise reports that the check failed and leaves page 0 jumping to the
  application, or has tried three times in a row in vain to restore that jump, or has the exact new image in
  place, which the report then denies because the generated image itself is not one the classification calls
  new; without \<open>do_spm\<close> in page 7 it touches nothing and says so.\<close>

theorem stage2_outcome:
  "case bootStage2Rewrite img page7Crc w of (r, w') \<Rightarrow>
     (if \<not> bootPage7HoldsDoSpm img (spm_flash w) then r = BOOT_RESULT_REFUSED_STATE \<and> w' = w
      else if r = BOOT_RESULT_STAGE2_OK
      then pages_match img (spm_flash w') [0..<8] \<and> bootCurrentState page7Crc (spm_flash w') = BOOT_STATE_NEW
      else r = BOOT_RESULT_VERIFY_FAILED \<and>
        (bootPage0IsTrampoline (spm_flash w') \<or> last_attempts_failed w' \<or>
         (pages_match img (spm_flash w') [0..<8] \<and> bootCurrentState page7Crc img \<noteq> BOOT_STATE_NEW)))"
proof (cases "bootStage2Rewrite img page7Crc w")
  case (Pair r w')
  show ?thesis
    using stage2_run(2) [OF Pair] stage2_refused [of img w page7Crc] Pair pages_match_state [of img "spm_flash w'" page7Crc]
    by (auto simp: bootPage7HoldsDoSpm_def stage2_end_def)
qed

section \<open>Flash that works\<close>

lemma image_write_good:
  "(\<And>n. spm_fault w n = None) \<Longrightarrow> bootPageMatchesImage img (spm_flash (page_write p (page_image img p) w)) p"
  by (simp add: matches_iff page_write_no_fault word_byte_image)

lemma trampoline_write_good:
  assumes "\<And>n. spm_fault w n = None"
  shows "bootPage0IsTrampoline (spm_flash (page_write 0 trampoline_words w))"
  by (simp add: bootPage0IsTrampoline_def flash_word_def page_write_no_fault assms word_byte_def trampoline_words_def)

lemma trampoline_verified_good:
  "(\<And>n. spm_fault w n = None) \<Longrightarrow> bootWriteTrampolineVerified w = (True, page_write 0 trampoline_words w)"
  by (simp add: bootWriteTrampolineVerified_def eval_nat_numeral Let_def write_trampoline_eq trampoline_write_good)

lemma stage2_pages_good:
  "(\<And>n. spm_fault w n = None) \<Longrightarrow> \<exists>w'. stage2_pages img pgs w = (True, w')"
  by (induction pgs arbitrary: w) (simp_all add: Let_def write_from_image_eq image_write_good)

lemma stage2_installs_aux:
  assumes good: "\<And>n. spm_fault w n = None" and p7: "bootPageMatchesImage img (spm_flash w) 7"
  shows "\<exists>w'. bootStage2Rewrite img c w =
      (if bootCurrentState c img = BOOT_STATE_NEW then BOOT_RESULT_STAGE2_OK else BOOT_RESULT_VERIFY_FAILED, w')
      \<and> (\<forall>a<1024. spm_flash w' a = img a)"
proof -
  let ?w0 = "w\<lparr>spm_twi := False\<rparr>"
  obtain w1 where w1: "(if \<not> bootPage0IsTrampoline (spm_flash w) then bootWriteTrampolineVerified ?w0
      else (True, ?w0)) = (True, w1)"
    using trampoline_verified_good [of ?w0] good by fastforce
  then have f1: "\<And>n. spm_fault w1 n = None" and t1: "bootPage0IsTrampoline (spm_flash w1)"
    and p1: "bootPageMatchesImage img (spm_flash w1) 7"
    using good p7 trampoline_verified_good [of ?w0] by (auto simp: trampoline_write_good split: if_splits)
  obtain w2 where w2: "stage2_pages img [1..<7] w1 = (True, w2)" using stage2_pages_good [OF f1] by blast
  note pages = stage2_pages [OF w2 stage2_page_list p1 t1]
  define w3 where "w3 = page_write 0 (page_image img 0) w2"
  have m0: "bootPageMatchesImage img (spm_flash w3) 0"
    unfolding w3_def by (rule image_write_good) (simp add: pages(5) f1)
  have "bootPageMatchesImage img (spm_flash w3) p" if "p < 8" for p
    using that m0 pages(3) pages(4) [of p] by (cases "p = 0"; cases "p = 7") (auto simp: w3_def)
  then have eq: "\<forall>a<1024. spm_flash w3 a = img a" using all_pages by blast
  then have "bootCurrentState c (spm_flash w3) = bootCurrentState c img" by (intro flash_congs) simp
  then have "bootStage2Rewrite img c w =
      (if bootCurrentState c img = BOOT_STATE_NEW then BOOT_RESULT_STAGE2_OK else BOOT_RESULT_VERIFY_FAILED, w3)"
    using w1 w2 m0 p7
    by (simp add: bootStage2Rewrite_def bootPage7HoldsDoSpm_def Let_def write_from_image_eq w3_def [symmetric] split del: if_split)
  then show ?thesis using eq by blast
qed


text \<open>C5: A stage 2 cut short outside the two page-0 windows is finished by the next one. Take any
  run, however the flash behaved, and cut the power during any of its operations on pages 1 to 6,
  leaving that page with arbitrary contents. Then a later run on working flash ends with the new
  image in all 1024 bytes, and says so when the image carries the checksum of the current one.\<close>

theorem interrupted_stage2_finishes:
  assumes "spm_log w = []" "(op, f) \<in> set (spm_log (snd (bootStage2Rewrite img c w)))" "op_page op \<noteq> 0"
    and "\<And>a. a div 128 \<noteq> op_page op \<Longrightarrow> spm_flash v a = f a" "\<And>n. spm_fault v n = None"
  shows "bootPage0IsTrampoline (spm_flash v) \<and>
    (case bootStage2Rewrite img c v of (r, v') \<Rightarrow>
       r = (if bootCurrentState c img = BOOT_STATE_NEW then BOOT_RESULT_STAGE2_OK else BOOT_RESULT_VERIFY_FAILED)
       \<and> map (spm_flash v') [0..<1024] = map img [0..<1024])"
proof -
  have "bootPageMatchesImage img (spm_flash w) 7"
    using assms(1,2) stage2_refused [of img w c] by (cases "bootPageMatchesImage img (spm_flash w) 7") auto
  from stage2_run(1) [OF prod.collapse [symmetric] this, of c] assms(1,2) have "op_in_order img f op"
    by (auto simp: wrote_def list_all_iff)
  then have "bootPage0IsTrampoline f" "bootPageMatchesImage img f 7" "op_page op \<noteq> 7"
    using assms(3) by (cases op; auto)+
  then have "bootPage0IsTrampoline (spm_flash v)" "bootPageMatchesImage img (spm_flash v) 7"
    using trampoline_frame [of "op_page op" "spm_flash v" f, OF assms(3,4)]
      matches_frame [of 7 "op_page op" "spm_flash v" f img, OF _ assms(4)] by simp_all
  then show ?thesis using stage2_installs_aux [OF assms(5), of img c] by auto
qed

definition sample_flash :: flash where
  "sample_flash a = (if a = 0 then 0x0C else if a = 1 then 0x94 else if a div 128 = 7 then 1 else 0)"

definition sample_spm :: "flash \<Rightarrow> spm_world" where
  "sample_spm f = \<lparr>spm_flash = f, spm_fill = (\<lambda>_. 0xFFFF), spm_log = [], spm_fault = (\<lambda>_. None), spm_twi = True\<rparr>"

lemma wrote_mono: "wrote P w w' \<Longrightarrow> x \<in> set (spm_log w) \<Longrightarrow> x \<in> set (spm_log w')"
  by (auto simp: wrote_def)

lemma wrote_anything: "wrote (\<lambda>_ _. True) w (page_write p ws w)"
  by (rule wrote_page_write) simp_all

lemma attempts_wrote_anything: "wrote (\<lambda>_ _. True) w (snd (trampoline_attempts n w))"
  by (induction n arbitrary: w)
     (auto simp: write_trampoline_eq Let_def split: if_splits intro: wrote_trans wrote_anything)

lemma pages_wrote_anything: "wrote (\<lambda>_ _. True) w (snd (stage2_pages img pgs w))"
  by (induction pgs arbitrary: w)
     (auto simp: write_from_image_eq Let_def split: if_splits intro: wrote_trans wrote_anything)

lemma first_page_wrote:
  "\<not> bootPageMatchesImage img (spm_flash w) pg \<Longrightarrow>
     wrote (\<lambda>_ _. True) (page_write pg (page_image img pg) w) (snd (stage2_pages img (pg # pgs) w))"
  using pages_wrote_anything by (auto simp: write_from_image_eq Let_def)

lemma stage2_after_pages:
  assumes "bootPageMatchesImage img (spm_flash w) 7" "bootPage0IsTrampoline (spm_flash w)"
  shows "wrote (\<lambda>_ _. True) (snd (stage2_pages img [1..<7] (w\<lparr>spm_twi := False\<rparr>))) (snd (bootStage2Rewrite img c w))"
  using assms attempts_wrote_anything
  by (auto simp: bootStage2Rewrite_def bootPage7HoldsDoSpm_def Let_def write_from_image_eq
      bootWriteTrampolineVerified_def split: prod.split bool.split
      intro: wrote_trans [OF wrote_anything] wrote_anything)

lemma interrupted_stage2_finishes_witness:
  "bootPage0IsTrampoline sample_flash \<and>
   map (spm_flash (snd (bootStage2Rewrite (\<lambda>_. 1) 0 (sample_spm sample_flash)))) [0..<1024] = replicate 1024 1"
proof -
  let ?w = "sample_spm sample_flash" and ?img = "\<lambda>_ :: nat. 1 :: u8"
  let ?wt = "?w\<lparr>spm_twi := False\<rparr>"
  let ?v = "page_write 1 (page_image ?img 1) ?wt"
  have p7: "bootPageMatchesImage ?img sample_flash 7" by (simp add: matches_iff sample_flash_def)
  have t0: "bootPage0IsTrampoline sample_flash"
    by (simp add: bootPage0IsTrampoline_def flash_word_def sample_flash_def le16_def)
  have p1: "\<not> bootPageMatchesImage ?img sample_flash (Suc 0)"
    by (simp add: matches_iff sample_flash_def exI [of _ 128])
  have pages: "[1..<7] = 1 # [2..<7]" by (simp add: upt_conv_Cons)
  have "(Page_Erase 1, sample_flash) \<in> set (spm_log ?v)"
    using page_write_log [of 1 "page_image ?img 1" ?wt] by (auto simp: sample_spm_def)
  moreover have "wrote (\<lambda>_ _. True) ?v (snd (stage2_pages ?img [1..<7] ?wt))"
    unfolding pages by (rule first_page_wrote) (use p1 in \<open>simp add: sample_spm_def\<close>)
  moreover have "wrote (\<lambda>_ _. True) (snd (stage2_pages ?img [1..<7] ?wt)) (snd (bootStage2Rewrite ?img 0 ?w))"
    by (rule stage2_after_pages) (use p7 t0 in \<open>simp_all add: sample_spm_def\<close>)
  ultimately have "(Page_Erase 1, sample_flash) \<in> set (spm_log (snd (bootStage2Rewrite ?img 0 ?w)))"
    using wrote_mono by blast
  then show ?thesis
    using interrupted_stage2_finishes [of ?w "Page_Erase 1" sample_flash ?img 0 ?w] t0
    by (auto simp: sample_spm_def map_replicate_const)
qed

lemma run_stage_cases:
  assumes "bootRunStage img c stage lock w = (r, w')"
  shows "(case r of
      None \<Rightarrow> stage = 1 \<and> bootCurrentState c (spm_flash w) = BOOT_STATE_OLD \<and> bootLockPermitsBootWrite lock
        \<and> w' = bootStage1InstallDoSpm img w
    | Some x \<Rightarrow> \<not> (stage = 1 \<and> bootCurrentState c (spm_flash w) = BOOT_STATE_OLD \<and> bootLockPermitsBootWrite lock) \<and> x \<in> {BOOT_RESULT_STAGE2_OK, BOOT_RESULT_REFUSED_STATE, BOOT_RESULT_REFUSED_LOCK, BOOT_RESULT_VERIFY_FAILED}
        \<and> (w' = w \<or> stage = 2 \<and> bootLockPermitsBootWrite lock \<and>
             bootCurrentState c (spm_flash w) \<in> {BOOT_STATE_PAGE7_INSTALLED, BOOT_STATE_TRAMPOLINE, BOOT_STATE_PREV_NEW}
             \<and> bootPage7HoldsDoSpm img (spm_flash w)))"
proof (cases "bootPageMatchesImage img (spm_flash w) 7")
  case True
  obtain x v where v: "bootStage2Rewrite img c w = (x, v)" by fastforce
  show ?thesis
    using assms v stage2_run(2) [OF v True] True
    by (auto simp: bootRunStage_def Let_def stage2_end_def bootPage7HoldsDoSpm_def split: if_splits)
next
  case False
  then show ?thesis using assms stage2_refused [OF False, of c] by (auto simp: bootRunStage_def Let_def split: if_splits)
qed

lemma current_state_range: "bootCurrentState c f \<le> BOOT_STATE_PREV_NEW"
  by (simp add: bootCurrentState_def bootClassify_def classifyBootSection_def)

lemma refreshed_reply:
  assumes "bt_lastResult u < BOOT_RESULT_COUNT"
  shows "\<exists>rep. bootInfoDecode (bt_reply (refreshBootInfoReply c chip u)) = Some rep \<and>
     bu_state rep = bootCurrentState c (spm_flash (bt_world u)) \<and> bu_lastResult rep = bt_lastResult u \<and>
     bu_bootCrc32 rep = bf_fullCrc32 (bootReadFacts (spm_flash (bt_world u)))"
proof -
  let ?r = "(readLockAndFuses chip empty_report)\<lparr>bu_bootCrc32 := bf_fullCrc32 (bootReadFacts (spm_flash (bt_world u))),
     bu_state := bootCurrentState c (spm_flash (bt_world u)), bu_lastResult := bt_lastResult u\<rparr>"
  have "report_ok ?r"
    using assms current_state_range by (auto simp: report_ok_def readLockAndFuses_def empty_report_def)
  then have "bootInfoDecode (bootInfoEncode ?r) = Some ?r" by (rule boot_report.round_trip)
  then show ?thesis by (simp add: refreshBootInfoReply_def Let_def bootCurrentState_def)
qed

lemma run_stage_result:
  assumes "bootRunStage img c stage lock w = (Some x, w')"
  shows "x = (let st = bootCurrentState c (spm_flash w)
      in if \<not> (stage = 1 \<and> st = BOOT_STATE_OLD) \<and>
           \<not> (stage = 2 \<and> st \<in> {BOOT_STATE_PAGE7_INSTALLED, BOOT_STATE_TRAMPOLINE, BOOT_STATE_PREV_NEW})
         then BOOT_RESULT_REFUSED_STATE
         else if \<not> bootLockPermitsBootWrite lock then BOOT_RESULT_REFUSED_LOCK
         else if \<not> bootPage7HoldsDoSpm img (spm_flash w) then BOOT_RESULT_REFUSED_STATE
         else fst (bootStage2Rewrite img c w))"
  using assms by (auto simp: bootRunStage_def Let_def bootStage2Rewrite_def split: if_splits prod.splits)

lemma stage2_not_refused:
  assumes "bootPage7HoldsDoSpm img (spm_flash w)"
  shows "fst (bootStage2Rewrite img c w) \<noteq> BOOT_RESULT_REFUSED_STATE"
  using stage2_run(2) [OF prod.collapse [symmetric], of img w c] assms
  by (auto simp: stage2_end_def bootPage7HoldsDoSpm_def split: if_splits)

lemma command_result:
  assumes "runBootUpdate img page7Crc chip stage u = Inr v"
  shows "bt_lastResult v =
         (let st = bootCurrentState page7Crc (spm_flash (bt_world u));
              refused = (if bt_lastResult u = BOOT_RESULT_STAGE2_OK then BOOT_RESULT_STAGE2_OK else BOOT_RESULT_REFUSED_STATE)
          in if \<not> bt_homed u \<or> bt_rotating u then BOOT_RESULT_REFUSED_BUSY
             else if \<not> (stage = 1 \<and> st = BOOT_STATE_OLD) \<and>
               \<not> (stage = 2 \<and> st \<in> {BOOT_STATE_PAGE7_INSTALLED, BOOT_STATE_TRAMPOLINE, BOOT_STATE_PREV_NEW}) then refused
             else if \<not> bootLockPermitsBootWrite (bootEffectiveLockByte (readLockAndFuses chip empty_report))
             then BOOT_RESULT_REFUSED_LOCK
             else if \<not> bootPage7HoldsDoSpm img (spm_flash (bt_world u)) then refused
             else fst (bootStage2Rewrite img page7Crc (bt_world u)))"
proof (cases "\<not> bt_homed u \<or> bt_rotating u")
  case True
  then show ?thesis using assms by (auto simp: runBootUpdate_def refreshBootInfoReply_def Let_def)
next
  case False
  let ?lock = "bootEffectiveLockByte (readLockAndFuses chip empty_report)"
  obtain y w where y: "bootRunStage img page7Crc stage ?lock (bt_world u) = (y, w)" by fastforce
  have same: "bt_world (if stage = 1 then u\<lparr>bt_resetMarked := True\<rparr> else u) = bt_world u" by simp
  from assms False y obtain x where x: "y = Some x"
    by (cases y) (simp_all add: runBootUpdate_def Let_def same)
  note run = y [unfolded x]
  with assms False have "bt_lastResult v = (if x = BOOT_RESULT_REFUSED_STATE \<and> bt_lastResult u = BOOT_RESULT_STAGE2_OK
      then bt_lastResult u else x)"
    by (simp add: runBootUpdate_def Let_def refreshBootInfoReply_def same) (auto split: if_splits)
  then show ?thesis
    using False run_stage_result [OF run] stage2_not_refused [of img "bt_world u" page7Crc]
    by (simp add: Let_def split del: if_split) (auto split: if_splits)
qed

lemma command_keeps:
  "case runBootUpdate img page7Crc chip stage u of
     Inl v \<Rightarrow> stage = 1 \<and> bt_homed u \<and> \<not> bt_rotating u \<and> bt_resetMarked v \<and>
       bootLockPermitsBootWrite (bootEffectiveLockByte (readLockAndFuses chip empty_report)) \<and>
       bootCurrentState page7Crc (spm_flash (bt_world u)) = BOOT_STATE_OLD \<and>
       bt_world v = bootStage1InstallDoSpm img (bt_world u)
   | Inr v \<Rightarrow>
       \<not> (stage = 1 \<and> bt_homed u \<and> \<not> bt_rotating u \<and>
          bootLockPermitsBootWrite (bootEffectiveLockByte (readLockAndFuses chip empty_report)) \<and>
          bootCurrentState page7Crc (spm_flash (bt_world u)) = BOOT_STATE_OLD) \<and>
       (spm_log (bt_world v) = spm_log (bt_world u) \<and> spm_flash (bt_world v) = spm_flash (bt_world u) \<or>
        stage = 2 \<and> bt_homed u \<and> \<not> bt_rotating u \<and>
        bootLockPermitsBootWrite (bootEffectiveLockByte (readLockAndFuses chip empty_report)) \<and>
        bootCurrentState page7Crc (spm_flash (bt_world u))
          \<in> {BOOT_STATE_PAGE7_INSTALLED, BOOT_STATE_TRAMPOLINE, BOOT_STATE_PREV_NEW} \<and>
        bootPage7HoldsDoSpm img (spm_flash (bt_world u))) \<and>
       (spm_twi (bt_world v) \<or> bt_world v = bt_world u) \<and>
       bt_resetMarked v \<in> {bt_resetMarked u, False} \<and>
       (case bootInfoDecode (bt_reply v) of
          Some rep \<Rightarrow> bu_state rep = bootCurrentState page7Crc (spm_flash (bt_world v)) \<and>
            bu_lastResult rep = bt_lastResult v
        | None \<Rightarrow> False)"
proof (cases "\<not> bt_homed u \<or> bt_rotating u")
  case True
  then show ?thesis
    using refreshed_reply [of "u\<lparr>bt_lastResult := 5\<rparr>" page7Crc chip]
    by (auto simp: runBootUpdate_def) (auto simp: refreshBootInfoReply_def Let_def)
next
  case False
  let ?lock = "bootEffectiveLockByte (readLockAndFuses chip empty_report)"
  obtain r w where run: "bootRunStage img page7Crc stage ?lock (bt_world u) = (r, w)" by fastforce
  note cases = run_stage_cases [OF run]
  show ?thesis
  proof (cases r)
    case None
    then show ?thesis using cases False run by (auto simp: runBootUpdate_def Let_def)
  next
    case (Some x)
    define u5 where "u5 = (u\<lparr>bt_world := w\<lparr>spm_twi := True\<rparr>,
        bt_resetMarked := (if stage = 1 then False else bt_resetMarked u),
        bt_lastResult := (if x = BOOT_RESULT_REFUSED_STATE \<and> bt_lastResult u = BOOT_RESULT_STAGE2_OK
          then bt_lastResult u else x)\<rparr>)"
    have twi: "spm_twi v \<Longrightarrow> v\<lparr>spm_twi := True\<rparr> = v" for v :: spm_world by (cases v) simp
    have result: "runBootUpdate img page7Crc chip stage u = Inr (refreshBootInfoReply page7Crc chip u5)"
      using False run Some by (cases u) (auto simp: runBootUpdate_def Let_def u5_def twi)
    have "bt_lastResult u5 < BOOT_RESULT_COUNT" using cases Some by (auto simp: u5_def)
    from refreshed_reply [OF this, of page7Crc chip] cases Some False show ?thesis
      unfolding result by (auto simp: refreshBootInfoReply_def Let_def u5_def)
  qed
qed

text \<open>C9: The update command keeps the sketch's promises. A busy or unhomed unit, an unsuitable boot
  section and a readable closed lock each leave every byte of the boot section alone, in both stages; stage
  1 runs, and does not return, exactly when none of them stands in the way; when the sketch continues, the
  bus hardware is on, no reset is newly marked as requested, the result says which refusal it was or what
  stage 2 came to (a refusal for the state does not hide an earlier success), and the reply the master will
  read decodes to that result and the classification of the section as it now is.\<close>

theorem boot_command_contract:
  "case runBootUpdate img page7Crc chip stage u of
     Inl v \<Rightarrow> stage = 1 \<and> bt_homed u \<and> \<not> bt_rotating u \<and> bt_resetMarked v \<and>
       bootLockPermitsBootWrite (bootEffectiveLockByte (readLockAndFuses chip empty_report)) \<and>
       bootCurrentState page7Crc (spm_flash (bt_world u)) = BOOT_STATE_OLD \<and>
       bt_world v = bootStage1InstallDoSpm img (bt_world u)
   | Inr v \<Rightarrow>
       \<not> (stage = 1 \<and> bt_homed u \<and> \<not> bt_rotating u \<and>
          bootLockPermitsBootWrite (bootEffectiveLockByte (readLockAndFuses chip empty_report)) \<and>
          bootCurrentState page7Crc (spm_flash (bt_world u)) = BOOT_STATE_OLD) \<and>
       (spm_log (bt_world v) = spm_log (bt_world u) \<and> spm_flash (bt_world v) = spm_flash (bt_world u) \<or>
        stage = 2 \<and> bt_homed u \<and> \<not> bt_rotating u \<and>
        bootLockPermitsBootWrite (bootEffectiveLockByte (readLockAndFuses chip empty_report)) \<and>
        bootCurrentState page7Crc (spm_flash (bt_world u))
          \<in> {BOOT_STATE_PAGE7_INSTALLED, BOOT_STATE_TRAMPOLINE, BOOT_STATE_PREV_NEW} \<and>
        bootPage7HoldsDoSpm img (spm_flash (bt_world u))) \<and>
       (spm_twi (bt_world v) \<or> bt_world v = bt_world u) \<and>
       bt_resetMarked v \<in> {bt_resetMarked u, False} \<and>
       (case bootInfoDecode (bt_reply v) of
          Some rep \<Rightarrow> bu_state rep = bootCurrentState page7Crc (spm_flash (bt_world v)) \<and>
            bu_lastResult rep = bt_lastResult v
        | None \<Rightarrow> False) \<and>
       bt_lastResult v =
         (let st = bootCurrentState page7Crc (spm_flash (bt_world u));
              refused = (if bt_lastResult u = BOOT_RESULT_STAGE2_OK then BOOT_RESULT_STAGE2_OK else BOOT_RESULT_REFUSED_STATE)
          in if \<not> (bt_homed u \<and> \<not> bt_rotating u) then BOOT_RESULT_REFUSED_BUSY
             else if \<not> (stage = 1 \<and> st = BOOT_STATE_OLD) \<and>
               \<not> (stage = 2 \<and> st \<in> {BOOT_STATE_PAGE7_INSTALLED, BOOT_STATE_TRAMPOLINE, BOOT_STATE_PREV_NEW}) then refused
             else if \<not> bootLockPermitsBootWrite (bootEffectiveLockByte (readLockAndFuses chip empty_report))
             then BOOT_RESULT_REFUSED_LOCK
             else if \<not> bootPage7HoldsDoSpm img (spm_flash (bt_world u)) then refused
             else fst (bootStage2Rewrite img page7Crc (bt_world u)))"
  using command_keeps [where img = img and page7Crc = page7Crc and chip = chip and stage = stage and u = u]
  by (cases "runBootUpdate img page7Crc chip stage u") (simp_all add: command_result)

end
