(* ===== verification/Twiboot_Device.thy ===== *)
theory Twiboot_Device
  imports Boot_Stages
begin

text \<open>
  The unit's bootloader, \<open>UnitBootloader/main.c\<close>, as the second-generation image is built
  (\<open>SF_NEW_TWIBOOT = 1\<close>, ATmega328P at 16 MHz, boot section at \<open>0x7C00\<close>, no clock stretching, no
  EEPROM access): the byte-level command interpreter, the two-wire interrupt state machine, the
  start-up with its crash record, the boot timer and the main loop.

  LEDs and the timer reload are left out. Fuse and lock bytes are what the chip answers and are a
  field of the state. \<open>tw_overrun\<close> records a store past the end of the page buffer, which in C is
  memory corruption and here is proved never to happen. A bus transaction is the sequence of
  interrupt states that the two-wire hardware runs through for it.
\<close>

section \<open>State\<close>

abbreviation (input) SPM_PAGESIZE :: nat where "SPM_PAGESIZE \<equiv> 128"
abbreviation (input) BOOTLOADER_START :: nat where "BOOTLOADER_START \<equiv> 0x7C00"
abbreviation (input) CMD_WAIT :: u8 where "CMD_WAIT \<equiv> 0x00"
abbreviation (input) CMD_SWITCH_APPLICATION :: u8 where "CMD_SWITCH_APPLICATION \<equiv> 0x01"
abbreviation (input) CMD_ACCESS_MEMORY :: u8 where "CMD_ACCESS_MEMORY \<equiv> 0x02"
abbreviation (input) CMD_ACCESS_CHIPINFO :: u8 where "CMD_ACCESS_CHIPINFO \<equiv> 0x12"
abbreviation (input) CMD_ACCESS_FLASH :: u8 where "CMD_ACCESS_FLASH \<equiv> 0x22"
abbreviation (input) CMD_WRITE_FLASH_PAGE :: u8 where "CMD_WRITE_FLASH_PAGE \<equiv> 0x42"
abbreviation (input) CMD_BOOT_APPLICATION :: u8 where "CMD_BOOT_APPLICATION \<equiv> 0x21"
abbreviation (input) BOOTTYPE_APPLICATION :: u8 where "BOOTTYPE_APPLICATION \<equiv> 0x80"
abbreviation (input) BOOT_PRESCALE :: u8 where "BOOT_PRESCALE \<equiv> 8"
abbreviation (input) PIN_TICKS :: u8 where "PIN_TICKS \<equiv> 234"
abbreviation (input) START_TICKS :: u8 where "START_TICKS \<equiv> 8"
abbreviation (input) CRASH_REC_TAG :: u8 where "CRASH_REC_TAG \<equiv> 0xA0"

record twiboot =
  tw_cmd :: u8
  tw_buf :: bytes
  tw_addr :: u16
  tw_bcnt :: u8
  tw_timeout :: u8
  tw_prescale :: u8
  tw_app_installed :: bool
  tw_flash :: flash
  tw_rec_a :: u8
  tw_rec_b :: u8
  tw_fuses :: "u8 \<Rightarrow> u8"
  tw_ack :: bool
  tw_dr :: u8
  tw_overrun :: bool

definition twiboot_info :: bytes where
  "twiboot_info = [0x53, 0x46, 0x03, 0x0F, 0xFF, 0xFF, 0xFF, 0xFF,
                   0xFF, 0xFF, 0xFF, 0xFF, 0xFF, 0xFF, 0xFF, 0xFF]"

definition twiboot_chipinfo :: bytes where
  "twiboot_chipinfo = [0x1E, 0x95, 0x0F, 128, 0x7C, 0x00, 0x00, 0x00]"

section \<open>Programming a page\<close>

definition write_flash_page :: "twiboot \<Rightarrow> twiboot" where
  "write_flash_page st =
     (let pagestart = tw_addr st in
      if unat pagestart < BOOTLOADER_START
      then (let page = unat pagestart div SPM_PAGESIZE;
                (fill, a) = foldl (\<lambda>(fill, a) i.
                    (fill((unat a mod SPM_PAGESIZE) div 2 := le16 (tw_buf st ! (2 * i)) (tw_buf st ! (2 * i + 1))), a + 2))
                  (\<lambda>_. 0xFFFF, pagestart) [0..<64]
            in st\<lparr>tw_addr := a,
                  tw_flash := (\<lambda>x. if x div SPM_PAGESIZE = page then 0xFF AND word_byte fill x
                                   else tw_flash st x)\<rparr>)
      else st)"

section \<open>The command interpreter\<close>

text \<open>A received byte: whether the next one is to be acknowledged, and the new state.\<close>

definition TWI_data_write :: "u8 \<Rightarrow> u8 \<Rightarrow> twiboot \<Rightarrow> bool \<times> twiboot" where
  "TWI_data_write bcnt data st =
     (if bcnt = 0 then
        (if data = CMD_SWITCH_APPLICATION \<or> data = CMD_ACCESS_MEMORY \<or> data = CMD_WAIT
         then (True, st\<lparr>tw_timeout := PIN_TICKS, tw_cmd := data\<rparr>)
         else (False, st\<lparr>tw_cmd := CMD_BOOT_APPLICATION\<rparr>))
      else if bcnt = 1 then
        (if tw_cmd st = CMD_SWITCH_APPLICATION
         then (if data = BOOTTYPE_APPLICATION
               then (False, st\<lparr>tw_cmd := CMD_BOOT_APPLICATION, tw_rec_a := 0\<rparr>)
               else (False, st))
         else if tw_cmd st = CMD_ACCESS_MEMORY
         then (if data = 0x00 then (True, st\<lparr>tw_cmd := CMD_ACCESS_CHIPINFO\<rparr>)
               else if data = 0x01 then (True, st\<lparr>tw_cmd := CMD_ACCESS_FLASH\<rparr>)
               else (False, st))
         else (False, st))
      else if bcnt = 2 \<or> bcnt = 3
      then (True, st\<lparr>tw_addr := push_bit 8 (tw_addr st) OR ucast data\<rparr>)
      else if tw_cmd st = CMD_ACCESS_FLASH then
        (let pos = unat (bcnt - 4);
             st1 = st\<lparr>tw_buf := (tw_buf st)[pos := data],
                      tw_overrun := (tw_overrun st \<or> length (tw_buf st) \<le> pos)\<rparr>
         in if pos \<ge> SPM_PAGESIZE - 1 then (False, st1\<lparr>tw_cmd := CMD_WRITE_FLASH_PAGE\<rparr>)
            else (True, st1))
      else (False, st))"

definition TWI_data_read :: "u8 \<Rightarrow> twiboot \<Rightarrow> u8 \<times> twiboot" where
  "TWI_data_read bcnt st =
     (if tw_cmd st = CMD_SWITCH_APPLICATION then (twiboot_info ! unat (bcnt mod 16), st)
      else if tw_cmd st = CMD_ACCESS_CHIPINFO then
        (let b = bcnt mod 13 in
         (if b < 8 then twiboot_chipinfo ! unat b
          else if b < 12 then tw_fuses st (b - 8)
          else tw_rec_a st AND 0x0F, st))
      else if tw_cmd st = CMD_ACCESS_FLASH
      then (tw_flash st (unat (tw_addr st)), st\<lparr>tw_addr := tw_addr st + 1\<rparr>)
      else (0xFF, st))"

section \<open>The two-wire state machine\<close>

definition twi_idle :: "twiboot \<Rightarrow> twiboot" where
  "twi_idle st =
     (let st1 = (if tw_cmd st = CMD_WRITE_FLASH_PAGE then write_flash_page (st\<lparr>tw_ack := False\<rparr>) else st)
      in st1\<lparr>tw_bcnt := 0, tw_ack := True\<rparr>)"

definition twi_send :: "twiboot \<Rightarrow> twiboot" where
  "twi_send st =
     (case TWI_data_read (tw_bcnt st) (st\<lparr>tw_bcnt := tw_bcnt st + 1\<rparr>) of (d, st1) \<Rightarrow> st1\<lparr>tw_dr := d\<rparr>)"

definition TWI_vect :: "u8 \<Rightarrow> u8 \<Rightarrow> twiboot \<Rightarrow> twiboot" where
  "TWI_vect twsr twdr st =
     (let s = twsr AND 0xF8;
          receive = TWI_data_write (tw_bcnt st) twdr (st\<lparr>tw_bcnt := tw_bcnt st + 1\<rparr>) in
      if s = 0x60 then st\<lparr>tw_bcnt := 0\<rparr>
      else if s = 0x80 then (case receive of (ack, st1) \<Rightarrow> if \<not> ack then st1\<lparr>tw_ack := False\<rparr> else st1)
      else if s = 0xA8 then twi_send (st\<lparr>tw_bcnt := 0\<rparr>)
      else if s = 0xB8 then twi_send st
      else if s = 0x88 then twi_idle (snd receive)
      else if s = 0xA0 then twi_idle st
      else if s = 0xC0 then st\<lparr>tw_ack := True\<rparr>
      else st)"

section \<open>The boot timer\<close>

definition TIMER0_OVF_vect :: "twiboot \<Rightarrow> twiboot" where
  "TIMER0_OVF_vect st =
     (if \<not> tw_app_installed st then st
      else if tw_prescale st + 1 < BOOT_PRESCALE then st\<lparr>tw_prescale := tw_prescale st + 1\<rparr>
      else (let st1 = st\<lparr>tw_prescale := 0\<rparr>; t = tw_timeout st in
            if t > 1 then st1\<lparr>tw_timeout := t - 1\<rparr>
            else if t = 1 then st1\<lparr>tw_cmd := CMD_BOOT_APPLICATION\<rparr>
            else st1))"

section \<open>Start-up\<close>

text \<open>The crash record: consecutive watchdog resets are counted, every other reset starts over.\<close>

definition crash_count :: "u8 \<Rightarrow> u8 \<Rightarrow> u8 \<Rightarrow> u8" where
  "crash_count mcusr a b =
     (if mcusr AND 0x08 = 0 then 0
      else if a XOR b \<noteq> 0xFF then 1
      else if a AND 0xF0 \<noteq> CRASH_REC_TAG then 1
      else (let count = a AND 0x0F in if count < 15 then count + 1 else count))"

definition twiboot_start :: "u8 \<Rightarrow> twiboot \<Rightarrow> twiboot" where
  "twiboot_start mcusr st =
     (let count = crash_count mcusr (tw_rec_a st) (tw_rec_b st);
          rec = CRASH_REC_TAG OR count
      in st\<lparr>tw_cmd := CMD_WAIT, tw_bcnt := 0, tw_ack := True, tw_prescale := 0,
            tw_timeout := START_TICKS, tw_buf := replicate SPM_PAGESIZE 0, tw_addr := 0,
            tw_rec_a := rec, tw_rec_b := NOT rec,
            tw_app_installed := (le16 (tw_flash st 0) (tw_flash st 1) \<noteq> 0xFFFF \<and> \<not> count \<ge> 3)\<rparr>)"

section \<open>The main loop and the bus\<close>

datatype twi_event = Twi_Int u8 u8 | Timer_Tick

text \<open>The loop serves events until the application is to be started, and none after that.\<close>

definition twiboot_step :: "twiboot \<Rightarrow> twi_event \<Rightarrow> twiboot" where
  "twiboot_step st ev =
     (if tw_cmd st = CMD_BOOT_APPLICATION then st
      else (case ev of Twi_Int s d \<Rightarrow> TWI_vect s d st | Timer_Tick \<Rightarrow> TIMER0_OVF_vect st))"

definition twi_listening :: "twiboot \<Rightarrow> bool" where
  "twi_listening st \<longleftrightarrow> tw_cmd st \<noteq> CMD_BOOT_APPLICATION \<and> tw_ack st"

text \<open>
  The hardware's side of a write: a byte is acknowledged while acknowledging is on, the first one
  that is not ends the transfer, and a stop or repeated start ends one that was never refused.
\<close>

fun twi_receive :: "bytes \<Rightarrow> twiboot \<Rightarrow> bool \<times> twiboot" where
  "twi_receive [] st = (True, twiboot_step st (Twi_Int 0xA0 0))"
| "twi_receive (b # bs) st =
     (if tw_cmd st = CMD_BOOT_APPLICATION then (False, st)
      else if tw_ack st then twi_receive bs (twiboot_step st (Twi_Int 0x80 b))
      else (False, twiboot_step st (Twi_Int 0x88 b)))"

definition twi_write :: "bytes \<Rightarrow> twiboot \<Rightarrow> bool \<times> twiboot" where
  "twi_write bs st =
     (if twi_listening st then twi_receive bs (twiboot_step st (Twi_Int 0x60 0)) else (False, st))"

text \<open>The hardware's side of a read of \<open>n\<close> bytes, the last of which the master refuses.\<close>

fun twi_transmit :: "nat \<Rightarrow> twiboot \<Rightarrow> bytes \<times> twiboot" where
  "twi_transmit 0 st = ([], twiboot_step st (Twi_Int 0xC0 0))"
| "twi_transmit (Suc n) st =
     (let st1 = twiboot_step st (Twi_Int 0xB8 0)
      in case twi_transmit n st1 of (bs, st2) \<Rightarrow> (tw_dr st1 # bs, st2))"

definition twi_read :: "nat \<Rightarrow> twiboot \<Rightarrow> bytes option \<times> twiboot" where
  "twi_read n st =
     (if twi_listening st \<and> n > 0
      then (let st1 = twiboot_step st (Twi_Int 0xA8 0)
            in case twi_transmit (n - 1) st1 of (bs, st2) \<Rightarrow> (Some (tw_dr st1 # bs), st2))
      else (None, st))"

section \<open>The boot section is out of reach\<close>

lemmas twiboot_defs = twiboot_step_def TWI_vect_def TWI_data_write_def TWI_data_read_def twi_idle_def
  twi_send_def TIMER0_OVF_vect_def

lemma write_flash_page_keeps [simp]:
  "tw_cmd (write_flash_page st) = tw_cmd st" "tw_buf (write_flash_page st) = tw_buf st"
  "tw_bcnt (write_flash_page st) = tw_bcnt st" "tw_timeout (write_flash_page st) = tw_timeout st"
  "tw_prescale (write_flash_page st) = tw_prescale st" "tw_ack (write_flash_page st) = tw_ack st"
  "tw_app_installed (write_flash_page st) = tw_app_installed st"
  "tw_rec_a (write_flash_page st) = tw_rec_a st" "tw_rec_b (write_flash_page st) = tw_rec_b st"
  "tw_overrun (write_flash_page st) = tw_overrun st"
  by (simp_all add: write_flash_page_def Let_def split: prod.split)

lemma below_boot_section: "p < 31744 \<Longrightarrow> 31744 \<le> x \<Longrightarrow> x div 128 \<noteq> p div (128 :: nat)"
  using less_mult_imp_div_less [of p 248 128] div_le_mono [of 31744 x 128] by auto

lemma write_flash_page_boot_section [simp]:
  "0x7C00 \<le> x \<Longrightarrow> tw_flash (write_flash_page st) x = tw_flash st x"
  by (auto simp: write_flash_page_def Let_def below_boot_section split: prod.split)

lemma step_boot_section: "0x7C00 \<le> x \<Longrightarrow> tw_flash (twiboot_step st ev) x = tw_flash st x"
  by (simp add: twiboot_defs Let_def split: twi_event.split prod.split)

text \<open>C6: The bootloader cannot damage itself. Whatever bytes arrive in whatever order, in whatever
  states the two-wire hardware reports, no byte of the boot section changes.\<close>

theorem bootloader_never_writes_itself:
  "map (tw_flash (foldl twiboot_step st evs)) [0x7C00..<0x8000] = map (tw_flash st) [0x7C00..<0x8000]"
proof -
  have "tw_flash (foldl twiboot_step st evs) x = tw_flash st x" if "0x7C00 \<le> x" for x
    using that by (induction evs arbitrary: st) (simp_all add: step_boot_section)
  then show ?thesis by simp
qed

section \<open>Bus transactions\<close>

datatype bus_txn = Bus_Write bytes | Bus_Read nat | Bus_Tick

definition bus_step :: "twiboot \<Rightarrow> bus_txn \<Rightarrow> twiboot" where
  "bus_step st t = (case t of Bus_Write bs \<Rightarrow> snd (twi_write bs st) | Bus_Read n \<Rightarrow> snd (twi_read n st)
     | Bus_Tick \<Rightarrow> twiboot_step st Timer_Tick)"

text \<open>What holds while the bytes of one write come in, and what it leaves behind.\<close>

definition buffer_ok :: "twiboot \<Rightarrow> bool" where
  "buffer_ok st \<longleftrightarrow> length (tw_buf st) = 128 \<and> \<not> tw_overrun st"

definition receiving :: "twiboot \<Rightarrow> bool" where
  "receiving st \<longleftrightarrow> unat (tw_bcnt st) \<le> 132 \<and> (tw_ack st \<longrightarrow> unat (tw_bcnt st) \<le> 131) \<and>
     (tw_cmd st = CMD_ACCESS_FLASH \<longrightarrow> unat (tw_bcnt st) \<le> 131)"

lemma store_position:
  assumes "(b :: u8) \<noteq> 0" "b \<noteq> 1" "b \<noteq> 2" "b \<noteq> 3" "unat b \<le> 132"
  shows "unat (b - 4) = unat b - 4" "4 \<le> unat b"
proof -
  have "unat b \<noteq> unat (0 :: u8)" "unat b \<noteq> unat (1 :: u8)" "unat b \<noteq> unat (2 :: u8)" "unat b \<noteq> unat (3 :: u8)"
    using assms(1-4) by (simp_all only: word_unat_eq_iff not_False_eq_True)
  then show "4 \<le> unat b" by simp
  then show "unat (b - 4) = unat b - 4" by (simp add: unat_sub word_le_nat_alt)
qed


lemma bcnt_suc: "unat (b :: u8) \<le> 132 \<Longrightarrow> unat (b + 1) = Suc (unat b)"
  by (simp add: unat_word_ariths(1))

lemma receive_ok:
  assumes "receiving st" "buffer_ok st" "tw_ack st"
  shows "receiving (twiboot_step st (Twi_Int 0x80 b))" "buffer_ok (twiboot_step st (Twi_Int 0x80 b))"
proof -
  have n: "unat (tw_bcnt st) \<le> 131" "unat (tw_bcnt st + 1) = Suc (unat (tw_bcnt st))"
    using assms bcnt_suc by (auto simp: receiving_def)
  note pos = store_position [of "tw_bcnt st"]
  show "receiving (twiboot_step st (Twi_Int 0x80 b))" "buffer_ok (twiboot_step st (Twi_Int 0x80 b))"
    using assms n pos by (auto simp: twiboot_defs receiving_def buffer_ok_def Let_def split: prod.split)
qed


lemma idle_ok [simp]: "buffer_ok (twi_idle st) = buffer_ok st"
  by (simp add: twi_idle_def buffer_ok_def)

lemma data_write_ok:
  assumes "tw_cmd st = CMD_ACCESS_FLASH \<longrightarrow> unat bcnt \<le> 131" "buffer_ok st"
  shows "buffer_ok (snd (TWI_data_write bcnt b st))"
  using assms store_position [of bcnt] by (auto simp: TWI_data_write_def buffer_ok_def Let_def)

lemma bcnt_irrelevant [simp]: "buffer_ok (st\<lparr>tw_bcnt := n\<rparr>) = buffer_ok st"
  by (simp add: buffer_ok_def)

lemma last_byte_ok:
  assumes "receiving st" "buffer_ok st"
  shows "buffer_ok (twiboot_step st (Twi_Int 0x88 b))"
proof -
  have "buffer_ok (snd (TWI_data_write (tw_bcnt st) b (st\<lparr>tw_bcnt := tw_bcnt st + 1\<rparr>)))"
    by (rule data_write_ok) (use assms in \<open>simp_all add: receiving_def\<close>)
  then show ?thesis using assms by (simp add: twiboot_step_def TWI_vect_def Let_def)
qed

lemma twi_receive_ok: "receiving st \<Longrightarrow> buffer_ok st \<Longrightarrow> buffer_ok (snd (twi_receive bs st))"
proof (induction bs arbitrary: st)
  case Nil
  then show ?case by (simp add: twiboot_step_def TWI_vect_def)
next
  case (Cons b bs)
  then show ?case using receive_ok [of st b] last_byte_ok [of st b] by simp
qed

lemma start_write: "tw_cmd st \<noteq> CMD_BOOT_APPLICATION \<Longrightarrow> twiboot_step st (Twi_Int 0x60 0) = st\<lparr>tw_bcnt := 0\<rparr>"
  by (simp add: twiboot_step_def TWI_vect_def)

lemma twi_write_ok: "buffer_ok st \<Longrightarrow> buffer_ok (snd (twi_write bs st))"
  by (auto simp: twi_write_def twi_listening_def start_write receiving_def buffer_ok_def
      intro!: twi_receive_ok [of _ bs, unfolded buffer_ok_def])

lemma send_step:
  assumes "s = 0xA8 \<or> s = 0xB8 \<or> s = 0xC0"
  shows "buffer_ok (twiboot_step st (Twi_Int s d)) = buffer_ok st"
  using assms by (auto simp: twiboot_step_def TWI_vect_def twi_send_def TWI_data_read_def buffer_ok_def Let_def split: prod.split)

lemma twi_transmit_ok [simp]: "buffer_ok (snd (twi_transmit n st)) = buffer_ok st"
  by (induction n arbitrary: st) (simp_all add: send_step Let_def case_prod_beta)

lemma twi_read_ok [simp]: "buffer_ok (snd (twi_read n st)) = buffer_ok st"
  by (simp add: twi_read_def Let_def send_step case_prod_beta)

lemma tick_ok [simp]: "buffer_ok (twiboot_step st Timer_Tick) = buffer_ok st"
  by (simp add: twiboot_step_def TIMER0_OVF_vect_def buffer_ok_def Let_def)

lemma bus_step_ok: "buffer_ok st \<Longrightarrow> buffer_ok (bus_step st t)"
  by (cases t) (simp_all add: bus_step_def twi_write_ok)

text \<open>C7: No transaction overruns the page buffer. From a start of the bootloader, whatever a master
  sends, of whatever length and however cut short, every byte stored lands inside the 128 bytes.\<close>

theorem page_buffer_never_overrun:
  "tw_overrun (foldl bus_step (twiboot_start mcusr st) ts) = tw_overrun st"
proof (cases "tw_overrun st")
  case False
  have "buffer_ok v \<Longrightarrow> buffer_ok (foldl bus_step v ts)" for v
    by (induction ts arbitrary: v) (simp_all add: bus_step_ok)
  moreover have "buffer_ok (twiboot_start mcusr st)" using False by (simp add: buffer_ok_def twiboot_start_def Let_def)
  ultimately show ?thesis using False by (simp add: buffer_ok_def)
next
  case True
  have keep: "tw_overrun v \<Longrightarrow> tw_overrun (twiboot_step v ev)" for v ev
    by (simp add: twiboot_defs Let_def split: twi_event.split prod.split)
  have rx: "tw_overrun v \<Longrightarrow> tw_overrun (snd (twi_receive bs v))" for v bs
    by (induction bs arbitrary: v) (simp_all add: keep)
  have tx: "tw_overrun v \<Longrightarrow> tw_overrun (snd (twi_transmit n v))" for v n
    by (induction n arbitrary: v) (simp_all add: keep Let_def case_prod_beta)
  have "tw_overrun v \<Longrightarrow> tw_overrun (bus_step v t)" for v t
    using rx tx keep by (cases t) (auto simp: bus_step_def twi_write_def twi_read_def Let_def case_prod_beta)
  then have "tw_overrun v \<Longrightarrow> tw_overrun (foldl bus_step v ts)" for v
    by (induction ts arbitrary: v) simp_all
  then show ?thesis using True by (simp add: twiboot_start_def Let_def)
qed

section \<open>The pin window\<close>

lemma tick_booted: "tw_cmd v = CMD_BOOT_APPLICATION \<Longrightarrow> ((\<lambda>s. twiboot_step s Timer_Tick) ^^ n) v = v"
  by (induction n) (simp_all add: twiboot_step_def)

lemma ticks_installed:
  assumes "tw_app_installed st" "tw_cmd st \<noteq> CMD_BOOT_APPLICATION" "unat (tw_prescale st) < 8" "tw_timeout st \<noteq> 0"
  shows "tw_cmd (((\<lambda>s. twiboot_step s Timer_Tick) ^^ n) st) = CMD_BOOT_APPLICATION \<longleftrightarrow>
     8 * unat (tw_timeout st) \<le> n + unat (tw_prescale st)"
  using assms
proof (induction n arbitrary: st)
  case 0
  then have "unat (tw_timeout st) \<noteq> 0" by (simp add: unat_eq_zero)
  then show ?case using 0 by simp
next
  case (Suc n)
  define t p where "t = unat (tw_timeout st)" and "p = unat (tw_prescale st)"
  have t: "t \<noteq> 0" using Suc.prems by (simp add: t_def unat_eq_zero)
  have p: "unat (tw_prescale st + 1) = Suc p" "p < 8"
    using Suc.prems by (simp_all add: unat_word_ariths(1) p_def)
  let ?v = "twiboot_step st Timer_Tick"
  have iter: "((\<lambda>s. twiboot_step s Timer_Tick) ^^ Suc n) st = ((\<lambda>s. twiboot_step s Timer_Tick) ^^ n) ?v"
    by (simp add: funpow_Suc_right del: funpow.simps)
  consider "p < 7" | "p = 7" "t = 1" | "p = 7" "t > 1" using t p by linarith
  then show ?case
  proof cases
    case 1
    then have v: "?v = st\<lparr>tw_prescale := tw_prescale st + 1\<rparr>"
      using Suc.prems p by (simp add: twiboot_step_def TIMER0_OVF_vect_def word_less_nat_alt)
    show ?thesis unfolding iter v using Suc.IH [of "st\<lparr>tw_prescale := tw_prescale st + 1\<rparr>"] Suc.prems 1 p
      by (simp add: t_def p_def)
  next
    case 2
    then have one: "tw_timeout st = 1" by (simp add: t_def word_unat_eq_iff)
    have "tw_cmd ?v = CMD_BOOT_APPLICATION"
      using Suc.prems p 2 one by (simp add: twiboot_step_def TIMER0_OVF_vect_def word_less_nat_alt Let_def)
    then show ?thesis unfolding iter using 2 by (simp add: tick_booted t_def p_def)
  next
    case 3
    then have v: "?v = st\<lparr>tw_prescale := 0, tw_timeout := tw_timeout st - 1\<rparr>"
      using Suc.prems p by (simp add: twiboot_step_def TIMER0_OVF_vect_def word_less_nat_alt Let_def t_def)
    have dec: "unat (tw_timeout st - 1) = t - 1" using 3 by (simp add: unat_sub word_le_nat_alt t_def)
    moreover have "tw_timeout st - 1 \<noteq> 0" using dec 3 by (metis diff_is_0_eq not_less unat_0)
    ultimately show ?thesis
      unfolding iter v using Suc.IH [of "st\<lparr>tw_prescale := 0, tw_timeout := tw_timeout st - 1\<rparr>"] Suc.prems 3
      by (auto simp: t_def [symmetric] p_def [symmetric])
  qed
qed

text \<open>A master that pins a bootloader and then falls silent does not strand the unit: with an
  application in flash, the bootloader starts it on timer tick \<open>1872 - p\<close> after the byte that pinned
  it, where \<open>p < 8\<close> is the phase of the prescaler, and not one tick sooner.\<close>

lemma pinned_bootloader_times_out:
  assumes "twi_listening st" "tw_app_installed st" "unat (tw_prescale st) < 8"
  shows "tw_cmd (((\<lambda>s. twiboot_step s Timer_Tick) ^^ n) (snd (twi_write [CMD_WAIT] st))) = CMD_BOOT_APPLICATION
     \<longleftrightarrow> 1872 \<le> n + unat (tw_prescale st)"
proof -
  let ?v = "st\<lparr>tw_bcnt := 0, tw_timeout := PIN_TICKS, tw_cmd := CMD_WAIT, tw_ack := True\<rparr>"
  have "snd (twi_write [CMD_WAIT] st) = ?v"
    using assms by (cases st) (simp add: twi_write_def twi_listening_def twiboot_step_def TWI_vect_def
        TWI_data_write_def twi_idle_def Let_def)
  then show ?thesis using assms ticks_installed [of ?v n] by simp
qed

definition sample_twiboot :: "u8 \<Rightarrow> flash \<Rightarrow> twiboot" where
  "sample_twiboot rec f = \<lparr>tw_cmd = 0, tw_buf = [], tw_addr = 0, tw_bcnt = 0, tw_timeout = 0, tw_prescale = 0,
     tw_app_installed = True, tw_flash = f, tw_rec_a = rec, tw_rec_b = NOT rec, tw_fuses = (\<lambda>_. 0xFF),
     tw_ack = True, tw_dr = 0, tw_overrun = False\<rparr>"

lemma pinned_bootloader_times_out_witness:
  "tw_cmd (((\<lambda>s. twiboot_step s Timer_Tick) ^^ 1872) (snd (twi_write [0] (sample_twiboot 0 (\<lambda>_. 0))))) = 0x21"
  using pinned_bootloader_times_out [of "sample_twiboot 0 (\<lambda>_. 0)" 1872]
  by (simp add: sample_twiboot_def twi_listening_def)

section \<open>The crash hold\<close>

lemma uninstalled_keeps:
  "tw_app_installed (twiboot_step st ev) = tw_app_installed st"
  by (simp add: twiboot_defs Let_def split: twi_event.split prod.split)

definition starts_app :: "bytes \<Rightarrow> bool" where
  "starts_app bs = (case bs of [] \<Rightarrow> False
     | b # rest \<Rightarrow> \<not> b \<le> 2 \<or> b = 1 \<and> rest \<noteq> [] \<and> hd rest = BOOTTYPE_APPLICATION)"

lemma booted_stays: "tw_cmd st = CMD_BOOT_APPLICATION \<Longrightarrow> twiboot_step st ev = st"
  by (simp add: twiboot_step_def)

text \<open>After the second byte of a write no byte can start the application.\<close>

lemma data_write_later:
  "bcnt \<noteq> 0 \<Longrightarrow> bcnt \<noteq> 1 \<Longrightarrow> tw_cmd st \<noteq> CMD_BOOT_APPLICATION \<Longrightarrow>
     tw_cmd (snd (TWI_data_write bcnt b st)) \<noteq> CMD_BOOT_APPLICATION \<and>
     tw_rec_a (snd (TWI_data_write bcnt b st)) = tw_rec_a st"
  by (simp add: TWI_data_write_def Let_def)

lemma receiving_step:
  assumes "receiving st" "tw_ack st" "tw_cmd st \<noteq> CMD_BOOT_APPLICATION"
  shows "receiving (twiboot_step st (Twi_Int 0x80 b))"
    and "tw_bcnt (twiboot_step st (Twi_Int 0x80 b)) = tw_bcnt st + 1"
    and "unat (tw_bcnt st + 1) = Suc (unat (tw_bcnt st))"
proof -
  have n: "unat (tw_bcnt st) \<le> 131" "unat (tw_bcnt st + 1) = Suc (unat (tw_bcnt st))"
    using assms bcnt_suc by (auto simp: receiving_def)
  note pos = store_position [of "tw_bcnt st"]
  show "receiving (twiboot_step st (Twi_Int 0x80 b))"
    and "tw_bcnt (twiboot_step st (Twi_Int 0x80 b)) = tw_bcnt st + 1"
    using assms n pos
    by (auto simp: twiboot_step_def TWI_vect_def TWI_data_write_def receiving_def Let_def split: prod.split)
  show "unat (tw_bcnt st + 1) = Suc (unat (tw_bcnt st))" by (rule n)
qed

lemma receive_later:
  assumes "receiving st" "2 \<le> unat (tw_bcnt st)" "tw_cmd st \<noteq> CMD_BOOT_APPLICATION"
  shows "tw_cmd (snd (twi_receive bs st)) \<noteq> CMD_BOOT_APPLICATION \<and> tw_ack (snd (twi_receive bs st))"
  using assms
proof (induction bs arbitrary: st)
  case Nil
  then show ?case by (simp add: twiboot_step_def TWI_vect_def twi_idle_def)
next
  case (Cons b bs)
  have n0: "tw_bcnt st \<noteq> 0" "tw_bcnt st \<noteq> 1" using Cons.prems(2) by auto
  note later = data_write_later [OF n0, of "st\<lparr>tw_bcnt := tw_bcnt st + 1\<rparr>" b]
  show ?case
  proof (cases "tw_ack st")
    case False
    then show ?thesis using later Cons.prems by (simp add: twiboot_step_def TWI_vect_def twi_idle_def Let_def)
  next
    case True
    note step = receiving_step(1,2) [OF Cons.prems(1) True Cons.prems(3), of b]
      receiving_step(3) [OF Cons.prems(1) True Cons.prems(3)]
    have "tw_cmd (twiboot_step st (Twi_Int 0x80 b)) \<noteq> CMD_BOOT_APPLICATION"
      using later Cons.prems by (auto simp: twiboot_step_def TWI_vect_def Let_def split: prod.split)
    then show ?thesis using Cons.IH [OF step(1)] step(2,3) Cons.prems True by simp
  qed
qed

lemma small_u8: "(b :: u8) \<le> 2 \<longleftrightarrow> b = 0 \<or> b = 1 \<or> b = 2"
proof -
  have "unat b \<le> 2 \<longleftrightarrow> unat b = unat (0 :: u8) \<or> unat b = unat (1 :: u8) \<or> unat b = unat (2 :: u8)" by auto
  then show ?thesis by (simp only: word_unat_eq_iff word_le_nat_alt) simp
qed

lemma write_starts:
  assumes "twi_listening st"
  shows "tw_cmd (snd (twi_write bs st)) = CMD_BOOT_APPLICATION \<longleftrightarrow> starts_app bs"
    and "tw_cmd (snd (twi_write bs st)) = CMD_BOOT_APPLICATION \<or> tw_ack (snd (twi_write bs st))"
proof -
  have run: "snd (twi_write bs st) = snd (twi_receive bs (st\<lparr>tw_bcnt := 0\<rparr>))"
    using assms by (simp add: twi_write_def twi_listening_def start_write)
  have idle: "tw_cmd (twiboot_step v (Twi_Int 0xA0 0)) = tw_cmd v" "tw_cmd v \<noteq> CMD_BOOT_APPLICATION \<Longrightarrow> tw_ack (twiboot_step v (Twi_Int 0xA0 0))" for v
    by (simp_all add: twiboot_step_def TWI_vect_def twi_idle_def)
  have booted: "tw_cmd v = CMD_BOOT_APPLICATION \<Longrightarrow> snd (twi_receive cs v) = v" for cs v
    by (cases cs) (simp_all add: booted_stays)
  have "(tw_cmd (snd (twi_write bs st)) = CMD_BOOT_APPLICATION \<longleftrightarrow> starts_app bs) \<and>
    (tw_cmd (snd (twi_write bs st)) = CMD_BOOT_APPLICATION \<or> tw_ack (snd (twi_write bs st)))"
  proof (cases bs)
    case Nil
    then show ?thesis unfolding run using idle [of "st\<lparr>tw_bcnt := 0\<rparr>"] assms by (simp add: twi_listening_def starts_app_def)
  next
    case (Cons b cs)
    have first: "twiboot_step (st\<lparr>tw_bcnt := 0\<rparr>) (Twi_Int 0x80 b) =
        (if b \<le> 2 then st\<lparr>tw_bcnt := 1, tw_timeout := PIN_TICKS, tw_cmd := b\<rparr>
         else st\<lparr>tw_bcnt := 1, tw_cmd := CMD_BOOT_APPLICATION, tw_ack := False\<rparr>)"
      using assms unfolding small_u8 by (cases st) (auto simp: twi_listening_def twiboot_step_def TWI_vect_def TWI_data_write_def)
    show ?thesis
    proof (cases "b \<le> 2")
      case False
      then show ?thesis unfolding run unfolding Cons using assms by (simp add: twi_listening_def first booted starts_app_def)
    next
      case low: True
      let ?v = "st\<lparr>tw_bcnt := 1, tw_timeout := PIN_TICKS, tw_cmd := b\<rparr>"
      have v: "tw_cmd ?v \<noteq> CMD_BOOT_APPLICATION" "tw_ack ?v" using low assms unfolding small_u8 by (auto simp: twi_listening_def)
      have rest: "snd (twi_write bs st) = snd (twi_receive cs ?v)"
        unfolding run unfolding Cons using assms low by (simp add: twi_listening_def first)
      show ?thesis
      proof (cases cs)
        case Nil
        then show ?thesis unfolding rest unfolding Cons using idle [of ?v] v low by (simp add: starts_app_def)
      next
        case (Cons c ds)
        let ?w = "twiboot_step ?v (Twi_Int 0x80 c)"
        have w: "tw_cmd ?w = CMD_BOOT_APPLICATION \<longleftrightarrow> b = 1 \<and> c = BOOTTYPE_APPLICATION"
          using v low unfolding small_u8 by (auto simp: twiboot_step_def TWI_vect_def TWI_data_write_def)
        have "receiving ?v" by (simp add: receiving_def)
        note step = receiving_step(1,2) [OF this v(2,1), of c] receiving_step(3) [OF this v(2,1)]
        have "snd (twi_receive cs ?v) = snd (twi_receive ds ?w)" using Cons v by simp
        then show ?thesis
          unfolding rest unfolding \<open>bs = b # cs\<close> using booted [of ?w ds] receive_later [OF step(1), of ds] step(2,3) w low Cons
          by (cases "b = 1 \<and> c = BOOTTYPE_APPLICATION") (auto simp: starts_app_def)
      qed
    qed
  qed
  then show "tw_cmd (snd (twi_write bs st)) = CMD_BOOT_APPLICATION \<longleftrightarrow> starts_app bs"
    and "tw_cmd (snd (twi_write bs st)) = CMD_BOOT_APPLICATION \<or> tw_ack (snd (twi_write bs st))" by auto
qed

lemma read_keeps:
  "tw_cmd (snd (twi_read n st)) = tw_cmd st" "twi_listening st \<Longrightarrow> tw_ack (snd (twi_read n st))"
proof -
  have send: "tw_cmd (twiboot_step v (Twi_Int s 0)) = tw_cmd v"
    "tw_ack v \<Longrightarrow> tw_ack (twiboot_step v (Twi_Int s 0))" if "s = 0xA8 \<or> s = 0xB8 \<or> s = 0xC0" for v s
    using that by (auto simp: twiboot_step_def TWI_vect_def twi_send_def TWI_data_read_def Let_def split: prod.split)
  have cmd: "tw_cmd (snd (twi_transmit k v)) = tw_cmd v" for k v
    by (induction k arbitrary: v) (simp_all add: send Let_def case_prod_beta)
  have ack: "tw_ack v \<Longrightarrow> tw_ack (snd (twi_transmit k v))" for k v
    by (induction k arbitrary: v) (simp_all add: send Let_def case_prod_beta)
  show "tw_cmd (snd (twi_read n st)) = tw_cmd st" by (simp add: twi_read_def Let_def case_prod_beta cmd send)
  show "twi_listening st \<Longrightarrow> tw_ack (snd (twi_read n st))"
    by (simp add: twi_read_def twi_listening_def Let_def case_prod_beta ack send)
qed

lemma bus_step_simps:
  "bus_step st (Bus_Write bs) = snd (twi_write bs st)" "bus_step st (Bus_Read n) = snd (twi_read n st)"
  "bus_step st Bus_Tick = twiboot_step st Timer_Tick"
  by (simp_all add: bus_step_def)

text \<open>C8: A crash-looping unit is really held. When the start-up decides not to start an application
  (blank flash, or the third watchdog reset in a row), no number of timer ticks, reads, probes,
  memory accesses or page writes starts it: it starts exactly when some master writes the start
  command, or a first byte the bootloader does not know.\<close>

theorem held_unit_waits_for_command:
  assumes "\<not> tw_app_installed (twiboot_start mcusr st)"
  shows "tw_cmd (foldl bus_step (twiboot_start mcusr st) ts) = CMD_BOOT_APPLICATION \<longleftrightarrow>
     list_ex (\<lambda>t. case t of Bus_Write bs \<Rightarrow> starts_app bs | _ \<Rightarrow> False) ts"
proof -
  have inst: "tw_app_installed (bus_step v t) = tw_app_installed v" for v t
  proof -
    have "tw_app_installed (snd (twi_receive bs v)) = tw_app_installed v" for bs v
      by (induction bs arbitrary: v) (simp_all add: uninstalled_keeps)
    moreover have "tw_app_installed (snd (twi_transmit n v)) = tw_app_installed v" for n v
      by (induction n arbitrary: v) (simp_all add: uninstalled_keeps Let_def case_prod_beta)
    ultimately show ?thesis
      by (cases t) (simp_all add: bus_step_def twi_write_def twi_read_def uninstalled_keeps Let_def case_prod_beta)
  qed
  have dead: "tw_cmd v = CMD_BOOT_APPLICATION \<Longrightarrow> bus_step v t = v" for v t
    by (cases t) (simp_all add: bus_step_def twi_write_def twi_read_def twi_listening_def booted_stays)
  have "tw_cmd (foldl bus_step v ts) = CMD_BOOT_APPLICATION \<longleftrightarrow>
     list_ex (\<lambda>t. case t of Bus_Write bs \<Rightarrow> starts_app bs | _ \<Rightarrow> False) ts"
    if "twi_listening v" "\<not> tw_app_installed v" for v
    using that
  proof (induction ts arbitrary: v)
    case Nil
    then show ?case by (simp add: twi_listening_def)
  next
    case (Cons t ts)
    have stuck: "tw_cmd v = CMD_BOOT_APPLICATION \<Longrightarrow> foldl bus_step v ts = v" for v
      by (induction ts) (simp_all add: dead)
    show ?case
    proof (cases t)
      case (Bus_Write bs)
      then show ?thesis
        using Cons write_starts [of v bs] stuck [of "bus_step v t"] inst [of v t]
        by (cases "starts_app bs") (auto simp: bus_step_simps twi_listening_def)
    next
      case (Bus_Read n)
      then show ?thesis using Cons read_keeps [where n = n and st = v] inst [of v t] by (auto simp: bus_step_simps twi_listening_def)
    next
      case Bus_Tick
      then have "bus_step v t = v" using Cons.prems by (simp add: bus_step_simps twiboot_step_def TIMER0_OVF_vect_def)
      then show ?thesis using Cons Bus_Tick by simp
    qed
  qed
  moreover have "twi_listening (twiboot_start mcusr st)" by (simp add: twi_listening_def twiboot_start_def Let_def)
  ultimately show ?thesis using assms by blast
qed

lemma held_unit_waits_for_command_witness:
  "tw_cmd (foldl bus_step (twiboot_start 0x08 (sample_twiboot 0xA2 (\<lambda>_. 0)))
     [Bus_Tick, Bus_Write [2, 0, 0, 0], Bus_Read 13, Bus_Write [1, 0x80]]) = 0x21"
  using held_unit_waits_for_command [where mcusr = 8 and st = "sample_twiboot 0xA2 (\<lambda>_. 0)"
      and ts = "[Bus_Tick, Bus_Write [2, 0, 0, 0], Bus_Read 13, Bus_Write [1, 0x80]]"]
  by (simp add: sample_twiboot_def twiboot_start_def crash_count_def le16_def starts_app_def Let_def)

section \<open>What a page burst and a page read do\<close>

lemma address_bytes: "push_bit 8 (push_bit 8 (w :: u16) OR ucast (byte_of (Suc 0) a)) OR ucast (byte_of 0 a) = (a :: u16)"
  by (rule bit_word_eqI) (auto simp: bit_simps bit_byte_of)

lemma address_bytes': "push_bit 8 (ucast (byte_of (Suc 0) a)) OR ucast (byte_of 0 a) = (a :: u16)"
  by (rule bit_word_eqI) (auto simp: bit_simps bit_byte_of)

definition header_state :: "u16 \<Rightarrow> twiboot \<Rightarrow> twiboot" where
  "header_state a st = st\<lparr>tw_bcnt := 4, tw_timeout := PIN_TICKS, tw_cmd := CMD_ACCESS_FLASH, tw_addr := a\<rparr>"

lemma receive_steps:
  "tw_cmd st \<noteq> CMD_BOOT_APPLICATION \<Longrightarrow> tw_bcnt st = 0 \<Longrightarrow> b \<le> 2 \<Longrightarrow>
     twiboot_step st (Twi_Int 0x80 b) = st\<lparr>tw_bcnt := 1, tw_timeout := PIN_TICKS, tw_cmd := b\<rparr>"
  "tw_cmd st = CMD_ACCESS_MEMORY \<Longrightarrow> tw_bcnt st = 1 \<Longrightarrow>
     twiboot_step st (Twi_Int 0x80 1) = st\<lparr>tw_bcnt := 2, tw_cmd := CMD_ACCESS_FLASH\<rparr>"
  "tw_cmd st = CMD_ACCESS_MEMORY \<Longrightarrow> tw_bcnt st = 1 \<Longrightarrow>
     twiboot_step st (Twi_Int 0x80 0) = st\<lparr>tw_bcnt := 2, tw_cmd := CMD_ACCESS_CHIPINFO\<rparr>"
  "tw_cmd st \<noteq> CMD_BOOT_APPLICATION \<Longrightarrow> tw_bcnt st = 2 \<Longrightarrow>
     twiboot_step st (Twi_Int 0x80 b) = st\<lparr>tw_bcnt := 3, tw_addr := push_bit 8 (tw_addr st) OR ucast b\<rparr>"
  "tw_cmd st \<noteq> CMD_BOOT_APPLICATION \<Longrightarrow> tw_bcnt st = 3 \<Longrightarrow>
     twiboot_step st (Twi_Int 0x80 b) = st\<lparr>tw_bcnt := 4, tw_addr := push_bit 8 (tw_addr st) OR ucast b\<rparr>"
  by (simp_all add: twiboot_step_def TWI_vect_def TWI_data_write_def small_u8, auto)

lemma receive_header:
  assumes "twi_listening st"
  shows "twi_write ([2, 1, byte_of 1 a, byte_of 0 a] @ bs) st = twi_receive bs (header_state a st)"
  using assms
  by (cases st) (simp add: twi_write_def start_write twi_listening_def receive_steps address_bytes address_bytes' header_state_def)

definition burst_state :: "u16 \<Rightarrow> bytes \<Rightarrow> nat \<Rightarrow> twiboot \<Rightarrow> twiboot" where
  "burst_state a page k st = (header_state a st)\<lparr>tw_bcnt := 4 + of_nat k,
     tw_cmd := (if k < 128 then CMD_ACCESS_FLASH else CMD_WRITE_FLASH_PAGE),
     tw_buf := take k page @ drop k (tw_buf st), tw_ack := (k < 128)\<rparr>"

lemma receive_data:
  assumes "tw_cmd st = CMD_ACCESS_FLASH" "unat (tw_bcnt st) = 4 + k" "k < 128" "buffer_ok st"
  shows "twiboot_step st (Twi_Int 0x80 b) = st\<lparr>tw_bcnt := tw_bcnt st + 1, tw_buf := (tw_buf st)[k := b],
     tw_cmd := (if k < 127 then CMD_ACCESS_FLASH else CMD_WRITE_FLASH_PAGE), tw_ack := (tw_ack st \<and> k < 127)\<rparr>"
proof -
  have ne: "tw_bcnt st \<noteq> 0" "tw_bcnt st \<noteq> 1" "tw_bcnt st \<noteq> 2" "tw_bcnt st \<noteq> 3"
    using assms(2) by auto
  have pos: "unat (tw_bcnt st - 4) = k" using store_position(1) [OF ne] assms(2,3) by simp
  show ?thesis
    using assms ne pos by (cases st) (auto simp: twiboot_step_def TWI_vect_def TWI_data_write_def Let_def buffer_ok_def)
qed

lemma burst_step:
  assumes "k < 128" "length page = 128" "buffer_ok st"
  shows "twiboot_step (burst_state a page k st) (Twi_Int 0x80 (page ! k)) = burst_state a page (Suc k) st"
proof -
  have n: "unat (4 + of_nat k :: u8) = 4 + k" using assms by (simp add: unat_word_ariths(1) unat_of_nat)
  have buf: "(take k page @ drop k (tw_buf st))[k := page ! k] = take (Suc k) page @ drop (Suc k) (tw_buf st)"
    using assms by (intro nth_equalityI) (auto simp: nth_append nth_list_update min_def buffer_ok_def)
  have next_n: "4 + of_nat k + 1 = (4 + of_nat (Suc k) :: u8)" by simp
  have ok: "buffer_ok (burst_state a page k st)"
    using assms by (auto simp: buffer_ok_def burst_state_def header_state_def)
  have "twiboot_step (burst_state a page k st) (Twi_Int 0x80 (page ! k)) =
      (burst_state a page k st)\<lparr>tw_bcnt := tw_bcnt (burst_state a page k st) + 1,
        tw_buf := (tw_buf (burst_state a page k st))[k := page ! k],
        tw_cmd := (if k < 127 then CMD_ACCESS_FLASH else CMD_WRITE_FLASH_PAGE),
        tw_ack := (tw_ack (burst_state a page k st) \<and> k < 127)\<rparr>"
    by (rule receive_data) (use assms n ok in \<open>simp_all add: burst_state_def\<close>)
  also have "\<dots> = burst_state a page (Suc k) st"
    using assms by (simp add: burst_state_def buf next_n)
  finally show ?thesis .
qed

lemma receive_burst:
  assumes "k \<le> 128" "length page = 128" "buffer_ok st" "twi_listening st"
  shows "twi_receive (drop k page) (burst_state a page k st) =
     (True, twiboot_step (burst_state a page 128 st) (Twi_Int 0xA0 0))"
  using assms
proof (induction "128 - k" arbitrary: k)
  case 0
  then show ?case by simp
next
  case (Suc n)
  then have k: "k < 128" by simp
  have d: "drop k page = page ! k # drop (Suc k) page" using k Suc.prems by (simp add: Cons_nth_drop_Suc)
  have ack: "tw_ack (burst_state a page k st)" "tw_cmd (burst_state a page k st) \<noteq> CMD_BOOT_APPLICATION"
    using k by (simp_all add: burst_state_def)
  show ?case
    unfolding d using Suc.hyps(1) [of "Suc k"] Suc.hyps(2) Suc.prems k ack burst_step [OF k Suc.prems(2,3)] by simp
qed

lemma fill_burst:
  assumes "unat (a :: u16) mod 128 = 0" "unat a < 0x7C00" "k \<le> 64"
  shows "foldl (\<lambda>(fill, a) i. (fill((unat a mod 128) div 2 := ws i), a + 2)) (f0, a) [0..<k] =
    ((\<lambda>i. if i < k then ws i else f0 i), a + 2 * of_nat k)"
  using assms(3)
proof (induction k)
  case 0
  then show ?case by simp
next
  case (Suc k)
  have "unat (a + 2 * of_nat k :: u16) = unat a + 2 * k"
  proof -
    have "unat (2 * of_nat k :: u16) = 2 * k" using Suc.prems by (simp add: unat_word_ariths(2) unat_of_nat)
    then show ?thesis using Suc.prems assms(2) by (simp add: unat_word_ariths(1))
  qed
  moreover have "(unat a + 2 * k) mod 128 = 2 * k"
  proof -
    have "(unat a + 2 * k) mod 128 = (unat a mod 128 + 2 * k) mod 128" by (rule mod_add_left_eq [symmetric])
    then show ?thesis using assms(1) Suc.prems by simp
  qed
  ultimately show ?case using Suc by (simp add: fun_eq_iff algebra_simps less_Suc_eq)
qed

lemma word_byte_of_page:
  assumes "length page = 128"
  shows "word_byte (\<lambda>i. if i < 64 then le16 (page ! (2 * i)) (page ! Suc (2 * i)) else f i) x = page ! (x mod 128)"
proof -
  define k where "k = x mod 128 div 2"
  have x: "x mod 128 = 2 * k + x mod 2"
  proof -
    have "x mod 128 = k * 2 + x mod 128 mod 2" unfolding k_def by (rule div_mult_mod_eq [symmetric])
    moreover have "x mod 128 mod 2 = x mod 2" by (simp add: mod_mod_cancel)
    ultimately show ?thesis by simp
  qed
  have k: "k < 64" by (simp add: k_def)
  consider "x mod 2 = 0" "x mod 128 = 2 * k" | "x mod 2 = 1" "x mod 128 = Suc (2 * k)" using x by linarith
  then show ?thesis by cases (simp_all add: word_byte_def k_def [symmetric] k)
qed

lemma write_aligned_page:
  assumes "unat (tw_addr st) mod 128 = 0" "unat (tw_addr st) < 0x7C00" "length (tw_buf st) = 128"
  shows "tw_flash (write_flash_page st) = put_page (tw_flash st) (unat (tw_addr st) div 128) (tw_buf st)"
proof -
  have ones: "0xFF AND (v :: u8) = v" for v
    by (rule bit_word_eqI) (simp add: bit_and_iff bit_mask_FF bit_int_FF)
  show ?thesis
    using assms by (simp add: write_flash_page_def Let_def fill_burst put_page_def ones word_byte_of_page cong: if_cong)
qed

text \<open>A whole burst to a page below the boot section programs exactly that page.\<close>

lemma page_burst:
  assumes "twi_listening st" "buffer_ok st" "length page = 128" "unat (a :: u16) mod 128 = 0" "unat a < 0x7C00"
  shows "fst (twi_write ([2, 1, byte_of 1 a, byte_of 0 a] @ page) st)"
    and "tw_flash (snd (twi_write ([2, 1, byte_of 1 a, byte_of 0 a] @ page) st)) = put_page (tw_flash st) (unat a div 128) page"
    and "twi_listening (snd (twi_write ([2, 1, byte_of 1 a, byte_of 0 a] @ page) st))"
    and "buffer_ok (snd (twi_write ([2, 1, byte_of 1 a, byte_of 0 a] @ page) st))"
proof -
  have z: "header_state a st = burst_state a page 0 st"
    using assms by (cases st) (simp add: header_state_def burst_state_def twi_listening_def)
  have b: "tw_addr (burst_state a page 128 st) = a" "tw_buf (burst_state a page 128 st) = page"
    "tw_cmd (burst_state a page 128 st) = CMD_WRITE_FLASH_PAGE" "tw_flash (burst_state a page 128 st) = tw_flash st"
    using assms by (simp_all add: burst_state_def header_state_def buffer_ok_def)
  have idle: "twiboot_step (burst_state a page 128 st) (Twi_Int 0xA0 0) = twi_idle (burst_state a page 128 st)"
    using b(3) by (simp add: twiboot_step_def TWI_vect_def)
  have "twi_receive page (burst_state a page 0 st) = (True, twi_idle (burst_state a page 128 st))"
    using receive_burst [of 0 page st a] assms(1-3) unfolding idle by simp
  then have run: "twi_write ([2, 1, byte_of 1 a, byte_of 0 a] @ page) st = (True, twi_idle (burst_state a page 128 st))"
    using receive_header [OF assms(1), of a page] by (simp only: z)
  show "fst (twi_write ([2, 1, byte_of 1 a, byte_of 0 a] @ page) st)" by (simp only: run fst_conv)
  show "tw_flash (snd (twi_write ([2, 1, byte_of 1 a, byte_of 0 a] @ page) st)) = put_page (tw_flash st) (unat a div 128) page"
    using write_aligned_page [of "(burst_state a page 128 st)\<lparr>tw_ack := False\<rparr>"] assms
    by (simp only: run snd_conv) (simp add: twi_idle_def b)
  show "twi_listening (snd (twi_write ([2, 1, byte_of 1 a, byte_of 0 a] @ page) st))"
    by (simp only: run snd_conv) (simp add: twi_idle_def twi_listening_def b)
  show "buffer_ok (snd (twi_write ([2, 1, byte_of 1 a, byte_of 0 a] @ page) st))"
    using assms by (intro twi_write_ok)
qed

text \<open>Short commands: a ping, and the header of a read.\<close>

lemma ping_txn:
  assumes "twi_listening st" "buffer_ok st"
  shows "fst (twi_write [0] st)" "twi_listening (snd (twi_write [0] st))" "buffer_ok (snd (twi_write [0] st))"
    "tw_flash (snd (twi_write [0] st)) = tw_flash st"
  using assms
  by (simp_all add: twi_write_ok)
     (simp_all add: twi_write_def start_write twi_listening_def receive_steps, simp_all add: twiboot_step_def TWI_vect_def twi_idle_def)

lemma read_header:
  assumes "twi_listening st" "buffer_ok st"
  shows "twi_write [2, 1, byte_of 1 a, byte_of 0 a] st = (True, (header_state a st)\<lparr>tw_bcnt := 0, tw_ack := True\<rparr>)"
  using receive_header [OF assms(1), of a "[]"]
  by (simp add: twiboot_step_def TWI_vect_def twi_idle_def header_state_def)

lemma transmit_flash:
  assumes "tw_cmd st = CMD_ACCESS_FLASH"
  shows "fst (twi_transmit n st) = map (\<lambda>i. tw_flash st (unat (tw_addr st + of_nat i))) [0..<n]"
    and "tw_flash (snd (twi_transmit n st)) = tw_flash st" and "tw_cmd (snd (twi_transmit n st)) = CMD_ACCESS_FLASH"
    and "tw_ack (snd (twi_transmit n st))"
  using assms
proof (induction n arbitrary: st)
  case (Suc n)
  define sent where "sent v = v\<lparr>tw_bcnt := tw_bcnt v + 1, tw_addr := tw_addr v + 1,
      tw_dr := tw_flash v (unat (tw_addr v))\<rparr>" for v :: twiboot
  have step: "twiboot_step v (Twi_Int 0xB8 0) = sent v" if "tw_cmd v = CMD_ACCESS_FLASH" for v
    using that by (cases v) (simp add: sent_def twiboot_step_def TWI_vect_def twi_send_def TWI_data_read_def)
  have sent: "tw_cmd (sent v) = tw_cmd v" "tw_flash (sent v) = tw_flash v" "tw_dr (sent v) = tw_flash v (unat (tw_addr v))"
    "tw_addr (sent v) = tw_addr v + 1" for v
    by (simp_all add: sent_def)
  have list: "map f [0..<Suc n] = f 0 # map (\<lambda>i. f (Suc i)) [0..<n]" for f :: "nat \<Rightarrow> u8"
    by (simp add: upt_conv_Cons map_Suc_upt [symmetric] del: upt_Suc)
  { case 1 then show ?case using Suc.IH(1) [of "sent st"] unfolding list by (simp add: step sent Let_def case_prod_beta add.assoc)
    next case 2 then show ?case using Suc.IH(2) [of "sent st"] by (simp add: step sent Let_def case_prod_beta)
    next case 3 then show ?case using Suc.IH(3) [of "sent st"] by (simp add: step sent Let_def case_prod_beta)
    next case 4 then show ?case using Suc.IH(4) [of "sent st"] by (simp add: step sent Let_def case_prod_beta) }
qed (simp_all add: twiboot_step_def TWI_vect_def)

lemma page_read:
  assumes "twi_listening st" "tw_cmd st = CMD_ACCESS_FLASH" "0 < n"
  shows "fst (twi_read n st) = Some (map (\<lambda>i. tw_flash st (unat (tw_addr st + of_nat i))) [0..<n])"
    and "tw_flash (snd (twi_read n st)) = tw_flash st" and "twi_listening (snd (twi_read n st))"
proof -
  have step: "twiboot_step st (Twi_Int 0xA8 0) =
      st\<lparr>tw_bcnt := 1, tw_addr := tw_addr st + 1, tw_dr := tw_flash st (unat (tw_addr st))\<rparr>" (is "_ = ?v")
    using assms by (cases st) (simp add: twiboot_step_def TWI_vect_def twi_send_def TWI_data_read_def)
  obtain m where m: "n = Suc m" using assms(3) gr0_implies_Suc by blast
  have list: "map f [0..<Suc m] = f 0 # map (\<lambda>i. f (Suc i)) [0..<m]" for f :: "nat \<Rightarrow> u8"
    by (simp add: upt_conv_Cons map_Suc_upt [symmetric] del: upt_Suc)
  note tx = transmit_flash [of ?v m]
  show "fst (twi_read n st) = Some (map (\<lambda>i. tw_flash st (unat (tw_addr st + of_nat i))) [0..<n])"
    using assms tx(1) unfolding m list by (simp add: twi_read_def step Let_def case_prod_beta add.assoc)
  show "tw_flash (snd (twi_read n st)) = tw_flash st" using assms tx(2) by (simp add: m twi_read_def step Let_def case_prod_beta)
  show "twi_listening (snd (twi_read n st))"
    using assms tx(3,4) by (simp add: m twi_read_def step twi_listening_def Let_def case_prod_beta)
qed

text \<open>
  A page command stays pending after its page is written: being addressed again with no data byte at
  all (a bare probe of the address) programs the buffer a second time, at the address where the first
  page left off. Any command byte, a ping included, clears it.
\<close>

lemma bare_address_programs_again:
  "twi_listening st \<Longrightarrow> tw_cmd st = CMD_WRITE_FLASH_PAGE \<Longrightarrow>
     tw_flash (snd (twi_write [] st)) = tw_flash (write_flash_page st)"
  by (simp add: twi_write_def start_write twi_listening_def twiboot_step_def TWI_vect_def twi_idle_def
      write_flash_page_def Let_def split: prod.split cong: if_cong)

end
