(* ===== verification/Flash_Link.thy ===== *)
theory Flash_Link
  imports Flash_Contract Twiboot_Device Bus_Sim
begin

text \<open>
  The bootloader of \<open>Twiboot_Device\<close> at the far end of the simulated wire provides the interface the
  flash client relies on (\<open>Flash_Contract\<close>), so the client's guarantees hold of the two together: with
  transactions lost and broken off at any byte, with program memory that takes a page wrong, and with
  the bootloader's own timer running.
\<close>

section \<open>Contact with the bootloader\<close>

text \<open>What a command leaves of the bootloader: it still listens, and its timer starts over.\<close>

definition contacted :: "twiboot \<Rightarrow> twiboot \<Rightarrow> bool" where
  "contacted st st' \<longleftrightarrow> twi_listening st' \<and> buffer_ok st' \<and> tw_timeout st' = PIN_TICKS \<and>
     tw_prescale st' = tw_prescale st \<and> tw_app_installed st' = tw_app_installed st"

inductive short_frame :: "bytes \<Rightarrow> bool" where
  command: "b \<le> 2 \<Longrightarrow> short_frame [b]"
| memory: "m \<le> 1 \<Longrightarrow> short_frame [2, m]"
| memory_high: "m \<le> 1 \<Longrightarrow> short_frame [2, m, x]"
| memory_addr: "m \<le> 1 \<Longrightarrow> short_frame [2, m, x, y]"

lemma small_m: "(m :: u8) \<le> 1 \<longleftrightarrow> m = 0 \<or> m = 1"
  using small_u8 [of m] by (auto simp: word_le_nat_alt)

lemma short_write:
  assumes "twi_listening st"
  shows "b \<le> 2 \<Longrightarrow> twi_write [b] st = (True, st\<lparr>tw_bcnt := 0, tw_timeout := PIN_TICKS, tw_cmd := b\<rparr>)"
    and "m \<le> 1 \<Longrightarrow> twi_write [2, m] st =
      (True, st\<lparr>tw_bcnt := 0, tw_timeout := PIN_TICKS, tw_cmd := (if m = 0 then CMD_ACCESS_CHIPINFO else CMD_ACCESS_FLASH)\<rparr>)"
    and "m \<le> 1 \<Longrightarrow> twi_write [2, m, x] st =
      (True, st\<lparr>tw_bcnt := 0, tw_timeout := PIN_TICKS, tw_cmd := (if m = 0 then CMD_ACCESS_CHIPINFO else CMD_ACCESS_FLASH),
         tw_addr := push_bit 8 (tw_addr st) OR ucast x\<rparr>)"
    and "m \<le> 1 \<Longrightarrow> twi_write [2, m, x, y] st =
      (True, st\<lparr>tw_bcnt := 0, tw_timeout := PIN_TICKS, tw_cmd := (if m = 0 then CMD_ACCESS_CHIPINFO else CMD_ACCESS_FLASH),
         tw_addr := push_bit 8 (push_bit 8 (tw_addr st) OR ucast x) OR ucast y\<rparr>)"
proof -
  obtain c bf a bc t p i f ra rb fu ac dr ov where st: "st = \<lparr>tw_cmd = c, tw_buf = bf, tw_addr = a, tw_bcnt = bc,
      tw_timeout = t, tw_prescale = p, tw_app_installed = i, tw_flash = f, tw_rec_a = ra, tw_rec_b = rb,
      tw_fuses = fu, tw_ack = ac, tw_dr = dr, tw_overrun = ov\<rparr>"
    by (cases st)
  note run = twi_write_def start_write twi_listening_def receive_steps
  have idle: "twiboot_step v (Twi_Int 0xA0 0) = v\<lparr>tw_bcnt := 0, tw_ack := True\<rparr>"
    if "tw_cmd v \<noteq> CMD_BOOT_APPLICATION" "tw_cmd v \<noteq> CMD_WRITE_FLASH_PAGE" for v
    using that by (simp add: twiboot_step_def TWI_vect_def twi_idle_def)
  show "b \<le> 2 \<Longrightarrow> twi_write [b] st = (True, st\<lparr>tw_bcnt := 0, tw_timeout := PIN_TICKS, tw_cmd := b\<rparr>)"
    using assms unfolding small_u8 st by (elim disjE; simp add: run idle)
  show "m \<le> 1 \<Longrightarrow> twi_write [2, m] st =
      (True, st\<lparr>tw_bcnt := 0, tw_timeout := PIN_TICKS, tw_cmd := (if m = 0 then CMD_ACCESS_CHIPINFO else CMD_ACCESS_FLASH)\<rparr>)"
    using assms unfolding small_m st by (elim disjE; simp add: run idle)
  show "m \<le> 1 \<Longrightarrow> twi_write [2, m, x] st =
      (True, st\<lparr>tw_bcnt := 0, tw_timeout := PIN_TICKS, tw_cmd := (if m = 0 then CMD_ACCESS_CHIPINFO else CMD_ACCESS_FLASH),
         tw_addr := push_bit 8 (tw_addr st) OR ucast x\<rparr>)"
    using assms unfolding small_m st by (elim disjE; simp add: run idle)
  show "m \<le> 1 \<Longrightarrow> twi_write [2, m, x, y] st =
      (True, st\<lparr>tw_bcnt := 0, tw_timeout := PIN_TICKS, tw_cmd := (if m = 0 then CMD_ACCESS_CHIPINFO else CMD_ACCESS_FLASH),
         tw_addr := push_bit 8 (push_bit 8 (tw_addr st) OR ucast x) OR ucast y\<rparr>)"
    using assms unfolding small_m st by (elim disjE; simp add: run idle)
qed

lemma short_frame_keeps:
  assumes "twi_listening st" "buffer_ok st" "short_frame frame"
  shows "fst (twi_write frame st)" "contacted st (snd (twi_write frame st))"
    "tw_flash (snd (twi_write frame st)) = tw_flash st"
  using assms(3,1,2)
  by (induction rule: short_frame.induct)
     (auto simp: short_write contacted_def twi_listening_def buffer_ok_def)

lemma short_frame_cmd:
  "twi_listening st \<Longrightarrow> short_frame frame \<Longrightarrow> tw_cmd (snd (twi_write frame st)) \<noteq> CMD_WRITE_FLASH_PAGE"
  by (auto elim!: short_frame.cases simp: short_write split: if_splits)

lemma short_frame_take: "short_frame frame \<Longrightarrow> short_frame (take (Suc n) frame)"
  by (auto elim!: short_frame.cases simp: take_Cons' intro: short_frame.intros)

text \<open>A burst that broke off inside the page programs nothing.\<close>

lemma receive_partial:
  assumes "k \<le> m" "m < 128" "length page = 128" "buffer_ok st" "twi_listening st"
  shows "twi_receive (drop k (take m page)) (burst_state a page k st) =
     (True, twi_idle (burst_state a page m st))"
  using assms
proof (induction "m - k" arbitrary: k)
  case 0
  then show ?case by (simp add: twiboot_step_def TWI_vect_def burst_state_def header_state_def)
next
  case (Suc n)
  then have k: "k < m" by simp
  have d: "drop k (take m page) = page ! k # drop (Suc k) (take m page)"
    using k Suc.prems by (simp add: Cons_nth_drop_Suc [symmetric])
  have ack: "tw_ack (burst_state a page k st)" "tw_cmd (burst_state a page k st) \<noteq> CMD_BOOT_APPLICATION"
    using k Suc.prems by (simp_all add: burst_state_def)
  show ?case
    unfolding d using Suc.hyps(1) [of "Suc k"] Suc.hyps(2) Suc.prems k ack burst_step [OF _ Suc.prems(3,4), of k] by simp
qed

lemma partial_burst:
  assumes "twi_listening st" "buffer_ok st" "length page = 128" "m < 128"
  shows "contacted st (snd (twi_write (page_header a @ take m page) st))"
    and "tw_flash (snd (twi_write (page_header a @ take m page) st)) = tw_flash st"
proof -
  have z: "header_state a st = burst_state a page 0 st"
    using assms by (cases st) (simp add: header_state_def burst_state_def twi_listening_def)
  have "twi_write (page_header a @ take m page) st = twi_receive (drop 0 (take m page)) (burst_state a page 0 st)"
    using receive_header [OF assms(1), of a "take m page"] by (simp add: page_header_def z)
  also have "\<dots> = (True, twi_idle (burst_state a page m st))"
    by (rule receive_partial) (use assms in simp_all)
  finally have run: "twi_write (page_header a @ take m page) st = (True, twi_idle (burst_state a page m st))" .
  have "buffer_ok (snd (twi_write (page_header a @ take m page) st))" using assms(2) by (rule twi_write_ok)
  with assms run show "contacted st (snd (twi_write (page_header a @ take m page) st))"
    "tw_flash (snd (twi_write (page_header a @ take m page) st)) = tw_flash st"
    by (simp_all add: contacted_def twi_idle_def burst_state_def header_state_def twi_listening_def)
qed

lemma whole_burst:
  assumes "twi_listening st" "buffer_ok st" "length page = 128" "unat a mod 128 = 0" "unat a < 0x7C00"
  shows "fst (twi_write (page_header a @ page) st)" "contacted st (snd (twi_write (page_header a @ page) st))"
    "tw_flash (snd (twi_write (page_header a @ page) st)) = put_page (tw_flash st) (unat a div 128) page"
    "tw_cmd (snd (twi_write (page_header a @ page) st)) = CMD_WRITE_FLASH_PAGE"
    "tw_addr (snd (twi_write (page_header a @ page) st)) = a + 128"
proof -
  have z: "header_state a st = burst_state a page 0 st"
    using assms by (cases st) (simp add: header_state_def burst_state_def twi_listening_def)
  have b: "tw_cmd (burst_state a page 128 st) = CMD_WRITE_FLASH_PAGE" "tw_addr (burst_state a page 128 st) = a"
    by (simp_all add: burst_state_def header_state_def)
  have idle: "twiboot_step (burst_state a page 128 st) (Twi_Int 0xA0 0) = twi_idle (burst_state a page 128 st)"
    using b by (simp add: twiboot_step_def TWI_vect_def)
  have "twi_receive page (burst_state a page 0 st) = (True, twi_idle (burst_state a page 128 st))"
    using receive_burst [of 0 page st a] assms(1-3) unfolding idle by simp
  then have run: "twi_write (page_header a @ page) st = (True, twi_idle (burst_state a page 128 st))"
    using receive_header [OF assms(1), of a page] by (simp only: page_header_def z)
  note burst = page_burst [OF assms, folded page_header_def]
  show "fst (twi_write (page_header a @ page) st)"
    "tw_flash (snd (twi_write (page_header a @ page) st)) = put_page (tw_flash st) (unat a div 128) page"
    using burst by (simp_all only: append_Cons append_Nil)
  have "buffer_ok (snd (twi_write (page_header a @ page) st))" using assms(2) by (rule twi_write_ok)
  then show "contacted st (snd (twi_write (page_header a @ page) st))"
    "tw_cmd (snd (twi_write (page_header a @ page) st)) = CMD_WRITE_FLASH_PAGE"
    using assms(1) by (simp_all add: run contacted_def twi_idle_def twi_listening_def burst_state_def header_state_def)
  have "tw_addr (write_flash_page v) = tw_addr v + 128" if "tw_addr v = a" for v
    using that assms(4,5) by (simp add: write_flash_page_def Let_def fill_burst)
  then show "tw_addr (snd (twi_write (page_header a @ page) st)) = a + 128"
    by (simp add: run twi_idle_def b)
qed

text \<open>The order to start the application.\<close>

lemma exit_frame:
  assumes "twi_listening st" "buffer_ok st"
  shows "fst (twi_write [1, 0x80] st)" "tw_cmd (snd (twi_write [1, 0x80] st)) = CMD_BOOT_APPLICATION"
    "tw_flash (snd (twi_write [1, 0x80] st)) = tw_flash st"
  using assms(1)
  by (simp_all add: twi_write_def start_write twi_listening_def receive_steps)
     (simp_all add: twiboot_step_def TWI_vect_def TWI_data_write_def)

text \<open>A read moves nothing but the read position.\<close>

lemma send_state: "\<exists>n a d. twi_send st = st\<lparr>tw_bcnt := n, tw_addr := a, tw_dr := d\<rparr>"
  unfolding twi_send_def TWI_data_read_def Let_def
  by (cases st, cases "tw_cmd st = CMD_SWITCH_APPLICATION"; cases "tw_cmd st = CMD_ACCESS_CHIPINFO";
      cases "tw_cmd st = CMD_ACCESS_FLASH") simp_all

lemma read_step_state:
  assumes "s = 0xA8 \<or> s = 0xB8 \<or> s = 0xC0"
  shows "\<exists>n a d k. twiboot_step st (Twi_Int s x) = st\<lparr>tw_bcnt := n, tw_addr := a, tw_dr := d, tw_ack := k\<rparr> \<and>
    (tw_ack st \<longrightarrow> k)"
proof (cases "tw_cmd st = CMD_BOOT_APPLICATION")
  case True
  then show ?thesis by (cases st) (simp add: twiboot_step_def)
next
  case False
  have send: "\<exists>n a d k. twi_send v = st\<lparr>tw_bcnt := n, tw_addr := a, tw_dr := d, tw_ack := k\<rparr> \<and> (tw_ack st \<longrightarrow> k)"
    if "v = st \<or> v = st\<lparr>tw_bcnt := 0\<rparr>" for v
  proof -
    obtain n a d where "twi_send v = v\<lparr>tw_bcnt := n, tw_addr := a, tw_dr := d\<rparr>" using send_state by blast
    with that show ?thesis by (cases st) auto
  qed
  from False assms show ?thesis
    using send [of st] send [of "st\<lparr>tw_bcnt := 0\<rparr>"]
    by (elim disjE; cases st) (simp_all add: twiboot_step_def TWI_vect_def, blast)
qed

lemma read_step:
  assumes "s = 0xA8 \<or> s = 0xB8 \<or> s = 0xC0"
  shows "tw_flash (twiboot_step st (Twi_Int s d)) = tw_flash st" "tw_cmd (twiboot_step st (Twi_Int s d)) = tw_cmd st"
    "tw_timeout (twiboot_step st (Twi_Int s d)) = tw_timeout st" "tw_prescale (twiboot_step st (Twi_Int s d)) = tw_prescale st"
    "tw_app_installed (twiboot_step st (Twi_Int s d)) = tw_app_installed st"
    "tw_ack st \<Longrightarrow> tw_ack (twiboot_step st (Twi_Int s d))"
    "tw_rec_a (twiboot_step st (Twi_Int s d)) = tw_rec_a st"
  using read_step_state [OF assms, of st d] by (elim exE conjE; simp)+

lemma transmit_keeps:
  "tw_flash (snd (twi_transmit n st)) = tw_flash st" "tw_cmd (snd (twi_transmit n st)) = tw_cmd st"
  "tw_timeout (snd (twi_transmit n st)) = tw_timeout st" "tw_prescale (snd (twi_transmit n st)) = tw_prescale st"
  "tw_app_installed (snd (twi_transmit n st)) = tw_app_installed st"
  "tw_ack st \<Longrightarrow> tw_ack (snd (twi_transmit n st))" "tw_rec_a (snd (twi_transmit n st)) = tw_rec_a st"
  "length (fst (twi_transmit n st)) = n"
  by (induction n arbitrary: st) (simp_all add: read_step Let_def case_prod_beta)

lemma twi_read_keeps:
  "tw_flash (snd (twi_read n st)) = tw_flash st" "twi_listening st \<Longrightarrow> twi_listening (snd (twi_read n st))"
  "tw_timeout (snd (twi_read n st)) = tw_timeout st" "tw_prescale (snd (twi_read n st)) = tw_prescale st"
  "tw_app_installed (snd (twi_read n st)) = tw_app_installed st" "tw_cmd (snd (twi_read n st)) = tw_cmd st"
  "tw_rec_a (snd (twi_read n st)) = tw_rec_a st"
  by (simp_all add: twi_read_def twi_listening_def Let_def case_prod_beta transmit_keeps read_step)

lemma twi_read_length: "fst (twi_read n st) = Some bs \<Longrightarrow> length bs = n"
  by (auto simp: twi_read_def Let_def case_prod_beta transmit_keeps split: if_splits)

section \<open>The unit\<close>

text \<open>
  A unit is its bootloader and, once that has started it, an application that does not write program
  memory; which application runs depends on what memory holds. \<open>wear k x b\<close> is what the cell at \<open>x\<close>
  holds after the transaction numbered \<open>k\<close> programmed the byte \<open>b\<close> there. While the master sleeps the
  boot timer ticks, at most once every 16 ms and once more.
\<close>

record 'a flash_unit =
  fu_boot :: twiboot
  fu_app :: 'a
  fu_count :: nat

type_synonym cell_wear = "nat \<Rightarrow> nat \<Rightarrow> u8 \<Rightarrow> u8"

definition worn :: "cell_wear \<Rightarrow> nat \<Rightarrow> twiboot \<Rightarrow> twiboot" where
  "worn wear k st =
     (if tw_cmd st = CMD_WRITE_FLASH_PAGE
      then st\<lparr>tw_flash := (\<lambda>x. if x div 128 = unat (tw_addr st - 128) div 128 then wear k x (tw_flash st x)
                            else tw_flash st x)\<rparr>
      else st)"

definition boot_ticks :: "nat \<Rightarrow> twiboot \<Rightarrow> twiboot" where
  "boot_ticks n st = ((\<lambda>v. twiboot_step v Timer_Tick) ^^ n) st"

definition flash_slave :: "(flash \<Rightarrow> 'a slave) \<Rightarrow> cell_wear \<Rightarrow> 'a flash_unit slave" where
  "flash_slave app wear =
     \<lparr>sl_write = (\<lambda>bs u. if tw_cmd (fu_boot u) = CMD_BOOT_APPLICATION
        then (case sl_write (app (tw_flash (fu_boot u))) bs (fu_app u) of (ack, v) \<Rightarrow> (ack, u\<lparr>fu_app := v\<rparr>))
        else (case twi_write bs (fu_boot u) of (ack, st) \<Rightarrow>
               (ack, u\<lparr>fu_boot := worn wear (fu_count u) st, fu_count := fu_count u + 1\<rparr>))),
      sl_read = (\<lambda>n u. if tw_cmd (fu_boot u) = CMD_BOOT_APPLICATION
        then (case sl_read (app (tw_flash (fu_boot u))) n (fu_app u) of (bs, v) \<Rightarrow> (bs, u\<lparr>fu_app := v\<rparr>))
        else (case twi_read n (fu_boot u) of (r, st) \<Rightarrow>
               (case r of None \<Rightarrow> [] | Some bs \<Rightarrow> bs, u\<lparr>fu_boot := st\<rparr>))),
      sl_sleep = (\<lambda>ms u. if tw_cmd (fu_boot u) = CMD_BOOT_APPLICATION
        then u\<lparr>fu_app := sl_sleep (app (tw_flash (fu_boot u))) ms (fu_app u)\<rparr>
        else u\<lparr>fu_boot := boot_ticks (ms div 16 + 1) (fu_boot u)\<rparr>)\<rparr>"

text \<open>Held for another \<open>n\<close> ticks.\<close>

definition stays :: "nat \<Rightarrow> twiboot \<Rightarrow> bool" where
  "stays n st \<longleftrightarrow> twi_listening st \<and> buffer_ok st \<and> tw_prescale st < 8 \<and> tw_timeout st \<le> PIN_TICKS \<and> tw_timeout st \<noteq> 0 \<and>
     (tw_app_installed st \<longrightarrow> n + unat (tw_prescale st) < 8 * unat (tw_timeout st))"

definition unit_flash :: "'a flash_unit wire \<Rightarrow> flash" where
  "unit_flash w = tw_flash (fu_boot (wi_unit w))"

definition unit_held :: "u8 \<Rightarrow> (nat \<Rightarrow> fate) \<Rightarrow> nat \<Rightarrow> 'a flash_unit wire \<Rightarrow> bool" where
  "unit_held a fates n w \<longleftrightarrow> wi_addr w = a \<and> 132 \<le> wi_cap w \<and> wi_fates w = fates \<and> stays n (fu_boot (wi_unit w))"

definition unit_started :: "u8 \<Rightarrow> (nat \<Rightarrow> fate) \<Rightarrow> 'a flash_unit wire \<Rightarrow> bool" where
  "unit_started a fates w \<longleftrightarrow> wi_addr w = a \<and> 132 \<le> wi_cap w \<and> wi_fates w = fates \<and>
     tw_cmd (fu_boot (wi_unit w)) = CMD_BOOT_APPLICATION"

lemma stays_less: "stays n st \<Longrightarrow> m \<le> n \<Longrightarrow> stays m st"
  by (auto simp: stays_def)

lemma stays_tick:
  assumes "stays (Suc n) st"
  shows "stays n (twiboot_step st Timer_Tick)" "tw_flash (twiboot_step st Timer_Tick) = tw_flash st"
proof -
  define t p where "t = unat (tw_timeout st)" and "p = unat (tw_prescale st)"
  have p: "p < 8" "unat (tw_prescale st + 1) = Suc p"
    using assms by (auto simp: stays_def p_def word_less_nat_alt unat_word_ariths(1))
  have pre: "tw_prescale st + 1 < 8 \<longleftrightarrow> p < 7" by (simp only: word_less_nat_alt p(2)) simp
  have zero: "tw_timeout st = 0 \<longleftrightarrow> t = 0" by (simp add: t_def unat_eq_0)
  have one: "tw_timeout st = 1 \<longleftrightarrow> t = 1" by (simp add: t_def word_unat_eq_iff)
  have more: "1 < tw_timeout st \<longleftrightarrow> 1 < t" by (simp add: t_def word_less_nat_alt)
  have dec: "unat (tw_timeout st - 1) = t - 1" if "1 < t"
    using that by (simp add: unat_sub word_le_nat_alt t_def)
  have bound: "Suc n + p < 8 * t" if "tw_app_installed st"
    using assms that by (simp add: stays_def t_def p_def)
  have listening: "twi_listening st" "buffer_ok st" using assms by (simp_all add: stays_def)
  have pin: "t \<le> 234" using assms by (simp add: stays_def t_def word_le_nat_alt)
  from listening have run: "twiboot_step st Timer_Tick = TIMER0_OVF_vect st" by (simp add: twiboot_step_def twi_listening_def)
  show "tw_flash (twiboot_step st Timer_Tick) = tw_flash st"
    by (simp add: twiboot_step_def TIMER0_OVF_vect_def Let_def)
  consider "\<not> tw_app_installed st" | "tw_app_installed st" "p < 7"
    | "tw_app_installed st" "p = 7" "1 < t"
    using p(1) bound by linarith
  then show "stays n (twiboot_step st Timer_Tick)"
  proof cases
    case 1
    then show ?thesis using assms by (simp add: run TIMER0_OVF_vect_def stays_def)
  next
    case 2
    then have "tw_prescale st + 1 < 8" using pre by simp
    then show ?thesis
      using 2 listening bound p(2) zero assms by (auto simp: run TIMER0_OVF_vect_def stays_def twi_listening_def buffer_ok_def t_def)
  next
    case 3
    then have "\<not> tw_prescale st + 1 < 8" "1 < tw_timeout st" using pre more by simp_all
    moreover have "n < 8 * (t - 1)" using bound 3 by arith
    moreover have "tw_timeout st - 1 \<noteq> 0" using dec [OF 3(3)] 3(3) by (simp add: unat_eq_0 [symmetric])
    moreover have "tw_timeout st - 1 \<le> 234" using dec [OF 3(3)] pin by (simp add: word_le_nat_alt)
    ultimately show ?thesis
      using 3 listening dec by (simp add: run TIMER0_OVF_vect_def stays_def twi_listening_def buffer_ok_def Let_def)
  qed
qed

lemma stays_ticks: "stays (n + k) st \<Longrightarrow> stays n (boot_ticks k st) \<and> tw_flash (boot_ticks k st) = tw_flash st"
proof (induction k arbitrary: n)
  case (Suc k)
  then have "stays (Suc n) (boot_ticks k st)" "tw_flash (boot_ticks k st) = tw_flash st"
    using Suc.IH [of "Suc n"] by simp_all
  then show ?case using stays_tick [of n "boot_ticks k st"] by (simp add: boot_ticks_def)
qed (simp add: boot_ticks_def)

text \<open>A contact buys 1800 ticks, close to half a minute.\<close>

lemma contacted_stays:
  assumes "stays n st" "contacted st st'"
  shows "stays 1800 st'" "stays n st'"
proof -
  have "unat (tw_prescale st) < 8" using assms(1) by (simp add: stays_def word_less_nat_alt)
  then show "stays 1800 st'" using assms by (auto simp: stays_def contacted_def)
  have "unat (tw_timeout st) \<le> 234" using assms(1) by (simp add: stays_def word_le_nat_alt)
  then show "stays n st'" using assms by (auto simp: stays_def contacted_def)
qed

lemma stays_keeps:
  assumes "stays n st" "twi_listening st'" "buffer_ok st'" "tw_timeout st' = tw_timeout st"
    "tw_prescale st' = tw_prescale st" "tw_app_installed st' = tw_app_installed st"
  shows "stays n st'"
  using assms by (auto simp: stays_def)

section \<open>Frames and reads on the wire\<close>

definition at_unit :: "u8 \<Rightarrow> (nat \<Rightarrow> fate) \<Rightarrow> ('u \<Rightarrow> bool) \<Rightarrow> 'u wire \<Rightarrow> bool" where
  "at_unit a fates P w \<longleftrightarrow> wi_addr w = a \<and> 132 \<le> wi_cap w \<and> wi_fates w = fates \<and> P (wi_unit w)"

lemma at_unit_ignores [simp]:
  "at_unit a fates P (w\<lparr>wi_rx := rx\<rparr>) = at_unit a fates P w"
  "at_unit a fates P (w\<lparr>wi_target := t\<rparr>) = at_unit a fates P w"
  "at_unit a fates P (w\<lparr>wi_tx := tx\<rparr>) = at_unit a fates P w"
  "at_unit a fates P (w\<lparr>wi_count := c\<rparr>) = at_unit a fates P w"
  "at_unit a fates P (w\<lparr>wi_ms := ms\<rparr>) = at_unit a fates P w"
  by (simp_all add: at_unit_def)

lemma queue_count_run:
  "length (wi_tx w) + length bs \<le> wi_cap w \<Longrightarrow>
     run_state (queue_count (sim_bus sl) bs) w = (length bs, w\<lparr>wi_tx := wi_tx w @ bs\<rparr>)"
  by (induction bs arbitrary: w) (simp_all add: wire_run)

lemma send_frame_run:
  "length frame \<le> wi_cap w \<Longrightarrow>
     run_state (send_frame (sim_bus sl) a frame stop) w = wire_write sl (w\<lparr>wi_target := a, wi_tx := frame\<rparr>)"
  by (simp add: send_frame_def wire_run queue_count_run)

text \<open>A framed write. The unit has had the whole frame, with success; or the master saw a failure and the
  unit has had nothing, or a first part of the frame, which may be all of it.\<close>

lemma send_frame_triple:
  assumes "length frame \<le> 132"
    and "\<And>u. P u \<Longrightarrow> Q (snd (sl_write sl frame u))"
    and "\<And>u. P u \<Longrightarrow> R u" "\<And>u n. P u \<Longrightarrow> R (snd (sl_write sl (take (Suc n) frame) u))"
  shows "triple (at_unit a fates P) (send_frame (sim_bus sl) a frame stop)
     (\<lambda>r w. at_unit a fates (if r = 0 then Q else R) w)"
proof (rule tripleI)
  fix w r w'
  assume h: "at_unit a fates P w" and "run_state (send_frame (sim_bus sl) a frame stop) w = (r, w')"
  then have run: "wire_write sl (w\<lparr>wi_target := a, wi_tx := frame\<rparr>) = (r, w')"
    using assms(1) by (simp add: send_frame_run at_unit_def)
  have u: "P (wi_unit w)" using h by (simp add: at_unit_def)
  have whole: "R (snd (sl_write sl frame (wi_unit w)))"
    using assms(4) [OF u, of "length frame"] by simp
  show "at_unit a fates (if r = 0 then Q else R) w'"
  proof (cases "wi_fates w (wi_count w)")
    case Delivered
    then show ?thesis using h run u whole assms(2)
      by (auto simp: wire_write_def Let_def at_unit_def case_prod_beta split: if_splits)
  next
    case Lost
    then show ?thesis using h run u assms(3) by (auto simp: wire_write_def Let_def at_unit_def)
  next
    case (Broken n)
    then show ?thesis using h run u assms(4) by (auto simp: wire_write_def Let_def at_unit_def)
  qed
qed

lemma send_frame_sure:
  assumes "length frame \<le> 132" "\<And>u. P u \<Longrightarrow> fst (sl_write sl frame u)"
  shows "triple (at_unit a (\<lambda>_. Delivered) P) (send_frame (sim_bus sl) a frame stop) (\<lambda>r _. r = 0)"
  using assms by (auto intro!: tripleI simp: send_frame_run at_unit_def wire_write_def Let_def case_prod_beta)

text \<open>A read: the bytes of \<open>m\<close> that were asked for, with the count the adapter reports.\<close>

lemma request_triple:
  assumes "\<And>u. P u \<Longrightarrow> Q u" "B 0 []"
    and "\<And>u m. P u \<Longrightarrow> m \<le> unat n \<Longrightarrow> Q (snd (sl_read sl m u)) \<and> B m (fst (sl_read sl m u))"
  shows "triple (at_unit a fates P) (b_request (sim_bus sl) a n)
     (\<lambda>got w. at_unit a fates Q w \<and> got = of_nat (length (wi_rx w)) \<and> (\<exists>m \<le> unat n. B m (wi_rx w)))"
proof (rule tripleI)
  fix w got w'
  assume h: "at_unit a fates P w" and "run_state (b_request (sim_bus sl) a n) w = (got, w')"
  then have run: "wire_read sl a (unat n) w = (got, w')" by (simp add: wire_run)
  have u: "P (wi_unit w)" using h by (simp add: at_unit_def)
  show "at_unit a fates Q w' \<and> got = of_nat (length (wi_rx w')) \<and> (\<exists>m \<le> unat n. B m (wi_rx w'))"
  proof (cases "wi_fates w (wi_count w)")
    case Delivered
    then show ?thesis using h run assms(3) [OF u, of "unat n"]
      by (auto simp: wire_read_def Let_def at_unit_def case_prod_beta)
  next
    case Lost
    then show ?thesis using h run assms(1) [OF u] assms(2) by (auto simp: wire_read_def Let_def at_unit_def)
  next
    case (Broken k)
    then show ?thesis using h run assms(3) [OF u, of "min k (unat n)"]
      by (auto intro!: exI [of _ "min k (unat n)"] simp: wire_read_def Let_def at_unit_def case_prod_beta)
  qed
qed

lemma drain_triple: "triple (at_unit a fates P) (drain n (sim_bus sl)) (\<lambda>_. at_unit a fates P)"
proof (induction n)
  case (Suc n)
  have "triple (at_unit a fates P) (b_read (sim_bus sl)) (\<lambda>_. at_unit a fates P)"
    by (auto simp: triple_def wire_run split: list.split)
  moreover have "triple (at_unit a fates P) (b_available (sim_bus sl)) (\<lambda>_. at_unit a fates P)"
    by (simp add: triple_def wire_run)
  ultimately show ?case
    by (simp, intro triple_bind [where R = "\<lambda>_. at_unit a fates P"] triple_if Suc.IH)
       (simp_all add: triple_return_iff)
qed (simp add: triple_return_iff)

lemma short_read_triple: "triple (at_unit a fates P) (short_read (sim_bus sl)) (\<lambda>_. at_unit a fates P)"
  unfolding short_read_def twibootDrain_def drain_all_def
  by (rule triple_bind [OF drain_triple]) (simp add: wire_run triple_return_iff)

lemma read_byte_triple: "triple (at_unit a fates P) (read_byte (sim_bus sl)) (\<lambda>_. at_unit a fates P)"
  by (auto simp: read_byte_def triple_def run_bind wire_run split: list.split)

lemma take_bytes_triple:
  "triple (\<lambda>w. at_unit a fates P w \<and> wi_rx w = bs) (repeat_state (length bs) (read_byte (sim_bus sl)))
     (\<lambda>r w. at_unit a fates P w \<and> r = bs)"
  using take_bytes [of _ bs "[]" sl] by (auto simp: triple_def)

section \<open>What the unit does with the client's commands\<close>

definition holds :: "nat \<Rightarrow> flash \<Rightarrow> 'a flash_unit \<Rightarrow> bool" where
  "holds n f u \<longleftrightarrow> stays n (fu_boot u) \<and> tw_flash (fu_boot u) = f"

definition runs_app :: "flash \<Rightarrow> 'a flash_unit \<Rightarrow> bool" where
  "runs_app f u \<longleftrightarrow> tw_cmd (fu_boot u) = CMD_BOOT_APPLICATION \<and> tw_flash (fu_boot u) = f"

lemma holds_booted: "holds n f u \<Longrightarrow> tw_cmd (fu_boot u) \<noteq> CMD_BOOT_APPLICATION"
  by (simp add: holds_def stays_def twi_listening_def)

lemma slave_write:
  "tw_cmd (fu_boot u) \<noteq> CMD_BOOT_APPLICATION \<Longrightarrow> sl_write (flash_slave app wear) bs u =
     (fst (twi_write bs (fu_boot u)),
      u\<lparr>fu_boot := worn wear (fu_count u) (snd (twi_write bs (fu_boot u))), fu_count := fu_count u + 1\<rparr>)"
  by (simp add: flash_slave_def case_prod_beta)

lemma slave_read:
  "tw_cmd (fu_boot u) \<noteq> CMD_BOOT_APPLICATION \<Longrightarrow> sl_read (flash_slave app wear) n u =
     (case fst (twi_read n (fu_boot u)) of None \<Rightarrow> [] | Some bs \<Rightarrow> bs, u\<lparr>fu_boot := snd (twi_read n (fu_boot u))\<rparr>)"
  by (simp add: flash_slave_def case_prod_beta)

lemma slave_app:
  "runs_app f u \<Longrightarrow> runs_app f (snd (sl_write (flash_slave app wear) bs u))"
  "runs_app f u \<Longrightarrow> runs_app f (snd (sl_read (flash_slave app wear) n u))"
  "runs_app f u \<Longrightarrow> runs_app f (sl_sleep (flash_slave app wear) ms u)"
  by (simp_all add: flash_slave_def runs_app_def case_prod_beta)

lemma slave_short_frame:
  assumes "holds n f u" "short_frame frame"
  shows "fst (sl_write (flash_slave app wear) frame u)"
    "holds n f (snd (sl_write (flash_slave app wear) frame u))"
    "holds 1800 f (snd (sl_write (flash_slave app wear) frame u))"
proof -
  have st: "stays n (fu_boot u)" "twi_listening (fu_boot u)" "buffer_ok (fu_boot u)"
    using assms(1) by (simp_all add: holds_def stays_def)
  note keeps = short_frame_keeps [OF st(2,3) assms(2)] short_frame_cmd [OF st(2) assms(2)]
  show "fst (sl_write (flash_slave app wear) frame u)"
    "holds n f (snd (sl_write (flash_slave app wear) frame u))"
    "holds 1800 f (snd (sl_write (flash_slave app wear) frame u))"
    using keeps contacted_stays [OF st(1) keeps(2)] assms(1)
    by (simp_all add: slave_write [OF holds_booted [OF assms(1)]] holds_def worn_def)
qed

lemma slave_read_keeps:
  assumes "holds n f u"
  shows "holds n f (snd (sl_read (flash_slave app wear) m u))"
    "length (fst (sl_read (flash_slave app wear) m u)) = m"
proof -
  have st: "stays n (fu_boot u)" "twi_listening (fu_boot u)" using assms by (simp_all add: holds_def stays_def)
  show "holds n f (snd (sl_read (flash_slave app wear) m u))"
    using st assms stays_keeps [OF st(1), of "snd (twi_read m (fu_boot u))"]
    by (simp add: slave_read [OF holds_booted [OF assms]] holds_def twi_read_keeps stays_def)
  show "length (fst (sl_read (flash_slave app wear) m u)) = m"
    using st(2) by (auto simp: slave_read [OF holds_booted [OF assms]] twi_read_def Let_def case_prod_beta transmit_keeps)
qed

text \<open>A burst: part of it programs nothing, all of it the page it names and no other.\<close>

definition touched :: "nat \<Rightarrow> flash \<Rightarrow> nat \<Rightarrow> 'a flash_unit \<Rightarrow> bool" where
  "touched n f p u \<longleftrightarrow> (\<exists>g. page_touched f p g \<and> holds n g u)"

lemma page_touchedI: "length page = 128 \<Longrightarrow> page_touched f p (put_page f p page)"
  unfolding page_touched_def by blast

lemma touched_self: "holds n f u \<Longrightarrow> touched n f p u"
  unfolding touched_def using page_touched_refl by blast

lemma worn_page:
  assumes "tw_cmd st = CMD_WRITE_FLASH_PAGE" "tw_addr st = a + 128" "tw_flash st = put_page f (unat a div 128) page"
    "length page = 128"
  shows "tw_flash (worn wear k st) =
    put_page f (unat a div 128) (map (\<lambda>i. wear k (128 * (unat a div 128) + i) (page ! i)) [0..<128])"
proof (rule ext)
  fix x
  show "tw_flash (worn wear k st) x =
    put_page f (unat a div 128) (map (\<lambda>i. wear k (128 * (unat a div 128) + i) (page ! i)) [0..<128]) x"
    using assms by (simp add: worn_def put_page_def) (metis mult_div_mod_eq)
qed

lemma worn_keeps:
  "twi_listening (worn wear k st) = twi_listening st" "buffer_ok (worn wear k st) = buffer_ok st"
  "tw_timeout (worn wear k st) = tw_timeout st" "tw_prescale (worn wear k st) = tw_prescale st"
  "tw_app_installed (worn wear k st) = tw_app_installed st"
  by (simp_all add: worn_def twi_listening_def buffer_ok_def)

lemma stays_worn [simp]: "stays n (worn wear k st) = stays n st"
  by (simp add: stays_def worn_keeps)

lemma partial_burst_cmd:
  assumes "twi_listening st" "buffer_ok st" "length page = 128" "m < 128"
  shows "tw_cmd (snd (twi_write (page_header a @ take m page) st)) = CMD_ACCESS_FLASH"
proof -
  have z: "header_state a st = burst_state a page 0 st"
    using assms by (cases st) (simp add: header_state_def burst_state_def twi_listening_def)
  have "twi_receive (drop 0 (take m page)) (burst_state a page 0 st) = (True, twi_idle (burst_state a page m st))"
    by (rule receive_partial) (use assms in simp_all)
  then show ?thesis
    using receive_header [OF assms(1), of a "take m page"] assms(4)
    by (simp add: page_header_def z) (simp add: twi_idle_def burst_state_def)
qed

lemma header_short: "short_frame (page_header a)"
  using short_frame.memory_addr [of 1] by (simp add: page_header_def)

lemma slave_burst:
  assumes "holds n f u" "length page = 128" "unat a mod 128 = 0" "unat a < 0x7C00"
  shows "touched n f (unat a div 128) (snd (sl_write (flash_slave app wear) (take (Suc k) (page_header a @ page)) u))"
proof -
  have st: "stays n (fu_boot u)" "twi_listening (fu_boot u)" "buffer_ok (fu_boot u)" "tw_flash (fu_boot u) = f"
    using assms(1) by (simp_all add: holds_def stays_def)
  note wr = slave_write [OF holds_booted [OF assms(1)]]
  have len: "length (page_header a) = 4" by (simp add: page_header_def)
  consider "Suc k \<le> 4" | m where "4 < Suc k" "take (Suc k) (page_header a @ page) = page_header a @ take m page" "m < 128"
    | "take (Suc k) (page_header a @ page) = page_header a @ page"
  proof (cases "Suc k \<le> 4")
    case False
    have t: "take (Suc k) (page_header a @ page) = page_header a @ take (Suc k - 4) page"
      using False len by simp
    show ?thesis
    proof (cases "Suc k - 4 < 128")
      case True
      with False t show ?thesis by (intro that(2)) simp_all
    next
      case whole: False
      with t assms(2) show ?thesis by (intro that(3)) simp
    qed
  qed
  then show ?thesis
  proof cases
    case 1
    then have "short_frame (take (Suc k) (page_header a @ page))"
      using short_frame_take [OF header_short, of k a] len by simp
    then show ?thesis using slave_short_frame(2) [OF assms(1)] touched_self by blast
  next
    case 2
    note part = partial_burst [OF st(2,3) assms(2) 2(3), of a]
    have "holds n f (snd (sl_write (flash_slave app wear) (page_header a @ take m page) u))"
      using part contacted_stays [OF st(1) part(1)] partial_burst_cmd [OF st(2,3) assms(2) 2(3), of a]
      by (simp add: wr holds_def st(4)) (simp add: worn_def part(2) st(4))
    then show ?thesis using 2(2) touched_self by metis
  next
    case 3
    note whole = whole_burst [OF st(2,3) assms(2-4)]
    have "holds n (put_page f (unat a div 128)
        (map (\<lambda>i. wear (fu_count u) (128 * (unat a div 128) + i) (page ! i)) [0..<128]))
      (snd (sl_write (flash_slave app wear) (page_header a @ page) u))"
      using whole contacted_stays [OF st(1) whole(2)]
      by (simp add: wr holds_def worn_page [OF whole(4,5,3) assms(2)] st(4))
    moreover have "page_touched f (unat a div 128) (put_page f (unat a div 128)
        (map (\<lambda>i. wear (fu_count u) (128 * (unat a div 128) + i) (page ! i)) [0..<128]))"
      by (rule page_touchedI) simp
    ultimately show ?thesis unfolding 3 touched_def by blast
  qed
qed

lemma slave_burst_sure:
  assumes "holds n f u" "length page = 128" "unat a mod 128 = 0" "unat a < 0x7C00"
  shows "fst (sl_write (flash_slave app wear) (page_header a @ page) u)"
    "wear = (\<lambda>_ _ b. b) \<Longrightarrow>
       holds n (put_page f (unat a div 128) page) (snd (sl_write (flash_slave app wear) (page_header a @ page) u))"
proof -
  have st: "stays n (fu_boot u)" "twi_listening (fu_boot u)" "buffer_ok (fu_boot u)" "tw_flash (fu_boot u) = f"
    using assms(1) by (simp_all add: holds_def stays_def)
  note wr = slave_write [OF holds_booted [OF assms(1)]]
  note whole = whole_burst [OF st(2,3) assms(2-4)]
  show "fst (sl_write (flash_slave app wear) (page_header a @ page) u)" by (simp add: wr whole)
  have page: "map ((!) page) [0..<128] = page" using assms(2) map_nth [of page] by simp
  show "holds n (put_page f (unat a div 128) page) (snd (sl_write (flash_slave app wear) (page_header a @ page) u))"
    if "wear = (\<lambda>_ _ b. b)"
    using whole contacted_stays [OF st(1) whole(2)] that
    by (simp add: wr holds_def worn_page [OF whole(4,5,3) assms(2)] st(4) page)
qed

text \<open>The exit, and a page to be read.\<close>

lemma slave_exit:
  assumes "holds n f u"
  shows "fst (sl_write (flash_slave app wear) [1, 0x80] u)"
    "runs_app f (snd (sl_write (flash_slave app wear) [1, 0x80] u))"
  using exit_frame [of "fu_boot u"] assms
  by (simp_all add: slave_write [OF holds_booted [OF assms]] holds_def stays_def runs_app_def worn_def)

definition aimed :: "u16 \<Rightarrow> nat \<Rightarrow> flash \<Rightarrow> 'a flash_unit \<Rightarrow> bool" where
  "aimed a n f u \<longleftrightarrow> holds n f u \<and> tw_cmd (fu_boot u) = CMD_ACCESS_FLASH \<and> tw_addr (fu_boot u) = a"

lemma slave_header:
  assumes "holds n f u"
  shows "aimed a n f (snd (sl_write (flash_slave app wear) (page_header a) u))"
proof -
  have st: "twi_listening (fu_boot u)" "buffer_ok (fu_boot u)" using assms by (simp_all add: holds_def stays_def)
  have "twi_write (page_header a) (fu_boot u) = (True, (header_state a (fu_boot u))\<lparr>tw_bcnt := 0, tw_ack := True\<rparr>)"
    using read_header [OF st] by (simp add: page_header_def)
  then show ?thesis
    using slave_short_frame(2) [OF assms header_short, of app wear a]
    by (simp add: aimed_def slave_write [OF holds_booted [OF assms]] worn_def header_state_def)
qed

lemma slave_page_read:
  assumes "aimed a n f u" "unat a mod 128 = 0"
  shows "fst (sl_read (flash_slave app wear) 128 u) = page_at f (unat a div 128)"
proof -
  have h: "holds n f u" "tw_cmd (fu_boot u) = CMD_ACCESS_FLASH" "tw_addr (fu_boot u) = a"
    using assms by (simp_all add: aimed_def)
  have st: "twi_listening (fu_boot u)" "tw_flash (fu_boot u) = f" using h by (simp_all add: holds_def stays_def)
  have addr: "unat (a + of_nat i) = 128 * (unat a div 128) + i" if "i < 128" for i
  proof -
    define q where "q = unat a div 128"
    have a: "unat a = 128 * q" using assms(2) unfolding q_def by (metis add.right_neutral mult_div_mod_eq)
    moreover have "unat a < 2 ^ 16" using unsigned_less [of a, where 'a = nat] by simp
    ultimately have "q \<le> 511" by simp
    with a have "unat a + i < 65536" using that by simp
    then have "unat (a + of_nat i) = unat a + i"
      using that by (simp add: unat_word_ariths(1) unat_of_nat)
    then show ?thesis using a unfolding q_def [symmetric] by simp
  qed
  have "fst (sl_read (flash_slave app wear) 128 u) = map (\<lambda>i. f (unat (a + of_nat i))) [0..<128]"
    using page_read(1) [OF st(1) h(2), of 128] by (simp add: slave_read [OF holds_booted [OF h(1)]] st(2) h(3))
  also have "\<dots> = page_at f (unat a div 128)"
    unfolding page_at_def by (rule map_cong) (simp_all add: addr)
  finally show ?thesis .
qed

section \<open>The laws of the interface\<close>

abbreviation (input) on_wire :: "u8 \<Rightarrow> (nat \<Rightarrow> fate) \<Rightarrow> nat \<Rightarrow> flash \<Rightarrow> 'a flash_unit wire \<Rightarrow> bool" where
  "on_wire a fates n f \<equiv> at_unit a fates (holds n f)"

abbreviation (input) gone :: "u8 \<Rightarrow> (nat \<Rightarrow> fate) \<Rightarrow> flash \<Rightarrow> 'a flash_unit wire \<Rightarrow> bool" where
  "gone a fates f \<equiv> at_unit a fates (runs_app f)"

lemma held_on_wire: "(\<lambda>w. unit_held a fates n w \<and> unit_flash w = f) = on_wire a fates n f"
  by (auto simp: unit_held_def unit_flash_def at_unit_def holds_def fun_eq_iff)

lemma started_on_wire: "(\<lambda>w. unit_started a fates w \<and> unit_flash w = f) = gone a fates f"
  by (auto simp: unit_started_def unit_flash_def at_unit_def runs_app_def fun_eq_iff)


lemma short_frame_law:
  assumes "short_frame frame"
  shows "triple (on_wire a fates n f) (send_frame (sim_bus (flash_slave app wear)) a frame stop)
     (\<lambda>r w. on_wire a fates n f w \<and> (r = 0 \<longrightarrow> on_wire a fates fresh_hold f w))"
proof -
  have len: "length frame \<le> 132" using assms by cases simp_all
  have both: "holds 1800 f u \<and> holds n f u" if "holds n f v" "u = snd (sl_write (flash_slave app wear) frame v)" for u v
    using slave_short_frame [OF that(1) assms] that(2) by blast
  show ?thesis
    by (rule triple_post [OF send_frame_triple [where Q = "\<lambda>u. holds 1800 f u \<and> holds n f u" and R = "holds n f", OF len]])
       (use both slave_short_frame(2) [OF _ short_frame_take [OF assms]] in \<open>auto simp: at_unit_def split: if_splits\<close>)
qed

lemma app_send_law:
  assumes "length frame \<le> 132"
  shows "triple (gone a fates f) (send_frame (sim_bus (flash_slave app wear)) a frame stop)
     (\<lambda>_. gone a fates f)"
  by (rule triple_post [OF send_frame_triple [where Q = "runs_app f" and R = "runs_app f", OF assms]])
     (auto simp: slave_app)

lemma sleep_wire:
  "triple (on_wire a fates (n + sleep_ticks ms) f) (b_sleep (sim_bus (flash_slave app wear)) ms)
     (\<lambda>_. on_wire a fates n f)"
proof (rule tripleI)
  fix w :: "'a flash_unit wire" and r w'
  assume h: "on_wire a fates (n + sleep_ticks ms) f w"
    and run: "run_state (b_sleep (sim_bus (flash_slave app wear)) ms) w = (r, w')"
  have u: "holds (n + sleep_ticks ms) f (wi_unit w)" using h by (simp add: at_unit_def)
  have "stays n (boot_ticks (sleep_ticks ms) (fu_boot (wi_unit w))) \<and>
      tw_flash (boot_ticks (sleep_ticks ms) (fu_boot (wi_unit w))) = f"
    using stays_ticks [of n "sleep_ticks ms" "fu_boot (wi_unit w)"] u by (simp add: holds_def)
  then show "on_wire a fates n f w'"
    using h run holds_booted [OF u] by (auto simp: wire_run at_unit_def holds_def flash_slave_def sleep_ticks_def)
qed

lemma app_sleep_law:
  "triple (gone a fates f) (b_sleep (sim_bus (flash_slave app wear)) ms) (\<lambda>_. gone a fates f)"
  using slave_app(3) by (auto simp: triple_def wire_run at_unit_def)

lemma now_wire: "triple (at_unit a fates P) (b_now (sim_bus sl)) (\<lambda>_. at_unit a fates P)"
  by (simp add: triple_def wire_run)

lemma request_law:
  "triple (on_wire a fates n f) (b_request (sim_bus (flash_slave app wear)) a k) (\<lambda>_. on_wire a fates n f)"
  by (rule triple_post [OF request_triple [where B = "\<lambda>m bs. length bs = m" and Q = "holds n f"]])
     (auto simp: slave_read_keeps)

lemma chip_wire:
  "triple (on_wire a fates n f) (twibootVerifyChip (sim_bus (flash_slave app wear)) a) (\<lambda>_. on_wire a fates n f)"
proof -
  have "short_frame [2, 0, 0, 0]" by (rule short_frame.memory_addr) simp
  note send = triple_post [OF short_frame_law [OF this], where Q' = "\<lambda>_. on_wire a fates n f"]
  note rd = read_byte_triple [of a fates "holds n f" "flash_slave app wear"]
  show ?thesis
    unfolding twibootVerifyChip_def twibootDrain_def drain_all_def
    apply (rule triple_bind [OF send], simp)
    apply (rule triple_if)
     apply (simp add: triple_return_iff)
    apply (rule triple_bind [OF request_law])
    apply (rule triple_if)
     apply (rule triple_bind [OF short_read_triple])
     apply (simp add: triple_return_iff)
    apply (rule triple_bind [OF rd] triple_bind [OF drain_triple])+
    apply (simp add: triple_return_iff)
    done
qed

lemma read_wire:
  assumes "unat fa mod 128 = 0"
  shows "triple (on_wire a fates n f) (twibootReadFlashPage (sim_bus (flash_slave app wear)) a fa)
     (\<lambda>r w. on_wire a fates n f w \<and> (r \<noteq> None \<longrightarrow> r = Some (page_at f (unat fa div 128))))"
proof -
  let ?sl = "flash_slave app wear" and ?page = "page_at f (unat fa div 128)"
  have len: "length (page_header fa) \<le> 132" by (simp add: page_header_def)
  have send: "triple (on_wire a fates n f) (send_frame (sim_bus ?sl) a (page_header fa) stop)
     (\<lambda>r. at_unit a fates (if r = 0 then aimed fa n f else holds n f))" for stop
    using slave_header slave_short_frame(2) [OF _ short_frame_take [OF header_short]]
    by (intro send_frame_triple [OF len]) auto
  have request: "triple (at_unit a fates (aimed fa n f)) (b_request (sim_bus ?sl) a 128)
     (\<lambda>got w. at_unit a fates (holds n f) w \<and> got = of_nat (length (wi_rx w)) \<and>
        (\<exists>m \<le> unat (128 :: u8). length (wi_rx w) = m \<and> (m = 128 \<longrightarrow> wi_rx w = ?page)))"
  proof (rule request_triple [where B = "\<lambda>m bs. length bs = m \<and> (m = 128 \<longrightarrow> bs = ?page)"])
    fix u :: "'a flash_unit" and m
    assume u: "aimed fa n f u"
    then have h: "holds n f u" by (simp add: aimed_def)
    then show "holds n f u" .
    show "holds n f (snd (sl_read ?sl m u)) \<and> length (fst (sl_read ?sl m u)) = m \<and>
        (m = 128 \<longrightarrow> fst (sl_read ?sl m u) = ?page)"
      using slave_read_keeps [OF h] slave_page_read [OF u assms] by simp
  qed simp
  have short: "of_nat m \<noteq> (128 :: u8) \<longleftrightarrow> m \<noteq> 128" if "m \<le> 128" for m :: nat
    using that of_nat_inverse [of m "of_nat m :: u8"] by (auto simp: word_unat_eq_iff unat_of_nat)
  show ?thesis
    unfolding twibootReadFlashPage_def
    apply (rule triple_bind [OF send])
    apply (rule triple_if)
     apply (simp add: triple_return_iff)
    apply (rule triple_bind_pre [OF request])
     apply simp
    apply (rule triple_if)
     apply (rule triple_bind_pre [OF short_read_triple [of a fates "holds n f"]])
      apply simp
     apply (simp add: triple_return_iff)
    apply (rule triple_bind_pre [OF take_bytes_triple [of a fates "holds n f" ?page ?sl, simplified]])
     apply (use short in fastforce)
    apply (simp add: triple_return_iff)
    done
qed

lemma write_page_run:
  assumes "132 \<le> wi_cap w" "length page = 128"
  shows "run_state (twibootWriteFlashPage (sim_bus sl) a fa page) w =
    (case run_state (send_frame (sim_bus sl) a (page_header fa @ page) True) w of
       (r, w') \<Rightarrow> (if r = 0 then Step_Ok else PageWriteFailed, w'))"
proof -
  have len: "length (page_header fa @ page) = 132" using assms by (simp add: page_header_def)
  have "run_state (queue_count (sim_bus sl) (page_header fa @ page)) (w\<lparr>wi_target := a, wi_tx := []\<rparr>) =
      (132, w\<lparr>wi_target := a, wi_tx := page_header fa @ page\<rparr>)"
    using queue_count_run [of "w\<lparr>wi_target := a, wi_tx := []\<rparr>" "page_header fa @ page" sl] assms(1) len by simp
  then show ?thesis
    using assms by (simp add: twibootWriteFlashPage_def send_frame_def wire_run case_prod_beta)
qed

lemma write_wire:
  assumes "unat fa mod 128 = 0" "unat fa < 0x7C00" "length page = 128"
  shows "triple (on_wire a fates n f) (twibootWriteFlashPage (sim_bus (flash_slave app wear)) a fa page)
     (\<lambda>_. at_unit a fates (touched n f (unat fa div 128)))"
proof -
  let ?sl = "flash_slave app wear"
  have len: "length (page_header fa @ page) \<le> 132" using assms(3) by (simp add: page_header_def)
  note burst = slave_burst [OF _ assms(3,1,2)]
  have "triple (on_wire a fates n f) (send_frame (sim_bus ?sl) a (page_header fa @ page) True)
      (\<lambda>_. at_unit a fates (touched n f (unat fa div 128)))"
    by (rule triple_post [OF send_frame_triple [where Q = "touched n f (unat fa div 128)"
          and R = "touched n f (unat fa div 128)", OF len]])
       (use burst burst [where k = 131] len touched_self in \<open>auto split: if_splits\<close>)
  then show ?thesis
    unfolding triple_def using assms(3) by (auto simp: write_page_run at_unit_def case_prod_beta)
qed

lemma touched_on_wire:
  "at_unit a fates (touched n f p) w \<longleftrightarrow> unit_held a fates n w \<and> page_touched f p (unit_flash w)"
  by (auto simp: at_unit_def touched_def unit_held_def unit_flash_def holds_def)

lemma exit_wire:
  "triple (on_wire a fates n f) (twibootExit (sim_bus (flash_slave app wear)) a)
     (\<lambda>r w. gone a fates f w \<or> r \<noteq> 0 \<and> on_wire a fates n f w)"
proof -
  let ?sl = "flash_slave app wear"
  have part: "holds n f (snd (sl_write ?sl (take (Suc k) [1, 0x80]) u)) \<or> runs_app f (snd (sl_write ?sl (take (Suc k) [1, 0x80]) u))"
    if "holds n f u" for k u
  proof (cases k)
    case 0
    have "short_frame [1]" by (rule short_frame.command) simp
    from slave_short_frame(2) [OF that this, of app wear] show ?thesis by (simp add: 0)
  next
    case (Suc j)
    then show ?thesis using slave_exit(2) [OF that, of app wear] by simp
  qed
  have "triple (on_wire a fates n f) (send_frame (sim_bus ?sl) a [1, 0x80] True)
     (\<lambda>r. at_unit a fates (if r = 0 then runs_app f else (\<lambda>u. holds n f u \<or> runs_app f u)))"
    using slave_exit(2) part by (intro send_frame_triple) auto
  then show ?thesis
    unfolding twibootExit_def by (rule triple_post) (auto simp: at_unit_def split: if_splits)
qed

lemma reboot_run:
  "2 \<le> wi_cap w \<Longrightarrow> run_state (unitRebootSketch (sim_bus sl) a) w =
     run_state (send_frame (sim_bus sl) a [SFP_CMD_REBOOT, noArgGuardByte SFP_CMD_REBOOT] True) w"
  by (simp add: unitRebootSketch_def unitSendGuarded_def wire_run send_frame_run)

lemma reboot_wire:
  "triple (gone a fates f) (unitRebootSketch (sim_bus (flash_slave app wear)) a) (\<lambda>_. gone a fates f)"
proof (rule tripleI)
  fix w :: "'a flash_unit wire" and r w'
  assume h: "gone a fates f w" and "run_state (unitRebootSketch (sim_bus (flash_slave app wear)) a) w = (r, w')"
  then have "run_state (send_frame (sim_bus (flash_slave app wear)) a
      [SFP_CMD_REBOOT, noArgGuardByte SFP_CMD_REBOOT] True) w = (r, w')"
    by (simp add: reboot_run at_unit_def)
  with h show "gone a fates f w'" by (rule tripleD [OF app_send_law, rotated]) simp
qed

text \<open>The interface holds of the bootloader on the wire, whatever the transactions suffer, however the
  cells wear, and whatever application the unit carries.\<close>

interpretation unit_flash_bus: flash_bus "sim_bus (flash_slave app wear)" a unit_flash "unit_held a fates" "unit_started a fates"
  for app :: "flash \<Rightarrow> 'a slave" and wear a fates
proof (unfold_locales, unfold held_on_wire started_on_wire)
  fix n m f ms fa frame and page :: bytes and w :: "'a flash_unit wire"
  let ?bus = "sim_bus (flash_slave app wear)"
  show "unit_held a fates n w \<Longrightarrow> m \<le> n \<Longrightarrow> unit_held a fates m w"
    using stays_less by (auto simp: unit_held_def)
  show "triple (on_wire a fates n f) (b_now ?bus) (\<lambda>_. on_wire a fates n f)" by (rule now_wire)
  show "triple (on_wire a fates (n + sleep_ticks ms) f) (b_sleep ?bus ms) (\<lambda>_. on_wire a fates n f)" by (rule sleep_wire)
  have "short_frame [0]" by (rule short_frame.command) simp
  from short_frame_law [OF this, of a fates n f app wear True]
  show "triple (on_wire a fates n f) (twibootPing ?bus a)
      (\<lambda>r w. unit_held a fates n w \<and> unit_flash w = f \<and> (r = 0 \<longrightarrow> unit_held a fates fresh_hold w))"
    unfolding twibootPing_def
    by (rule triple_post) (auto simp: at_unit_def unit_held_def unit_flash_def holds_def)
  show "triple (on_wire a fates n f) (twibootVerifyChip ?bus a) (\<lambda>_. on_wire a fates n f)" by (rule chip_wire)
  show "triple (on_wire a fates n f) (twibootReadFlashPage ?bus a fa)
      (\<lambda>r w. unit_held a fates n w \<and> unit_flash w = f \<and> (r \<noteq> None \<longrightarrow> r = Some (page_at f (unat fa div 128))))"
    if "unat fa mod 128 = 0"
    by (rule triple_post [OF read_wire [OF that]]) (auto simp: at_unit_def unit_held_def unit_flash_def holds_def)
  show "triple (on_wire a fates n f) (twibootWriteFlashPage ?bus a fa page)
      (\<lambda>_ w. unit_held a fates n w \<and> page_touched f (unat fa div 128) (unit_flash w))"
    if "unat fa mod 128 = 0" "unat fa < 0x7C00" "length page = 128"
    using write_wire [OF that] by (simp add: touched_on_wire [abs_def])
  show "triple (on_wire a fates n f) (twibootExit ?bus a)
      (\<lambda>r w. unit_flash w = f \<and> (unit_started a fates w \<or> r \<noteq> 0 \<and> unit_held a fates n w))"
    by (rule triple_post [OF exit_wire])
       (auto simp: at_unit_def unit_held_def unit_flash_def unit_started_def holds_def runs_app_def)
  show "triple (gone a fates f) (b_sleep ?bus ms) (\<lambda>_. gone a fates f)" by (rule app_sleep_law)
  show "triple (gone a fates f) (send_frame ?bus a frame True) (\<lambda>_. gone a fates f)" if "length frame \<le> 2"
    using that by (intro app_send_law) simp
  show "triple (gone a fates f) (unitRebootSketch ?bus a) (\<lambda>_. gone a fates f)" by (rule reboot_wire)
qed

section \<open>On a wire that loses nothing\<close>

abbreviation (input) no_wear :: cell_wear where "no_wear \<equiv> \<lambda>_ _ b. b"
abbreviation (input) all_delivered :: "nat \<Rightarrow> fate" where "all_delivered \<equiv> \<lambda>_. Delivered"

lemma held_unit: "unit_held a fates n = at_unit a fates (\<lambda>u. stays n (fu_boot u))"
  by (simp add: unit_held_def at_unit_def fun_eq_iff)

lemma any_flash:
  "(\<And>f. triple (on_wire a fates n f) m Q) \<Longrightarrow> triple (unit_held a fates n) m Q"
  by (auto simp: triple_def unit_held_def at_unit_def holds_def)

lemma request_sure:
  assumes "\<And>u. P u \<Longrightarrow> length (fst (sl_read sl (unat n) u)) = unat n"
  shows "triple (at_unit a all_delivered P) (b_request (sim_bus sl) a n)
     (\<lambda>got w. at_unit a all_delivered (\<lambda>u. \<exists>v. P v \<and> u = snd (sl_read sl (unat n) v) \<and> wi_rx w = fst (sl_read sl (unat n) v)) w \<and> got = n)"
  by (rule tripleI)
     (auto simp: wire_run wire_read_def at_unit_def Let_def case_prod_beta assms)

text \<open>The replies whose bytes depend on the position alone.\<close>

lemma fixed_step:
  assumes "tw_cmd v = CMD_SWITCH_APPLICATION \<or> tw_cmd v = CMD_ACCESS_CHIPINFO"
  shows "twiboot_step v (Twi_Int 0xA8 0) = v\<lparr>tw_bcnt := 1, tw_dr := fst (TWI_data_read 0 v)\<rparr>"
    "twiboot_step v (Twi_Int 0xB8 0) = v\<lparr>tw_bcnt := tw_bcnt v + 1, tw_dr := fst (TWI_data_read (tw_bcnt v) v)\<rparr>"
  using assms
  by (cases v; auto simp: twiboot_step_def TWI_vect_def twi_send_def TWI_data_read_def Let_def)+

lemma fixed_transmit:
  assumes "tw_cmd v = CMD_SWITCH_APPLICATION \<or> tw_cmd v = CMD_ACCESS_CHIPINFO"
  shows "fst (twi_transmit k v) = map (\<lambda>i. fst (TWI_data_read (tw_bcnt v + of_nat i) v)) [0..<k]"
  using assms
proof (induction k arbitrary: v)
  case (Suc k)
  define v' where "v' = v\<lparr>tw_bcnt := tw_bcnt v + 1, tw_dr := fst (TWI_data_read (tw_bcnt v) v)\<rparr>"
  have same: "fst (TWI_data_read b v') = fst (TWI_data_read b v)" for b
    by (simp add: v'_def TWI_data_read_def Let_def)
  have "fst (twi_transmit k v') = map (\<lambda>i. fst (TWI_data_read (tw_bcnt v' + of_nat i) v')) [0..<k]"
    by (rule Suc.IH) (use Suc.prems in \<open>simp add: v'_def\<close>)
  then have "fst (twi_transmit (Suc k) v) = fst (TWI_data_read (tw_bcnt v) v) #
      map (\<lambda>i. fst (TWI_data_read (tw_bcnt v + of_nat (Suc i)) v)) [0..<k]"
    using fixed_step(2) [OF Suc.prems] by (simp add: same v'_def [symmetric] Let_def case_prod_beta) (simp add: v'_def add.assoc)
  also have "\<dots> = map (\<lambda>i. fst (TWI_data_read (tw_bcnt v + of_nat i) v)) [0..<Suc k]"
    by (simp add: upt_conv_Cons map_Suc_upt [symmetric] del: upt_Suc)
  finally show ?case .
qed simp

lemma fixed_read:
  assumes "tw_cmd v = CMD_SWITCH_APPLICATION \<or> tw_cmd v = CMD_ACCESS_CHIPINFO" "twi_listening v"
  shows "fst (twi_read (Suc k) v) = Some (map (\<lambda>i. fst (TWI_data_read (of_nat i) v)) [0..<Suc k])"
proof -
  define v' where "v' = v\<lparr>tw_bcnt := 1, tw_dr := fst (TWI_data_read 0 v)\<rparr>"
  have same: "fst (TWI_data_read b v') = fst (TWI_data_read b v)" for b
    by (simp add: v'_def TWI_data_read_def Let_def)
  have "fst (twi_transmit k v') = map (\<lambda>i. fst (TWI_data_read (of_nat (Suc i)) v)) [0..<k]"
    using fixed_transmit [of v' k] assms(1) by (simp add: v'_def [symmetric] same) (simp add: v'_def)
  then have "fst (twi_read (Suc k) v) = Some (fst (TWI_data_read 0 v) # map (\<lambda>i. fst (TWI_data_read (of_nat (Suc i)) v)) [0..<k])"
    using assms fixed_step(1) [OF assms(1)] by (simp add: twi_read_def v'_def [symmetric] Let_def case_prod_beta) (simp add: v'_def)
  then show ?thesis by (simp add: upt_conv_Cons map_Suc_upt [symmetric] del: upt_Suc)
qed

lemma version_reply:
  "tw_cmd v = CMD_SWITCH_APPLICATION \<Longrightarrow> twi_listening v \<Longrightarrow> fst (twi_read 16 v) = Some twiboot_info"
  using fixed_read [of v 15] by (simp add: upt_rec TWI_data_read_def twiboot_info_def)

lemma chip_reply:
  "tw_cmd v = CMD_ACCESS_CHIPINFO \<Longrightarrow> twi_listening v \<Longrightarrow> fst (twi_read 8 v) = Some twiboot_chipinfo"
  "tw_cmd v = CMD_ACCESS_CHIPINFO \<Longrightarrow> twi_listening v \<Longrightarrow> fst (twi_read 13 v) =
     Some (twiboot_chipinfo @ [tw_fuses v 0, tw_fuses v 1, tw_fuses v 2, tw_fuses v 3, tw_rec_a v AND 0x0F])"
  using fixed_read [of v 7] fixed_read [of v 12]
  by (simp_all add: upt_rec TWI_data_read_def twiboot_chipinfo_def word_less_nat_alt)

definition chip_info :: "nat \<Rightarrow> flash \<Rightarrow> 'a flash_unit \<Rightarrow> bool" where
  "chip_info n f u \<longleftrightarrow> holds n f u \<and> tw_cmd (fu_boot u) = CMD_ACCESS_CHIPINFO"

lemma slave_chip_header:
  assumes "holds n f u"
  shows "chip_info n f (snd (sl_write (flash_slave app wear) [2, 0, 0, 0] u))"
proof -
  have "short_frame [2, 0, 0, 0]" by (rule short_frame.memory_addr) simp
  from slave_short_frame(2) [OF assms this, of app wear] show ?thesis
    using short_write(4) [of "fu_boot u" 0 0 0] assms
    by (simp add: chip_info_def slave_write [OF holds_booted [OF assms]] worn_def holds_def stays_def)
qed

lemma slave_chip_read:
  assumes "chip_info n f u"
  shows "fst (sl_read (flash_slave app wear) 8 u) = twiboot_chipinfo"
proof -
  have h: "holds n f u" "tw_cmd (fu_boot u) = CMD_ACCESS_CHIPINFO" using assms by (simp_all add: chip_info_def)
  then have "twi_listening (fu_boot u)" by (simp add: holds_def stays_def)
  from chip_reply(1) [OF h(2) this] show ?thesis by (simp add: slave_read [OF holds_booted [OF h(1)]])
qed

lemma sure_chip_wire:
  "triple (unit_held a all_delivered n) (twibootVerifyChip (sim_bus (flash_slave app wear)) a) (\<lambda>r _. r = Step_Ok)"
proof (rule any_flash, rule tripleI)
  fix f r w' and w :: "'a flash_unit wire"
  assume h: "on_wire a all_delivered n f w"
    and run: "run_state (twibootVerifyChip (sim_bus (flash_slave app wear)) a) w = (r, w')"
  define u where "u = snd (sl_write (flash_slave app wear) [2, 0, 0, 0] (wi_unit w))"
  have unit: "holds n f (wi_unit w)" and w: "wi_addr w = a" "132 \<le> wi_cap w" "wi_fates w = all_delivered"
    using h by (simp_all add: at_unit_def)
  have "short_frame [2, 0, 0, 0]" by (rule short_frame.memory_addr) simp
  note ack = slave_short_frame(1) [OF unit this, of app wear]
  have bytes: "fst (sl_read (flash_slave app wear) 8 u) = twiboot_chipinfo"
    unfolding u_def by (rule slave_chip_read [OF slave_chip_header [OF unit]])
  show "r = Step_Ok"
    using run w ack bytes
    by (simp add: twibootVerifyChip_def send_frame_run wire_write_def wire_read_def Let_def case_prod_beta wire_run
        u_def [symmetric] twiboot_chipinfo_def read_byte_def isAtmega328pSignature_def)
qed

lemma sure_read_wire:
  assumes "unat fa mod 128 = 0"
  shows "triple (unit_held a all_delivered n) (twibootReadFlashPage (sim_bus (flash_slave app wear)) a fa)
     (\<lambda>r _. r \<noteq> None)"
proof (rule any_flash, rule tripleI)
  fix f r w' and w :: "'a flash_unit wire"
  assume h: "on_wire a all_delivered n f w"
    and run: "run_state (twibootReadFlashPage (sim_bus (flash_slave app wear)) a fa) w = (r, w')"
  define u where "u = snd (sl_write (flash_slave app wear) (page_header fa) (wi_unit w))"
  have unit: "holds n f (wi_unit w)" and w: "wi_addr w = a" "132 \<le> wi_cap w" "wi_fates w = all_delivered"
    using h by (simp_all add: at_unit_def)
  note ack = slave_short_frame(1) [OF unit header_short, of app wear fa]
  have "holds n f u" using slave_short_frame(2) [OF unit header_short] by (simp add: u_def)
  then have len: "length (fst (sl_read (flash_slave app wear) 128 u)) = 128" by (rule slave_read_keeps(2))
  have "length (page_header fa) = 4" by (simp add: page_header_def)
  then show "r \<noteq> None"
    using run w ack len
    by (auto simp: twibootReadFlashPage_def send_frame_run wire_write_def wire_read_def Let_def case_prod_beta wire_run
        u_def [symmetric])
qed

lemma sure_write_wire:
  assumes "unat fa mod 128 = 0" "unat fa < 0x7C00" "length page = 128"
  shows "triple (on_wire a all_delivered n f) (twibootWriteFlashPage (sim_bus (flash_slave app no_wear)) a fa page)
     (\<lambda>r w. on_wire a all_delivered n (put_page f (unat fa div 128) page) w \<and> r = Step_Ok)"
proof (rule tripleI)
  fix r w' and w :: "'a flash_unit wire"
  assume h: "on_wire a all_delivered n f w"
    and run: "run_state (twibootWriteFlashPage (sim_bus (flash_slave app no_wear)) a fa page) w = (r, w')"
  have unit: "holds n f (wi_unit w)" and w: "wi_addr w = a" "132 \<le> wi_cap w" "wi_fates w = all_delivered"
    using h by (simp_all add: at_unit_def)
  have len: "length (page_header fa @ page) \<le> wi_cap w" using assms(3) w(2) by (simp add: page_header_def)
  note burst = slave_burst_sure [OF unit assms(3,1,2), where app = app and wear = no_wear]
  show "on_wire a all_delivered n (put_page f (unat fa div 128) page) w' \<and> r = Step_Ok"
    using run w burst
    by (auto simp: write_page_run [OF w(2) assms(3)] send_frame_run [OF len] wire_write_def Let_def case_prod_beta at_unit_def)
qed

interpretation sure_unit_bus: sure_flash_bus "sim_bus (flash_slave app no_wear)" a unit_flash
    "unit_held a all_delivered" "unit_started a all_delivered" "\<lambda>w. of_nat (wi_ms w)"
  for app :: "flash \<Rightarrow> 'a slave" and a
proof
  fix n f c fa and page :: bytes
  let ?bus = "sim_bus (flash_slave app no_wear)"
  have send: "triple (unit_held a all_delivered n) (send_frame ?bus a frame True) (\<lambda>r _. r = 0)"
    if "\<And>f u. holds n f u \<Longrightarrow> fst (sl_write (flash_slave app no_wear) frame u)" "length frame \<le> 132" for frame
    by (rule any_flash, rule send_frame_sure [OF that(2)], erule that(1))
  show "triple (\<lambda>w. unit_held a all_delivered n w \<and> unit_flash w = f \<and> of_nat (wi_ms w) = c) (b_now ?bus)
      (\<lambda>t w. (unit_held a all_delivered n w \<and> unit_flash w = f \<and> of_nat (wi_ms w) = c) \<and> t = c)"
    by (simp add: triple_def wire_run)
  show "triple (unit_held a all_delivered n) (twibootPing ?bus a) (\<lambda>r _. r = 0)"
    unfolding twibootPing_def by (rule send) (erule slave_short_frame(1), rule short_frame.command, simp_all)
  show "triple (unit_held a all_delivered n) (twibootVerifyChip ?bus a) (\<lambda>r _. r = Step_Ok)" by (rule sure_chip_wire)
  show "triple (unit_held a all_delivered n) (twibootReadFlashPage ?bus a fa) (\<lambda>r _. r \<noteq> None)"
    if "unat fa mod 128 = 0" by (rule sure_read_wire [OF that])
  show "triple (\<lambda>w. unit_held a all_delivered n w \<and> unit_flash w = f) (twibootWriteFlashPage ?bus a fa page)
      (\<lambda>r w. (unit_held a all_delivered n w \<and> unit_flash w = put_page f (unat fa div 128) page) \<and> r = Step_Ok)"
    if "unat fa mod 128 = 0" "unat fa < 0x7C00" "length page = 128"
    unfolding held_on_wire
    by (rule triple_post [OF sure_write_wire [OF that]]) (auto simp: at_unit_def unit_held_def unit_flash_def holds_def)
  show "triple (unit_held a all_delivered n) (twibootExit ?bus a) (\<lambda>r _. r = 0)"
    unfolding twibootExit_def by (rule send) (auto intro: slave_exit(1))
qed

end
