(* ===== verification/Flash_Unit.thy ===== *)
theory Flash_Unit
  imports Flash_Link
begin

text \<open>
  What the row master's sequences against a bootloader achieve on the simulated wire: the flash of a
  unit, the boot-section read and the rescue probe of \<open>shared/UnitBusTwiboot.h\<close>, and the end of the
  ready-wait. Each follows from the client's laws through the interpretations of \<open>Flash_Link\<close>, or, for
  the rescue probe, by running the two sides against each other.
\<close>

section \<open>Flashing a unit\<close>

text \<open>The tree's hooks, reduced to the decision to go on, which may depend on anything.\<close>

definition quiet_watch :: "('w \<Rightarrow> bool) \<Rightarrow> 'w flash_watch" where
  "quiet_watch go = \<lparr>fw_keepGoing = State (\<lambda>w. (go w, w)), fw_pageRewritten = (\<lambda>_ _. State_Monad.return ())\<rparr>"


text \<open>A unit fresh from a reset into its bootloader, with memory \<open>f\<close>, on a wire at address 5.\<close>

definition fresh_unit :: "flash \<Rightarrow> unit flash_unit" where
  "fresh_unit f = \<lparr>fu_boot = twiboot_start 0 (sample_twiboot 0 f), fu_app = (), fu_count = 0\<rparr>"

definition unit_wire :: "(nat \<Rightarrow> fate) \<Rightarrow> 'u \<Rightarrow> 'u wire" where
  "unit_wire fates u = \<lparr>wi_unit = u, wi_addr = 5, wi_target = 0, wi_tx = [], wi_rx = [], wi_ms = 0,
     wi_fates = fates, wi_count = 0, wi_cap = 132\<rparr>"

definition mute_app :: "flash \<Rightarrow> unit slave" where
  "mute_app f = \<lparr>sl_write = (\<lambda>_ u. (True, u)), sl_read = (\<lambda>n u. (replicate n 0, u)), sl_sleep = (\<lambda>_ u. u)\<rparr>"

lemma fresh_unit_stays: "stays 35 (fu_boot (fresh_unit f))"
  by (simp add: stays_def fresh_unit_def twiboot_start_def crash_count_def sample_twiboot_def twi_listening_def
      buffer_ok_def Let_def)



text \<open>C2: On a wire that delivers everything, to a unit whose memory works, every image that fits is
  flashed completely, and only the new program's own silence can still be reported.\<close>

theorem sound_flash_goes_through:
  assumes "wi_addr w = a" "132 \<le> wi_cap w" "wi_fates w = (\<lambda>_. Delivered)" "stays 0 (fu_boot (wi_unit w))"
    and "len \<le> 0x7C00" "\<forall>p < len div 128. length (pages p) = 128"
    and "run_state (unitFlashImage (sim_bus (flash_slave app (\<lambda>_ _ b. b))) a len pages (quiet_watch (\<lambda>_. True))) w = (r, w')"
  shows "unit_flash w' = image_over (unit_flash w) (len div 128) pages \<and> fr_result r \<in> {Flash_Ok, PostBootSilent}"
proof -
  have "triple (\<lambda>w. unit_held a all_delivered fresh_hold w \<and> unit_flash w = f) (fw_keepGoing (quiet_watch (\<lambda>_. True)))
      (\<lambda>r w. (unit_held a all_delivered fresh_hold w \<and> unit_flash w = f) \<and> r)" for f
    by (simp add: quiet_watch_def triple_def)
  from sure_unit_bus.sure_image [OF assms(6,5) this] _ assms(7) show ?thesis
    by (rule tripleD) (use assms(1-4) in \<open>simp add: unit_held_def\<close>)
qed

lemma sound_flash_goes_through_witness:
  "unit_flash (snd (run_state (unitFlashImage (sim_bus (flash_slave mute_app (\<lambda>_ _ b. b))) 5 256 (\<lambda>p. replicate 128 (of_nat p))
     (quiet_watch (\<lambda>_. True))) (unit_wire (\<lambda>_. Delivered) (fresh_unit (\<lambda>_. 0xFF))))) 200 = 1"
proof -
  let ?w = "unit_wire (\<lambda>_. Delivered) (fresh_unit (\<lambda>_. 0xFF))"
  have w: "wi_addr ?w = 5" "132 \<le> wi_cap ?w" "wi_fates ?w = (\<lambda>_. Delivered)" "stays 0 (fu_boot (wi_unit ?w))"
    using stays_less [OF fresh_unit_stays, of 0] by (simp_all add: unit_wire_def)
  show ?thesis
    using sound_flash_goes_through [OF w, of 256 "\<lambda>p. replicate 128 (of_nat p)" mute_app
        "fst (run_state (unitFlashImage (sim_bus (flash_slave mute_app (\<lambda>_ _ b. b))) 5 256 (\<lambda>p. replicate 128 (of_nat p))
          (quiet_watch (\<lambda>_. True))) ?w)"] by (simp add: image_over_def)
qed



section \<open>The ready-wait ends\<close>

text \<open>The clock of the wire moves with the sleeps, so the wait is over before its fuel is.\<close>

lemma before_diff:
  assumes "k \<le> 65535"
  shows "before now (now + of_nat k) \<longleftrightarrow> 0 < k"
proof -
  have "before now (now + of_nat k) \<longleftrightarrow> sint (- of_nat k :: u32) < 0" by (simp add: before_def)
  also have "sint (- of_nat k :: u32) = - int k"
  proof -
    have "sint (word_of_int (- int k) :: u32) = signed_take_bit 31 (- int k)" by (rule trans [OF signed_of_int]) simp
    also have "\<dots> = - int k" using assms by (intro signed_take_bit_int_eq_self) simp_all
    finally show ?thesis by simp
  qed
  finally show ?thesis by simp
qed

lemma ping_time: "snd (run_state (twibootPing (sim_bus sl) a) w) = w' \<Longrightarrow> wi_ms w' = wi_ms w"
  by (auto simp: twibootPing_def send_frame_def wire_run wire_write_def Let_def case_prod_beta split: fate.split)

lemma wait_ready_fuel:
  assumes "d = of_nat (wi_ms w) + of_nat k" "k \<le> 65535" "k < n" "k < m"
  shows "run_state (wait_ready n (sim_bus sl) a d) w = run_state (wait_ready m (sim_bus sl) a d) w"
  using assms
proof (induction k arbitrary: n m w)
  case 0
  then obtain i j where "n = Suc i" "m = Suc j" by (metis less_imp_Suc_add)
  then show ?case using 0 before_diff [of 0 "of_nat (wi_ms w)"] by (simp add: wire_run)
next
  case (Suc k)
  then obtain i j where ij: "n = Suc i" "m = Suc j" "k < i" "k < j" by (metis Suc_less_eq less_imp_Suc_add Suc_less_eq2)
  define v where "v = snd (run_state (twibootPing (sim_bus sl) a) w)"
  define v' where "v' = snd (run_state (b_sleep (sim_bus sl) 1) v)"
  have ms: "wi_ms v' = wi_ms w + 1" using ping_time [OF v_def [symmetric]] by (simp add: v'_def wire_run)
  have "d = of_nat (wi_ms v') + of_nat k" using Suc.prems(1) by (simp add: ms)
  then have "run_state (wait_ready i (sim_bus sl) a d) v' = run_state (wait_ready j (sim_bus sl) a d) v'"
    using Suc.IH [of v' i j] Suc.prems ij by simp
  moreover have "before (of_nat (wi_ms w)) d" using before_diff [of "Suc k"] Suc.prems by simp
  ultimately show ?case
    by (simp add: ij case_prod_beta wire_run v_def v'_def)
qed

text \<open>C16: The ready-wait of a page write always comes to an end: one round more than the timeout has
  milliseconds is enough for every unit and every fate of its pings, so the loop of the source returns.\<close>

theorem ready_wait_returns:
  "\<forall>n > unat timeoutMs. run_state (do { now \<leftarrow> b_now (sim_bus sl); wait_ready n (sim_bus sl) a (now + ucast timeoutMs) }) w =
     run_state (twibootWaitReady (sim_bus sl) a timeoutMs) w"
proof (intro allI impI)
  fix n assume n: "unat timeoutMs < n"
  have "unat timeoutMs \<le> 65535" using unsigned_less [of timeoutMs, where 'a = nat] by simp
  moreover have "(ucast timeoutMs :: u32) = of_nat (unat timeoutMs)" by simp
  ultimately show "run_state (do { now \<leftarrow> b_now (sim_bus sl); wait_ready n (sim_bus sl) a (now + ucast timeoutMs) }) w =
     run_state (twibootWaitReady (sim_bus sl) a timeoutMs) w"
    using wait_ready_fuel [of "of_nat (wi_ms w) + ucast timeoutMs" w "unat timeoutMs" n "unat timeoutMs + 1" sl a] n
    by (simp add: twibootWaitReady_def wire_run del: wait_ready.simps)
qed

lemma ready_wait_returns_witness:
  "run_state (do { now \<leftarrow> b_now (sim_bus (flash_slave mute_app (\<lambda>_ _ b. b)));
       wait_ready 1000 (sim_bus (flash_slave mute_app (\<lambda>_ _ b. b))) 5 (now + ucast (100 :: u16)) })
     (unit_wire (\<lambda>_. Lost) (fresh_unit (\<lambda>_. 0xFF))) =
   run_state (twibootWaitReady (sim_bus (flash_slave mute_app (\<lambda>_ _ b. b))) 5 100)
     (unit_wire (\<lambda>_. Lost) (fresh_unit (\<lambda>_. 0xFF)))"
  by (rule ready_wait_returns [of 100, rule_format]) simp

section \<open>The rescue probe\<close>

lemma sure_send:
  assumes "length frame \<le> 132" "\<And>u. P u \<Longrightarrow> fst (sl_write sl frame u) \<and> Q (snd (sl_write sl frame u))"
  shows "triple (at_unit a all_delivered P) (send_frame (sim_bus sl) a frame stop)
     (\<lambda>r w. at_unit a all_delivered Q w \<and> r = 0)"
  using assms by (auto intro!: tripleI simp: send_frame_run at_unit_def wire_write_def Let_def case_prod_beta)

lemma sure_request:
  assumes "\<And>u. P u \<Longrightarrow> Q (snd (sl_read sl (unat n) u)) \<and> fst (sl_read sl (unat n) u) = bs" "length bs = unat n"
  shows "triple (at_unit a all_delivered P) (b_request (sim_bus sl) a n)
     (\<lambda>got w. (at_unit a all_delivered Q w \<and> wi_rx w = bs) \<and> got = n)"
  using assms by (auto intro!: tripleI simp: wire_run wire_read_def at_unit_def Let_def case_prod_beta)

lemma sure_byte:
  "triple (\<lambda>w. at_unit a fates P w \<and> wi_rx w = b # bs) (read_byte (sim_bus sl))
     (\<lambda>x w. (at_unit a fates P w \<and> wi_rx w = bs) \<and> x = b)"
  by (auto simp: read_byte_def triple_def run_bind wire_run)

text \<open>A parked unit: what the probe must leave as it found it.\<close>

definition parked :: "flash \<Rightarrow> (u8 \<Rightarrow> u8) \<Rightarrow> u8 \<Rightarrow> 'a flash_unit \<Rightarrow> bool" where
  "parked f fz ra u \<longleftrightarrow> holds 0 f u \<and> tw_fuses (fu_boot u) = fz \<and> tw_rec_a (fu_boot u) = ra"

lemma parked_booted: "parked f fz ra u \<Longrightarrow> tw_cmd (fu_boot u) \<noteq> CMD_BOOT_APPLICATION"
  unfolding parked_def using holds_booted by blast

lemma sample_cmd: "tw_cmd (fu_boot (fresh_unit f)) = 0"
  by (simp add: fresh_unit_def twiboot_start_def Let_def)

lemma parked_frame:
  assumes "parked f fz ra u" "short_frame frame"
  shows "fst (sl_write (flash_slave app wear) frame u)" "parked f fz ra (snd (sl_write (flash_slave app wear) frame u))"
proof -
  have h: "holds 0 f u" and l: "twi_listening (fu_boot u)" using assms(1) by (simp_all add: parked_def holds_def stays_def)
  show "fst (sl_write (flash_slave app wear) frame u)" by (rule slave_short_frame(1) [OF h assms(2)])
  have "tw_fuses (snd (twi_write frame (fu_boot u))) = tw_fuses (fu_boot u)"
    "tw_rec_a (snd (twi_write frame (fu_boot u))) = tw_rec_a (fu_boot u)"
    using assms(2) l by (auto elim!: short_frame.cases simp: short_write)
  then show "parked f fz ra (snd (sl_write (flash_slave app wear) frame u))"
    using slave_short_frame(2) [OF h assms(2), of app wear] assms(1)
    by (simp add: parked_def slave_write [OF parked_booted [OF assms(1)]] worn_def)
qed

lemma parked_command:
  assumes "parked f fz ra u"
  shows "tw_cmd (fu_boot (snd (sl_write (flash_slave app wear) [1] u))) = CMD_SWITCH_APPLICATION"
    "tw_cmd (fu_boot (snd (sl_write (flash_slave app wear) [2, 0, 0, 0] u))) = CMD_ACCESS_CHIPINFO"
  using assms short_write(1) [of "fu_boot u" 1] short_write(4) [of "fu_boot u" 0 0 0]
  by (simp_all add: slave_write [OF parked_booted [OF assms]] parked_def holds_def stays_def worn_def)

lemma read_fuses_kept: "tw_fuses (snd (twi_read n st)) = tw_fuses st"
proof -
  have step: "tw_fuses (twiboot_step st (Twi_Int s x)) = tw_fuses st" if "s = 0xA8 \<or> s = 0xB8 \<or> s = 0xC0" for st s x
    using read_step_state [OF that, of st x] by auto
  have "tw_fuses (snd (twi_transmit k st)) = tw_fuses st" for k st
    by (induction k arbitrary: st) (simp_all add: step Let_def case_prod_beta)
  then show ?thesis by (simp add: twi_read_def step Let_def case_prod_beta)
qed

lemma parked_read:
  assumes "parked f fz ra u"
  shows "parked f fz ra (snd (sl_read (flash_slave app wear) n u))"
  using slave_read_keeps(1) [of 0 f u app wear n] assms
  by (simp add: parked_def slave_read [OF parked_booted [OF assms]] read_fuses_kept twi_read_keeps)

lemma sure_reply:
  assumes "short_frame frame" "length bs = unat n"
    and "\<And>u. parked f fz ra u \<Longrightarrow>
      fst (sl_read (flash_slave app wear) (unat n) (snd (sl_write (flash_slave app wear) frame u))) = bs"
  shows "triple (at_unit a all_delivered (parked f fz ra)) (send_frame (sim_bus (flash_slave app wear)) a frame stop)
      (\<lambda>r w. at_unit a all_delivered (\<lambda>u. parked f fz ra u \<and> fst (sl_read (flash_slave app wear) (unat n) u) = bs) w \<and> r = 0)"
    and "triple (at_unit a all_delivered (\<lambda>u. parked f fz ra u \<and> fst (sl_read (flash_slave app wear) (unat n) u) = bs))
      (b_request (sim_bus (flash_slave app wear)) a n)
      (\<lambda>got w. (at_unit a all_delivered (parked f fz ra) w \<and> wi_rx w = bs) \<and> got = n)"
proof -
  have len: "length frame \<le> 132" using assms(1) by cases simp_all
  show "triple (at_unit a all_delivered (parked f fz ra)) (send_frame (sim_bus (flash_slave app wear)) a frame stop)
      (\<lambda>r w. at_unit a all_delivered (\<lambda>u. parked f fz ra u \<and> fst (sl_read (flash_slave app wear) (unat n) u) = bs) w \<and> r = 0)"
    by (rule sure_send [OF len]) (use parked_frame [OF _ assms(1)] assms(3) in blast)
  show "triple (at_unit a all_delivered (\<lambda>u. parked f fz ra u \<and> fst (sl_read (flash_slave app wear) (unat n) u) = bs))
      (b_request (sim_bus (flash_slave app wear)) a n)
      (\<lambda>got w. (at_unit a all_delivered (parked f fz ra) w \<and> wi_rx w = bs) \<and> got = n)"
    by (rule sure_request [OF _ assms(2)]) (use parked_read in blast)
qed

lemma reply_bytes:
  assumes "parked f fz ra u"
  shows "fst (sl_read (flash_slave app wear) 16 (snd (sl_write (flash_slave app wear) [1] u))) = twiboot_info"
    "fst (sl_read (flash_slave app wear) 8 (snd (sl_write (flash_slave app wear) [2, 0, 0, 0] u))) = twiboot_chipinfo"
    "fst (sl_read (flash_slave app wear) 13 (snd (sl_write (flash_slave app wear) [2, 0, 0, 0] u))) =
       twiboot_chipinfo @ [fz 0, fz 1, fz 2, fz 3, ra AND 0x0F]"
proof -
  have s: "short_frame [1]" "short_frame [2, 0, 0, 0]" by (rule short_frame.intros, simp)+
  note p = parked_frame(2) [OF assms s(1), of app wear] parked_frame(2) [OF assms s(2), of app wear]
  have l: "twi_listening (fu_boot v)" if "parked f fz ra v" for v using that by (simp add: parked_def holds_def stays_def)
  show "fst (sl_read (flash_slave app wear) 16 (snd (sl_write (flash_slave app wear) [1] u))) = twiboot_info"
    using version_reply [OF parked_command(1) [OF assms] l [OF p(1)]]
    by (simp add: slave_read [OF parked_booted [OF p(1)]])
  show "fst (sl_read (flash_slave app wear) 8 (snd (sl_write (flash_slave app wear) [2, 0, 0, 0] u))) = twiboot_chipinfo"
    using chip_reply(1) [OF parked_command(2) [OF assms] l [OF p(2)]]
    by (simp add: slave_read [OF parked_booted [OF p(2)]])
  show "fst (sl_read (flash_slave app wear) 13 (snd (sl_write (flash_slave app wear) [2, 0, 0, 0] u))) =
       twiboot_chipinfo @ [fz 0, fz 1, fz 2, fz 3, ra AND 0x0F]"
    using chip_reply(2) [OF parked_command(2) [OF assms] l [OF p(2)]] p(2)
    by (simp add: slave_read [OF parked_booted [OF p(2)]] parked_def)
qed

lemma bytes_sure:
  "triple (\<lambda>w. at_unit a fates P w \<and> wi_rx w = bs @ rest) (repeat_state (length bs) (read_byte (sim_bus sl)))
     (\<lambda>r w. (at_unit a fates P w \<and> wi_rx w = rest) \<and> r = bs)"
  using take_bytes [of _ bs rest sl] by (auto simp: triple_def)

lemma raw_bytes_sure:
  "triple (\<lambda>w. at_unit a fates P w \<and> wi_rx w = bs @ rest) (repeat_state (length bs) (b_read (sim_bus sl)))
     (\<lambda>_ w. at_unit a fates P w \<and> wi_rx w = rest)"
proof (induction bs)
  case (Cons b bs)
  have "triple (\<lambda>w. at_unit a fates P w \<and> wi_rx w = b # bs @ rest) (b_read (sim_bus sl))
      (\<lambda>_ w. at_unit a fates P w \<and> wi_rx w = bs @ rest)"
    by (simp add: triple_def wire_run)
  then show ?case
    by (simp, intro triple_bind [where R = "\<lambda>_ w. at_unit a fates P w \<and> wi_rx w = bs @ rest"]
        triple_bind [OF Cons.IH]) (simp_all add: triple_return_iff)
qed (simp add: triple_return_iff)

lemma bytes_triple:
  "triple (at_unit a fates P) (repeat_state k (read_byte (sim_bus sl))) (\<lambda>_. at_unit a fates P)"
proof (induction k)
  case (Suc k)
  show ?case
    by (simp, rule triple_bind [OF read_byte_triple], rule triple_bind [OF Suc.IH]) (simp add: triple_return_iff)
qed (simp add: triple_return_iff)

lemma fuses_back_keep:
  "triple (at_unit a all_delivered (parked f fz ra)) (read_fuses_back (sim_bus (flash_slave app wear)) a out fuses)
     (\<lambda>r w. at_unit a all_delivered (parked f fz ra) w \<and> fst r \<and>
        ti_crashValid (snd r) = ti_crashValid out \<and> ti_crashCount (snd r) = ti_crashCount out)"
proof -
  let ?sl = "flash_slave app wear"
  have s: "short_frame [2, 1, 0, 0]" by (rule short_frame.intros) simp
  have send: "triple (at_unit a all_delivered (parked f fz ra)) (send_frame (sim_bus ?sl) a [2, 1, 0, 0] stop)
      (\<lambda>r w. at_unit a all_delivered (parked f fz ra) w \<and> r = 0)" for stop
    by (rule sure_send) (use parked_frame [OF _ s] in auto)
  have len: "length (fst (sl_read ?sl 4 u)) = 4" if "parked f fz ra u" for u
    using slave_read_keeps(2) [of 0 f u app wear 4] that by (simp add: parked_def)
  have request: "triple (at_unit a all_delivered (parked f fz ra)) (b_request (sim_bus ?sl) a 4)
      (\<lambda>got w. at_unit a all_delivered (parked f fz ra) w \<and> got = 4)"
    using len parked_read
    by (auto intro!: tripleI simp: wire_run wire_read_def at_unit_def Let_def case_prod_beta)
  show ?thesis
    unfolding read_fuses_back_def
    apply (rule triple_known [OF send])
    apply (simp only: not_True_eq_False if_False simp_thms)
    apply (rule triple_known [OF request])
    apply (simp only: not_True_eq_False if_False simp_thms)
    apply (rule triple_bind [OF bytes_triple])
    apply (simp add: triple_return_iff)
    done
qed

lemma identity_sure:
  "triple (at_unit a all_delivered (parked f fz ra)) (twibootReadIdentity (sim_bus (flash_slave app wear)) a)
     (\<lambda>r w. at_unit a all_delivered (parked f fz ra) w \<and> fst r \<and>
        ti_crashValid (snd r) \<and> ti_crashCount (snd r) = ra AND 0x0F)"
proof -
  let ?sl = "flash_slave app wear" and ?P = "at_unit a all_delivered (parked f fz ra)"
  have s: "short_frame [1]" "short_frame [2, 0, 0, 0]" by (rule short_frame.intros, simp)+
  have parse: "twibootParseVersion twiboot_info = fresh_identity\<lparr>ti_generation := 3, ti_caps := 0x0F\<rparr>"
    by (simp add: twibootParseVersion_def twiboot_info_def word_le_nat_alt)
  have caps: "(0x0F :: u8) AND TWIBOOT_CAP_FUSE_CHIPINFO \<noteq> 0" "(0x0F :: u8) AND TWIBOOT_CAP_CRASH_RECORD \<noteq> 0"
    by (simp_all add: TWIBOOT_CAP_FUSE_CHIPINFO_def TWIBOOT_CAP_CRASH_RECORD_def)
  let ?reply = "twiboot_chipinfo @ [fz 0, fz 1, fz 2, fz 3, ra AND 0x0F]"
  have len: "length twiboot_info = 16" "length twiboot_chipinfo = 8" by (simp_all add: twiboot_info_def twiboot_chipinfo_def)
  have four: "length [fz 0, fz 1, fz 2, fz 3] = 4" by simp
  note ver = sure_reply [OF s(1), of twiboot_info 16 f fz ra app wear a]
  note chip = sure_reply [OF s(2), of ?reply 13 f fz ra app wear a]
  have crash: "triple ?P (read_capabilities (sim_bus ?sl) a (fresh_identity\<lparr>ti_generation := 3, ti_caps := 0x0F\<rparr>))
      (\<lambda>r w. ?P w \<and> fst r \<and> ti_crashValid (snd r) \<and> ti_crashCount (snd r) = ra AND 0x0F)"
    using caps
    apply (simp add: read_capabilities_def Let_def)
    apply (rule triple_known_pre [OF chip(1)])
        apply (simp_all add: len reply_bytes)
    apply (rule triple_known_pre [OF chip(2)])
        apply (simp_all add: len reply_bytes)
    apply (rule triple_bind_pre [OF raw_bytes_sure [where a = a and fates = all_delivered and P = "parked f fz ra" and bs = twiboot_chipinfo and rest = "[fz 0, fz 1, fz 2, fz 3, ra AND 0x0F]", unfolded len]])
     apply simp
    apply (rule triple_known_pre [OF bytes_sure [where a = a and fates = all_delivered and P = "parked f fz ra" and bs = "[fz 0, fz 1, fz 2, fz 3]" and rest = "[ra AND 0x0F]", unfolded four]])
     apply simp
    apply (rule triple_known_pre [OF sure_byte [of a all_delivered "parked f fz ra" "ra AND 0x0F" "[]"]])
     apply simp
    apply (rule triple_weaken [OF fuses_back_keep])
     apply auto
    done
  show ?thesis
    unfolding twibootReadIdentity_def
    apply (rule triple_known_pre [OF ver(1)])
        apply (simp_all add: len reply_bytes)
    apply (rule triple_known_pre [OF ver(2)])
        apply (simp_all add: len reply_bytes)
    apply (rule triple_known_pre [OF bytes_sure [where a = a and fates = all_delivered and P = "parked f fz ra" and bs = twiboot_info and rest = "[]", unfolded len append_Nil2]])
     apply simp
    apply (simp add: parse Let_def)
    apply (rule triple_weaken [OF crash])
     apply (auto simp: fresh_identity_def)
    done
qed

text \<open>A bare address, with no page command pending.\<close>

lemma bare_parked:
  assumes "parked f fz ra u" "tw_cmd (fu_boot u) \<noteq> CMD_WRITE_FLASH_PAGE"
  shows "fst (sl_write (flash_slave app wear) [] u) \<and> parked f fz ra (snd (sl_write (flash_slave app wear) [] u))"
proof -
  have u: "stays 0 (fu_boot u)" "twi_listening (fu_boot u)" using assms by (simp_all add: parked_def holds_def stays_def)
  have "twi_write [] (fu_boot u) = (True, (fu_boot u)\<lparr>tw_bcnt := 0, tw_ack := True\<rparr>)"
    using u(2) assms by (cases "fu_boot u") (simp add: twi_write_def start_write twi_listening_def twiboot_step_def TWI_vect_def twi_idle_def)
  then show ?thesis
    using assms u(2) parked_booted [of f fz ra u]
    by (simp add: slave_write worn_def parked_def holds_def stays_def twi_listening_def buffer_ok_def)
qed

lemma is_bootloader_sure:
  "triple (at_unit a all_delivered (parked f fz ra)) (twibootIsBootloader (sim_bus (flash_slave app wear)) a)
     (\<lambda>r w. at_unit a all_delivered (parked f fz ra) w \<and> r = True)"
proof -
  have s: "short_frame [2, 0, 0, 0]" by (rule short_frame.intros) simp
  have len: "length twiboot_chipinfo = 8" by (simp add: twiboot_chipinfo_def)
  note chip = sure_reply [OF s, of twiboot_chipinfo 8 f fz ra app wear a]
  have sig: "twiboot_chipinfo = [0x1E, 0x95, 0x0F] @ drop 3 twiboot_chipinfo" by (simp add: twiboot_chipinfo_def)
  show ?thesis
    unfolding twibootIsBootloader_def twibootDrain_def drain_all_def
    apply (rule triple_known_pre [OF chip(1)])
        apply (simp_all add: len reply_bytes)
    apply (rule triple_known_pre [OF chip(2)])
        apply (simp_all add: len reply_bytes word_less_nat_alt)
    apply (rule triple_known_pre [OF sure_byte [of a all_delivered "parked f fz ra" "0x1E" "[0x95, 0x0F] @ drop 3 twiboot_chipinfo"]])
     apply (use sig in simp)
    apply (rule triple_known_pre [OF sure_byte [of a all_delivered "parked f fz ra" "0x95" "[0x0F] @ drop 3 twiboot_chipinfo"]])
     apply simp
    apply (rule triple_known_pre [OF sure_byte [of a all_delivered "parked f fz ra" "0x0F" "drop 3 twiboot_chipinfo"]])
     apply simp
    apply (rule triple_bind_pre [OF drain_triple [of a all_delivered "parked f fz ra"]])
     apply simp
    apply (simp add: triple_return_iff isAtmega328pSignature_def)
    done
qed

lemma probe_sure:
  "triple (at_unit a all_delivered (\<lambda>u. parked f fz ra u \<and> tw_cmd (fu_boot u) \<noteq> CMD_WRITE_FLASH_PAGE))
     (unitRescueProbe (sim_bus (flash_slave app wear)) a)
     (\<lambda>r w. if 3 \<le> ra AND 0x0F then fst r = Rescue_CrashHeld \<and> at_unit a all_delivered (parked f fz ra) w
            else fst r = Rescue_Bootloader \<and> at_unit a all_delivered (runs_app f) w)"
proof -
  let ?sl = "flash_slave app wear" and ?P = "at_unit a all_delivered (parked f fz ra)"
  let ?Q = "\<lambda>u. parked f fz ra u \<and> tw_cmd (fu_boot u) \<noteq> CMD_WRITE_FLASH_PAGE"
  have exit: "triple ?P (twibootExit (sim_bus ?sl) a)
      (\<lambda>r w. at_unit a all_delivered (runs_app f) w \<and> r = 0)"
    unfolding twibootExit_def
    by (rule sure_send) (use slave_exit in \<open>auto simp: parked_def\<close>)
  show ?thesis
    unfolding unitRescueProbe_def
    apply (simp add: wire_run)
    apply (rule triple_known_pre [OF sure_send [where P = ?Q and Q = "parked f fz ra", OF _ bare_parked]])
       apply simp_all
    apply (rule triple_known_pre [OF is_bootloader_sure])
     apply simp
    apply simp
    apply (rule triple_bind_pre [OF identity_sure])
     apply simp
    apply (simp only: case_prod_beta)
    apply (rule triple_bind [where R = "\<lambda>ident w. ?P w \<and> ti_crashValid ident \<and> ti_crashCount ident = ra AND 0x0F"])
     apply (auto simp: triple_def) [1]
    apply (rule triple_if)
     apply (auto simp: triple_def twibootHeldForCrashing_def) [1]
    subgoal for r ident
      apply (rule triple_weaken [where P = "\<lambda>w. ?P w \<and> (ti_crashValid ident \<and> ti_crashCount ident = ra AND 0x0F)"])
        apply (rule triple_fact)
        apply (rule triple_known_pre [OF exit], assumption)
      apply (auto simp: twibootHeldForCrashing_def triple_return_iff)
      done
    done
qed

text \<open>C15: On a wire that delivers every transaction, and with no page command pending in the bootloader (else
  the probe's bare address would program that page once more), the rescue probe starts a unit that is merely
  parked in its bootloader and leaves one that the bootloader holds for crashing where it is, by the very
  count the bootloader keeps, and writes no byte of program memory.\<close>

theorem rescue_probe_judges:
  assumes "wi_addr w = a" "132 \<le> wi_cap w" "wi_fates w = (\<lambda>_. Delivered)" "stays 0 (fu_boot (wi_unit w))"
    and "tw_cmd (fu_boot (wi_unit w)) \<noteq> 0x42"
    and "run_state (unitRescueProbe (sim_bus (flash_slave app wear)) a) w = ((probe, ident), w')"
  shows "unit_flash w' = unit_flash w \<and>
    (if 3 \<le> tw_rec_a (fu_boot (wi_unit w)) AND 0x0F
     then probe = Rescue_CrashHeld \<and> tw_cmd (fu_boot (wi_unit w')) \<noteq> 0x21
     else probe = Rescue_Bootloader \<and> tw_cmd (fu_boot (wi_unit w')) = 0x21)"
proof -
  let ?st = "fu_boot (wi_unit w)"
  let ?Q = "\<lambda>u. parked (unit_flash w) (tw_fuses ?st) (tw_rec_a ?st) u \<and> tw_cmd (fu_boot u) \<noteq> CMD_WRITE_FLASH_PAGE"
  have "at_unit a all_delivered ?Q w"
    using assms(1-5) by (simp add: at_unit_def parked_def holds_def unit_flash_def)
  with tripleD [OF probe_sure _ assms(6)] show ?thesis
    by (auto simp: at_unit_def parked_def holds_def runs_app_def unit_flash_def stays_def twi_listening_def split: if_splits)
qed

lemma rescue_probe_judges_witness:
  "fst (fst (run_state (unitRescueProbe (sim_bus (flash_slave mute_app (\<lambda>_ _ b. b))) 5)
     (unit_wire (\<lambda>_. Delivered) (fresh_unit (\<lambda>_. 0))))) = Rescue_Bootloader"
proof -
  let ?w = "unit_wire (\<lambda>_. Delivered) (fresh_unit (\<lambda>_. 0))"
  have w: "wi_addr ?w = 5" "132 \<le> wi_cap ?w" "wi_fates ?w = (\<lambda>_. Delivered)" "stays 0 (fu_boot (wi_unit ?w))"
    "tw_cmd (fu_boot (wi_unit ?w)) \<noteq> 0x42"
    using stays_less [OF fresh_unit_stays, of 0] by (simp_all add: unit_wire_def sample_cmd)
  have "tw_rec_a (fu_boot (wi_unit ?w)) AND 0x0F = 0"
    by (simp add: unit_wire_def fresh_unit_def twiboot_start_def crash_count_def Let_def)
  then show ?thesis
    using rescue_probe_judges [OF w, of mute_app "\<lambda>_ _ b. b"
        "fst (fst (run_state (unitRescueProbe (sim_bus (flash_slave mute_app (\<lambda>_ _ b. b))) 5) ?w))"
        "snd (fst (run_state (unitRescueProbe (sim_bus (flash_slave mute_app (\<lambda>_ _ b. b))) 5) ?w))"
        "snd (run_state (unitRescueProbe (sim_bus (flash_slave mute_app (\<lambda>_ _ b. b))) 5) ?w)"] by simp
qed

end
