(* ===== verification/Maintenance.thy ===== *)
theory Maintenance
  imports Unit_Bus
begin

text \<open>
  The maintenance operations as a row master judges them, \<open>shared/MaintenancePolicy.h\<close>: what a web
  request may ask, how an executed operation is graded, and the result documents a client polls.
  A C string is the characters before its terminator, \<open>nullptr\<close> is \<open>None\<close>. An out-parameter that a
  refusal leaves alone is \<open>None\<close> as well.
\<close>

section \<open>Numbers in a query\<close>

text \<open>
  The library's \<open>strtol\<close> where \<open>long\<close> has 32 bits: the number and what follows it, or \<open>None\<close> where
  nothing was converted (the end pointer stays at the start).
\<close>

definition c_space :: "char \<Rightarrow> bool" where
  "c_space c \<longleftrightarrow> c = CHR '' '' \<or> 9 \<le> (of_char c :: nat) \<and> (of_char c :: nat) \<le> 13"

definition digit_value :: "char \<Rightarrow> nat option" where
  "digit_value c =
     (let n = (of_char c :: nat)
      in if 48 \<le> n \<and> n \<le> 57 then Some (n - 48)
         else if 97 \<le> n \<and> n \<le> 122 then Some (n - 87)
         else if 65 \<le> n \<and> n \<le> 90 then Some (n - 55)
         else None)"

definition is_digit :: "nat \<Rightarrow> char \<Rightarrow> bool" where
  "is_digit base c = (case digit_value c of None \<Rightarrow> False | Some d \<Rightarrow> d < base)"

definition digits_value :: "nat \<Rightarrow> string \<Rightarrow> nat" where
  "digits_value base = foldl (\<lambda>n c. n * base + the (digit_value c)) 0"

definition hex_prefix :: "string \<Rightarrow> bool" where
  "hex_prefix s \<longleftrightarrow> 3 \<le> length s \<and> s ! 0 = CHR ''0'' \<and> (s ! 1 = CHR ''x'' \<or> s ! 1 = CHR ''X'')
     \<and> is_digit 16 (s ! 2)"

definition clamp_long :: "int \<Rightarrow> int" where
  "clamp_long n = max (- (2 ^ 31)) (min (2 ^ 31 - 1) n)"

definition strtol :: "nat \<Rightarrow> string \<Rightarrow> (int \<times> string) option" where
  "strtol base text =
     (let s = dropWhile c_space text;
          neg = (s \<noteq> [] \<and> hd s = CHR ''-'');
          s = (if s \<noteq> [] \<and> (hd s = CHR ''-'' \<or> hd s = CHR ''+'') then tl s else s);
          b = (if base \<noteq> 0 then base else if hex_prefix s then 16
               else if s \<noteq> [] \<and> hd s = CHR ''0'' then 8 else 10);
          s = (if (base = 0 \<or> base = 16) \<and> hex_prefix s then drop 2 s else s);
          ds = takeWhile (is_digit b) s;
          v = int (digits_value b ds)
      in if ds = [] then None
         else Some (clamp_long (if neg then - v else v), dropWhile (is_digit b) s))"

section \<open>What a request may ask\<close>

record MaintVerdict =
  mv_httpStatus :: int
  mv_message :: string

definition verdict_pass :: MaintVerdict where
  "verdict_pass = \<lparr>mv_httpStatus = 200, mv_message = ''''\<rparr>"

definition refuse :: "int \<Rightarrow> string \<Rightarrow> MaintVerdict" where
  "refuse status message = \<lparr>mv_httpStatus = status, mv_message = message\<rparr>"

text \<open>The facts are the slots below \<open>maxUnits\<close>; the address base is 1.\<close>

definition maintValidateAddress :: "string option \<Rightarrow> UnitFacts list \<Rightarrow> MaintVerdict \<times> int option" where
  "maintValidateAddress raw units =
     (case raw of
        None \<Rightarrow> (refuse 400 ''Missing 'address' query param'', None)
      | Some text \<Rightarrow>
          (case strtol 0 text of
             None \<Rightarrow> (refuse 400 ''Address must be a number'', None)
           | Some (parsed, rest) \<Rightarrow>
               if parsed < 1 \<or> parsed > 126 then (refuse 400 ''Address must be 1..126'', None)
               else (let unitIndex = parsed - 1
                     in if unitIndex < 0 \<or> unitIndex \<ge> int (length units)
                          \<or> uf_state (units ! nat unitIndex) \<noteq> 1
                        then (refuse 404 ''No sketch-running unit at that address'', None)
                        else if \<not> unitDrivable (units ! nat unitIndex)
                        then (refuse 409 (''Unit reports an unrecognised protocol version ''
                                @ [CHR 0xE2, CHR 0x80, CHR 0x94] @ '' reflash it''), None)
                        else (verdict_pass, Some parsed))))"

definition maintValidateOffset :: "int \<Rightarrow> MaintVerdict" where
  "maintValidateOffset v =
     (if v < - SFP_OFFSET_LIMIT_STEPS \<or> v > SFP_OFFSET_LIMIT_STEPS
      then refuse 400 ''Offset must be within +/-2038 steps (one revolution)'' else verdict_pass)"

definition maintValidateJog :: "int \<Rightarrow> MaintVerdict" where
  "maintValidateJog steps =
     (if steps < -127 \<or> steps > 127 then refuse 400 ''Steps must be -127..127'' else verdict_pass)"

definition maintValidateGates :: "int \<Rightarrow> MaintVerdict" where
  "maintValidateGates gates =
     (if gates < 0 \<or> gates > 255 then refuse 400 ''Gates must be a 0..255 bit mask''
      else if gates AND NOT (uint SFP_UNIT_GATE_IMPLEMENTED) \<noteq> 0
      then refuse 400 ''Gates contain bits no unit firmware implements'' else verdict_pass)"

definition maintValidateSetAddressTarget :: "int \<Rightarrow> int \<Rightarrow> UnitFacts list \<Rightarrow> MaintVerdict" where
  "maintValidateSetAddressTarget target currentAddr units =
     (if target < 1 \<or> target > int (length units)
      then refuse 400 ''Address must be within the managed unit range''
      else if target \<noteq> currentAddr \<and> uf_state (units ! nat (target - 1)) \<noteq> 0
      then refuse 409 ''Target address is already occupied on the bus'' else verdict_pass)"

definition maintEncodeOffsetLE :: "i16 \<Rightarrow> bytes" where
  "maintEncodeOffsetLE v = [byte_of 0 v, byte_of 1 v]"

section \<open>What an operation amounts to\<close>

datatype MaintOutcome =
  MO_Pending | MO_Ok | MO_WireFail | MO_ExecValidationFail | MO_PostconditionFail

datatype MaintReason =
  MR_None | MR_UnitMissingAfterReprobe | MR_TargetAddressOccupied | MR_BootInfoReadFail
  | MR_BootStateUnknown | MR_BootLockRefused | MR_BootUnitLost | MR_BootVerifyFailed
  | MR_BootAlreadyNew | MR_BootUnitBusy | MR_BootNotStarted | MR_HomeNotFound | MR_HomeNotEnded

definition maintReasonForBootFailure :: "BootUpdateFailure \<Rightarrow> MaintReason \<Rightarrow> MaintReason" where
  "maintReasonForBootFailure f whenNone =
     (case f of BOOT_FAIL_BUSY \<Rightarrow> MR_BootUnitBusy | BOOT_FAIL_LOCK \<Rightarrow> MR_BootLockRefused
      | BOOT_FAIL_STATE \<Rightarrow> MR_BootStateUnknown | BOOT_FAIL_VERIFY \<Rightarrow> MR_BootVerifyFailed
      | BOOT_FAIL_NONE \<Rightarrow> whenNone)"

record MaintGrade =
  mg_outcome :: MaintOutcome
  mg_reason :: MaintReason

definition maintGradeWire :: "int \<Rightarrow> MaintGrade" where
  "maintGradeWire wireStatus =
     \<lparr>mg_outcome = (if wireStatus = 0 then MO_Ok else MO_WireFail), mg_reason = MR_None\<rparr>"

definition maintGradeGates :: "int \<Rightarrow> MaintGrade" where
  "maintGradeGates status =
     (if status = UNIT_BUS_GATES_MISMATCH \<or> status = UNIT_BUS_GATES_UNVERIFIED
      then \<lparr>mg_outcome = MO_PostconditionFail, mg_reason = MR_None\<rparr> else maintGradeWire status)"

definition maintGradeObserved :: "bool \<Rightarrow> MaintReason \<Rightarrow> MaintGrade" where
  "maintGradeObserved ok whyNot =
     (if ok then \<lparr>mg_outcome = MO_Ok, mg_reason = MR_None\<rparr>
      else \<lparr>mg_outcome = MO_PostconditionFail, mg_reason = whyNot\<rparr>)"

definition classifySetAddressOutcome :: "UnitFacts list \<Rightarrow> int \<Rightarrow> MaintGrade" where
  "classifySetAddressOutcome facts target =
     (let idx = target - 1
      in if idx \<ge> 0 \<and> idx < int (length facts) \<and> uf_state (facts ! nat idx) = 1
         then \<lparr>mg_outcome = MO_Ok, mg_reason = MR_None\<rparr>
         else \<lparr>mg_outcome = MO_PostconditionFail, mg_reason = MR_UnitMissingAfterReprobe\<rparr>)"

definition classifyClearAddressOutcome :: "int \<Rightarrow> int \<Rightarrow> MaintGrade" where
  "classifyClearAddressOutcome countBefore countAfter =
     (if countAfter \<ge> countBefore then \<lparr>mg_outcome = MO_Ok, mg_reason = MR_None\<rparr>
      else \<lparr>mg_outcome = MO_PostconditionFail, mg_reason = MR_UnitMissingAfterReprobe\<rparr>)"

section \<open>The result documents\<close>

datatype OpResultState = OR_Pending | OR_Found | OR_Expired

text \<open>Of the slot each row master keeps, only these fields are read here.\<close>

record ResultSlot =
  rs_seq :: u32
  rs_outcome :: MaintOutcome
  rs_reason :: MaintReason

definition opResultQuery :: "ResultSlot \<Rightarrow> u32 \<Rightarrow> OpResultState" where
  "opResultQuery slot seq =
     (if rs_seq slot < seq then OR_Pending
      else if rs_seq slot = seq \<and> rs_outcome slot \<noteq> MO_Pending then OR_Found
      else if rs_seq slot = seq then OR_Pending else OR_Expired)"

fun maintOutcomeName :: "MaintOutcome \<Rightarrow> string" where
  "maintOutcomeName MO_Ok = ''ok''"
| "maintOutcomeName MO_WireFail = ''wire-fail''"
| "maintOutcomeName MO_ExecValidationFail = ''exec-validation-fail''"
| "maintOutcomeName MO_PostconditionFail = ''postcondition-fail''"
| "maintOutcomeName MO_Pending = ''pending''"

fun maintReasonName :: "MaintReason \<Rightarrow> string" where
  "maintReasonName MR_UnitMissingAfterReprobe = ''unit-missing-after-reprobe''"
| "maintReasonName MR_TargetAddressOccupied = ''target-address-occupied''"
| "maintReasonName MR_BootInfoReadFail = ''boot-info-read-fail''"
| "maintReasonName MR_BootStateUnknown = ''boot-state-unknown''"
| "maintReasonName MR_BootLockRefused = ''boot-lock-refused''"
| "maintReasonName MR_BootUnitLost = ''boot-unit-lost''"
| "maintReasonName MR_BootVerifyFailed = ''boot-verify-failed''"
| "maintReasonName MR_BootAlreadyNew = ''boot-already-new''"
| "maintReasonName MR_BootUnitBusy = ''boot-unit-busy''"
| "maintReasonName MR_BootNotStarted = ''boot-not-started''"
| "maintReasonName MR_HomeNotFound = ''home-not-found''"
| "maintReasonName MR_HomeNotEnded = ''home-not-ended''"
| "maintReasonName MR_None = ''''"

definition op_result_text :: "ResultSlot \<Rightarrow> u32 \<Rightarrow> string" where
  "op_result_text slot seq =
     (let state = (\<lambda>s. json_field ''state'' (quoted s));
          detail = json_field ''detail'' (quoted (maintReasonName (rs_reason slot)));
          reason = json_field ''reason'' (quoted (maintOutcomeName (rs_outcome slot)))
      in json_object
         (case opResultQuery slot seq of
            OR_Pending \<Rightarrow> [state ''pending'']
          | OR_Expired \<Rightarrow> [state ''expired'']
          | OR_Found \<Rightarrow>
              if rs_outcome slot = MO_Ok
              then if rs_reason slot = MR_None then [state ''ok''] else [state ''ok'', detail]
              else if rs_reason slot = MR_None then [state ''failed'', reason]
              else [state ''failed'', reason, detail]))"

definition buildOpResultJson :: "nat \<Rightarrow> ResultSlot \<Rightarrow> u32 \<Rightarrow> string" where
  "buildOpResultJson cap slot seq = snprintf_text cap (op_result_text slot seq)"

datatype SelfTestOutcome =
  ST_Pending | ST_Ok | ST_WireFail | ST_Timeout | ST_UnitFailed | ST_Unsupported | ST_Aborted

definition selfTestMovedTheDrum :: "SelfTestOutcome \<Rightarrow> bool" where
  "selfTestMovedTheDrum r \<longleftrightarrow> r = ST_Ok \<or> r = ST_UnitFailed \<or> r = ST_Timeout"

record SelfTestSlot =
  ss_seq :: u32
  ss_addr :: u8
  ss_outcome :: SelfTestOutcome
  ss_stepsPerRev :: u16
  ss_hallWindowSteps :: u16
  ss_revTimeMs :: u16
  ss_unitReason :: u8

fun selfTestOutcomeName :: "SelfTestOutcome \<Rightarrow> string" where
  "selfTestOutcomeName ST_Ok = ''ok''"
| "selfTestOutcomeName ST_WireFail = ''wire-fail''"
| "selfTestOutcomeName ST_Timeout = ''timeout''"
| "selfTestOutcomeName ST_UnitFailed = ''unit-failed''"
| "selfTestOutcomeName ST_Unsupported = ''unsupported''"
| "selfTestOutcomeName ST_Aborted = ''aborted''"
| "selfTestOutcomeName ST_Pending = ''pending''"

definition self_test_text :: "SelfTestSlot \<Rightarrow> u32 \<Rightarrow> string" where
  "self_test_text slot seq =
     (let state = (\<lambda>s. json_field ''state'' (quoted s));
          measured = [json_field ''steps_per_rev'' (show_dec (unat (ss_stepsPerRev slot))),
                      json_field ''hall_window'' (show_dec (unat (ss_hallWindowSteps slot))),
                      json_field ''rev_time_ms'' (show_dec (unat (ss_revTimeMs slot)))]
      in json_object
         (if ss_seq slot < seq \<or> ss_seq slot = seq \<and> ss_outcome slot = ST_Pending then [state ''pending'']
          else if ss_seq slot > seq then [state ''expired'']
          else if ss_outcome slot = ST_Ok then state ''ok'' # measured
          else [state ''failed'', json_field ''reason'' (quoted (selfTestOutcomeName (ss_outcome slot))),
                json_field ''unit_reason'' (quoted (selfTestReasonName (ss_unitReason slot)))] @ measured))"

definition buildSelfTestJson :: "nat \<Rightarrow> SelfTestSlot \<Rightarrow> u32 \<Rightarrow> string" where
  "buildSelfTestJson cap slot seq = snprintf_text cap (self_test_text slot seq)"

section \<open>The gates admit what they are meant to admit\<close>

lemma maint_address_gate:
  "maintValidateAddress raw units = (v, Some addr) \<longleftrightarrow>
     v = verdict_pass \<and> (\<exists>text rest. raw = Some text \<and> strtol 0 text = Some (addr, rest))
     \<and> 1 \<le> addr \<and> addr \<le> 126 \<and> addr \<le> int (length units) \<and> unitDrivable (units ! nat (addr - 1))"
  by (auto simp: maintValidateAddress_def unitDrivable_def Let_def split: option.splits if_splits)

lemma maint_gates_iff:
  "maintValidateGates g = verdict_pass \<longleftrightarrow>
     0 \<le> g \<and> g \<le> 255 \<and> g AND NOT (uint SFP_UNIT_GATE_IMPLEMENTED) = 0"
  by (auto simp: maintValidateGates_def verdict_pass_def refuse_def)

section \<open>The documents fit, or do not\<close>

lemma maint_names_short:
  "length (maintOutcomeName r) \<le> 20" "length (maintReasonName why) \<le> 26"
  by (cases r; simp) (cases why; simp)

lemma op_result_fits: "length (op_result_text slot seq) < 96"
proof -
  have "length (maintOutcomeName (rs_outcome slot)) \<le> 20" "length (maintReasonName (rs_reason slot)) \<le> 26"
    by (rule maint_names_short)+
  then show ?thesis
    by (simp add: op_result_text_def json_field_def Let_def split: OpResultState.split)
qed

lemma op_result_never_truncated: "buildOpResultJson 96 slot seq = op_result_text slot seq"
  by (simp add: buildOpResultJson_def snprintf_text_fits op_result_fits)

text \<open>
  The comment beside \<open>buildSelfTestJson\<close> promises that its text fits well inside 128 bytes. It does
  not: a failed test with five-digit measurements has 134 characters, and a buffer of 128 cuts the
  document off inside its last number.
\<close>

definition wide_self_test :: SelfTestSlot where
  "wide_self_test = \<lparr>ss_seq = 1, ss_addr = 1, ss_outcome = ST_UnitFailed, ss_stepsPerRev = 65535,
     ss_hallWindowSteps = 65535, ss_revTimeMs = 65535, ss_unitReason = SELFTEST_REASON_REV_INCOMPLETE\<rparr>"

lemma self_test_text_may_not_fit:
  "length (self_test_text wide_self_test 1) = 134"
  by (simp add: self_test_text_def wide_self_test_def json_field_def show_dec.simps selfTestReasonName_def)

end
