(* ===== verification/Row_Waits.thy ===== *)
theory Row_Waits
  imports Maintenance
begin

text \<open>
  How a row master waits for a unit and what the unit then says of itself: the home search of
  \<open>shared/HomeWait.h\<close> and the self-test of \<open>shared/SelfTestPoll.h\<close>. Each is a fold over the readings
  the tree feeds in; an observation gives its verdict and the wait to go on with.
\<close>

section \<open>The home search\<close>

abbreviation (input) HOME_WAIT_TIMEOUT_MS :: u32 where "HOME_WAIT_TIMEOUT_MS \<equiv> 45000"
abbreviation (input) HOME_WAIT_IDLE_MS :: u32 where "HOME_WAIT_IDLE_MS \<equiv> 500"
abbreviation (input) UNIT_FLAG_MOVING :: u8 where "UNIT_FLAG_MOVING \<equiv> 1"
abbreviation (input) UNIT_FLAG_LAST_HOME_FAILED :: u8 where "UNIT_FLAG_LAST_HOME_FAILED \<equiv> 2"
abbreviation (input) UNIT_FLAG_HOMED :: u8 where "UNIT_FLAG_HOMED \<equiv> 32"

datatype HomeWaitOutcome = HW_Pending | HW_Found | HW_NotFound | HW_NotEnded | HW_NoAnswer

record HomeWait =
  hw_startMs :: u32
  hw_idleSinceMs :: u32
  hw_idle :: bool
  hw_everRead :: bool

definition homeWaitBegin :: "u32 \<Rightarrow> HomeWait" where
  "homeWaitBegin nowMs = \<lparr>hw_startMs = nowMs, hw_idleSinceMs = 0, hw_idle = False, hw_everRead = False\<rparr>"

definition homeFlagsSayNotFound :: "u8 \<Rightarrow> bool" where
  "homeFlagsSayNotFound flags \<longleftrightarrow>
     flags AND UNIT_FLAG_LAST_HOME_FAILED \<noteq> 0 \<or> flags AND UNIT_FLAG_HOMED = 0"

definition homeWaitObserve :: "HomeWait \<Rightarrow> bool \<Rightarrow> u8 \<Rightarrow> u32 \<Rightarrow> HomeWaitOutcome \<times> HomeWait" where
  "homeWaitObserve w readOk flags nowMs =
     (let w' = (if readOk
                then (if flags AND UNIT_FLAG_MOVING \<noteq> 0 then w\<lparr>hw_everRead := True, hw_idle := False\<rparr>
                      else if \<not> hw_idle w
                      then w\<lparr>hw_everRead := True, hw_idle := True, hw_idleSinceMs := nowMs\<rparr>
                      else w\<lparr>hw_everRead := True\<rparr>)
                else w\<lparr>hw_idle := False\<rparr>)
      in if readOk \<and> flags AND UNIT_FLAG_MOVING = 0 \<and> nowMs - hw_idleSinceMs w' \<ge> HOME_WAIT_IDLE_MS
         then (if homeFlagsSayNotFound flags then HW_NotFound else HW_Found, w')
         else if nowMs - hw_startMs w' \<ge> HOME_WAIT_TIMEOUT_MS
         then (if hw_everRead w' then HW_NotEnded else HW_NoAnswer, w')
         else (HW_Pending, w'))"

definition maintGradeHome :: "HomeWaitOutcome \<Rightarrow> MaintGrade" where
  "maintGradeHome outcome =
     (case outcome of
        HW_Found \<Rightarrow> \<lparr>mg_outcome = MO_Ok, mg_reason = MR_None\<rparr>
      | HW_NotFound \<Rightarrow> \<lparr>mg_outcome = MO_PostconditionFail, mg_reason = MR_HomeNotFound\<rparr>
      | HW_NotEnded \<Rightarrow> \<lparr>mg_outcome = MO_PostconditionFail, mg_reason = MR_HomeNotEnded\<rparr>
      | _ \<Rightarrow> \<lparr>mg_outcome = MO_WireFail, mg_reason = MR_None\<rparr>)"

text \<open>The tally of a whole row is its one counter.\<close>

definition homeAllTallyAdd :: "u8 \<Rightarrow> bool \<Rightarrow> u8 \<Rightarrow> u8" where
  "homeAllTallyAdd notFound readOk flags =
     (if readOk \<and> homeFlagsSayNotFound flags \<and> notFound < 0xFF then notFound + 1 else notFound)"

definition maintGradeHomeAll :: "u8 \<Rightarrow> MaintGrade" where
  "maintGradeHomeAll notFound =
     (if notFound = 0 then \<lparr>mg_outcome = MO_Ok, mg_reason = MR_None\<rparr>
      else \<lparr>mg_outcome = MO_PostconditionFail, mg_reason = MR_HomeNotFound\<rparr>)"

section \<open>The self-test\<close>

abbreviation (input) SELF_TEST_TIMEOUT_MS :: u32 where "SELF_TEST_TIMEOUT_MS \<equiv> 45000"

definition fresh_reading :: SelfTestResult where
  "fresh_reading = \<lparr>st_state = 0, st_stepsPerRev = 0, st_hallWindowSteps = 0, st_revTimeMs = 0,
     st_reason = SELFTEST_REASON_NONE\<rparr>"

record SelfTestPoll =
  tp_sawRunning :: bool
  tp_everValid :: bool
  tp_baseline :: SelfTestResult
  tp_badPolls :: u8
  tp_windowStartMs :: u32

definition selfTestPollBegin :: "u32 \<Rightarrow> SelfTestPoll" where
  "selfTestPollBegin nowMs = \<lparr>tp_sawRunning = False, tp_everValid = False, tp_baseline = fresh_reading,
     tp_badPolls = 0, tp_windowStartMs = nowMs\<rparr>"

definition selfTestReadingDiffers :: "SelfTestResult \<Rightarrow> SelfTestResult \<Rightarrow> bool" where
  "selfTestReadingDiffers a b \<longleftrightarrow>
     st_state a \<noteq> st_state b \<or> st_stepsPerRev a \<noteq> st_stepsPerRev b
     \<or> st_hallWindowSteps a \<noteq> st_hallWindowSteps b \<or> st_revTimeMs a \<noteq> st_revTimeMs b
     \<or> st_reason a \<noteq> st_reason b"

text \<open>The reading is \<open>None\<close> where the read failed; the slot is returned with the verdict.\<close>

definition selfTestPollObserve ::
  "SelfTestPoll \<Rightarrow> SelfTestResult option \<Rightarrow> u32 \<Rightarrow> SelfTestSlot \<Rightarrow> SelfTestOutcome \<times> SelfTestPoll \<times> SelfTestSlot"
where
  "selfTestPollObserve p reading nowMs slot =
     (let timedOut = (nowMs - tp_windowStartMs p \<ge> SELF_TEST_TIMEOUT_MS);
          undecided = (if timedOut then ST_Timeout else ST_Pending)
      in case reading of
           None \<Rightarrow>
             (let p' = (if tp_everValid p then p else p\<lparr>tp_badPolls := tp_badPolls p + 1\<rparr>)
              in if \<not> tp_everValid p \<and> tp_badPolls p' \<ge> 3 then (ST_Unsupported, p', slot)
                 else (undecided, p', slot))
         | Some r \<Rightarrow>
             (let p' = (if tp_everValid p then p else p\<lparr>tp_everValid := True, tp_baseline := r\<rparr>)
              in if st_state r = SELFTEST_STATE_RUNNING
                 then (if \<not> tp_sawRunning p'
                       then (ST_Pending, p'\<lparr>tp_sawRunning := True, tp_windowStartMs := nowMs\<rparr>, slot)
                       else (undecided, p', slot))
                 else if st_state r = SELFTEST_STATE_NEVER
                   \<or> \<not> (tp_sawRunning p' \<or> selfTestReadingDiffers r (tp_baseline p'))
                 then (undecided, p', slot)
                 else (if st_state r = SELFTEST_STATE_OK then ST_Ok else ST_UnitFailed, p',
                       slot\<lparr>ss_stepsPerRev := st_stepsPerRev r, ss_hallWindowSteps := st_hallWindowSteps r,
                            ss_revTimeMs := st_revTimeMs r, ss_unitReason := st_reason r\<rparr>)))"

section \<open>The home wait says what the readings say\<close>

text \<open>
  The readings of one wait, with the milliseconds since its start: whether the unit answered and with
  which flags. The specification knows the drum to stand still when some unbroken run of idle answers
  up to now spans 500 ms.
\<close>

type_synonym home_reading = "nat \<times> u8 option"

definition idle_reading :: "home_reading \<Rightarrow> bool" where
  "idle_reading r = (case snd r of None \<Rightarrow> False | Some flags \<Rightarrow> flags AND UNIT_FLAG_MOVING = 0)"

definition stood_still :: "home_reading list \<Rightarrow> bool" where
  "stood_still rs \<longleftrightarrow>
     (\<exists>before run. rs = before @ run \<and> run \<noteq> [] \<and> list_all idle_reading run
        \<and> fst (hd run) + 500 \<le> fst (last run))"

definition home_verdict :: "home_reading list \<Rightarrow> HomeWaitOutcome" where
  "home_verdict rs =
     (if stood_still rs
      then (if homeFlagsSayNotFound (the (snd (last rs))) then HW_NotFound else HW_Found)
      else if 45000 \<le> fst (last rs)
      then (if list_ex (\<lambda>r. snd r \<noteq> None) rs then HW_NotEnded else HW_NoAnswer)
      else HW_Pending)"

definition home_fold :: "u32 \<Rightarrow> HomeWait \<Rightarrow> home_reading \<Rightarrow> HomeWaitOutcome \<times> HomeWait" where
  "home_fold start w r =
     homeWaitObserve w (snd r \<noteq> None) (case snd r of None \<Rightarrow> 0 | Some f \<Rightarrow> f) (start + of_nat (fst r))"

definition home_after :: "u32 \<Rightarrow> home_reading list \<Rightarrow> HomeWait" where
  "home_after start rs = foldl (\<lambda>w r. snd (home_fold start w r)) (homeWaitBegin start) rs"

text \<open>The unbroken run of idle answers that ends the readings.\<close>

definition idle_run :: "home_reading list \<Rightarrow> home_reading list" where
  "idle_run rs = rev (takeWhile idle_reading (rev rs))"

lemma idle_run_snoc:
  "idle_run (rs @ [r]) = (if idle_reading r then idle_run rs @ [r] else [])"
  by (simp add: idle_run_def)

lemma idle_run_suffix: "\<exists>before. rs = before @ idle_run rs"
  unfolding idle_run_def
  by (metis rev_append rev_rev_ident takeWhile_dropWhile_id)

lemma idle_run_idle: "list_all idle_reading (idle_run rs)"
  by (auto simp: idle_run_def list_all_iff dest: set_takeWhileD)

lemma idle_run_longest: "rs = before @ run \<Longrightarrow> list_all idle_reading run \<Longrightarrow> \<exists>extra. idle_run rs = extra @ run"
proof (induction run arbitrary: rs rule: rev_induct)
  case (snoc r run)
  then obtain extra where "idle_run (before @ run) = extra @ run" by auto
  with snoc.prems show ?case
    using idle_run_snoc [of "before @ run" r] by auto
qed auto

lemma sorted_append_hd_last:
  "sorted (map fst (extra @ run)) \<Longrightarrow> run \<noteq> [] \<Longrightarrow> fst (hd (extra @ run)) \<le> fst (hd run)"
  by (cases extra; cases run) (auto simp: sorted_append)

lemma stood_still_idle_run:
  assumes "sorted (map fst rs)"
  shows "stood_still rs \<longleftrightarrow> idle_run rs \<noteq> [] \<and> fst (hd (idle_run rs)) + 500 \<le> fst (last rs)"
proof
  assume "stood_still rs"
  then obtain before run where split: "rs = before @ run" "run \<noteq> []" "list_all idle_reading run"
    and span: "fst (hd run) + 500 \<le> fst (last run)"
    by (auto simp: stood_still_def)
  then obtain extra where extra: "idle_run rs = extra @ run" using idle_run_longest by blast
  obtain front where "rs = front @ idle_run rs" using idle_run_suffix by blast
  with assms have "sorted (map fst (extra @ run))"
    unfolding extra by (metis map_append sorted_append)
  from sorted_append_hd_last [OF this split(2)] span split(1,2) extra
  show "idle_run rs \<noteq> [] \<and> fst (hd (idle_run rs)) + 500 \<le> fst (last rs)" by simp
next
  assume run: "idle_run rs \<noteq> [] \<and> fst (hd (idle_run rs)) + 500 \<le> fst (last rs)"
  obtain front where front: "rs = front @ idle_run rs" using idle_run_suffix by blast
  with run have "last rs = last (idle_run rs)" by (metis last_append)
  with run front idle_run_idle [of rs] show "stood_still rs"
    unfolding stood_still_def by (intro exI [of _ front] exI [of _ "idle_run rs"]) simp
qed

lemma clock_span:
  fixes start :: u32
  assumes "d \<le> e" "e < 2 ^ 32"
  shows "(start + of_nat e) - (start + of_nat d) = of_nat (e - d)"
  using assms by (simp add: of_nat_diff)

lemma clock_reached:
  assumes "e < 2 ^ 32" "k < 2 ^ 32"
  shows "(of_nat k :: u32) \<le> of_nat e \<longleftrightarrow> k \<le> e"
  using assms by (simp add: word_le_nat_alt unat_of_nat take_bit_nat_eq_self)

lemma span_reached:
  fixes start :: u32
  assumes "d \<le> e" "e < 2 ^ 32"
  shows "500 \<le> (start + of_nat e) - (start + of_nat d) \<longleftrightarrow> d + 500 \<le> e"
    and "45000 \<le> (start + of_nat e) - (start + of_nat d) \<longleftrightarrow> d + 45000 \<le> e"
  using assms clock_reached [of "e - d" 500] clock_reached [of "e - d" 45000]
  by (simp_all only: clock_span) auto

lemma span_from_start:
  fixes start :: u32
  assumes "e < 2 ^ 32"
  shows "45000 \<le> (start + of_nat e) - start \<longleftrightarrow> 45000 \<le> e"
  using span_reached(2) [of 0 e start] assms by simp

lemma home_fold_state:
  "snd (home_fold start w r) =
     w\<lparr>hw_everRead := (hw_everRead w \<or> snd r \<noteq> None), hw_idle := idle_reading r,
       hw_idleSinceMs := (if idle_reading r \<and> \<not> hw_idle w then start + of_nat (fst r) else hw_idleSinceMs w)\<rparr>"
  by (cases "snd r") (auto simp: home_fold_def homeWaitObserve_def idle_reading_def Let_def)

lemma home_after_invariant:
  "hw_startMs (home_after start rs) = start"
  "hw_everRead (home_after start rs) = list_ex (\<lambda>r. snd r \<noteq> None) rs"
  "hw_idle (home_after start rs) \<longleftrightarrow> idle_run rs \<noteq> []"
  "idle_run rs \<noteq> [] \<Longrightarrow> hw_idleSinceMs (home_after start rs) = start + of_nat (fst (hd (idle_run rs)))"
proof (induction rs rule: rev_induct)
  case Nil
  show "hw_startMs (home_after start []) = start"
    "hw_everRead (home_after start []) = list_ex (\<lambda>r. snd r \<noteq> None) []"
    "hw_idle (home_after start []) \<longleftrightarrow> idle_run [] \<noteq> []"
    "idle_run [] \<noteq> [] \<Longrightarrow> hw_idleSinceMs (home_after start []) = start + of_nat (fst (hd (idle_run [])))"
    by (simp_all add: home_after_def homeWaitBegin_def idle_run_def)
next
  case (snoc r rs)
  have after: "home_after start (rs @ [r]) = snd (home_fold start (home_after start rs) r)"
    by (simp add: home_after_def)
  show "hw_startMs (home_after start (rs @ [r])) = start"
    "hw_everRead (home_after start (rs @ [r])) = list_ex (\<lambda>r. snd r \<noteq> None) (rs @ [r])"
    "hw_idle (home_after start (rs @ [r])) \<longleftrightarrow> idle_run (rs @ [r]) \<noteq> []"
    using snoc.IH by (simp_all add: after home_fold_state idle_run_snoc)
  show "idle_run (rs @ [r]) \<noteq> [] \<Longrightarrow>
      hw_idleSinceMs (home_after start (rs @ [r])) = start + of_nat (fst (hd (idle_run (rs @ [r]))))"
    using snoc.IH by (cases "idle_run rs = []") (simp_all add: after home_fold_state idle_run_snoc split: if_splits)
qed

lemma idle_run_earlier:
  assumes "sorted (map fst rs)" "idle_run rs \<noteq> []"
  shows "fst (hd (idle_run rs)) \<le> fst (last rs)"
proof -
  obtain front where "rs = front @ idle_run rs" using idle_run_suffix by blast
  with assms have "sorted (map fst (idle_run rs))" "last rs = last (idle_run rs)"
    by (metis map_append sorted_append, metis last_append)
  with assms(2) show ?thesis
    by (metis hd_in_set last_in_set list.set_map sorted_append_hd_last append_Nil2 append_butlast_last_id
        list.distinct(1) list.sel(1))
qed

lemma home_wait_observes:
  assumes "sorted (map fst (rs @ [r]))" "fst r < 2 ^ 32"
  shows "fst (home_fold start (home_after start rs) r) = home_verdict (rs @ [r])"
proof -
  define w where "w = snd (home_fold start (home_after start rs) r)"
  have w: "w = home_after start (rs @ [r])" by (simp add: w_def home_after_def)
  have still: "stood_still (rs @ [r]) \<longleftrightarrow>
      idle_reading r \<and> 500 \<le> (start + of_nat (fst r)) - hw_idleSinceMs w"
  proof (cases "idle_reading r")
    case True
    then have run: "idle_run (rs @ [r]) \<noteq> []" by (simp add: idle_run_snoc)
    from idle_run_earlier [OF assms(1) run] have "fst (hd (idle_run (rs @ [r]))) \<le> fst r" by simp
    from span_reached(1) [OF this assms(2), of start] show ?thesis
      using True run by (simp add: stood_still_idle_run [OF assms(1)] w home_after_invariant(4) [OF run])
  qed (simp add: stood_still_idle_run [OF assms(1)] idle_run_snoc)
  have observed: "fst (home_fold start (home_after start rs) r) =
      (if idle_reading r \<and> 500 \<le> (start + of_nat (fst r)) - hw_idleSinceMs w
       then (if homeFlagsSayNotFound (the (snd r)) then HW_NotFound else HW_Found)
       else if 45000 \<le> (start + of_nat (fst r)) - hw_startMs w
       then (if hw_everRead w then HW_NotEnded else HW_NoAnswer) else HW_Pending)"
    unfolding w_def
    by (cases "snd r") (simp_all add: home_fold_def homeWaitObserve_def idle_reading_def Let_def)
  show ?thesis
    unfolding observed home_verdict_def still [symmetric]
    using clock_reached [OF assms(2), of 45000]
    by (simp add: w home_after_invariant(1,2) del: list_ex_append)
qed


text \<open>C22: The verdict of a home wait is the one the readings deserve: as long as the drum has not read idle
  without a break for 500 ms the wait goes on, up to 45 s and not longer; then it says what the unit's
  flags say of the search, and a unit that never answered is told apart from one still turning.
\<close>

theorem home_wait_correct:
  assumes "sorted (map fst (rs @ [r]))" "fst r < 2 ^ 32"
  shows "fst (home_fold start (home_after start rs) r) = home_verdict (rs @ [r])"
  using assms by (rule home_wait_observes)

theorem home_wait_correct_witness:
  "fst (home_fold 5 (home_after 5 [(250, Some 1), (500, None), (750, Some 32)]) (1250, Some 32)) = HW_Found"
proof -
  have "stood_still [(250, Some 1), (500, None), (750, Some 32), (1250, Some 32)]"
    unfolding stood_still_def
    by (intro exI [of _ "[(250, Some 1), (500, None)]"] exI [of _ "[(750, Some 32), (1250, Some 32)]"])
      (simp add: idle_reading_def)
  then show ?thesis
    using home_wait_correct [of "[(250, Some 1), (500, None), (750, Some 32)]" "(1250, Some 32)" 5]
    by (simp add: home_verdict_def homeFlagsSayNotFound_def)
qed

section \<open>A self-test result is this test's\<close>

type_synonym test_reading = "nat \<times> SelfTestResult option"

definition test_fold ::
  "u32 \<Rightarrow> SelfTestSlot \<Rightarrow> SelfTestPoll \<Rightarrow> test_reading \<Rightarrow> SelfTestOutcome \<times> SelfTestPoll \<times> SelfTestSlot" where
  "test_fold start slot p r = selfTestPollObserve p (snd r) (start + of_nat (fst r)) slot"

definition test_after :: "u32 \<Rightarrow> SelfTestSlot \<Rightarrow> test_reading list \<Rightarrow> SelfTestPoll" where
  "test_after start slot rs = foldl (\<lambda>p r. fst (snd (test_fold start slot p r))) (selfTestPollBegin start) rs"

text \<open>The replies that came through, in order.\<close>

definition replies :: "test_reading list \<Rightarrow> SelfTestResult list" where
  "replies rs = List.map_filter snd rs"

text \<open>
  What a unit answers around one test: the content from before it, then that the test runs, then the
  content it ended with; each phase may be empty.
\<close>

definition test_phases :: "SelfTestResult \<Rightarrow> SelfTestResult \<Rightarrow> SelfTestResult list \<Rightarrow> bool" where
  "test_phases old new xs \<longleftrightarrow>
     (\<exists>i j k running. xs = replicate i old @ running @ replicate k new \<and> length running = j
        \<and> (\<forall>x\<in>set running. st_state x = SELFTEST_STATE_RUNNING))"

lemma selfTestReadingDiffers_iff: "selfTestReadingDiffers a b \<longleftrightarrow> a \<noteq> b"
  by (auto simp: selfTestReadingDiffers_def)

lemma replies_snoc:
  "replies (rs @ [(t, None)]) = replies rs" "replies (rs @ [(t, Some x)]) = replies rs @ [x]"
  by (simp_all add: replies_def List.map_filter_def)

lemma test_fold_state:
  "let p' = fst (snd (test_fold start slot p (t, r))) in
     tp_everValid p' = (tp_everValid p \<or> r \<noteq> None)
     \<and> (tp_everValid p' \<longrightarrow> tp_baseline p' = (if tp_everValid p then tp_baseline p else the r))
     \<and> (tp_sawRunning p' \<longleftrightarrow> tp_sawRunning p \<or> (\<exists>x. r = Some x \<and> st_state x = SELFTEST_STATE_RUNNING))
     \<and> tp_windowStartMs p' =
         (if \<not> tp_sawRunning p \<and> (\<exists>x. r = Some x \<and> st_state x = SELFTEST_STATE_RUNNING)
          then start + of_nat t else tp_windowStartMs p)"
  by (cases r) (auto simp: test_fold_def selfTestPollObserve_def Let_def)

lemma test_after_snoc:
  "test_after start slot (rs @ [r]) = fst (snd (test_fold start slot (test_after start slot rs) r))"
  by (simp add: test_after_def)

lemma test_after_invariant:
  "tp_everValid (test_after start slot rs) \<longleftrightarrow> replies rs \<noteq> []"
  "replies rs \<noteq> [] \<Longrightarrow> tp_baseline (test_after start slot rs) = hd (replies rs)"
  "tp_sawRunning (test_after start slot rs) \<longleftrightarrow>
     (\<exists>x\<in>set (replies rs). st_state x = SELFTEST_STATE_RUNNING)"
proof (induction rs rule: rev_induct)
  case Nil
  show "tp_everValid (test_after start slot []) \<longleftrightarrow> replies [] \<noteq> []"
    "replies [] \<noteq> [] \<Longrightarrow> tp_baseline (test_after start slot []) = hd (replies [])"
    "tp_sawRunning (test_after start slot []) \<longleftrightarrow>
       (\<exists>x\<in>set (replies []). st_state x = SELFTEST_STATE_RUNNING)"
    by (simp_all add: test_after_def selfTestPollBegin_def replies_def List.map_filter_def)
next
  case (snoc q rs)
  obtain t r where q: "q = (t, r)" by (cases q)
  note S = test_fold_state [of start slot "test_after start slot rs" t r, unfolded Let_def]
  show "tp_everValid (test_after start slot (rs @ [q])) \<longleftrightarrow> replies (rs @ [q]) \<noteq> []"
    "tp_sawRunning (test_after start slot (rs @ [q])) \<longleftrightarrow>
       (\<exists>x\<in>set (replies (rs @ [q])). st_state x = SELFTEST_STATE_RUNNING)"
    using S snoc.IH by (cases r; auto simp: q test_after_snoc replies_snoc)+
  show "replies (rs @ [q]) \<noteq> [] \<Longrightarrow> tp_baseline (test_after start slot (rs @ [q])) = hd (replies (rs @ [q]))"
    using S snoc.IH by (cases r; cases "replies rs") (auto simp: q test_after_snoc replies_snoc)
qed

lemma accepted_is_fresh:
  assumes "test_fold start slot (test_after start slot rs) (t, r) = (v, p', slot')" "v \<in> {ST_Ok, ST_UnitFailed}"
  obtains x where "r = Some x" "st_state x \<noteq> SELFTEST_STATE_RUNNING" "st_state x \<noteq> SELFTEST_STATE_NEVER"
    "(\<exists>y\<in>set (replies rs). st_state y = SELFTEST_STATE_RUNNING) \<or> x \<noteq> hd (replies rs @ [x])"
    "v = (if st_state x = SELFTEST_STATE_OK then ST_Ok else ST_UnitFailed)"
    "slot' = slot\<lparr>ss_stepsPerRev := st_stepsPerRev x, ss_hallWindowSteps := st_hallWindowSteps x,
       ss_revTimeMs := st_revTimeMs x, ss_unitReason := st_reason x\<rparr>"
proof (cases r)
  case None
  with assms show ?thesis
    by (auto simp: test_fold_def selfTestPollObserve_def Let_def split: if_splits)
next
  case (Some x)
  with assms that [of x] show ?thesis
    using test_after_invariant [where start = start and slot = slot and rs = rs]
    by (cases "replies rs")
      (auto simp: test_fold_def selfTestPollObserve_def Let_def selfTestReadingDiffers_iff split: if_splits)
qed


lemma phases_last:
  assumes "test_phases old new (xs @ [x])" "st_state x \<noteq> SELFTEST_STATE_RUNNING"
    "st_state old \<noteq> SELFTEST_STATE_RUNNING"
    "(\<exists>y\<in>set xs. st_state y = SELFTEST_STATE_RUNNING) \<or> x \<noteq> hd (xs @ [x])"
  shows "x = new"
proof -
  obtain i running k where split: "xs @ [x] = replicate i old @ running @ replicate k new"
    and running: "\<forall>x\<in>set running. st_state x = SELFTEST_STATE_RUNNING"
    using assms(1) by (auto simp: test_phases_def)
  show ?thesis
  proof (cases k)
    case (Suc m)
    then have "xs @ [x] = (replicate i old @ running @ replicate m new) @ [new]"
      using split by (simp add: replicate_append_same [symmetric])
    then show ?thesis by (metis last_snoc)
  next
    case 0
    show ?thesis
    proof (cases running rule: rev_exhaust)
      case Nil
      then have old: "\<forall>y\<in>set (xs @ [x]). y = old" unfolding split using 0 by simp
      then have "hd (xs @ [x]) = x" by (metis hd_in_set last_in_set snoc_eq_iff_butlast)
      then show ?thesis using old assms(3,4) by fastforce
    next
      case (snoc front y)
      with split 0 have "x = y" by (metis append_Nil2 append_assoc last_snoc replicate_0)
      then show ?thesis using running snoc assms(2) by simp
    qed
  qed
qed

text \<open>C23: A self-test result a row master accepts is the result of the test it started, never what the
  unit still answered from an earlier one, and the slot carries exactly its measurements.
\<close>

theorem self_test_result_is_this_tests:
  assumes "test_fold start slot (test_after start slot rs) (t, r) = (v, p', slot')"
    and "v \<in> {ST_Ok, ST_UnitFailed}"
    and "test_phases old new (replies (rs @ [(t, r)]))"
    and "st_state old \<noteq> SELFTEST_STATE_RUNNING"
  shows "r = Some new \<and> v = (if st_state new = SELFTEST_STATE_OK then ST_Ok else ST_UnitFailed)
    \<and> slot' = slot\<lparr>ss_stepsPerRev := st_stepsPerRev new, ss_hallWindowSteps := st_hallWindowSteps new,
         ss_revTimeMs := st_revTimeMs new, ss_unitReason := st_reason new\<rparr>"
proof -
  from accepted_is_fresh [OF assms(1,2)] obtain x where x: "r = Some x"
    "st_state x \<noteq> SELFTEST_STATE_RUNNING"
    "(\<exists>y\<in>set (replies rs). st_state y = SELFTEST_STATE_RUNNING) \<or> x \<noteq> hd (replies rs @ [x])"
    "v = (if st_state x = SELFTEST_STATE_OK then ST_Ok else ST_UnitFailed)"
    "slot' = slot\<lparr>ss_stepsPerRev := st_stepsPerRev x, ss_hallWindowSteps := st_hallWindowSteps x,
       ss_revTimeMs := st_revTimeMs x, ss_unitReason := st_reason x\<rparr>"
    by metis
  from phases_last [of old new "replies rs" x] assms(3,4) x(1-3) have "x = new"
    by (simp add: replies_snoc)
  with x show ?thesis by simp
qed

theorem self_test_result_is_this_tests_witness:
  "\<exists>old new running p' slot' slot.
     test_fold 0 slot (test_after 0 slot [(500, Some old), (1000, Some running), (1500, None)]) (2000, Some new)
       = (ST_Ok, p', slot') \<and> ss_stepsPerRev slot' = 2038 \<and> ss_unitReason slot' = 0"
proof -
  define old where "old = fresh_reading\<lparr>st_state := 3, st_reason := 1\<rparr>"
  define new where "new = fresh_reading\<lparr>st_state := 2, st_stepsPerRev := 2038\<rparr>"
  define running where "running = fresh_reading\<lparr>st_state := 1\<rparr>"
  define slot where "slot = wide_self_test"
  have "tp_sawRunning (test_after 0 slot [(500, Some old), (1000, Some running), (1500, None)])"
    by (simp add: test_after_invariant(3) replies_def List.map_filter_def running_def)
  then have "fst (test_fold 0 slot (test_after 0 slot [(500, Some old), (1000, Some running), (1500, None)])
      (2000, Some new)) = ST_Ok"
    by (simp add: test_fold_def selfTestPollObserve_def Let_def new_def)
  then obtain p' slot' where run:
    "test_fold 0 slot (test_after 0 slot [(500, Some old), (1000, Some running), (1500, None)]) (2000, Some new)
       = (ST_Ok, p', slot')"
    by (metis prod.collapse)
  have "replies ([(500, Some old), (1000, Some running), (1500, None)] @ [(2000, Some new)])
      = replicate 1 old @ [running] @ replicate 1 new"
    by (simp add: replies_def List.map_filter_def)
  moreover have "test_phases old new (replicate 1 old @ [running] @ replicate 1 new)"
    unfolding test_phases_def
    by (intro exI [of _ 1] exI [of _ "[running]"] conjI refl) (simp_all add: running_def)
  ultimately have "slot' = slot\<lparr>ss_stepsPerRev := st_stepsPerRev new, ss_hallWindowSteps := st_hallWindowSteps new,
         ss_revTimeMs := st_revTimeMs new, ss_unitReason := st_reason new\<rparr>"
    using self_test_result_is_this_tests [OF run, of old new] by (simp add: old_def fresh_reading_def)
  then have "ss_stepsPerRev slot' = 2038 \<and> ss_unitReason slot' = 0"
    by (simp add: new_def fresh_reading_def)
  with run show ?thesis by blast
qed

section \<open>The wait for a self-test is bounded\<close>

abbreviation poll_times :: "test_reading list \<Rightarrow> nat list" where
  "poll_times rs \<equiv> 0 # map fst rs"

definition polled_every :: "nat \<Rightarrow> test_reading list \<Rightarrow> bool" where
  "polled_every gap rs \<longleftrightarrow> successively (\<lambda>a b. a \<le> b \<and> b \<le> a + gap) (poll_times rs)"

definition still_pending :: "u32 \<Rightarrow> SelfTestSlot \<Rightarrow> test_reading list \<Rightarrow> bool" where
  "still_pending start slot rs \<longleftrightarrow>
     (\<forall>k<length rs. fst (test_fold start slot (test_after start slot (take k rs)) (rs ! k)) = ST_Pending)"

lemma polled_every_snoc:
  "polled_every gap (rs @ [r]) \<longleftrightarrow>
     polled_every gap rs \<and> last (poll_times rs) \<le> fst r \<and> fst r \<le> last (poll_times rs) + gap"
  using successively_append_iff [of "\<lambda>a b. a \<le> b \<and> b \<le> a + gap" "poll_times rs" "[fst r]"]
  by (auto simp: polled_every_def)

lemma still_pending_snoc:
  "still_pending start slot (rs @ [r]) \<longleftrightarrow>
     still_pending start slot rs \<and> fst (test_fold start slot (test_after start slot rs) r) = ST_Pending"
  by (auto simp: still_pending_def less_Suc_eq nth_append)

lemma pending_in_window:
  assumes "fst (test_fold start slot p (t, r)) = ST_Pending" "tp_windowStartMs p = start + of_nat s"
    "s \<le> t" "t < 2 ^ 32" "tp_sawRunning (fst (snd (test_fold start slot p (t, r)))) = tp_sawRunning p"
  shows "t < s + 45000"
proof -
  have "\<not> 45000 \<le> (start + of_nat t) - (start + of_nat s)"
    using assms(1,5) by (auto simp: test_fold_def selfTestPollObserve_def assms(2) Let_def
        split: option.splits if_splits)
  then show ?thesis
    using span_reached(2) [OF assms(3,4), of start] by simp
qed

lemma pending_bound:
  assumes "polled_every gap rs" "still_pending start slot rs" "last (poll_times rs) < 2 ^ 32"
  shows "\<exists>s. tp_windowStartMs (test_after start slot rs) = start + of_nat s \<and> s \<le> last (poll_times rs)
    \<and> (if tp_sawRunning (test_after start slot rs)
       then s < 45000 + gap \<and> last (poll_times rs) < s + 45000
       else s = 0 \<and> last (poll_times rs) < 45000)"
  using assms
proof (induction rs rule: rev_induct)
  case Nil
  show ?case
    by (rule exI [of _ 0]) (simp add: test_after_def selfTestPollBegin_def)
next
  case (snoc q rs)
  obtain t r where q: "q = (t, r)" by (cases q)
  let ?p = "test_after start slot rs"
  let ?p' = "fst (snd (test_fold start slot ?p (t, r)))"
  have step: "last (poll_times rs) \<le> t" "t \<le> last (poll_times rs) + gap" "t < 2 ^ 32"
    "fst (test_fold start slot ?p (t, r)) = ST_Pending"
    and IH: "\<exists>s. tp_windowStartMs ?p = start + of_nat s \<and> s \<le> last (poll_times rs)
    \<and> (if tp_sawRunning ?p then s < 45000 + gap \<and> last (poll_times rs) < s + 45000
       else s = 0 \<and> last (poll_times rs) < 45000)"
    using snoc by (auto simp: polled_every_snoc still_pending_snoc q)
  obtain s where s: "tp_windowStartMs ?p = start + of_nat s" "s \<le> last (poll_times rs)"
    "if tp_sawRunning ?p then s < 45000 + gap \<and> last (poll_times rs) < s + 45000
     else s = 0 \<and> last (poll_times rs) < 45000" using IH by blast
  note S = test_fold_state [of start slot ?p t r, unfolded Let_def]
  have after: "test_after start slot (rs @ [q]) = ?p'" "last (poll_times (rs @ [q])) = t"
    by (simp_all add: test_after_snoc q)
  show ?case
  proof (cases "tp_sawRunning ?p' = tp_sawRunning ?p")
    case True
    with S have window: "tp_windowStartMs ?p' = start + of_nat s" by (auto simp: s(1))
    have "s \<le> t" using s(2) step(1) by simp
    with pending_in_window [OF step(4) s(1) this step(3) True] s(3) window True show ?thesis
      unfolding after by (intro exI [of _ s]) (auto split: if_splits)
  next
    case False
    with S have "tp_sawRunning ?p'" "\<not> tp_sawRunning ?p" "tp_windowStartMs ?p' = start + of_nat t"
      by auto
    with s(3) step(2) show ?thesis
      unfolding after by (intro exI [of _ t]) auto
  qed
qed

text \<open>The wait for a self-test ends: polled at least every \<open>gap\<close> milliseconds, it is decided within
  90 s and one gap, the two windows of 45 s, whatever the unit answers.
\<close>

lemma self_test_wait_bounded:
  assumes "polled_every gap rs" "still_pending start slot rs" "last (poll_times rs) < 2 ^ 32"
  shows "last (poll_times rs) < 90000 + gap"
  using pending_bound [OF assms] by (auto split: if_splits)

theorem self_test_wait_bounded_witness:
  "\<exists>running slot. polled_every 500 [(500, Some running), (1000, None)]
     \<and> still_pending 7 slot [(500, Some running), (1000, None)]
     \<and> last (poll_times [(500, Some (running :: SelfTestResult)), (1000, None)]) < 90000 + 500"
proof -
  define running where "running = fresh_reading\<lparr>st_state := 1\<rparr>"
  have polled: "polled_every 500 [(500, Some running), (1000, None)]"
    by (simp add: polled_every_def)
  have pending: "still_pending 7 wide_self_test [(500, Some running), (1000, None)]"
    by (simp add: still_pending_def test_after_def test_fold_def selfTestPollObserve_def
        selfTestPollBegin_def Let_def running_def fresh_reading_def less_Suc_eq all_conj_distrib)
  show ?thesis
    using self_test_wait_bounded [OF polled pending] polled pending by auto
qed

end
