(* ===== verification/Reflash.thy ===== *)
theory Reflash
  imports Maintenance SF_Monad
begin

text \<open>
  The reflash job of a row, \<open>shared/ReflashPlan.h\<close>: who is flashed, the progress object a row master
  publishes, and the flash loop as one program over the hooks each row master supplies. The hooks are
  operations of the state monad over a world the row master chooses; \<open>reflashRunTargets\<close> changes the
  progress object in place and is given it and returns it here. \<open>REFLASH_BATCH_SIZE\<close> is set by each
  row master's build (4 on the Master, 2 on the Follower) and is a parameter.
\<close>

section \<open>Who is flashed\<close>

abbreviation (input) REFLASH_MAX_CONSECUTIVE_FAILURES :: nat where "REFLASH_MAX_CONSECUTIVE_FAILURES \<equiv> 2"

definition reflashShouldHalt :: "u8 \<Rightarrow> bool" where
  "reflashShouldHalt consecutiveFailures \<longleftrightarrow> unat consecutiveFailures \<ge> REFLASH_MAX_CONSECUTIVE_FAILURES"

definition reflashUnitProtocolMismatch :: "UnitFacts \<Rightarrow> bool" where
  "reflashUnitProtocolMismatch u \<longleftrightarrow>
     uf_protocolKnown u \<and> \<not> unitProtocolSupported (uf_protocolVersion u)"

definition reflashUnitNeedsReboot :: "UnitFacts \<Rightarrow> bool" where
  "reflashUnitNeedsReboot u \<longleftrightarrow> uf_state u = 1 \<and> (uf_fwStatus u \<noteq> 0 \<or> reflashUnitProtocolMismatch u)"

text \<open>The collectors all append \<open>(uint8_t)(base + i)\<close> for the slots that qualify, in slot order.\<close>

definition slot_addr :: "nat \<Rightarrow> nat \<Rightarrow> u8" where
  "slot_addr base i = of_nat (base + i)"

definition collect_slots :: "nat \<Rightarrow> (nat \<Rightarrow> UnitFacts \<Rightarrow> bool) \<Rightarrow> UnitFacts list \<Rightarrow> u8 list" where
  "collect_slots base P facts = [slot_addr base i. i \<leftarrow> [0..<length facts], P i (facts ! i)]"

definition reflashCollectRebootTargets :: "UnitFacts list \<Rightarrow> nat \<Rightarrow> u8 list" where
  "reflashCollectRebootTargets facts base = collect_slots base (\<lambda>i. reflashUnitNeedsReboot) facts"

definition reflashCollectOutdatedTargets :: "UnitFacts list \<Rightarrow> nat \<Rightarrow> u8 list" where
  "reflashCollectOutdatedTargets facts base =
     collect_slots base (\<lambda>i u. uf_state u = 1 \<and> (uf_fwStatus u = 1 \<or> reflashUnitProtocolMismatch u)) facts"

definition reflashCollectFlashTargets :: "UnitFacts list \<Rightarrow> nat \<Rightarrow> u8 list" where
  "reflashCollectFlashTargets facts base = collect_slots base (\<lambda>i u. uf_state u = 2) facts"

definition reflashPlanTargets :: "UnitFacts list \<Rightarrow> nat \<Rightarrow> u8 list \<Rightarrow> u8 list" where
  "reflashPlanTargets facts base sweep =
     collect_slots base (\<lambda>i u. uf_state u = 2 \<or> slot_addr base i \<in> set sweep) facts"

definition reflashFilterToAddress :: "u8 list \<Rightarrow> u8 \<Rightarrow> u8 list" where
  "reflashFilterToAddress addrs onlyAddr =
     (if onlyAddr = 0 then addrs else if onlyAddr \<in> set addrs then [onlyAddr] else [])"

definition reflashCollectForcedTarget :: "nat \<Rightarrow> nat \<Rightarrow> u8 \<Rightarrow> u8 list" where
  "reflashCollectForcedTarget maxUnits base onlyAddr =
     (if unat onlyAddr < base \<or> unat onlyAddr \<ge> base + maxUnits then [] else [onlyAddr])"

text \<open>A query value that is not understood is \<open>None\<close>.\<close>

definition reflashParseForce :: "string option \<Rightarrow> bool option" where
  "reflashParseForce raw =
     (case raw of None \<Rightarrow> None
      | Some s \<Rightarrow> if s = ''1'' \<or> s = ''true'' then Some True
                  else if s = ''0'' \<or> s = ''false'' then Some False else None)"

definition reflashAddressInRange :: "int \<Rightarrow> nat \<Rightarrow> nat \<Rightarrow> bool" where
  "reflashAddressInRange addr base maxUnits \<longleftrightarrow> addr \<ge> int base \<and> addr < int base + int maxUnits"

fun parse_digits :: "nat \<Rightarrow> int \<Rightarrow> string \<Rightarrow> (int \<times> nat) option" where
  "parse_digits n v [] = Some (v, n)"
| "parse_digits n v (c # cs) =
     (if (of_char c :: nat) < 48 \<or> (of_char c :: nat) > 57 \<or> n \<ge> 3 then None
      else parse_digits (Suc n) (v * 10 + (int (of_char c) - 48)) cs)"

definition reflashParseAddress :: "string option \<Rightarrow> int option" where
  "reflashParseAddress raw =
     (case raw of None \<Rightarrow> None
      | Some s \<Rightarrow>
          if s = [] then None
          else (case parse_digits 0 0 s of None \<Rightarrow> None
                | Some (v, n) \<Rightarrow> if n > 1 \<and> hd s = CHR ''0'' then None else Some v))"

section \<open>Progress\<close>

datatype ReflashState =
  RS_Idle | RS_Entering | RS_Flashing | RS_Settling | RS_BootUpdate | RS_Done | RS_Cancelled | RS_Failed

record ReflashProgress =
  rp_state :: ReflashState
  rp_total :: u8
  rp_done :: u8
  rp_failed :: u8
  rp_currentAddr :: u8
  rp_halted :: bool
  rp_bootDone :: u8
  rp_bootFailed :: u8

definition fresh_progress :: ReflashProgress where
  "fresh_progress = \<lparr>rp_state = RS_Idle, rp_total = 0, rp_done = 0, rp_failed = 0, rp_currentAddr = 0,
     rp_halted = False, rp_bootDone = 0, rp_bootFailed = 0\<rparr>"

definition reflashInProgress :: "ReflashProgress \<Rightarrow> bool" where
  "reflashInProgress p \<longleftrightarrow> rp_state p \<in> {RS_Entering, RS_Flashing, RS_Settling, RS_BootUpdate}"

definition reflashProgressBegin :: "ReflashProgress \<Rightarrow> int \<Rightarrow> ReflashProgress" where
  "reflashProgressBegin p planned = p\<lparr>rp_state := RS_Entering, rp_total := word_of_int planned, rp_done := 0,
     rp_failed := 0, rp_currentAddr := 0, rp_halted := False, rp_bootDone := 0, rp_bootFailed := 0\<rparr>"

definition reflashProgressUnitStart :: "ReflashProgress \<Rightarrow> u8 \<Rightarrow> ReflashProgress" where
  "reflashProgressUnitStart p addr = p\<lparr>rp_state := RS_Flashing, rp_currentAddr := addr\<rparr>"

definition reflashProgressUnitResult :: "ReflashProgress \<Rightarrow> bool \<Rightarrow> ReflashProgress" where
  "reflashProgressUnitResult p ok =
     (if ok then p\<lparr>rp_done := rp_done p + 1\<rparr> else p\<lparr>rp_failed := rp_failed p + 1\<rparr>)"

definition reflashProgressSettling :: "ReflashProgress \<Rightarrow> ReflashProgress" where
  "reflashProgressSettling p = p\<lparr>rp_state := RS_Settling, rp_currentAddr := 0\<rparr>"

definition reflashProgressFinish :: "ReflashProgress \<Rightarrow> bool \<Rightarrow> bool \<Rightarrow> ReflashProgress" where
  "reflashProgressFinish p cancelled halted =
     p\<lparr>rp_currentAddr := 0, rp_halted := (halted \<and> \<not> cancelled),
       rp_state := (if cancelled then RS_Cancelled
                    else if rp_failed p > 0 \<or> rp_bootFailed p > 0 then RS_Failed else RS_Done)\<rparr>"

fun reflashStateName :: "ReflashState \<Rightarrow> string" where
  "reflashStateName RS_Entering = ''entering''"
| "reflashStateName RS_Flashing = ''flashing''"
| "reflashStateName RS_Settling = ''settling''"
| "reflashStateName RS_BootUpdate = ''bootloader''"
| "reflashStateName RS_Done = ''done''"
| "reflashStateName RS_Cancelled = ''cancelled''"
| "reflashStateName RS_Failed = ''failed''"
| "reflashStateName RS_Idle = ''idle''"

definition classifyReflashOutcome :: "ReflashProgress \<Rightarrow> MaintGrade" where
  "classifyReflashOutcome p =
     \<lparr>mg_outcome = (if rp_state p = RS_Done then MO_Ok else MO_PostconditionFail), mg_reason = MR_None\<rparr>"

section \<open>The flash loop\<close>

datatype ReflashUnitOutcome = RU_Flashed | RU_Failed | RU_Stopped | RU_NotEntered

record ReflashRunEnd =
  re_cancelled :: bool
  re_halted :: bool
  re_flashed :: u8
  re_notEntered :: u8

definition fresh_end :: ReflashRunEnd where
  "fresh_end = \<lparr>re_cancelled = False, re_halted = False, re_flashed = 0, re_notEntered = 0\<rparr>"

record 'w reflash_hooks =
  rh_stopRequested :: "('w, bool) state"
  rh_imageFits :: "('w, bool) state"
  rh_inBootloader :: "u8 \<Rightarrow> ('w, bool) state"
  rh_enterBootloader :: "u8 \<Rightarrow> ('w, int) state"
  rh_pause :: "u32 \<Rightarrow> ('w, unit) state"
  rh_unitNotEntered :: "u8 \<Rightarrow> ('w, unit) state"
  rh_waitingForReset :: "u8 \<Rightarrow> ('w, unit) state"
  rh_unitRetried :: "u8 \<Rightarrow> nat \<Rightarrow> ('w, unit) state"
  rh_flashUnit :: "u8 \<Rightarrow> ('w, ReflashUnitOutcome) state"
  rh_unitFlashed :: "u8 \<Rightarrow> ('w, unit) state"
  rh_progressChanged :: "ReflashProgress \<Rightarrow> ('w, unit) state"
  rh_settleBatch :: "u8 list \<Rightarrow> ('w, unit) state"
  rh_runHalted :: "u8 \<Rightarrow> nat \<Rightarrow> ('w, unit) state"

abbreviation (input) TWIBOOT_STARTUP_MS :: u32 where "TWIBOOT_STARTUP_MS \<equiv> 500"
abbreviation (input) REFLASH_ENTER_PROBES :: nat where "REFLASH_ENTER_PROBES \<equiv> 4"
abbreviation (input) REFLASH_UNIT_ATTEMPTS :: nat where "REFLASH_UNIT_ATTEMPTS \<equiv> 3"

text \<open>The questions after an order to enter: \<open>n\<close> are left when one is asked.\<close>

fun enter_probes :: "'w reflash_hooks \<Rightarrow> u8 \<Rightarrow> nat \<Rightarrow> ('w, bool) state" where
  "enter_probes h addr 0 = State_Monad.return False"
| "enter_probes h addr (Suc n) = do {
     there \<leftarrow> rh_inBootloader h addr;
     if there then State_Monad.return True
     else if n = 0 then State_Monad.return False
     else do {
       rh_pause h 100;
       enter_probes h addr n
     }
   }"

definition reflashEnterUnit :: "'w reflash_hooks \<Rightarrow> u8 \<Rightarrow> ('w, bool) state" where
  "reflashEnterUnit h addr = do {
     there \<leftarrow> rh_inBootloader h addr;
     if there then State_Monad.return True
     else do {
       taken \<leftarrow> rh_enterBootloader h addr;
       if taken \<noteq> 0 then State_Monad.return False
       else do {
         rh_pause h TWIBOOT_STARTUP_MS;
         enter_probes h addr REFLASH_ENTER_PROBES
       }
     }
   }"

text \<open>One round of the wait for a reset by hand each \<open>REFLASH_HAND_RESET_GAP_MS\<close> (200), counted down.\<close>

fun hand_reset_rounds :: "'w reflash_hooks \<Rightarrow> u8 \<Rightarrow> nat \<Rightarrow> ('w, bool) state" where
  "hand_reset_rounds h addr 0 = State_Monad.return False"
| "hand_reset_rounds h addr (Suc n) = do {
     stop \<leftarrow> rh_stopRequested h;
     if stop then State_Monad.return False
     else do {
       rh_pause h 200;
       there \<leftarrow> rh_inBootloader h addr;
       if there then State_Monad.return True else hand_reset_rounds h addr n
     }
   }"

text \<open>\<open>for (waited = 0; waited < waitMs; waited += 200)\<close> makes \<open>waitMs / 200\<close> rounds, rounded up (the
  callers pass 0 or 30000).\<close>

definition reflashAwaitHandReset :: "'w reflash_hooks \<Rightarrow> u8 \<Rightarrow> nat \<Rightarrow> ('w, bool) state" where
  "reflashAwaitHandReset h addr waitMs = hand_reset_rounds h addr ((waitMs + 199) div 200)"

text \<open>The attempts after the first, while the unit keeps answering from its bootloader.\<close>

fun flash_retries :: "'w reflash_hooks \<Rightarrow> u8 \<Rightarrow> nat \<Rightarrow> nat \<Rightarrow> ReflashUnitOutcome \<Rightarrow> ('w, ReflashUnitOutcome) state" where
  "flash_retries h addr attempt 0 outcome = State_Monad.return outcome"
| "flash_retries h addr attempt (Suc n) outcome =
     (if outcome \<noteq> RU_Failed then State_Monad.return outcome
      else do {
        fits \<leftarrow> rh_imageFits h;
        if \<not> fits then State_Monad.return outcome
        else do {
          there \<leftarrow> rh_inBootloader h addr;
          if \<not> there then State_Monad.return outcome
          else do {
            rh_unitRetried h addr attempt;
            again \<leftarrow> rh_flashUnit h addr;
            flash_retries h addr (Suc attempt) n again
          }
        }
      })"

text \<open>Getting one unit there: the reading \<open>notEntered\<close>, and whether a stop ended the wait for a reset.\<close>

definition enter_for_flash :: "'w reflash_hooks \<Rightarrow> u8 \<Rightarrow> nat \<Rightarrow> ('w, bool \<times> bool) state" where
  "enter_for_flash h addr handResetWaitMs = do {
     fits \<leftarrow> rh_imageFits h;
     entered \<leftarrow> (if fits then reflashEnterUnit h addr else State_Monad.return True);
     if \<not> entered \<and> handResetWaitMs > 0
     then do {
       rh_waitingForReset h addr;
       there \<leftarrow> reflashAwaitHandReset h addr handResetWaitMs;
       if there then State_Monad.return (False, False)
       else do {
         stop \<leftarrow> rh_stopRequested h;
         State_Monad.return (True, stop)
       }
     }
     else State_Monad.return (\<not> entered, False)
   }"

text \<open>What the loop carries: the failures in a row, the batch, the end so far, the progress object.\<close>

record reflash_run =
  rr_failures :: u8
  rr_batch :: "u8 list"
  rr_end :: ReflashRunEnd
  rr_progress :: ReflashProgress

definition settle_now :: "'w reflash_hooks \<Rightarrow> reflash_run \<Rightarrow> ('w, reflash_run) state" where
  "settle_now h s = do {
     let p = reflashProgressSettling (rr_progress s);
     rh_progressChanged h p;
     rh_settleBatch h (rr_batch s);
     State_Monad.return (s\<lparr>rr_progress := p, rr_batch := []\<rparr>)
   }"

text \<open>What the answer to a unit's turn does to the loop; the flag says that the run ends here.\<close>

definition turn_result ::
  "'w reflash_hooks \<Rightarrow> u8 \<Rightarrow> reflash_run \<Rightarrow> ReflashUnitOutcome \<Rightarrow> ('w, bool \<times> reflash_run) state" where
  "turn_result h addr s outcome = do {
     let p = reflashProgressUnitResult (rr_progress s) (outcome = RU_Flashed);
     let s = s\<lparr>rr_progress := p\<rparr>;
     case outcome of
       RU_Stopped \<Rightarrow> do {
         rh_progressChanged h p;
         State_Monad.return (True, s\<lparr>rr_end := (rr_end s)\<lparr>re_cancelled := True\<rparr>\<rparr>)
       }
     | RU_Flashed \<Rightarrow> do {
         rh_unitFlashed h addr;
         rh_progressChanged h p;
         State_Monad.return (False, s\<lparr>rr_failures := 0, rr_batch := rr_batch s @ [addr],
           rr_end := (rr_end s)\<lparr>re_flashed := re_flashed (rr_end s) + 1\<rparr>\<rparr>)
       }
     | RU_NotEntered \<Rightarrow> do {
         rh_unitNotEntered h addr;
         rh_progressChanged h p;
         State_Monad.return (False,
           s\<lparr>rr_end := (rr_end s)\<lparr>re_notEntered := re_notEntered (rr_end s) + 1\<rparr>\<rparr>)
       }
     | RU_Failed \<Rightarrow> do {
         rh_progressChanged h p;
         State_Monad.return (False,
           s\<lparr>rr_failures := (if rr_failures s < 0xFF then rr_failures s + 1 else rr_failures s)\<rparr>)
       }
   }"

text \<open>One unit's turn up to its published result. A stop that ended the wait for a reset ends the run.\<close>

definition unit_turn :: "'w reflash_hooks \<Rightarrow> nat \<Rightarrow> u8 \<Rightarrow> reflash_run \<Rightarrow> ('w, bool \<times> reflash_run) state" where
  "unit_turn h handResetWaitMs addr s = do {
     let s = s\<lparr>rr_progress := reflashProgressUnitStart (rr_progress s) addr\<rparr>;
     rh_progressChanged h (rr_progress s);
     entry \<leftarrow> enter_for_flash h addr handResetWaitMs;
     if snd entry
     then do {
       let p = reflashProgressUnitResult (rr_progress s) False;
       rh_progressChanged h p;
       State_Monad.return (True, s\<lparr>rr_progress := p, rr_end := (rr_end s)\<lparr>re_cancelled := True\<rparr>\<rparr>)
     }
     else do {
       first \<leftarrow> (if fst entry then State_Monad.return RU_NotEntered else rh_flashUnit h addr);
       outcome \<leftarrow> flash_retries h addr 2 (REFLASH_UNIT_ATTEMPTS - 1) first;
       turn_result h addr s outcome
     }
   }"

fun reflash_loop :: "nat \<Rightarrow> 'w reflash_hooks \<Rightarrow> nat \<Rightarrow> u8 list \<Rightarrow> reflash_run \<Rightarrow> ('w, reflash_run) state" where
  "reflash_loop batchSize h handResetWaitMs [] s = State_Monad.return s"
| "reflash_loop batchSize h handResetWaitMs (addr # rest) s = do {
     stop \<leftarrow> rh_stopRequested h;
     if stop then State_Monad.return (s\<lparr>rr_end := (rr_end s)\<lparr>re_cancelled := True\<rparr>\<rparr>)
     else do {
       turn \<leftarrow> unit_turn h handResetWaitMs addr s;
       if fst turn then State_Monad.return (snd turn)
       else do {
         s' \<leftarrow> (if length (rr_batch (snd turn)) \<ge> batchSize then settle_now h (snd turn)
               else State_Monad.return (snd turn));
         if reflashShouldHalt (rr_failures s')
         then do {
           rh_runHalted h (rr_failures s') (length rest);
           State_Monad.return (s'\<lparr>rr_end := (rr_end s')\<lparr>re_halted := True\<rparr>\<rparr>)
         }
         else reflash_loop batchSize h handResetWaitMs rest s'
       }
     }
   }"

definition reflashRunTargets ::
  "nat \<Rightarrow> 'w reflash_hooks \<Rightarrow> u8 list \<Rightarrow> ReflashProgress \<Rightarrow> nat \<Rightarrow> ('w, ReflashRunEnd \<times> ReflashProgress) state" where
  "reflashRunTargets batchSize h targets progress handResetWaitMs = do {
     s \<leftarrow> reflash_loop batchSize h handResetWaitMs targets
            \<lparr>rr_failures = 0, rr_batch = [], rr_end = fresh_end, rr_progress = progress\<rparr>;
     s \<leftarrow> (if rr_batch s \<noteq> [] then settle_now h s else State_Monad.return s);
     State_Monad.return (rr_end s, rr_progress s)
   }"

definition reflash_text :: "ReflashProgress \<Rightarrow> string" where
  "reflash_text p =
     json_object
       [json_field ''state'' (quoted (reflashStateName (rp_state p))),
        json_field ''total'' (show_dec (unat (rp_total p))), json_field ''done'' (show_dec (unat (rp_done p))),
        json_field ''failed'' (show_dec (unat (rp_failed p))),
        json_field ''cur'' (show_dec (unat (rp_currentAddr p))),
        json_field ''halted'' (if rp_halted p then ''true'' else ''false''),
        json_field ''boot'' (show_dec (unat (rp_bootDone p))),
        json_field ''bootFailed'' (show_dec (unat (rp_bootFailed p)))]"

definition buildReflashJson :: "nat \<Rightarrow> ReflashProgress \<Rightarrow> string" where
  "buildReflashJson cap p = snprintf_text cap (reflash_text p)"

end
