(* ===== verification/SF_Log.thy ===== *)
theory SF_Log
  imports SF_Monad
begin

text \<open>
  Logs of what a program over a caller's hooks did. A recorded hook adds an event, made from its answer,
  to a log that rides beside the caller's own world, newest first. \<open>logs m Q past\<close> says that \<open>m\<close>, started
  with the log \<open>past\<close> in any world, ends with a result and a log that satisfy \<open>Q\<close>; the rules take a
  program apart, and a loop is an induction.
\<close>

section \<open>Recorded operations\<close>

definition noting :: "('w, 'a) state \<Rightarrow> ('a \<Rightarrow> 'e) \<Rightarrow> ('w \<times> 'e list, 'a) state" where
  "noting m e = State (\<lambda>x. let r = run_state m (fst x) in (fst r, (snd r, e (fst r) # snd x)))"

section \<open>Every run whatever the answers\<close>

definition logs :: "('w \<times> 'e list, 'a) state \<Rightarrow> ('a \<Rightarrow> 'e list \<Rightarrow> bool) \<Rightarrow> 'e list \<Rightarrow> bool" where
  "logs m Q past \<longleftrightarrow> triple (\<lambda>x. snd x = past) m (\<lambda>a x. Q a (snd x))"

named_theorems log_rules

lemma logs_bind [log_rules]: "logs m (\<lambda>a. logs (f a) Q) past \<Longrightarrow> logs (m \<bind> f) Q past"
  unfolding logs_def triple_def run_bind by blast

lemma logs_return [log_rules]: "Q a past \<Longrightarrow> logs (State_Monad.return a) Q past"
  by (simp add: logs_def triple_def)

lemma logs_if [log_rules]:
  "(c \<Longrightarrow> logs m Q past) \<Longrightarrow> (\<not> c \<Longrightarrow> logs n Q past) \<Longrightarrow> logs (if c then m else n) Q past"
  by simp

lemma logs_noting [log_rules]: "(\<And>a. Q a (e a # past)) \<Longrightarrow> logs (noting m e) Q past"
  by (simp add: logs_def triple_def noting_def Let_def)

lemma logs_post: "logs m Q past \<Longrightarrow> (\<And>a l. Q a l \<Longrightarrow> R a l) \<Longrightarrow> logs m R past"
  unfolding logs_def triple_def by blast

lemma logs_run: "logs m Q past \<Longrightarrow> Q (fst (run_state m (w, past))) (snd (snd (run_state m (w, past))))"
  by (simp add: logs_def triple_def)

section \<open>What a piece of a program adds to the log\<close>

definition extends :: "'e list \<Rightarrow> ('e list \<Rightarrow> bool) \<Rightarrow> 'e list \<Rightarrow> bool" where
  "extends past E l \<longleftrightarrow> (\<exists>evs. l = evs @ past \<and> E evs)"

lemma extendsI: "E evs \<Longrightarrow> extends past E (evs @ past)"
  by (auto simp: extends_def)

lemma extends_start: "E [] \<Longrightarrow> extends past E past" "E [e] \<Longrightarrow> extends past E (e # past)"
  "E [e, f] \<Longrightarrow> extends past E (e # f # past)"
  using extendsI [of E "[]" past] extendsI [of E "[e]" past] extendsI [of E "[e, f]" past] by simp_all

lemma extends_extends:
  "extends (before @ past) E l \<Longrightarrow> (\<And>evs. E evs \<Longrightarrow> E' (evs @ before)) \<Longrightarrow> extends past E' l"
  unfolding extends_def by (metis append_assoc)

text \<open>A piece of a turn that has added \<open>before\<close> to the log and goes on with a piece that is known.\<close>

lemma logs_extends:
  "logs m (\<lambda>a. extends (before @ past) (E a)) (before @ past) \<Longrightarrow>
     (\<And>a evs. E a evs \<Longrightarrow> E' a (evs @ before)) \<Longrightarrow> logs m (\<lambda>a. extends past (E' a)) (before @ past)"
  by (erule logs_post) (erule extends_extends)

lemma logs_then:
  "logs m (\<lambda>a. extends past (E a)) past \<Longrightarrow>
     (\<And>a evs. E a evs \<Longrightarrow> logs (f a) (\<lambda>b. extends past (E' b)) (evs @ past)) \<Longrightarrow>
     logs (m \<bind> f) (\<lambda>b. extends past (E' b)) past"
  by (rule logs_bind, erule logs_post) (auto simp: extends_def)

lemma logs_chain:
  "logs m (\<lambda>a. extends past (E a)) past' \<Longrightarrow> (\<And>a evs. E a evs \<Longrightarrow> logs (f a) Q (evs @ past)) \<Longrightarrow>
     logs (m \<bind> f) Q past'"
  by (rule logs_bind, erule logs_post) (auto simp: extends_def)

lemma logs_chain2:
  "logs (m \<bind> g) (\<lambda>a. extends past (E a)) past' \<Longrightarrow> (\<And>a evs. E a evs \<Longrightarrow> logs (f a) Q (evs @ past)) \<Longrightarrow>
     logs (do { x \<leftarrow> m; y \<leftarrow> g x; f y }) Q past'"
  using logs_chain [of "m \<bind> g" past E past' f Q] by (simp add: logs_def triple_def run_bind)

section \<open>Recording changes nothing\<close>

text \<open>\<open>m'\<close> is \<open>m\<close> with a log kept beside it.\<close>

definition shadows :: "('w \<times> 'e list, 'a) state \<Rightarrow> ('w, 'a) state \<Rightarrow> bool" where
  "shadows m' m \<longleftrightarrow> (\<forall>w l. fst (run_state m' (w, l)) = fst (run_state m w)
     \<and> fst (snd (run_state m' (w, l))) = snd (run_state m w))"

named_theorems shadow_rules

lemma shadows_noting [shadow_rules]: "shadows (noting m e) m"
  by (simp add: shadows_def noting_def Let_def)

lemma shadows_return [shadow_rules]: "shadows (State_Monad.return a) (State_Monad.return a)"
  by (simp add: shadows_def)

lemma shadows_bind [shadow_rules]:
  assumes "shadows m' m" "\<And>a. shadows (f' a) (f a)"
  shows "shadows (m' \<bind> f') (m \<bind> f)"
proof -
  have "fst (run_state (f' a) x) = fst (run_state (f a) (fst x))
      \<and> fst (snd (run_state (f' a) x)) = snd (run_state (f a) (fst x))" for a x
    using assms(2) [of a] by (cases x) (simp add: shadows_def)
  with assms(1) show ?thesis
    unfolding shadows_def run_bind by simp
qed

lemma shadows_if [shadow_rules]:
  "shadows m' m \<Longrightarrow> shadows n' n \<Longrightarrow> shadows (if c then m' else n') (if c then m else n)"
  by simp

lemma shadows_run: "shadows m' m \<Longrightarrow> fst (run_state m' (w, l)) = fst (run_state m w)"
  by (simp add: shadows_def)

end
