(* ===== verification/Reflash_Trace.thy ===== *)
theory Reflash_Trace
  imports Reflash SF_Log "HOL-Library.Sublist"
begin

text \<open>
  What the flash loop does to the units, whatever they answer. The hooks are recorded: a log of every
  call and its answer, newest first, rides beside the row master's own world. A run over arbitrary
  hooks is shown to be a run of a step relation on such logs; the properties of the loop follow from
  the relation by rule induction.
\<close>

section \<open>Recorded hooks\<close>

datatype reflash_event =
  E_Stop bool | E_Fits bool | E_Asked u8 bool | E_Ordered u8 int | E_Pause u32
  | E_NotEntered u8 | E_Waiting u8 | E_Retried u8 nat | E_Pages u8 ReflashUnitOutcome
  | E_Flashed u8 | E_Progress ReflashProgress | E_Settle "u8 list" | E_Halted u8 nat

type_synonym reflash_log = "reflash_event list"

definition recording :: "'w reflash_hooks \<Rightarrow> ('w \<times> reflash_log) reflash_hooks" where
  "recording h = \<lparr>
     rh_stopRequested = noting (rh_stopRequested h) E_Stop,
     rh_imageFits = noting (rh_imageFits h) E_Fits,
     rh_inBootloader = (\<lambda>a. noting (rh_inBootloader h a) (E_Asked a)),
     rh_enterBootloader = (\<lambda>a. noting (rh_enterBootloader h a) (E_Ordered a)),
     rh_pause = (\<lambda>ms. noting (rh_pause h ms) (\<lambda>_. E_Pause ms)),
     rh_unitNotEntered = (\<lambda>a. noting (rh_unitNotEntered h a) (\<lambda>_. E_NotEntered a)),
     rh_waitingForReset = (\<lambda>a. noting (rh_waitingForReset h a) (\<lambda>_. E_Waiting a)),
     rh_unitRetried = (\<lambda>a n. noting (rh_unitRetried h a n) (\<lambda>_. E_Retried a n)),
     rh_flashUnit = (\<lambda>a. noting (rh_flashUnit h a) (E_Pages a)),
     rh_unitFlashed = (\<lambda>a. noting (rh_unitFlashed h a) (\<lambda>_. E_Flashed a)),
     rh_progressChanged = (\<lambda>p. noting (rh_progressChanged h p) (\<lambda>_. E_Progress p)),
     rh_settleBatch = (\<lambda>b. noting (rh_settleBatch h b) (\<lambda>_. E_Settle b)),
     rh_runHalted = (\<lambda>f n. noting (rh_runHalted h f n) (\<lambda>_. E_Halted f n))\<rparr>"

text \<open>The log of a run of the loop, from an empty one.\<close>

definition run_log :: "nat \<Rightarrow> 'w reflash_hooks \<Rightarrow> u8 list \<Rightarrow> ReflashProgress \<Rightarrow> nat \<Rightarrow> 'w \<Rightarrow> reflash_log" where
  "run_log B h targets p waitMs w =
     snd (snd (run_state (reflashRunTargets B (recording h) targets p waitMs) (w, [])))"

definition run_end ::
  "nat \<Rightarrow> 'w reflash_hooks \<Rightarrow> u8 list \<Rightarrow> ReflashProgress \<Rightarrow> nat \<Rightarrow> 'w \<Rightarrow> ReflashRunEnd \<times> ReflashProgress" where
  "run_end B h targets p waitMs w = fst (run_state (reflashRunTargets B h targets p waitMs) w)"

lemma recording_simps [simp]:
  "rh_stopRequested (recording h) = noting (rh_stopRequested h) E_Stop"
  "rh_imageFits (recording h) = noting (rh_imageFits h) E_Fits"
  "rh_inBootloader (recording h) a = noting (rh_inBootloader h a) (E_Asked a)"
  "rh_enterBootloader (recording h) a = noting (rh_enterBootloader h a) (E_Ordered a)"
  "rh_pause (recording h) ms = noting (rh_pause h ms) (\<lambda>_. E_Pause ms)"
  "rh_unitNotEntered (recording h) a = noting (rh_unitNotEntered h a) (\<lambda>_. E_NotEntered a)"
  "rh_waitingForReset (recording h) a = noting (rh_waitingForReset h a) (\<lambda>_. E_Waiting a)"
  "rh_unitRetried (recording h) a n = noting (rh_unitRetried h a n) (\<lambda>_. E_Retried a n)"
  "rh_unitFlashed (recording h) a = noting (rh_unitFlashed h a) (\<lambda>_. E_Flashed a)"
  "rh_progressChanged (recording h) p = noting (rh_progressChanged h p) (\<lambda>_. E_Progress p)"
  "rh_settleBatch (recording h) xs = noting (rh_settleBatch h xs) (\<lambda>_. E_Settle xs)"
  "rh_runHalted (recording h) f n = noting (rh_runHalted h f n) (\<lambda>_. E_Halted f n)"
  by (simp_all add: recording_def)

lemma recorded_flash: "rh_flashUnit (recording h) a = noting (rh_flashUnit h a) (E_Pages a)"
  by (simp add: recording_def)

text \<open>The recorded run is the run of the hooks themselves.\<close>

lemma shadows_enter_probes: "shadows (enter_probes (recording h) addr n) (enter_probes h addr n)"
  by (induction n) (auto intro!: shadow_rules)

lemma shadows_hand_reset: "shadows (hand_reset_rounds (recording h) addr n) (hand_reset_rounds h addr n)"
  by (induction n) (auto intro!: shadow_rules)

lemma shadows_retries: "shadows (flash_retries (recording h) addr m n r) (flash_retries h addr m n r)"
  by (induction n arbitrary: m r) (auto intro!: shadow_rules simp: recorded_flash)

lemma shadows_turn: "shadows (unit_turn (recording h) waitMs addr s) (unit_turn h waitMs addr s)"
proof -
  have "shadows (turn_result (recording h) addr s r) (turn_result h addr s r)" for s r
    by (cases r) (auto intro!: shadow_rules simp: turn_result_def Let_def)
  then show ?thesis
    by (auto intro!: shadow_rules shadows_enter_probes shadows_hand_reset shadows_retries
        simp: unit_turn_def enter_for_flash_def reflashEnterUnit_def reflashAwaitHandReset_def recorded_flash Let_def)
qed

lemma shadows_settle: "shadows (settle_now (recording h) s) (settle_now h s)"
  by (auto intro!: shadow_rules simp: settle_now_def Let_def)

lemma shadows_loop: "shadows (reflash_loop B (recording h) waitMs targets s) (reflash_loop B h waitMs targets s)"
  by (induction targets arbitrary: s) (auto intro!: shadow_rules shadows_turn shadows_settle)

lemma run_end_recorded:
  "fst (run_state (reflashRunTargets B (recording h) targets p waitMs) (w, l)) = run_end B h targets p waitMs w"
  unfolding run_end_def
  by (rule shadows_run) (auto intro!: shadow_rules shadows_loop shadows_settle simp: reflashRunTargets_def)

text \<open>
  The one thing asked of the hooks: \<open>flashUnit\<close> itself does not answer \<open>NotEntered\<close> (the loop's own
  verdict on a unit it could not get into its bootloader).
\<close>

definition flash_answers :: "'w reflash_hooks \<Rightarrow> bool" where
  "flash_answers h \<longleftrightarrow> (\<forall>a. always (\<lambda>r. r \<noteq> RU_NotEntered) (rh_flashUnit h a))"

lemma logs_flash [log_rules]:
  assumes "flash_answers h" "\<And>r. r \<noteq> RU_NotEntered \<Longrightarrow> Q r (E_Pages a r # past)"
  shows "logs (rh_flashUnit (recording h) a) Q past"
  using assms by (simp add: recording_def noting_def flash_answers_def logs_def always_def triple_def Let_def)

section \<open>The step relation\<close>

text \<open>The calls that get one unit into its bootloader.\<close>

fun entering :: "u8 \<Rightarrow> reflash_event \<Rightarrow> bool" where
  "entering addr (E_Stop _) = True"
| "entering addr (E_Fits _) = True"
| "entering addr (E_Asked a _) = (a = addr)"
| "entering addr (E_Ordered a _) = (a = addr)"
| "entering addr (E_Pause _) = True"
| "entering addr (E_Waiting a) = (a = addr)"
| "entering addr _ = False"

text \<open>Whether the last answer to the question for a stop was yes.\<close>

fun told_stop :: "reflash_log \<Rightarrow> bool" where
  "told_stop [] = False"
| "told_stop (E_Stop stop # past) = stop"
| "told_stop (_ # past) = told_stop past"

lemma told_later: "\<not> told_stop before \<Longrightarrow> told_stop (evs @ before) = told_stop evs"
  by (induction evs rule: told_stop.induct) auto

text \<open>The page sequences sent to one unit in its turn, with the answer to the last.\<close>

inductive attempts :: "u8 \<Rightarrow> reflash_log \<Rightarrow> nat \<Rightarrow> ReflashUnitOutcome \<Rightarrow> bool" for addr where
  first: "list_all (entering addr) evs \<Longrightarrow> evs \<noteq> [] \<Longrightarrow> hd evs \<in> {E_Asked addr True, E_Fits False} \<Longrightarrow>
    \<not> told_stop evs \<Longrightarrow> r \<noteq> RU_NotEntered \<Longrightarrow> attempts addr (E_Pages addr r # evs) 1 r"
| again: "attempts addr evs n RU_Failed \<Longrightarrow> r \<noteq> RU_NotEntered \<Longrightarrow>
    attempts addr (E_Pages addr r # E_Retried addr m # E_Asked addr True # E_Fits True # evs) (Suc n) r"
| enough: "attempts addr evs n RU_Failed \<Longrightarrow> evs' \<in> {[E_Fits False], [E_Asked addr False, E_Fits True]} \<Longrightarrow>
    attempts addr (evs' @ evs) n RU_Failed"

text \<open>
  One unit's turn: whether the run ends with it, and what the loop carries before and after. The first
  entry is the start published for the unit, the last its result.
\<close>

definition turn_start :: "u8 \<Rightarrow> reflash_run \<Rightarrow> ReflashProgress" where
  "turn_start addr s = reflashProgressUnitStart (rr_progress s) addr"

definition turn_end :: "u8 \<Rightarrow> reflash_run \<Rightarrow> bool \<Rightarrow> ReflashProgress" where
  "turn_end addr s ok = reflashProgressUnitResult (turn_start addr s) ok"

inductive turn :: "u8 \<Rightarrow> reflash_run \<Rightarrow> reflash_log \<Rightarrow> bool \<Rightarrow> reflash_run \<Rightarrow> bool" for addr s where
  flashed: "attempts addr evs n RU_Flashed \<Longrightarrow> n \<le> 3 \<Longrightarrow>
    turn addr s (E_Progress (turn_end addr s True) # E_Flashed addr # evs @ [E_Progress (turn_start addr s)])
      False (s\<lparr>rr_progress := turn_end addr s True, rr_failures := 0, rr_batch := rr_batch s @ [addr],
        rr_end := (rr_end s)\<lparr>re_flashed := re_flashed (rr_end s) + 1\<rparr>\<rparr>)"
| failed: "attempts addr evs n RU_Failed \<Longrightarrow> n \<le> 3 \<Longrightarrow>
    turn addr s (E_Progress (turn_end addr s False) # evs @ [E_Progress (turn_start addr s)])
      False (s\<lparr>rr_progress := turn_end addr s False,
        rr_failures := (if rr_failures s < 0xFF then rr_failures s + 1 else rr_failures s)\<rparr>)"
| not_entered: "list_all (entering addr) evs \<Longrightarrow> \<not> told_stop evs \<Longrightarrow>
    turn addr s (E_Progress (turn_end addr s False) # E_NotEntered addr # evs @ [E_Progress (turn_start addr s)])
      False (s\<lparr>rr_progress := turn_end addr s False,
        rr_end := (rr_end s)\<lparr>re_notEntered := re_notEntered (rr_end s) + 1\<rparr>\<rparr>)"
| stopped: "list_all (entering addr) evs \<and> told_stop evs \<or> attempts addr evs n RU_Stopped \<and> n \<le> 3 \<Longrightarrow>
    turn addr s (E_Progress (turn_end addr s False) # evs @ [E_Progress (turn_start addr s)])
      True (s\<lparr>rr_progress := turn_end addr s False, rr_end := (rr_end s)\<lparr>re_cancelled := True\<rparr>\<rparr>)"

section \<open>The program runs the relation\<close>

definition entry :: "u8 \<Rightarrow> bool \<Rightarrow> bool \<Rightarrow> reflash_log \<Rightarrow> bool" where
  "entry addr unasked there evs \<longleftrightarrow>
     list_all (entering addr) evs \<and> (there \<longrightarrow> evs \<noteq> [] \<and> hd evs = E_Asked addr True)
     \<and> (unasked \<or> there \<longrightarrow> \<not> told_stop evs)"

lemma entry_later: "entry addr unasked there evs \<Longrightarrow> list_all (entering addr) before \<Longrightarrow> \<not> told_stop before \<Longrightarrow>
    entry addr unasked there (evs @ before)"
  by (auto simp: entry_def told_later)

lemma entry_asked: "entry addr unasked True (E_Asked addr True # evs) \<longleftrightarrow>
    list_all (entering addr) evs \<and> \<not> told_stop evs"
  by (simp add: entry_def)

lemma entry_false: "entry addr unasked False evs \<longleftrightarrow>
    list_all (entering addr) evs \<and> (unasked \<longrightarrow> \<not> told_stop evs)"
  by (simp add: entry_def)

lemma enter_probes_logs: "logs (enter_probes (recording h) addr n) (\<lambda>there. extends past (entry addr True there)) past"
proof (induction n arbitrary: past)
  case 0
  show ?case by (simp add: logs_return extends_start entry_false)
next
  case (Suc n)
  have later: "logs (enter_probes (recording h) addr n) (\<lambda>there. extends past (entry addr True there))
      ([E_Pause 100, E_Asked addr False] @ past)"
    by (rule logs_extends [OF Suc.IH]) (simp add: entry_later)
  show ?case
    unfolding enter_probes.simps recording_simps
    by (intro log_rules) (auto simp: extends_start entry_asked entry_false intro: later [simplified])
qed

lemma reflashEnterUnit_logs:
  "logs (reflashEnterUnit (recording h) addr) (\<lambda>there. extends past (entry addr True there)) past"
proof -
  have later: "logs (enter_probes (recording h) addr 4) (\<lambda>there. extends past (entry addr True there))
      ([E_Pause 500, E_Ordered addr taken, E_Asked addr False] @ past)" for taken
    by (rule logs_extends [OF enter_probes_logs]) (simp add: entry_later)
  show ?thesis
    unfolding reflashEnterUnit_def recording_simps
    by (intro log_rules) (auto simp: extends_start entry_asked entry_false intro: later [simplified])
qed

lemma hand_reset_logs:
  "logs (hand_reset_rounds (recording h) addr n) (\<lambda>there. extends past (entry addr False there)) past"
proof (induction n arbitrary: past)
  case 0
  show ?case by (simp add: logs_return extends_start entry_false)
next
  case (Suc n)
  have later: "logs (hand_reset_rounds (recording h) addr n) (\<lambda>there. extends past (entry addr False there))
      ([E_Asked addr False, E_Pause 200, E_Stop False] @ past)"
    by (rule logs_extends [OF Suc.IH]) (simp add: entry_later)
  have there: "extends past (entry addr False True) (E_Asked addr True # E_Pause 200 # E_Stop False # past)"
    using extendsI [of "entry addr False True" "[E_Asked addr True, E_Pause 200, E_Stop False]" past]
    by (simp add: entry_asked)
  show ?case
    unfolding hand_reset_rounds.simps recording_simps
    by (intro log_rules) (auto simp: extends_start entry_false there intro: later [simplified])
qed

lemma enter_for_flash_logs:
  "logs (enter_for_flash (recording h) addr waitMs)
     (\<lambda>r. extends past (\<lambda>evs. list_all (entering addr) evs \<and>
        (\<not> fst r \<longrightarrow> evs \<noteq> [] \<and> hd evs \<in> {E_Asked addr True, E_Fits False}) \<and> told_stop evs = snd r)) past"
    (is "logs _ (\<lambda>r. extends past (?E r)) past")
proof -
  have wait: "logs (do {
       there \<leftarrow> reflashAwaitHandReset (recording h) addr waitMs;
       if there then State_Monad.return (False, False)
       else do { stop \<leftarrow> rh_stopRequested (recording h); State_Monad.return (True, stop) } })
      (\<lambda>r. extends past (?E r)) past" for past
    unfolding reflashAwaitHandReset_def recording_simps
    by (rule logs_then [OF hand_reset_logs], intro log_rules)
      (auto simp: entry_def extends_def intro: exI [of _ "E_Stop _ # _"])
  have waiting: "logs (do {
       rh_waitingForReset (recording h) addr;
       there \<leftarrow> reflashAwaitHandReset (recording h) addr waitMs;
       if there then State_Monad.return (False, False)
       else do { stop \<leftarrow> rh_stopRequested (recording h); State_Monad.return (True, stop) } })
      (\<lambda>r. extends past (?E r)) past" for past
    by (rule logs_bind, simp, rule logs_noting)
      (use logs_extends [of _ "[E_Waiting addr]" past ?E ?E, OF wait] in \<open>auto simp: told_later\<close>)
  have enter: "logs (if fits then reflashEnterUnit (recording h) addr else State_Monad.return True)
      (\<lambda>there. extends (E_Fits fits # past) (\<lambda>evs. if fits then entry addr True there evs else there \<and> evs = []))
      (E_Fits fits # past)" for fits
    by (cases fits) (auto simp: reflashEnterUnit_logs extends_start intro: logs_return)
  show ?thesis
    unfolding enter_for_flash_def
  proof (rule logs_bind, simp only: recording_simps, rule logs_noting, rule logs_bind, rule logs_post [OF enter], rule logs_if)
    fix fits entered l
    assume l: "extends (E_Fits fits # past) (\<lambda>evs. if fits then entry addr True entered evs else entered \<and> evs = []) l"
    then obtain evs where evs: "l = evs @ E_Fits fits # past"
      "if fits then entry addr True entered evs else entered \<and> evs = []"
      by (auto simp: extends_def)
    show "logs (do {
       noting (rh_waitingForReset h addr) (\<lambda>_. E_Waiting addr);
       there \<leftarrow> reflashAwaitHandReset (recording h) addr waitMs;
       if there then State_Monad.return (False, False)
       else do { stop \<leftarrow> noting (rh_stopRequested h) E_Stop; State_Monad.return (True, stop) } })
      (\<lambda>r. extends past (?E r)) l"
      if "\<not> entered \<and> 0 < waitMs"
    proof -
      have "list_all (entering addr) (evs @ [E_Fits fits])" "\<not> told_stop (evs @ [E_Fits fits])"
        using evs(2) that by (auto simp: entry_def told_later split: if_splits)
      then show ?thesis
        using logs_extends [of _ "evs @ [E_Fits fits]" past ?E ?E, OF waiting [unfolded recording_simps]] evs(1)
        by (auto simp: told_later)
    qed
    show "logs (State_Monad.return (\<not> entered, False)) (\<lambda>r. extends past (?E r)) l"
      if "\<not> (\<not> entered \<and> 0 < waitMs)"
      using evs by (intro logs_return)
        (auto simp: extends_def entry_def told_later split: if_splits intro: exI [of _ "evs @ [E_Fits fits]"])
  qed
qed

lemma flash_retries_logs:
  assumes "flash_answers h"
  shows "attempts addr evs k r \<Longrightarrow>
    logs (flash_retries (recording h) addr m n r)
      (\<lambda>r. extends past (\<lambda>evs. \<exists>k' \<le> k + n. attempts addr evs k' r)) (evs @ past)"
proof (induction n arbitrary: evs k r m)
  case 0
  then show ?case
    by (auto intro!: logs_return extendsI)
next
  case (Suc n)
  show ?case
  proof (cases "r = RU_Failed")
    case False
    with Suc.prems show ?thesis
      by (auto intro!: logs_return extendsI exI [of _ k])
  next
    case True
    have failed: "attempts addr evs k RU_Failed" using Suc.prems True by simp
    have stays: "extends past (\<lambda>evs. \<exists>k' \<le> k + Suc n. attempts addr evs k' RU_Failed) (evs' @ evs @ past)"
      if "evs' \<in> {[E_Fits False], [E_Asked addr False, E_Fits True]}" for evs'
      using attempts.enough [OF failed that] by (auto simp: extends_def intro!: exI [of _ "evs' @ evs"] exI [of _ k])
    have go_on: "logs (flash_retries (recording h) addr (Suc m) n r')
        (\<lambda>r. extends past (\<lambda>evs. \<exists>k' \<le> k + Suc n. attempts addr evs k' r))
        (E_Pages addr r' # E_Retried addr m # E_Asked addr True # E_Fits True # evs @ past)"
      if "r' \<noteq> RU_NotEntered" for r'
      using Suc.IH [OF attempts.again [OF failed that], of "Suc m" m] by simp
    show ?thesis
      unfolding flash_retries.simps recording_simps True
      by (intro log_rules assms) (use stays [of "[E_Fits False]"] stays [of "[E_Asked addr False, E_Fits True]"]
          go_on in auto)
  qed
qed


lemma turn_extends: "turn addr s evs over s' \<Longrightarrow> extends past (\<lambda>evs. turn addr s evs over s') (evs @ past)"
  by (rule extendsI)

lemma turn_result_logs:
  assumes "if outcome = RU_NotEntered then list_all (entering addr) evs \<and> \<not> told_stop evs else \<exists>n\<le>3. attempts addr evs n outcome"
  shows "logs (turn_result (recording h) addr (s\<lparr>rr_progress := turn_start addr s\<rparr>) outcome)
    (\<lambda>r. extends past (\<lambda>evs. turn addr s evs (fst r) (snd r))) (evs @ E_Progress (turn_start addr s) # past)"
proof (cases outcome)
  case RU_Flashed
  with assms obtain n where "attempts addr evs n RU_Flashed" "n \<le> 3" by auto
  from turn_extends [where past = past, OF turn.flashed [OF this, where s = s]] RU_Flashed show ?thesis
    by (auto simp: turn_result_def turn_end_def Let_def intro!: log_rules)
next
  case RU_Failed
  with assms obtain n where "attempts addr evs n RU_Failed" "n \<le> 3" by auto
  from turn_extends [where past = past, OF turn.failed [OF this, where s = s]] RU_Failed show ?thesis
    by (auto simp: turn_result_def turn_end_def Let_def intro!: log_rules)
next
  case RU_Stopped
  with assms obtain n where "attempts addr evs n RU_Stopped" "n \<le> 3" by auto
  then have "list_all (entering addr) evs \<and> told_stop evs \<or> attempts addr evs n RU_Stopped \<and> n \<le> 3" by simp
  from turn_extends [where past = past, OF turn.stopped [OF this, where s = s]] RU_Stopped show ?thesis
    by (auto simp: turn_result_def turn_end_def Let_def intro!: log_rules)
next
  case RU_NotEntered
  with assms have "list_all (entering addr) evs" "\<not> told_stop evs" by simp_all
  from turn_extends [where past = past, OF turn.not_entered [OF this, where s = s]] RU_NotEntered show ?thesis
    by (auto simp: turn_result_def turn_end_def Let_def intro!: log_rules)
qed

lemma attempts_entered: "attempts addr evs n r \<Longrightarrow> r \<noteq> RU_NotEntered"
  by (induction rule: attempts.induct) auto

lemma unit_turn_logs:
  assumes "flash_answers h"
  shows "logs (unit_turn (recording h) waitMs addr s) (\<lambda>r. extends past (\<lambda>evs. turn addr s evs (fst r) (snd r))) past"
    (is "logs _ ?Q past")
  unfolding unit_turn_def Let_def
proof (rule logs_bind, simp only: recording_simps turn_start_def [symmetric] reflash_run.simps, rule logs_noting,
    rule logs_bind, rule logs_post [OF enter_for_flash_logs], rule logs_if)
  let ?s = "s\<lparr>rr_progress := turn_start addr s\<rparr>"
  fix entry :: "bool \<times> bool" and l
  assume "extends (E_Progress (rr_progress ?s) # past) (\<lambda>evs. list_all (entering addr) evs \<and>
      (\<not> fst entry \<longrightarrow> evs \<noteq> [] \<and> hd evs \<in> {E_Asked addr True, E_Fits False}) \<and> told_stop evs = snd entry) l"
  then obtain evs where l: "l = evs @ E_Progress (turn_start addr s) # past" and evs: "list_all (entering addr) evs"
    "\<not> fst entry \<Longrightarrow> evs \<noteq> [] \<and> hd evs \<in> {E_Asked addr True, E_Fits False}" "told_stop evs = snd entry"
    by (auto simp: extends_def)
  show "logs (do {
         noting (rh_progressChanged h (reflashProgressUnitResult (rr_progress ?s) False))
           (\<lambda>_. E_Progress (reflashProgressUnitResult (rr_progress ?s) False));
         State_Monad.return (True, ?s\<lparr>rr_progress := reflashProgressUnitResult (rr_progress ?s) False,
           rr_end := (rr_end ?s)\<lparr>re_cancelled := True\<rparr>\<rparr>) }) ?Q l" if "snd entry"
    using turn_extends [where past = past, OF turn.stopped [OF disjI1 [OF conjI [OF evs(1)]], where s = s]] evs(3) that
    by (auto simp: l turn_end_def intro!: log_rules)
  have outcome: "logs (do {
      first \<leftarrow> (if fst entry then State_Monad.return RU_NotEntered else rh_flashUnit (recording h) addr);
      flash_retries (recording h) addr 2 2 first })
     (\<lambda>r. extends (E_Progress (turn_start addr s) # past)
       (\<lambda>evs. if r = RU_NotEntered then list_all (entering addr) evs \<and> \<not> told_stop evs else \<exists>n\<le>3. attempts addr evs n r)) l"
    if unstopped: "\<not> snd entry"
  proof (cases "fst entry")
    case True
    then show ?thesis
      using evs unstopped by (auto simp: l numeral_2_eq_2 intro!: log_rules extendsI)
  next
    case False
    have retries: "logs (flash_retries (recording h) addr 2 2 r)
        (\<lambda>r. extends (E_Progress (turn_start addr s) # past)
          (\<lambda>evs. if r = RU_NotEntered then list_all (entering addr) evs \<and> \<not> told_stop evs else \<exists>n\<le>3. attempts addr evs n r))
        (E_Pages addr r # l)" if "r \<noteq> RU_NotEntered" for r
    proof (rule logs_post)
      have "attempts addr (E_Pages addr r # evs) 1 r"
        using attempts.first [OF evs(1) _ _ _ that] evs(2,3) False unstopped by blast
      from flash_retries_logs [OF assms this, of 2 2 "E_Progress (turn_start addr s) # past"]
      show "logs (flash_retries (recording h) addr 2 2 r)
          (\<lambda>r. extends (E_Progress (turn_start addr s) # past) (\<lambda>evs. \<exists>k'\<le>1 + 2. attempts addr evs k' r))
          (E_Pages addr r # l)" by (simp add: l)
    qed (use attempts_entered in \<open>fastforce simp: extends_def numeral_3_eq_3\<close>)
    show ?thesis
      by (simp only: False if_False, rule logs_bind, rule logs_flash [OF assms], rule retries)
  qed
  show "logs (do {
      first \<leftarrow> (if fst entry then State_Monad.return RU_NotEntered else rh_flashUnit (recording h) addr);
      outcome \<leftarrow> flash_retries (recording h) addr 2 (3 - 1) first;
      turn_result (recording h) addr ?s outcome }) ?Q l" if "\<not> snd entry"
    by (rule logs_chain2) (use outcome [OF that] in simp, rule turn_result_logs)
qed


section \<open>Whole runs\<close>

text \<open>The settling after a turn, with \<open>B\<close> the size of a batch.\<close>

definition settling :: "nat \<Rightarrow> reflash_run \<Rightarrow> reflash_log \<Rightarrow> reflash_run \<Rightarrow> bool" where
  "settling B s evs s' \<longleftrightarrow>
     (if length (rr_batch s) \<ge> B
      then evs = [E_Settle (rr_batch s), E_Progress (reflashProgressSettling (rr_progress s))]
        \<and> s' = s\<lparr>rr_progress := reflashProgressSettling (rr_progress s), rr_batch := []\<rparr>
      else evs = [] \<and> s' = s)"

inductive runs :: "nat \<Rightarrow> u8 list \<Rightarrow> reflash_run \<Rightarrow> reflash_log \<Rightarrow> reflash_run \<Rightarrow> bool" for B where
  finished: "runs B [] s [] s"
| stop: "runs B (addr # rest) s [E_Stop True] (s\<lparr>rr_end := (rr_end s)\<lparr>re_cancelled := True\<rparr>\<rparr>)"
| over: "turn addr s evs True s' \<Longrightarrow> runs B (addr # rest) s (evs @ [E_Stop False]) s'"
| halt: "turn addr s evs False s1 \<Longrightarrow> settling B s1 evs1 s2 \<Longrightarrow> reflashShouldHalt (rr_failures s2) \<Longrightarrow>
    runs B (addr # rest) s (E_Halted (rr_failures s2) (length rest) # evs1 @ evs @ [E_Stop False])
      (s2\<lparr>rr_end := (rr_end s2)\<lparr>re_halted := True\<rparr>\<rparr>)"
| go_on: "turn addr s evs False s1 \<Longrightarrow> settling B s1 evs1 s2 \<Longrightarrow> \<not> reflashShouldHalt (rr_failures s2) \<Longrightarrow>
    runs B rest s2 evs2 s3 \<Longrightarrow> runs B (addr # rest) s (evs2 @ evs1 @ evs @ [E_Stop False]) s3"

lemma settle_now_logs:
  "logs (settle_now (recording h) s)
     (\<lambda>s'. extends past (\<lambda>evs. evs = [E_Settle (rr_batch s), E_Progress (reflashProgressSettling (rr_progress s))]
        \<and> s' = s\<lparr>rr_progress := reflashProgressSettling (rr_progress s), rr_batch := []\<rparr>)) past"
  unfolding settle_now_def Let_def recording_simps
  by (intro log_rules) (simp add: extends_start)

lemma settling_logs:
  "logs (if length (rr_batch s) \<ge> B then settle_now (recording h) s else State_Monad.return s)
     (\<lambda>s'. extends past (\<lambda>evs. settling B s evs s')) past"
  using settle_now_logs [of h s past]
  by (auto simp: settling_def extends_start intro: logs_return)

lemma reflash_loop_logs:
  assumes "flash_answers h"
  shows "logs (reflash_loop B (recording h) waitMs targets s) (\<lambda>s'. extends past (\<lambda>evs. runs B targets s evs s')) past"
proof (induction targets arbitrary: s past)
  case Nil
  then show ?case
    by (auto intro!: logs_return extends_start runs.finished)
next
  case (Cons addr rest)
  let ?Q = "\<lambda>s'. extends past (\<lambda>evs. runs B (addr # rest) s evs s')"
  have later: "logs (if reflashShouldHalt (rr_failures s2)
      then do {
        noting (rh_runHalted h (rr_failures s2) (length rest)) (\<lambda>_. E_Halted (rr_failures s2) (length rest));
        State_Monad.return (s2\<lparr>rr_end := (rr_end s2)\<lparr>re_halted := True\<rparr>\<rparr>)
      }
      else reflash_loop B (recording h) waitMs rest s2) ?Q (evs1 @ evs @ E_Stop False # past)"
    if steps: "turn addr s evs False s1" "settling B s1 evs1 s2" for evs s1 evs1 s2
  proof (rule logs_if)
    assume "reflashShouldHalt (rr_failures s2)"
    from runs.halt [OF steps this, of rest]
    show "logs (do {
        noting (rh_runHalted h (rr_failures s2) (length rest)) (\<lambda>_. E_Halted (rr_failures s2) (length rest));
        State_Monad.return (s2\<lparr>rr_end := (rr_end s2)\<lparr>re_halted := True\<rparr>\<rparr>) }) ?Q (evs1 @ evs @ E_Stop False # past)"
      by (intro log_rules)
        (auto simp: extends_def intro: exI [of _ "E_Halted (rr_failures s2) (length rest) # evs1 @ evs @ [E_Stop False]"])
  next
    assume "\<not> reflashShouldHalt (rr_failures s2)"
    from runs.go_on [OF steps this]
    show "logs (reflash_loop B (recording h) waitMs rest s2) ?Q (evs1 @ evs @ E_Stop False # past)"
      by (intro logs_post [OF Cons.IH]) (auto simp: extends_def)
  qed
  have turned: "logs (if fst r then State_Monad.return (snd r)
       else do {
         s' \<leftarrow> (if length (rr_batch (snd r)) \<ge> B then settle_now (recording h) (snd r)
               else State_Monad.return (snd r));
         if reflashShouldHalt (rr_failures s')
         then do {
           noting (rh_runHalted h (rr_failures s') (length rest)) (\<lambda>_. E_Halted (rr_failures s') (length rest));
           State_Monad.return (s'\<lparr>rr_end := (rr_end s')\<lparr>re_halted := True\<rparr>\<rparr>)
         }
         else reflash_loop B (recording h) waitMs rest s' }) ?Q (evs @ E_Stop False # past)"
    if "turn addr s evs (fst r) (snd r)" for r evs
  proof (rule logs_if)
    assume "fst r"
    with that have "runs B (addr # rest) s (evs @ [E_Stop False]) (snd r)" by (simp add: runs.over)
    then show "logs (State_Monad.return (snd r)) ?Q (evs @ E_Stop False # past)"
      by (intro logs_return) (auto simp: extends_def intro: exI [of _ "evs @ [E_Stop False]"])
  next
    assume "\<not> fst r"
    with that have "turn addr s evs False (snd r)" by simp
    from later [OF this]
    show "logs (do {
         s' \<leftarrow> (if length (rr_batch (snd r)) \<ge> B then settle_now (recording h) (snd r)
               else State_Monad.return (snd r));
         if reflashShouldHalt (rr_failures s')
         then do {
           noting (rh_runHalted h (rr_failures s') (length rest)) (\<lambda>_. E_Halted (rr_failures s') (length rest));
           State_Monad.return (s'\<lparr>rr_end := (rr_end s')\<lparr>re_halted := True\<rparr>\<rparr>)
         }
         else reflash_loop B (recording h) waitMs rest s' }) ?Q (evs @ E_Stop False # past)"
      by (rule logs_chain [OF settling_logs])
  qed
  show ?case
    unfolding reflash_loop.simps recording_simps
  proof (rule logs_bind, rule logs_noting, rule logs_if)
    fix b
    show "logs (State_Monad.return (s\<lparr>rr_end := (rr_end s)\<lparr>re_cancelled := True\<rparr>\<rparr>)) ?Q (E_Stop b # past)" if b
      using that by (auto intro!: logs_return extends_start runs.stop)
    assume "\<not> b"
    then show "logs (do {
       turn \<leftarrow> unit_turn (recording h) waitMs addr s;
       if fst turn then State_Monad.return (snd turn)
       else do {
         s' \<leftarrow> (if length (rr_batch (snd turn)) \<ge> B then settle_now (recording h) (snd turn)
               else State_Monad.return (snd turn));
         if reflashShouldHalt (rr_failures s')
         then do {
           noting (rh_runHalted h (rr_failures s') (length rest)) (\<lambda>_. E_Halted (rr_failures s') (length rest));
           State_Monad.return (s'\<lparr>rr_end := (rr_end s')\<lparr>re_halted := True\<rparr>\<rparr>)
         }
         else reflash_loop B (recording h) waitMs rest s'
       } }) ?Q (E_Stop b # past)"
      by (intro logs_chain [OF unit_turn_logs [OF assms]]) (simp add: turned del: logs_if)
  qed
qed

definition run_start :: "ReflashProgress \<Rightarrow> reflash_run" where
  "run_start p = \<lparr>rr_failures = 0, rr_batch = [], rr_end = fresh_end, rr_progress = p\<rparr>"

lemma run_shape:
  assumes "flash_answers h"
  obtains evs s where "runs B targets (run_start p) evs s"
    "run_log B h targets p waitMs w =
       (if rr_batch s \<noteq> [] then [E_Settle (rr_batch s), E_Progress (reflashProgressSettling (rr_progress s))] else []) @ evs"
    "run_end B h targets p waitMs w =
       (rr_end s, if rr_batch s \<noteq> [] then reflashProgressSettling (rr_progress s) else rr_progress s)"
proof -
  let ?Q = "\<lambda>r l. \<exists>evs s. runs B targets (run_start p) evs s
    \<and> l = (if rr_batch s \<noteq> [] then [E_Settle (rr_batch s), E_Progress (reflashProgressSettling (rr_progress s))] else []) @ evs
    \<and> r = (rr_end s, if rr_batch s \<noteq> [] then reflashProgressSettling (rr_progress s) else rr_progress s)"
  have settle: "logs (do {
      s \<leftarrow> (if rr_batch s \<noteq> [] then settle_now (recording h) s else State_Monad.return s);
      State_Monad.return (rr_end s, rr_progress s) }) ?Q (evs @ [])"
    if "runs B targets (run_start p) evs s" for evs s
  proof (rule logs_bind, rule logs_if)
    assume "rr_batch s \<noteq> []"
    with that show "logs (settle_now (recording h) s)
        (\<lambda>s. logs (State_Monad.return (rr_end s, rr_progress s)) ?Q) (evs @ [])"
      by (intro logs_post [OF settle_now_logs] logs_return exI [of _ evs] exI [of _ s]) (auto simp: extends_def)
  next
    assume "\<not> rr_batch s \<noteq> []"
    with that show "logs (State_Monad.return s)
        (\<lambda>s. logs (State_Monad.return (rr_end s, rr_progress s)) ?Q) (evs @ [])"
      by (intro logs_return exI [of _ evs] exI [of _ s]) simp
  qed
  have "logs (reflashRunTargets B (recording h) targets p waitMs) ?Q []"
    unfolding reflashRunTargets_def run_start_def [symmetric]
    by (rule logs_chain [OF reflash_loop_logs [OF assms]], rule settle)
  from logs_run [OF this, of w] that show thesis
    unfolding run_log_def run_end_recorded by blast
qed

section \<open>Pages go only to units in their bootloader\<close>

fun asked_just_now :: "u8 \<Rightarrow> reflash_log \<Rightarrow> bool" where
  "asked_just_now a (E_Asked b there # past) = (there \<and> b = a)"
| "asked_just_now a (E_Retried b n # past) = asked_just_now a past"
| "asked_just_now a (E_Fits fits # past) = (\<not> fits)"
| "asked_just_now a _ = False"

fun guarded :: "reflash_log \<Rightarrow> bool" where
  "guarded [] = True"
| "guarded (E_Pages a r # past) = (asked_just_now a past \<and> guarded past)"
| "guarded (_ # past) = guarded past"

lemma entering_guarded: "list_all (entering addr) evs \<Longrightarrow> guarded (evs @ past) = guarded past"
proof (induction evs)
  case (Cons e evs)
  then show ?case by (cases e) auto
qed simp

lemma attempts_guarded: "attempts addr evs n r \<Longrightarrow> guarded past \<Longrightarrow> guarded (evs @ past)"
proof (induction rule: attempts.induct)
  case (first evs r)
  then have "guarded (evs @ past)" by (simp add: entering_guarded)
  with first show ?case by (cases evs) auto
qed auto

lemma turn_guarded: "turn addr s evs over s' \<Longrightarrow> guarded past \<Longrightarrow> guarded (evs @ past)"
  by (induction rule: turn.induct) (auto simp: attempts_guarded entering_guarded)

lemma settling_guarded: "settling B s evs s' \<Longrightarrow> guarded (evs @ past) = guarded past"
  by (auto simp: settling_def split: if_splits)

lemma runs_guarded: "runs B targets s evs s' \<Longrightarrow> guarded past \<Longrightarrow> guarded (evs @ past)"
  by (induction arbitrary: past rule: runs.induct) (auto simp: turn_guarded settling_guarded)

text \<open>C17: Whatever the units and the bus do, the flash loop sends pages to a unit only when the unit's last
  answer, just before, was that it is in its bootloader; the one exception is an image that does not
  fit, which \<open>flashUnit\<close> refuses without sending anything.
\<close>

theorem pages_only_in_bootloader:
  assumes "flash_answers h"
  shows "guarded (run_log B h targets p waitMs w)"
proof -
  obtain evs s where "runs B targets (run_start p) evs s"
    "run_log B h targets p waitMs w =
       (if rr_batch s \<noteq> [] then [E_Settle (rr_batch s), E_Progress (reflashProgressSettling (rr_progress s))] else []) @ evs"
    using run_shape [OF assms] by metis
  with runs_guarded [of B targets "run_start p" evs s "[]"] show ?thesis by simp
qed

section \<open>The supply is spared\<close>

text \<open>The units flashed and not yet waited for.\<close>

fun unsettled :: "reflash_log \<Rightarrow> u8 list" where
  "unsettled [] = []"
| "unsettled (E_Flashed a # past) = unsettled past @ [a]"
| "unsettled (E_Settle xs # past) = []"
| "unsettled (_ # past) = unsettled past"

fun throttled :: "nat \<Rightarrow> reflash_log \<Rightarrow> bool" where
  "throttled B [] = True"
| "throttled B (E_Settle xs # past) =
     (xs = unsettled past \<and> xs \<noteq> [] \<and> length xs \<le> B \<and> throttled B past)"
| "throttled B (E_Pages a r # past) = (length (unsettled past) < B \<and> throttled B past)"
| "throttled B (_ # past) = throttled B past"

lemma entering_throttled:
  "list_all (entering addr) evs \<Longrightarrow>
     throttled B (evs @ past) = throttled B past \<and> unsettled (evs @ past) = unsettled past"
proof (induction evs)
  case (Cons e evs)
  then show ?case by (cases e) auto
qed simp

lemma attempts_throttled:
  "attempts addr evs n r \<Longrightarrow> length (unsettled past) < B \<Longrightarrow>
     throttled B (evs @ past) = throttled B past \<and> unsettled (evs @ past) = unsettled past"
  by (induction rule: attempts.induct) (auto simp: entering_throttled)

lemma turn_throttled:
  "turn addr s evs over s' \<Longrightarrow> unsettled past = rr_batch s \<Longrightarrow> length (rr_batch s) < B \<Longrightarrow>
     throttled B (evs @ past) = throttled B past \<and> unsettled (evs @ past) = rr_batch s'
     \<and> length (rr_batch s') \<le> B"
  by (induction rule: turn.induct) (auto simp: entering_throttled attempts_throttled)

lemma settling_throttled:
  "settling B s evs s' \<Longrightarrow> unsettled past = rr_batch s \<Longrightarrow> length (rr_batch s) \<le> B \<Longrightarrow> 0 < B \<Longrightarrow>
     throttled B (evs @ past) = throttled B past \<and> unsettled (evs @ past) = rr_batch s'
     \<and> length (rr_batch s') < B"
  by (auto simp: settling_def split: if_splits)

lemma runs_throttled:
  "runs B targets s evs s' \<Longrightarrow> 0 < B \<Longrightarrow> unsettled past = rr_batch s \<Longrightarrow> length (rr_batch s) < B \<Longrightarrow>
     throttled B (evs @ past) = throttled B past \<and> unsettled (evs @ past) = rr_batch s'
     \<and> length (rr_batch s') \<le> B"
proof (induction arbitrary: past rule: runs.induct)
  case (over addr s evs s' rest)
  then show ?case
    using turn_throttled [of addr s evs True s' "E_Stop False # past" B] by simp
next
  case (halt addr s evs s1 evs1 s2 rest)
  then have turned: "throttled B (evs @ E_Stop False # past) = throttled B past
      \<and> unsettled (evs @ E_Stop False # past) = rr_batch s1 \<and> length (rr_batch s1) \<le> B"
    using turn_throttled [of addr s evs False s1 "E_Stop False # past" B] by simp
  with settling_throttled [OF halt(2), of "evs @ E_Stop False # past"] halt show ?case by simp
next
  case (go_on addr s evs s1 evs1 s2 rest evs2 s3)
  then have turned: "throttled B (evs @ E_Stop False # past) = throttled B past
      \<and> unsettled (evs @ E_Stop False # past) = rr_batch s1 \<and> length (rr_batch s1) \<le> B"
    using turn_throttled [of addr s evs False s1 "E_Stop False # past" B] by simp
  with settling_throttled [OF go_on(2), of "evs @ E_Stop False # past"] go_on
    go_on.IH [of "evs1 @ evs @ E_Stop False # past"] show ?case by simp
qed auto

text \<open>C18: The brown-out throttle holds on every run, also a halted or a cancelled one: no pages are sent
  while a full batch of flashed units has not been waited for, every wait is for exactly the units
  flashed since the one before, and no flashed unit is left without one.
\<close>

theorem flashing_throttled:
  assumes "flash_answers h" "0 < B"
  shows "throttled B (run_log B h targets p waitMs w) \<and> unsettled (run_log B h targets p waitMs w) = []"
proof -
  obtain evs s where "runs B targets (run_start p) evs s"
    "run_log B h targets p waitMs w =
       (if rr_batch s \<noteq> [] then [E_Settle (rr_batch s), E_Progress (reflashProgressSettling (rr_progress s))] else []) @ evs"
    using run_shape [OF assms(1)] by metis
  with runs_throttled [of B targets "run_start p" evs s "[]"] assms(2) show ?thesis
    by (simp add: run_start_def)
qed


section \<open>A bad image costs two units\<close>

fun sent_to :: "reflash_event \<Rightarrow> u8 set" where
  "sent_to (E_Pages a r) = {a}"
| "sent_to _ = {}"

definition pages_sent :: "reflash_log \<Rightarrow> u8 set" where
  "pages_sent l = \<Union> (sent_to ` set l)"

fun is_flashed :: "reflash_event \<Rightarrow> bool" where
  "is_flashed (E_Flashed a) = True"
| "is_flashed _ = False"

text \<open>The units sent pages since the last one that took the image.\<close>

definition since_success :: "reflash_log \<Rightarrow> u8 set" where
  "since_success past = pages_sent (takeWhile (\<lambda>e. \<not> is_flashed e) past)"

fun spared :: "reflash_log \<Rightarrow> bool" where
  "spared [] = True"
| "spared (e # past) = (card (since_success (e # past)) \<le> 2 \<and> spared past)"

lemma pages_sent_simps [simp]:
  "pages_sent [] = {}" "pages_sent (l @ m) = pages_sent l \<union> pages_sent m"
  "pages_sent (e # l) = sent_to e \<union> pages_sent l"
  by (auto simp: pages_sent_def)

lemma finite_pages_sent: "finite (pages_sent l)"
proof -
  have "finite (sent_to e)" for e by (cases e) auto
  then show ?thesis by (simp add: pages_sent_def)
qed

lemma since_success_cons:
  "since_success (e # past) = (if is_flashed e then {} else sent_to e \<union> since_success past)"
  by (simp add: since_success_def)

lemma finite_since: "finite (since_success l)"
  by (simp add: since_success_def finite_pages_sent)

text \<open>A piece of the log in which no unit takes the image and pages go to one unit only.\<close>

definition plain :: "u8 \<Rightarrow> reflash_log \<Rightarrow> bool" where
  "plain addr evs \<longleftrightarrow> list_all (\<lambda>e. \<not> is_flashed e \<and> sent_to e \<subseteq> {addr}) evs"

lemma plain_simps [simp]:
  "plain addr []" "plain addr (e # l) \<longleftrightarrow> (\<not> is_flashed e \<and> sent_to e \<subseteq> {addr}) \<and> plain addr l"
  "plain addr (l @ m) \<longleftrightarrow> plain addr l \<and> plain addr m"
  by (simp_all add: plain_def)

lemma plain_since: "plain addr evs \<Longrightarrow> since_success (evs @ past) = pages_sent evs \<union> since_success past"
  by (induction evs) (auto simp: since_success_cons)

lemma plain_sent: "plain addr evs \<Longrightarrow> pages_sent evs \<subseteq> {addr}"
  by (induction evs) auto

lemma plain_spared:
  "plain addr evs \<Longrightarrow> card (insert addr (since_success past)) \<le> 2 \<Longrightarrow> spared past \<Longrightarrow> spared (evs @ past)"
proof (induction evs)
  case (Cons e evs)
  have "since_success ((e # evs) @ past) \<subseteq> insert addr (since_success past)"
    using plain_sent [OF Cons.prems(1)] unfolding plain_since [OF Cons.prems(1)]
    by (intro Un_least) (simp_all only: insert_is_Un [of addr "since_success past"] le_supI1 Un_upper2)
  then have "card (since_success ((e # evs) @ past)) \<le> card (insert addr (since_success past))"
    by (intro card_mono) (simp_all add: finite_since)
  with Cons show ?case by simp
qed simp

lemma entering_plain: "list_all (entering addr) evs \<Longrightarrow> plain b evs \<and> pages_sent evs = {}"
proof (induction evs)
  case (Cons e evs)
  then show ?case by (cases e) auto
qed simp

lemma attempts_plain: "attempts addr evs n r \<Longrightarrow> plain addr evs \<and> pages_sent evs = {addr}"
proof (induction rule: attempts.induct)
  case (first evs r)
  from entering_plain [OF first(1), of addr] show ?case by simp
next
  case (again evs n r m)
  then show ?case by simp
next
  case (enough evs n evs')
  from enough(2) have "evs' = [E_Fits False] \<or> evs' = [E_Asked addr False, E_Fits True]" by blast
  then show ?case by (elim disjE) (simp_all add: enough.IH)
qed

text \<open>What the loop's counter means: it bounds the units sent pages since the last success.\<close>

definition counted :: "reflash_run \<Rightarrow> reflash_log \<Rightarrow> bool" where
  "counted s past \<longleftrightarrow> spared past \<and> card (since_success past) \<le> unat (rr_failures s)"

lemma card_insert_since: "card (since_success past) \<le> n \<Longrightarrow> card (insert addr (since_success past)) \<le> Suc n"
  using card_insert_le_m1 [of "Suc n" "since_success past" addr] by simp

lemma turn_counted:
  assumes "turn addr s evs over s'" "counted s past" "unat (rr_failures s) < 2"
  shows "counted s' (evs @ past) \<or> over \<and> spared (evs @ past)"
proof -
  have room: "card (insert addr (since_success past)) \<le> 2"
    using card_insert_since [of past 1 addr] assms(2,3) by (simp add: counted_def numeral_2_eq_2)
  have kept: "spared (evs @ past)" if "plain addr evs" for evs
    using plain_spared [OF that room] assms(2) by (simp add: counted_def)
  from assms(1) show ?thesis
  proof cases
    case (flashed evs n)
    with attempts_plain [OF flashed(4)] kept [of "evs @ [E_Progress (turn_start addr s)]"] show ?thesis
      by (auto simp: counted_def since_success_cons)
  next
    case (failed evs n)
    have "unat (rr_failures s + 1) = unat (rr_failures s) + 1" "rr_failures s < 0xFF"
      using assms(3) by (simp_all add: word_less_nat_alt unat_word_ariths)
    with failed attempts_plain [OF failed(4)] kept [of "evs @ [E_Progress (turn_start addr s)]"]
      card_insert_since [of past "unat (rr_failures s)" addr] assms(2) room show ?thesis
      by (auto simp: counted_def since_success_cons plain_since)
  next
    case (not_entered evs)
    with entering_plain [OF not_entered(4)] kept [of "evs @ [E_Progress (turn_start addr s)]"] assms(2,3) show ?thesis
      by (auto simp: counted_def since_success_cons plain_since [of addr])
  next
    case (stopped evs n)
    then have "plain addr evs" using entering_plain attempts_plain by blast
    with stopped kept [of "evs @ [E_Progress (turn_start addr s)]"] kept [of "_ # evs @ [_]"] show ?thesis
      by auto
  qed
qed


lemma settling_counted: "settling B s evs s' \<Longrightarrow> counted s past \<Longrightarrow> unat (rr_failures s) \<le> 2 \<Longrightarrow>
    counted s' (evs @ past) \<and> rr_failures s' = rr_failures s"
  by (auto simp: settling_def counted_def since_success_cons split: if_splits)

lemma turn_failures: "turn addr s evs over s' \<Longrightarrow> unat (rr_failures s) < 2 \<Longrightarrow> unat (rr_failures s') \<le> 2"
  by (induction rule: turn.induct) (auto simp: unat_word_ariths)

lemma turn_continues: "turn addr s evs False s' \<Longrightarrow> counted s past \<Longrightarrow> unat (rr_failures s) < 2 \<Longrightarrow>
    counted s' (evs @ past)"
  using turn_counted by blast

lemma counted_quiet [simp]:
  "counted s (E_Stop b # past) \<longleftrightarrow> card (since_success past) \<le> 2 \<and> counted s past"
  by (auto simp: counted_def since_success_cons)

lemma runs_spared:
  "runs B targets s evs s' \<Longrightarrow> counted s past \<Longrightarrow> unat (rr_failures s) < 2 \<Longrightarrow> spared (evs @ past)"
proof (induction arbitrary: past rule: runs.induct)
  case (stop addr rest s)
  then show ?case by (auto simp: counted_def since_success_cons)
next
  case (over addr s evs s' rest)
  then have "counted s (E_Stop False # past)" by (auto simp: counted_def since_success_cons)
  from turn_counted [OF over(1) this] over(3) show ?case by (auto simp: counted_def)
next
  case (halt addr s evs s1 evs1 s2 rest)
  then have "counted s (E_Stop False # past)" by (auto simp: counted_def since_success_cons)
  note turned = turn_continues [OF halt(1) this halt(5)] turn_failures [OF halt(1,5)]
  from settling_counted [OF halt(2) turned] turned(2) show ?case by (auto simp: counted_def since_success_cons)
next
  case (go_on addr s evs s1 evs1 s2 rest evs2 s3)
  then have "counted s (E_Stop False # past)" by (auto simp: counted_def since_success_cons)
  note turned = turn_continues [OF go_on(1) this go_on(7)] turn_failures [OF go_on(1,7)]
  from settling_counted [OF go_on(2) turned] go_on.IH [of "evs1 @ evs @ E_Stop False # past"] go_on(3)
  show ?case by (simp add: reflashShouldHalt_def)
next
  case (finished s)
  then show ?case by (simp add: counted_def)
qed

lemma spared_suffix: "spared (later @ past) \<Longrightarrow> card (since_success past) \<le> 2"
  by (induction later) (cases past; auto simp: since_success_def)+

text \<open>C19: A bad image costs two units: over any stretch of a run in which no unit takes the image, and
  whatever the hooks answer, pages are sent to at most two units.
\<close>

theorem bad_image_costs_two_units:
  assumes "flash_answers h"
    and "run_log B h targets p waitMs w = later @ stretch @ earlier"
    and "list_all (\<lambda>e. \<not> is_flashed e) stretch"
  shows "card (pages_sent stretch) \<le> 2"
proof -
  obtain evs s where run: "runs B targets (run_start p) evs s"
    "run_log B h targets p waitMs w =
       (if rr_batch s \<noteq> [] then [E_Settle (rr_batch s), E_Progress (reflashProgressSettling (rr_progress s))] else []) @ evs"
    using run_shape [OF assms(1)] by metis
  have "counted (run_start p) []" "unat (rr_failures (run_start p)) < 2"
    by (simp_all add: counted_def since_success_def run_start_def)
  from runs_spared [OF run(1) this] have "spared evs" by simp
  then have "spared (run_log B h targets p waitMs w)"
    using spared_suffix [of "[]" evs] by (auto simp: run(2) since_success_cons)
  then have "card (since_success (stretch @ earlier)) \<le> 2"
    unfolding assms(2) by (rule spared_suffix)
  moreover have "pages_sent stretch \<subseteq> since_success (stretch @ earlier)"
    using assms(3) by (induction stretch) (auto simp: since_success_cons)
  ultimately show ?thesis
    using card_mono [OF finite_since] le_trans by blast
qed

section \<open>What a run reports\<close>

fun flashed_units :: "reflash_log \<Rightarrow> u8 list" where
  "flashed_units [] = []"
| "flashed_units (E_Flashed a # past) = flashed_units past @ [a]"
| "flashed_units (_ # past) = flashed_units past"

lemma flashed_append: "flashed_units (l @ m) = flashed_units m @ flashed_units l"
proof (induction l)
  case (Cons e l)
  then show ?case by (cases e) auto
qed simp

lemma entering_unflashed: "list_all (entering addr) evs \<Longrightarrow> flashed_units evs = []"
proof (induction evs)
  case (Cons e evs)
  then show ?case by (cases e) auto
qed simp

lemma attempts_unflashed: "attempts addr evs n r \<Longrightarrow> flashed_units evs = []"
  by (induction rule: attempts.induct) (auto simp: entering_unflashed)

text \<open>
  The units a log shows at work: the one named by each progress object published while one is flashed,
  in order. Every unit is shown when its turn starts and when its result is in.
\<close>

fun shown_units :: "reflash_log \<Rightarrow> u8 list" where
  "shown_units [] = []"
| "shown_units (E_Progress p # past) =
     shown_units past @ (if rp_state p = RS_Flashing then [rp_currentAddr p] else [])"
| "shown_units (_ # past) = shown_units past"

definition twice :: "'a list \<Rightarrow> 'a list" where
  "twice xs = concat (map (\<lambda>x. [x, x]) xs)"

text \<open>A stop ends the run when the last question for one was answered yes, or the flash itself stopped.\<close>

definition stop_wanted :: "reflash_log \<Rightarrow> bool" where
  "stop_wanted log \<longleftrightarrow> told_stop log \<or> (\<exists>a. E_Pages a RU_Stopped \<in> set log)"

definition halt_told :: "reflash_log \<Rightarrow> bool" where
  "halt_told log \<longleftrightarrow> (\<exists>f m. E_Halted f m \<in> set log)"

lemma twice_simps [simp]: "twice [] = []" "twice (x # xs) = x # x # twice xs"
  by (simp_all add: twice_def)

lemma shown_append: "shown_units (l @ m) = shown_units m @ shown_units l"
proof (induction l)
  case (Cons e l)
  then show ?case by (cases e) auto
qed simp

lemma stop_later: "\<not> stop_wanted before \<Longrightarrow> stop_wanted (evs @ before) = stop_wanted evs"
  by (auto simp: stop_wanted_def told_later)

lemma halt_append [simp]: "halt_told (l @ m) \<longleftrightarrow> halt_told l \<or> halt_told m"
  by (auto simp: halt_told_def)

lemma entering_quiet:
  "list_all (entering addr) evs \<Longrightarrow> shown_units evs = [] \<and> \<not> halt_told evs \<and> stop_wanted evs = told_stop evs"
proof -
  assume evs: "list_all (entering addr) evs"
  then have "shown_units evs = []"
  proof (induction evs)
    case (Cons e evs)
    then show ?case by (cases e) auto
  qed simp
  moreover have "E_Pages a r \<notin> set evs" "E_Halted f m \<notin> set evs" for a r f m
    using evs by (auto simp: list_all_iff)
  ultimately show ?thesis by (simp add: halt_told_def stop_wanted_def)
qed

lemma attempts_quiet:
  "attempts addr evs n r \<Longrightarrow> shown_units evs = [] \<and> \<not> halt_told evs \<and> stop_wanted evs = (r = RU_Stopped)
     \<and> \<not> told_stop evs"
proof (induction rule: attempts.induct)
  case (first evs r)
  with entering_quiet [OF first(1)] show ?case by (auto simp: halt_told_def stop_wanted_def)
qed (auto simp: halt_told_def stop_wanted_def)

lemma turn_shows:
  assumes "turn addr s evs over s'"
  shows "shown_units evs = [addr, addr]" "stop_wanted evs = over" "\<not> halt_told evs"
    "rp_total (rr_progress s') = rp_total (rr_progress s)"
proof -
  have marks: "stop_wanted (E_Progress p # l) = stop_wanted l" "stop_wanted (E_Flashed a # l) = stop_wanted l"
    "stop_wanted (E_NotEntered a # l) = stop_wanted l" "stop_wanted (l @ [E_Progress p]) = stop_wanted l"
    "halt_told (E_Progress p # l) = halt_told l" "halt_told (E_Flashed a # l) = halt_told l"
    "halt_told (E_NotEntered a # l) = halt_told l" for p a l
    by (auto simp: stop_wanted_def halt_told_def told_later)
  have nothing: "\<not> halt_told []" by (simp add: halt_told_def)
  have ends: "rp_state (turn_end addr s ok) = RS_Flashing" "rp_currentAddr (turn_end addr s ok) = addr"
    "rp_total (turn_end addr s ok) = rp_total (rr_progress s)"
    "rp_state (turn_start addr s) = RS_Flashing" "rp_currentAddr (turn_start addr s) = addr" for ok
    by (simp_all add: turn_end_def turn_start_def reflashProgressUnitResult_def reflashProgressUnitStart_def)
  show "shown_units evs = [addr, addr]"
    using assms by (induction rule: turn.induct) (auto simp: shown_append ends entering_quiet attempts_quiet)
  show "stop_wanted evs = over"
    using assms by (induction rule: turn.induct) (auto simp: marks entering_quiet attempts_quiet)
  show "\<not> halt_told evs"
    using assms by (induction rule: turn.induct) (auto simp: marks nothing entering_quiet attempts_quiet)
  show "rp_total (rr_progress s') = rp_total (rr_progress s)"
    using assms by (induction rule: turn.induct) (auto simp: ends)
qed

lemma settling_shows:
  assumes "settling B s evs s'"
  shows "shown_units evs = []" "\<not> stop_wanted evs" "\<not> halt_told evs"
    "rp_total (rr_progress s') = rp_total (rr_progress s)"
  using assms by (auto simp: settling_def stop_wanted_def halt_told_def reflashProgressSettling_def split: if_splits)

lemma runs_total: "runs B targets s evs s' \<Longrightarrow> rp_total (rr_progress s') = rp_total (rr_progress s)"
  by (induction rule: runs.induct) (auto simp: turn_shows settling_shows)

text \<open>The books of the loop: the counters say how many units were flashed and how many were not.\<close>

definition books :: "reflash_run \<Rightarrow> nat \<Rightarrow> nat \<Rightarrow> bool" where
  "books s good bad \<longleftrightarrow>
     rp_done (rr_progress s) = of_nat good \<and> rp_failed (rr_progress s) = of_nat bad
     \<and> re_flashed (rr_end s) = of_nat good \<and> rp_bootFailed (rr_progress s) = 0"

lemma turn_books:
  assumes "turn addr s evs over s'" "books s good bad"
  shows "\<exists>ok. flashed_units evs = (if ok then [addr] else [])
      \<and> books s' (if ok then Suc good else good) (if ok then bad else Suc bad)
      \<and> re_halted (rr_end s') = re_halted (rr_end s)
      \<and> (re_cancelled (rr_end s') \<longleftrightarrow> over \<or> re_cancelled (rr_end s))
      \<and> (over \<longrightarrow> \<not> ok)
      \<and> (rr_failures s' = 0 \<or> rr_failures s' = rr_failures s \<or> \<not> ok \<and> rr_failures s' = rr_failures s + 1)"
  using assms
proof (induction rule: turn.induct)
  case (flashed evs n)
  then show ?case
    by (intro exI [of _ True])
      (auto simp: flashed_append attempts_unflashed books_def turn_end_def turn_start_def
        reflashProgressUnitResult_def reflashProgressUnitStart_def)
next
  case (failed evs n)
  then show ?case
    by (intro exI [of _ False])
      (auto simp: flashed_append attempts_unflashed books_def turn_end_def turn_start_def
        reflashProgressUnitResult_def reflashProgressUnitStart_def)
next
  case (not_entered evs)
  then show ?case
    by (intro exI [of _ False])
      (auto simp: flashed_append entering_unflashed books_def turn_end_def turn_start_def
        reflashProgressUnitResult_def reflashProgressUnitStart_def)
next
  case (stopped evs n)
  then show ?case
    by (intro exI [of _ False])
      (auto simp: flashed_append entering_unflashed attempts_unflashed books_def turn_end_def turn_start_def
        reflashProgressUnitResult_def reflashProgressUnitStart_def)
qed

lemma settling_books:
  "settling B s evs s' \<Longrightarrow> books s good bad \<Longrightarrow> flashed_units evs = [] \<and> books s' good bad
     \<and> rr_end s' = rr_end s \<and> rr_failures s' = rr_failures s"
  by (auto simp: settling_def books_def reflashProgressSettling_def split: if_splits)

text \<open>
  What a run over \<open>targets\<close> leaves behind once \<open>k\<close> of them have had a turn and the failures have gone from
  \<open>bad\<close> to \<open>bad'\<close>.
\<close>

definition accounts :: "u8 list \<Rightarrow> reflash_log \<Rightarrow> nat \<Rightarrow> nat \<Rightarrow> nat \<Rightarrow> ReflashRunEnd \<Rightarrow> bool" where
  "accounts targets evs k bad bad' e \<longleftrightarrow>
     k \<le> length targets \<and> shown_units evs = twice (take k targets)
     \<and> subseq (flashed_units evs) (take k targets) \<and> bad \<le> bad'
     \<and> length (flashed_units evs) + (bad' - bad) = k
     \<and> (\<not> re_cancelled e \<and> \<not> re_halted e \<longrightarrow> k = length targets)
     \<and> (re_cancelled e \<longrightarrow> \<not> re_halted e \<and> length (flashed_units evs) < length targets)
     \<and> (re_halted e \<longrightarrow> 2 \<le> bad')
     \<and> re_cancelled e = stop_wanted evs \<and> re_halted e = halt_told evs"

definition running :: "reflash_run \<Rightarrow> nat \<Rightarrow> bool" where
  "running s bad \<longleftrightarrow> \<not> re_cancelled (rr_end s) \<and> \<not> re_halted (rr_end s) \<and> unat (rr_failures s) \<le> bad"

lemma turn_accounts:
  assumes "turn addr s evs over s'" "books s good bad" "running s bad" "unat (rr_failures s) < 2"
  obtains ok where "flashed_units evs = (if ok then [addr] else [])"
    "books s' (if ok then Suc good else good) (if ok then bad else Suc bad)"
    "re_cancelled (rr_end s') = over" "\<not> re_halted (rr_end s')" "over \<longrightarrow> \<not> ok"
    "unat (rr_failures s') \<le> (if ok then bad else Suc bad)"
proof -
  from turn_books [OF assms(1,2)] obtain ok where ok: "flashed_units evs = (if ok then [addr] else [])"
    "books s' (if ok then Suc good else good) (if ok then bad else Suc bad)"
    "re_halted (rr_end s') = re_halted (rr_end s)"
    "re_cancelled (rr_end s') \<longleftrightarrow> over \<or> re_cancelled (rr_end s)" "over \<longrightarrow> \<not> ok"
    "rr_failures s' = 0 \<or> rr_failures s' = rr_failures s \<or> \<not> ok \<and> rr_failures s' = rr_failures s + 1"
    by blast
  have "unat (rr_failures s + 1) = Suc (unat (rr_failures s))"
    using assms(4) by (simp add: unat_word_ariths)
  with ok assms(3) have "unat (rr_failures s') \<le> (if ok then bad else Suc bad)"
    by (auto simp: running_def)
  with ok assms(3) that show thesis by (auto simp: running_def)
qed

lemma marks_of_the_loop:
  "stop_wanted (evs @ [E_Stop False]) = stop_wanted evs" "stop_wanted (E_Halted f m # evs) = stop_wanted evs"
  "\<not> stop_wanted []" "\<not> halt_told []" "stop_wanted [E_Stop True]" "\<not> halt_told [E_Stop b]"
  "halt_told (E_Halted f m # evs)"
  by (auto simp: stop_wanted_def halt_told_def told_later)

lemma accounts_step:
  assumes "accounts rest later k (if ok then bad else Suc bad) bad' e"
    and "flashed_units log = (if ok then [addr] else []) @ flashed_units later"
    and "shown_units log = addr # addr # shown_units later"
    and "stop_wanted log = stop_wanted later" "halt_told log = halt_told later"
  shows "accounts (addr # rest) log (Suc k) bad bad' e"
proof -
  have "subseq (flashed_units log) (take (Suc k) (addr # rest))"
    using assms(1,2) by (auto simp: accounts_def)
  moreover have "length (flashed_units log) + (bad' - bad) = Suc k" "bad \<le> bad'"
    using assms(1,2) by (auto simp: accounts_def split: if_splits)
  ultimately show ?thesis
    unfolding accounts_def using assms by (simp add: accounts_def split: if_splits)
qed

lemma runs_accounts:
  "runs B targets s evs s' \<Longrightarrow> books s good bad \<Longrightarrow> running s bad \<Longrightarrow> unat (rr_failures s) < 2 \<Longrightarrow>
     \<exists>k bad'. books s' (good + length (flashed_units evs)) bad' \<and> accounts targets evs k bad bad' (rr_end s')"
proof (induction arbitrary: good bad rule: runs.induct)
  case (finished s)
  then show ?case
    by (intro exI [of _ 0] exI [of _ bad]) (auto simp: accounts_def running_def marks_of_the_loop)
next
  case (stop addr rest s)
  then show ?case
    by (intro exI [of _ 0] exI [of _ bad]) (auto simp: accounts_def running_def books_def marks_of_the_loop)
next
  case (over addr s evs s' rest)
  from turn_accounts [OF over] obtain ok where "flashed_units evs = (if ok then [addr] else [])"
    "books s' (if ok then Suc good else good) (if ok then bad else Suc bad)"
    "re_cancelled (rr_end s')" "\<not> re_halted (rr_end s')" "\<not> ok" by (metis (full_types))
  with turn_shows [OF over(1)] show ?case
    by (intro exI [of _ 1] exI [of _ "Suc bad"])
      (auto simp: accounts_def flashed_append shown_append marks_of_the_loop)
next
  case (halt addr s evs s1 evs1 s2 rest)
  from turn_accounts [OF halt(1,4-6)] obtain ok where ok: "flashed_units evs = (if ok then [addr] else [])"
    "books s1 (if ok then Suc good else good) (if ok then bad else Suc bad)"
    "\<not> re_cancelled (rr_end s1)" "\<not> re_halted (rr_end s1)"
    "unat (rr_failures s1) \<le> (if ok then bad else Suc bad)" by metis
  from turn_shows [OF halt(1)] settling_shows [OF halt(2)] have shown:
    "shown_units (E_Halted (rr_failures s2) (length rest) # evs1 @ evs @ [E_Stop False]) = [addr, addr]"
    "\<not> stop_wanted (E_Halted (rr_failures s2) (length rest) # evs1 @ evs @ [E_Stop False])"
    by (auto simp: shown_append marks_of_the_loop stop_later)
  from settling_books [OF halt(2) ok(2)] ok halt(3) shown show ?case
    by (intro exI [of _ 1] exI [of _ "if ok then bad else Suc bad"])
      (auto simp: accounts_def flashed_append books_def reflashShouldHalt_def marks_of_the_loop)
next
  case (go_on addr s evs s1 evs1 s2 rest evs2 s3)
  from turn_accounts [OF go_on(1,6-8)] obtain ok where ok: "flashed_units evs = (if ok then [addr] else [])"
    "books s1 (if ok then Suc good else good) (if ok then bad else Suc bad)"
    "\<not> re_cancelled (rr_end s1)" "\<not> re_halted (rr_end s1)"
    "unat (rr_failures s1) \<le> (if ok then bad else Suc bad)" by metis
  note settled = settling_books [OF go_on(2) ok(2)]
  from turn_shows [OF go_on(1)] settling_shows [OF go_on(2)] have shown:
    "shown_units (evs2 @ evs1 @ evs @ [E_Stop False]) = addr # addr # shown_units evs2"
    "stop_wanted (evs2 @ evs1 @ evs @ [E_Stop False]) = stop_wanted evs2"
    "halt_told (evs2 @ evs1 @ evs @ [E_Stop False]) = halt_told evs2"
    by (auto simp: shown_append marks_of_the_loop stop_later)
  have "running s2 (if ok then bad else Suc bad)" "unat (rr_failures s2) < 2"
    using settled ok go_on(3) by (simp_all add: running_def reflashShouldHalt_def)
  from go_on.IH [OF conjunct1 [OF conjunct2 [OF settled]] this] obtain k bad' where
    "books s3 ((if ok then Suc good else good) + length (flashed_units evs2)) bad'"
    "accounts rest evs2 k (if ok then bad else Suc bad) bad' (rr_end s3)" by blast
  with ok settled shown show ?case
    by (intro exI [of _ "Suc k"] exI [of _ bad'] conjI accounts_step [where ok = ok])
      (auto simp: flashed_append)
qed

text \<open>C20: What a finished run reports is what happened. The published progress names the first \<open>k\<close> units of
  the plan, in its order and each at the start and at the end of its turn, and no other; \<open>done\<close> counts
  those of them that took the image, \<open>failed\<close> all the others of the \<open>k\<close>, and the total is the number the
  job began with. The run counts as cancelled exactly when the last question for a stop was answered
  yes or a flash was stopped, and as halted exactly when the halt was announced, which has at least two
  failures behind it; otherwise the \<open>k\<close> units are the whole plan. The job then ends as cancelled if the
  run was, as failed if any unit that had its turn did not take the image, and as done otherwise, which
  is exactly when every planned unit took the image; and it ends marked as halted when the run was
  halted.
\<close>

theorem reflash_reports_truth:
  assumes "flash_answers h" "length targets < 256"
    and "run_end B h targets (reflashProgressBegin p n) waitMs w = (e, p')"
    and "log = run_log B h targets (reflashProgressBegin p n) waitMs w"
    and "final = reflashProgressFinish p' (re_cancelled e) (re_halted e)"
  shows "\<exists>k \<le> length targets.
      shown_units log = twice (take k targets)
    \<and> subseq (flashed_units log) (take k targets)
    \<and> unat (rp_done final) = length (flashed_units log)
    \<and> unat (rp_failed final) = k - length (flashed_units log)
    \<and> rp_total final = word_of_int n
    \<and> re_cancelled e = stop_wanted log
    \<and> re_halted e = halt_told log
    \<and> rp_halted final = halt_told log
    \<and> (halt_told log \<longrightarrow> 2 \<le> unat (rp_failed final))
    \<and> (\<not> stop_wanted log \<and> \<not> halt_told log \<longrightarrow> k = length targets)
    \<and> rp_state final = (if stop_wanted log then RS_Cancelled
        else if length (flashed_units log) < k then RS_Failed else RS_Done)
    \<and> (rp_state final = RS_Done \<longleftrightarrow> flashed_units log = targets)"
proof -
  obtain evs s where run: "runs B targets (run_start (reflashProgressBegin p n)) evs s"
    "run_log B h targets (reflashProgressBegin p n) waitMs w =
       (if rr_batch s \<noteq> [] then [E_Settle (rr_batch s), E_Progress (reflashProgressSettling (rr_progress s))] else []) @ evs"
    "run_end B h targets (reflashProgressBegin p n) waitMs w =
       (rr_end s, if rr_batch s \<noteq> [] then reflashProgressSettling (rr_progress s) else rr_progress s)"
    using run_shape [OF assms(1)] by metis
  have log: "flashed_units log = flashed_units evs" "shown_units log = shown_units evs"
    "stop_wanted log = stop_wanted evs" "halt_told log = halt_told evs"
    by (simp_all add: assms(4) run(2) flashed_append shown_append reflashProgressSettling_def)
      (simp_all add: stop_wanted_def halt_told_def)
  have "books (run_start (reflashProgressBegin p n)) 0 0" "running (run_start (reflashProgressBegin p n)) 0"
    "unat (rr_failures (run_start (reflashProgressBegin p n))) < 2"
    by (simp_all add: run_start_def books_def running_def reflashProgressBegin_def fresh_end_def)
  from runs_accounts [OF run(1) this] obtain k bad where
    books: "books s (length (flashed_units evs)) bad" and acc: "accounts targets evs k 0 bad (rr_end s)"
    by auto
  have total: "rp_total (rr_progress s) = word_of_int n"
    using runs_total [OF run(1)] by (simp add: run_start_def reflashProgressBegin_def)
  have p': "rp_done p' = of_nat (length (flashed_units evs))" "rp_failed p' = of_nat bad" "rp_bootFailed p' = 0"
    "rp_total p' = word_of_int n" "e = rr_end s"
    using books run(3) assms(3) total by (auto simp: books_def reflashProgressSettling_def split: if_splits)
  have "length (flashed_units evs) < 256" "bad < 256"
    using acc assms(2) by (auto simp: accounts_def)
  then have count: "unat (rp_done p') = length (flashed_units evs)" "unat (rp_failed p') = bad"
    by (simp_all add: p' unat_of_nat take_bit_nat_eq_self)
  have zero: "rp_failed p' > 0 \<longleftrightarrow> bad \<noteq> 0"
    using count(2) by (simp add: word_less_nat_alt)
  have final: "rp_done final = rp_done p'" "rp_failed final = rp_failed p'" "rp_total final = word_of_int n"
    "rp_halted final = (re_halted e \<and> \<not> re_cancelled e)"
    "rp_state final = (if re_cancelled e then RS_Cancelled else if bad \<noteq> 0 then RS_Failed else RS_Done)"
    by (simp_all add: assms(5) reflashProgressFinish_def zero [simplified] p'(3,4))
  note acc = acc [unfolded accounts_def, folded p'(5)]
  have bad: "bad = k - length (flashed_units evs)" "bad \<noteq> 0 \<longleftrightarrow> length (flashed_units evs) < k"
    "re_cancelled e = stop_wanted evs" "re_halted e = halt_told evs" "stop_wanted evs \<Longrightarrow> \<not> halt_told evs"
    using acc by linarith+
  have done_iff: "flashed_units evs = targets \<longleftrightarrow> bad = 0 \<and> \<not> stop_wanted evs"
  proof
    assume "flashed_units evs = targets"
    with acc bad(1,3) show "bad = 0 \<and> \<not> stop_wanted evs" by auto
  next
    assume fine: "bad = 0 \<and> \<not> stop_wanted evs"
    with acc have "length (flashed_units evs) = length targets" "k = length targets" by auto
    with acc show "flashed_units evs = targets"
      using subseq_same_length [of "flashed_units evs" targets] by simp
  qed
  have state: "rp_state final = (if stop_wanted evs then RS_Cancelled
      else if length (flashed_units evs) < k then RS_Failed else RS_Done)"
    unfolding final(5) bad(2,3) ..
  show ?thesis
    unfolding log
  proof (intro exI [of _ k] conjI impI)
    show "rp_halted final = halt_told evs" using final(4) bad(3-5) by blast
    show "rp_state final = RS_Done \<longleftrightarrow> flashed_units evs = targets"
      unfolding state done_iff using bad(2) by auto
  qed (use acc count final(1-3) state bad in simp_all)
qed

section \<open>At a concrete row\<close>

text \<open>A row in which unit 3 does not take the image and all others do.\<close>

definition sample_hooks :: "unit reflash_hooks" where
  "sample_hooks = \<lparr>
     rh_stopRequested = State_Monad.return False,
     rh_imageFits = State_Monad.return True,
     rh_inBootloader = (\<lambda>a. State_Monad.return True),
     rh_enterBootloader = (\<lambda>a. State_Monad.return 0),
     rh_pause = (\<lambda>ms. State_Monad.return ()),
     rh_unitNotEntered = (\<lambda>a. State_Monad.return ()),
     rh_waitingForReset = (\<lambda>a. State_Monad.return ()),
     rh_unitRetried = (\<lambda>a n. State_Monad.return ()),
     rh_flashUnit = (\<lambda>a. State_Monad.return (if a = 3 then RU_Failed else RU_Flashed)),
     rh_unitFlashed = (\<lambda>a. State_Monad.return ()),
     rh_progressChanged = (\<lambda>p. State_Monad.return ()),
     rh_settleBatch = (\<lambda>b. State_Monad.return ()),
     rh_runHalted = (\<lambda>f n. State_Monad.return ())\<rparr>"

lemma sample_answers: "flash_answers sample_hooks"
  by (auto simp: flash_answers_def sample_hooks_def intro: always_return)

theorem pages_only_in_bootloader_witness:
  "guarded (run_log 2 sample_hooks [3, 4] fresh_progress 0 ())"
  by (rule pages_only_in_bootloader [OF sample_answers])

theorem flashing_throttled_witness:
  "unsettled (run_log 2 sample_hooks [3, 4] fresh_progress 0 ()) = []"
  using flashing_throttled [OF sample_answers, of 2] by simp

lemma sample_log:
  "run_log 2 sample_hooks [3] (reflashProgressBegin fresh_progress 1) 0 () =
     [E_Progress (turn_end 3 (run_start (reflashProgressBegin fresh_progress 1)) False),
      E_Pages 3 RU_Failed, E_Retried 3 3, E_Asked 3 True, E_Fits True,
      E_Pages 3 RU_Failed, E_Retried 3 2, E_Asked 3 True, E_Fits True,
      E_Pages 3 RU_Failed, E_Asked 3 True, E_Fits True,
      E_Progress (turn_start 3 (run_start (reflashProgressBegin fresh_progress 1))), E_Stop False]"
  by code_simp

theorem bad_image_costs_two_units_witness:
  "card (pages_sent (run_log 2 sample_hooks [3] (reflashProgressBegin fresh_progress 1) 0 ())) \<le> 2"
  by (rule bad_image_costs_two_units [OF sample_answers, where later = "[]" and earlier = "[]"])
    (simp, simp add: sample_log)

theorem reflash_reports_truth_witness:
  "\<exists>e p'. run_end 2 sample_hooks [3] (reflashProgressBegin fresh_progress 1) 0 () = (e, p')
     \<and> rp_state (reflashProgressFinish p' (re_cancelled e) (re_halted e)) = RS_Failed
     \<and> rp_failed (reflashProgressFinish p' (re_cancelled e) (re_halted e)) = 1"
proof -
  obtain e p' where run: "run_end 2 sample_hooks [3] (reflashProgressBegin fresh_progress 1) 0 () = (e, p')"
    by (cases "run_end 2 sample_hooks [3] (reflashProgressBegin fresh_progress 1) 0 ()")
  let ?final = "reflashProgressFinish p' (re_cancelled e) (re_halted e)"
  from reflash_reports_truth [OF sample_answers _ run refl refl] have
    "rp_state ?final = RS_Failed \<and> unat (rp_failed ?final) = 1"
    by (auto simp: sample_log stop_wanted_def halt_told_def)
  then have "rp_state ?final = RS_Failed" "rp_failed ?final = 1"
    by (simp_all add: word_unat_eq_iff)
  with run show ?thesis by blast
qed

end
