(* ===== verification/Boot_Update.thy ===== *)
theory Boot_Update
  imports Reflash SF_Log Twiboot_Client
begin

text \<open>
  The operations a row master runs on a unit's boot section, over the hooks of its tree: the in-system
  update \<open>shared/BootUpdateOp.h\<close>, the dump \<open>shared/BootDumpOp.h\<close>, the sweep of a row and the lists of
  \<open>shared/UnitUpdateJob.h\<close>, and the plan of the staggered homing \<open>shared/BootHomePlan.h\<close>. An operation
  that may end early is a value of a sum: \<open>Inl\<close> the grade it ended with, \<open>Inr\<close> what goes on.
\<close>

section \<open>The update of one unit\<close>

datatype BootUpdateStep = BS_ReadInfo | BS_Plan | BS_Settle | BS_Stage1 | BS_Stage2 | BS_Done

record 'w boot_hooks =
  bh_readBootInfo :: "u8 \<Rightarrow> ('w, BootUpdateReport option) state"
  bh_waitIdle :: "u8 \<Rightarrow> u32 \<Rightarrow> ('w, bool) state"
  bh_sendStage :: "u8 \<Rightarrow> u8 \<Rightarrow> ('w, int) state"
  bh_home :: "u8 \<Rightarrow> ('w, int) state"
  bh_isHomed :: "u8 \<Rightarrow> ('w, bool) state"
  bh_unitLeftSketch :: "u8 \<Rightarrow> ('w, unit) state"
  bh_holdProbes :: "('w, unit) state"
  bh_pause :: "u32 \<Rightarrow> ('w, unit) state"
  bh_nowMs :: "('w, u32) state"
  bh_reshow :: "('w, unit) state"
  bh_note :: "BootUpdateStep \<Rightarrow> MaintReason \<Rightarrow> BootUpdateReport \<Rightarrow> ('w, unit) state"

abbreviation (input) BOOT_UPDATE_STAGE2_SETTLE_MS :: u32 where "BOOT_UPDATE_STAGE2_SETTLE_MS \<equiv> 300"
abbreviation (input) BOOT_UPDATE_STAGE2_POLL_MS :: u32 where "BOOT_UPDATE_STAGE2_POLL_MS \<equiv> 5000"
abbreviation (input) BOOT_UPDATE_IDLE_MS :: u32 where "BOOT_UPDATE_IDLE_MS \<equiv> 8000"
abbreviation (input) UNIT_RETURN_TIMEOUT_MS :: u32 where "UNIT_RETURN_TIMEOUT_MS \<equiv> 10000"
abbreviation (input) UNIT_HOME_TIMEOUT_MS :: u32 where "UNIT_HOME_TIMEOUT_MS \<equiv> 20000"

definition op_finish ::
  "'w boot_hooks \<Rightarrow> bool \<Rightarrow> BootUpdateReport \<Rightarrow> BootUpdateStep \<Rightarrow> MaintOutcome \<Rightarrow> MaintReason \<Rightarrow> ('w, MaintGrade) state"
where
  "op_finish h moved info at outcome why = do {
     (if moved then bh_reshow h else State_Monad.return ());
     bh_note h at why info;
     State_Monad.return \<lparr>mg_outcome = outcome, mg_reason = why\<rparr>
   }"

definition op_failed ::
  "'w boot_hooks \<Rightarrow> bool \<Rightarrow> BootUpdateReport \<Rightarrow> BootUpdateStep \<Rightarrow> MaintReason \<Rightarrow> ('w, MaintGrade) state" where
  "op_failed h moved info at why = op_finish h moved info at MO_PostconditionFail why"

text \<open>An operation's early end, as the left of its result.\<close>

definition ends :: "('w, MaintGrade) state \<Rightarrow> ('w, MaintGrade + 'a) state" where
  "ends m = do { g \<leftarrow> m; State_Monad.return (Inl g) }"

text \<open>Whether the unit went off the bus, with the last report that came through while it was asked.\<close>

definition stage1_left :: "'w boot_hooks \<Rightarrow> u8 \<Rightarrow> BootUpdateReport \<Rightarrow> ('w, bool \<times> BootUpdateReport) state" where
  "stage1_left h addr info = State (\<lambda>w.
     let answers = (\<lambda>x. case run_state (bh_readBootInfo h addr) (fst x) of
             (None, w') \<Rightarrow> (False, (w', snd x)) | (Some still, w') \<Rightarrow> (True, (w', still)));
         pauses = (\<lambda>(ms :: u16) x. (snd (run_state (bh_pause h (ucast ms)) (fst x)), snd x));
         r = bootStage1WentOffBus answers pauses (w, info)
     in ((fst r, snd (snd r)), fst (snd r)))"

definition home_and_wait :: "'w boot_hooks \<Rightarrow> u8 \<Rightarrow> ('w, unit) state" where
  "home_and_wait h addr = do {
     homed \<leftarrow> bh_home h addr;
     if homed = 0 then do { bh_waitIdle h addr UNIT_HOME_TIMEOUT_MS; State_Monad.return () }
     else State_Monad.return ()
   }"

text \<open>Stage 1 from its last report on, and from the unit's leaving the bus on.\<close>

definition stage1_verify :: "'w boot_hooks \<Rightarrow> u8 \<Rightarrow> BootUpdateReport \<Rightarrow> ('w, MaintGrade + BootUpdateReport) state" where
  "stage1_verify h addr info = do {
     r \<leftarrow> bh_readBootInfo h addr;
     case r of
       None \<Rightarrow> ends (op_failed h True info BS_Stage1 MR_BootUnitLost)
     | Some info \<Rightarrow>
         if bu_state info \<noteq> BOOT_STATE_PAGE7_INSTALLED
         then ends (op_failed h True info BS_Stage1 MR_BootVerifyFailed)
         else do {
           bh_note h BS_Stage1 MR_None info;
           State_Monad.return (Inr info)
         }
   }"

definition stage1_started ::
  "'w boot_hooks \<Rightarrow> u8 \<Rightarrow> bool \<times> BootUpdateReport \<Rightarrow> ('w, MaintGrade + BootUpdateReport) state" where
  "stage1_started h addr left =
     (if \<not> fst left
      then ends (op_failed h False (snd left) BS_Stage1
             (maintReasonForBootFailure (bootResultFailure (bu_lastResult (snd left))) MR_BootNotStarted))
      else do {
        bh_waitIdle h addr UNIT_RETURN_TIMEOUT_MS;
        home_and_wait h addr;
        stage1_verify h addr (snd left)
      })"

definition op_stage1 :: "'w boot_hooks \<Rightarrow> u8 \<Rightarrow> BootUpdateReport \<Rightarrow> ('w, MaintGrade + BootUpdateReport) state" where
  "op_stage1 h addr info = do {
     sent \<leftarrow> bh_sendStage h addr 1;
     if sent \<noteq> 0 then ends (op_finish h False info BS_Stage1 MO_WireFail MR_None)
     else do {
       bh_unitLeftSketch h addr;
       left \<leftarrow> stage1_left h addr info;
       stage1_started h addr left
     }
   }"

text \<open>
  The polls after stage 2: the verdict, whether any report came, the last report. Each round pauses
  100 ms, so the time is up long before the fuel of one round per millisecond.
\<close>

fun stage2_polls ::
  "nat \<Rightarrow> 'w boot_hooks \<Rightarrow> u8 \<Rightarrow> u32 \<Rightarrow> u8 \<Rightarrow> bool \<times> BootUpdateReport \<Rightarrow> ('w, BootPollVerdict \<times> bool \<times> BootUpdateReport) state"
where
  "stage2_polls 0 h addr start sent_at x = State_Monad.return (BOOT_POLL_WAIT, x)"
| "stage2_polls (Suc n) h addr start sent_at x = do {
     now \<leftarrow> bh_nowMs h;
     if now - start < BOOT_UPDATE_STAGE2_POLL_MS
     then do {
       r \<leftarrow> bh_readBootInfo h addr;
       let x = (case r of None \<Rightarrow> x | Some info \<Rightarrow> (True, info));
       let verdict = (case r of None \<Rightarrow> BOOT_POLL_WAIT | Some info \<Rightarrow> bootStage2Poll info sent_at);
       if verdict \<noteq> BOOT_POLL_WAIT then State_Monad.return (verdict, x)
       else do {
         bh_pause h 100;
         stage2_polls n h addr start sent_at x
       }
     }
     else State_Monad.return (BOOT_POLL_WAIT, x)
   }"

text \<open>
  What the polls amount to; stage 2 once the unit is homed; and stage 2. The flag \<open>moved\<close> is the one the
  end of the operation needs.
\<close>

definition stage2_graded ::
  "'w boot_hooks \<Rightarrow> bool \<Rightarrow> BootPollVerdict \<times> bool \<times> BootUpdateReport \<Rightarrow> ('w, MaintGrade + bool \<times> BootUpdateReport) state"
where
  "stage2_graded h moved polled =
     (let info = snd (snd polled)
      in if fst polled \<noteq> BOOT_POLL_DONE
         then ends (op_failed h moved info BS_Stage2
                (if fst (snd polled)
                 then maintReasonForBootFailure (bootResultFailure (bu_lastResult info)) MR_BootVerifyFailed
                 else MR_BootUnitLost))
         else State_Monad.return (Inr (moved, info)))"

definition op_stage2_send ::
  "'w boot_hooks \<Rightarrow> u8 \<Rightarrow> bool \<Rightarrow> BootUpdateReport \<Rightarrow> ('w, MaintGrade + bool \<times> BootUpdateReport) state" where
  "op_stage2_send h addr moved info = do {
     sent \<leftarrow> bh_sendStage h addr 2;
     if sent \<noteq> 0 then ends (op_finish h moved info BS_Stage2 MO_WireFail MR_None)
     else do {
       bh_pause h BOOT_UPDATE_STAGE2_SETTLE_MS;
       start \<leftarrow> bh_nowMs h;
       polled \<leftarrow> stage2_polls 5001 h addr start (bu_lastResult info) (False, info);
       stage2_graded h moved polled
     }
   }"

definition stage2_homed ::
  "'w boot_hooks \<Rightarrow> u8 \<Rightarrow> BootUpdateReport \<Rightarrow> ('w, MaintGrade + bool \<times> BootUpdateReport) state" where
  "stage2_homed h addr info = do {
     r \<leftarrow> bh_readBootInfo h addr;
     case r of
       None \<Rightarrow> ends (op_failed h True info BS_Stage2 MR_BootUnitLost)
     | Some info \<Rightarrow> op_stage2_send h addr True info
   }"

definition op_stage2 ::
  "'w boot_hooks \<Rightarrow> u8 \<Rightarrow> bool \<Rightarrow> bool \<Rightarrow> BootUpdateReport \<Rightarrow> ('w, MaintGrade + bool \<times> BootUpdateReport) state" where
  "op_stage2 h addr needStage1 moved info = do {
     homed \<leftarrow> (if needStage1 then State_Monad.return True else bh_isHomed h addr);
     if homed then op_stage2_send h addr moved info
     else do {
       home_and_wait h addr;
       stage2_homed h addr info
     }
   }"

definition op_second :: "'w boot_hooks \<Rightarrow> u8 \<Rightarrow> BootUpdatePlan \<Rightarrow> BootUpdateReport \<Rightarrow> ('w, MaintGrade) state" where
  "op_second h addr plan info = do {
     second \<leftarrow> (if pl_needStage2 plan then op_stage2 h addr (pl_needStage1 plan) (pl_needStage1 plan) info
               else State_Monad.return (Inr (pl_needStage1 plan, info)));
     case second of
       Inl g \<Rightarrow> State_Monad.return g
     | Inr (moved, info) \<Rightarrow> do {
         bh_holdProbes h;
         op_finish h moved info BS_Done MO_Ok MR_None
       }
   }"

definition op_stages :: "'w boot_hooks \<Rightarrow> u8 \<Rightarrow> BootUpdatePlan \<Rightarrow> BootUpdateReport \<Rightarrow> ('w, MaintGrade) state" where
  "op_stages h addr plan info = do {
     first \<leftarrow> (if pl_needStage1 plan then op_stage1 h addr info else State_Monad.return (Inr info));
     case first of
       Inl g \<Rightarrow> State_Monad.return g
     | Inr info \<Rightarrow> op_second h addr plan info
   }"

definition bootUpdateRun :: "'w boot_hooks \<Rightarrow> u8 \<Rightarrow> ('w, MaintGrade) state" where
  "bootUpdateRun h addr = do {
     r \<leftarrow> bh_readBootInfo h addr;
     case r of
       None \<Rightarrow> op_failed h False empty_report BS_ReadInfo MR_BootInfoReadFail
     | Some info \<Rightarrow>
         (let plan = bootUpdateDecide info
          in case pl_terminal plan of
               BOOT_PLAN_ALREADY_NEW \<Rightarrow> op_finish h False info BS_Plan MO_Ok MR_BootAlreadyNew
             | BOOT_PLAN_LOCK_REFUSED \<Rightarrow> op_failed h False info BS_Plan MR_BootLockRefused
             | BOOT_PLAN_UNKNOWN_STATE \<Rightarrow> op_failed h False info BS_Plan MR_BootStateUnknown
             | BOOT_PLAN_PROCEED \<Rightarrow> do {
                 idle \<leftarrow> bh_waitIdle h addr BOOT_UPDATE_IDLE_MS;
                 if \<not> idle then op_failed h False info BS_Settle MR_BootUnitBusy
                 else op_stages h addr plan info
               })
   }"

section \<open>The dump of one unit\<close>

record 'w dump_hooks =
  dh_enterBootloader :: "u8 \<Rightarrow> ('w, int) state"
  dh_unitLeftSketch :: "u8 \<Rightarrow> ('w, unit) state"
  dh_holdProbes :: "('w, unit) state"
  dh_pause :: "u32 \<Rightarrow> ('w, unit) state"
  dh_readBootSection :: "u8 \<Rightarrow> ('w, UnitBootReadResult \<times> bytes option) state"
  dh_waitIdle :: "u8 \<Rightarrow> u32 \<Rightarrow> ('w, bool) state"
  dh_home :: "u8 \<Rightarrow> ('w, int) state"
  dh_reshow :: "('w, unit) state"

fun dump_outcome :: "UnitBootReadResult \<Rightarrow> BootDumpOutcome" where
  "dump_outcome BootRead_Ok = DumpOk"
| "dump_outcome BootRead_Silent = DumpBootloaderSilent"
| "dump_outcome BootRead_ChipMismatch = DumpChipMismatch"
| "dump_outcome BootRead_Failed = DumpReadFail"

definition bootDumpRun :: "'w dump_hooks \<Rightarrow> u8 \<Rightarrow> ('w, BootDumpOutcome \<times> bytes option) state" where
  "bootDumpRun h addr = do {
     entered \<leftarrow> dh_enterBootloader h addr;
     if entered \<noteq> 0 then do {
       dh_holdProbes h;
       State_Monad.return (DumpEnterFail, None)
     }
     else do {
       dh_unitLeftSketch h addr;
       dh_pause h TWIBOOT_STARTUP_MS;
       r \<leftarrow> dh_readBootSection h addr;
       dh_waitIdle h addr UNIT_RETURN_TIMEOUT_MS;
       homed \<leftarrow> dh_home h addr;
       (if homed = 0 then do { dh_waitIdle h addr UNIT_HOME_TIMEOUT_MS; State_Monad.return () }
        else State_Monad.return ());
       dh_reshow h;
       dh_holdProbes h;
       State_Monad.return (dump_outcome (fst r), snd r)
     }
   }"

section \<open>The update job of a row\<close>

definition unitUpdateCollectSketchUnits :: "UnitFacts list \<Rightarrow> nat \<Rightarrow> u8 list" where
  "unitUpdateCollectSketchUnits units base = collect_slots base (\<lambda>i u. uf_state u = 1) units"

definition unitUpdateCollectBootTargets :: "UnitFacts list \<Rightarrow> nat \<Rightarrow> u8 list" where
  "unitUpdateCollectBootTargets units base =
     collect_slots base (\<lambda>i u. uf_state u = 1 \<and> uf_fwStatus u = 0 \<and> uf_bootVerdict u \<noteq> BOOT_INTEGRITY_OK) units"

record BootSweepEnd =
  be_cancelled :: bool
  be_halted :: bool

record 'w sweep_hooks =
  wh_stopRequested :: "('w, bool) state"
  wh_bootUpdate :: "u8 \<Rightarrow> ('w, MaintGrade) state"
  wh_progressChanged :: "ReflashProgress \<Rightarrow> ('w, unit) state"
  wh_sweepHalted :: "u8 \<Rightarrow> nat \<Rightarrow> ('w, unit) state"

text \<open>What one unit's grade does to the progress and to the failures in a row.\<close>

definition sweep_grade :: "MaintGrade \<Rightarrow> u8 \<times> ReflashProgress \<Rightarrow> u8 \<times> ReflashProgress" where
  "sweep_grade grade x =
     (let (failures, p) = x
      in if mg_outcome grade \<noteq> MO_Ok
         then (if failures < 0xFF then failures + 1 else failures, p\<lparr>rp_bootFailed := rp_bootFailed p + 1\<rparr>)
         else (0, if mg_reason grade \<noteq> MR_BootAlreadyNew then p\<lparr>rp_bootDone := rp_bootDone p + 1\<rparr> else p))"

fun sweep_loop :: "'w sweep_hooks \<Rightarrow> u8 list \<Rightarrow> u8 \<times> ReflashProgress \<Rightarrow> ('w, BootSweepEnd \<times> ReflashProgress) state" where
  "sweep_loop h [] x = State_Monad.return (\<lparr>be_cancelled = False, be_halted = False\<rparr>, snd x)"
| "sweep_loop h (addr # rest) x = do {
     stop \<leftarrow> wh_stopRequested h;
     if stop then State_Monad.return (\<lparr>be_cancelled = True, be_halted = False\<rparr>, snd x)
     else do {
       let p = (snd x)\<lparr>rp_state := RS_BootUpdate, rp_currentAddr := addr\<rparr>;
       wh_progressChanged h p;
       grade \<leftarrow> wh_bootUpdate h addr;
       let x = sweep_grade grade (fst x, p);
       wh_progressChanged h (snd x);
       if reflashShouldHalt (fst x)
       then do {
         wh_sweepHalted h (fst x) (length rest);
         State_Monad.return (\<lparr>be_cancelled = False, be_halted = True\<rparr>, snd x)
       }
       else sweep_loop h rest x
     }
   }"

definition unitUpdateRunBootSweep ::
  "'w sweep_hooks \<Rightarrow> u8 list \<Rightarrow> ReflashProgress \<Rightarrow> ('w, BootSweepEnd \<times> ReflashProgress) state" where
  "unitUpdateRunBootSweep h targets progress = do {
     r \<leftarrow> sweep_loop h targets (0, progress);
     State_Monad.return (fst r, (snd r)\<lparr>rp_currentAddr := 0\<rparr>)
   }"

section \<open>The staggered homing\<close>

definition bootHomeCollectTargets :: "UnitFacts list \<Rightarrow> nat \<Rightarrow> u8 list" where
  "bootHomeCollectTargets units base =
     collect_slots base (\<lambda>i u. uf_state u = 1 \<and> uf_statusValid u \<and> us_flags (uf_status u) AND 32 = 0) units"

definition bootHomeBatchCount :: "int \<Rightarrow> int \<Rightarrow> int" where
  "bootHomeBatchCount nTargets batchSize =
     (let batchSize = (if batchSize < 1 then 1 else batchSize)
      in if nTargets \<le> 0 then 0 else (nTargets + batchSize - 1) div batchSize)"

end
