(* ===== verification/Boot_Trace.thy ===== *)
theory Boot_Trace
  imports Boot_Update
begin

text \<open>
  What the boot-section update asks of a unit, whatever it answers: the orders it sends, in which order
  and on which reports, what its grade says of the unit, and when the row's frame is put back.
\<close>

section \<open>Recorded hooks\<close>

datatype boot_event =
  B_Report "BootUpdateReport option" | B_Idle bool | B_Stage u8 int | B_Home int | B_Homed bool
  | B_Left | B_Hold | B_Pause u32 | B_Now u32 | B_Reshow | B_Note BootUpdateStep MaintReason

type_synonym boot_log = "boot_event list"

definition boot_recording :: "'w boot_hooks \<Rightarrow> ('w \<times> boot_log) boot_hooks" where
  "boot_recording h = \<lparr>
     bh_readBootInfo = (\<lambda>a. noting (bh_readBootInfo h a) B_Report),
     bh_waitIdle = (\<lambda>a ms. noting (bh_waitIdle h a ms) B_Idle),
     bh_sendStage = (\<lambda>a s. noting (bh_sendStage h a s) (B_Stage s)),
     bh_home = (\<lambda>a. noting (bh_home h a) B_Home),
     bh_isHomed = (\<lambda>a. noting (bh_isHomed h a) B_Homed),
     bh_unitLeftSketch = (\<lambda>a. noting (bh_unitLeftSketch h a) (\<lambda>_. B_Left)),
     bh_holdProbes = noting (bh_holdProbes h) (\<lambda>_. B_Hold),
     bh_pause = (\<lambda>ms. noting (bh_pause h ms) (\<lambda>_. B_Pause ms)),
     bh_nowMs = noting (bh_nowMs h) B_Now,
     bh_reshow = noting (bh_reshow h) (\<lambda>_. B_Reshow),
     bh_note = (\<lambda>at why info. noting (bh_note h at why info) (\<lambda>_. B_Note at why))\<rparr>"

lemma boot_recording_simps [simp]:
  "bh_readBootInfo (boot_recording h) a = noting (bh_readBootInfo h a) B_Report"
  "bh_waitIdle (boot_recording h) a ms = noting (bh_waitIdle h a ms) B_Idle"
  "bh_sendStage (boot_recording h) a s = noting (bh_sendStage h a s) (B_Stage s)"
  "bh_home (boot_recording h) a = noting (bh_home h a) B_Home"
  "bh_isHomed (boot_recording h) a = noting (bh_isHomed h a) B_Homed"
  "bh_unitLeftSketch (boot_recording h) a = noting (bh_unitLeftSketch h a) (\<lambda>_. B_Left)"
  "bh_holdProbes (boot_recording h) = noting (bh_holdProbes h) (\<lambda>_. B_Hold)"
  "bh_pause (boot_recording h) ms = noting (bh_pause h ms) (\<lambda>_. B_Pause ms)"
  "bh_nowMs (boot_recording h) = noting (bh_nowMs h) B_Now"
  "bh_reshow (boot_recording h) = noting (bh_reshow h) (\<lambda>_. B_Reshow)"
  "bh_note (boot_recording h) at why info = noting (bh_note h at why info) (\<lambda>_. B_Note at why)"
  by (simp_all add: boot_recording_def)

text \<open>The questions of stage 1 as a program of the monad.\<close>

fun stage1_asks :: "'w boot_hooks \<Rightarrow> u8 \<Rightarrow> u16 list \<Rightarrow> BootUpdateReport \<Rightarrow> ('w, bool \<times> BootUpdateReport) state" where
  "stage1_asks h addr [] info = State_Monad.return (False, info)"
| "stage1_asks h addr (gap # gaps) info = do {
     bh_pause h (ucast gap);
     r \<leftarrow> bh_readBootInfo h addr;
     case r of
       Some still \<Rightarrow> stage1_asks h addr gaps still
     | None \<Rightarrow> do {
         bh_pause h 50;
         r \<leftarrow> bh_readBootInfo h addr;
         case r of Some still \<Rightarrow> stage1_asks h addr gaps still | None \<Rightarrow> State_Monad.return (True, info)
       }
   }"

lemma stage1_left_asks: "stage1_left h addr info = stage1_asks h addr [200, 300] info"
proof -
  define answers where "answers = (\<lambda>x. case run_state (bh_readBootInfo h addr) (fst x) of
      (None, w') \<Rightarrow> (False, (w', snd x)) | (Some still, w') \<Rightarrow> (True, (w', still)))"
  define pauses where "pauses = (\<lambda>(ms :: u16) x. (snd (run_state (bh_pause h (ucast ms)) (fst x)), snd x :: BootUpdateReport))"
  have "run_state (stage1_asks h addr gaps info) w =
      (let r = stage1_gaps answers pauses gaps (w, info) in ((fst r, snd (snd r)), fst (snd r)))" for gaps w info
    by (induction gaps arbitrary: w info)
      (auto simp: run_bind answers_def pauses_def Let_def split: option.splits prod.splits)
  then have "run_state (stage1_left h addr info) w = run_state (stage1_asks h addr [200, 300] info) w" for w
    by (simp only: stage1_left_def bootStage1WentOffBus_def answers_def [symmetric] pauses_def [symmetric]
        Let_def state.sel)
  then show ?thesis
    by (intro state.expand ext)
qed

section \<open>Reading the log\<close>

definition reports :: "boot_log \<Rightarrow> BootUpdateReport list" where
  "reports l = List.map_filter (\<lambda>e. case e of B_Report r \<Rightarrow> r | _ \<Rightarrow> None) l"

definition orders :: "boot_log \<Rightarrow> u8 list" where
  "orders l = List.map_filter (\<lambda>e. case e of B_Stage s i \<Rightarrow> Some s | _ \<Rightarrow> None) l"

definition homed_it :: "boot_log \<Rightarrow> bool" where
  "homed_it l \<longleftrightarrow> (\<exists>i. B_Home i \<in> set l)"

definition reshown :: "boot_log \<Rightarrow> bool" where
  "reshown l \<longleftrightarrow> B_Reshow \<in> set l"

lemma reports_simps [simp]:
  "reports [] = []" "reports (l @ m) = reports l @ reports m"
  "reports (e # l) = (case e of B_Report (Some r) \<Rightarrow> r # reports l | _ \<Rightarrow> reports l)"
  by (auto simp: reports_def List.map_filter_def split: boot_event.split option.split)

lemma orders_simps [simp]:
  "orders [] = []" "orders (l @ m) = orders l @ orders m"
  "orders (e # l) = (case e of B_Stage s i \<Rightarrow> s # orders l | _ \<Rightarrow> orders l)"
  by (auto simp: orders_def List.map_filter_def split: boot_event.split)

lemma moved_simps [simp]:
  "\<not> homed_it []" "homed_it (l @ m) \<longleftrightarrow> homed_it l \<or> homed_it m"
  "homed_it (e # l) \<longleftrightarrow> (case e of B_Home i \<Rightarrow> True | _ \<Rightarrow> homed_it l)"
  "\<not> reshown []" "reshown (l @ m) \<longleftrightarrow> reshown l \<or> reshown m"
  "reshown (e # l) \<longleftrightarrow> (case e of B_Reshow \<Rightarrow> True | _ \<Rightarrow> reshown l)"
  by (auto simp: homed_it_def reshown_def split: boot_event.split)

text \<open>A piece that only asks and waits.\<close>

fun asking :: "boot_event \<Rightarrow> bool" where
  "asking (B_Report r) = True"
| "asking (B_Pause ms) = True"
| "asking (B_Now t) = True"
| "asking (B_Idle i) = True"
| "asking _ = False"

definition asks :: "boot_log \<Rightarrow> bool" where
  "asks l \<longleftrightarrow> list_all asking l"

lemma asks_simps [simp]: "asks []" "asks (e # l) \<longleftrightarrow> asking e \<and> asks l" "asks (l @ m) \<longleftrightarrow> asks l \<and> asks m"
  by (simp_all add: asks_def)

lemma asks_quiet: "asks l \<Longrightarrow> orders l = [] \<and> \<not> homed_it l \<and> \<not> reshown l"
proof (induction l)
  case (Cons e l)
  then show ?case by (cases e) auto
qed simp

lemma logs_option [log_rules]:
  "(x = None \<Longrightarrow> logs m Q past) \<Longrightarrow> (\<And>a. x = Some a \<Longrightarrow> logs (n a) Q past) \<Longrightarrow>
     logs (case x of None \<Rightarrow> m | Some a \<Rightarrow> n a) Q past"
  by (cases x) simp_all

lemma stage1_asks_logs:
  "logs (stage1_asks (boot_recording h) addr gaps info) (\<lambda>r. extends past asks) past"
proof (induction gaps arbitrary: info past)
  case Nil
  show ?case by (simp add: logs_return extends_start)
next
  case (Cons gap gaps)
  have later: "logs (stage1_asks (boot_recording h) addr gaps info') (\<lambda>r. extends past asks) (before @ past)"
    if "asks before" for before info'
    by (rule logs_extends [OF Cons.IH]) (use that in simp)
  have two: "logs (stage1_asks (boot_recording h) addr gaps info') (\<lambda>r. extends past asks)
      (B_Report r # B_Pause ms # past)" for r ms info'
    using later [of "[B_Report r, B_Pause ms]"] by simp
  have four: "logs (stage1_asks (boot_recording h) addr gaps info') (\<lambda>r. extends past asks)
      (B_Report r # B_Pause ms # B_Report r' # B_Pause ms' # past)"
    "extends past asks (B_Report r # B_Pause ms # B_Report r' # B_Pause ms' # past)" for r ms r' ms' info'
    using later [of "[B_Report r, B_Pause ms, B_Report r', B_Pause ms']"]
      extendsI [of asks "[B_Report r, B_Pause ms, B_Report r', B_Pause ms']" past] by simp_all
  show ?case
    unfolding stage1_asks.simps boot_recording_simps
    by (intro log_rules) (simp_all add: two four)
qed

lemma stage2_polls_logs:
  "logs (stage2_polls n (boot_recording h) addr start before_send x)
     (\<lambda>r. extends past (\<lambda>evs. asks evs
        \<and> (fst r = BOOT_POLL_DONE \<longrightarrow> reports evs \<noteq> [] \<and> bu_state (hd (reports evs)) = BOOT_STATE_NEW))) past"
  (is "logs _ (\<lambda>r. extends past (?E r)) past")
proof (induction n arbitrary: x past)
  case 0
  show ?case by (simp add: logs_return extends_start)
next
  case (Suc n)
  have later: "logs (stage2_polls n (boot_recording h) addr start before_send x')
      (\<lambda>r. extends past (?E r)) (B_Pause ms # B_Report r # B_Now t # past)" for ms r t x'
  proof -
    have "logs (stage2_polls n (boot_recording h) addr start before_send x')
        (\<lambda>r. extends past (?E r)) ([B_Pause ms, B_Report r, B_Now t] @ past)"
      by (rule logs_extends [OF Suc.IH]) auto
    then show ?thesis by simp
  qed
  have verdict: "bootStage2Poll info before_send = BOOT_POLL_DONE \<Longrightarrow> bu_state info = BOOT_STATE_NEW" for info
    by (simp add: bootStage2Poll_def split: if_splits)
  show ?case
    unfolding stage2_polls.simps boot_recording_simps Let_def
    by (intro log_rules) (use verdict in \<open>auto simp: later intro!: extends_start split: option.splits\<close>)
qed

section \<open>The pieces of the update\<close>

abbreviation still_there :: "boot_log \<Rightarrow> bool" where
  "still_there evs \<equiv> orders evs = [] \<and> \<not> homed_it evs \<and> reports evs = []"

lemma op_finish_logs:
  "logs (op_finish (boot_recording h) moved info at outcome why)
     (\<lambda>g. extends past (\<lambda>evs. still_there evs \<and> (reshown evs \<longleftrightarrow> moved) \<and> mg_outcome g = outcome)) past"
  unfolding op_finish_def boot_recording_simps
  by (cases moved) (auto intro!: log_rules extends_start)

lemma home_and_wait_logs:
  "logs (home_and_wait (boot_recording h) addr)
     (\<lambda>_. extends past (\<lambda>evs. orders evs = [] \<and> homed_it evs \<and> \<not> reshown evs)) past"
  unfolding home_and_wait_def boot_recording_simps
  by (auto intro!: log_rules extends_start)

lemma ends_logs:
  assumes "logs m (\<lambda>g. Q (Inl g)) past" shows "logs (ends m) Q past"
  unfolding ends_def by (rule logs_bind, rule logs_post [OF assms], rule logs_return)

text \<open>An early end after \<open>prior\<close>.\<close>

lemma ended_logs:
  assumes "\<And>evs g. still_there evs \<Longrightarrow> (reshown evs \<longleftrightarrow> moved) \<Longrightarrow> mg_outcome g = outcome \<Longrightarrow> E (Inl g) (evs @ prior)"
  shows "logs (ends (op_finish (boot_recording h) moved info at outcome why)) (\<lambda>r. extends past (E r)) (prior @ past)"
  by (rule ends_logs, rule logs_extends [OF op_finish_logs]) (use assms in blast)

definition stage2_piece :: "bool \<Rightarrow> MaintGrade + bool \<times> BootUpdateReport \<Rightarrow> boot_log \<Rightarrow> bool" where
  "stage2_piece moved r evs \<longleftrightarrow>
     (case r of
        Inl g \<Rightarrow> mg_outcome g \<noteq> MO_Ok \<and> (reshown evs \<longleftrightarrow> moved \<or> homed_it evs)
      | Inr (m, i) \<Rightarrow> (m \<longleftrightarrow> moved \<or> homed_it evs) \<and> \<not> reshown evs \<and> orders evs = [2]
          \<and> reports evs \<noteq> [] \<and> bu_state (hd (reports evs)) = BOOT_STATE_NEW)"

definition starts_with_order :: "u8 \<Rightarrow> boot_log \<Rightarrow> bool" where
  "starts_with_order s evs \<longleftrightarrow> (\<exists>i later. evs = later @ [B_Stage s i] \<and> orders later = [])"

lemma starts_later: "starts_with_order s evs \<Longrightarrow> orders later = [] \<Longrightarrow> starts_with_order s (later @ evs)"
  unfolding starts_with_order_def by (metis append.assoc append_Nil orders_simps(2))

lemma starts_one [simp]: "starts_with_order s [B_Stage s i]"
  by (simp add: starts_with_order_def)

lemma starts_orders: "starts_with_order s evs \<Longrightarrow> orders evs = [s]"
  by (auto simp: starts_with_order_def)

lemma stage2_graded_logs:
  assumes "asks evs \<and> (fst polled = BOOT_POLL_DONE \<longrightarrow> reports evs \<noteq> [] \<and> bu_state (hd (reports evs)) = BOOT_STATE_NEW)"
  shows "logs (stage2_graded (boot_recording h) moved polled)
    (\<lambda>r. extends past (\<lambda>evs. stage2_piece moved r evs \<and> \<not> homed_it evs \<and> starts_with_order 2 evs))
    (evs @ B_Now t # B_Pause 300 # B_Stage 2 i # past)"
    (is "logs _ (\<lambda>r. extends past (?E r)) _")
proof -
  let ?prior = "evs @ [B_Now t, B_Pause 300, B_Stage 2 i]"
  note quiet = asks_quiet [of evs]
  have "orders (evs @ [B_Now t, B_Pause 300]) = []" using assms quiet by simp
  from starts_later [OF starts_one [of 2 i] this] have starts: "starts_with_order 2 ?prior" by simp
  have "logs (ends (op_failed (boot_recording h) moved info BS_Stage2 why)) (\<lambda>r. extends past (?E r)) (?prior @ past)"
    for info why
    unfolding op_failed_def
    by (rule ended_logs) (use assms quiet starts_later [OF starts] in \<open>auto simp: stage2_piece_def\<close>)
  moreover have "fst polled = BOOT_POLL_DONE \<Longrightarrow> ?E (Inr (moved, snd (snd polled))) ?prior"
    using assms quiet starts by (simp add: stage2_piece_def)
  then have "fst polled = BOOT_POLL_DONE \<Longrightarrow>
      logs (State_Monad.return (Inr (moved, snd (snd polled)))) (\<lambda>r. extends past (?E r)) (?prior @ past)"
    by (intro logs_return extendsI)
  ultimately show ?thesis
    by (auto simp: stage2_graded_def Let_def)
qed

lemma op_stage2_send_logs:
  "logs (op_stage2_send (boot_recording h) addr moved info)
     (\<lambda>r. extends past (\<lambda>evs. stage2_piece moved r evs \<and> \<not> homed_it evs \<and> starts_with_order 2 evs)) past"
    (is "logs _ (\<lambda>r. extends past (?E r)) past")
proof -
  have wire: "logs (ends (op_finish (boot_recording h) moved info BS_Stage2 MO_WireFail MR_None))
      (\<lambda>r. extends past (?E r)) (B_Stage 2 i # past)" for i
    using ended_logs [of moved MO_WireFail ?E "[B_Stage 2 i]" h info BS_Stage2 MR_None past]
      starts_later [OF starts_one [of 2 i]]
    by (simp add: stage2_piece_def)
  show ?thesis
    unfolding op_stage2_send_def boot_recording_simps
    by (rule logs_bind, rule logs_noting, rule logs_if, rule wire)
      (rule logs_bind, rule logs_noting, rule logs_bind, rule logs_noting,
        rule logs_chain [OF stage2_polls_logs], rule stage2_graded_logs)
qed

text \<open>A piece of stage 2 that follows \<open>prior\<close>, in which nothing was ordered.\<close>

lemma stage2_after:
  assumes "orders prior = []" "\<not> reshown prior"
  shows "logs (op_stage2_send (boot_recording h) addr (moved \<or> homed_it prior) info)
    (\<lambda>r. extends past (\<lambda>evs. stage2_piece moved r evs \<and> orders evs \<in> {[], [2]})) (prior @ past)"
  by (rule logs_extends [OF op_stage2_send_logs])
    (use assms in \<open>auto simp: stage2_piece_def dest: starts_orders split: sum.splits\<close>)

lemma stage2_homed_logs:
  assumes "orders evs = []" "homed_it evs" "\<not> reshown evs"
  shows "logs (stage2_homed (boot_recording h) addr info)
    (\<lambda>r. extends past (\<lambda>evs. stage2_piece moved r evs \<and> orders evs \<in> {[], [2]})) (evs @ past)"
  unfolding stage2_homed_def boot_recording_simps
proof (rule logs_bind, rule logs_noting, rule logs_option)
  fix got :: "BootUpdateReport option"
  show "logs (ends (op_failed (boot_recording h) True info BS_Stage2 MR_BootUnitLost))
      (\<lambda>r. extends past (\<lambda>evs. stage2_piece moved r evs \<and> orders evs \<in> {[], [2]})) (B_Report got # evs @ past)"
    using assms ended_logs [of True MO_PostconditionFail "\<lambda>r evs. stage2_piece moved r evs \<and> orders evs \<in> {[], [2]}"
        "B_Report got # evs" h info BS_Stage2 MR_BootUnitLost past]
    by (simp add: stage2_piece_def op_failed_def split: option.splits)
  show "logs (op_stage2_send (boot_recording h) addr True info')
      (\<lambda>r. extends past (\<lambda>evs. stage2_piece moved r evs \<and> orders evs \<in> {[], [2]})) (B_Report got # evs @ past)" for info'
    using assms stage2_after [of "B_Report got # evs" h addr moved info' past] by (simp split: option.splits)
qed

lemma op_stage2_logs:
  "logs (op_stage2 (boot_recording h) addr needStage1 moved info)
     (\<lambda>r. extends past (\<lambda>evs. stage2_piece moved r evs \<and> orders evs \<in> {[], [2]}
        \<and> (needStage1 \<longrightarrow> starts_with_order 2 evs \<and> \<not> homed_it evs))) past"
proof (cases needStage1)
  case True
  then show ?thesis
    unfolding op_stage2_def
    by (simp, intro logs_post [OF op_stage2_send_logs]) (auto simp: extends_def dest: starts_orders)
next
  case False
  have homed: "logs (op_stage2_send (boot_recording h) addr moved info)
      (\<lambda>r. extends past (\<lambda>evs. stage2_piece moved r evs \<and> orders evs \<in> {[], [2]})) (B_Homed b # past)" for b
    using stage2_after [of "[B_Homed b]" h addr moved info past] by simp
  have unhomed: "logs (do { home_and_wait (boot_recording h) addr; stage2_homed (boot_recording h) addr info })
      (\<lambda>r. extends past (\<lambda>evs. stage2_piece moved r evs \<and> orders evs \<in> {[], [2]})) (B_Homed b # past)" for b
    by (rule logs_chain [OF home_and_wait_logs])
      (use stage2_homed_logs [of "_ @ [B_Homed b]" h addr info past moved] in simp)
  show ?thesis
    unfolding op_stage2_def boot_recording_simps if_not_P [OF False]
    by (rule logs_post [where Q = "\<lambda>r. extends past (\<lambda>evs. stage2_piece moved r evs \<and> orders evs \<in> {[], [2]})"])
      (rule logs_bind, rule logs_noting, rule logs_if, rule homed, rule unhomed, simp add: False)
qed

definition stage1_piece :: "MaintGrade + BootUpdateReport \<Rightarrow> boot_log \<Rightarrow> bool" where
  "stage1_piece r evs \<longleftrightarrow> orders evs = [1] \<and>
     (case r of
        Inl g \<Rightarrow> mg_outcome g \<noteq> MO_Ok \<and> (reshown evs \<longleftrightarrow> homed_it evs)
      | Inr i \<Rightarrow> homed_it evs \<and> \<not> reshown evs \<and> reports evs \<noteq> [] \<and> hd (reports evs) = i
          \<and> bu_state i = BOOT_STATE_PAGE7_INSTALLED)"

text \<open>A failure of stage 1 after \<open>prior\<close>.\<close>

lemma stage1_ended:
  assumes "orders prior = [1]" "\<not> reshown prior" "homed_it prior \<longleftrightarrow> moved" "outcome \<noteq> MO_Ok"
  shows "logs (ends (op_finish (boot_recording h) moved info at outcome why)) (\<lambda>r. extends past (stage1_piece r)) (prior @ past)"
  by (rule ended_logs) (use assms in \<open>auto simp: stage1_piece_def\<close>)

lemma stage1_verify_logs:
  assumes "orders evs = [1]" "homed_it evs" "\<not> reshown evs"
  shows "logs (stage1_verify (boot_recording h) addr info) (\<lambda>r. extends past (stage1_piece r)) (evs @ past)"
  unfolding stage1_verify_def boot_recording_simps
proof (rule logs_bind, rule logs_noting, rule logs_option)
  fix got :: "BootUpdateReport option"
  have failed: "logs (ends (op_failed (boot_recording h) True info BS_Stage1 why))
      (\<lambda>r. extends past (stage1_piece r)) (B_Report got # evs @ past)" for info why
    using assms stage1_ended [of "B_Report got # evs" True MO_PostconditionFail h info BS_Stage1 why past]
    by (simp add: op_failed_def split: option.splits)
  show "logs (ends (op_failed (boot_recording h) True info BS_Stage1 MR_BootUnitLost))
      (\<lambda>r. extends past (stage1_piece r)) (B_Report got # evs @ past)" by (rule failed)
  fix info' assume got: "got = Some info'"
  have "bu_state info' = BOOT_STATE_PAGE7_INSTALLED \<Longrightarrow>
      extends past (stage1_piece (Inr info')) (B_Note BS_Stage1 MR_None # B_Report got # evs @ past)"
    using assms got extendsI [of "stage1_piece (Inr info')" "B_Note BS_Stage1 MR_None # B_Report got # evs" past]
    by (simp add: stage1_piece_def)
  then show "logs (if bu_state info' \<noteq> BOOT_STATE_PAGE7_INSTALLED
           then ends (op_failed (boot_recording h) True info' BS_Stage1 MR_BootVerifyFailed)
           else do {
             noting (bh_note h BS_Stage1 MR_None info') (\<lambda>_. B_Note BS_Stage1 MR_None);
             State_Monad.return (Inr info')
           }) (\<lambda>r. extends past (stage1_piece r)) (B_Report got # evs @ past)"
    by (intro logs_if failed logs_bind logs_noting logs_return) simp
qed

lemma stage1_started_logs:
  assumes "asks evs"
  shows "logs (stage1_started (boot_recording h) addr left) (\<lambda>r. extends past (stage1_piece r))
    (evs @ B_Left # B_Stage 1 i # past)"
  unfolding stage1_started_def boot_recording_simps
proof (rule logs_if)
  show "logs (ends (op_failed (boot_recording h) False (snd left) BS_Stage1
            (maintReasonForBootFailure (bootResultFailure (bu_lastResult (snd left))) MR_BootNotStarted)))
      (\<lambda>r. extends past (stage1_piece r)) (evs @ B_Left # B_Stage 1 i # past)"
    using asks_quiet [OF assms] stage1_ended [of "evs @ [B_Left, B_Stage 1 i]" False MO_PostconditionFail h "snd left" BS_Stage1 _ past]
    by (simp add: op_failed_def)
  show "logs (do { noting (bh_waitIdle h addr UNIT_RETURN_TIMEOUT_MS) B_Idle;
         home_and_wait (boot_recording h) addr; stage1_verify (boot_recording h) addr (snd left) })
      (\<lambda>r. extends past (stage1_piece r)) (evs @ B_Left # B_Stage 1 i # past)"
    by (rule logs_bind, rule logs_noting, rule logs_chain [OF home_and_wait_logs])
      (use asks_quiet [OF assms] stage1_verify_logs [of "_ @ B_Idle _ # evs @ [B_Left, B_Stage 1 i]" h addr "snd left" past] in simp)
qed

lemma op_stage1_logs:
  "logs (op_stage1 (boot_recording h) addr info) (\<lambda>r. extends past (stage1_piece r)) past"
proof -
  have wire: "logs (ends (op_finish (boot_recording h) False info BS_Stage1 MO_WireFail MR_None))
      (\<lambda>r. extends past (stage1_piece r)) (B_Stage 1 i # past)" for i
    using stage1_ended [of "[B_Stage 1 i]" False MO_WireFail h info BS_Stage1 MR_None past] by simp
  show ?thesis
    unfolding op_stage1_def boot_recording_simps stage1_left_asks
    by (rule logs_bind, rule logs_noting, rule logs_if, rule wire)
      (rule logs_bind, rule logs_noting, rule logs_chain [OF stage1_asks_logs], rule stage1_started_logs)
qed

section \<open>The whole update\<close>

text \<open>Each order for stage 2 after one for stage 1 stands on a report of the state stage 1 installs.\<close>

fun page7_first :: "boot_log \<Rightarrow> bool" where
  "page7_first [] = True"
| "page7_first (B_Stage s i # past) =
     ((s = 2 \<and> 1 \<in> set (orders past) \<longrightarrow>
         reports past \<noteq> [] \<and> bu_state (hd (reports past)) = BOOT_STATE_PAGE7_INSTALLED)
      \<and> page7_first past)"
| "page7_first (_ # past) = page7_first past"

definition boot_run_ok :: "MaintGrade \<Rightarrow> boot_log \<Rightarrow> bool" where
  "boot_run_ok g l \<longleftrightarrow>
     (mg_outcome g = MO_Ok \<longrightarrow> reports l \<noteq> [] \<and> bu_state (hd (reports l)) = BOOT_STATE_NEW)
     \<and> orders l \<in> {[], [1], [2], [2, 1]}
     \<and> (orders l \<noteq> [] \<longrightarrow> reports l \<noteq> []
          \<and> pl_terminal (bootUpdateDecide (last (reports l))) = BOOT_PLAN_PROCEED
          \<and> (pl_needStage1 (bootUpdateDecide (last (reports l))) \<longleftrightarrow> last (orders l) = 1))
     \<and> page7_first l
     \<and> (reshown l \<longleftrightarrow> homed_it l)"

lemma page7_no_second: "2 \<notin> set (orders l) \<Longrightarrow> page7_first l"
proof (induction l)
  case (Cons e l)
  then show ?case by (cases e) auto
qed simp

lemma page7_no_first: "1 \<notin> set (orders l) \<Longrightarrow> page7_first l"
proof (induction l)
  case (Cons e l)
  then show ?case by (cases e) auto
qed simp

lemma page7_quiet: "orders evs = [] \<Longrightarrow> page7_first (evs @ past) = page7_first past"
proof (induction evs)
  case (Cons e evs)
  then show ?case by (cases e) auto
qed simp

lemma plan_proceeds:
  "pl_terminal (bootUpdateDecide r) = BOOT_PLAN_PROCEED \<Longrightarrow> pl_needStage2 (bootUpdateDecide r)"
  by (simp add: bootUpdateDecide_def Let_def split: if_splits)

text \<open>After the first report: what was asked and, for stage 1, sent.\<close>

definition so_far :: "BootUpdateReport \<Rightarrow> boot_log \<Rightarrow> bool" where
  "so_far first l \<longleftrightarrow> reports l \<noteq> [] \<and> last (reports l) = first \<and> \<not> reshown l
     \<and> (if pl_needStage1 (bootUpdateDecide first)
        then orders l = [1] \<and> homed_it l \<and> bu_state (hd (reports l)) = BOOT_STATE_PAGE7_INSTALLED
        else orders l = [] \<and> \<not> homed_it l)"

lemma second_page7:
  assumes "so_far first l" "orders evs \<in> {[], [2]}"
    "pl_needStage1 (bootUpdateDecide first) \<longrightarrow> starts_with_order 2 evs" "orders fin = []"
  shows "page7_first (fin @ evs @ l)"
proof (cases "pl_needStage1 (bootUpdateDecide first)")
  case True
  with assms(3) obtain i later where evs: "evs = later @ [B_Stage 2 i]" "orders later = []"
    by (auto simp: starts_with_order_def)
  have "page7_first (B_Stage 2 i # l)"
    using assms(1) True by (auto simp: so_far_def intro: page7_no_second)
  with evs assms(4) show ?thesis
    using page7_quiet [of "fin @ later" "B_Stage 2 i # l"] by simp
next
  case False
  with assms show ?thesis
    by (intro page7_no_first) (auto simp: so_far_def)
qed

lemma op_second_logs:
  assumes "so_far first l" "pl_terminal (bootUpdateDecide first) = BOOT_PLAN_PROCEED"
  shows "logs (op_second (boot_recording h) addr (bootUpdateDecide first) info) boot_run_ok l"
proof -
  let ?n = "pl_needStage1 (bootUpdateDecide first)"
  have ended: "logs (case second of
       Inl g \<Rightarrow> State_Monad.return g
     | Inr (moved, info) \<Rightarrow> do {
         noting (bh_holdProbes h) (\<lambda>_. B_Hold);
         op_finish (boot_recording h) moved info BS_Done MO_Ok MR_None
       }) boot_run_ok (evs @ l)"
    if piece: "stage2_piece ?n second evs \<and> orders evs \<in> {[], [2]} \<and> (?n \<longrightarrow> starts_with_order 2 evs \<and> \<not> homed_it evs)"
    for second evs
  proof (cases second)
    case (Inl g)
    have "page7_first ([] @ evs @ l)" by (rule second_page7 [OF assms(1)]) (use piece in auto)
    with Inl piece assms show ?thesis
      by (auto intro!: logs_return simp: boot_run_ok_def so_far_def stage2_piece_def split: if_splits)
  next
    case (Inr x)
    obtain moved info where x: "x = (moved, info)" by (cases x)
    have "boot_run_ok g (fin @ B_Hold # evs @ l)"
      if "still_there fin \<and> (reshown fin \<longleftrightarrow> moved) \<and> mg_outcome g = MO_Ok" for g fin
    proof -
      have "page7_first ((fin @ [B_Hold]) @ evs @ l)" by (rule second_page7 [OF assms(1)]) (use piece that in auto)
      with Inr x piece assms that show ?thesis
        by (auto simp: boot_run_ok_def so_far_def stage2_piece_def split: if_splits)
    qed
    then show ?thesis
      unfolding Inr x
      by (simp, intro logs_bind logs_noting logs_post [OF op_finish_logs]) (auto simp: extends_def)
  qed
  show ?thesis
    unfolding op_second_def boot_recording_simps if_P [OF plan_proceeds [OF assms(2)]]
    by (rule logs_chain [OF op_stage2_logs], rule ended)
qed

lemma op_stages_logs:
  assumes "asks l" "reports l = [first]" "pl_terminal (bootUpdateDecide first) = BOOT_PLAN_PROCEED"
  shows "logs (op_stages (boot_recording h) addr (bootUpdateDecide first) first) boot_run_ok l"
proof (cases "pl_needStage1 (bootUpdateDecide first)")
  case False
  then have "so_far first l" using assms asks_quiet [OF assms(1)] by (simp add: so_far_def)
  with False show ?thesis
    by (simp add: op_stages_def op_second_logs assms(3))
next
  case True
  have "logs (case r of Inl g \<Rightarrow> State_Monad.return g
      | Inr info \<Rightarrow> op_second (boot_recording h) addr (bootUpdateDecide first) info) boot_run_ok (evs @ l)"
    if piece: "stage1_piece r evs" for r evs
  proof (cases r)
    case (Inl g)
    then have "page7_first (evs @ l)"
      using piece asks_quiet [OF assms(1)] by (intro page7_no_second) (simp add: stage1_piece_def)
    with Inl piece True assms asks_quiet [OF assms(1)] show ?thesis
      by (auto intro!: logs_return simp: boot_run_ok_def stage1_piece_def)
  next
    case (Inr info)
    then have "so_far first (evs @ l)"
      using piece True assms asks_quiet [OF assms(1)] by (simp add: so_far_def stage1_piece_def)
    with Inr show ?thesis
      by (simp add: op_second_logs assms(3))
  qed
  then show ?thesis
    unfolding op_stages_def if_P [OF True]
    by (rule logs_chain [OF op_stage1_logs])
qed

text \<open>The recorded run is the run of the hooks themselves.\<close>

lemma shadows_option [shadow_rules]:
  "shadows m' m \<Longrightarrow> (\<And>a. shadows (n' a) (n a)) \<Longrightarrow>
     shadows (case x of None \<Rightarrow> m' | Some a \<Rightarrow> n' a) (case x of None \<Rightarrow> m | Some a \<Rightarrow> n a)"
  by (cases x) simp_all

lemma shadows_sum [shadow_rules]:
  "(\<And>a. shadows (m' a) (m a)) \<Longrightarrow> (\<And>b. shadows (n' b) (n b)) \<Longrightarrow>
     shadows (case x of Inl a \<Rightarrow> m' a | Inr b \<Rightarrow> n' b) (case x of Inl a \<Rightarrow> m a | Inr b \<Rightarrow> n b)"
  by (cases x) simp_all

lemma shadows_ends: "shadows m' m \<Longrightarrow> shadows (ends m') (ends m)"
  by (auto simp: ends_def intro!: shadow_rules)

lemma shadows_asks: "shadows (stage1_asks (boot_recording h) addr gaps info) (stage1_asks h addr gaps info)"
  by (induction gaps arbitrary: info) (auto intro!: shadow_rules)

lemma shadows_polls: "shadows (stage2_polls n (boot_recording h) addr start s x) (stage2_polls n h addr start s x)"
  by (induction n arbitrary: x) (auto intro!: shadow_rules simp: Let_def split: option.split)

lemma shadows_pieces:
  "shadows (op_finish (boot_recording h) moved info at outcome why) (op_finish h moved info at outcome why)"
  "shadows (home_and_wait (boot_recording h) addr) (home_and_wait h addr)"
  by (auto intro!: shadow_rules simp: op_finish_def home_and_wait_def)

lemmas shadow_pieces = shadow_rules shadows_ends shadows_asks shadows_polls shadows_pieces

lemma shadows_stage1: "shadows (op_stage1 (boot_recording h) addr info) (op_stage1 h addr info)"
  by (auto intro!: shadow_pieces
      simp: op_stage1_def stage1_left_asks stage1_started_def stage1_verify_def op_failed_def)

lemma shadows_stage2: "shadows (op_stage2 (boot_recording h) addr n moved info) (op_stage2 h addr n moved info)"
proof -
  have "shadows (op_stage2_send (boot_recording h) addr moved info) (op_stage2_send h addr moved info)" for moved info
    by (auto intro!: shadow_pieces simp: op_stage2_send_def stage2_graded_def op_failed_def Let_def)
  then show ?thesis
    by (auto intro!: shadow_pieces simp: op_stage2_def stage2_homed_def op_failed_def)
qed

lemma shadows_update: "shadows (bootUpdateRun (boot_recording h) addr) (bootUpdateRun h addr)"
proof -
  have "shadows (op_second (boot_recording h) addr plan info) (op_second h addr plan info)" for plan info
    by (auto intro!: shadow_pieces shadows_stage2 simp: op_second_def split: prod.split)
  then have stages: "shadows (op_stages (boot_recording h) addr plan info) (op_stages h addr plan info)" for plan info
    by (auto intro!: shadow_pieces shadows_stage1 simp: op_stages_def)
  show ?thesis
    unfolding bootUpdateRun_def
    by (auto intro!: shadow_pieces stages simp: Let_def op_failed_def split: BootUpdateTerminal.split)
qed

definition boot_log :: "'w boot_hooks \<Rightarrow> u8 \<Rightarrow> 'w \<Rightarrow> boot_log" where
  "boot_log h addr w = snd (snd (run_state (bootUpdateRun (boot_recording h) addr) (w, [])))"

lemma bootUpdateRun_logs: "logs (bootUpdateRun (boot_recording h) addr) boot_run_ok []"
  unfolding bootUpdateRun_def boot_recording_simps
proof (rule logs_bind, rule logs_noting, rule logs_option)
  fix r :: "BootUpdateReport option" assume "r = None"
  then show "logs (op_failed (boot_recording h) False empty_report BS_ReadInfo MR_BootInfoReadFail) boot_run_ok [B_Report r]"
    unfolding op_failed_def
    by (intro logs_post [OF op_finish_logs]) (auto simp: extends_def boot_run_ok_def page7_quiet)
next
  fix r :: "BootUpdateReport option" and info assume r: "r = Some info"
  have finished: "logs (op_finish (boot_recording h) False info at outcome why) boot_run_ok (evs @ [B_Report r])"
    if "asks evs" "outcome = MO_Ok \<Longrightarrow> reports evs = [] \<and> bu_state info = BOOT_STATE_NEW" for at outcome why evs
    by (rule logs_post [OF op_finish_logs])
      (use that asks_quiet [of evs] r in \<open>auto simp: extends_def boot_run_ok_def page7_quiet\<close>)
  have new: "pl_terminal (bootUpdateDecide info) = BOOT_PLAN_ALREADY_NEW \<Longrightarrow> bu_state info = BOOT_STATE_NEW"
    by (simp add: bootUpdateDecide_def Let_def split: if_splits)
  have idle: "logs (if \<not> b then op_failed (boot_recording h) False info BS_Settle MR_BootUnitBusy
      else op_stages (boot_recording h) addr (bootUpdateDecide info) info) boot_run_ok (B_Idle b # [B_Report r])"
    if "pl_terminal (bootUpdateDecide info) = BOOT_PLAN_PROCEED" for b
    using finished [of "[B_Idle b]" MO_PostconditionFail BS_Settle MR_BootUnitBusy]
      op_stages_logs [of "[B_Idle b, B_Report r]" info h addr] that r
    by (auto simp: op_failed_def intro!: logs_if)
  show "logs (let plan = bootUpdateDecide info in
      case pl_terminal plan of
        BOOT_PLAN_PROCEED \<Rightarrow> do {
          idle \<leftarrow> noting (bh_waitIdle h addr BOOT_UPDATE_IDLE_MS) B_Idle;
          if \<not> idle then op_failed (boot_recording h) False info BS_Settle MR_BootUnitBusy
          else op_stages (boot_recording h) addr plan info
        }
      | BOOT_PLAN_ALREADY_NEW \<Rightarrow> op_finish (boot_recording h) False info BS_Plan MO_Ok MR_BootAlreadyNew
      | BOOT_PLAN_LOCK_REFUSED \<Rightarrow> op_failed (boot_recording h) False info BS_Plan MR_BootLockRefused
      | BOOT_PLAN_UNKNOWN_STATE \<Rightarrow> op_failed (boot_recording h) False info BS_Plan MR_BootStateUnknown)
      boot_run_ok [B_Report r]"
    using finished [of "[]"] new
    by (cases "pl_terminal (bootUpdateDecide info)") (auto simp: Let_def op_failed_def intro!: logs_bind logs_noting idle)
qed

text \<open>The same, with the states spelled out: what the first report must say for a stage to be the first one
  ordered, and the rules of a run in the unit's own words.\<close>

definition called_for :: "BootUpdateReport \<Rightarrow> u8 \<Rightarrow> bool" where
  "called_for r stage \<longleftrightarrow> bootLockPermitsBootWrite (bootEffectiveLockByte r)
     \<and> (if stage = 1 then bu_state r = BOOT_STATE_OLD
        else bu_state r \<in> {BOOT_STATE_PAGE7_INSTALLED, BOOT_STATE_TRAMPOLINE, BOOT_STATE_PREV_NEW})"

definition boot_run_sound :: "MaintGrade \<Rightarrow> boot_log \<Rightarrow> bool" where
  "boot_run_sound g l \<longleftrightarrow>
     (mg_outcome g = MO_Ok \<longrightarrow> reports l \<noteq> [] \<and> bu_state (hd (reports l)) = BOOT_STATE_NEW)
     \<and> orders l \<in> {[], [1], [2], [2, 1]}
     \<and> (orders l \<noteq> [] \<longrightarrow> reports l \<noteq> [] \<and> called_for (last (reports l)) (last (orders l)))
     \<and> page7_first l
     \<and> (reshown l \<longleftrightarrow> homed_it l)"

lemma proceed_called_for:
  assumes "pl_terminal (bootUpdateDecide r) = BOOT_PLAN_PROCEED" "pl_needStage1 (bootUpdateDecide r) \<longleftrightarrow> stage = 1"
  shows "called_for r stage"
  using assms by (auto simp: called_for_def bootUpdateDecide_def Let_def split: if_splits)

lemma run_ok_sound: "boot_run_ok g l \<Longrightarrow> boot_run_sound g l"
  unfolding boot_run_ok_def boot_run_sound_def using proceed_called_for by blast

text \<open>C21: The update of a boot section, whatever the unit and the bus do: it reports success only when the
  unit's own last report says it carries the current image; it orders nothing unless the unit's first
  report said that the lock lets the section be written, and orders each stage at most once, the first of
  them stage 1 when that report said the old image is in place, and stage 2 when it said that page 7 is
  installed, the trampoline is in place, or an earlier new image is; stage 2 after stage 1 only on a report
  that page 7 is installed; and the row's frame is put back exactly when the unit was homed.
\<close>

theorem boot_update_sound: "boot_run_sound (fst (run_state (bootUpdateRun h addr) w)) (boot_log h addr w)"
  using logs_run [OF bootUpdateRun_logs, of h addr w, THEN run_ok_sound]
  by (simp add: boot_log_def shadows_run [OF shadows_update])

section \<open>The polls come to an end\<close>

text \<open>A clock of milliseconds the hooks read, which their pauses and reads move on, no step by more than
  ten minutes.\<close>

definition ticking :: "'w boot_hooks \<Rightarrow> ('w \<Rightarrow> nat) \<Rightarrow> bool" where
  "ticking h ms \<longleftrightarrow>
     (\<forall>w. run_state (bh_nowMs h) w = (of_nat (ms w), w))
     \<and> (\<forall>t. triple (\<lambda>w. ms w = t) (bh_pause h 100) (\<lambda>_ w. t < ms w \<and> ms w \<le> t + 600000))
     \<and> (\<forall>t a. triple (\<lambda>w. ms w = t) (bh_readBootInfo h a) (\<lambda>_ w. t \<le> ms w \<and> ms w \<le> t + 600000))"

lemma ticking_run:
  assumes "ticking h ms"
  shows "run_state (bh_nowMs h) w = (of_nat (ms w), w)"
    "ms w < ms (snd (run_state (bh_pause h 100) w))" "ms (snd (run_state (bh_pause h 100) w)) \<le> ms w + 600000"
    "ms w \<le> ms (snd (run_state (bh_readBootInfo h a) w))"
    "ms (snd (run_state (bh_readBootInfo h a) w)) \<le> ms w + 600000"
  using assms by (auto simp: ticking_def triple_def)

lemma window_open:
  "t0 \<le> t \<Longrightarrow> t - t0 < 2 ^ 31 \<Longrightarrow> (of_nat t - of_nat t0 :: u32) < 5000 \<longleftrightarrow> t - t0 < 5000"
  by (simp add: word_less_nat_alt unat_of_nat take_bit_nat_eq_self flip: of_nat_diff)

text \<open>One round of the polls on such a clock.\<close>

lemma stage2_polls_round:
  assumes "ticking h ms" "t0 \<le> ms w" "ms w - t0 < 2 ^ 31"
  shows "run_state (stage2_polls (Suc n) h addr (of_nat t0) s x) w =
    (if ms w - t0 < 5000
     then (let r = fst (run_state (bh_readBootInfo h addr) w); w1 = snd (run_state (bh_readBootInfo h addr) w);
               x' = (case r of None \<Rightarrow> x | Some info \<Rightarrow> (True, info));
               verdict = (case r of None \<Rightarrow> BOOT_POLL_WAIT | Some info \<Rightarrow> bootStage2Poll info s)
           in if verdict \<noteq> BOOT_POLL_WAIT then ((verdict, x'), w1)
              else run_state (stage2_polls n h addr (of_nat t0) s x') (snd (run_state (bh_pause h 100) w1)))
     else ((BOOT_POLL_WAIT, x), w))"
  using window_open [OF assms(2,3)]
  by (simp add: ticking_run(1) [OF assms(1)] case_prod_beta Let_def)

text \<open>The polls end by the clock, not by the fuel: any more of it gives the same run.\<close>

lemma stage2_polls_fuel:
  assumes "ticking h ms" "t0 \<le> ms w" "ms w - t0 \<le> 5000 + 1200000"
    "5000 < n + (ms w - t0)" "5000 < m + (ms w - t0)"
  shows "run_state (stage2_polls n h addr (of_nat t0) s x) w = run_state (stage2_polls m h addr (of_nat t0) s x) w"
  using assms(2-5)
proof (induction n arbitrary: m w x)
  case 0
  then have "5000 < ms w - t0" by simp
  then show ?case
    using stage2_polls_round [OF assms(1) 0(1)] 0(2) by (cases m) (simp_all del: stage2_polls.simps(2))
next
  case (Suc n)
  have short: "ms w - t0 < 2 ^ 31" using Suc.prems(2) by simp
  note round = stage2_polls_round [OF assms(1) Suc.prems(1) short]
  show ?case
  proof (cases "ms w - t0 < 5000")
    case False
    then show ?thesis
      using round by (cases m) (simp_all del: stage2_polls.simps(2))
  next
    case True
    then obtain k where m: "m = Suc k" using Suc.prems(4) by (cases m) auto
    define w1 where "w1 = snd (run_state (bh_readBootInfo h addr) w)"
    define w2 where "w2 = snd (run_state (bh_pause h 100) w1)"
    have "ms w \<le> ms w1" "ms w1 \<le> ms w + 600000" "ms w1 < ms w2" "ms w2 \<le> ms w1 + 600000"
      unfolding w1_def w2_def using ticking_run [OF assms(1)] by blast+
    then have "t0 \<le> ms w2" "ms w2 - t0 \<le> 5000 + 1200000" "5000 < n + (ms w2 - t0)" "5000 < k + (ms w2 - t0)"
      using Suc.prems True m by simp_all
    from Suc.IH [OF this] show ?thesis
      unfolding m round by (simp add: True Let_def w1_def w2_def del: stage2_polls.simps(2))
  qed
qed

end
