(* ===== verification/Wall_Layout.thy ===== *)
theory Wall_Layout
  imports SF_Prelude "HOL-Library.Sublist" "HOL-Library.Multiset"
begin

text \<open>
  The layout of a text on a wall of rows (Master/ClusterLayout.h): the table of members, each the owner
  of a span of columns of its row, its check, the word wrap of a text over the rows, the alignment, the
  slices the members get, and the way back from the slices to the wall as it hangs. Indices and widths
  that the code keeps in \<open>int\<close> are natural numbers: they are sums of at most nine bytes and never
  negative where they are used. An Arduino string is a list of characters.
\<close>

section \<open>The table\<close>

definition CLUSTER_MAX_MEMBERS :: nat where "CLUSTER_MAX_MEMBERS = 8"

datatype DisplayAlignment = DA_Left | DA_Center | DA_Right

record ClusterMemberDef =
  cm_host :: string
  cm_row :: u8
  cm_col :: u8
  cm_width :: u8

text \<open>The array of members has room for eight; only the first \<open>count\<close> are used.\<close>

record ClusterMemberTable =
  ct_count :: u8
  ct_members :: "ClusterMemberDef list"

definition table_shape :: "ClusterMemberTable \<Rightarrow> bool" where
  "table_shape t \<longleftrightarrow> length (ct_members t) = CLUSTER_MAX_MEMBERS"

record ClusterGrid =
  cg_rows :: u8
  cg_rowWidth :: "u16 list"
  cg_rowExtent :: "u16 list"

definition empty_grid :: ClusterGrid where
  "empty_grid = \<lparr>cg_rows = 0, cg_rowWidth = replicate CLUSTER_MAX_MEMBERS 0,
     cg_rowExtent = replicate CLUSTER_MAX_MEMBERS 0\<rparr>"

abbreviation slots :: "ClusterMemberTable \<Rightarrow> nat list" where
  "slots t \<equiv> [0..<unat (ct_count t)]"

abbreviation member_at :: "ClusterMemberTable \<Rightarrow> nat \<Rightarrow> ClusterMemberDef" where
  "member_at t i \<equiv> ct_members t ! i"

definition clusterSpanIsFirst :: "ClusterMemberTable \<Rightarrow> nat \<Rightarrow> bool" where
  "clusterSpanIsFirst t i \<longleftrightarrow>
     list_all (\<lambda>j. \<not> (cm_width (member_at t j) \<noteq> 0 \<and> cm_row (member_at t j) = cm_row (member_at t i)
       \<and> cm_col (member_at t j) = cm_col (member_at t i))) [0..<i]"

definition clusterTextOffset :: "ClusterMemberTable \<Rightarrow> u8 \<Rightarrow> u8 \<Rightarrow> nat" where
  "clusterTextOffset t row col =
     sum_list (map (\<lambda>i. if cm_width (member_at t i) = 0 \<or> cm_row (member_at t i) \<noteq> row \<or> cm_col (member_at t i) \<ge> col
                        then 0
                        else if clusterSpanIsFirst t i then unat (cm_width (member_at t i)) else 0)
       (slots t))"

section \<open>The check of the table\<close>

record ClusterVerdict =
  cv_ok :: bool
  cv_message :: string

text \<open>The first loop: the highest row of a member on the grid, or nothing when a row is beyond the cap.\<close>

fun max_row :: "ClusterMemberDef list \<Rightarrow> int \<Rightarrow> int option" where
  "max_row [] m = Some m"
| "max_row (d # ds) m =
     (if unat (cm_row d) \<ge> CLUSTER_MAX_MEMBERS then None
      else if cm_width d = 0 then max_row ds m
      else max_row ds (if int (unat (cm_row d)) > m then int (unat (cm_row d)) else m))"

definition spans_overlap :: "ClusterMemberDef \<Rightarrow> ClusterMemberDef \<Rightarrow> bool" where
  "spans_overlap a b \<longleftrightarrow>
     \<not> (cm_width b = 0 \<or> cm_row b \<noteq> cm_row a) \<and> \<not> (cm_col a = cm_col b \<and> cm_width a = cm_width b)
     \<and> unat (cm_col a) < unat (cm_col b) + unat (cm_width b) \<and> unat (cm_col b) < unat (cm_col a) + unat (cm_width a)"

definition members_overlap :: "ClusterMemberTable \<Rightarrow> bool" where
  "members_overlap t \<longleftrightarrow>
     list_ex (\<lambda>i. cm_width (member_at t i) \<noteq> 0
       \<and> list_ex (\<lambda>j. spans_overlap (member_at t i) (member_at t j)) [i + 1..<unat (ct_count t)]) (slots t)"

definition add_member :: "ClusterMemberTable \<Rightarrow> nat \<Rightarrow> ClusterGrid \<Rightarrow> ClusterGrid" where
  "add_member t i g =
     (let m = member_at t i; r = unat (cm_row m);
          extent = of_nat (unat (cm_col m) + unat (cm_width m)) :: u16
      in if cm_width m = 0 then g
         else let g = (if extent > cg_rowExtent g ! r then g\<lparr>cg_rowExtent := (cg_rowExtent g)[r := extent]\<rparr> else g)
              in if clusterSpanIsFirst t i
                 then g\<lparr>cg_rowWidth := (cg_rowWidth g)[r := cg_rowWidth g ! r + ucast (cm_width m)]\<rparr>
                 else g)"

definition validateMemberTable :: "ClusterMemberTable \<Rightarrow> ClusterVerdict \<times> ClusterGrid" where
  "validateMemberTable t =
     (let bad = (\<lambda>why. (\<lparr>cv_ok = False, cv_message = why\<rparr>, empty_grid)) in
      if ct_count t = 0 then bad ''Member table is empty''
      else if unat (ct_count t) > CLUSTER_MAX_MEMBERS then bad ''Too many members (max 8)''
      else case max_row (take (unat (ct_count t)) (ct_members t)) (- 1) of
        None \<Rightarrow> bad ''Row index beyond the member cap''
      | Some maxRow \<Rightarrow>
          if maxRow = - 1 then bad ''No rendering members (all off-grid)''
          else if members_overlap t then bad ''Members overlap''
          else let g = fold (add_member t) (slots t) empty_grid in
               if list_ex (\<lambda>r. cg_rowWidth g ! r = 0) [0..<nat (maxRow + 1)]
               then bad ''Rows must be contiguous from 0''
               else (\<lparr>cv_ok = True, cv_message = ''''\<rparr>, g\<lparr>cg_rows := of_int (maxRow + 1)\<rparr>))"

section \<open>Alignment\<close>

definition clusterAlignRow :: "string \<Rightarrow> nat \<Rightarrow> DisplayAlignment \<Rightarrow> string" where
  "clusterAlignRow text width align =
     (let len = (if length text > width then width else length text);
          lead = (if len < width
                  then (case align of DA_Right \<Rightarrow> width - len | DA_Center \<Rightarrow> (width - len) div 2 | DA_Left \<Rightarrow> 0)
                  else 0)
      in map (\<lambda>i. let textIndex = int i - int lead
                  in if textIndex \<ge> 0 \<and> textIndex < int len then text ! nat textIndex else CHR '' '') [0..<width])"

section \<open>The wrap\<close>

text \<open>\<open>norm.replace("\\n", "\n")\<close>: the two characters of the wire's marker become a newline.\<close>

abbreviation newline :: char where "newline \<equiv> CHR 0x0A"
abbreviation backslash :: char where "backslash \<equiv> CHR 0x5C"
abbreviation space :: char where "space \<equiv> CHR 0x20"

fun unmark :: "string \<Rightarrow> string" where
  "unmark (c # d # s) = (if c = backslash \<and> d = CHR ''n'' then newline # unmark s else c # unmark (d # s))"
| "unmark s = s"

definition grid_width :: "ClusterGrid \<Rightarrow> nat \<Rightarrow> nat" where
  "grid_width g r = unat (cg_rowWidth g ! r)"

text \<open>The inner loop: what is left of a word too wide for its row is cut over the rows.\<close>

function split_word :: "(nat \<Rightarrow> nat) \<Rightarrow> nat \<Rightarrow> string \<Rightarrow> nat \<Rightarrow> string list \<Rightarrow> string \<times> nat \<times> string list" where
  "split_word wd n word row rows =
     (if word = [] \<or> n \<le> row then (word, row, rows)
      else let chunkWidth = wd row; line = rows ! row
           in if length line > 0 \<and> length line + 1 \<ge> chunkWidth then split_word wd n word (row + 1) rows
              else let line = (if length line > 0 then line @ [space] else line);
                       took = min (chunkWidth - length line) (length word);
                       rest = drop took word
                   in split_word wd n rest (if rest \<noteq> [] then row + 1 else row)
                        (rows[row := line @ take took word]))"
  by pat_completeness auto
termination
  by (relation "measure (\<lambda>(wd, n, word, row, rows). length word + (n - row))") (auto simp: Let_def neq_Nil_conv)

declare split_word.simps [simp del]

lemma split_word_ends:
  assumes "split_word wd n word row rows = (word', row', rows')"
  shows "row \<le> row' \<and> (word' = [] \<or> n \<le> row') \<and> length word' \<le> length word"
  using assms
proof (induction wd n word row rows rule: split_word.induct)
  case (1 wd n word row rows)
  show ?case
  proof (cases "word = [] \<or> n \<le> row")
    case True
    with "1.prems" show ?thesis by (simp add: split_word.simps [of wd n word row rows])
  next
    case False
    show ?thesis
    proof (cases "length (rows ! row) > 0 \<and> length (rows ! row) + 1 \<ge> wd row")
      case True
      with False "1.prems" "1.IH"(1) [OF False refl refl True] show ?thesis
        by (simp add: split_word.simps [of wd n word row rows])
    next
      case full: False
      from False full "1.prems" "1.IH"(2) [OF False refl refl full refl refl refl] show ?thesis
        by (simp add: split_word.simps [of wd n word row rows] Let_def split: if_splits)
    qed
  qed
qed

text \<open>The outer loop, over what is left of the text.\<close>

definition is_break :: "char \<Rightarrow> bool" where
  "is_break c \<longleftrightarrow> c = space \<or> c = newline"

function wrap_rows :: "(nat \<Rightarrow> nat) \<Rightarrow> nat \<Rightarrow> string \<Rightarrow> nat \<Rightarrow> string list \<Rightarrow> string list" where
  "wrap_rows wd n str row rows =
     (if str = [] \<or> n \<le> row then rows
      else let p = dropWhile (\<lambda>c. c = space) str
           in if p = [] then rows
              else if hd p = newline then wrap_rows wd n (tl p) (row + 1) rows
              else let word = takeWhile (\<lambda>c. \<not> is_break c) p; rest = dropWhile (\<lambda>c. \<not> is_break c) p;
                       line = rows ! row;
                       need = (if length line = 0 then length word else length line + 1 + length word)
                   in if need \<le> wd row
                      then wrap_rows wd n rest row
                        (rows[row := (if length line > 0 then line @ [space] else line) @ word])
                      else if row + 1 < n \<and> length word \<le> wd (row + 1)
                      then wrap_rows wd n rest (row + 1) (rows[row + 1 := word])
                      else if length word \<le> wd row then rows
                      else (case split_word wd n word row rows of
                              (word', row', rows') \<Rightarrow> wrap_rows wd n (word' @ rest) row' rows'))"
  by pat_completeness auto

lemma word_taken:
  assumes "p = dropWhile (\<lambda>c. c = space) str" "p \<noteq> []" "hd p \<noteq> newline"
  shows "takeWhile (\<lambda>c. \<not> is_break c) p \<noteq> []"
    "length (dropWhile (\<lambda>c. \<not> is_break c) p) < length str"
proof -
  from assms(1,2) have "hd p \<noteq> space" using hd_dropWhile [of "\<lambda>c. c = space" str] by auto
  with assms(3) have "\<not> is_break (hd p)" by (simp add: is_break_def)
  with assms(2) show "takeWhile (\<lambda>c. \<not> is_break c) p \<noteq> []" by (cases p) auto
  have "length (dropWhile (\<lambda>c. \<not> is_break c) p) < length p"
    using \<open>\<not> is_break (hd p)\<close> assms(2) by (cases p) (auto simp: less_Suc_eq_le length_dropWhile_le)
  also have "length p \<le> length str" by (simp add: assms(1) length_dropWhile_le)
  finally show "length (dropWhile (\<lambda>c. \<not> is_break c) p) < length str" .
qed

termination wrap_rows
proof (relation "measure (\<lambda>(wd, n, str, row, rows). length str + (n - row))", goal_cases)
  case 1
  show ?case by simp
next
  case (2 wd n str row rows p)
  then have "length (tl p) < length str"
    by (metis length_dropWhile_le length_greater_0_conv length_tl less_le_trans diff_less zero_less_one)
  with 2 show ?case by auto
next
  case (3 wd n str row rows p word rest line need)
  have "length rest < length str" "\<not> n \<le> row"
    using word_taken [of p str] 3 by simp_all
  then show ?case by auto
next
  case (4 wd n str row rows p word rest line need)
  have "length rest < length str" "\<not> n \<le> row"
    using word_taken [of p str] 4 by simp_all
  then show ?case by auto
next
  case (5 wd n str row rows p word rest line need word' both row' rows')
  then have "split_word wd n word row rows = (word', row', rows')" by simp
  note cut_ends = split_word_ends [OF this]
  have shorter: "length rest < length str" using word_taken [of p str] 5 by simp
  have "length word + length rest = length p" using 5 by (metis length_append takeWhile_dropWhile_id)
  moreover have "length p \<le> length str" using 5 by (simp add: length_dropWhile_le)
  ultimately have "length (word' @ rest) \<le> length str" using cut_ends by simp
  with cut_ends shorter 5 show ?case by auto
qed

declare wrap_rows.simps [simp del]

definition clusterWrapRows :: "string \<Rightarrow> ClusterGrid \<Rightarrow> string list" where
  "clusterWrapRows text g =
     wrap_rows (grid_width g) (unat (cg_rows g)) (unmark text) 0 (replicate (unat (cg_rows g)) [])"

section \<open>The slices\<close>

definition substring :: "string \<Rightarrow> nat \<Rightarrow> nat \<Rightarrow> string" where
  "substring s from until = take (until - from) (drop from s)"

definition clusterSliceSegment :: "ClusterMemberTable \<Rightarrow> string list \<Rightarrow> nat \<Rightarrow> string" where
  "clusterSliceSegment t rows m =
     (let d = member_at t m
      in if cm_width d = 0 then []
         else let from = clusterTextOffset t (cm_row d) (cm_col d)
              in substring (rows ! unat (cm_row d)) from (from + unat (cm_width d)))"

definition align_rows :: "ClusterGrid \<Rightarrow> DisplayAlignment \<Rightarrow> string list \<Rightarrow> string list" where
  "align_rows g align rows = map (\<lambda>r. clusterAlignRow (rows ! r) (grid_width g r) align) [0..<unat (cg_rows g)]"

definition layoutGridText :: "string \<Rightarrow> DisplayAlignment \<Rightarrow> ClusterMemberTable \<Rightarrow> string list option" where
  "layoutGridText text align t =
     (case validateMemberTable t of (v, g) \<Rightarrow>
        if \<not> cv_ok v then None
        else let rows = align_rows g align (clusterWrapRows text g)
             in Some (map (clusterSliceSegment t rows) (slots t)))"

definition clusterClockSegments ::
  "string \<Rightarrow> string \<Rightarrow> DisplayAlignment \<Rightarrow> ClusterMemberTable \<Rightarrow> string list option" where
  "clusterClockSegments timeText dateText align t =
     (case validateMemberTable t of (v, g) \<Rightarrow>
        if \<not> cv_ok v then None
        else let rows = (replicate CLUSTER_MAX_MEMBERS [])[0 := timeText];
                 rows = (if cg_rows g \<ge> 2 then rows[1 := dateText] else rows);
                 rows = align_rows g align rows
             in Some (map (clusterSliceSegment t rows) (slots t)))"

section \<open>The wall as it hangs\<close>

text \<open>\<open>setCharAt\<close> for every column of one member.\<close>

definition paint :: "nat \<Rightarrow> string \<Rightarrow> string \<Rightarrow> string" where
  "paint col slot row = fold (\<lambda>c row. row[col + c := slot ! c]) [0..<length slot] row"

definition mirror_member ::
  "ClusterMemberTable \<Rightarrow> string list \<Rightarrow> string \<Rightarrow> DisplayAlignment \<Rightarrow> bool \<Rightarrow> nat \<Rightarrow> string list \<Rightarrow> string list" where
  "mirror_member t segments selfRowText selfAlign self m rows =
     (let d = member_at t m; width = unat (cm_width d)
      in if (cm_host d = []) \<noteq> self then rows
         else let slot = (if self then clusterAlignRow selfRowText width selfAlign
                          else clusterAlignRow (segments ! m) width DA_Left);
                  r = unat (cm_row d)
              in rows[r := paint (unat (cm_col d)) slot (rows ! r)])"

text \<open>The count of rows, and the rows themselves; without a valid table there are none.\<close>

definition clusterMirrorRows ::
  "ClusterMemberTable \<Rightarrow> string list \<Rightarrow> string \<Rightarrow> DisplayAlignment \<Rightarrow> nat \<times> string list" where
  "clusterMirrorRows t segments selfRowText selfAlign =
     (case validateMemberTable t of (v, g) \<Rightarrow>
        if \<not> cv_ok v then (0, [])
        else let blank = map (\<lambda>r. clusterAlignRow [] (unat (cg_rowExtent g ! r)) DA_Left) [0..<unat (cg_rows g)];
                 rows = fold (mirror_member t segments selfRowText selfAlign False) (slots t) blank;
                 rows = fold (mirror_member t segments selfRowText selfAlign True) (slots t) rows
             in (unat (cg_rows g), rows))"

end
