(* ===== verification/Wall_Text.thy ===== *)
theory Wall_Text
  imports Wall_Layout
begin

text \<open>
  What the wrap of a text over the rows of a wall does: it never overfills a row, loses, repeats or
  reorders a character up to where it gives up, never tears a word that a row can hold, and on rows
  of one width shows all words of a text whenever some arrangement of them fits the wall at all.
\<close>

section \<open>Words\<close>

function words :: "string \<Rightarrow> string list" where
  "words s = (let p = dropWhile is_break s
              in if p = [] then [] else takeWhile (\<lambda>c. \<not> is_break c) p # words (dropWhile (\<lambda>c. \<not> is_break c) p))"
  by pat_completeness auto
termination
proof (relation "measure length", goal_cases)
  case (2 s p)
  then have "hd p \<notin> Collect is_break" "p \<noteq> []" using hd_dropWhile [of is_break s] by auto
  then have "length (dropWhile (\<lambda>c. \<not> is_break c) p) < length p"
    by (cases p) (auto simp: less_Suc_eq_le length_dropWhile_le)
  also have "length p \<le> length s" using 2 by (simp add: length_dropWhile_le)
  finally show ?case by simp
qed simp

declare words.simps [simp del]

lemma words_Nil [simp]: "words [] = []"
  by (simp add: words.simps)

lemma words_break [simp]: "is_break c \<Longrightarrow> words (c # s) = words s"
  by (simp add: words.simps [of "c # s"] words.simps [of s])

lemma words_spaces: "words (dropWhile (\<lambda>c. c = space) s) = words s"
  by (induction s) (auto simp: is_break_def)

lemma words_single: "w \<noteq> [] \<Longrightarrow> list_all (\<lambda>c. \<not> is_break c) w \<Longrightarrow> words w = [w]"
proof -
  assume w: "w \<noteq> []" "list_all (\<lambda>c. \<not> is_break c) w"
  then have "dropWhile is_break w = w" by (cases w) auto
  moreover have "takeWhile (\<lambda>c. \<not> is_break c) w = w" "dropWhile (\<lambda>c. \<not> is_break c) w = []"
    using w(2) by (simp_all add: list_all_iff)
  moreover from this(2) have "words (dropWhile (\<lambda>c. \<not> is_break c) w) = []" by (simp only: words_Nil)
  ultimately show ?thesis using w(1) by (simp add: words.simps [of w])
qed

lemma run_stops_at_break:
  assumes "is_break c"
  shows "takeWhile (\<lambda>c. \<not> is_break c) (a @ c # b) = takeWhile (\<lambda>c. \<not> is_break c) a"
    "dropWhile (\<lambda>c. \<not> is_break c) (a @ c # b) = dropWhile (\<lambda>c. \<not> is_break c) a @ c # b"
  using assms by (induction a) auto

lemma words_append: "is_break c \<Longrightarrow> words (a @ c # b) = words a @ words b"
proof (induction a rule: words.induct)
  case (1 s)
  show ?case
  proof (cases "dropWhile is_break s = []")
    case True
    then have "words s = []" "dropWhile is_break (s @ c # b) = dropWhile is_break b"
      using \<open>is_break c\<close> by (simp_all add: words.simps [of s] dropWhile_append3)
    then show ?thesis by (simp add: words.simps [of "s @ c # b"] words.simps [of b])
  next
    case False
    then have p: "dropWhile is_break (s @ c # b) = dropWhile is_break s @ c # b"
      by (auto simp: dropWhile_append)
    show ?thesis
      using False 1 by (simp add: words.simps [of "s @ c # b"] words.simps [of s] Let_def p run_stops_at_break)
  qed
qed

lemma words_nonempty: "w \<in> set (words s) \<Longrightarrow> w \<noteq> []"
proof (induction s rule: words.induct)
  case (1 s)
  show ?case
  proof (cases "dropWhile is_break s = []")
    case False
    with hd_dropWhile [of is_break s] have "takeWhile (\<lambda>c. \<not> is_break c) (dropWhile is_break s) \<noteq> []"
      by (cases "dropWhile is_break s") auto
    with 1 False show ?thesis by (auto simp: words.simps [of s] Let_def simp del: dropWhile_eq_Nil_conv)
  qed (use 1 in \<open>simp add: words.simps [of s]\<close>)
qed

text \<open>The next word of a text, as the wrap takes it.\<close>

lemma words_next:
  assumes "p = dropWhile (\<lambda>c. c = space) s" "p \<noteq> []" "hd p \<noteq> newline"
  shows "words s = takeWhile (\<lambda>c. \<not> is_break c) p # words (dropWhile (\<lambda>c. \<not> is_break c) p)"
proof -
  have "hd p \<noteq> space" using hd_dropWhile [of "\<lambda>c. c = space" s] assms(1,2) by auto
  then have "dropWhile is_break p = p" using assms(2,3) by (cases p) (auto simp: is_break_def)
  moreover have "words s = words p" using assms(1) words_spaces by simp
  ultimately show ?thesis using assms(2) by (simp add: words.simps [of p])
qed

lemma words_after_newline:
  assumes "p = dropWhile (\<lambda>c. c = space) s" "p \<noteq> []" "hd p = newline"
  shows "words s = words (tl p)"
proof -
  have "p = newline # tl p" using assms(2,3) by (cases p) auto
  then have "words p = words (tl p)" using words_break [of newline "tl p"] by (simp add: is_break_def)
  then show ?thesis using assms(1) words_spaces [of s] by simp
qed

definition solid :: "string \<Rightarrow> string" where
  "solid s = filter (\<lambda>c. \<not> is_break c) s"

lemma solid_simps [simp]:
  "solid [] = []" "solid (a @ b) = solid a @ solid b" "solid [space] = []"
  by (simp_all add: solid_def is_break_def)

lemma solid_spaces: "solid (dropWhile (\<lambda>c. c = space) s) = solid s"
  by (induction s) (auto simp: solid_def is_break_def)

lemma solid_run: "list_all (\<lambda>c. \<not> is_break c) w \<Longrightarrow> solid w = w"
  by (auto simp: solid_def list_all_iff filter_id_conv)

lemma run_solid [simp]: "list_all (\<lambda>c. \<not> is_break c) (takeWhile (\<lambda>c. \<not> is_break c) p)"
  by (auto simp: list_all_iff dest: set_takeWhileD)

text \<open>The text is a word, then the rest, but for breaks before the word.\<close>

definition next_word :: "string \<Rightarrow> string \<Rightarrow> string \<Rightarrow> bool" where
  "next_word str word rest \<longleftrightarrow> word \<noteq> [] \<and> list_all (\<lambda>c. \<not> is_break c) word \<and> words str = word # words rest
     \<and> solid str = word @ solid rest \<and> set rest \<subseteq> set str"

lemma next_word_taken:
  assumes "p = dropWhile (\<lambda>c. c = space) s" "p \<noteq> []" "hd p \<noteq> newline"
  shows "next_word s (takeWhile (\<lambda>c. \<not> is_break c) p) (dropWhile (\<lambda>c. \<not> is_break c) p)"
proof -
  have "takeWhile (\<lambda>c. \<not> is_break c) p \<noteq> []" using word_taken(1) [OF assms] .
  moreover have "solid p = takeWhile (\<lambda>c. \<not> is_break c) p @ solid (dropWhile (\<lambda>c. \<not> is_break c) p)"
    by (metis solid_simps(2) solid_run run_solid takeWhile_dropWhile_id)
  moreover have "solid p = solid s" by (simp add: assms(1) solid_spaces)
  ultimately show ?thesis
    using words_next [OF assms] assms(1) by (auto simp: next_word_def dest!: set_dropWhileD)
qed

section \<open>The rows so far\<close>

text \<open>While the wrap is at row \<open>row\<close>, every row is filled to its width at most and the later ones are blank.\<close>

definition wrapping :: "(nat \<Rightarrow> nat) \<Rightarrow> nat \<Rightarrow> nat \<Rightarrow> string list \<Rightarrow> bool" where
  "wrapping wd n row rows \<longleftrightarrow>
     length rows = n \<and> (\<forall>r<n. length (rows ! r) \<le> wd r) \<and> (\<forall>r. row < r \<and> r < n \<longrightarrow> rows ! r = [])"

lemma wrapping_step: "wrapping wd n row rows \<Longrightarrow> row \<le> row' \<Longrightarrow> wrapping wd n row' rows"
  by (auto simp: wrapping_def)

lemma wrapping_put:
  "wrapping wd n row rows \<Longrightarrow> row \<le> r \<Longrightarrow> r < n \<Longrightarrow> length line \<le> wd r \<Longrightarrow> wrapping wd n r (rows[r := line])"
  by (auto simp: wrapping_def nth_list_update)

lemma concat_wrapping:
  assumes "wrapping wd n row rows" "row \<le> r" "r < n"
  shows "concat rows = concat (take r rows) @ rows ! r"
    "concat (map f rows) = concat (map f (take r rows)) @ f (rows ! r) @ concat (replicate (n - Suc r) (f []))"
proof -
  have "drop (Suc r) rows = replicate (n - Suc r) []"
    using assms by (intro nth_equalityI) (auto simp: wrapping_def)
  then have rows: "rows = take r rows @ rows ! r # replicate (n - Suc r) []"
    using assms id_take_nth_drop [of r rows] by (simp add: wrapping_def)
  show "concat rows = concat (take r rows) @ rows ! r"
    by (subst rows) simp
  show "concat (map f rows) = concat (map f (take r rows)) @ f (rows ! r) @ concat (replicate (n - Suc r) (f []))"
    by (subst rows) simp
qed

text \<open>Writing a line adds to what all rows show together.\<close>

lemma concat_put:
  assumes "wrapping wd n row rows" "row \<le> r" "r < n" "length (rows ! r @ s) \<le> wd r"
  shows "concat (rows[r := rows ! r @ s]) = concat rows @ s"
  using concat_wrapping(1) [OF assms(1-3)]
    concat_wrapping(1) [OF wrapping_put [OF assms], of r] assms(1,3)
  by (simp add: wrapping_def)

section \<open>The ways of the wrap\<close>

text \<open>The two loops as relations, one rule for each way the code can go.\<close>

definition joiner :: "string \<Rightarrow> string" where
  "joiner line = (if line \<noteq> [] then [space] else [])"

inductive splits ::
  "(nat \<Rightarrow> nat) \<Rightarrow> nat \<Rightarrow> string \<Rightarrow> nat \<Rightarrow> string list \<Rightarrow> string \<times> nat \<times> string list \<Rightarrow> bool"
  for wd n where
  split_done: "word = [] \<or> n \<le> row \<Longrightarrow> splits wd n word row rows (word, row, rows)"
| split_full: "word \<noteq> [] \<Longrightarrow> row < n \<Longrightarrow> splits wd n word (row + 1) rows result \<Longrightarrow> splits wd n word row rows result"
| split_cut: "word = piece @ rest \<Longrightarrow> row < n \<Longrightarrow> length (rows ! row @ joiner (rows ! row) @ piece) \<le> wd row \<Longrightarrow>
     splits wd n rest (if rest \<noteq> [] then row + 1 else row) (rows[row := rows ! row @ joiner (rows ! row) @ piece]) result \<Longrightarrow>
     splits wd n word row rows result"

lemma splits_split_word:
  "(\<And>r. r < n \<Longrightarrow> length (rows ! r) \<le> wd r) \<Longrightarrow> length rows = n \<Longrightarrow> splits wd n word row rows (split_word wd n word row rows)"
proof (induction wd n word row rows rule: split_word.induct)
  case (1 wd n word row rows)
  show ?case
  proof (cases "word = [] \<or> n \<le> row")
    case True
    then show ?thesis by (simp add: split_word.simps [of wd n word row rows] split_done)
  next
    case open_word: False
    show ?thesis
    proof (cases "length (rows ! row) > 0 \<and> length (rows ! row) + 1 \<ge> wd row")
      case True
      from "1.IH"(1) [OF open_word refl refl True "1.prems"] True open_word show ?thesis
        by (auto simp: split_word.simps [of wd n word row rows] intro: split_full)
    next
      case fits: False
      have line: "(if length (rows ! row) > 0 then rows ! row @ [space] else rows ! row) = rows ! row @ joiner (rows ! row)"
        by (simp add: joiner_def)
      define took where "took = min (wd row - length (rows ! row @ joiner (rows ! row))) (length word)"
      let ?rows = "rows[row := rows ! row @ joiner (rows ! row) @ take took word]"
      have put: "length (rows ! row @ joiner (rows ! row) @ take took word) \<le> wd row"
        using fits open_word "1.prems"(1) [of row] by (auto simp: joiner_def took_def)
      have bound: "\<And>r. r < n \<Longrightarrow> length (?rows ! r) \<le> wd r"
        using put "1.prems" open_word by (auto simp: nth_list_update)
      have "splits wd n (drop took word) (if drop took word \<noteq> [] then row + 1 else row) ?rows
          (split_word wd n (drop took word) (if drop took word \<noteq> [] then row + 1 else row) ?rows)"
        using "1.IH"(2) [OF open_word refl refl fits refl refl refl, unfolded line append_assoc, folded took_def, OF bound] "1.prems"(2)
        by simp
      moreover have "split_word wd n word row rows
          = split_word wd n (drop took word) (if drop took word \<noteq> [] then row + 1 else row) ?rows"
        by (simp only: split_word.simps [of wd n word row rows] Let_def line if_not_P [OF open_word] if_not_P [OF fits]
            took_def append_assoc)
      ultimately show ?thesis using split_cut [of word "take took word" "drop took word"] put open_word by simp
    qed
  qed
qed

lemma splits_wrapping:
  assumes "splits wd n word row rows (word', row', rows')" "wrapping wd n row rows"
  shows "wrapping wd n row' rows'"
  using assms
proof (induction word row rows "(word', row', rows')" rule: splits.induct)
  case (split_cut word piece rest row rows)
  have "wrapping wd n (if rest \<noteq> [] then row + 1 else row) (rows[row := rows ! row @ joiner (rows ! row) @ piece])"
    using wrapping_step [OF wrapping_put [OF split_cut.prems order_refl split_cut.hyps(2,3)]] by simp
  then show ?case by (rule split_cut.hyps(5))
next
  case (split_full word row rows)
  with wrapping_step [of wd n row rows "row + 1"] show ?case by simp
qed simp

lemma splits_solid:
  assumes "splits wd n word row rows (word', row', rows')" "wrapping wd n row rows"
    and "list_all (\<lambda>c. \<not> is_break c) word"
  shows "list_all (\<lambda>c. \<not> is_break c) word' \<and> solid (concat rows') @ word' = solid (concat rows) @ word"
  using assms
proof (induction word row rows "(word', row', rows')" rule: splits.induct)
  case (split_cut word piece rest row rows)
  have step: "wrapping wd n (if rest \<noteq> [] then row + 1 else row) (rows[row := rows ! row @ joiner (rows ! row) @ piece])"
    using wrapping_step [OF wrapping_put [OF split_cut.prems(1) order_refl split_cut.hyps(2,3)]] by simp
  have "solid piece = piece" "solid (joiner (rows ! row)) = []" "list_all (\<lambda>c. \<not> is_break c) rest"
    using split_cut.prems(2) split_cut.hyps(1) by (simp_all add: solid_run joiner_def)
  with split_cut.hyps(5) [OF step] split_cut.hyps(1) concat_put [OF split_cut.prems(1) order_refl split_cut.hyps(2,3)]
  show ?case by simp
next
  case (split_full word row rows)
  with wrapping_step [of wd n row rows "row + 1"] show ?case by simp
qed simp

inductive wraps :: "(nat \<Rightarrow> nat) \<Rightarrow> nat \<Rightarrow> string \<Rightarrow> nat \<Rightarrow> string list \<Rightarrow> string list \<Rightarrow> bool"
  for wd n where
  wrap_done: "words str = [] \<or> n \<le> row \<Longrightarrow> wraps wd n str row rows rows"
| wrap_newline: "newline \<in> set str \<Longrightarrow> solid str = solid rest \<Longrightarrow> words str = words rest \<Longrightarrow> row < n \<Longrightarrow>
     wraps wd n rest (row + 1) rows result \<Longrightarrow> wraps wd n str row rows result"
| wrap_joins: "next_word str word rest \<Longrightarrow> row < n \<Longrightarrow>
     length (rows ! row @ joiner (rows ! row) @ word) \<le> wd row \<Longrightarrow>
     wraps wd n rest row (rows[row := rows ! row @ joiner (rows ! row) @ word]) result \<Longrightarrow>
     wraps wd n str row rows result"
| wrap_next_row: "next_word str word rest \<Longrightarrow>
     wd row < length (rows ! row @ joiner (rows ! row) @ word) \<Longrightarrow>
     row + 1 < n \<Longrightarrow> length word \<le> wd (row + 1) \<Longrightarrow>
     wraps wd n rest (row + 1) (rows[row + 1 := word]) result \<Longrightarrow> wraps wd n str row rows result"
| wrap_gives_up: "next_word str word rest \<Longrightarrow> row < n \<Longrightarrow>
     wd row < length (rows ! row @ joiner (rows ! row) @ word) \<Longrightarrow> length word \<le> wd row \<Longrightarrow>
     \<not> (row + 1 < n \<and> length word \<le> wd (row + 1)) \<Longrightarrow> wraps wd n str row rows rows"
| wrap_cuts: "next_word str word rest \<Longrightarrow> row < n \<Longrightarrow> wd row < length word \<Longrightarrow>
     splits wd n word row rows (word', row', rows') \<Longrightarrow> wraps wd n (word' @ rest) row' rows' result \<Longrightarrow>
     wraps wd n str row rows result"

lemma wraps_wrap_rows:
  assumes "wrapping wd n row rows"
  shows "wraps wd n str row rows (wrap_rows wd n str row rows)"
  using assms
proof (induction wd n str row rows rule: wrap_rows.induct)
  case (1 wd n str row rows)
  note unfold = wrap_rows.simps [of wd n str row rows]
  show ?case
  proof (cases "str = [] \<or> n \<le> row")
    case True
    then show ?thesis by (auto simp: unfold intro: wrap_done)
  next
    case going: False
    define p where "p = dropWhile (\<lambda>c. c = space) str"
    have spaces: "words str = words p" "solid str = solid p" "set p \<subseteq> set str"
      by (auto simp: p_def words_spaces solid_spaces dest: set_dropWhileD)
    show ?thesis
    proof (cases "p = []")
      case True
      with spaces going show ?thesis by (auto simp: unfold p_def [symmetric] intro: wrap_done)
    next
      case more: False
      show ?thesis
      proof (cases "hd p = newline")
        case True
        then obtain q where q: "p = newline # q" using more by (cases p) auto
        then have "solid p = solid (tl p)" "words p = words (tl p)" "newline \<in> set str"
          using spaces(3) by (simp_all add: solid_def is_break_def)
        with "1.IH"(1) [OF going p_def more True wrapping_step [OF "1.prems"]] going more True spaces
        show ?thesis by (simp add: unfold p_def [symmetric] wrap_newline)
      next
        case no_newline: False
        define word rest where "word = takeWhile (\<lambda>c. \<not> is_break c) p" and "rest = dropWhile (\<lambda>c. \<not> is_break c) p"
        define need where "need = (if length (rows ! row) = 0 then length word else length (rows ! row) + 1 + length word)"
        have word: "next_word str word rest"
          using next_word_taken [OF p_def more no_newline] by (simp add: word_def rest_def)
        have line: "(if length (rows ! row) > 0 then rows ! row @ [space] else rows ! row) = rows ! row @ joiner (rows ! row)"
          and need: "need = length (rows ! row @ joiner (rows ! row) @ word)"
          by (simp_all add: joiner_def need_def)
        note IH = "1.IH"(2-) [OF going p_def more no_newline word_def rest_def refl need_def, unfolded line]
        have code: "wrap_rows wd n str row rows =
           (if need \<le> wd row then wrap_rows wd n rest row (rows[row := rows ! row @ joiner (rows ! row) @ word])
            else if row + 1 < n \<and> length word \<le> wd (row + 1) then wrap_rows wd n rest (row + 1) (rows[row + 1 := word])
            else if length word \<le> wd row then rows
            else (case split_word wd n word row rows of (word', row', rows') \<Rightarrow> wrap_rows wd n (word' @ rest) row' rows'))"
          using going more no_newline line by (simp add: unfold Let_def p_def [symmetric] word_def rest_def need_def)
        have row: "row < n" using going by simp
        have rows: "length rows = n" "\<And>r. r < n \<Longrightarrow> length (rows ! r) \<le> wd r" "\<And>r. row < r \<Longrightarrow> r < n \<Longrightarrow> rows ! r = []"
          using "1.prems" by (auto simp: wrapping_def)
        consider (joins) "need \<le> wd row" | (next_row) "\<not> need \<le> wd row" "row + 1 < n \<and> length word \<le> wd (row + 1)"
          | (gives_up) "\<not> need \<le> wd row" "\<not> (row + 1 < n \<and> length word \<le> wd (row + 1))" "length word \<le> wd row"
          | (cuts) "\<not> need \<le> wd row" "\<not> (row + 1 < n \<and> length word \<le> wd (row + 1))" "\<not> length word \<le> wd row"
          by blast
        then show ?thesis
        proof cases
          case joins
          with IH(1) wrapping_put [OF "1.prems" order_refl row] have
            "wraps wd n rest row (rows[row := rows ! row @ joiner (rows ! row) @ word])
               (wrap_rows wd n rest row (rows[row := rows ! row @ joiner (rows ! row) @ word]))"
            by (simp add: need)
          with joins word row show ?thesis by (simp add: code wrap_joins need)
        next
          case next_row
          with IH(2) wrapping_put [OF "1.prems", of "row + 1" word] have
            "wraps wd n rest (row + 1) (rows[row + 1 := word]) (wrap_rows wd n rest (row + 1) (rows[row + 1 := word]))"
            by simp
          with next_row word row show ?thesis by (simp add: code wrap_next_row need)
        next
          case gives_up
          then have "wraps wd n str row rows rows"
            by (intro wrap_gives_up [OF word row _ gives_up(3,2)]) (simp add: need)
          then show ?thesis
            by (simp only: code if_not_P [OF gives_up(1)] if_not_P [OF gives_up(2)] if_P [OF gives_up(3)])
        next
          case cuts
          obtain word' row' cut where split: "split_word wd n word row rows = (word', row', cut)"
            by (metis prod_cases3)
          then have cut: "splits wd n word row rows (word', row', cut)"
            using splits_split_word [OF rows(2,1), of word row] by simp
          from splits_wrapping [OF cut "1.prems"] IH(3) [OF cuts split [symmetric] refl]
          have "wraps wd n (word' @ rest) row' cut (wrap_rows wd n (word' @ rest) row' cut)" by simp
          with cuts word row cut split show ?thesis by (auto simp: code intro: wrap_cuts)
        qed
      qed
    qed
  qed
qed

section \<open>No character is lost or moved\<close>

lemma wraps_solid:
  assumes "wraps wd n str row rows rows'" "wrapping wd n row rows"
  shows "length rows' = n \<and> (\<forall>r<n. length (rows' ! r) \<le> wd r)
    \<and> prefix (solid (concat rows')) (solid (concat rows) @ solid str)"
  using assms
proof (induction rule: wraps.induct)
  case (wrap_joins str word rest row rows result)
  have "solid word = word" "solid (joiner (rows ! row)) = []"
    using wrap_joins.hyps(1) by (simp_all add: next_word_def solid_run joiner_def)
  with wrap_joins wrapping_put [OF wrap_joins.prems order_refl wrap_joins.hyps(2,3)]
    concat_put [OF wrap_joins.prems order_refl wrap_joins.hyps(2,3)]
  show ?case by (simp add: next_word_def)
next
  case (wrap_next_row str word rest row rows result)
  have "solid word = word" "rows ! (row + 1) = []"
    using wrap_next_row.hyps(1,3) wrap_next_row.prems by (simp_all add: next_word_def solid_run wrapping_def)
  with wrap_next_row wrapping_put [OF wrap_next_row.prems, of "row + 1" word]
    concat_put [OF wrap_next_row.prems, of "row + 1" word]
  show ?case by (simp add: next_word_def)
next
  case (wrap_cuts str word rest row rows word' row' rows' result)
  from splits_wrapping [OF wrap_cuts.hyps(4) wrap_cuts.prems] splits_solid [OF wrap_cuts.hyps(4) wrap_cuts.prems]
    wrap_cuts.IH wrap_cuts.hyps(1)
  show ?case by (simp add: next_word_def solid_run flip: append_assoc)
qed (auto simp: wrapping_def)

section \<open>No word is torn\<close>

lemma words_line:
  assumes "word \<noteq> []" "list_all (\<lambda>c. \<not> is_break c) word"
  shows "words (line @ joiner line @ word) = words line @ [word]"
  using words_append [of space line word] words_single [OF assms] by (auto simp: joiner_def is_break_def)

abbreviation all_words :: "string list \<Rightarrow> string list" where
  "all_words rows \<equiv> concat (map words rows)"

lemma all_words_put:
  assumes "wrapping wd n row rows" "row \<le> r" "r < n" "length (rows ! r @ joiner (rows ! r) @ word) \<le> wd r"
    and "word \<noteq> []" "list_all (\<lambda>c. \<not> is_break c) word"
  shows "all_words (rows[r := rows ! r @ joiner (rows ! r) @ word]) = all_words rows @ [word]"
  using concat_wrapping(2) [OF assms(1-3), of words]
    concat_wrapping(2) [OF wrapping_put [OF assms(1-4)], of r words] assms(1,3) words_line [OF assms(5,6)]
  by (simp add: wrapping_def)

lemma wraps_words:
  assumes "wraps wd n str row rows rows'" "wrapping wd n row rows"
    and "\<forall>w\<in>set (words str). \<forall>r<n. length w \<le> wd r"
  shows "prefix (all_words rows') (all_words rows @ words str)"
  using assms
proof (induction rule: wraps.induct)
  case (wrap_joins str word rest row rows result)
  with wrapping_put [OF wrap_joins.prems(1) order_refl wrap_joins.hyps(2,3)]
    all_words_put [OF wrap_joins.prems(1) order_refl wrap_joins.hyps(2,3)]
  show ?case by (simp add: next_word_def)
next
  case (wrap_next_row str word rest row rows result)
  have blank: "rows ! (row + 1) = []" using wrap_next_row by (simp add: wrapping_def)
  with wrap_next_row wrapping_put [OF wrap_next_row.prems(1), of "row + 1" word]
    all_words_put [OF wrap_next_row.prems(1), of "row + 1" word]
  show ?case by (simp add: next_word_def joiner_def)
next
  case (wrap_cuts str word rest row rows word' row' rows' result)
  then show ?case by (force simp: next_word_def)
next
  case (wrap_newline str rest row rows result)
  with wrapping_step [OF wrap_newline.prems(1), of "row + 1"] show ?case by simp
qed auto

section \<open>What fits is shown\<close>

text \<open>How many more rows the words need, given how much of the row is used.\<close>

definition used :: "nat \<Rightarrow> nat \<Rightarrow> nat" where
  "used pos len = (if pos = 0 then len else pos + 1 + len)"

fun more_rows :: "nat \<Rightarrow> nat \<Rightarrow> nat list \<Rightarrow> nat" where
  "more_rows width pos [] = 0"
| "more_rows width pos (l # ls) =
     (if used pos l \<le> width then more_rows width (used pos l) ls else Suc (more_rows width l ls))"

text \<open>An arrangement of the words: a list of lines, each with room for its words and the blanks between.\<close>

definition line_width :: "string list \<Rightarrow> nat" where
  "line_width ws = foldl used 0 (map length ws)"

definition arranges :: "nat \<Rightarrow> string list \<Rightarrow> string list list \<Rightarrow> bool" where
  "arranges width ws ls \<longleftrightarrow> concat ls = ws \<and> (\<forall>l\<in>set ls. line_width l \<le> width)"

lemma used_mono: "0 < l \<Longrightarrow> p \<le> q \<Longrightarrow> used p l \<le> used q l"
  by (auto simp: used_def)

lemma more_rows_both:
  assumes "\<forall>l\<in>set ls. 0 < l"
  shows "(\<forall>p q. p \<le> q \<longrightarrow> more_rows width p ls \<le> more_rows width q ls)
    \<and> (\<forall>p q. more_rows width q ls \<le> Suc (more_rows width p ls))"
  using assms
proof (induction ls)
  case (Cons l ls)
  then have mono: "p \<le> q \<Longrightarrow> more_rows width p ls \<le> more_rows width q ls"
    and later: "more_rows width q ls \<le> Suc (more_rows width p ls)" for p q by auto
  have l: "l \<le> used p l" "p \<le> q \<Longrightarrow> used p l \<le> used q l" for p q
    using Cons.prems by (auto simp: used_def)
  show ?case
  proof (intro conjI allI impI)
    fix p q :: nat
    assume "p \<le> q"
    with l(2) [of p q] mono [of "used p l" "used q l"] later [of "used p l" l]
    show "more_rows width p (l # ls) \<le> more_rows width q (l # ls)" by auto
  next
    fix p q :: nat
    show "more_rows width q (l # ls) \<le> Suc (more_rows width p (l # ls))"
      using later [of "used q l" "used p l"] later [of "used q l" l] mono [OF l(1), of p] by auto
  qed
qed simp

lemma used_fold_le: "p \<le> foldl used p ls"
proof (induction ls arbitrary: p)
  case (Cons l ls)
  have "p \<le> used p l" by (simp add: used_def)
  with Cons.IH [of "used p l"] show ?case by simp
qed simp

lemma line_width_le: "w \<in> set l \<Longrightarrow> length w \<le> line_width l"
proof -
  have "x \<in> set ls \<Longrightarrow> x \<le> foldl used p ls" for x p ls
  proof (induction ls arbitrary: p)
    case (Cons l ls)
    have "l \<le> used p l" by (simp add: used_def)
    with Cons used_fold_le [of "used p l" ls] show ?case by fastforce
  qed simp
  then show "w \<in> set l \<Longrightarrow> length w \<le> line_width l" by (simp add: line_width_def)
qed

lemma more_rows_line:
  "foldl used p xs \<le> width \<Longrightarrow> more_rows width p (xs @ ls) = more_rows width (foldl used p xs) ls"
proof (induction xs arbitrary: p)
  case (Cons x xs)
  with used_fold_le [of "used p x" xs] show ?case by simp
qed simp

lemma more_rows_arranged:
  assumes "ls \<noteq> []" "\<forall>l\<in>set ls. line_width l \<le> width" "\<forall>l\<in>set ls. \<forall>w\<in>set l. w \<noteq> []"
  shows "more_rows width 0 (map length (concat ls)) < length ls"
  using assms
proof (induction ls)
  case (Cons l ls)
  have line: "more_rows width 0 (map length (concat (l # ls))) = more_rows width (line_width l) (map length (concat ls))"
    using more_rows_line [of 0 "map length l" width "map length (concat ls)"] Cons.prems(2)
    by (simp add: line_width_def)
  show ?case
  proof (cases "ls = []")
    case False
    have "\<forall>l\<in>set (map length (concat ls)). 0 < l" using Cons.prems(3) by auto
    from conjunct2 [OF more_rows_both [OF this], rule_format, of width "line_width l" 0]
      Cons.IH [OF False] Cons.prems(2,3) line
    show ?thesis by simp
    qed (use line in simp)
qed simp

lemma wraps_shows_all:
  assumes "wraps wd n str row rows rows'" "wrapping wd n row rows" "\<And>r. r < n \<Longrightarrow> wd r = width"
    and "newline \<notin> set str" "\<forall>w\<in>set (words str). length w \<le> width"
    and "row + more_rows width (length (rows ! row)) (map length (words str)) < n"
  shows "all_words rows' = all_words rows @ words str"
  using assms
proof (induction rule: wraps.induct)
  case (wrap_joins str word rest row rows result)
  then have plain: "newline \<notin> set rest" by (auto simp: next_word_def)
  have len: "length (rows ! row @ joiner (rows ! row) @ word) = used (length (rows ! row)) (length word)"
    by (simp add: used_def joiner_def)
  have "used (length (rows ! row)) (length word) \<le> width" using wrap_joins len by simp
  with plain wrap_joins wrapping_put [OF wrap_joins.prems(1) order_refl wrap_joins.hyps(2,3)] len
    all_words_put [OF wrap_joins.prems(1) order_refl wrap_joins.hyps(2,3)]
  show ?case by (auto simp: next_word_def wrapping_def dest: subsetD)
next
  case (wrap_next_row str word rest row rows result)
  then have plain: "newline \<notin> set rest" by (auto simp: next_word_def)
  have blank: "rows ! (row + 1) = []" using wrap_next_row by (simp add: wrapping_def)
  have len: "length (rows ! row @ joiner (rows ! row) @ word) = used (length (rows ! row)) (length word)"
    by (simp add: used_def joiner_def)
  have "\<not> used (length (rows ! row)) (length word) \<le> width" using wrap_next_row len by simp
  with plain blank wrap_next_row wrapping_put [OF wrap_next_row.prems(1), of "row + 1" word]
    all_words_put [OF wrap_next_row.prems(1), of "row + 1" word] len
  show ?case by (auto simp: next_word_def joiner_def wrapping_def dest: subsetD)
next
  case (wrap_gives_up str word rest row rows)
  have len: "length (rows ! row @ joiner (rows ! row) @ word) = used (length (rows ! row)) (length word)"
    by (simp add: used_def joiner_def)
  have "\<not> used (length (rows ! row)) (length word) \<le> width" using wrap_gives_up len by simp
  with wrap_gives_up show ?case by (auto simp: next_word_def)
next
  case (wrap_cuts str word rest row rows word' row' rows' result)
  then show ?case by (auto simp: next_word_def)
qed auto

section \<open>The wrapped text\<close>

lemma wrapping_start: "wrapping wd n 0 (replicate n [])"
  by (simp add: wrapping_def)

lemma clusterWrapRows_wraps:
  "wraps (grid_width g) (unat (cg_rows g)) (unmark s) 0 (replicate (unat (cg_rows g)) []) (clusterWrapRows s g)"
  using wraps_wrap_rows [OF wrapping_start] by (simp add: clusterWrapRows_def)

lemma clusterWrapRows_fits:
  "length (clusterWrapRows s g) = unat (cg_rows g)"
  "r < unat (cg_rows g) \<Longrightarrow> length (clusterWrapRows s g ! r) \<le> grid_width g r"
  using wraps_solid [OF clusterWrapRows_wraps wrapping_start] by blast+

lemma concat_blank [simp]: "concat (replicate n []) = []" "all_words (replicate n []) = []"
  by (induction n) simp_all

text \<open>C24: Wrapping a text over the rows of a wall keeps it: no row gets more than it can hold, and what
  the rows show, read row by row and but for the breaks, is the text from its start, nothing lost,
  repeated or moved up to where the wrap gives up. Words every row could hold are never torn: the rows
  then show a first part of the words of the text.\<close>

theorem wrap_keeps_the_text:
  "length (clusterWrapRows s g) = unat (cg_rows g)
   \<and> (\<forall>r. r < unat (cg_rows g) \<longrightarrow> length (clusterWrapRows s g ! r) \<le> grid_width g r)
   \<and> prefix (solid (concat (clusterWrapRows s g))) (solid (unmark s))
   \<and> ((\<forall>w r. w \<in> set (words (unmark s)) \<and> r < unat (cg_rows g) \<longrightarrow> length w \<le> grid_width g r)
      \<longrightarrow> prefix (all_words (clusterWrapRows s g)) (words (unmark s)))"
  using wraps_solid [OF clusterWrapRows_wraps wrapping_start, of s g]
    wraps_words [OF clusterWrapRows_wraps wrapping_start, of s g]
  by simp

definition two_rows :: ClusterGrid where
  "two_rows = empty_grid\<lparr>cg_rows := 2, cg_rowWidth := [5, 4, 0, 0, 0, 0, 0, 0]\<rparr>"

lemma words_hi_all [simp]: "words ''HI ALL'' = [''HI'', ''ALL'']"
  by (simp add: words.simps Let_def is_break_def)

lemma unmark_hi_all [simp]: "unmark ''HI ALL'' = ''HI ALL''"
  by simp

theorem wrap_keeps_the_text_witness:
  "length (clusterWrapRows ''HI ALL'' two_rows ! 1) \<le> 4
   \<and> prefix (all_words (clusterWrapRows ''HI ALL'' two_rows)) [''HI'', ''ALL'']"
proof -
  have widths: "unat (cg_rows two_rows) = 2" "grid_width two_rows 0 = 5" "grid_width two_rows 1 = 4"
    by (simp_all add: two_rows_def grid_width_def)
  then have "\<forall>w r. w \<in> set (words (unmark ''HI ALL'')) \<and> r < unat (cg_rows two_rows) \<longrightarrow> length w \<le> grid_width two_rows r"
    by (auto simp: less_2_cases_iff)
  with wrap_keeps_the_text [of "''HI ALL''" two_rows] widths(1)
  have "length (clusterWrapRows ''HI ALL'' two_rows ! 1) \<le> grid_width two_rows 1"
    "prefix (all_words (clusterWrapRows ''HI ALL'' two_rows)) (words (unmark ''HI ALL''))"
    by (metis one_less_numeral_iff semiring_norm(76), blast)
  with widths(3) show ?thesis by (simp del: unmark.simps)
qed

text \<open>C25: On rows of one width nothing that could be shown is left out: when the words of a text without
  line breaks can be arranged at all in lines of that width, no more lines than there are rows, the
  wrap shows every one of them.\<close>

theorem wrap_shows_what_fits:
  assumes "\<forall>r. r < unat (cg_rows g) \<longrightarrow> grid_width g r = width"
    and "newline \<notin> set (unmark s)"
    and "arranges width (words (unmark s)) ls" "length ls \<le> unat (cg_rows g)"
  shows "all_words (clusterWrapRows s g) = words (unmark s)"
proof (cases "words (unmark s) = []")
  case True
  then show ?thesis
    using wraps_words [OF clusterWrapRows_wraps wrapping_start, of s g] by simp
next
  case False
  with assms(3) have ls: "ls \<noteq> []" "concat ls = words (unmark s)" "\<forall>l\<in>set ls. line_width l \<le> width"
    by (auto simp: arranges_def)
  have "\<forall>l\<in>set ls. \<forall>w\<in>set l. w \<noteq> []"
    using words_nonempty [of _ "unmark s"] unfolding ls(2) [symmetric] by auto
  from more_rows_arranged [OF ls(1,3) this] assms(4) ls(2)
  have "0 + more_rows width 0 (map length (words (unmark s))) < unat (cg_rows g)" by simp
  moreover have "\<forall>w\<in>set (words (unmark s)). length w \<le> width"
  proof
    fix w
    assume "w \<in> set (words (unmark s))"
    then obtain l where "l \<in> set ls" "w \<in> set l" unfolding ls(2) [symmetric] by auto
    with ls(3) line_width_le [of w l] show "length w \<le> width" by (meson le_trans)
  qed
  ultimately show ?thesis
    using wraps_shows_all [OF clusterWrapRows_wraps wrapping_start, of g width s] assms(1,2) by simp
qed

theorem wrap_shows_what_fits_witness:
  "all_words (clusterWrapRows ''HI ALL'' (two_rows\<lparr>cg_rowWidth := replicate 8 5\<rparr>)) = [''HI'', ''ALL'']"
proof -
  let ?g = "two_rows\<lparr>cg_rowWidth := replicate 8 5\<rparr>"
  have "\<forall>r. r < unat (cg_rows ?g) \<longrightarrow> grid_width ?g r = 5" "unat (cg_rows ?g) = 2"
    by (auto simp: two_rows_def grid_width_def less_2_cases_iff)
  moreover have "arranges 5 (words (unmark ''HI ALL'')) [[''HI''], [''ALL'']]"
    by (simp add: arranges_def line_width_def used_def del: unmark.simps)
  ultimately show ?thesis
    using wrap_shows_what_fits [of ?g 5 "''HI ALL''" "[[''HI''], [''ALL'']]"] by simp
qed

text \<open>On rows of different widths the wrap can give up early: a word that fits neither the rest of its
  row nor the next row ends it, although a later row has room.\<close>

lemma wrap_gives_up_early:
  "clusterWrapRows ''WINTER TIMES'' (empty_grid\<lparr>cg_rows := 3, cg_rowWidth := [6, 3, 6, 0, 0, 0, 0, 0]\<rparr>)
   = [''WINTER'', '''', '''']"
proof -
  have "replicate 3 [] = [[], [], [] :: string]" by (simp add: numeral_3_eq_3)
  then show ?thesis
    by (simp add: clusterWrapRows_def grid_width_def wrap_rows.simps Let_def is_break_def)
qed

end
