(* ===== verification/Wall_Grid.thy ===== *)
theory Wall_Grid
  imports Wall_Text
begin

text \<open>
  The grid of a checked member table: the spans of a row tile its text, so that every character of a
  row goes to exactly one place of the wall, and the mirror puts the slices back where they hang.
\<close>

section \<open>What a checked table gives\<close>

abbreviation w_of :: "ClusterMemberTable \<Rightarrow> nat \<Rightarrow> nat" where
  "w_of t i \<equiv> unat (cm_width (member_at t i))"

abbreviation col_of :: "ClusterMemberTable \<Rightarrow> nat \<Rightarrow> nat" where
  "col_of t i \<equiv> unat (cm_col (member_at t i))"

abbreviation row_of :: "ClusterMemberTable \<Rightarrow> nat \<Rightarrow> nat" where
  "row_of t i \<equiv> unat (cm_row (member_at t i))"

definition on_row :: "ClusterMemberTable \<Rightarrow> nat \<Rightarrow> nat \<Rightarrow> bool" where
  "on_row t r i \<longleftrightarrow> cm_width (member_at t i) \<noteq> 0 \<and> row_of t i = r"

definition same_span :: "ClusterMemberTable \<Rightarrow> nat \<Rightarrow> nat \<Rightarrow> bool" where
  "same_span t i j \<longleftrightarrow> cm_row (member_at t i) = cm_row (member_at t j) \<and> cm_col (member_at t i) = cm_col (member_at t j)
     \<and> cm_width (member_at t i) = cm_width (member_at t j)"

definition covers :: "ClusterMemberTable \<Rightarrow> nat \<Rightarrow> nat \<Rightarrow> nat \<Rightarrow> bool" where
  "covers t r k i \<longleftrightarrow> row_of t i = r \<and> col_of t i \<le> k \<and> k < col_of t i + w_of t i"

text \<open>The members that own the columns of a row, twins once.\<close>

definition row_owners :: "ClusterMemberTable \<Rightarrow> nat \<Rightarrow> nat list" where
  "row_owners t r = filter (\<lambda>i. on_row t r i \<and> clusterSpanIsFirst t i) (slots t)"

lemma max_row_Some:
  assumes "max_row ds m = Some k"
  shows "m \<le> k" "\<forall>d\<in>set ds. unat (cm_row d) < CLUSTER_MAX_MEMBERS"
    "\<forall>d\<in>set ds. cm_width d \<noteq> 0 \<longrightarrow> int (unat (cm_row d)) \<le> k"
    "k = m \<or> (\<exists>d\<in>set ds. cm_width d \<noteq> 0 \<and> int (unat (cm_row d)) = k)"
  using assms by (induction ds m rule: max_row.induct) (auto split: if_splits)

lemma unat_ucast_u16: "unat (ucast (b :: u8) :: u16) = unat b"
  using unat_u8_less [of b] by (simp add: unsigned_ucast_eq take_bit_nat_eq_self)

lemma unat_extent:
  "unat (of_nat (col_of t k + w_of t k) :: u16) = col_of t k + w_of t k"
proof -
  have "col_of t k + w_of t k < 2 ^ LENGTH(16)"
    using unat_u8_less [of "cm_col (member_at t k)"] unat_u8_less [of "cm_width (member_at t k)"] by simp
  then show ?thesis by (subst unat_of_nat) simp
qed

lemma add_member_width:
  assumes "length (cg_rowWidth g) = 8" "row_of t k < 8" "r < 8"
  shows "length (cg_rowWidth (add_member t k g)) = 8"
    "cg_rowWidth (add_member t k g) ! r =
       (if on_row t r k \<and> clusterSpanIsFirst t k then cg_rowWidth g ! r + ucast (cm_width (member_at t k))
        else cg_rowWidth g ! r)"
  using assms by (simp_all add: add_member_def Let_def nth_list_update on_row_def)

lemma add_member_extent:
  assumes "length (cg_rowExtent g) = 8" "row_of t k < 8" "r < 8"
  shows "length (cg_rowExtent (add_member t k g)) = 8"
    "unat (cg_rowExtent (add_member t k g) ! r) =
       (if on_row t r k then max (unat (cg_rowExtent g ! r)) (col_of t k + w_of t k) else unat (cg_rowExtent g ! r))"
  using assms unat_extent [of t k]
  by (simp_all add: add_member_def Let_def nth_list_update on_row_def word_less_nat_alt max_def del: of_nat_add)

lemma fold_extent:
  assumes "\<forall>i<k. row_of t i < 8"
  shows "length (cg_rowExtent (fold (add_member t) [0..<k] empty_grid)) = 8
    \<and> (\<forall>r<8. \<forall>i<k. on_row t r i \<longrightarrow>
        col_of t i + w_of t i \<le> unat (cg_rowExtent (fold (add_member t) [0..<k] empty_grid) ! r))"
  using assms
proof (induction k)
  case (Suc k)
  then show ?case
    by (auto simp: add_member_extent less_Suc_eq all_conj_distrib le_max_iff_disj on_row_def)
qed (simp add: empty_grid_def CLUSTER_MAX_MEMBERS_def)

lemma fold_width:
  assumes "\<forall>i<k. row_of t i < 8" "k \<le> 8"
  shows "length (cg_rowWidth (fold (add_member t) [0..<k] empty_grid)) = 8
    \<and> (\<forall>r<8. unat (cg_rowWidth (fold (add_member t) [0..<k] empty_grid) ! r)
        = sum_list (map (w_of t) (filter (\<lambda>i. on_row t r i \<and> clusterSpanIsFirst t i) [0..<k])))"
  using assms
proof (induction k)
  case (Suc k)
  let ?w = "\<lambda>r. sum_list (map (w_of t) (filter (\<lambda>i. on_row t r i \<and> clusterSpanIsFirst t i) [0..<k]))"
  let ?g = "fold (add_member t) [0..<k] empty_grid"
  have IH: "length (cg_rowWidth ?g) = 8" "r < 8 \<Longrightarrow> unat (cg_rowWidth ?g ! r) = ?w r" for r
    using Suc by auto
  have bound: "?w r \<le> 255 * k" for r
  proof -
    have "?w r \<le> sum_list (map (\<lambda>_. 255) (filter (\<lambda>i. on_row t r i \<and> clusterSpanIsFirst t i) [0..<k]))"
      using unat_u8_less by (intro sum_list_mono) (simp add: less_Suc_eq_le [symmetric])
    also have "\<dots> \<le> 255 * k"
      using length_filter_le [of "\<lambda>i. on_row t r i \<and> clusterSpanIsFirst t i" "[0..<k]"] by (simp add: sum_list_triv)
    finally show ?thesis .
  qed
  have "?w r + w_of t k < 65536" for r
    using bound [of r] Suc.prems(2) unat_u8_less [of "cm_width (member_at t k)"] by linarith
  then have "unat (cg_rowWidth ?g ! r + ucast (cm_width (member_at t k))) = ?w r + w_of t k" if "r < 8" for r
    using IH(2) [OF that] by (simp add: unat_word_ariths unat_ucast_u16)
  then show ?case
    using Suc.prems(1) IH by (auto simp: add_member_width on_row_def)
qed (simp add: empty_grid_def CLUSTER_MAX_MEMBERS_def)

text \<open>A table that passes the check, with its grid.\<close>

definition valid_table :: "ClusterMemberTable \<Rightarrow> ClusterGrid \<Rightarrow> bool" where
  "valid_table t g \<longleftrightarrow> table_shape t \<and> (\<exists>v. validateMemberTable t = (v, g) \<and> cv_ok v)"

lemma valid_tableD:
  assumes "valid_table t g"
  obtains k where "max_row (take (unat (ct_count t)) (ct_members t)) (- 1) = Some k" "k \<noteq> - 1"
    "unat (ct_count t) \<le> 8" "length (ct_members t) = 8" "\<not> members_overlap t"
    "\<forall>r<nat (k + 1). cg_rowWidth g ! r \<noteq> 0"
    "g = (fold (add_member t) (slots t) empty_grid)\<lparr>cg_rows := of_int (k + 1)\<rparr>"
  using assms
  by (auto simp: valid_table_def validateMemberTable_def table_shape_def CLUSTER_MAX_MEMBERS_def Let_def list_ex_iff
      split: if_splits option.splits)

lemma valid_shape:
  assumes "valid_table t g"
  shows "i < unat (ct_count t) \<Longrightarrow> row_of t i < 8"
    "i < unat (ct_count t) \<Longrightarrow> on_row t r i \<Longrightarrow> r < unat (cg_rows g)"
    "unat (cg_rows g) \<le> 8" "unat (ct_count t) \<le> 8"
    "r < unat (cg_rows g) \<Longrightarrow> cg_rowWidth g ! r \<noteq> 0"
proof -
  from assms obtain k where k: "max_row (take (unat (ct_count t)) (ct_members t)) (- 1) = Some k" "k \<noteq> - 1"
    "unat (ct_count t) \<le> 8" "length (ct_members t) = 8" "\<forall>r<nat (k + 1). cg_rowWidth g ! r \<noteq> 0"
    "g = (fold (add_member t) (slots t) empty_grid)\<lparr>cg_rows := of_int (k + 1)\<rparr>"
    by (rule valid_tableD)
  have members: "i < unat (ct_count t) \<Longrightarrow> member_at t i \<in> set (take (unat (ct_count t)) (ct_members t))" for i
    using k(3,4) by (metis in_set_conv_nth length_take min.absorb2 nth_take)
  note rows = max_row_Some [OF k(1)]
  show row: "i < unat (ct_count t) \<Longrightarrow> row_of t i < 8" for i
    using rows(2) members by (auto simp: CLUSTER_MAX_MEMBERS_def)
  obtain d where "d \<in> set (take (unat (ct_count t)) (ct_members t))" and top: "int (unat (cm_row d)) = k"
    using rows(4) k(2) by blast
  with rows(2) have "unat (cm_row d) < 8" by (simp add: CLUSTER_MAX_MEMBERS_def)
  with top have range: "0 \<le> k" "k < 8" by linarith+
  have "uint (of_int (k + 1) :: u8) = k + 1"
    using range by (simp add: uint_word_of_int_eq take_bit_int_eq_self del: of_int_add)
  then have "unat (of_int (k + 1) :: u8) = nat (k + 1)"
    by (simp add: unat_eq_nat_uint del: of_int_add)
  then have count: "unat (cg_rows g) = nat (k + 1)"
    by (simp add: k(6) del: of_int_add)
  show "i < unat (ct_count t) \<Longrightarrow> on_row t r i \<Longrightarrow> r < unat (cg_rows g)"
    using rows(3) members range(1) count by (fastforce simp: on_row_def)
  show "unat (cg_rows g) \<le> 8" "unat (ct_count t) \<le> 8"
    "r < unat (cg_rows g) \<Longrightarrow> cg_rowWidth g ! r \<noteq> 0"
    using range(2) k(3,5) count by auto
qed

lemma valid_width:
  assumes "valid_table t g" "r < unat (cg_rows g)"
  shows "grid_width g r = sum_list (map (w_of t) (row_owners t r))"
proof -
  from assms(1) obtain k where "g = (fold (add_member t) (slots t) empty_grid)\<lparr>cg_rows := of_int (k + 1)\<rparr>"
    by (rule valid_tableD)
  with fold_width [of "unat (ct_count t)" t] valid_shape [OF assms(1)] assms(2) show ?thesis
    by (simp add: grid_width_def row_owners_def)
qed

lemma valid_extent:
  assumes "valid_table t g" "i < unat (ct_count t)" "on_row t r i"
  shows "col_of t i + w_of t i \<le> unat (cg_rowExtent g ! r)"
proof -
  from assms(1) obtain k where "g = (fold (add_member t) (slots t) empty_grid)\<lparr>cg_rows := of_int (k + 1)\<rparr>"
    by (rule valid_tableD)
  with fold_extent [of "unat (ct_count t)" t] valid_shape [OF assms(1)] assms(2,3) show ?thesis
    by (auto simp: on_row_def)
qed

text \<open>Two spans of a row are the same or have no column in common.\<close>

lemma valid_disjoint:
  assumes "valid_table t g" "i < unat (ct_count t)" "j < unat (ct_count t)" "on_row t r i" "on_row t r j"
    and "covers t r k i" "covers t r k j"
  shows "same_span t i j"
proof -
  have ordered: "same_span t i j" if "i < j" "j < unat (ct_count t)" "on_row t r i" "on_row t r j"
    "covers t r k i" "covers t r k j" for i j
  proof -
    from assms(1) have "\<not> members_overlap t" by (rule valid_tableD)
    then have "\<not> spans_overlap (member_at t i) (member_at t j)"
      using that by (auto simp: members_overlap_def list_ex_iff on_row_def)
    with that show ?thesis
      by (auto simp: spans_overlap_def on_row_def covers_def same_span_def simp flip: word_unat_eq_iff)
  qed
  consider "i < j" | "j < i" | "i = j" by linarith
  then show ?thesis
  proof cases
    case 2
    from ordered [OF 2 assms(2,5,4,7,6)] show ?thesis by (simp add: same_span_def)
  qed (use ordered assms in \<open>auto simp: same_span_def\<close>)
qed

lemma same_col_same_span:
  assumes "valid_table t g" "i < unat (ct_count t)" "j < unat (ct_count t)" "on_row t r i" "on_row t r j"
    and "col_of t i = col_of t j"
  shows "same_span t i j"
  using valid_disjoint [OF assms(1-5), of "col_of t i"] assms(4-6)
  by (auto simp: covers_def on_row_def unat_gt_0)

text \<open>Every span of the grid has its owner, the first member with it.\<close>

lemma owner_exists:
  assumes "valid_table t g" "i < unat (ct_count t)" "on_row t r i"
  obtains j where "j \<in> set (row_owners t r)" "same_span t j i"
proof -
  define j where "j = (LEAST j. on_row t r j \<and> col_of t j = col_of t i)"
  have j: "on_row t r j" "col_of t j = col_of t i" "j \<le> i"
    using LeastI [of "\<lambda>j. on_row t r j \<and> col_of t j = col_of t i" i]
      Least_le [of "\<lambda>j. on_row t r j \<and> col_of t j = col_of t i" i] assms(3) by (auto simp: j_def)
  have "\<not> (on_row t r m \<and> col_of t m = col_of t i)" if "m < j" for m
    using not_less_Least that by (auto simp: j_def)
  with j have "clusterSpanIsFirst t j"
    by (auto simp: clusterSpanIsFirst_def list_all_iff on_row_def simp flip: word_unat_eq_iff)
  with j assms(2) have "j \<in> set (row_owners t r)" by (simp add: row_owners_def)
  moreover from same_col_same_span [OF assms(1) _ assms(2) j(1) assms(3) j(2)] j(3) assms(2)
  have "same_span t j i" by simp
  ultimately show thesis by (rule that)
qed

lemma owners_distinct_cols:
  assumes "i \<in> set (row_owners t r)" "j \<in> set (row_owners t r)" "col_of t i = col_of t j"
  shows "i = j"
proof -
  have ordered: "False" if "i < j" "i \<in> set (row_owners t r)" "j \<in> set (row_owners t r)" "col_of t i = col_of t j" for i j
    using that by (auto simp: row_owners_def clusterSpanIsFirst_def list_all_iff on_row_def simp flip: word_unat_eq_iff)
  show ?thesis using ordered [of i j] ordered [of j i] assms by (cases i j rule: linorder_cases) auto
qed

section \<open>The spans tile the text of a row\<close>

text \<open>The owners of a row, from left to right.\<close>

definition from_left :: "ClusterMemberTable \<Rightarrow> nat \<Rightarrow> nat list" where
  "from_left t r = sort_key (col_of t) (row_owners t r)"

lemma set_from_left [simp]: "set (from_left t r) = set (row_owners t r)"
  by (simp add: from_left_def)

lemma sum_from_left:
  fixes f :: "nat \<Rightarrow> nat"
  shows "sum_list (map f (filter P (from_left t r))) = sum_list (map f (filter P (row_owners t r)))"
proof -
  have "mset (map f (filter P (from_left t r))) = mset (map f (filter P (row_owners t r)))"
    by (simp add: from_left_def)
  then show ?thesis by (metis sum_mset_sum_list)
qed

lemma from_left_sorted: "sorted_wrt (\<lambda>i j. col_of t i < col_of t j) (from_left t r)"
proof -
  have "sorted (map (col_of t) (from_left t r))" by (simp add: from_left_def)
  moreover have "distinct (map (col_of t) (from_left t r))"
    using owners_distinct_cols by (auto simp: distinct_map inj_on_def from_left_def row_owners_def)
  ultimately have "sorted_wrt (<) (map (col_of t) (from_left t r))"
    using strict_sorted_iff by blast
  then show ?thesis by (simp add: sorted_wrt_map)
qed

lemma filter_before:
  "sorted_wrt (\<lambda>i j. f i < (f j :: nat)) xs \<Longrightarrow> k < length xs \<Longrightarrow> filter (\<lambda>i. f i < f (xs ! k)) xs = take k xs"
proof (induction xs arbitrary: k)
  case (Cons x xs)
  show ?case
  proof (cases k)
    case 0
    have "\<not> f y < f x" if "y \<in> set xs" for y
      using Cons.prems(1) that by fastforce
    with 0 show ?thesis by (simp add: filter_empty_conv)
  next
    case (Suc m)
    then have "f x < f (xs ! m)" using Cons.prems nth_mem [of m xs] by simp
    with Cons Suc show ?thesis by simp
  qed
qed simp

text \<open>The offset of a span is the width of the owners left of it.\<close>

lemma offset_owners:
  "clusterTextOffset t (cm_row (member_at t i)) (cm_col (member_at t i)) =
     sum_list (map (w_of t) (filter (\<lambda>j. col_of t j < col_of t i) (row_owners t (row_of t i))))"
proof -
  have "(if cm_width (member_at t j) = 0 \<or> cm_row (member_at t j) \<noteq> cm_row (member_at t i) \<or> cm_col (member_at t j) \<ge> cm_col (member_at t i)
        then 0 else if clusterSpanIsFirst t j then w_of t j else 0)
      = (if col_of t j < col_of t i \<and> on_row t (row_of t i) j \<and> clusterSpanIsFirst t j then w_of t j else 0)" for j
    by (auto simp: on_row_def word_le_nat_alt simp flip: word_unat_eq_iff)
  then show ?thesis
    by (simp add: clusterTextOffset_def row_owners_def filter_filter conj_commute conj_left_commute
        flip: sum_list_map_filter')
qed

lemma offset_from_left:
  assumes "k < length (from_left t r)"
  shows "clusterTextOffset t (cm_row (member_at t (from_left t r ! k))) (cm_col (member_at t (from_left t r ! k)))
    = sum_list (map (w_of t) (take k (from_left t r)))"
proof -
  have "from_left t r ! k \<in> set (row_owners t r)" using assms nth_mem set_from_left by blast
  then have "row_of t (from_left t r ! k) = r" by (simp add: row_owners_def on_row_def)
  then show ?thesis
    using filter_before [OF from_left_sorted assms]
      sum_from_left [of "w_of t" "\<lambda>j. col_of t j < col_of t (from_left t r ! k)" t r]
    by (simp add: offset_owners)
qed

lemma slices_concat:
  "k \<le> length xs \<Longrightarrow>
   concat (map (\<lambda>i. substring s (sum_list (map f (take i xs))) (sum_list (map f (take i xs)) + f (xs ! i))) [0..<k])
     = take (sum_list (map f (take k xs))) s"
  by (induction k) (auto simp: substring_def take_Suc_conv_app_nth take_add)

text \<open>A row of the grid, cut into the owners' slices, is put together again by them.\<close>

lemma row_tiled:
  assumes "valid_table t g" "r < unat (cg_rows g)" "length (rows ! r) = grid_width g r"
  shows "concat (map (clusterSliceSegment t rows) (from_left t r)) = rows ! r"
proof -
  let ?xs = "from_left t r"
  have slice: "clusterSliceSegment t rows (?xs ! k) =
      substring (rows ! r) (sum_list (map (w_of t) (take k ?xs))) (sum_list (map (w_of t) (take k ?xs)) + w_of t (?xs ! k))"
    if "k < length ?xs" for k
  proof -
    have "?xs ! k \<in> set (row_owners t r)" using that nth_mem set_from_left by blast
    with offset_from_left [OF that] show ?thesis
      by (simp add: clusterSliceSegment_def Let_def row_owners_def on_row_def)
  qed
  have "map (clusterSliceSegment t rows) ?xs = map (\<lambda>k. clusterSliceSegment t rows (?xs ! k)) [0..<length ?xs]"
    by (rule nth_equalityI) simp_all
  also have "\<dots> = map (\<lambda>k. substring (rows ! r) (sum_list (map (w_of t) (take k ?xs))) (sum_list (map (w_of t) (take k ?xs)) + w_of t (?xs ! k))) [0..<length ?xs]"
    using slice by simp
  finally have "concat (map (clusterSliceSegment t rows) ?xs) = take (sum_list (map (w_of t) ?xs)) (rows ! r)"
    using slices_concat [of "length ?xs" ?xs "rows ! r" "w_of t"] by simp
  also have "sum_list (map (w_of t) ?xs) = grid_width g r"
    using sum_from_left [of "w_of t" "\<lambda>_. True" t r] valid_width [OF assms(1,2)] by simp
  finally show ?thesis using assms(3) by simp
qed

lemma twins_alike: "same_span t i j \<Longrightarrow> clusterSliceSegment t rows i = clusterSliceSegment t rows j"
  by (simp add: same_span_def clusterSliceSegment_def Let_def)

lemma slice_length:
  assumes "valid_table t g" "i < unat (ct_count t)" "\<And>r. r < unat (cg_rows g) \<Longrightarrow> length (rows ! r) = grid_width g r"
  shows "length (clusterSliceSegment t rows i) = w_of t i"
proof (cases "cm_width (member_at t i) = 0")
  case False
  define r where "r = row_of t i"
  have i: "on_row t r i" using False by (simp add: on_row_def r_def)
  have r: "r < unat (cg_rows g)" using valid_shape(2) [OF assms(1,2) i] .
  from owner_exists [OF assms(1,2) i] obtain j where j: "j \<in> set (row_owners t r)" "same_span t j i" .
  then have "j \<in> set (from_left t r)" by simp
  then obtain k where k: "k < length (from_left t r)" "from_left t r ! k = j" by (metis in_set_conv_nth)
  have "sum_list (map (w_of t) (take (Suc k) (from_left t r))) \<le> sum_list (map (w_of t) (from_left t r))"
    by (metis append_take_drop_id le_add1 map_append sum_list.append)
  also have "\<dots> = grid_width g r"
    using sum_from_left [of "w_of t" "\<lambda>_. True" t r] valid_width [OF assms(1) r] by simp
  finally have "sum_list (map (w_of t) (take k (from_left t r))) + w_of t j \<le> grid_width g r"
    using k by (simp add: take_Suc_conv_app_nth)
  then have "length (clusterSliceSegment t rows j) = w_of t j"
    using offset_from_left [OF k(1)] k(2) j(1) assms(3) [OF r]
    by (simp add: clusterSliceSegment_def Let_def substring_def row_owners_def on_row_def)
  with twins_alike [OF j(2)] j(2) show ?thesis by (simp add: same_span_def)
qed (simp add: clusterSliceSegment_def)

section \<open>Alignment\<close>

lemma length_align [simp]: "length (clusterAlignRow s n a) = n"
  by (simp add: clusterAlignRow_def Let_def)

lemma align_exact: "length s = n \<Longrightarrow> clusterAlignRow s n a = s"
  by (auto simp: clusterAlignRow_def Let_def intro: nth_equalityI)

lemma align_blank: "k < n \<Longrightarrow> clusterAlignRow [] n DA_Left ! k = space"
  by (simp add: clusterAlignRow_def Let_def)

lemma align_rows_nth [simp]:
  "length (align_rows g a rows) = unat (cg_rows g)"
  "r < unat (cg_rows g) \<Longrightarrow> align_rows g a rows ! r = clusterAlignRow (rows ! r) (grid_width g r) a"
  by (simp_all add: align_rows_def)

lemma layout_Some:
  assumes "layoutGridText s align t = Some segments" "table_shape t"
  obtains g where "valid_table t g"
    "segments = map (clusterSliceSegment t (align_rows g align (clusterWrapRows s g))) (slots t)"
  using assms by (auto simp: layoutGridText_def valid_table_def Let_def split: prod.splits if_splits)

text \<open>C26: The layout of a text on a wall leaves nothing out and doubles nothing: every member gets a slice
  of exactly its width, members hung over one another get the same, and the slices of the owners of a
  row, read from left to right, are the row of the wrapped text, aligned to the flaps the row has.\<close>

theorem slices_tile_the_rows:
  assumes "table_shape t" "layoutGridText s align t = Some segments" "validateMemberTable t = (v, g)"
  shows "length segments = unat (ct_count t)
    \<and> (\<forall>i < unat (ct_count t). length (segments ! i) = w_of t i
        \<and> (\<forall>j < unat (ct_count t). same_span t i j \<longrightarrow> segments ! i = segments ! j))
    \<and> (\<forall>r < unat (cg_rows g). concat (map ((!) segments) (from_left t r))
        = clusterAlignRow (clusterWrapRows s g ! r) (grid_width g r) align)"
proof -
  let ?rows = "align_rows g align (clusterWrapRows s g)"
  from layout_Some [OF assms(2,1)] assms(3) have valid: "valid_table t g"
    and segments: "segments = map (clusterSliceSegment t ?rows) (slots t)"
    by (auto simp: valid_table_def)
  have owners: "map ((!) segments) (from_left t r) = map (clusterSliceSegment t ?rows) (from_left t r)" for r
    by (simp add: segments row_owners_def)
  have "concat (map ((!) segments) (from_left t r)) = clusterAlignRow (clusterWrapRows s g ! r) (grid_width g r) align"
    if "r < unat (cg_rows g)" for r
    using row_tiled [OF valid that, of ?rows] that by (simp only: owners align_rows_nth length_align)
  then show ?thesis
    using slice_length [OF valid, of _ ?rows] twins_alike [of t _ _ ?rows] by (auto simp: segments)
qed

definition sample_member :: "string \<Rightarrow> u8 \<Rightarrow> u8 \<Rightarrow> u8 \<Rightarrow> ClusterMemberDef" where
  "sample_member h r c w = \<lparr>cm_host = h, cm_row = r, cm_col = c, cm_width = w\<rparr>"

text \<open>Five flaps over two pairs with a gap between them, the left pair the master's own.\<close>

definition sample_wall :: ClusterMemberTable where
  "sample_wall = \<lparr>ct_count = 3, ct_members =
     [sample_member ''a'' 0 0 5, sample_member ''b'' 1 3 2, sample_member [] 1 0 2] @ replicate 5 (sample_member [] 0 0 0)\<rparr>"

definition sample_grid :: ClusterGrid where
  "sample_grid = \<lparr>cg_rows = 2, cg_rowWidth = [5, 4, 0, 0, 0, 0, 0, 0], cg_rowExtent = [5, 5, 0, 0, 0, 0, 0, 0]\<rparr>"

lemma sample_wall_checked: "validateMemberTable sample_wall = (\<lparr>cv_ok = True, cv_message = ''''\<rparr>, sample_grid)"
  by code_simp

lemma sample_wall_laid_out: "layoutGridText ''HELLO YOU'' DA_Right sample_wall = Some [''HELLO'', ''OU'', '' Y'']"
  by code_simp

theorem slices_tile_the_rows_witness:
  "concat (map ((!) [''HELLO'', ''OU'', '' Y'']) (from_left sample_wall 1))
     = clusterAlignRow (clusterWrapRows ''HELLO YOU'' sample_grid ! 1) 4 DA_Right"
proof -
  have "table_shape sample_wall" by (simp add: table_shape_def sample_wall_def CLUSTER_MAX_MEMBERS_def)
  from slices_tile_the_rows [OF this sample_wall_laid_out sample_wall_checked]
  show ?thesis by (simp add: sample_grid_def grid_width_def)
qed

section \<open>The mirror\<close>

lemma paint_prefix:
  "length (fold (\<lambda>c row. row[col + c := slot ! c]) [0..<m] row) = length row
   \<and> (\<forall>k < length row. fold (\<lambda>c row. row[col + c := slot ! c]) [0..<m] row ! k
        = (if col \<le> k \<and> k < col + m then slot ! (k - col) else row ! k))"
proof (induction m)
  case (Suc m)
  show ?case
  proof (intro conjI allI impI)
    fix k
    assume "k < length row"
    with Suc show "fold (\<lambda>c row. row[col + c := slot ! c]) [0..<Suc m] row ! k
        = (if col \<le> k \<and> k < col + Suc m then slot ! (k - col) else row ! k)"
      by (cases "k = col + m") auto
  qed (use Suc in simp)
qed auto

lemma length_paint [simp]: "length (paint col slot row) = length row"
  using paint_prefix [of col slot "length slot" row] by (simp add: paint_def)

lemma nth_paint:
  "k < length row \<Longrightarrow> paint col slot row ! k = (if col \<le> k \<and> k < col + length slot then slot ! (k - col) else row ! k)"
  using paint_prefix [of col slot "length slot" row] by (simp add: paint_def)

text \<open>What a member shows, and whether it is one of the master's own or not.\<close>

definition slot_of :: "ClusterMemberTable \<Rightarrow> string list \<Rightarrow> string \<Rightarrow> DisplayAlignment \<Rightarrow> nat \<Rightarrow> string" where
  "slot_of t segments own ownAlign m =
     (if cm_host (member_at t m) = [] then clusterAlignRow own (w_of t m) ownAlign
      else clusterAlignRow (segments ! m) (w_of t m) DA_Left)"

definition writes :: "ClusterMemberTable \<Rightarrow> bool \<Rightarrow> nat \<Rightarrow> nat \<Rightarrow> nat \<Rightarrow> bool" where
  "writes t self r k m \<longleftrightarrow> (cm_host (member_at t m) = []) = self \<and> covers t r k m"

lemma mirror_member_eq:
  "mirror_member t segments own a self m rows =
     (if (cm_host (member_at t m) = []) \<noteq> self then rows
      else rows[row_of t m := paint (col_of t m) (slot_of t segments own a m) (rows ! row_of t m)])"
  by (auto simp: mirror_member_def Let_def slot_of_def)

lemma length_slot_of [simp]: "length (slot_of t segments own a m) = w_of t m"
  by (simp add: slot_of_def)

lemma mirror_member_shape:
  "length (mirror_member t segments own a self m rows) = length rows"
  "length (mirror_member t segments own a self m rows ! r) = length (rows ! r)"
proof -
  show "length (mirror_member t segments own a self m rows) = length rows"
    by (simp add: mirror_member_eq)
  show "length (mirror_member t segments own a self m rows ! r) = length (rows ! r)"
    by (cases "row_of t m < length rows"; cases "r = row_of t m") (simp_all add: mirror_member_eq not_less list_update_beyond)
qed

lemma mirror_member_nth:
  assumes "r < length rows" "k < length (rows ! r)"
  shows "mirror_member t segments own a self m rows ! r ! k =
     (if writes t self r k m then slot_of t segments own a m ! (k - col_of t m) else rows ! r ! k)"
proof (cases "row_of t m = r")
  case True
  with assms show ?thesis by (simp add: mirror_member_eq nth_paint writes_def covers_def)
next
  case False
  with assms show ?thesis by (simp add: mirror_member_eq writes_def covers_def)
qed

lemma mirror_pass:
  assumes "r < length rows" "k < length (rows ! r)"
    and "\<And>m. m \<in> set ms \<Longrightarrow> writes t self r k m \<Longrightarrow> slot_of t segments own a m ! (k - col_of t m) = x"
  shows "length (fold (mirror_member t segments own a self) ms rows) = length rows
    \<and> length (fold (mirror_member t segments own a self) ms rows ! r) = length (rows ! r)
    \<and> fold (mirror_member t segments own a self) ms rows ! r ! k =
        (if \<exists>m\<in>set ms. writes t self r k m then x else rows ! r ! k)"
  using assms
proof (induction ms arbitrary: rows)
  case (Cons m ms)
  from Cons.IH [of "mirror_member t segments own a self m rows"] Cons.prems
  show ?case by (auto simp: mirror_member_shape mirror_member_nth)
qed simp

lemma mirror_cell:
  assumes "valid_table t g" "clusterMirrorRows t segments own a = (n, rows)"
    and "r < n" "k < length (rows ! r)"
    and "\<And>m. m < unat (ct_count t) \<Longrightarrow> writes t False r k m \<Longrightarrow> slot_of t segments own a m ! (k - col_of t m) = x"
    and "\<And>m. m < unat (ct_count t) \<Longrightarrow> writes t True r k m \<Longrightarrow> slot_of t segments own a m ! (k - col_of t m) = y"
  shows "rows ! r ! k = (if \<exists>m < unat (ct_count t). writes t True r k m then y
     else if \<exists>m < unat (ct_count t). writes t False r k m then x else space)"
proof -
  define blank where "blank = map (\<lambda>r. clusterAlignRow [] (unat (cg_rowExtent g ! r)) DA_Left) [0..<unat (cg_rows g)]"
  define remote where "remote = fold (mirror_member t segments own a False) (slots t) blank"
  have rows: "n = unat (cg_rows g)" "rows = fold (mirror_member t segments own a True) (slots t) remote"
    using assms(1,2) by (auto simp: clusterMirrorRows_def valid_table_def blank_def remote_def Let_def)
  have shape: "length (fold (mirror_member t segments own a self) ms xs ! r) = length (xs ! r)" for self ms xs
    by (induction ms arbitrary: xs) (simp_all add: mirror_member_shape)
  have r: "r < length blank" "k < length (blank ! r)" "blank ! r ! k = space"
    using assms(3,4) by (simp_all add: rows shape remote_def blank_def align_blank)
  from mirror_pass [OF r(1,2), of "slots t" t False segments own a x] assms(5)
  have remote: "length remote = length blank" "length (remote ! r) = length (blank ! r)"
    "remote ! r ! k = (if \<exists>m < unat (ct_count t). writes t False r k m then x else space)"
    by (auto simp: remote_def r(3))
  from mirror_pass [of r remote k "slots t" t True segments own a y] assms(6) r(1,2) remote(1,2)
  show ?thesis by (auto simp: rows(2) remote(3))
qed

lemma mirror_shape:
  assumes "valid_table t g" "clusterMirrorRows t segments own a = (n, rows)"
  shows "n = unat (cg_rows g)" "r < n \<Longrightarrow> length (rows ! r) = unat (cg_rowExtent g ! r)"
proof -
  have shape: "length (fold (mirror_member t segments own a self) ms xs ! r) = length (xs ! r)" for self ms xs r
    by (induction ms arbitrary: xs) (simp_all add: mirror_member_shape)
  show "n = unat (cg_rows g)" "r < n \<Longrightarrow> length (rows ! r) = unat (cg_rowExtent g ! r)"
    using assms by (auto simp: clusterMirrorRows_def valid_table_def Let_def shape)
qed

text \<open>What a laid-out wall shows at a character of a member's place.\<close>

lemma place_cell:
  assumes valid: "valid_table t g" and mirror: "clusterMirrorRows t segments own ownAlign = (n, rows)"
    and seg: "length (segments ! i) = w_of t i"
    and twins: "\<And>m. same_span t m i \<Longrightarrow> m < unat (ct_count t) \<Longrightarrow> segments ! m = segments ! i"
    and i: "i < unat (ct_count t)" and r: "row_of t i < n" and k: "covers t (row_of t i) k i" "k < length (rows ! row_of t i)"
    and wide: "cm_width (member_at t i) \<noteq> 0"
  shows "rows ! row_of t i ! k = (if \<exists>j < unat (ct_count t). cm_host (member_at t j) = [] \<and> same_span t j i
    then clusterAlignRow own (w_of t i) ownAlign else segments ! i) ! (k - col_of t i)"
proof -
  let ?r = "row_of t i" and ?own = "clusterAlignRow own (w_of t i) ownAlign"
  have on: "on_row t ?r i" using wide by (simp add: on_row_def)
  have alike: "same_span t m i" if "m < unat (ct_count t)" "covers t ?r k m" for m
    using valid_disjoint [OF valid that(1) i _ on that(2) k(1)] that(2)
    by (cases "cm_width (member_at t m) = 0") (auto simp: on_row_def covers_def)
  have slots: "slot_of t segments own ownAlign m = (if cm_host (member_at t m) = [] then ?own else segments ! i)"
    "col_of t m = col_of t i" if "m < unat (ct_count t)" "covers t ?r k m" for m
    using alike [OF that] twins [of m] seg that(1) i by (auto simp: slot_of_def align_exact same_span_def)
  have covered: "covers t ?r k m" if "same_span t m i" for m
    using that k(1) by (simp add: same_span_def covers_def)
  have who: "(\<exists>m < unat (ct_count t). writes t self ?r k m) \<longleftrightarrow>
      (\<exists>m < unat (ct_count t). (cm_host (member_at t m) = []) = self \<and> same_span t m i)" for self
    using alike covered by (metis writes_def)
  have shown: "rows ! ?r ! k = (if \<exists>m < unat (ct_count t). writes t True ?r k m then ?own ! (k - col_of t i)
      else if \<exists>m < unat (ct_count t). writes t False ?r k m then segments ! i ! (k - col_of t i) else space)"
    by (rule mirror_cell [OF valid mirror r k(2)]) (use slots in \<open>simp_all add: writes_def\<close>)
  have "same_span t i i" by (simp add: same_span_def)
  with i have "(\<exists>m < unat (ct_count t). writes t True ?r k m) \<or> (\<exists>m < unat (ct_count t). writes t False ?r k m)"
    unfolding who by metis
  with shown show ?thesis unfolding who by (auto split: if_splits)
qed

text \<open>C27: The mirror puts back what the layout took apart. For the slices of a text, the rows of the mirror
  are as long as the wall reaches, every member's columns show the slice it got, or the master's own
  text, aligned, where the master has a place there, and the columns no member owns are blank.\<close>

theorem mirror_puts_slices_back:
  assumes "table_shape t" "layoutGridText s align t = Some segments"
    and "clusterMirrorRows t segments own ownAlign = (n, rows)"
  shows "(\<forall>i < unat (ct_count t). cm_width (member_at t i) \<noteq> 0 \<longrightarrow>
      row_of t i < n \<and> col_of t i + w_of t i \<le> length (rows ! row_of t i)
      \<and> substring (rows ! row_of t i) (col_of t i) (col_of t i + w_of t i) =
          (if \<exists>j < unat (ct_count t). cm_host (member_at t j) = [] \<and> same_span t j i
           then clusterAlignRow own (w_of t i) ownAlign else segments ! i))
    \<and> (\<forall>r < n. \<forall>k < length (rows ! r). (\<forall>i < unat (ct_count t). \<not> covers t r k i) \<longrightarrow> rows ! r ! k = space)"
proof (intro conjI allI impI)
  from layout_Some [OF assms(2,1)] obtain g where valid: "valid_table t g"
    and segments: "segments = map (clusterSliceSegment t (align_rows g align (clusterWrapRows s g))) (slots t)" .
  note shape = mirror_shape [OF valid assms(3)]
  have seg: "length (segments ! i) = w_of t i" if "i < unat (ct_count t)" for i
    using slice_length [OF valid that, of "align_rows g align (clusterWrapRows s g)"] that by (simp add: segments)
  have twins: "segments ! i = segments ! j" if "same_span t i j" "i < unat (ct_count t)" "j < unat (ct_count t)" for i j
    using twins_alike [OF that(1)] that(2,3) by (simp add: segments)
  {
    fix i
    assume i: "i < unat (ct_count t)" "cm_width (member_at t i) \<noteq> 0"
    let ?r = "row_of t i"
    have on: "on_row t ?r i" using i(2) by (simp add: on_row_def)
    show r: "?r < n" using valid_shape(2) [OF valid i(1) on] shape(1) by simp
    show long: "col_of t i + w_of t i \<le> length (rows ! ?r)"
      using valid_extent [OF valid i(1) on] shape(2) [OF r] by simp
    note cell = place_cell [OF valid assms(3) seg [OF i(1)] twins [OF _ _ i(1)] i(1) r _ _ i(2)]
    show "substring (rows ! ?r) (col_of t i) (col_of t i + w_of t i) =
        (if \<exists>j < unat (ct_count t). cm_host (member_at t j) = [] \<and> same_span t j i
         then clusterAlignRow own (w_of t i) ownAlign else segments ! i)" (is "?shown = ?due")
    proof (rule nth_equalityI)
      fix k
      assume "k < length ?shown"
      then have "k < w_of t i" by (simp add: substring_def)
      then show "?shown ! k = ?due ! k"
        using cell [of "col_of t i + k"] long by (simp add: substring_def covers_def)
    qed (use long seg [OF i(1)] in \<open>simp add: substring_def\<close>)
  }
  fix r k
  assume cell: "r < n" "k < length (rows ! r)" "\<forall>i < unat (ct_count t). \<not> covers t r k i"
  have "rows ! r ! k = (if \<exists>m < unat (ct_count t). writes t True r k m then space
      else if \<exists>m < unat (ct_count t). writes t False r k m then space else space)"
    by (rule mirror_cell [OF valid assms(3) cell(1,2)]) (use cell(3) in \<open>simp_all add: writes_def\<close>)
  then show "rows ! r ! k = space" by simp
qed

theorem mirror_puts_slices_back_witness:
  "clusterMirrorRows sample_wall [''HELLO'', ''OU'', '' Y''] ''ME'' DA_Left = (2, [''HELLO'', ''ME OU''])
   \<and> substring ''ME OU'' 3 5 = ''OU''"
proof -
  have "table_shape sample_wall" by (simp add: table_shape_def sample_wall_def CLUSTER_MAX_MEMBERS_def)
  have mirror: "clusterMirrorRows sample_wall [''HELLO'', ''OU'', '' Y''] ''ME'' DA_Left = (2, [''HELLO'', ''ME OU''])"
    by code_simp
  have wall: "unat (ct_count sample_wall) = 3" "cm_width (member_at sample_wall 1) \<noteq> 0"
    "row_of sample_wall 1 = 1" "col_of sample_wall 1 = 3" "w_of sample_wall 1 = 2"
    by (simp_all add: sample_wall_def sample_member_def)
  have "\<not> (cm_host (member_at sample_wall j) = [] \<and> same_span sample_wall j 1)" if "j < 3" for j :: nat
  proof -
    consider "j = 0" | "j = 1" | "j = 2" using \<open>j < 3\<close> by (auto simp: numeral_3_eq_3 less_Suc_eq)
    then show ?thesis by cases (simp_all add: sample_wall_def sample_member_def same_span_def)
  qed
  from conjunct1 [OF mirror_puts_slices_back [OF \<open>table_shape sample_wall\<close> sample_wall_laid_out mirror],
      rule_format, of 1] wall this mirror
  show ?thesis by auto
qed

end
