(* ===== verification/Wall_Stream.thy ===== *)
theory Wall_Stream
  imports SF_Prelude
begin

text \<open>
  The byte stream of the wall link (link/WallLinkStream.h): a reader of bounded size that collects
  length-delimited messages from whatever pieces the socket gives, and the documents that travel as
  several messages. The size of the largest message body and of the largest document piece come from
  the generated nanopb header; they are parameters here, and so is what nanopb makes of a body. A
  buffer with \<open>have\<close> bytes in it is the list of these bytes.
\<close>

section \<open>The reader\<close>

definition WL_PREFIX_MAX :: nat where "WL_PREFIX_MAX = 3"

datatype WlFeed = Feed_NeedMore | Feed_Message | Feed_Bad

text \<open>\<open>parse\<close>: what is at the start of the buffer, with the sizes of the prefix and of the body.\<close>

function parse_loop :: "nat \<Rightarrow> bytes \<Rightarrow> nat \<Rightarrow> u32 \<Rightarrow> WlFeed \<times> nat \<times> nat" where
  "parse_loop maxBody buf i len =
     (if i < length buf \<and> i < WL_PREFIX_MAX
      then let len = len OR push_bit (7 * i) (ucast (buf ! i AND 0x7F))
           in if buf ! i AND 0x80 = 0
              then (if unat len > maxBody then (Feed_Bad, 0, 0)
                    else (if length buf \<ge> i + 1 + unat len then Feed_Message else Feed_NeedMore, i + 1, unat len))
              else parse_loop maxBody buf (i + 1) len
      else (if length buf \<ge> WL_PREFIX_MAX then Feed_Bad else Feed_NeedMore, 0, 0))"
  by pat_completeness auto
termination
  by (relation "measure (\<lambda>(_, _, i, _). WL_PREFIX_MAX - i)") auto

declare parse_loop.simps [simp del]

definition wl_parse :: "nat \<Rightarrow> bytes \<Rightarrow> WlFeed \<times> nat \<times> nat" where
  "wl_parse maxBody buf = parse_loop maxBody buf 0 0"

definition wl_feed :: "nat \<Rightarrow> bytes \<Rightarrow> bytes \<Rightarrow> nat \<times> bytes" where
  "wl_feed maxBody buf data =
     (let room = WL_PREFIX_MAX + maxBody - length buf;
          took = (if length data < room then length data else room)
      in (took, buf @ take took data))"

definition wl_peek :: "nat \<Rightarrow> bytes \<Rightarrow> WlFeed" where
  "wl_peek maxBody buf = fst (wl_parse maxBody buf)"

definition wl_decode :: "(bytes \<Rightarrow> 'm option) \<Rightarrow> nat \<Rightarrow> bytes \<Rightarrow> 'm option" where
  "wl_decode pb_decode maxBody buf =
     (case wl_parse maxBody buf of (state, pre, body) \<Rightarrow>
        if state \<noteq> Feed_Message then None else pb_decode (take body (drop pre buf)))"

definition wl_pop :: "nat \<Rightarrow> bytes \<Rightarrow> bytes" where
  "wl_pop maxBody buf =
     (case wl_parse maxBody buf of (state, pre, body) \<Rightarrow>
        if state \<noteq> Feed_Message then buf else drop (pre + body) buf)"

section \<open>Reading a socket\<close>

text \<open>The sizes a parse reports lie within the buffer, and a reader that waits for more has room for it.\<close>

lemma parse_loop_cases:
  assumes "parse_loop maxBody buf i len = (state, pre, body)" "i \<le> WL_PREFIX_MAX"
  shows "(state = Feed_Message \<longrightarrow> i < pre \<and> pre \<le> WL_PREFIX_MAX \<and> body \<le> maxBody \<and> pre + body \<le> length buf)
    \<and> (state = Feed_NeedMore \<longrightarrow> length buf < WL_PREFIX_MAX + maxBody \<or> length buf < WL_PREFIX_MAX)"
  using assms
proof (induction maxBody buf i len rule: parse_loop.induct)
  case (1 maxBody buf i len)
  note code = parse_loop.simps [of maxBody buf i len]
  show ?case
  proof (cases "i < length buf \<and> i < WL_PREFIX_MAX")
    case True
    show ?thesis
    proof (cases "buf ! i AND 0x80 = 0")
      case last: True
      with True "1.prems" show ?thesis by (auto simp: code Let_def split: if_splits)
    next
      case False
      with True "1.prems" "1.IH" [OF True refl False] show ?thesis by (auto simp: code Let_def)
    qed
  next
    case False
    with "1.prems" show ?thesis by (auto simp: code split: if_splits)
  qed
qed

lemma wl_parse_Message:
  assumes "wl_parse maxBody buf = (Feed_Message, pre, body)"
  shows "0 < pre" "pre + body \<le> length buf" "body \<le> maxBody"
  using parse_loop_cases [of maxBody buf 0 0 Feed_Message pre body] assms by (auto simp: wl_parse_def)

lemma wl_parse_NeedMore:
  assumes "wl_parse maxBody buf = (Feed_NeedMore, pre, body)"
  shows "length buf < WL_PREFIX_MAX + maxBody"
  using parse_loop_cases [of maxBody buf 0 0 Feed_NeedMore pre body] assms by (auto simp: wl_parse_def)

text \<open>The two nested loops around a reader (\<open>WallLinkCore::bytes\<close>). The handler takes a message body and
  says whether the connection is still open; \<open>bad\<close> is what is done about a stream that is no link
  stream.\<close>

definition wl_body :: "nat \<Rightarrow> bytes \<Rightarrow> bytes" where
  "wl_body maxBody buf = (case wl_parse maxBody buf of (_, pre, body) \<Rightarrow> take body (drop pre buf))"

lemma wl_pop_shorter: "wl_peek maxBody buf = Feed_Message \<Longrightarrow> length (wl_pop maxBody buf) < length buf"
  using wl_parse_Message [of maxBody buf]
  by (cases "wl_parse maxBody buf") (auto simp: wl_peek_def wl_pop_def)

lemma wl_peek_room: "wl_peek maxBody buf = Feed_NeedMore \<Longrightarrow> length buf < WL_PREFIX_MAX + maxBody"
  using wl_parse_NeedMore [of maxBody buf] by (cases "wl_parse maxBody buf") (auto simp: wl_peek_def)

function serve_buffer ::
  "(bytes \<Rightarrow> 'w \<Rightarrow> bool \<times> 'w) \<Rightarrow> nat \<Rightarrow> bytes \<Rightarrow> 'w \<Rightarrow> bool \<times> bytes \<times> 'w \<times> WlFeed" where
  "serve_buffer h maxBody buf w =
     (if wl_peek maxBody buf = Feed_Message
      then (case h (wl_body maxBody buf) w of
              (still_open, w) \<Rightarrow>
                if still_open then serve_buffer h maxBody (wl_pop maxBody buf) w
                else (False, wl_pop maxBody buf, w, Feed_Message))
      else (True, buf, w, wl_peek maxBody buf))"
  by pat_completeness auto
termination
  by (relation "measure (\<lambda>(_, _, buf, _). length buf)") (auto simp: wl_pop_shorter)

declare serve_buffer.simps [simp del]

lemma serve_buffer_shorter:
  assumes "serve_buffer h maxBody buf w = (still_open, buf', w', state)"
  shows "length buf' \<le> length buf \<and> (wl_peek maxBody buf = Feed_Message \<longrightarrow> length buf' < length buf)
    \<and> (wl_peek maxBody buf \<noteq> Feed_Message \<longrightarrow> still_open \<and> state = wl_peek maxBody buf)"
  using assms
proof (induction h maxBody buf w rule: serve_buffer.induct)
  case (1 h maxBody buf w)
  obtain o1 w1 where h: "h (wl_body maxBody buf) w = (o1, w1)" by fastforce
  show ?case
  proof (cases "wl_peek maxBody buf = Feed_Message")
    case True
    with wl_pop_shorter [OF True] h "1.prems" "1.IH" [OF True h [symmetric]] show ?thesis
      by (auto simp: serve_buffer.simps [of h maxBody buf w] split: if_splits)
  next
    case False
    with "1.prems" show ?thesis by (auto simp: serve_buffer.simps [of h maxBody buf w])
  qed
qed

lemma serve_progress:
  assumes "wl_feed maxBody buf data = (took, buf1)" "serve_buffer h maxBody buf1 w = (still_open, buf2, w', state)"
    and "state \<noteq> Feed_Bad" "data \<noteq> []"
  shows "0 < took \<or> length buf2 < length buf"
proof (cases "took = 0")
  case True
  with assms(1,4) have full: "WL_PREFIX_MAX + maxBody \<le> length buf" "buf1 = buf"
    by (auto simp: wl_feed_def Let_def split: if_splits)
  with wl_peek_room [of maxBody buf1] serve_buffer_shorter [OF assms(2)] assms(3) show ?thesis
    by (cases "wl_peek maxBody buf1") auto
qed simp

function serve ::
  "(bytes \<Rightarrow> 'w \<Rightarrow> bool \<times> 'w) \<Rightarrow> ('w \<Rightarrow> 'w) \<Rightarrow> nat \<Rightarrow> bytes \<Rightarrow> bytes \<Rightarrow> 'w \<Rightarrow> bytes \<times> 'w" where
  "serve h bad maxBody buf data w =
     (case wl_feed maxBody buf data of
        (took, buf1) \<Rightarrow>
          (case serve_buffer h maxBody buf1 w of
             (still_open, buf2, w, state) \<Rightarrow>
               if \<not> still_open then (buf2, w)
               else if state = Feed_Bad then (buf2, bad w)
               else if drop took data = [] then (buf2, w)
               else serve h bad maxBody buf2 (drop took data) w))"
  by pat_completeness auto
termination
proof (relation "measures [\<lambda>(_, _, _, _, data, _). length data, \<lambda>(_, _, _, buf, _). length buf]", goal_cases)
  case (2 h bad maxBody buf data w)
  then show ?case by (auto dest!: serve_progress [OF sym sym])
qed simp

declare serve.simps [simp del]

section \<open>A document in pieces\<close>

record wl_UnitsJson =
  uj_doc_id :: u32
  uj_offset :: u32
  uj_total :: u32
  uj_data :: bytes

definition wlUnitsPiece :: "nat \<Rightarrow> u32 \<Rightarrow> bytes \<Rightarrow> u32 \<Rightarrow> u32 \<Rightarrow> wl_UnitsJson \<times> u32" where
  "wlUnitsPiece pieceMax docId doc whole offset =
     (let n = whole - offset; n = (if unat n > pieceMax then of_nat pieceMax else n)
      in (\<lparr>uj_doc_id = docId, uj_offset = offset, uj_total = whole, uj_data = take (unat n) (drop (unat offset) doc)\<rparr>,
          offset + n))"

datatype DocResult = Doc_Partial | Doc_Complete | Doc_Rejected

text \<open>The buffer is the caller's, of \<open>cap\<close> bytes; a write past its end would lengthen the list.\<close>

record WlDocAssembler =
  da_buf :: bytes
  da_cap :: nat
  da_docId :: u32
  da_total :: u32
  da_have :: u32
  da_active :: bool

definition splice :: "nat \<Rightarrow> bytes \<Rightarrow> bytes \<Rightarrow> bytes" where
  "splice at data buf = take at buf @ data @ drop (at + length data) buf"

definition doc_add :: "wl_UnitsJson \<Rightarrow> WlDocAssembler \<Rightarrow> DocResult \<times> WlDocAssembler" where
  "doc_add p a =
     (if uj_total p = 0 \<or> unat (uj_total p) \<ge> da_cap a \<or> uj_offset p > uj_total p
         \<or> length (uj_data p) > unat (uj_total p - uj_offset p)
      then (Doc_Rejected, a\<lparr>da_active := False\<rparr>)
      else if uj_offset p \<noteq> 0
         \<and> (\<not> da_active a \<or> uj_doc_id p \<noteq> da_docId a \<or> uj_total p \<noteq> da_total a \<or> uj_offset p \<noteq> da_have a)
      then (Doc_Rejected, a\<lparr>da_active := False\<rparr>)
      else let a = (if uj_offset p = 0
                    then a\<lparr>da_docId := uj_doc_id p, da_total := uj_total p, da_have := 0, da_active := True\<rparr> else a);
               a = a\<lparr>da_buf := splice (unat (da_have a)) (uj_data p) (da_buf a),
                     da_have := da_have a + of_nat (length (uj_data p))\<rparr>
           in if da_have a < da_total a then (Doc_Partial, a)
              else (Doc_Complete, a\<lparr>da_buf := splice (unat (da_total a)) [0] (da_buf a), da_active := False\<rparr>))"

end
