(* ===== verification/Wall_Frames.thy ===== *)
theory Wall_Frames
  imports Wall_Stream
begin

text \<open>
  What a reader of the wall link makes of a stream of messages, however the socket cuts it up, and what
  an assembler makes of the pieces of a document. A message on the wire is its length as a varint, in
  groups of seven bits from the lowest, then its body.
\<close>

section \<open>The messages of a stream\<close>

text \<open>The reader without its bound: all whole messages at the start of a stream, the rest, and whether it
  waits for more or is no link stream.\<close>

function messages :: "nat \<Rightarrow> bytes \<Rightarrow> bytes list \<times> bytes \<times> WlFeed" where
  "messages maxBody s =
     (if wl_peek maxBody s = Feed_Message
      then (case messages maxBody (wl_pop maxBody s) of (ms, rest, state) \<Rightarrow> (wl_body maxBody s # ms, rest, state))
      else ([], s, wl_peek maxBody s))"
  by pat_completeness auto
termination
  by (relation "measure (\<lambda>(_, s). length s)") (auto simp: wl_pop_shorter)

declare messages.simps [simp del]

lemma parse_loop_append:
  assumes "parse_loop maxBody buf i len = (state, pre, body)" "state \<noteq> Feed_NeedMore"
  shows "parse_loop maxBody (buf @ extra) i len = (state, pre, body)"
  using assms
proof (induction maxBody buf i len rule: parse_loop.induct)
  case (1 maxBody buf i len)
  note code = parse_loop.simps [of maxBody buf i len] parse_loop.simps [of maxBody "buf @ extra" i len]
  show ?case
  proof (cases "i < length buf \<and> i < WL_PREFIX_MAX")
    case True
    then have same: "(buf @ extra) ! i = buf ! i" by (simp add: nth_append)
    show ?thesis
    proof (cases "buf ! i AND 0x80 = 0")
      case last: True
      with True "1.prems" same show ?thesis by (auto simp: code Let_def split: if_splits)
    next
      case False
      with True "1.prems" "1.IH" [OF True refl False] same show ?thesis by (auto simp: code Let_def)
    qed
  next
    case False
    with "1.prems" show ?thesis by (auto simp: code WL_PREFIX_MAX_def split: if_splits)
  qed
qed

lemma wl_parse_append:
  "wl_parse maxBody buf = (state, pre, body) \<Longrightarrow> state \<noteq> Feed_NeedMore \<Longrightarrow>
   wl_parse maxBody (buf @ extra) = (state, pre, body)"
  by (simp add: wl_parse_def parse_loop_append)

lemma peek_append:
  "wl_peek maxBody buf = Feed_Bad \<Longrightarrow> wl_peek maxBody (buf @ extra) = Feed_Bad"
  "wl_peek maxBody buf = Feed_Message \<Longrightarrow> wl_peek maxBody (buf @ extra) = Feed_Message"
  "wl_peek maxBody buf = Feed_Message \<Longrightarrow> wl_body maxBody (buf @ extra) = wl_body maxBody buf"
  "wl_peek maxBody buf = Feed_Message \<Longrightarrow> wl_pop maxBody (buf @ extra) = wl_pop maxBody buf @ extra"
  using wl_parse_append [of maxBody buf _ _ _ extra] wl_parse_Message [of maxBody buf]
  by (cases "wl_parse maxBody buf"; auto simp: wl_peek_def wl_body_def wl_pop_def)+

lemma messages_state: "messages maxBody s = (ms, rest, state) \<Longrightarrow> state \<noteq> Feed_Message \<and> wl_peek maxBody rest = state"
proof (induction maxBody s arbitrary: ms rule: messages.induct)
  case (1 maxBody s)
  then show ?case
    by (cases "wl_peek maxBody s = Feed_Message") (auto simp: messages.simps [of maxBody s] split: prod.splits)
qed

lemma messages_append:
  assumes "messages maxBody s = (ms, rest, state)"
  shows "messages maxBody (s @ extra) =
     (if state = Feed_Bad then (ms, rest @ extra, Feed_Bad)
      else case messages maxBody (rest @ extra) of (ms', rest', state') \<Rightarrow> (ms @ ms', rest', state'))"
  using assms
proof (induction maxBody s arbitrary: ms rule: messages.induct)
  case (1 maxBody s)
  show ?case
  proof (cases "wl_peek maxBody s = Feed_Message")
    case True
    then obtain ms1 where ms: "messages maxBody (wl_pop maxBody s) = (ms1, rest, state)" "ms = wl_body maxBody s # ms1"
      using "1.prems" by (auto simp: messages.simps [of maxBody s] split: prod.splits)
    from "1.IH" [OF True ms(1)] show ?thesis
      by (simp add: messages.simps [of maxBody "s @ extra"] peek_append(2-4) [OF True] True ms(2)
          split: prod.splits)
  next
    case False
    with "1.prems" have "ms = []" "rest = s" "state = wl_peek maxBody s"
      by (auto simp: messages.simps [of maxBody s])
    with False show ?thesis
      by (cases "wl_peek maxBody s") (auto simp: messages.simps [of maxBody "s @ extra"] peek_append split: prod.splits)
  qed
qed

text \<open>Handing messages over until the handler closes the connection.\<close>

fun handle_all :: "(bytes \<Rightarrow> 'w \<Rightarrow> bool \<times> 'w) \<Rightarrow> bytes list \<Rightarrow> 'w \<Rightarrow> bool \<times> 'w" where
  "handle_all h [] w = (True, w)"
| "handle_all h (m # ms) w = (case h m w of (still_open, w) \<Rightarrow> if still_open then handle_all h ms w else (False, w))"

lemma handle_all_append:
  "handle_all h (xs @ ys) w = (case handle_all h xs w of (True, w) \<Rightarrow> handle_all h ys w | (False, w) \<Rightarrow> (False, w))"
  by (induction xs arbitrary: w) (auto split: prod.splits bool.splits)

lemma serve_buffer_messages:
  assumes "messages maxBody buf = (ms, rest, state)"
  shows "case serve_buffer h maxBody buf w of (still_open, buf', w', state') \<Rightarrow>
    (still_open, w') = handle_all h ms w \<and> (still_open \<longrightarrow> buf' = rest \<and> state' = state)"
  using assms
proof (induction maxBody buf arbitrary: ms w rule: messages.induct)
  case (1 maxBody buf)
  show ?case
  proof (cases "wl_peek maxBody buf = Feed_Message")
    case True
    then obtain ms1 where ms: "messages maxBody (wl_pop maxBody buf) = (ms1, rest, state)" "ms = wl_body maxBody buf # ms1"
      using "1.prems" by (auto simp: messages.simps [of maxBody buf] split: prod.splits)
    obtain o1 w1 where "h (wl_body maxBody buf) w = (o1, w1)" by fastforce
    with "1.IH" [OF True ms(1), of w1] True show ?thesis
      by (auto simp: serve_buffer.simps [of h maxBody buf w] ms(2))
  next
    case False
    with "1.prems" have "ms = []" "rest = buf" "state = wl_peek maxBody buf"
      by (auto simp: messages.simps [of maxBody buf])
    with False show ?thesis by (simp add: serve_buffer.simps [of h maxBody buf w])
  qed
qed

text \<open>The bounded reader handles what the unbounded one finds.\<close>

lemma serve_messages:
  assumes "messages maxBody (buf @ data) = (ms, rest, state)" "handle_all h ms w = (still_open, w')"
  shows "snd (serve h bad maxBody buf data w) = (if still_open \<and> state = Feed_Bad then bad w' else w')
    \<and> (still_open \<and> state = Feed_NeedMore \<longrightarrow> fst (serve h bad maxBody buf data w) = rest)"
  using assms
proof (induction h bad maxBody buf data w arbitrary: ms rule: serve.induct)
  case (1 h bad maxBody buf data w)
  obtain took buf1 where feed: "wl_feed maxBody buf data = (took, buf1)" by fastforce
  then have split: "buf @ data = buf1 @ drop took data" by (auto simp: wl_feed_def Let_def)
  obtain ms1 rest1 state1 where m1: "messages maxBody buf1 = (ms1, rest1, state1)" by (metis prod_cases3)
  obtain o2 buf2 w2 state2 where b: "serve_buffer h maxBody buf1 w = (o2, buf2, w2, state2)" by (metis prod_cases4)
  from serve_buffer_messages [OF m1, of h w] b
  have h1: "handle_all h ms1 w = (o2, w2)" "o2 \<Longrightarrow> buf2 = rest1 \<and> state2 = state1" by auto
  note code = serve.simps [of h bad maxBody buf data w]
  obtain ms2 rest2 state3 where m2: "messages maxBody (rest1 @ drop took data) = (ms2, rest2, state3)" by (metis prod_cases3)
  have whole: "(ms, rest, state) = (if state1 = Feed_Bad then (ms1, rest1 @ drop took data, Feed_Bad) else (ms1 @ ms2, rest2, state3))"
    using messages_append [OF m1, of "drop took data"] "1.prems"(1) m2 by (cases "state1 = Feed_Bad") (simp_all add: split)
  show ?case
  proof (cases o2)
    case closed: False
    obtain xs where "ms = ms1 @ xs" using whole by (auto split: if_splits)
    then have "handle_all h ms w = (False, w2)" using h1(1) closed by (simp add: handle_all_append)
    with "1.prems"(2) show ?thesis by (simp add: code feed b closed)
  next
    case True
    then have b2: "buf2 = rest1" "state2 = state1" using h1(2) by simp_all
    show ?thesis
    proof (cases "state1 = Feed_Bad")
      case bad: True
      with whole h1(1) True "1.prems"(2) show ?thesis by (simp add: code feed b b2)
    next
      case good: False
      then have parts: "ms = ms1 @ ms2" "rest = rest2" "state = state3" using whole by simp_all
      have later: "handle_all h ms2 w2 = (still_open, w')"
        using "1.prems"(2) h1(1) True by (simp add: parts handle_all_append)
      show ?thesis
      proof (cases "drop took data = []")
        case True
        then have "messages maxBody rest1 = (ms2, rest2, state3)" using m2 by simp
        moreover have "wl_peek maxBody rest1 = state1" "state1 \<noteq> Feed_Message" using messages_state [OF m1] by simp_all
        ultimately have "ms2 = []" "rest2 = rest1" "state3 = state1"
          by (auto simp: messages.simps [of maxBody rest1])
        with later True \<open>o2\<close> good show ?thesis by (simp add: code feed b b2 parts)
      next
        case False
        with "1.IH" [OF feed [symmetric] b [symmetric] refl refl, of ms2] True good b2 m2 later show ?thesis
          by (simp add: code feed b parts)
      qed
    qed
  qed
qed

section \<open>Length-delimited messages\<close>

fun varint :: "nat \<Rightarrow> bytes" where
  "varint n = (if n < 128 then [of_nat n] else of_nat (n mod 128 + 128) # varint (n div 128))"

declare varint.simps [simp del]

definition delimited :: "bytes \<Rightarrow> bytes" where
  "delimited body = varint (length body) @ body"

lemma low_byte: "m < 256 \<Longrightarrow> unat (of_nat m :: u8) = m"
  by (subst unat_of_nat) simp

lemma group_value: "m < 256 \<Longrightarrow> (ucast ((of_nat m :: u8) AND 0x7F) :: u32) = of_nat (m mod 128)"
proof -
  assume m: "m < 256"
  have "(0x7F :: u8) = mask 7" by (simp add: mask_eq_exp_minus_1)
  then have group: "(of_nat m :: u8) AND 0x7F = take_bit 7 (of_nat m)" by (simp only: take_bit_eq_mask)
  have "unat ((of_nat m :: u8) AND 0x7F) = m mod 128"
    unfolding group unsigned_take_bit_eq low_byte [OF m] by (simp add: take_bit_eq_mod)
  then have "unat (ucast ((of_nat m :: u8) AND 0x7F) :: u32) = m mod 128" by (simp add: unat_ucast_byte)
  also have "m mod 128 < 2 ^ 32" by (rule less_trans [of _ 128]) simp_all
  then have "m mod 128 = unat (of_nat (m mod 128) :: u32)" by (simp add: unat_of_nat take_bit_nat_eq_self)
  finally show ?thesis by (simp only: word_unat_eq_iff)
qed

lemma group_last: "m < 256 \<Longrightarrow> (of_nat m :: u8) AND 0x80 = 0 \<longleftrightarrow> m < 128"
  using low_byte [of m] by (simp add: and_80_eq_0_iff bit_7_iff not_le)

lemma add_group: "a < 2 ^ m \<Longrightarrow> (of_nat a :: u32) OR push_bit m (of_nat k) = of_nat (a + 2 ^ m * k)"
  by (metis of_nat_or_eq or_push_bit_nat push_bit_of_nat)

lemma parse_varint:
  assumes "a < 2 ^ (7 * length p)" "whole = a + 2 ^ (7 * length p) * n" "whole \<le> maxBody" "whole < 2 ^ 32"
    and "length p + length (varint n) \<le> WL_PREFIX_MAX"
  shows "parse_loop maxBody (p @ varint n @ s) (length p) (of_nat a) =
    (if whole \<le> length s then Feed_Message else Feed_NeedMore, length p + length (varint n), whole)"
  using assms
proof (induction n arbitrary: p a rule: varint.induct)
  case (1 n)
  have len: "unat (of_nat whole :: u32) = whole" using "1.prems"(4) by (subst unat_of_nat) simp
  note code = parse_loop.simps [of maxBody "p @ varint n @ s" "length p"]
  show ?case
  proof (cases "n < 128")
    case True
    then have "varint n = [of_nat n]" by (simp add: varint.simps [of n])
    moreover have "(of_nat a :: u32) OR push_bit (7 * length p) (ucast ((of_nat n :: u8) AND 0x7F)) = of_nat whole"
      using group_value [of n] add_group [OF "1.prems"(1), of n] True by (simp only: "1.prems"(2)) simp
    moreover have "(of_nat n :: u8) AND 0x80 = 0" using group_last [of n] True by simp
    ultimately show ?thesis
      using "1.prems"(3,5) len by (subst code) (simp add: Let_def nth_append)
  next
    case False
    define c :: u8 where "c = of_nat (n mod 128 + 128)"
    have v: "varint n = c # varint (n div 128)" using False by (simp add: varint.simps [of n] c_def)
    have c: "n mod 128 + 128 < 256" by simp
    have joined: "(of_nat a :: u32) OR push_bit (7 * length p) (ucast (c AND 0x7F))
        = of_nat (a + 2 ^ (7 * length p) * (n mod 128))"
      using group_value [OF c] add_group [OF "1.prems"(1), of "n mod 128"] by (simp add: c_def)
    have goes_on: "c AND 0x80 \<noteq> 0" using group_last [OF c] by (simp add: c_def)
    have "a + 2 ^ (7 * length p) * (n mod 128) < 2 ^ (7 * length (p @ [c]))"
    proof -
      have "a + 2 ^ (7 * length p) * (n mod 128) < 2 ^ (7 * length p) * (n mod 128 + 1)"
        using "1.prems"(1) by simp
      also have "\<dots> \<le> 2 ^ (7 * length p) * 128" by (intro mult_le_mono) (simp_all add: Suc_leI)
      finally show ?thesis by (simp add: power_add mult.commute)
    qed
    moreover have "whole = a + 2 ^ (7 * length p) * (n mod 128) + 2 ^ (7 * length (p @ [c])) * (n div 128)"
    proof -
      have "n = n mod 128 + 128 * (n div 128)" by simp
      then have "2 ^ (7 * length p) * n = 2 ^ (7 * length p) * (n mod 128) + 2 ^ (7 * length p) * 128 * (n div 128)"
        by (metis distrib_left mult.assoc)
      then show ?thesis by (simp add: "1.prems"(2) power_add mult.commute)
    qed
    ultimately have "parse_loop maxBody ((p @ [c]) @ varint (n div 128) @ s) (length (p @ [c]))
        (of_nat (a + 2 ^ (7 * length p) * (n mod 128))) =
      (if whole \<le> length s then Feed_Message else Feed_NeedMore, length (p @ [c]) + length (varint (n div 128)), whole)"
      using "1.prems"(3-5) v by (intro "1.IH" [OF False]) simp_all
    with goes_on joined "1.prems"(5) show ?thesis by (subst code) (simp add: v Let_def nth_append)
  qed
qed

lemma length_varint: "n < 2 ^ 21 \<Longrightarrow> length (varint n) \<le> WL_PREFIX_MAX"
proof -
  assume "n < 2 ^ 21"
  then have "n div 128 div 128 < 128" by (simp add: div_mult2_eq [symmetric] div_less_iff_less_mult)
  then show ?thesis
    by (simp add: varint.simps [of n] varint.simps [of "n div 128"] varint.simps [of "n div 128 div 128"] WL_PREFIX_MAX_def)
qed

lemma parse_delimited:
  assumes "length body \<le> maxBody" "length body < 2 ^ 21"
  shows "wl_parse maxBody (delimited body @ s) = (Feed_Message, length (varint (length body)), length body)"
  using parse_varint [of 0 "[]" "length body" "length body" maxBody "body @ s"] length_varint [OF assms(2)] assms
  by (simp add: wl_parse_def delimited_def)

lemma messages_delimited:
  assumes "length body \<le> maxBody" "length body < 2 ^ 21"
  shows "messages maxBody (delimited body @ s) = (case messages maxBody s of (ms, rest, state) \<Rightarrow> (body # ms, rest, state))"
  using parse_delimited [OF assms, of s]
  by (simp add: messages.simps [of maxBody "delimited body @ s"] wl_peek_def wl_body_def wl_pop_def)
    (simp add: delimited_def)

text \<open>A message not yet whole.\<close>

lemma part_waits:
  assumes "length body \<le> maxBody" "length body < 2 ^ 21" "delimited body = part @ rest" "rest \<noteq> []"
  shows "wl_peek maxBody part = Feed_NeedMore"
proof (rule ccontr)
  obtain state pre body' where p: "wl_parse maxBody part = (state, pre, body')" by (metis prod_cases3)
  assume "wl_peek maxBody part \<noteq> Feed_NeedMore"
  with p have "state \<noteq> Feed_NeedMore" by (simp add: wl_peek_def)
  from wl_parse_append [OF p this, of rest] parse_delimited [OF assms(1,2), of "[]"] assms(3)
  have same: "state = Feed_Message" "pre = length (varint (length body))" "body' = length body" by simp_all
  with p have "pre + body' \<le> length part" using wl_parse_Message(2) by blast
  moreover have "length part + length rest = length (varint (length body)) + length body"
    using arg_cong [OF assms(3), of length] by (simp add: delimited_def)
  ultimately show False using same(2,3) assms(4) by (cases rest) auto
qed

lemma messages_stream:
  assumes "\<forall>b\<in>set bodies. length b \<le> maxBody \<and> length b < 2 ^ 21" "wl_peek maxBody part = Feed_NeedMore"
  shows "messages maxBody (concat (map delimited bodies) @ part) = (bodies, part, Feed_NeedMore)"
  using assms
  by (induction bodies) (simp_all add: messages_delimited messages.simps [of maxBody part])

lemma handle_all_open: "(\<And>m w. fst (h m w)) \<Longrightarrow> handle_all h ms w = (True, fold (\<lambda>m w. snd (h m w)) ms w)"
proof (induction ms arbitrary: w)
  case (Cons m ms)
  obtain still_open w1 where "h m w = (still_open, w1)" by fastforce
  with Cons.prems [of m w] Cons.IH [OF Cons.prems, of w1] show ?case by simp
qed simp

lemma peek_nothing [simp]: "wl_peek maxBody [] = Feed_NeedMore"
  by (simp add: wl_peek_def wl_parse_def parse_loop.simps WL_PREFIX_MAX_def)

lemma serve_chunks:
  assumes "\<And>m w. fst (h m w)" "wl_peek maxBody buf = Feed_NeedMore"
    and "messages maxBody (buf @ concat chunks) = (ms, rest, Feed_NeedMore)"
  shows "foldl (\<lambda>(buf, w) chunk. serve h bad maxBody buf chunk w) (buf, w) chunks = (rest, fold (\<lambda>m w. snd (h m w)) ms w)"
  using assms(2,3)
proof (induction chunks arbitrary: buf ms w)
  case Nil
  then show ?case by (simp add: messages.simps [of maxBody buf])
next
  case (Cons c cs)
  obtain m1 r1 s1 where m1: "messages maxBody (buf @ c) = (m1, r1, s1)" by (metis prod_cases3)
  obtain m2 r2 s2 where m2: "messages maxBody (r1 @ concat cs) = (m2, r2, s2)" by (metis prod_cases3)
  from messages_append [OF m1, of "concat cs"] Cons.prems(2) m2
  have parts: "s1 \<noteq> Feed_Bad" "ms = m1 @ m2" "r2 = rest" "s2 = Feed_NeedMore" by (auto split: if_splits)
  with messages_state [OF m1] have wait: "s1 = Feed_NeedMore" "wl_peek maxBody r1 = Feed_NeedMore" by (cases s1; auto)+
  have "serve h bad maxBody buf c w = (r1, fold (\<lambda>m w. snd (h m w)) m1 w)"
    using serve_messages [OF m1 handle_all_open [OF assms(1)], where bad = bad] wait(1) by (simp add: prod_eq_iff)
  with Cons.IH [OF wait(2), of m2] m2 parts show ?case by simp
qed

text \<open>C28: However the socket cuts a stream of messages into pieces, and whatever part of a next message
  has come, a reader on the wall link hands over every whole message exactly once, in order, takes the
  stream for a link stream throughout, and keeps exactly the unfinished part: its bounded buffer never
  stalls or loses a byte.\<close>

theorem messages_arrive_once_in_order:
  assumes "concat chunks = concat (map delimited bodies) @ part"
    and "\<forall>b\<in>set (pending # bodies). length b \<le> maxBody \<and> length b < 2 ^ 21"
    and "delimited pending = part @ rest" "rest \<noteq> []"
    and "\<And>m w. fst (h m w)"
  shows "foldl (\<lambda>(buf, w) chunk. serve h bad maxBody buf chunk w) ([], w) chunks
    = (part, fold (\<lambda>m w. snd (h m w)) bodies w)"
proof (rule serve_chunks [OF assms(5) peek_nothing])
  have "wl_peek maxBody part = Feed_NeedMore" using part_waits [OF _ _ assms(3,4), of maxBody] assms(2) by simp
  with messages_stream [of bodies maxBody part] assms(1,2)
  show "messages maxBody ([] @ concat chunks) = (bodies, part, Feed_NeedMore)" by simp
qed

theorem messages_arrive_once_in_order_witness:
  "foldl (\<lambda>(buf, w) chunk. serve (\<lambda>m w. (True, w @ [m])) (\<lambda>w. []) 5 buf chunk w) ([], []) [[2, 7], [8, 0, 3], [1, 1, 1, 1, 9]]
    = ([], [[7, 8], [], [1, 1, 1], [9]])"
proof -
  let ?chunks = "[[2, 7], [8, 0, 3], [1, 1, 1, 1, 9]] :: bytes list" and ?bodies = "[[7, 8], [], [1, 1, 1], [9]] :: bytes list"
  have small: "varint n = [of_nat n]" if "n < 128" for n using that by (simp add: varint.simps)
  have "concat ?chunks = concat (map delimited ?bodies) @ []" "delimited [] = [] @ [0]"
    by (simp_all add: delimited_def small)
  from messages_arrive_once_in_order [OF this(1) _ this(2), of 5 "\<lambda>m w. (True, w @ [m])" "\<lambda>w. []" "[]"]
  show ?thesis by simp
qed

section \<open>Documents\<close>

text \<open>A piece of one of the documents a row has sent, each under a number of its own.\<close>

definition genuine :: "(u32 \<Rightarrow> bytes) \<Rightarrow> wl_UnitsJson \<Rightarrow> bool" where
  "genuine docs p \<longleftrightarrow> unat (uj_total p) = length (docs (uj_doc_id p))
     \<and> uj_data p = take (length (uj_data p)) (drop (unat (uj_offset p)) (docs (uj_doc_id p)))"

text \<open>What has been put together is the start of the document named.\<close>

definition assembling :: "(u32 \<Rightarrow> bytes) \<Rightarrow> WlDocAssembler \<Rightarrow> bool" where
  "assembling docs a \<longleftrightarrow> length (da_buf a) = da_cap a \<and>
     (da_active a \<longrightarrow> unat (da_total a) = length (docs (da_docId a)) \<and> unat (da_total a) < da_cap a
        \<and> da_have a \<le> da_total a
        \<and> take (unat (da_have a)) (da_buf a) = take (unat (da_have a)) (docs (da_docId a)))"

lemma length_splice: "at + length data \<le> length buf \<Longrightarrow> length (splice at data buf) = length buf"
  by (simp add: splice_def)

lemma take_splice: "at \<le> length buf \<Longrightarrow> take (at + length data) (splice at data buf) = take at buf @ data"
  by (simp add: splice_def)

lemma take_splice_before: "n \<le> at \<Longrightarrow> at \<le> length buf \<Longrightarrow> take n (splice at data buf) = take n buf"
  by (simp add: splice_def)

lemma doc_add_sound:
  assumes "assembling docs a" "genuine docs p" "doc_add p a = (result, a')"
  shows "assembling docs a' \<and> da_cap a' = da_cap a
    \<and> (result = Doc_Complete \<longrightarrow> take (length (docs (uj_doc_id p))) (da_buf a') = docs (uj_doc_id p)
        \<and> length (docs (uj_doc_id p)) < da_cap a \<and> da_buf a' ! length (docs (uj_doc_id p)) = 0)"
proof (cases "uj_total p = 0 \<or> unat (uj_total p) \<ge> da_cap a \<or> uj_offset p > uj_total p
    \<or> length (uj_data p) > unat (uj_total p - uj_offset p)")
  case True
  with assms show ?thesis by (auto simp: doc_add_def assembling_def)
next
  case fits: False
  show ?thesis
  proof (cases "uj_offset p \<noteq> 0 \<and> (\<not> da_active a \<or> uj_doc_id p \<noteq> da_docId a \<or> uj_total p \<noteq> da_total a \<or> uj_offset p \<noteq> da_have a)")
    case True
    with fits assms show ?thesis by (auto simp: doc_add_def assembling_def)
  next
    case follows: False
    define b where "b = (if uj_offset p = 0
      then a\<lparr>da_docId := uj_doc_id p, da_total := uj_total p, da_have := 0, da_active := True\<rparr> else a)"
    define n where "n = length (uj_data p)"
    define doc where "doc = docs (uj_doc_id p)"
    have total: "unat (uj_total p) = length doc" using assms(2) by (simp add: genuine_def doc_def)
    have b: "da_docId b = uj_doc_id p" "da_total b = uj_total p" "da_have b = uj_offset p" "da_active b"
      "length (da_buf b) = da_cap a" "da_cap b = da_cap a"
      "take (unat (da_have b)) (da_buf b) = take (unat (da_have b)) doc"
      using assms(1) follows by (auto simp: b_def assembling_def doc_def)
    have le: "unat (uj_offset p) + n \<le> length doc" "length doc < da_cap a"
      using fits total by (auto simp: n_def unat_sub word_le_nat_alt word_less_nat_alt not_less not_le)
    have sum: "unat (uj_offset p + of_nat n) = unat (uj_offset p) + n"
    proof -
      have "unat (uj_offset p) + n < 2 ^ LENGTH(32)"
        using le(1) total unsigned_less [of "uj_total p", where ?'a = nat] by simp
      then have "unat (of_nat (unat (uj_offset p) + n) :: u32) = unat (uj_offset p) + n"
        by (simp only: unat_of_nat mod_less)
      then show ?thesis by simp
    qed
    have data: "take (unat (uj_offset p)) doc @ uj_data p = take (unat (uj_offset p) + n) doc"
      using assms(2) by (simp add: genuine_def doc_def n_def take_add)
    define buf where "buf = splice (unat (uj_offset p)) (uj_data p) (da_buf b)"
    have buf: "length buf = da_cap a" "take (unat (uj_offset p) + n) buf = take (unat (uj_offset p) + n) doc"
      using length_splice [of "unat (uj_offset p)" "uj_data p" "da_buf b"]
        take_splice [of "unat (uj_offset p)" "da_buf b" "uj_data p"] b(3,5,7) le data
      by (simp_all add: buf_def n_def)
    have add: "doc_add p a = (let c = b\<lparr>da_buf := buf, da_have := uj_offset p + of_nat n\<rparr>
      in if da_have c < da_total c then (Doc_Partial, c)
         else (Doc_Complete, c\<lparr>da_buf := splice (unat (da_total c)) [0] buf, da_active := False\<rparr>))"
      unfolding doc_add_def if_not_P [OF fits] if_not_P [OF follows] Let_def b_def [symmetric] buf_def n_def b(3) by simp
    show ?thesis
    proof (cases "uj_offset p + of_nat n < uj_total p")
      case True
      with assms(3) have "result = Doc_Partial" "a' = b\<lparr>da_buf := buf, da_have := uj_offset p + of_nat n\<rparr>"
        by (simp_all add: add b(2))
      with b buf sum total le True show ?thesis
        by (simp add: assembling_def doc_def less_imp_le)
    next
      case False
      then have whole: "unat (uj_offset p) + n = length doc"
        using le(1) sum total by (simp add: word_less_nat_alt)
      from False assms(3) have a': "result = Doc_Complete"
        "a' = b\<lparr>da_buf := splice (length doc) [0] buf, da_have := uj_offset p + of_nat n, da_active := False\<rparr>"
        by (auto simp: add b(2) total)
      have "take (length doc) (splice (length doc) [0] buf) = doc"
        using take_splice_before [of "length doc" "length doc" buf "[0]"] buf le(2) whole by simp
      moreover have "splice (length doc) [0] buf ! length doc = 0" "length (splice (length doc) [0] buf) = da_cap a"
        using buf(1) le(2) by (simp_all add: splice_def nth_append)
      ultimately show ?thesis using a' b(6) le(2) by (simp add: assembling_def doc_def)
    qed
  qed
qed

text \<open>C29: Pieces of documents may be lost, repeated or come in any order: when the assembler on the master
  calls a document complete, its buffer holds exactly the document the last piece names, ended by a
  zero, and no byte was ever written outside the buffer.\<close>

theorem documents_are_whole:
  assumes "length (da_buf a) = da_cap a" "\<not> da_active a" "\<forall>q\<in>set (ps @ [p]). genuine docs q"
    and "doc_add p (fold (\<lambda>q a. snd (doc_add q a)) ps a) = (Doc_Complete, a')"
  shows "take (length (docs (uj_doc_id p))) (da_buf a') = docs (uj_doc_id p)
    \<and> da_buf a' ! length (docs (uj_doc_id p)) = 0 \<and> length (docs (uj_doc_id p)) < length (da_buf a')
    \<and> length (da_buf a') = da_cap a"
proof -
  have "assembling docs (fold (\<lambda>q a. snd (doc_add q a)) ps a) \<and> da_cap (fold (\<lambda>q a. snd (doc_add q a)) ps a) = da_cap a"
    using assms(3) \<open>length (da_buf a) = da_cap a\<close> assms(2)
  proof (induction ps rule: rev_induct)
    case (snoc q ps)
    then show ?case
      using doc_add_sound [of docs "fold (\<lambda>q a. snd (doc_add q a)) ps a" q] by (simp add: prod_eq_iff)
  qed (simp add: assembling_def)
  with doc_add_sound [OF _ _ assms(4), of docs] assms(3) show ?thesis by (auto simp: assembling_def)
qed

definition idle_assembler :: WlDocAssembler where
  "idle_assembler = \<lparr>da_buf = replicate 8 0, da_cap = 8, da_docId = 0, da_total = 0, da_have = 0, da_active = False\<rparr>"

theorem documents_are_whole_witness:
  "\<exists>a'. doc_add \<lparr>uj_doc_id = 7, uj_offset = 2, uj_total = 3, uj_data = [67]\<rparr>
      (snd (doc_add \<lparr>uj_doc_id = 7, uj_offset = 0, uj_total = 3, uj_data = [65, 66]\<rparr> idle_assembler)) = (Doc_Complete, a')
    \<and> take 3 (da_buf a') = [65, 66, 67]"
proof -
  let ?p = "\<lparr>uj_doc_id = 7, uj_offset = 2, uj_total = 3, uj_data = [67]\<rparr>"
    and ?ps = "[\<lparr>uj_doc_id = 7, uj_offset = 0, uj_total = 3, uj_data = [65, 66]\<rparr>]"
    and ?docs = "\<lambda>_. [65, 66, 67] :: bytes"
  have "fst (doc_add ?p (snd (doc_add (hd ?ps) idle_assembler))) = Doc_Complete"
    by (simp add: doc_add_def idle_assembler_def Let_def)
  then obtain a' where a': "doc_add ?p (fold (\<lambda>q a. snd (doc_add q a)) ?ps idle_assembler) = (Doc_Complete, a')"
    by (cases "doc_add ?p (snd (doc_add (hd ?ps) idle_assembler))") simp
  have "\<forall>q\<in>set (?ps @ [?p]). genuine ?docs q" by (simp add: genuine_def)
  from documents_are_whole [OF _ _ this a'] a' show ?thesis by (simp add: idle_assembler_def numeral_3_eq_3)
qed










end
