(* ===== verification/Wall_Link.thy ===== *)
theory Wall_Link
  imports Wall_Frames
begin

text \<open>
  What the master does with its row boards' connections on the wall link (Master/WallLinkCore.h, with
  the rules of Master/WallLinkPolicy.h): who is behind a connection, what each row is sent and when,
  and what becomes of a row's unit job. The sockets, the rows table and the readers of the answers are
  the hooks of the core; they act on a world of any type, which a link carries along. A connection or a
  row the code numbers with \<open>-1\<close> for nobody is an option here.
\<close>

section \<open>Messages\<close>

text \<open>The messages of link/wall_link.proto as far as the core reads or builds them; the fields it only
  hands on are kept as bytes. A string that fills its field is cut where the core copies it.\<close>

record wl_Hello =
  wh_protocol :: u32
  wh_id :: string
  wh_rev :: string
  wh_boot_id :: u32
  wh_rescue :: bool
  wh_width :: u32

record wl_Op =
  wo_op_id :: u32
  wo_opcode :: u32
  wo_address :: u32
  wo_arg :: u32

definition no_op :: wl_Op where
  "no_op = \<lparr>wo_op_id = 0, wo_opcode = 0, wo_address = 0, wo_arg = 0\<rparr>"

definition OPC_UPDATE_UNITS :: u32 where "OPC_UPDATE_UNITS = 12"
definition OPC_HOME_ALL :: u32 where "OPC_HOME_ALL = 16"

datatype wl_OpPhase = OP_RUNNING | OP_OK | OP_FAILED | OP_REFUSED
datatype wl_UpdatePhase = UPDATE_DOWNLOADING | UPDATE_INSTALLED | UPDATE_FAILED | UPDATE_REFUSED

record wl_OpState =
  os_op_id :: u32
  os_phase :: wl_OpPhase
  os_rest :: bytes

datatype wl_ToMaster =
    TM_Hello wl_Hello
  | TM_Status bool bytes
  | TM_Shown u32 u32
  | TM_OpState wl_OpState
  | TM_UpdateState wl_UpdatePhase bytes
  | TM_Pong
  | TM_Event bytes
  | TM_LogLine bytes
  | TM_UnitsJson wl_UnitsJson

text \<open>The bytes of a \<open>wl_Config\<close> that belong to no field (padding, what is behind the terminator of the
  time zone) take part in its comparison: \<open>cf_slack\<close>, empty when they are zero.\<close>

record wl_Config =
  cf_fallback :: u32
  cf_update_units_at_start :: bool
  cf_tz :: string
  cf_wifi_awake :: bool
  cf_slack :: bytes

datatype wl_ToRow =
    TR_Welcome u32 string
  | TR_Show u32 "64 word" u32 string
  | TR_Quiet bool
  | TR_Config wl_Config
  | TR_Op wl_Op
  | TR_Update string u32 bytes bool u32
  | TR_LogCtl bool
  | TR_Ping
  | TR_Restart
  | TR_Release
  | TR_Name string

section \<open>The rules\<close>

definition WALL_LINK_PROTOCOL :: u32 where "WALL_LINK_PROTOCOL = 1"
definition WALL_LINK_PING_IDLE_MS :: u32 where "WALL_LINK_PING_IDLE_MS = 10000"
definition WALL_LINK_LOST_MS :: u32 where "WALL_LINK_LOST_MS = 30000"
definition WALL_LINK_HELLO_TIMEOUT_MS :: u32 where "WALL_LINK_HELLO_TIMEOUT_MS = 5000"
definition WALL_ROW_TEXT_MAX :: nat where "WALL_ROW_TEXT_MAX = 16"
definition WALL_HOST_NAME_MAX :: nat where "WALL_HOST_NAME_MAX = 24"

definition wallLinkElapsed :: "u32 \<Rightarrow> u32 \<Rightarrow> u32 \<Rightarrow> bool" where
  "wallLinkElapsed nowMs sinceMs intervalMs \<longleftrightarrow> nowMs - sinceMs \<ge> intervalMs"

record WallRowContact =
  rc_connected :: bool
  rc_helloSeen :: bool
  rc_busy :: bool
  rc_everHeard :: bool
  rc_haveBootId :: bool
  rc_connectedAtMs :: u32
  rc_lastHeardMs :: u32
  rc_lastSentMs :: u32
  rc_bootId :: u32

definition no_contact :: WallRowContact where
  "no_contact = \<lparr>rc_connected = False, rc_helloSeen = False, rc_busy = False, rc_everHeard = False,
     rc_haveBootId = False, rc_connectedAtMs = 0, rc_lastHeardMs = 0, rc_lastSentMs = 0, rc_bootId = 0\<rparr>"

definition wallRowConnected :: "u32 \<Rightarrow> WallRowContact \<Rightarrow> WallRowContact" where
  "wallRowConnected nowMs c =
     c\<lparr>rc_connected := True, rc_helloSeen := False, rc_busy := False, rc_connectedAtMs := nowMs, rc_lastSentMs := nowMs\<rparr>"

definition wallRowDropped :: "WallRowContact \<Rightarrow> WallRowContact" where
  "wallRowDropped c = c\<lparr>rc_connected := False, rc_helloSeen := False, rc_busy := False\<rparr>"

definition wallRowHeard :: "u32 \<Rightarrow> WallRowContact \<Rightarrow> WallRowContact" where
  "wallRowHeard nowMs c = c\<lparr>rc_everHeard := True, rc_lastHeardMs := nowMs\<rparr>"

definition wallRowSent :: "u32 \<Rightarrow> WallRowContact \<Rightarrow> WallRowContact" where
  "wallRowSent nowMs c = c\<lparr>rc_lastSentMs := nowMs\<rparr>"

definition wallLinkPingDue :: "WallRowContact \<Rightarrow> u32 \<Rightarrow> bool" where
  "wallLinkPingDue c nowMs \<longleftrightarrow> rc_connected c \<and> rc_helloSeen c \<and> \<not> rc_busy c
     \<and> wallLinkElapsed nowMs (rc_lastSentMs c) WALL_LINK_PING_IDLE_MS"

definition wallLinkHelloOverdue :: "WallRowContact \<Rightarrow> u32 \<Rightarrow> bool" where
  "wallLinkHelloOverdue c nowMs \<longleftrightarrow> rc_connected c \<and> \<not> rc_helloSeen c
     \<and> wallLinkElapsed nowMs (rc_connectedAtMs c) WALL_LINK_HELLO_TIMEOUT_MS"

datatype WallHello = WH_Accept | WH_WrongProtocol | WH_NoId | WH_NotPaired

definition wallLinkJudgeHello :: "u32 \<Rightarrow> string \<Rightarrow> bool \<Rightarrow> WallHello" where
  "wallLinkJudgeHello protocol name known =
     (if protocol \<noteq> WALL_LINK_PROTOCOL then WH_WrongProtocol
      else if name = [] then WH_NoId
      else if known then WH_Accept else WH_NotPaired)"

datatype WallRowReach = WR_Never | WR_Up | WR_Busy | WR_Away | WR_Lost

definition wallRowReach :: "WallRowContact \<Rightarrow> u32 \<Rightarrow> WallRowReach" where
  "wallRowReach c nowMs =
     (if \<not> rc_everHeard c then WR_Never
      else if rc_connected c \<and> rc_busy c then WR_Busy
      else if wallLinkElapsed nowMs (rc_lastHeardMs c) WALL_LINK_LOST_MS then WR_Lost
      else if rc_connected c then WR_Up else WR_Away)"

fun wallRowReachName :: "WallRowReach \<Rightarrow> string" where
  "wallRowReachName WR_Never = ''never''"
| "wallRowReachName WR_Up = ''up''"
| "wallRowReachName WR_Busy = ''busy''"
| "wallRowReachName WR_Away = ''away''"
| "wallRowReachName WR_Lost = ''lost''"

definition wallRowNoteBoot :: "u32 \<Rightarrow> WallRowContact \<Rightarrow> bool \<times> WallRowContact" where
  "wallRowNoteBoot bootId c =
     (rc_haveBootId c \<and> rc_bootId c \<noteq> bootId, c\<lparr>rc_haveBootId := True, rc_bootId := bootId\<rparr>)"

subsection \<open>Text: the latest only\<close>

record WallRowText =
  rt_text :: string
  rt_commitAtMs :: "64 word"
  rt_renderId :: u32
  rt_shownId :: u32
  rt_speed :: u16
  rt_pending :: bool

definition no_text :: WallRowText where
  "no_text = \<lparr>rt_text = [], rt_commitAtMs = 0, rt_renderId = 0, rt_shownId = 0, rt_speed = 0, rt_pending = False\<rparr>"

definition wallRowTextSet :: "string \<Rightarrow> u16 \<Rightarrow> 64 word \<Rightarrow> WallRowText \<Rightarrow> bool \<times> WallRowText" where
  "wallRowTextSet s speed commitAtMs t =
     (let cut = take WALL_ROW_TEXT_MAX s
      in if rt_renderId t \<noteq> 0 \<and> rt_speed t = speed \<and> rt_text t = cut then (False, t)
         else (True, t\<lparr>rt_text := cut, rt_speed := speed, rt_commitAtMs := commitAtMs,
                 rt_renderId := rt_renderId t + 1, rt_pending := True\<rparr>))"

definition wallRowTextResend :: "WallRowText \<Rightarrow> WallRowText" where
  "wallRowTextResend t =
     (if rt_renderId t = 0 then t
      else t\<lparr>rt_commitAtMs := 0, rt_renderId := rt_renderId t + 1, rt_pending := True\<rparr>)"

definition wallRowTextDue :: "WallRowText \<Rightarrow> WallRowContact \<Rightarrow> bool" where
  "wallRowTextDue t c \<longleftrightarrow> rt_pending t \<and> rc_connected c \<and> rc_helloSeen c \<and> \<not> rc_busy c"

definition wallRowTextSent :: "WallRowText \<Rightarrow> WallRowText" where
  "wallRowTextSent t = t\<lparr>rt_pending := False\<rparr>"

definition wallRowTextShown :: "u32 \<Rightarrow> WallRowText \<Rightarrow> WallRowText" where
  "wallRowTextShown renderId t = t\<lparr>rt_shownId := renderId\<rparr>"

definition wallRowTextApplied :: "WallRowText \<Rightarrow> bool" where
  "wallRowTextApplied t \<longleftrightarrow> \<not> rt_pending t \<and> rt_renderId t \<noteq> 0 \<and> rt_shownId t = rt_renderId t"

subsection \<open>A unit job: one at a time per row\<close>

definition WALL_JOB_HAND_OVER_MS :: u32 where "WALL_JOB_HAND_OVER_MS = 20000"
definition WALL_JOB_UNIT_MS :: u32 where "WALL_JOB_UNIT_MS = 120000"
definition WALL_JOB_ALL_UNITS_MS :: u32 where "WALL_JOB_ALL_UNITS_MS = 960000"

datatype WallJobStage = JS_None | JS_Waiting | JS_Sent
datatype WallJobEnd = JE_NotHandedOver | JE_NoResult

record WallRowJob =
  rj_stage :: WallJobStage
  rj_sinceMs :: u32
  rj_op :: wl_Op

definition no_job :: WallRowJob where
  "no_job = \<lparr>rj_stage = JS_None, rj_sinceMs = 0, rj_op = no_op\<rparr>"

definition wallJobRunMs :: "wl_Op \<Rightarrow> u32" where
  "wallJobRunMs oper =
     (if (wo_opcode oper = OPC_UPDATE_UNITS \<and> wo_address oper = 0) \<or> wo_opcode oper = OPC_HOME_ALL
      then WALL_JOB_ALL_UNITS_MS else WALL_JOB_UNIT_MS)"

definition wallJobStart :: "wl_Op \<Rightarrow> u32 \<Rightarrow> WallRowJob \<Rightarrow> bool \<times> WallRowJob" where
  "wallJobStart oper nowMs j =
     (if rj_stage j \<noteq> JS_None then (False, j)
      else (True, j\<lparr>rj_stage := JS_Waiting, rj_sinceMs := nowMs, rj_op := oper\<rparr>))"

definition wallJobDue :: "WallRowJob \<Rightarrow> WallRowContact \<Rightarrow> bool" where
  "wallJobDue j c \<longleftrightarrow> rj_stage j = JS_Waiting \<and> rc_connected c \<and> rc_helloSeen c \<and> \<not> rc_busy c"

definition wallJobSent :: "u32 \<Rightarrow> WallRowJob \<Rightarrow> WallRowJob" where
  "wallJobSent nowMs j = j\<lparr>rj_stage := JS_Sent, rj_sinceMs := nowMs\<rparr>"

definition wallJobOverdue :: "WallRowJob \<Rightarrow> u32 \<Rightarrow> WallJobEnd option" where
  "wallJobOverdue j nowMs =
     (if rj_stage j = JS_Waiting \<and> wallLinkElapsed nowMs (rj_sinceMs j) WALL_JOB_HAND_OVER_MS
      then Some JE_NotHandedOver
      else if rj_stage j = JS_Sent \<and> wallLinkElapsed nowMs (rj_sinceMs j) (wallJobRunMs (rj_op j))
      then Some JE_NoResult else None)"

definition wallJobAnswer :: "wl_OpState \<Rightarrow> WallRowJob \<Rightarrow> bool \<times> WallRowJob" where
  "wallJobAnswer state j =
     (if rj_stage j \<noteq> JS_Sent \<or> os_op_id state \<noteq> wo_op_id (rj_op j) then (False, j)
      else (True, if os_phase state \<noteq> OP_RUNNING then no_job else j))"

section \<open>The hooks and the state\<close>

definition WALL_LINK_MAX_ROWS :: nat where "WALL_LINK_MAX_ROWS = 8"
definition WALL_LINK_MAX_CONNS :: nat where "WALL_LINK_MAX_CONNS = 10"

text \<open>\<open>lk_encode\<close> and \<open>lk_decode\<close> are nanopb (no bytes when a message does not fit), \<open>lk_maxBody\<close> the largest
  body it generates.\<close>

record 'w WallLinkHooks =
  lk_rowForId :: "string \<Rightarrow> 'w \<Rightarrow> int"
  lk_masterId :: "'w \<Rightarrow> string"
  lk_write :: "nat \<Rightarrow> bytes \<Rightarrow> 'w \<Rightarrow> bool \<times> 'w"
  lk_close :: "nat \<Rightarrow> 'w \<Rightarrow> 'w"
  lk_samePeer :: "nat \<Rightarrow> nat \<Rightarrow> 'w \<Rightarrow> bool"
  lk_fromPairedAddress :: "nat \<Rightarrow> nat \<Rightarrow> 'w \<Rightarrow> bool"
  lk_rowHello :: "nat \<Rightarrow> wl_Hello \<Rightarrow> bool \<Rightarrow> 'w \<Rightarrow> 'w"
  lk_rowMessage :: "nat \<Rightarrow> wl_ToMaster \<Rightarrow> 'w \<Rightarrow> 'w"
  lk_jobEnded :: "nat \<Rightarrow> u32 \<Rightarrow> WallJobEnd \<Rightarrow> 'w \<Rightarrow> 'w"
  lk_note :: "nat \<Rightarrow> nat option \<Rightarrow> string \<Rightarrow> 'w \<Rightarrow> 'w"
  lk_encode :: "wl_ToRow \<Rightarrow> bytes"
  lk_decode :: "bytes \<Rightarrow> wl_ToMaster option"
  lk_maxBody :: nat

record WallLinkConn =
  lc_open :: bool
  lc_row :: "nat option"
  lc_openedAtMs :: u32
  lc_reader :: bytes

definition closed_conn :: WallLinkConn where
  "closed_conn = \<lparr>lc_open = False, lc_row = None, lc_openedAtMs = 0, lc_reader = []\<rparr>"

record WallLinkRow =
  lr_conn :: "nat option"
  lr_contact :: WallRowContact
  lr_text :: WallRowText
  lr_job :: WallRowJob
  lr_quietSent :: bool
  lr_configSent :: bool
  lr_hostKnown :: bool
  lr_hostSent :: bool
  lr_host :: string
  lr_logWanted :: bool
  lr_logTold :: bool

definition fresh_row :: WallLinkRow where
  "fresh_row = \<lparr>lr_conn = None, lr_contact = no_contact, lr_text = no_text, lr_job = no_job, lr_quietSent = False,
     lr_configSent = False, lr_hostKnown = False, lr_hostSent = False, lr_host = [], lr_logWanted = False,
     lr_logTold = False\<rparr>"

record 'w WallLinkCore =
  wl_conns :: "WallLinkConn list"
  wl_rows :: "WallLinkRow list"
  wl_quiet :: bool
  wl_haveConfig :: bool
  wl_config :: wl_Config
  wl_world :: 'w

definition zero_config :: wl_Config where
  "zero_config = \<lparr>cf_fallback = 0, cf_update_units_at_start = False, cf_tz = [], cf_wifi_awake = False, cf_slack = []\<rparr>"

definition fresh_link :: "'w \<Rightarrow> 'w WallLinkCore" where
  "fresh_link w = \<lparr>wl_conns = replicate WALL_LINK_MAX_CONNS closed_conn, wl_rows = replicate WALL_LINK_MAX_ROWS fresh_row,
     wl_quiet = False, wl_haveConfig = False, wl_config = zero_config, wl_world = w\<rparr>"

section \<open>The operations\<close>

definition upd_world :: "('w \<Rightarrow> 'w) \<Rightarrow> 'w WallLinkCore \<Rightarrow> 'w WallLinkCore" where
  "upd_world f L = L\<lparr>wl_world := f (wl_world L)\<rparr>"

definition upd_row :: "nat \<Rightarrow> (WallLinkRow \<Rightarrow> WallLinkRow) \<Rightarrow> 'w WallLinkCore \<Rightarrow> 'w WallLinkCore" where
  "upd_row r f L = L\<lparr>wl_rows := (wl_rows L)[r := f (wl_rows L ! r)]\<rparr>"

definition upd_conn :: "nat \<Rightarrow> (WallLinkConn \<Rightarrow> WallLinkConn) \<Rightarrow> 'w WallLinkCore \<Rightarrow> 'w WallLinkCore" where
  "upd_conn c f L = L\<lparr>wl_conns := (wl_conns L)[c := f (wl_conns L ! c)]\<rparr>"

abbreviation row_at :: "'w WallLinkCore \<Rightarrow> nat \<Rightarrow> WallLinkRow" where
  "row_at L r \<equiv> wl_rows L ! r"

abbreviation conn_at :: "'w WallLinkCore \<Rightarrow> nat \<Rightarrow> WallLinkConn" where
  "conn_at L c \<equiv> wl_conns L ! c"

definition link_closed :: "nat \<Rightarrow> 'w WallLinkCore \<Rightarrow> 'w WallLinkCore" where
  "link_closed conn L =
     (if \<not> lc_open (conn_at L conn) then L
      else let L1 = (case lc_row (conn_at L conn) of
                       Some r \<Rightarrow> if lr_conn (row_at L r) = Some conn
                                 then upd_row r (\<lambda>x. x\<lparr>lr_conn := None, lr_contact := wallRowDropped (lr_contact x)\<rparr>) L
                                 else L
                     | None \<Rightarrow> L)
           in upd_conn conn (\<lambda>c. c\<lparr>lc_open := False, lc_row := None\<rparr>) L1)"

definition link_drop :: "'w WallLinkHooks \<Rightarrow> nat \<Rightarrow> string \<Rightarrow> 'w WallLinkCore \<Rightarrow> 'w WallLinkCore" where
  "link_drop h conn why L =
     (let L = upd_world (lk_note h conn (lc_row (conn_at L conn)) why) L;
          L = link_closed conn L
      in upd_world (lk_close h conn) L)"

text \<open>Which slot a new connection gets: a free one, else that of the connection that has been nobody the
  longest, the first of equals.\<close>

definition free_slot :: "'w WallLinkCore \<Rightarrow> nat option" where
  "free_slot L = List.find (\<lambda>i. \<not> lc_open (conn_at L i)) [0..<WALL_LINK_MAX_CONNS]"

definition oldest_nobody :: "u32 \<Rightarrow> 'w WallLinkCore \<Rightarrow> nat option" where
  "oldest_nobody nowMs L =
     fold (\<lambda>i slot. if lc_row (conn_at L i) \<noteq> None then slot
                    else (case slot of
                            None \<Rightarrow> Some i
                          | Some s \<Rightarrow> if nowMs - lc_openedAtMs (conn_at L i) > nowMs - lc_openedAtMs (conn_at L s)
                                      then Some i else slot))
       [0..<WALL_LINK_MAX_CONNS] None"

definition link_accept :: "'w WallLinkHooks \<Rightarrow> u32 \<Rightarrow> 'w WallLinkCore \<Rightarrow> nat option \<times> 'w WallLinkCore" where
  "link_accept h nowMs L =
     (let start = (\<lambda>slot L. (Some slot, upd_conn slot (\<lambda>_. closed_conn\<lparr>lc_open := True, lc_openedAtMs := nowMs\<rparr>) L))
      in case free_slot L of
           Some slot \<Rightarrow> start slot L
         | None \<Rightarrow> (case oldest_nobody nowMs L of
                     None \<Rightarrow> (None, L)
                   | Some slot \<Rightarrow> start slot (link_drop h slot ''made way for a newer connection'' L)))"

definition link_send :: "'w WallLinkHooks \<Rightarrow> nat \<Rightarrow> wl_ToRow \<Rightarrow> u32 \<Rightarrow> 'w WallLinkCore \<Rightarrow> bool \<times> 'w WallLinkCore" where
  "link_send h r msg nowMs L =
     (case lr_conn (row_at L r) of
        None \<Rightarrow> (False, L)
      | Some conn \<Rightarrow>
          if lk_encode h msg = [] then (False, L)
          else (case lk_write h conn (lk_encode h msg) (wl_world L) of
                  (ok, w) \<Rightarrow>
                    let L = L\<lparr>wl_world := w\<rparr>
                    in if \<not> ok then (False, L)
                       else (True, upd_row r (\<lambda>x. x\<lparr>lr_contact := wallRowSent nowMs (lr_contact x)\<rparr>) L)))"

text \<open>The three settings a row is told, each only when it is owed; the flag says that all went out.\<close>

definition tell_config :: "'w WallLinkHooks \<Rightarrow> nat \<Rightarrow> u32 \<Rightarrow> 'w WallLinkCore \<Rightarrow> bool \<times> 'w WallLinkCore" where
  "tell_config h r nowMs L =
     (if wl_haveConfig L \<and> \<not> lr_configSent (row_at L r)
      then (case link_send h r (TR_Config (wl_config L)) nowMs L of
              (ok, L) \<Rightarrow> if \<not> ok then (False, L) else (True, upd_row r (\<lambda>x. x\<lparr>lr_configSent := True\<rparr>) L))
      else (True, L))"

definition tell_name :: "'w WallLinkHooks \<Rightarrow> nat \<Rightarrow> u32 \<Rightarrow> 'w WallLinkCore \<Rightarrow> bool \<times> 'w WallLinkCore" where
  "tell_name h r nowMs L =
     (if lr_hostKnown (row_at L r) \<and> \<not> lr_hostSent (row_at L r)
      then (case link_send h r (TR_Name (lr_host (row_at L r))) nowMs L of
              (ok, L) \<Rightarrow> if \<not> ok then (False, L) else (True, upd_row r (\<lambda>x. x\<lparr>lr_hostSent := True\<rparr>) L))
      else (True, L))"

definition tell_quiet :: "'w WallLinkHooks \<Rightarrow> nat \<Rightarrow> u32 \<Rightarrow> 'w WallLinkCore \<Rightarrow> bool \<times> 'w WallLinkCore" where
  "tell_quiet h r nowMs L =
     (if \<not> lr_quietSent (row_at L r)
      then (case link_send h r (TR_Quiet (wl_quiet L)) nowMs L of
              (ok, L) \<Rightarrow> if \<not> ok then (False, L) else (True, upd_row r (\<lambda>x. x\<lparr>lr_quietSent := True\<rparr>) L))
      else (True, L))"

definition tellSettings :: "'w WallLinkHooks \<Rightarrow> nat \<Rightarrow> u32 \<Rightarrow> 'w WallLinkCore \<Rightarrow> bool \<times> 'w WallLinkCore" where
  "tellSettings h r nowMs L =
     (let row = row_at L r in
      if lr_quietSent row \<and> (lr_configSent row \<or> \<not> wl_haveConfig L) \<and> (lr_hostSent row \<or> \<not> lr_hostKnown row)
      then (True, L)
      else if rc_busy (lr_contact row) then (False, L)
      else (case tell_config h r nowMs L of
              (ok, L) \<Rightarrow> if \<not> ok then (False, L)
                else (case tell_name h r nowMs L of
                        (ok, L) \<Rightarrow> if \<not> ok then (False, L) else tell_quiet h r nowMs L)))"

text \<open>A Hello.\<close>

definition welcome_row :: "'w WallLinkHooks \<Rightarrow> nat \<Rightarrow> nat \<Rightarrow> wl_Hello \<Rightarrow> u32 \<Rightarrow> 'w WallLinkCore \<Rightarrow> 'w WallLinkCore" where
  "welcome_row h conn r hel nowMs L =
     (let L = upd_row r (\<lambda>x. x\<lparr>lr_conn := Some conn\<rparr>) L;
          L = upd_conn conn (\<lambda>c. c\<lparr>lc_row := Some r\<rparr>) L;
          L = upd_row r (\<lambda>x. x\<lparr>lr_contact := (wallRowConnected nowMs (lr_contact x))\<lparr>rc_helloSeen := True\<rparr>\<rparr>) L
      in case link_send h r (TR_Welcome WALL_LINK_PROTOCOL (take 32 (lk_masterId h (wl_world L)))) nowMs L of
           (ok, L) \<Rightarrow>
             if \<not> ok then link_drop h conn ''Welcome not written'' L
             else let L = upd_row r (\<lambda>x. x\<lparr>lr_contact := wallRowHeard nowMs (lr_contact x)\<rparr>) L;
                      restarted = fst (wallRowNoteBoot (wh_boot_id hel) (lr_contact (row_at L r)));
                      L = upd_row r (\<lambda>x. x\<lparr>lr_contact := snd (wallRowNoteBoot (wh_boot_id hel) (lr_contact x)),
                            lr_job := (if restarted then no_job else lr_job x),
                            lr_text := wallRowTextResend (lr_text x),
                            lr_quietSent := False, lr_configSent := False, lr_hostSent := False, lr_logTold := False\<rparr>) L;
                      L = upd_world (lk_rowHello h r hel restarted) L
                  in snd (tellSettings h r nowMs L))"

definition link_hello :: "'w WallLinkHooks \<Rightarrow> nat \<Rightarrow> wl_Hello \<Rightarrow> u32 \<Rightarrow> 'w WallLinkCore \<Rightarrow> 'w WallLinkCore" where
  "link_hello h conn hel nowMs L =
     (let ri = lk_rowForId h (wh_id hel) (wl_world L); known = (ri \<ge> 0 \<and> ri < int WALL_LINK_MAX_ROWS); r = nat ri
      in case wallLinkJudgeHello (wh_protocol hel) (wh_id hel) known of
           WH_WrongProtocol \<Rightarrow> link_drop h conn ''another link protocol'' L
         | WH_NoId \<Rightarrow> link_drop h conn ''a Hello without an id'' L
         | WH_NotPaired \<Rightarrow> link_drop h conn ''a row this master does not know'' L
         | WH_Accept \<Rightarrow>
             (case lr_conn (row_at L r) of
                None \<Rightarrow> welcome_row h conn r hel nowMs L
              | Some old \<Rightarrow>
                  if \<not> lk_fromPairedAddress h conn r (wl_world L) \<and> \<not> lk_samePeer h old conn (wl_world L)
                  then link_drop h conn ''its row is connected from another address'' L
                  else welcome_row h conn r hel nowMs (link_drop h old ''replaced by a newer connection'' L)))"

text \<open>A message of a welcomed row: what it changes, and whether the caller is told.\<close>

definition take_message :: "wl_ToMaster \<Rightarrow> u32 \<Rightarrow> WallLinkRow \<Rightarrow> bool \<times> WallLinkRow" where
  "take_message msg nowMs row =
     (let row = row\<lparr>lr_contact := wallRowHeard nowMs (lr_contact row)\<rparr> in
      case msg of
        TM_Pong \<Rightarrow> (False, row)
      | TM_Status busy rest \<Rightarrow> (True, row\<lparr>lr_contact := (lr_contact row)\<lparr>rc_busy := busy\<rparr>\<rparr>)
      | TM_UpdateState phase rest \<Rightarrow>
          (True, row\<lparr>lr_contact := (lr_contact row)\<lparr>rc_busy := (phase = UPDATE_DOWNLOADING)\<rparr>\<rparr>)
      | TM_Shown renderId late \<Rightarrow> (True, row\<lparr>lr_text := wallRowTextShown renderId (lr_text row)\<rparr>)
      | TM_OpState state \<Rightarrow> (case wallJobAnswer state (lr_job row) of (ours, job) \<Rightarrow> (ours, row\<lparr>lr_job := job\<rparr>))
      | _ \<Rightarrow> (True, row))"

definition link_message :: "'w WallLinkHooks \<Rightarrow> nat \<Rightarrow> wl_ToMaster \<Rightarrow> u32 \<Rightarrow> 'w WallLinkCore \<Rightarrow> 'w WallLinkCore" where
  "link_message h conn msg nowMs L =
     (case lc_row (conn_at L conn) of
        None \<Rightarrow> (case msg of TM_Hello hel \<Rightarrow> link_hello h conn hel nowMs L | _ \<Rightarrow> link_drop h conn ''no Hello first'' L)
      | Some r \<Rightarrow>
          (case msg of
             TM_Hello hel \<Rightarrow> link_drop h conn ''a second Hello'' L
           | _ \<Rightarrow> (case take_message msg nowMs (row_at L r) of
                     (told, row) \<Rightarrow>
                       let L = upd_row r (\<lambda>_. row) L
                       in if told then upd_world (lk_rowMessage h r msg) L else L)))"

text \<open>Bytes read from a connection's socket. The reader is kept aside while its messages are handled: no
  handler touches the reader of the connection it is called for.\<close>

definition link_body :: "'w WallLinkHooks \<Rightarrow> nat \<Rightarrow> u32 \<Rightarrow> bytes \<Rightarrow> 'w WallLinkCore \<Rightarrow> bool \<times> 'w WallLinkCore" where
  "link_body h conn nowMs body L =
     (let L = (case lk_decode h body of
                 Some msg \<Rightarrow> link_message h conn msg nowMs L
               | None \<Rightarrow> if lc_row (conn_at L conn) = None
                          then link_drop h conn ''a first message that is no Hello'' L else L)
      in (lc_open (conn_at L conn), L))"

definition link_bytes :: "'w WallLinkHooks \<Rightarrow> nat \<Rightarrow> bytes \<Rightarrow> u32 \<Rightarrow> 'w WallLinkCore \<Rightarrow> 'w WallLinkCore" where
  "link_bytes h conn data nowMs L =
     (if \<not> lc_open (conn_at L conn) then L
      else (case serve (link_body h conn nowMs) (link_drop h conn ''not a link message'') (lk_maxBody h)
                   (lc_reader (conn_at L conn)) data L of
              (reader, L) \<Rightarrow> upd_conn conn (\<lambda>c. c\<lparr>lc_reader := reader\<rparr>) L))"

text \<open>One pass of the link task.\<close>

definition tick_conn :: "'w WallLinkHooks \<Rightarrow> u32 \<Rightarrow> nat \<Rightarrow> 'w WallLinkCore \<Rightarrow> 'w WallLinkCore" where
  "tick_conn h nowMs i L =
     (let c = conn_at L i
      in if lc_open c \<and> lc_row c = None \<and> wallLinkElapsed nowMs (lc_openedAtMs c) WALL_LINK_HELLO_TIMEOUT_MS
         then link_drop h i ''no Hello'' L else L)"

definition tick_job :: "'w WallLinkHooks \<Rightarrow> u32 \<Rightarrow> nat \<Rightarrow> 'w WallLinkCore \<Rightarrow> 'w WallLinkCore" where
  "tick_job h nowMs r L =
     (case wallJobOverdue (lr_job (row_at L r)) nowMs of
        None \<Rightarrow> L
      | Some why \<Rightarrow>
          let opId = wo_op_id (rj_op (lr_job (row_at L r)));
              L = upd_row r (\<lambda>x. x\<lparr>lr_job := no_job\<rparr>) L
          in upd_world (lk_jobEnded h r opId why) L)"

definition tick_log :: "'w WallLinkHooks \<Rightarrow> u32 \<Rightarrow> nat \<Rightarrow> 'w WallLinkCore \<Rightarrow> 'w WallLinkCore" where
  "tick_log h nowMs r L =
     (let row = row_at L r
      in if lr_logWanted row \<noteq> lr_logTold row \<and> \<not> rc_busy (lr_contact row)
         then (case link_send h r (TR_LogCtl (lr_logWanted row)) nowMs L of
                 (ok, L) \<Rightarrow> if ok then upd_row r (\<lambda>x. x\<lparr>lr_logTold := lr_logWanted x\<rparr>) L else L)
         else L)"

definition tick_show :: "'w WallLinkHooks \<Rightarrow> u32 \<Rightarrow> nat \<Rightarrow> 'w WallLinkCore \<Rightarrow> 'w WallLinkCore" where
  "tick_show h nowMs r L =
     (let row = row_at L r; t = lr_text row
      in if wallRowTextDue t (lr_contact row)
         then (case link_send h r (TR_Show (rt_renderId t) (rt_commitAtMs t) (ucast (rt_speed t)) (rt_text t)) nowMs L of
                 (ok, L) \<Rightarrow> if ok then upd_row r (\<lambda>x. x\<lparr>lr_text := wallRowTextSent (lr_text x)\<rparr>) L else L)
         else if wallJobDue (lr_job row) (lr_contact row)
         then (case link_send h r (TR_Op (rj_op (lr_job row))) nowMs L of
                 (ok, L) \<Rightarrow> if ok then upd_row r (\<lambda>x. x\<lparr>lr_job := wallJobSent nowMs (lr_job x)\<rparr>) L else L)
         else if wallLinkPingDue (lr_contact row) nowMs
         then snd (link_send h r TR_Ping nowMs L)
         else L)"

definition tick_row :: "'w WallLinkHooks \<Rightarrow> u32 \<Rightarrow> nat \<Rightarrow> 'w WallLinkCore \<Rightarrow> 'w WallLinkCore" where
  "tick_row h nowMs r L =
     (let L = tick_job h nowMs r L
      in case lr_conn (row_at L r) of
           None \<Rightarrow> L
         | Some conn \<Rightarrow>
             if \<not> rc_busy (lr_contact (row_at L r))
                \<and> wallLinkElapsed nowMs (rc_lastHeardMs (lr_contact (row_at L r))) WALL_LINK_LOST_MS
             then link_drop h conn ''not heard from'' L
             else (case tellSettings h r nowMs L of
                     (told, L) \<Rightarrow> if \<not> told then L else tick_show h nowMs r (tick_log h nowMs r L)))"

definition link_tick :: "'w WallLinkHooks \<Rightarrow> u32 \<Rightarrow> 'w WallLinkCore \<Rightarrow> 'w WallLinkCore" where
  "link_tick h nowMs L =
     fold (tick_row h nowMs) [0..<WALL_LINK_MAX_ROWS] (fold (tick_conn h nowMs) [0..<WALL_LINK_MAX_CONNS] L)"

text \<open>What the rest of the master asks for.\<close>

definition setText :: "nat \<Rightarrow> string \<Rightarrow> u16 \<Rightarrow> 64 word \<Rightarrow> 'w WallLinkCore \<Rightarrow> 'w WallLinkCore" where
  "setText r s speed commitAtMs L = upd_row r (\<lambda>x. x\<lparr>lr_text := snd (wallRowTextSet s speed commitAtMs (lr_text x))\<rparr>) L"

definition startJob :: "nat \<Rightarrow> wl_Op \<Rightarrow> u32 \<Rightarrow> 'w WallLinkCore \<Rightarrow> bool \<times> 'w WallLinkCore" where
  "startJob r oper nowMs L =
     (fst (wallJobStart oper nowMs (lr_job (row_at L r))),
      upd_row r (\<lambda>x. x\<lparr>lr_job := snd (wallJobStart oper nowMs (lr_job x))\<rparr>) L)"

definition all_rows :: "(WallLinkRow \<Rightarrow> WallLinkRow) \<Rightarrow> 'w WallLinkCore \<Rightarrow> 'w WallLinkCore" where
  "all_rows f L = L\<lparr>wl_rows := map f (wl_rows L)\<rparr>"

definition setQuiet :: "bool \<Rightarrow> 'w WallLinkCore \<Rightarrow> 'w WallLinkCore" where
  "setQuiet on L = (if on = wl_quiet L then L else all_rows (\<lambda>x. x\<lparr>lr_quietSent := False\<rparr>) (L\<lparr>wl_quiet := on\<rparr>))"

definition setConfig :: "wl_Config \<Rightarrow> 'w WallLinkCore \<Rightarrow> 'w WallLinkCore" where
  "setConfig new L =
     (if wl_haveConfig L \<and> new = wl_config L then L
      else all_rows (\<lambda>x. x\<lparr>lr_configSent := False\<rparr>)
        (L\<lparr>wl_config := new\<lparr>cf_tz := take 64 (cf_tz new), cf_slack := []\<rparr>, wl_haveConfig := True\<rparr>))"

definition setHost :: "nat \<Rightarrow> string \<Rightarrow> 'w WallLinkCore \<Rightarrow> 'w WallLinkCore" where
  "setHost r host L =
     (if lr_hostKnown (row_at L r) \<and> lr_host (row_at L r) = host then L
      else upd_row r (\<lambda>x. x\<lparr>lr_host := take WALL_HOST_NAME_MAX host, lr_hostKnown := True, lr_hostSent := False\<rparr>) L)"

definition setLogWanted :: "nat \<Rightarrow> bool \<Rightarrow> 'w WallLinkCore \<Rightarrow> 'w WallLinkCore" where
  "setLogWanted r wanted L = upd_row r (\<lambda>x. x\<lparr>lr_logWanted := wanted\<rparr>) L"

definition link_reset :: "'w WallLinkHooks \<Rightarrow> 'w WallLinkCore \<Rightarrow> 'w WallLinkCore" where
  "link_reset h L =
     (let L = fold (\<lambda>i L. if lc_open (conn_at L i) then link_drop h i ''rows table changed'' L else L)
                [0..<WALL_LINK_MAX_CONNS] L
      in L\<lparr>wl_rows := replicate WALL_LINK_MAX_ROWS fresh_row\<rparr>)"

end
