(* ===== verification/Wall_Rows.thy ===== *)
theory Wall_Rows
  imports Wall_Link
begin

text \<open>
  Who is behind which connection: the record of the link core (\<open>link_ok\<close>: a row and its connection name each
  other, and a row's contact says what the connection table says), kept by every operation of Wall_Link,
  whatever the hooks do to their world.
\<close>

section \<open>One connection per row\<close>

definition row_fit :: "WallLinkRow \<Rightarrow> bool" where
  "row_fit x \<longleftrightarrow> rc_connected (lr_contact x) = (lr_conn x \<noteq> None)
     \<and> rc_helloSeen (lr_contact x) = rc_connected (lr_contact x)
     \<and> (rc_busy (lr_contact x) \<longrightarrow> rc_connected (lr_contact x))"

definition link_ok :: "'w WallLinkCore \<Rightarrow> bool" where
  "link_ok L \<longleftrightarrow> length (wl_conns L) = WALL_LINK_MAX_CONNS \<and> length (wl_rows L) = WALL_LINK_MAX_ROWS
     \<and> (\<forall>c < WALL_LINK_MAX_CONNS. \<forall>r. lc_row (conn_at L c) = Some r \<longrightarrow>
          lc_open (conn_at L c) \<and> r < WALL_LINK_MAX_ROWS \<and> lr_conn (row_at L r) = Some c)
     \<and> (\<forall>r < WALL_LINK_MAX_ROWS. \<forall>c. lr_conn (row_at L r) = Some c \<longrightarrow>
          c < WALL_LINK_MAX_CONNS \<and> lc_row (conn_at L c) = Some r)
     \<and> (\<forall>r < WALL_LINK_MAX_ROWS. row_fit (row_at L r))"

lemma upd_simps [simp]:
  "wl_conns (upd_world f L) = wl_conns L" "wl_rows (upd_world f L) = wl_rows L"
  "wl_conns (upd_row r g L) = wl_conns L" "wl_world (upd_row r g L) = wl_world L"
  "wl_rows (upd_conn c k L) = wl_rows L" "wl_world (upd_conn c k L) = wl_world L"
  "wl_world (upd_world f L) = f (wl_world L)"
  "wl_rows (upd_row r g L) = (wl_rows L)[r := g (row_at L r)]"
  "wl_conns (upd_conn c k L) = (wl_conns L)[c := k (conn_at L c)]"
  "wl_haveConfig (upd_world f L) = wl_haveConfig L" "wl_haveConfig (upd_row r g L) = wl_haveConfig L"
  "wl_haveConfig (upd_conn c k L) = wl_haveConfig L"
  by (simp_all add: upd_world_def upd_row_def upd_conn_def)

lemma link_ok_world [simp]: "link_ok (upd_world f L) = link_ok L" "link_ok (L\<lparr>wl_world := w\<rparr>) = link_ok L"
  by (simp_all add: link_ok_def upd_world_def)

text \<open>What a change of a row may touch without touching who is behind a connection.\<close>

definition same_contact :: "WallLinkRow \<Rightarrow> WallLinkRow \<Rightarrow> bool" where
  "same_contact x y \<longleftrightarrow> lr_conn y = lr_conn x \<and> rc_connected (lr_contact y) = rc_connected (lr_contact x)
     \<and> rc_helloSeen (lr_contact y) = rc_helloSeen (lr_contact x)
     \<and> (rc_busy (lr_contact y) \<longrightarrow> rc_busy (lr_contact x) \<or> rc_connected (lr_contact x))"

lemma row_fit_same: "row_fit x \<Longrightarrow> same_contact x y \<Longrightarrow> row_fit y"
  by (auto simp: row_fit_def same_contact_def)

lemma link_okD:
  assumes "link_ok L"
  shows "length (wl_conns L) = WALL_LINK_MAX_CONNS" "length (wl_rows L) = WALL_LINK_MAX_ROWS"
    "c < WALL_LINK_MAX_CONNS \<Longrightarrow> lc_row (conn_at L c) = Some r \<Longrightarrow>
       lc_open (conn_at L c) \<and> r < WALL_LINK_MAX_ROWS \<and> lr_conn (row_at L r) = Some c"
    "r < WALL_LINK_MAX_ROWS \<Longrightarrow> lr_conn (row_at L r) = Some c \<Longrightarrow> c < WALL_LINK_MAX_CONNS \<and> lc_row (conn_at L c) = Some r"
    "r < WALL_LINK_MAX_ROWS \<Longrightarrow> row_fit (row_at L r)"
  using assms unfolding link_ok_def by blast+

lemma link_okI:
  assumes "length (wl_conns L) = WALL_LINK_MAX_CONNS" "length (wl_rows L) = WALL_LINK_MAX_ROWS"
    and "\<And>c r. c < WALL_LINK_MAX_CONNS \<Longrightarrow> lc_row (conn_at L c) = Some r \<Longrightarrow>
       lc_open (conn_at L c) \<and> r < WALL_LINK_MAX_ROWS \<and> lr_conn (row_at L r) = Some c"
    and "\<And>r c. r < WALL_LINK_MAX_ROWS \<Longrightarrow> lr_conn (row_at L r) = Some c \<Longrightarrow> c < WALL_LINK_MAX_CONNS \<and> lc_row (conn_at L c) = Some r"
    and "\<And>r. r < WALL_LINK_MAX_ROWS \<Longrightarrow> row_fit (row_at L r)"
  shows "link_ok L"
  using assms unfolding link_ok_def by blast

lemma link_ok_cong:
  assumes "link_ok L" "length (wl_conns L') = length (wl_conns L)" "length (wl_rows L') = length (wl_rows L)"
    and conns: "\<And>c. lc_row (conn_at L' c) = lc_row (conn_at L c) \<and> lc_open (conn_at L' c) = lc_open (conn_at L c)"
    and same: "\<And>r. r < WALL_LINK_MAX_ROWS \<Longrightarrow> same_contact (row_at L r) (row_at L' r)"
  shows "link_ok L'"
proof (rule link_okI)
  note ok = link_okD [OF assms(1)]
  show "length (wl_conns L') = WALL_LINK_MAX_CONNS" "length (wl_rows L') = WALL_LINK_MAX_ROWS"
    using ok(1,2) assms(2,3) by simp_all
  fix c r
  show "lc_open (conn_at L' c) \<and> r < WALL_LINK_MAX_ROWS \<and> lr_conn (row_at L' r) = Some c"
    if "c < WALL_LINK_MAX_CONNS" "lc_row (conn_at L' c) = Some r"
    using ok(3) [of c r] that same [of r] conns [of c] by (simp add: same_contact_def)
  show "c < WALL_LINK_MAX_CONNS \<and> lc_row (conn_at L' c) = Some r"
    if "r < WALL_LINK_MAX_ROWS" "lr_conn (row_at L' r) = Some c"
    using ok(4) [of r c] that same [of r] conns [of c] by (simp add: same_contact_def)
  show "row_fit (row_at L' r)" if "r < WALL_LINK_MAX_ROWS"
    using row_fit_same [OF ok(5) [OF that] same [OF that]] .
qed

lemma same_contact_refl [simp]: "same_contact x x"
  by (simp add: same_contact_def)

lemma link_ok_row:
  assumes "link_ok L" "same_contact (row_at L r) (f (row_at L r))"
  shows "link_ok (upd_row r f L)"
proof (rule link_ok_cong [OF assms(1)])
  fix q
  show "same_contact (row_at L q) (row_at (upd_row r f L) q)"
    using assms(2) by (cases "q = r"; cases "r < length (wl_rows L)") (simp_all add: list_update_beyond)
qed simp_all

lemma link_ok_all_rows:
  assumes "link_ok L" "\<And>x. same_contact x (f x)"
  shows "link_ok (all_rows f L)"
proof (rule link_ok_cong [OF assms(1)])
  fix q
  assume "q < WALL_LINK_MAX_ROWS"
  with assms show "same_contact (row_at L q) (row_at (all_rows f L) q)" by (simp add: all_rows_def link_ok_def)
qed (simp_all add: all_rows_def)

text \<open>The change of a connection that is nobody.\<close>

lemma link_ok_conn:
  assumes "link_ok L" "lc_row (conn_at L c) = None" "lc_row (f (conn_at L c)) = None"
  shows "link_ok (upd_conn c f L)"
proof (rule link_okI)
  note ok = link_okD [OF assms(1)]
  show "length (wl_conns (upd_conn c f L)) = WALL_LINK_MAX_CONNS" "length (wl_rows (upd_conn c f L)) = WALL_LINK_MAX_ROWS"
    using ok(1,2) by simp_all
  fix d r
  show "lc_open (conn_at (upd_conn c f L) d) \<and> r < WALL_LINK_MAX_ROWS \<and> lr_conn (row_at (upd_conn c f L) r) = Some d"
    if d: "d < WALL_LINK_MAX_CONNS" "lc_row (conn_at (upd_conn c f L) d) = Some r"
  proof -
    have "d \<noteq> c" using d ok(1) assms(3) by auto
    with d ok(3) [of d r] show ?thesis by simp
  qed
  show "d < WALL_LINK_MAX_CONNS \<and> lc_row (conn_at (upd_conn c f L) d) = Some r"
    if r: "r < WALL_LINK_MAX_ROWS" "lr_conn (row_at (upd_conn c f L) r) = Some d"
  proof -
    have "d \<noteq> c" using r ok(4) [of r d] assms(2) by auto
    with r ok(4) [of r d] show ?thesis by simp
  qed
  show "row_fit (row_at (upd_conn c f L) r)" if "r < WALL_LINK_MAX_ROWS" using ok(5) [OF that] by simp
qed

text \<open>The reader and the age of a connection say nothing about who is behind it.\<close>

lemma link_ok_reader:
  assumes "link_ok L" "lc_row (f (conn_at L c)) = lc_row (conn_at L c)" "lc_open (f (conn_at L c)) = lc_open (conn_at L c)"
  shows "link_ok (upd_conn c f L)"
proof (rule link_ok_cong [OF assms(1)])
  fix d
  show "lc_row (conn_at (upd_conn c f L) d) = lc_row (conn_at L d) \<and> lc_open (conn_at (upd_conn c f L) d) = lc_open (conn_at L d)"
    using assms(2,3) by (cases "d = c"; cases "c < length (wl_conns L)") (simp_all add: list_update_beyond)
qed simp_all

text \<open>A row and a connection let go of each other.\<close>

lemma link_ok_closed:
  assumes "link_ok L" "c < WALL_LINK_MAX_CONNS"
  shows "link_ok (link_closed c L) \<and> lc_row (conn_at (link_closed c L) c) = None \<and> \<not> lc_open (conn_at (link_closed c L) c)
    \<and> (\<forall>d. d \<noteq> c \<longrightarrow> conn_at (link_closed c L) d = conn_at L d)
    \<and> (\<forall>r < WALL_LINK_MAX_ROWS. if lr_conn (row_at L r) = Some c
          then row_at (link_closed c L) r = (row_at L r)\<lparr>lr_conn := None, lr_contact := wallRowDropped (lr_contact (row_at L r))\<rparr>
          else row_at (link_closed c L) r = row_at L r)"
proof (cases "lc_row (conn_at L c)")
  case None
  note ok = link_okD [OF assms(1)]
  have "lr_conn (row_at L r) \<noteq> Some c" if "r < WALL_LINK_MAX_ROWS" for r
    using ok(4) [OF that, of c] None by auto
  moreover have "link_ok (upd_conn c (\<lambda>c. c\<lparr>lc_open := False, lc_row := None\<rparr>) L)"
    by (rule link_ok_conn [OF assms(1) None]) simp
  ultimately show ?thesis
    using None assms ok(1) by (simp add: link_closed_def)
next
  case (Some r)
  note ok = link_okD [OF assms(1)]
  from ok(3) [OF assms(2) Some] have r: "lc_open (conn_at L c)" "r < WALL_LINK_MAX_ROWS" "lr_conn (row_at L r) = Some c" by auto
  have only: "lr_conn (row_at L q) = Some c \<longleftrightarrow> q = r" if "q < WALL_LINK_MAX_ROWS" for q
    using ok(4) [OF that, of c] Some r(3) by auto
  let ?f = "\<lambda>x. x\<lparr>lr_conn := None, lr_contact := wallRowDropped (lr_contact x)\<rparr>"
  let ?L = "upd_conn c (\<lambda>c. c\<lparr>lc_open := False, lc_row := None\<rparr>) (upd_row r ?f L)"
  have code: "link_closed c L = ?L" using Some r by (simp add: link_closed_def)
  have rows: "row_at ?L q = (if q = r then ?f (row_at L r) else row_at L q)" if "q < WALL_LINK_MAX_ROWS" for q
    using ok(2) r(2) by (simp add: nth_list_update)
  have conns: "conn_at ?L d = (if d = c then (conn_at L c)\<lparr>lc_open := False, lc_row := None\<rparr> else conn_at L d)" for d
    using ok(1) assms(2) by (simp add: nth_list_update)
  have "link_ok ?L"
  proof (rule link_okI)
    show "length (wl_conns ?L) = WALL_LINK_MAX_CONNS" "length (wl_rows ?L) = WALL_LINK_MAX_ROWS"
      using ok(1,2) by simp_all
    fix d q
    show "lc_open (conn_at ?L d) \<and> q < WALL_LINK_MAX_ROWS \<and> lr_conn (row_at ?L q) = Some d"
      if d: "d < WALL_LINK_MAX_CONNS" "lc_row (conn_at ?L d) = Some q"
    proof -
      from d(2) have "d \<noteq> c" "lc_row (conn_at L d) = Some q" unfolding conns by (auto split: if_splits)
      with ok(3) [OF d(1), of q] r(3) show ?thesis unfolding conns using rows [of q] by auto
    qed
    show "d < WALL_LINK_MAX_CONNS \<and> lc_row (conn_at ?L d) = Some q"
      if q: "q < WALL_LINK_MAX_ROWS" "lr_conn (row_at ?L q) = Some d"
    proof -
      from q(2) have "q \<noteq> r" "lr_conn (row_at L q) = Some d" unfolding rows [OF q(1)] by (auto split: if_splits)
      with ok(4) [OF q(1), of d] Some show ?thesis unfolding conns by auto
    qed
    show "row_fit (row_at ?L q)" if "q < WALL_LINK_MAX_ROWS"
      unfolding rows [OF that] using ok(5) [OF that] by (auto simp: row_fit_def wallRowDropped_def)
  qed
  then show ?thesis unfolding code using conns rows only by auto
qed

lemma link_ok_drop:
  assumes "link_ok L" "c < WALL_LINK_MAX_CONNS"
  shows "link_ok (link_drop h c why L) \<and> lc_row (conn_at (link_drop h c why L) c) = None
    \<and> \<not> lc_open (conn_at (link_drop h c why L) c)
    \<and> (\<forall>d. d \<noteq> c \<longrightarrow> conn_at (link_drop h c why L) d = conn_at L d)
    \<and> (\<forall>r < WALL_LINK_MAX_ROWS. if lr_conn (row_at L r) = Some c
          then row_at (link_drop h c why L) r = (row_at L r)\<lparr>lr_conn := None, lr_contact := wallRowDropped (lr_contact (row_at L r))\<rparr>
          else row_at (link_drop h c why L) r = row_at L r)"
  using link_ok_closed [of "upd_world (lk_note h c (lc_row (conn_at L c)) why) L" c] assms
  by (simp add: link_drop_def Let_def)

text \<open>Talking to a row changes nobody's place.\<close>

definition same_links :: "'w WallLinkCore \<Rightarrow> 'w WallLinkCore \<Rightarrow> bool" where
  "same_links L L' \<longleftrightarrow> wl_conns L' = wl_conns L \<and> length (wl_rows L') = length (wl_rows L)
     \<and> (\<forall>r. same_contact (row_at L r) (row_at L' r))"

lemma same_links_refl [simp]: "same_links L L"
  by (simp add: same_links_def)

lemma same_links_trans: "same_links L L' \<Longrightarrow> same_links L' L'' \<Longrightarrow> same_links L L''"
  by (auto simp: same_links_def same_contact_def)

lemma same_links_ok: "link_ok L \<Longrightarrow> same_links L L' \<Longrightarrow> link_ok L'"
  by (rule link_ok_cong [of L]) (auto simp: same_links_def)

lemma same_links_world [simp]: "same_links L (upd_world f L)" "same_links L (L\<lparr>wl_world := w\<rparr>)"
  by (simp_all add: same_links_def)

lemma same_links_row:
  assumes "same_contact (row_at L r) (f (row_at L r))"
  shows "same_links L (upd_row r f L)"
proof -
  have "same_contact (row_at L q) (row_at (upd_row r f L) q)" for q
    using assms by (cases "q = r"; cases "r < length (wl_rows L)") (simp_all add: list_update_beyond)
  then show ?thesis by (simp add: same_links_def)
qed

lemmas same_rowI = same_links_trans [OF _ same_links_row]

lemma same_sent [simp]: "same_contact x (x\<lparr>lr_contact := wallRowSent nowMs (lr_contact x)\<rparr>)"
  by (simp add: same_contact_def wallRowSent_def)

lemma send_same_links: "same_links L (snd (link_send h r msg nowMs L))"
  by (auto simp: link_send_def Let_def split: option.splits prod.splits intro!: same_rowI)

lemma told_same_links: "same_links L (snd (tell_config h r nowMs L))" "same_links L (snd (tell_name h r nowMs L))"
  "same_links L (snd (tell_quiet h r nowMs L))"
  using send_same_links [of L h r _ nowMs]
  by (auto simp: tell_config_def tell_name_def tell_quiet_def split: prod.splits intro!: same_rowI
      simp: same_contact_def dest: arg_cong [of _ _ snd]) (metis snd_conv)+

lemma tellSettings_same_links: "same_links L (snd (tellSettings h r nowMs L))"
proof -
  obtain ok1 L1 where 1: "tell_config h r nowMs L = (ok1, L1)" by fastforce
  obtain ok2 L2 where 2: "tell_name h r nowMs L1 = (ok2, L2)" by fastforce
  from told_same_links(1) [of L h r nowMs] told_same_links(2) [of L1 h r nowMs] told_same_links(3) [of L2 h r nowMs] 1 2
  show ?thesis by (auto simp: tellSettings_def Let_def intro: same_links_trans)
qed

lemma tick_log_same_links: "same_links L (tick_log h nowMs r L)"
  using send_same_links [of L h r "TR_LogCtl (lr_logWanted (row_at L r))" nowMs]
  by (auto simp: tick_log_def Let_def same_contact_def split: prod.splits intro!: same_rowI)

lemma tick_show_same_links: "same_links L (tick_show h nowMs r L)"
proof -
  have show_job: "same_links L (case link_send h r msg nowMs L of (ok, L) \<Rightarrow> if ok then upd_row r f L else L)"
    if "\<And>x. same_contact x (f x)" for msg f
    using send_same_links [of L h r msg nowMs] that by (auto split: prod.splits intro!: same_rowI)
  show ?thesis
    unfolding tick_show_def Let_def
    using send_same_links [of L h r TR_Ping nowMs]
    by (auto intro!: show_job simp: same_contact_def)
qed

lemma tick_job_same_links: "same_links L (tick_job h nowMs r L)"
  by (auto simp: tick_job_def Let_def same_contact_def split: option.splits
      intro!: same_links_trans [OF same_links_row same_links_world(1)])

section \<open>Every operation keeps the links\<close>

lemma link_ok_fold:
  assumes "link_ok L" "\<And>L i. link_ok L \<Longrightarrow> i \<in> set is \<Longrightarrow> link_ok (f i L)"
  shows "link_ok (fold f is L)"
  using assms by (induction "is" arbitrary: L) auto

lemma link_ok_fresh: "link_ok (fresh_link w)"
  by (rule link_okI) (simp_all add: fresh_link_def closed_conn_def fresh_row_def row_fit_def no_contact_def)

lemma link_ok_tick_conn:
  assumes "link_ok L" "i < WALL_LINK_MAX_CONNS"
  shows "link_ok (tick_conn h nowMs i L)"
  using link_ok_drop [OF assms] assms(1) by (auto simp: tick_conn_def Let_def)

lemma link_ok_tick_row:
  assumes "link_ok L" "r < WALL_LINK_MAX_ROWS"
  shows "link_ok (tick_row h nowMs r L)"
proof -
  let ?J = "tick_job h nowMs r L"
  have J: "link_ok ?J" using same_links_ok [OF assms(1) tick_job_same_links] .
  have told: "same_links ?J (tick_show h nowMs r (tick_log h nowMs r (snd (tellSettings h r nowMs ?J))))"
    by (rule same_links_trans [OF same_links_trans [OF tellSettings_same_links tick_log_same_links] tick_show_same_links])
  have drop: "link_ok (link_drop h c why ?J)" if "lr_conn (row_at ?J r) = Some c" for c why
    using link_ok_drop [OF J] link_okD(4) [OF J assms(2) that] by blast
  obtain owed L' where set: "tellSettings h r nowMs ?J = (owed, L')" by fastforce
  show ?thesis
    using J same_links_ok [OF J told] same_links_ok [OF J tellSettings_same_links, of h r nowMs] drop set
    by (auto simp: tick_row_def Let_def split: option.split)
qed

lemma link_ok_tick:
  assumes "link_ok L"
  shows "link_ok (link_tick h nowMs L)"
  unfolding link_tick_def using assms by (intro link_ok_fold) (auto intro: link_ok_tick_conn link_ok_tick_row)

lemma find_slot:
  "free_slot L = Some i \<Longrightarrow> i < WALL_LINK_MAX_CONNS \<and> \<not> lc_open (conn_at L i)"
  by (auto simp: free_slot_def find_Some_iff)

lemma oldest_slot: "oldest_nobody nowMs L = Some i \<Longrightarrow> i < WALL_LINK_MAX_CONNS \<and> lc_row (conn_at L i) = None"
proof -
  have "fold (\<lambda>i slot. if lc_row (conn_at L i) \<noteq> None then slot
      else (case slot of None \<Rightarrow> Some i
            | Some s \<Rightarrow> if nowMs - lc_openedAtMs (conn_at L i) > nowMs - lc_openedAtMs (conn_at L s) then Some i else slot))
    xs slot = Some i \<Longrightarrow> (slot = Some i \<or> i \<in> set xs \<and> lc_row (conn_at L i) = None)" for xs slot
    by (induction xs arbitrary: slot) (fastforce split: if_splits option.splits)+
  from this [of "[0..<WALL_LINK_MAX_CONNS]" None] show "oldest_nobody nowMs L = Some i \<Longrightarrow> ?thesis"
    by (auto simp: oldest_nobody_def)
qed

lemma link_ok_accept:
  assumes "link_ok L"
  shows "link_ok (snd (link_accept h nowMs L))"
proof -
  have start: "link_ok (upd_conn i (\<lambda>_. closed_conn\<lparr>lc_open := True, lc_openedAtMs := nowMs\<rparr>) L)"
    if "link_ok L" "lc_row (conn_at L i) = None" for L :: "'a WallLinkCore" and i
    using that by (intro link_ok_conn) (simp_all add: closed_conn_def)
  have nobody: "lc_row (conn_at L i) = None" if "free_slot L = Some i" for i
    using find_slot [OF that] link_okD(3) [OF assms, of i] by (cases "lc_row (conn_at L i)") auto
  show ?thesis
    using start assms nobody oldest_slot [of nowMs L] link_ok_drop [OF assms, of _ h "''made way for a newer connection''"]
    by (auto simp: link_accept_def Let_def split: option.splits)
qed

text \<open>A welcome: the row was nobody's and the connection nobody.\<close>

lemma link_ok_welcome:
  assumes "link_ok L" "conn < WALL_LINK_MAX_CONNS" "r < WALL_LINK_MAX_ROWS"
    and "lc_open (conn_at L conn)" "lc_row (conn_at L conn) = None" "lr_conn (row_at L r) = None"
  shows "link_ok (welcome_row h conn r hel nowMs L)"
proof -
  note ok = link_okD [OF assms(1)]
  define L1 where "L1 = upd_row r (\<lambda>x. x\<lparr>lr_contact := (wallRowConnected nowMs (lr_contact x))\<lparr>rc_helloSeen := True\<rparr>\<rparr>)
    (upd_conn conn (\<lambda>c. c\<lparr>lc_row := Some r\<rparr>) (upd_row r (\<lambda>x. x\<lparr>lr_conn := Some conn\<rparr>) L))"
  have rows: "row_at L1 q = (if q = r then (row_at L r)\<lparr>lr_conn := Some conn,
      lr_contact := (wallRowConnected nowMs (lr_contact (row_at L r)))\<lparr>rc_helloSeen := True\<rparr>\<rparr> else row_at L q)" for q
    using ok(2) assms(3) by (simp add: L1_def nth_list_update)
  have conns: "conn_at L1 d = (if d = conn then (conn_at L conn)\<lparr>lc_row := Some r\<rparr> else conn_at L d)" for d
    using ok(1) assms(2) by (simp add: L1_def nth_list_update)
  have L1: "link_ok L1"
  proof (rule link_okI)
    show "length (wl_conns L1) = WALL_LINK_MAX_CONNS" "length (wl_rows L1) = WALL_LINK_MAX_ROWS"
      using ok(1,2) by (simp_all add: L1_def)
    fix d q
    show "lc_open (conn_at L1 d) \<and> q < WALL_LINK_MAX_ROWS \<and> lr_conn (row_at L1 q) = Some d"
      if "d < WALL_LINK_MAX_CONNS" "lc_row (conn_at L1 d) = Some q"
      using that ok(3) [of d q] assms(3-6) unfolding conns rows by (auto split: if_splits)
    show "d < WALL_LINK_MAX_CONNS \<and> lc_row (conn_at L1 d) = Some q"
      if "q < WALL_LINK_MAX_ROWS" "lr_conn (row_at L1 q) = Some d"
      using that ok(4) [of q d] assms(2,5) unfolding conns rows by (auto split: if_splits)
    show "row_fit (row_at L1 q)" if "q < WALL_LINK_MAX_ROWS"
      using ok(5) [OF that] unfolding rows by (auto simp: row_fit_def wallRowConnected_def)
  qed
  define greeting where "greeting = TR_Welcome WALL_LINK_PROTOCOL (take 32 (lk_masterId h (wl_world L)))"
  obtain sent L2 where send: "link_send h r greeting nowMs L1 = (sent, L2)" by fastforce
  with send_same_links [of L1 h r greeting nowMs] L1 have L2: "link_ok L2" using same_links_ok [OF L1, of L2] by simp
  let ?heard = "upd_row r (\<lambda>x. x\<lparr>lr_contact := wallRowHeard nowMs (lr_contact x)\<rparr>) L2"
  define restarted where "restarted = fst (wallRowNoteBoot (wh_boot_id hel) (lr_contact (row_at ?heard r)))"
  let ?owed = "\<lambda>x. x\<lparr>lr_contact := snd (wallRowNoteBoot (wh_boot_id hel) (lr_contact x)),
      lr_job := (if restarted then no_job else lr_job x), lr_text := wallRowTextResend (lr_text x),
      lr_quietSent := False, lr_configSent := False, lr_hostSent := False, lr_logTold := False\<rparr>"
  have "same_links L2 ?heard"
    by (rule same_links_row) (simp add: same_contact_def wallRowHeard_def)
  moreover have "same_links ?heard (upd_row r ?owed ?heard)"
    by (rule same_links_row) (simp add: same_contact_def wallRowNoteBoot_def)
  ultimately have "link_ok (snd (tellSettings h r nowMs (upd_world (lk_rowHello h r hel restarted) (upd_row r ?owed ?heard))))"
    by (intro same_links_ok [OF L2] same_links_trans [OF _ tellSettings_same_links]
        same_links_trans [OF _ same_links_world(1)]) (rule same_links_trans)
  moreover have "link_ok (link_drop h conn ''Welcome not written'' L2)"
    using link_ok_drop [OF L2 assms(2)] by blast
  ultimately show ?thesis
    using send by (simp add: welcome_row_def Let_def L1_def [symmetric] greeting_def [symmetric] restarted_def)
qed

lemma link_ok_hello:
  assumes "link_ok L" "conn < WALL_LINK_MAX_CONNS" "lc_open (conn_at L conn)" "lc_row (conn_at L conn) = None"
  shows "link_ok (link_hello h conn hel nowMs L)"
proof -
  have drop: "link_ok (link_drop h conn why L)" for why using link_ok_drop [OF assms(1,2)] by blast
  define ri where "ri = lk_rowForId h (wh_id hel) (wl_world L)"
  define known where "known \<longleftrightarrow> ri \<ge> 0 \<and> ri < int WALL_LINK_MAX_ROWS"
  show ?thesis
  proof (cases "wallLinkJudgeHello (wh_protocol hel) (wh_id hel) known")
    case WH_Accept
    then have r: "nat ri < WALL_LINK_MAX_ROWS" by (auto simp: wallLinkJudgeHello_def known_def split: if_splits)
    show ?thesis
    proof (cases "lr_conn (row_at L (nat ri))")
      case None
      with WH_Accept link_ok_welcome [OF assms(1,2) r assms(3,4)] show ?thesis
        by (simp add: link_hello_def ri_def known_def Let_def)
    next
      case (Some old)
      with link_okD(4) [OF assms(1) r] have old: "old < WALL_LINK_MAX_CONNS" "lc_row (conn_at L old) = Some (nat ri)" by auto
      with assms(4) have "old \<noteq> conn" by auto
      let ?D = "link_drop h old ''replaced by a newer connection'' L"
      have "link_ok ?D" "conn_at ?D conn = conn_at L conn" "lr_conn (row_at ?D (nat ri)) = None"
        using link_ok_drop [OF assms(1) old(1), of h "''replaced by a newer connection''"] \<open>old \<noteq> conn\<close> r Some by auto
      then have "link_ok (welcome_row h conn (nat ri) hel nowMs ?D)"
        using assms by (intro link_ok_welcome [OF _ assms(2) r]) simp_all
      with WH_Accept Some drop show ?thesis by (simp add: link_hello_def ri_def known_def Let_def)
    qed
  qed (use drop in \<open>simp_all add: link_hello_def ri_def known_def Let_def\<close>)
qed

lemma take_message_same: "same_contact row (snd (take_message msg nowMs row))" if "rc_connected (lr_contact row)"
  using that by (cases msg) (auto simp: take_message_def Let_def same_contact_def wallRowHeard_def split: prod.splits)

lemma link_ok_message:
  assumes "link_ok L" "conn < WALL_LINK_MAX_CONNS" "lc_open (conn_at L conn)"
  shows "link_ok (link_message h conn msg nowMs L)"
proof (cases "lc_row (conn_at L conn)")
  case None
  then show ?thesis
    using link_ok_drop [OF assms(1,2)] link_ok_hello [OF assms None] by (cases msg) (auto simp: link_message_def)
next
  case (Some r)
  with link_okD(3) [OF assms(1,2)] have r: "r < WALL_LINK_MAX_ROWS" "lr_conn (row_at L r) = Some conn" by auto
  with link_okD(5) [OF assms(1) r(1)] have "rc_connected (lr_contact (row_at L r))" by (simp add: row_fit_def)
  then have "same_contact (row_at L r) (snd (take_message msg nowMs (row_at L r)))" by (rule take_message_same)
  then have "link_ok (upd_row r (\<lambda>_. snd (take_message msg nowMs (row_at L r))) L)"
    by (rule link_ok_row [OF assms(1)])
  with Some link_ok_drop [OF assms(1,2)] show ?thesis
    by (cases msg) (auto simp: link_message_def Let_def split: prod.splits)
qed

text \<open>The bytes of a connection: what holds while it is open and what holds after.\<close>

definition handler_keeps :: "(bytes \<Rightarrow> 'w \<Rightarrow> bool \<times> 'w) \<Rightarrow> ('w \<Rightarrow> bool) \<Rightarrow> ('w \<Rightarrow> bool) \<Rightarrow> bool" where
  "handler_keeps h Q P \<longleftrightarrow> (\<forall>w. Q w \<longrightarrow> P w)
     \<and> (\<forall>body w. Q w \<longrightarrow> P (snd (h body w)) \<and> (fst (h body w) \<longrightarrow> Q (snd (h body w))))"

lemma handler_keepsD: "handler_keeps h Q P \<Longrightarrow> Q w \<Longrightarrow> h body w = (still_open, w') \<Longrightarrow> P w' \<and> (still_open \<longrightarrow> Q w')"
  unfolding handler_keeps_def by (metis fst_conv snd_conv)

lemma serve_buffer_keeps:
  assumes "serve_buffer h maxBody buf w = (still_open, buf', w', state)" "Q w" "handler_keeps h Q P"
  shows "P w' \<and> (still_open \<longrightarrow> Q w')"
  using assms
proof (induction h maxBody buf w rule: serve_buffer.induct)
  case (1 h maxBody buf w)
  obtain o1 w1 where h: "h (wl_body maxBody buf) w = (o1, w1)" by fastforce
  from handler_keepsD [OF "1.prems"(3,2) h] have w1: "P w1" "o1 \<longrightarrow> Q w1" by auto
  show ?case
  proof (cases "wl_peek maxBody buf = Feed_Message \<and> o1")
    case True
    with "1.IH" [OF _ h [symmetric]] "1.prems" h w1 show ?thesis
      by (simp add: serve_buffer.simps [of h maxBody buf w])
  next
    case False
    with "1.prems" h w1 show ?thesis
      by (auto simp: serve_buffer.simps [of h maxBody buf w] handler_keeps_def split: if_splits)
  qed
qed

lemma serve_keeps:
  assumes "Q w" "handler_keeps h Q P" "\<And>w. Q w \<Longrightarrow> P (bad w)"
  shows "P (snd (serve h bad maxBody buf data w))"
  using assms
proof (induction h bad maxBody buf data w rule: serve.induct)
  case (1 h bad maxBody buf data w)
  obtain took buf1 where f: "wl_feed maxBody buf data = (took, buf1)" by fastforce
  obtain so buf2 w2 state where s: "serve_buffer h maxBody buf1 w = (so, buf2, w2, state)" by (metis prod_cases4)
  from serve_buffer_keeps [OF s "1.prems"(1,2)] have w2: "P w2" "so \<longrightarrow> Q w2" by auto
  show ?case
  proof (cases "so \<and> state \<noteq> Feed_Bad \<and> drop took data \<noteq> []")
    case True
    with "1.IH" [OF f [symmetric] s [symmetric] refl refl] "1.prems" f s w2 show ?thesis
      by (simp add: serve.simps [of h bad maxBody buf data w])
  next
    case False
    with "1.prems" f s w2 show ?thesis
      by (auto simp: serve.simps [of h bad maxBody buf data w])
  qed
qed

lemma link_ok_bytes:
  assumes "link_ok L" "conn < WALL_LINK_MAX_CONNS"
  shows "link_ok (link_bytes h conn data nowMs L)"
proof -
  let ?Q = "\<lambda>L. link_ok L \<and> lc_open (conn_at L conn)"
  have drop: "link_ok (link_drop h conn why L)" if "?Q L" for L why using link_ok_drop that assms(2) by blast
  have keeps: "handler_keeps (link_body h conn nowMs) ?Q link_ok"
    using drop
    by (simp add: link_ok_message [OF _ assms(2)] handler_keeps_def link_body_def Let_def split: option.split)
  obtain reader L' where L': "serve (link_body h conn nowMs) (link_drop h conn ''not a link message'') (lk_maxBody h)
      (lc_reader (conn_at L conn)) data L = (reader, L')" by fastforce
  have "link_ok L'" if "lc_open (conn_at L conn)"
    using serve_keeps [of ?Q L, OF _ keeps, of "link_drop h conn ''not a link message''" "lk_maxBody h" "lc_reader (conn_at L conn)" data]
      drop assms(1) that L' by simp
  with L' assms(1) show ?thesis
    by (auto simp: link_bytes_def intro!: link_ok_reader)
qed

text \<open>Closing every connection.\<close>

lemma link_ok_reset:
  assumes "link_ok L"
  shows "link_ok (link_reset h L)"
proof -
  let ?f = "\<lambda>i L. if lc_open (conn_at L i) then link_drop h i ''rows table changed'' L else L"
  have "link_ok (fold ?f [0..<n] L) \<and> (\<forall>c < n. \<not> lc_open (conn_at (fold ?f [0..<n] L) c))" if "n \<le> WALL_LINK_MAX_CONNS" for n
    using that
  proof (induction n)
    case (Suc n)
    then show ?case
      using link_ok_drop [of "fold ?f [0..<n] L" n h "''rows table changed''"] by (auto simp: less_Suc_eq)
  qed (simp add: assms)
  from this [of WALL_LINK_MAX_CONNS] show ?thesis
    unfolding link_reset_def Let_def
    by (auto intro!: link_okI dest: link_okD simp: fresh_row_def row_fit_def no_contact_def)
qed

end
