(* ===== verification/Wall_Places.thy ===== *)
theory Wall_Places
  imports Wall_Rows
begin

text \<open>
  What the link promises its rows: one connection per row however the operations interleave, and a
  place that is not taken from elsewhere.
\<close>

section \<open>The link and its world\<close>

text \<open>A step: a call of one of the core's operations, or the world of the hooks moving on by itself.\<close>

inductive link_step :: "'w WallLinkHooks \<Rightarrow> 'w WallLinkCore \<Rightarrow> 'w WallLinkCore \<Rightarrow> bool" for h where
  step_accept: "link_step h L (snd (link_accept h nowMs L))"
| step_bytes: "conn < WALL_LINK_MAX_CONNS \<Longrightarrow> link_step h L (link_bytes h conn data nowMs L)"
| step_closed: "conn < WALL_LINK_MAX_CONNS \<Longrightarrow> link_step h L (link_closed conn L)"
| step_drop: "conn < WALL_LINK_MAX_CONNS \<Longrightarrow> link_step h L (link_drop h conn why L)"
| step_send: "link_step h L (snd (link_send h r msg nowMs L))"
| step_tick: "link_step h L (link_tick h nowMs L)"
| step_setText: "link_step h L (setText r s speed commitAtMs L)"
| step_startJob: "link_step h L (snd (startJob r oper nowMs L))"
| step_setQuiet: "link_step h L (setQuiet on L)"
| step_setConfig: "link_step h L (setConfig new L)"
| step_setHost: "link_step h L (setHost r host L)"
| step_setLogWanted: "link_step h L (setLogWanted r wanted L)"
| step_reset: "link_step h L (link_reset h L)"
| step_world: "link_step h L (upd_world f L)"

lemma link_ok_cfg [simp]: "link_ok (L\<lparr>wl_quiet := q\<rparr>) = link_ok L" "link_ok (L\<lparr>wl_config := g, wl_haveConfig := b\<rparr>) = link_ok L"
  by (simp_all add: link_ok_def)

lemma link_ok_step: "link_step h L L' \<Longrightarrow> link_ok L \<Longrightarrow> link_ok L'"
proof (induction rule: link_step.induct)
  case (step_closed conn L)
  then show ?case using link_ok_closed by blast
next
  case (step_drop conn L why)
  then show ?case using link_ok_drop by blast
next
  case (step_send L r msg nowMs)
  then show ?case using same_links_ok send_same_links by blast
qed (auto simp: setText_def startJob_def setQuiet_def setConfig_def setHost_def setLogWanted_def same_contact_def
    intro!: link_ok_accept link_ok_bytes link_ok_tick link_ok_reset link_ok_row link_ok_all_rows)

lemma link_reach_ok:
  assumes "(link_step h)\<^sup>*\<^sup>* (fresh_link w) L"
  shows "link_ok L"
  using assms by (induction rule: rtranclp_induct) (auto simp: link_ok_fresh link_ok_step)

text \<open>A link with a row: its Hello on the first connection, then a second connection. A Hello is the body 7, of
  the row the hooks know as row 2.\<close>

definition demo_hooks :: "(nat \<times> bytes) list WallLinkHooks" where
  "demo_hooks = \<lparr>lk_rowForId = (\<lambda>s w. if s = ''row2'' then 2 else -1), lk_masterId = (\<lambda>w. ''m''),
     lk_write = (\<lambda>c b w. (True, (c, b) # w)), lk_close = (\<lambda>c w. w), lk_samePeer = (\<lambda>a b w. False),
     lk_fromPairedAddress = (\<lambda>c r w. False), lk_rowHello = (\<lambda>r hel b w. w), lk_rowMessage = (\<lambda>r m w. w),
     lk_jobEnded = (\<lambda>r op e w. w), lk_note = (\<lambda>c r s w. w),
     lk_encode = (\<lambda>m. case m of TR_Welcome v s \<Rightarrow> [1] | TR_Show r c s t \<Rightarrow> [2] | TR_Quiet q \<Rightarrow> [3] | _ \<Rightarrow> [4]),
     lk_decode = (\<lambda>b. if b = [7]
       then Some (TM_Hello \<lparr>wh_protocol = 1, wh_id = ''row2'', wh_rev = [], wh_boot_id = 5, wh_rescue = False, wh_width = 12\<rparr>)
       else if b = [8] then Some TM_Pong else None),
     lk_maxBody = 64\<rparr>"

definition demo_accept :: "(nat \<times> bytes) list WallLinkCore" where
  "demo_accept = snd (link_accept demo_hooks 100 (fresh_link []))"

definition demo_hello :: "(nat \<times> bytes) list WallLinkCore" where
  "demo_hello = link_bytes demo_hooks 0 [1, 7] 200 demo_accept"

definition demo_two :: "(nat \<times> bytes) list WallLinkCore" where
  "demo_two = snd (link_accept demo_hooks 300 demo_hello)"

lemma demo_reach: "(link_step demo_hooks)\<^sup>*\<^sup>* (fresh_link []) demo_two"
proof -
  have "link_step demo_hooks (fresh_link []) demo_accept" unfolding demo_accept_def by (rule step_accept)
  moreover have "link_step demo_hooks demo_accept demo_hello"
    unfolding demo_hello_def by (rule step_bytes) (simp add: WALL_LINK_MAX_CONNS_def)
  moreover have "link_step demo_hooks demo_hello demo_two" unfolding demo_two_def by (rule step_accept)
  ultimately show ?thesis by (blast intro: rtranclp.intros)
qed

lemma demo_row: "lr_conn (row_at demo_two 2) = Some 0" by code_simp

text \<open>C31: However its operations interleave and whatever the sockets and the rows do, a row's connection and a
  connection's row name each other: a row has at most one connection, no two rows share one, a connection that
  is behind a row is open, and the row counts as connected exactly while it has one.\<close>
theorem one_connection_per_row:
  assumes "(link_step h)\<^sup>*\<^sup>* (fresh_link w) L" "r < WALL_LINK_MAX_ROWS"
  shows "(lr_conn (row_at L r) = Some c \<longleftrightarrow> c < WALL_LINK_MAX_CONNS \<and> lc_row (conn_at L c) = Some r)
    \<and> (lr_conn (row_at L r) = Some c \<longrightarrow> lc_open (conn_at L c))
    \<and> (rc_connected (lr_contact (row_at L r)) \<longleftrightarrow> lr_conn (row_at L r) \<noteq> None)"
  using link_okD [OF link_reach_ok [OF assms(1)]] assms(2) unfolding row_fit_def by blast

theorem one_connection_per_row_witness: "lr_conn (row_at demo_two 2) = Some 0 \<and> lc_open (conn_at demo_two 0)"
  using one_connection_per_row [OF demo_reach, of 2 0] demo_row by (simp add: WALL_LINK_MAX_ROWS_def)

section \<open>What concerns one row touches no other\<close>

definition only_row :: "nat \<Rightarrow> 'w WallLinkCore \<Rightarrow> 'w WallLinkCore \<Rightarrow> bool" where
  "only_row r L L' \<longleftrightarrow> wl_conns L' = wl_conns L \<and> wl_haveConfig L' = wl_haveConfig L
     \<and> length (wl_rows L') = length (wl_rows L) \<and> (\<forall>q. q \<noteq> r \<longrightarrow> row_at L' q = row_at L q)
     \<and> lr_conn (row_at L' r) = lr_conn (row_at L r)"

lemma only_row_refl [simp]: "only_row r L L"
  by (simp add: only_row_def)

lemma only_row_trans: "only_row r L L' \<Longrightarrow> only_row r L' L'' \<Longrightarrow> only_row r L L''"
  by (simp add: only_row_def)

lemma only_row_world [simp]: "only_row r L (upd_world f L)" "only_row r L (L\<lparr>wl_world := w\<rparr>)"
  by (simp_all add: only_row_def)

lemma only_row_upd:
  assumes "lr_conn (f (row_at L r)) = lr_conn (row_at L r)"
  shows "only_row r L (upd_row r f L)"
  using assms by (cases "r < length (wl_rows L)") (simp_all add: only_row_def list_update_beyond)

lemmas only_rowI = only_row_trans [OF _ only_row_upd]

lemma send_only_row: "only_row r L (snd (link_send h r msg nowMs L))"
  by (auto simp: link_send_def Let_def split: option.splits prod.splits intro!: only_rowI)

lemma send_flag_only_row:
  assumes "\<And>x. lr_conn (f x) = lr_conn x"
  shows "only_row r L (snd (case link_send h r msg nowMs L of (ok, L) \<Rightarrow> if \<not> ok then (False, L) else (True, upd_row r f L)))"
    "only_row r L (case link_send h r msg nowMs L of (ok, L) \<Rightarrow> if ok then upd_row r f L else L)"
  using send_only_row [of r L h msg nowMs] assms by (auto split: prod.splits intro!: only_rowI)

lemma told_only_row: "only_row r L (snd (tell_config h r nowMs L))" "only_row r L (snd (tell_name h r nowMs L))"
  "only_row r L (snd (tell_quiet h r nowMs L))"
  by (auto simp: tell_config_def tell_name_def tell_quiet_def intro!: send_flag_only_row(1))

lemma tellSettings_only_row: "only_row r L (snd (tellSettings h r nowMs L))"
proof -
  obtain ok1 L1 where 1: "tell_config h r nowMs L = (ok1, L1)" by fastforce
  obtain ok2 L2 where 2: "tell_name h r nowMs L1 = (ok2, L2)" by fastforce
  from told_only_row(1) [of r L h nowMs] told_only_row(2) [of r L1 h nowMs] told_only_row(3) [of r L2 h nowMs] 1 2
  show ?thesis by (auto simp: tellSettings_def Let_def intro: only_row_trans)
qed

lemma tick_only_row: "only_row r L (tick_job h nowMs r L)" "only_row r L (tick_log h nowMs r L)" "only_row r L (tick_show h nowMs r L)"
proof -
  show "only_row r L (tick_job h nowMs r L)"
    by (auto simp: tick_job_def Let_def split: option.splits intro!: only_row_trans [OF only_row_upd only_row_world(1)])
  show "only_row r L (tick_log h nowMs r L)"
    unfolding tick_log_def Let_def by (auto intro!: send_flag_only_row(2))
  show "only_row r L (tick_show h nowMs r L)"
    unfolding tick_show_def Let_def by (auto intro!: send_flag_only_row(2) send_only_row)
qed

text \<open>A row and its connection, as another row's business leaves them.\<close>

definition apart :: "nat \<Rightarrow> nat \<Rightarrow> 'w WallLinkCore \<Rightarrow> 'w WallLinkCore \<Rightarrow> bool" where
  "apart r c L L' \<longleftrightarrow> row_at L' r = row_at L r \<and> conn_at L' c = conn_at L c"

lemma apart_refl [simp]: "apart r c L L"
  by (simp add: apart_def)

lemma apart_trans: "apart r c L L' \<Longrightarrow> apart r c L' L'' \<Longrightarrow> apart r c L L''"
  by (simp add: apart_def)

lemma apart_only_row: "only_row q L L' \<Longrightarrow> q \<noteq> r \<Longrightarrow> apart r c L L'"
  by (simp add: only_row_def apart_def)

lemma apart_drop:
  assumes "lc_row (conn_at L c) \<noteq> Some r" "d \<noteq> c"
  shows "apart r d L (link_drop h c why L)"
  using assms by (auto simp: apart_def link_drop_def link_closed_def Let_def split: option.splits)

lemma apart_welcome:
  assumes "q \<noteq> r" "d \<noteq> conn" "conn < length (wl_conns L)"
  shows "apart r d L (welcome_row h conn q hel nowMs L)"
proof -
  let ?L1 = "upd_row q (\<lambda>x. x\<lparr>lr_contact := (wallRowConnected nowMs (lr_contact x))\<lparr>rc_helloSeen := True\<rparr>\<rparr>)
    (upd_conn conn (\<lambda>c. c\<lparr>lc_row := Some q\<rparr>) (upd_row q (\<lambda>x. x\<lparr>lr_conn := Some conn\<rparr>) L))"
  define greeting where "greeting = TR_Welcome WALL_LINK_PROTOCOL (take 32 (lk_masterId h (wl_world L)))"
  obtain sent L2 where send: "link_send h q greeting nowMs ?L1 = (sent, L2)" by fastforce
  have 1: "apart r d L ?L1" using assms(1,2) by (simp add: apart_def)
  have only: "only_row q ?L1 L2"
    using send_only_row [of q ?L1 h greeting nowMs] send by simp
  then have 2: "apart r d ?L1 L2" using assms(1) by (rule apart_only_row)
  have "apart r d L2 (welcome_row h conn q hel nowMs L)"
  proof (cases sent)
    case True
    define L3 where "L3 = welcome_row h conn q hel nowMs L"
    have "only_row q L2 L3"
      unfolding L3_def welcome_row_def Let_def using send True
      by (auto simp: greeting_def [symmetric] intro!: only_row_trans [OF _ tellSettings_only_row]
          only_row_trans [OF _ only_row_world(1)] only_rowI)
    with assms(1) show ?thesis unfolding L3_def by (blast intro: apart_only_row)
  next
    case False
    have "lc_row (conn_at L2 conn) = Some q" using only assms(3) by (simp add: only_row_def)
    with assms(1,2) have "apart r d L2 (link_drop h conn ''Welcome not written'' L2)" by (intro apart_drop) auto
    with send False show ?thesis by (simp add: welcome_row_def Let_def greeting_def)
  qed
  with 1 2 show ?thesis by (blast intro: apart_trans)
qed

text \<open>A connection that is neither the row's nor entitled to replace it leaves the row alone.\<close>

definition not_entitled :: "'w WallLinkHooks \<Rightarrow> nat \<Rightarrow> nat \<Rightarrow> nat \<Rightarrow> bool" where
  "not_entitled h conn old r \<longleftrightarrow> (\<forall>w. \<not> lk_fromPairedAddress h conn r w \<and> \<not> lk_samePeer h old conn w)"

lemma apart_hello:
  assumes "link_ok L" "conn < WALL_LINK_MAX_CONNS" "lc_open (conn_at L conn)" "lc_row (conn_at L conn) = None"
    and r: "r < WALL_LINK_MAX_ROWS" "lr_conn (row_at L r) = Some old" "not_entitled h conn old r"
  shows "apart r old L (link_hello h conn hel nowMs L)"
proof -
  from link_okD(4) [OF assms(1) r(1,2)] assms(4) have old: "old \<noteq> conn" "lc_row (conn_at L old) = Some r" by auto
  have drop: "apart r old L (link_drop h conn why L)" for why
    using assms(4) old(1) by (intro apart_drop) auto
  define ri where "ri = lk_rowForId h (wh_id hel) (wl_world L)"
  define known where "known \<longleftrightarrow> ri \<ge> 0 \<and> ri < int WALL_LINK_MAX_ROWS"
  have len: "conn < length (wl_conns L)" using assms(1,2) by (simp add: link_okD(1))
  show ?thesis
  proof (cases "wallLinkJudgeHello (wh_protocol hel) (wh_id hel) known")
    case WH_Accept
    then have q: "nat ri < WALL_LINK_MAX_ROWS" by (auto simp: wallLinkJudgeHello_def known_def split: if_splits)
    show ?thesis
    proof (cases "nat ri = r")
      case True
      with WH_Accept r drop show ?thesis by (simp add: link_hello_def ri_def known_def Let_def not_entitled_def)
    next
      case False
      show ?thesis
      proof (cases "lr_conn (row_at L (nat ri))")
        case None
        with WH_Accept apart_welcome [OF False] old(1) len show ?thesis
          by (simp add: link_hello_def ri_def known_def Let_def)
      next
        case (Some c)
        from link_okD(4) [OF assms(1) q Some] have c: "lc_row (conn_at L c) = Some (nat ri)" by simp
        with False old have "old \<noteq> c" by auto
        let ?D = "link_drop h c ''replaced by a newer connection'' L"
        have "apart r old L ?D" using c False \<open>old \<noteq> c\<close> by (intro apart_drop) auto
        moreover have "conn < length (wl_conns ?D)"
          using len by (simp add: link_drop_def link_closed_def Let_def split: option.split)
        ultimately have "apart r old L (welcome_row h conn (nat ri) hel nowMs ?D)"
          using apart_welcome [OF False, of old conn ?D] old(1) apart_trans by blast
        with WH_Accept Some drop show ?thesis by (simp add: link_hello_def ri_def known_def Let_def)
      qed
    qed
  qed (use drop in \<open>simp_all add: link_hello_def ri_def known_def Let_def\<close>)
qed

lemma apart_message:
  assumes "link_ok L" "conn < WALL_LINK_MAX_CONNS" "lc_open (conn_at L conn)" "conn \<noteq> old"
    and r: "r < WALL_LINK_MAX_ROWS" "lr_conn (row_at L r) = Some old" "not_entitled h conn old r"
  shows "apart r old L (link_message h conn msg nowMs L)"
proof (cases "lc_row (conn_at L conn)")
  case None
  with apart_hello [OF assms(1-3) None r] apart_drop [of L conn r old] assms(4) show ?thesis
    by (cases msg) (auto simp: link_message_def)
next
  case (Some q)
  with link_okD(3) [OF assms(1,2)] assms(4) r(2) have "q \<noteq> r" by auto
  then have row: "apart r old L (upd_row q f L)" for f by (simp add: apart_def)
  have "apart r old L (upd_world g (upd_row q f L))" for f g using row [of f] by (simp add: apart_def)
  with row Some apart_drop [of L conn r old] \<open>q \<noteq> r\<close> assms(4) show ?thesis
    by (cases msg) (auto simp: link_message_def Let_def split: prod.splits)
qed

text \<open>C32: While a row is connected, nothing that arrives on another connection touches the row or its
  connection, whatever it claims to be, unless that connection comes from the row's paired address or from
  the address of the row's own connection.\<close>
theorem place_is_guarded:
  assumes "(link_step h)\<^sup>*\<^sup>* (fresh_link w) L" "conn < WALL_LINK_MAX_CONNS" "conn \<noteq> old"
    and r: "r < WALL_LINK_MAX_ROWS" "lr_conn (row_at L r) = Some old" "not_entitled h conn old r"
  shows "row_at (link_bytes h conn data nowMs L) r = row_at L r
    \<and> conn_at (link_bytes h conn data nowMs L) old = conn_at L old"
proof -
  note ok = link_reach_ok [OF assms(1)]
  let ?P = "\<lambda>L'. apart r old L L'"
  let ?Q = "\<lambda>L'. link_ok L' \<and> lc_open (conn_at L' conn) \<and> ?P L'"
  have other: "lc_row (conn_at L' conn) \<noteq> Some r" if "?Q L'" for L'
    using that link_okD(3) [of L' conn r] assms(2,3) r(2) by (auto simp: apart_def)
  have drop: "?P (link_drop h conn why L')" if "?Q L'" for L' why
    using apart_drop [OF other [OF that], of old] that assms(3) apart_trans by blast
  have message: "?P (link_message h conn msg nowMs L')" if "?Q L'" for L' msg
  proof -
    from that r(2) have "lr_conn (row_at L' r) = Some old" by (simp add: apart_def)
    with apart_message [of L' conn old r h msg nowMs] that assms(2,3) r(1,3) show ?thesis
      using apart_trans by blast
  qed
  have keeps: "handler_keeps (link_body h conn nowMs) ?Q ?P"
    using drop message
    by (simp add: link_ok_message [OF _ assms(2)] link_ok_drop [OF _ assms(2), THEN conjunct1] handler_keeps_def link_body_def Let_def split: option.split)
  obtain reader L' where L': "serve (link_body h conn nowMs) (link_drop h conn ''not a link message'') (lk_maxBody h)
      (lc_reader (conn_at L conn)) data L = (reader, L')" by fastforce
  have "?P L'" if "lc_open (conn_at L conn)"
    using serve_keeps [of ?Q L, OF _ keeps, of "link_drop h conn ''not a link message''" "lk_maxBody h" "lc_reader (conn_at L conn)" data]
      drop ok that L' by simp
  with L' assms(3) show ?thesis by (simp add: link_bytes_def apart_def)
qed

theorem place_is_guarded_witness:
  "row_at (link_bytes demo_hooks 1 [1, 7] 400 demo_two) 2 = row_at demo_two 2
    \<and> conn_at (link_bytes demo_hooks 1 [1, 7] 400 demo_two) 0 = conn_at demo_two 0"
  by (rule place_is_guarded [OF demo_reach _ _ _ demo_row])
    (simp_all add: WALL_LINK_MAX_CONNS_def WALL_LINK_MAX_ROWS_def not_entitled_def demo_hooks_def)

end
