(* ===== verification/Wall_Passes.thy ===== *)
theory Wall_Passes
  imports Wall_Places
begin

text \<open>
  What one pass of the link task does for a row: no unit job outlives its time, a busy row is left alone,
  and a row that can take them gets its settings, its latest text and its job. What is written to a row is read
  off a record of the writes that went through (\<open>listening\<close>), kept beside the world of the hooks.
\<close>

section \<open>A pass, seen from one row\<close>

lemma drop_row: "lc_row (conn_at L c) \<noteq> Some r \<Longrightarrow> row_at (link_drop h c why L) r = row_at L r"
  by (auto simp: link_drop_def link_closed_def Let_def split: option.split)

lemma drop_config [simp]: "wl_haveConfig (link_drop h c why L) = wl_haveConfig L"
  by (simp add: link_drop_def link_closed_def Let_def split: option.split)

lemma tick_conn_row: "row_at (tick_conn h nowMs i L) r = row_at L r \<and> wl_haveConfig (tick_conn h nowMs i L) = wl_haveConfig L"
  by (simp add: tick_conn_def Let_def drop_row)

lemma tick_row_other:
  assumes "link_ok L" "q < WALL_LINK_MAX_ROWS" "q \<noteq> r"
  shows "row_at (tick_row h nowMs q L) r = row_at L r \<and> wl_haveConfig (tick_row h nowMs q L) = wl_haveConfig L"
proof -
  let ?J = "tick_job h nowMs q L"
  obtain owed L' where set: "tellSettings h q nowMs ?J = (owed, L')" by fastforce
  have J: "only_row q L ?J" by (rule tick_only_row(1))
  have S: "only_row q L L'" using only_row_trans [OF J tellSettings_only_row [of q ?J h nowMs]] set by simp
  have T: "only_row q L (tick_show h nowMs q (tick_log h nowMs q L'))"
    by (rule only_row_trans [OF only_row_trans [OF S tick_only_row(2)] tick_only_row(3)])
  have keep: "row_at L'' r = row_at L r \<and> wl_haveConfig L'' = wl_haveConfig L" if "only_row q L L''" for L''
    using that assms(3) by (simp add: only_row_def)
  have drop: "row_at (link_drop h c why ?J) r = row_at L r \<and> wl_haveConfig (link_drop h c why ?J) = wl_haveConfig L"
    if "lr_conn (row_at ?J q) = Some c" for c why
  proof -
    from that J link_okD(4) [OF assms(1,2)] have "lc_row (conn_at ?J c) = Some q" by (simp add: only_row_def)
    with assms(3) keep [OF J] drop_row [of ?J c r h why] show ?thesis by simp
  qed
  show ?thesis
    using keep [OF J] keep [OF S] keep [OF T] drop set
    by (auto simp: tick_row_def Let_def split: option.split)
qed

lemma fold_tick_other:
  assumes "link_ok L" "\<forall>q \<in> set qs. q < WALL_LINK_MAX_ROWS \<and> q \<noteq> r"
  shows "link_ok (fold (tick_row h nowMs) qs L) \<and> row_at (fold (tick_row h nowMs) qs L) r = row_at L r
    \<and> wl_haveConfig (fold (tick_row h nowMs) qs L) = wl_haveConfig L"
  using assms
proof (induction qs arbitrary: L)
  case (Cons q qs)
  then have q: "q < WALL_LINK_MAX_ROWS" "q \<noteq> r" by auto
  with Cons.IH [OF link_ok_tick_row [OF Cons.prems(1) q(1), of h nowMs]] Cons.prems
    tick_row_other [OF Cons.prems(1) q(1), of r h nowMs] show ?case by simp
qed simp

lemma fold_tick_conn:
  assumes "link_ok L" "\<forall>i \<in> set is. i < WALL_LINK_MAX_CONNS"
  shows "link_ok (fold (tick_conn h nowMs) is L) \<and> row_at (fold (tick_conn h nowMs) is L) r = row_at L r
    \<and> wl_haveConfig (fold (tick_conn h nowMs) is L) = wl_haveConfig L"
  using assms
proof (induction "is" arbitrary: L)
  case (Cons i "is")
  then have "link_ok (tick_conn h nowMs i L)" by (simp add: link_ok_tick_conn)
  with Cons.IH Cons.prems tick_conn_row [of h nowMs i L r] show ?case by simp
qed simp

lemma link_tick_row:
  assumes "link_ok L" "r < WALL_LINK_MAX_ROWS"
  obtains M where "link_ok M" "row_at M r = row_at L r" "wl_haveConfig M = wl_haveConfig L"
    "row_at (link_tick h nowMs L) r = row_at (tick_row h nowMs r M) r"
proof -
  let ?C = "fold (tick_conn h nowMs) [0..<WALL_LINK_MAX_CONNS] L"
  let ?M = "fold (tick_row h nowMs) [0..<r] ?C"
  let ?N = "tick_row h nowMs r ?M"
  have C: "link_ok ?C \<and> row_at ?C r = row_at L r \<and> wl_haveConfig ?C = wl_haveConfig L"
    using assms(1) by (intro fold_tick_conn) auto
  then have M: "link_ok ?M \<and> row_at ?M r = row_at ?C r \<and> wl_haveConfig ?M = wl_haveConfig ?C"
    using assms(2) by (intro fold_tick_other) auto
  then have "link_ok ?N" using assms(2) by (intro link_ok_tick_row) auto
  then have N: "row_at (fold (tick_row h nowMs) [Suc r..<WALL_LINK_MAX_ROWS] ?N) r = row_at ?N r"
    using fold_tick_other [of ?N "[Suc r..<WALL_LINK_MAX_ROWS]" r h nowMs] by simp
  have "[0..<WALL_LINK_MAX_ROWS] = [0..<r] @ r # [Suc r..<WALL_LINK_MAX_ROWS]"
    using assms(2) upt_add_eq_append [of 0 r "WALL_LINK_MAX_ROWS - r"] upt_conv_Cons by fastforce
  then have "link_tick h nowMs L = fold (tick_row h nowMs) [Suc r..<WALL_LINK_MAX_ROWS] ?N"
    by (simp add: link_tick_def)
  then show thesis using that [of ?M] C M N by simp
qed

section \<open>Unit jobs\<close>

lemma job_upd [simp]: "lr_job x = lr_job (xs ! r) \<Longrightarrow> lr_job (xs[r := x] ! q) = lr_job (xs ! q)"
  by (cases "q = r"; cases "r < length xs") (simp_all add: list_update_beyond)

lemma send_job: "lr_job (row_at (snd (link_send h r msg nowMs L)) q) = lr_job (row_at L q)"
  by (auto simp: link_send_def Let_def split: option.split prod.split)

lemma send_flag_job:
  assumes "\<And>x. lr_job (f x) = lr_job x"
  shows "lr_job (row_at (snd (case link_send h r msg nowMs L of (ok, L) \<Rightarrow> if \<not> ok then (False, L) else (True, upd_row r f L))) q) = lr_job (row_at L q)"
    "lr_job (row_at (case link_send h r msg nowMs L of (ok, L) \<Rightarrow> if ok then upd_row r f L else L) q) = lr_job (row_at L q)"
  using send_job [of h r msg nowMs L q] assms by (auto split: prod.split)

lemma told_job: "lr_job (row_at (snd (tell_config h r nowMs L)) q) = lr_job (row_at L q)"
  "lr_job (row_at (snd (tell_name h r nowMs L)) q) = lr_job (row_at L q)"
  "lr_job (row_at (snd (tell_quiet h r nowMs L)) q) = lr_job (row_at L q)"
  by (auto simp: tell_config_def tell_name_def tell_quiet_def intro!: send_flag_job(1))

lemma tellSettings_job: "lr_job (row_at (snd (tellSettings h r nowMs L)) q) = lr_job (row_at L q)"
proof -
  obtain ok1 L1 where 1: "tell_config h r nowMs L = (ok1, L1)" by fastforce
  obtain ok2 L2 where 2: "tell_name h r nowMs L1 = (ok2, L2)" by fastforce
  from told_job(1) [of h r nowMs L q] told_job(2) [of h r nowMs L1 q] told_job(3) [of h r nowMs L2 q] 1 2
  show ?thesis by (auto simp: tellSettings_def Let_def)
qed

lemma tick_log_job: "lr_job (row_at (tick_log h nowMs r L) q) = lr_job (row_at L q)"
  unfolding tick_log_def Let_def by (auto intro!: send_flag_job(2))

lemma drop_job: "lr_job (row_at (link_drop h c why L) q) = lr_job (row_at L q)"
  by (auto simp: link_drop_def link_closed_def Let_def split: option.split)


lemma wallJobOverdue_fresh: "wallJobOverdue no_job nowMs = None" "wallJobOverdue (wallJobSent nowMs j) nowMs = None"
  by (auto simp: wallJobOverdue_def no_job_def wallJobSent_def wallLinkElapsed_def wallJobRunMs_def
      WALL_JOB_HAND_OVER_MS_def WALL_JOB_UNIT_MS_def WALL_JOB_ALL_UNITS_MS_def)

lemma tick_job_row:
  assumes "r < length (wl_rows L)"
  shows "row_at (tick_job h nowMs r L) r =
    (if wallJobOverdue (lr_job (row_at L r)) nowMs = None then row_at L r else (row_at L r)\<lparr>lr_job := no_job\<rparr>)"
  using assms by (simp add: tick_job_def Let_def split: option.split)

lemma tick_show_job:
  "lr_job (row_at (tick_show h nowMs r L) r) = lr_job (row_at L r)
    \<or> lr_job (row_at (tick_show h nowMs r L) r) = wallJobSent nowMs (lr_job (row_at L r))"
proof -
  have job: "lr_job (row_at (case link_send h r msg nowMs L of (ok, L) \<Rightarrow>
        if ok then upd_row r (\<lambda>x. x\<lparr>lr_job := wallJobSent nowMs (lr_job x)\<rparr>) L else L) r)
      \<in> {lr_job (row_at L r), wallJobSent nowMs (lr_job (row_at L r))}" for msg
  proof -
    obtain ok L' where L': "link_send h r msg nowMs L = (ok, L')" by fastforce
    with send_job [of h r msg nowMs L r] show ?thesis
      by (cases "r < length (wl_rows L')") (auto simp: list_update_beyond)
  qed
  show ?thesis
    unfolding tick_show_def Let_def
    using job [of "TR_Op (rj_op (lr_job (row_at L r)))"] send_job [of h r TR_Ping nowMs L r]
    by (simp add: send_flag_job(2) disj_commute)
qed


text \<open>The row of the demonstration, with a job asked for and a text set.\<close>

definition demo_busy :: "(nat \<times> bytes) list WallLinkCore" where
  "demo_busy = setText 2 ''HELLO'' 80 0 (snd (startJob 2 \<lparr>wo_op_id = 9, wo_opcode = 16, wo_address = 0, wo_arg = 0\<rparr> 400 demo_two))"

lemma demo_busy_reach: "(link_step demo_hooks)\<^sup>*\<^sup>* (fresh_link []) demo_busy"
  unfolding demo_busy_def by (rule rtranclp.rtrancl_into_rtrancl [OF rtranclp.rtrancl_into_rtrancl [OF demo_reach step_startJob] step_setText])

text \<open>No job is overdue after a pass, by the rule the pass itself asks.\<close>

lemma no_job_overdue:
  assumes "(link_step h)\<^sup>*\<^sup>* (fresh_link w) L" "r < WALL_LINK_MAX_ROWS"
  shows "wallJobOverdue (lr_job (row_at (link_tick h nowMs L) r)) nowMs = None"
proof -
  have in_time: "wallJobOverdue (lr_job (row_at (tick_row h nowMs r M) r)) nowMs = None" if M: "link_ok M" for M
  proof -
    let ?J = "tick_job h nowMs r M"
    have J: "wallJobOverdue (lr_job (row_at ?J r)) nowMs = None"
      using tick_job_row [of r M h nowMs] link_okD(2) [OF M] assms(2) wallJobOverdue_fresh(1) by simp
    obtain owed L' where set: "tellSettings h r nowMs ?J = (owed, L')" by fastforce
    with tellSettings_job [of h r nowMs ?J r] have L': "lr_job (row_at L' r) = lr_job (row_at ?J r)" by simp
    have "wallJobOverdue (lr_job (row_at (tick_show h nowMs r (tick_log h nowMs r L')) r)) nowMs = None"
      using tick_show_job [of h nowMs r "tick_log h nowMs r L'"] wallJobOverdue_fresh(2) J
      by (auto simp: tick_log_job L')
    with J L' set show ?thesis by (simp add: tick_row_def Let_def drop_job split: option.split)
  qed
  obtain M where "link_ok M" "row_at (link_tick h nowMs L) r = row_at (tick_row h nowMs r M) r"
    using link_tick_row [OF link_reach_ok [OF assms(1)] assms(2), of h nowMs] by metis
  with in_time show ?thesis by simp
qed

text \<open>C33: After a pass of the task no unit job is overdue: a job still waiting was asked for less than 20 s ago,
  a job the row has was handed over less than 16 minutes ago if it
  is one for every unit, less than two minutes ago if not, whatever the rows answer and whatever the
  sockets take.\<close>
theorem jobs_end_in_time:
  assumes "(link_step h)\<^sup>*\<^sup>* (fresh_link w) L" "r < WALL_LINK_MAX_ROWS"
    and "j = lr_job (row_at (link_tick h nowMs L) r)"
  shows "case rj_stage j of
      JS_None \<Rightarrow> True
    | JS_Waiting \<Rightarrow> nowMs - rj_sinceMs j < 20000
    | JS_Sent \<Rightarrow> nowMs - rj_sinceMs j <
        (if wo_opcode (rj_op j) = OPC_HOME_ALL \<or> wo_opcode (rj_op j) = OPC_UPDATE_UNITS \<and> wo_address (rj_op j) = 0
         then 960000 else 120000)"
  using no_job_overdue [OF assms(1,2), of nowMs]
  by (cases "rj_stage j") (auto simp: assms(3) wallJobOverdue_def wallLinkElapsed_def wallJobRunMs_def
      WALL_JOB_HAND_OVER_MS_def WALL_JOB_UNIT_MS_def WALL_JOB_ALL_UNITS_MS_def not_le split: if_splits)

theorem jobs_end_in_time_witness: "rj_stage (lr_job (row_at (link_tick demo_hooks 30000 demo_busy) 2)) = JS_None
    \<or> 30000 - rj_sinceMs (lr_job (row_at (link_tick demo_hooks 30000 demo_busy) 2)) < 960000"
proof -
  have "t < 20000 \<Longrightarrow> t < 960000" "t < 120000 \<Longrightarrow> t < 960000" for t :: u32
    by (simp_all add: word_less_nat_alt)
  with jobs_end_in_time [OF demo_busy_reach _ refl, of 2 30000] show ?thesis
    by (auto simp: WALL_LINK_MAX_ROWS_def split: WallJobStage.splits if_splits)
qed

section \<open>What a row is owed\<close>

lemma busy_row_left_alone:
  assumes "rc_busy (lr_contact (row_at L r))"
  shows "tick_row h nowMs r L = tick_job h nowMs r L"
proof -
  let ?J = "tick_job h nowMs r L"
  have busy: "rc_busy (lr_contact (row_at ?J r))"
    using assms by (cases "r < length (wl_rows L)")
      (auto simp: tick_job_def Let_def list_update_beyond split: option.split)
  have "tellSettings h r nowMs ?J = (True, ?J) \<or> tellSettings h r nowMs ?J = (False, ?J)"
    using busy by (simp add: tellSettings_def Let_def)
  moreover have "tick_show h nowMs r (tick_log h nowMs r ?J) = ?J"
    using busy by (simp add: tick_show_def tick_log_def Let_def wallRowTextDue_def wallJobDue_def wallLinkPingDue_def)
  ultimately show ?thesis using busy by (auto simp: tick_row_def Let_def split: option.split)
qed

text \<open>
  The hooks with the writes that went through noted beside their world: to which connection, and what.
\<close>

definition listening :: "'w WallLinkHooks \<Rightarrow> ('w \<times> (nat \<times> bytes) list) WallLinkHooks" where
  "listening h = \<lparr>lk_rowForId = (\<lambda>name x. lk_rowForId h name (fst x)), lk_masterId = (\<lambda>x. lk_masterId h (fst x)),
     lk_write = (\<lambda>c b x. case lk_write h c b (fst x) of
       (ok, w) \<Rightarrow> (ok, (w, if ok then snd x @ [(c, b)] else snd x))),
     lk_close = (\<lambda>c. apfst (lk_close h c)), lk_samePeer = (\<lambda>a b x. lk_samePeer h a b (fst x)),
     lk_fromPairedAddress = (\<lambda>c r x. lk_fromPairedAddress h c r (fst x)),
     lk_rowHello = (\<lambda>r hel restarted. apfst (lk_rowHello h r hel restarted)),
     lk_rowMessage = (\<lambda>r msg. apfst (lk_rowMessage h r msg)),
     lk_jobEnded = (\<lambda>r opId why. apfst (lk_jobEnded h r opId why)),
     lk_note = (\<lambda>c r why. apfst (lk_note h c r why)),
     lk_encode = lk_encode h, lk_decode = lk_decode h, lk_maxBody = lk_maxBody h\<rparr>"

definition taken_by :: "nat \<Rightarrow> ('w \<times> (nat \<times> bytes) list) WallLinkCore \<Rightarrow> bytes list" where
  "taken_by c L = map snd (filter (\<lambda>e. fst e = c) (snd (wl_world L)))"

definition for_all :: "'w WallLinkCore \<Rightarrow> bool \<times> wl_Config \<times> bool" where
  "for_all L = (wl_haveConfig L, wl_config L, wl_quiet L)"

lemma for_all_upd [simp]: "for_all (upd_row r f L) = for_all L" "for_all (upd_world g L) = for_all L"
  "for_all (upd_conn c k L) = for_all L" "for_all (L\<lparr>wl_world := w\<rparr>) = for_all L"
  by (simp_all add: for_all_def upd_row_def upd_world_def upd_conn_def)

lemma taken_upd [simp]: "taken_by c (upd_row r f L) = taken_by c L" "taken_by c (upd_conn d k L) = taken_by c L"
  "taken_by c (upd_world (apfst g) L) = taken_by c L"
  by (simp_all add: taken_by_def)

lemma listening_simps [simp]: "lk_encode (listening h) = lk_encode h"
  "lk_note (listening h) c r why = apfst (lk_note h c r why)" "lk_close (listening h) c = apfst (lk_close h c)"
  "lk_jobEnded (listening h) q opId cause = apfst (lk_jobEnded h q opId cause)"
  by (simp_all add: listening_def)

subsection \<open>What concerns one row is not written to another\<close>

lemma drop_aside: "taken_by c (link_drop (listening h) d why L) = taken_by c L"
  "for_all (link_drop (listening h) d why L) = for_all L"
  by (simp_all add: link_drop_def link_closed_def Let_def split: option.split)

definition aside :: "nat \<Rightarrow> nat \<Rightarrow> ('w \<times> (nat \<times> bytes) list) WallLinkCore \<Rightarrow> ('w \<times> (nat \<times> bytes) list) WallLinkCore \<Rightarrow> bool" where
  "aside q c L L' \<longleftrightarrow> only_row q L L' \<and> for_all L' = for_all L
     \<and> (lr_conn (row_at L q) \<noteq> Some c \<longrightarrow> taken_by c L' = taken_by c L)"

lemma aside_refl [simp]: "aside q c L L"
  by (simp add: aside_def)

lemma aside_trans: "aside q c L L' \<Longrightarrow> aside q c L' L'' \<Longrightarrow> aside q c L L''"
  unfolding aside_def by (auto intro: only_row_trans) (auto simp: only_row_def)

lemma aside_upd: "(\<And>x. lr_conn (f x) = lr_conn x) \<Longrightarrow> aside q c L (upd_row q f L)"
  by (simp add: aside_def only_row_upd)

lemma aside_send: "aside q c L (snd (link_send (listening h) q msg nowMs L))"
  using send_only_row [of q L "listening h" msg nowMs]
  by (auto simp: aside_def link_send_def Let_def taken_by_def listening_def split: option.splits prod.splits)

lemma aside_flag:
  assumes "\<And>x. lr_conn (f x) = lr_conn x"
  shows "aside q c L (snd (case link_send (listening h) q msg nowMs L of (ok, L) \<Rightarrow> if \<not> ok then (False, L) else (True, upd_row q f L)))"
    "aside q c L (case link_send (listening h) q msg nowMs L of (ok, L) \<Rightarrow> if ok then upd_row q f L else L)"
proof -
  obtain ok L' where L': "link_send (listening h) q msg nowMs L = (ok, L')" by fastforce
  with aside_send [of q c L h msg nowMs] have sent: "aside q c L L'" by simp
  have "aside q c L (upd_row q f L')" by (rule aside_trans [OF sent aside_upd]) (rule assms)
  with sent L' show "aside q c L (snd (case link_send (listening h) q msg nowMs L of (ok, L) \<Rightarrow> if \<not> ok then (False, L) else (True, upd_row q f L)))"
    "aside q c L (case link_send (listening h) q msg nowMs L of (ok, L) \<Rightarrow> if ok then upd_row q f L else L)"
    by simp_all
qed

lemma aside_settings: "aside q c L (snd (tellSettings (listening h) q nowMs L))"
proof -
  have told: "aside q c L (snd (tell_config (listening h) q nowMs L))" "aside q c L (snd (tell_name (listening h) q nowMs L))"
    "aside q c L (snd (tell_quiet (listening h) q nowMs L))" for L
    by (auto simp: tell_config_def tell_name_def tell_quiet_def intro!: aside_flag(1))
  obtain ok1 L1 where 1: "tell_config (listening h) q nowMs L = (ok1, L1)" by fastforce
  obtain ok2 L2 where 2: "tell_name (listening h) q nowMs L1 = (ok2, L2)" by fastforce
  from told(1) [of L] told(2) [of L1] told(3) [of L2] 1 2
  show ?thesis by (auto simp: tellSettings_def Let_def intro: aside_trans)
qed

lemma aside_tick: "aside q c L (tick_job (listening h) nowMs q L)" "aside q c L (tick_log (listening h) nowMs q L)"
  "aside q c L (tick_show (listening h) nowMs q L)"
proof -
  have "aside q c L (upd_world (apfst g) (upd_row q f L))" if "\<And>x. lr_conn (f x) = lr_conn x" for f g
    using aside_upd [OF that, of q c L] by (simp add: aside_def only_row_def)
  then show "aside q c L (tick_job (listening h) nowMs q L)"
    by (simp add: tick_job_def Let_def split: option.split)
  show "aside q c L (tick_log (listening h) nowMs q L)"
    unfolding tick_log_def Let_def by (auto intro!: aside_flag(2))
  show "aside q c L (tick_show (listening h) nowMs q L)"
    unfolding tick_show_def Let_def by (auto intro!: aside_flag(2) aside_send)
qed

lemma tick_row_aside:
  assumes "lr_conn (row_at L q) \<noteq> Some c"
  shows "taken_by c (tick_row (listening h) nowMs q L) = taken_by c L
    \<and> for_all (tick_row (listening h) nowMs q L) = for_all L"
proof -
  let ?J = "tick_job (listening h) nowMs q L"
  obtain owed L' where set: "tellSettings (listening h) q nowMs ?J = (owed, L')" by fastforce
  have S: "aside q c L L'" using aside_trans [OF aside_tick(1) aside_settings] set by (metis snd_conv)
  have T: "aside q c L (tick_show (listening h) nowMs q (tick_log (listening h) nowMs q L'))"
    by (rule aside_trans [OF aside_trans [OF S aside_tick(2)] aside_tick(3)])
  have keep: "taken_by c L'' = taken_by c L \<and> for_all L'' = for_all L" if "aside q c L L''" for L''
    using that assms by (simp add: aside_def)
  show ?thesis
    using keep [OF aside_tick(1)] keep [OF S] keep [OF T] set
    by (auto simp: tick_row_def Let_def drop_aside split: option.split)
qed

lemma fold_tick_aside:
  assumes "link_ok L" "r < WALL_LINK_MAX_ROWS" "lr_conn (row_at L r) = Some c" "\<forall>q \<in> set qs. q < WALL_LINK_MAX_ROWS \<and> q \<noteq> r"
  shows "taken_by c (fold (tick_row (listening h) nowMs) qs L) = taken_by c L
    \<and> for_all (fold (tick_row (listening h) nowMs) qs L) = for_all L"
  using assms
proof (induction qs arbitrary: L)
  case (Cons q qs)
  then have q: "q < WALL_LINK_MAX_ROWS" "q \<noteq> r" by auto
  let ?L = "tick_row (listening h) nowMs q L"
  have "lr_conn (row_at L q) \<noteq> Some c"
    using link_okD(4) [OF Cons.prems(1) q(1), of c] link_okD(4) [OF Cons.prems(1-3)] q(2) by auto
  from tick_row_aside [OF this, of h nowMs] Cons.IH [of ?L] Cons.prems
    link_ok_tick_row [OF Cons.prems(1) q(1), of "listening h" nowMs]
    tick_row_other [OF Cons.prems(1) q, of "listening h" nowMs] show ?case by simp
qed simp

subsection \<open>What a row is owed\<close>

definition takes_all :: "'w WallLinkHooks \<Rightarrow> bool" where
  "takes_all h \<longleftrightarrow> (\<forall>conn b w. fst (lk_write h conn b w)) \<and> (\<forall>msg. lk_encode h msg \<noteq> [])"

lemma demo_takes_all: "takes_all demo_hooks"
  by (simp add: takes_all_def demo_hooks_def split: wl_ToRow.split)

text \<open>The messages a row is owed in a pass, in the order they go out: its settings, its log wish, and then one
  of its latest text, its job, or a ping when it has not been sent anything for ten seconds.\<close>

definition owed_settings :: "'w WallLinkCore \<Rightarrow> nat \<Rightarrow> wl_ToRow list" where
  "owed_settings L r =
     (let x = row_at L r
      in (if wl_haveConfig L \<and> \<not> lr_configSent x then [TR_Config (wl_config L)] else [])
         @ (if lr_hostKnown x \<and> \<not> lr_hostSent x then [TR_Name (lr_host x)] else [])
         @ (if lr_quietSent x then [] else [TR_Quiet (wl_quiet L)]))"

definition owed_log :: "WallLinkRow \<Rightarrow> wl_ToRow list" where
  "owed_log x = (if lr_logWanted x = lr_logTold x then [] else [TR_LogCtl (lr_logWanted x)])"

definition owed_last :: "u32 \<Rightarrow> WallLinkRow \<Rightarrow> wl_ToRow list" where
  "owed_last nowMs x =
     (let t = lr_text x; j = lr_job x
      in if rt_pending t then [TR_Show (rt_renderId t) (rt_commitAtMs t) (ucast (rt_speed t)) (rt_text t)]
         else if rj_stage j = JS_Waiting \<and> nowMs - rj_sinceMs j < 20000 then [TR_Op (rj_op j)]
         else if nowMs - rc_lastSentMs (lr_contact x) \<ge> 10000 then [TR_Ping] else [])"

text \<open>A row that has been sent \<open>msgs\<close>.\<close>

definition stamped :: "u32 \<Rightarrow> wl_ToRow list \<Rightarrow> WallLinkRow \<Rightarrow> WallLinkRow" where
  "stamped nowMs msgs x = (if msgs = [] then x else x\<lparr>lr_contact := (lr_contact x)\<lparr>rc_lastSentMs := nowMs\<rparr>\<rparr>)"

definition owed :: "u32 \<Rightarrow> 'w WallLinkCore \<Rightarrow> nat \<Rightarrow> wl_ToRow list" where
  "owed nowMs L r =
     (let first = owed_settings L r @ owed_log (row_at L r)
      in first @ owed_last nowMs (stamped nowMs first (row_at L r)))"

text \<open>The row after the pass: all of it is out, the text is the same, and a waiting job that was not overdue
  waits on or has been handed over.\<close>

definition job_after :: "u32 \<Rightarrow> WallLinkRow \<Rightarrow> WallRowJob" where
  "job_after nowMs x =
     (let j = lr_job x
      in if wallJobOverdue j nowMs \<noteq> None then no_job
         else if rj_stage j = JS_Waiting \<and> \<not> rt_pending (lr_text x)
         then j\<lparr>rj_stage := JS_Sent, rj_sinceMs := nowMs\<rparr> else j)"

definition row_after :: "u32 \<Rightarrow> 'w WallLinkCore \<Rightarrow> nat \<Rightarrow> WallLinkRow" where
  "row_after nowMs L r =
     (let x = stamped nowMs (owed nowMs L r) (row_at L r)
      in x\<lparr>lr_configSent := (lr_configSent x \<or> wl_haveConfig L),
           lr_hostSent := (lr_hostSent x \<or> lr_hostKnown x), lr_quietSent := True, lr_logTold := lr_logWanted x,
           lr_text := (lr_text x)\<lparr>rt_pending := False\<rparr>, lr_job := job_after nowMs x\<rparr>)"

lemma stamped_simps [simp]: "stamped nowMs [] x = x" "stamped nowMs b (stamped nowMs a x) = stamped nowMs (a @ b) x"
  "lr_conn (stamped nowMs a x) = lr_conn x" "lr_text (stamped nowMs a x) = lr_text x"
  "lr_job (stamped nowMs a x) = lr_job x" "lr_quietSent (stamped nowMs a x) = lr_quietSent x"
  "lr_configSent (stamped nowMs a x) = lr_configSent x" "lr_hostKnown (stamped nowMs a x) = lr_hostKnown x"
  "lr_hostSent (stamped nowMs a x) = lr_hostSent x" "lr_host (stamped nowMs a x) = lr_host x"
  "lr_logWanted (stamped nowMs a x) = lr_logWanted x" "lr_logTold (stamped nowMs a x) = lr_logTold x"
  "rc_connected (lr_contact (stamped nowMs a x)) = rc_connected (lr_contact x)"
  "rc_helloSeen (lr_contact (stamped nowMs a x)) = rc_helloSeen (lr_contact x)"
  "rc_busy (lr_contact (stamped nowMs a x)) = rc_busy (lr_contact x)"
  "rc_lastHeardMs (lr_contact (stamped nowMs a x)) = rc_lastHeardMs (lr_contact x)"
  by (simp_all add: stamped_def)

text \<open>The row's own business in a pass: it is sent \<open>msgs\<close> and becomes \<open>y\<close>, stamped.\<close>

definition goes ::
  "'w WallLinkHooks \<Rightarrow> u32 \<Rightarrow> nat \<Rightarrow> nat \<Rightarrow> wl_ToRow list \<Rightarrow> WallLinkRow \<Rightarrow>
   ('w \<times> (nat \<times> bytes) list) WallLinkCore \<Rightarrow> ('w \<times> (nat \<times> bytes) list) WallLinkCore \<Rightarrow> bool" where
  "goes h nowMs r c msgs y L L' \<longleftrightarrow> row_at L' r = stamped nowMs msgs y
     \<and> taken_by c L' = taken_by c L @ map (lk_encode h) msgs \<and> for_all L' = for_all L
     \<and> length (wl_rows L') = length (wl_rows L)"

lemma goes_nothing: "row_at L r = y \<Longrightarrow> goes h nowMs r c [] y L L"
  by (simp add: goes_def)

definition takes :: "'w WallLinkHooks \<Rightarrow> nat \<Rightarrow> nat \<Rightarrow> 'v WallLinkCore \<Rightarrow> bool" where
  "takes h r c L \<longleftrightarrow> takes_all h \<and> r < length (wl_rows L) \<and> lr_conn (row_at L r) = Some c"

lemma takes_on: "takes h r c L \<Longrightarrow> goes h nowMs r c msgs y L L' \<Longrightarrow> lr_conn y = lr_conn (row_at L r) \<Longrightarrow> takes h r c L'"
  by (simp add: takes_def goes_def)

lemma send_goes:
  assumes "takes h r c L"
  shows "\<exists>L'. link_send (listening h) r msg nowMs L = (True, L') \<and> goes h nowMs r c [msg] (row_at L r) L L'"
proof -
  from assms have c: "\<And>b w. fst (lk_write h c b w)" "lk_encode h msg \<noteq> []" "r < length (wl_rows L)" "lr_conn (row_at L r) = Some c"
    by (simp_all add: takes_def takes_all_def)
  obtain ok w where w: "lk_write h c (lk_encode h msg) (fst (wl_world L)) = (ok, w)" by fastforce
  with c(1) [of "lk_encode h msg" "fst (wl_world L)"] have ok by simp
  with w have wr: "lk_write (listening h) c (lk_encode h msg) (wl_world L) = (True, (w, snd (wl_world L) @ [(c, lk_encode h msg)]))"
    by (simp add: listening_def)
  show ?thesis
    using c(2-4) wr
    by (simp add: link_send_def Let_def goes_def stamped_def wallRowSent_def taken_by_def for_all_def upd_row_def)
qed

lemma flag_goes:
  assumes "takes h r c L" "\<And>x. f (stamped nowMs [msg] x) = stamped nowMs [msg] (f x)"
  shows "\<exists>L'. (case link_send (listening h) r msg nowMs L of (ok, L) \<Rightarrow> if \<not> ok then (False, L) else (True, upd_row r f L)) = (True, L')
      \<and> goes h nowMs r c [msg] (f (row_at L r)) L L'"
    "goes h nowMs r c [msg] (f (row_at L r)) L
      (case link_send (listening h) r msg nowMs L of (ok, L) \<Rightarrow> if ok then upd_row r f L else L)"
proof -
  from send_goes [OF assms(1), of msg nowMs] obtain L' where
    L': "link_send (listening h) r msg nowMs L = (True, L')" "goes h nowMs r c [msg] (row_at L r) L L'" by blast
  then have "goes h nowMs r c [msg] (f (row_at L r)) L (upd_row r f L')"
    using assms by (simp add: goes_def takes_def)
  with L'(1) show "\<exists>L'. (case link_send (listening h) r msg nowMs L of (ok, L) \<Rightarrow> if \<not> ok then (False, L) else (True, upd_row r f L)) = (True, L')
      \<and> goes h nowMs r c [msg] (f (row_at L r)) L L'"
    "goes h nowMs r c [msg] (f (row_at L r)) L
      (case link_send (listening h) r msg nowMs L of (ok, L) \<Rightarrow> if ok then upd_row r f L else L)"
    by simp_all
qed

lemma stamped_upd [simp]:
  "(stamped nowMs a x)\<lparr>lr_configSent := b\<rparr> = stamped nowMs a (x\<lparr>lr_configSent := b\<rparr>)"
  "(stamped nowMs a x)\<lparr>lr_hostSent := b\<rparr> = stamped nowMs a (x\<lparr>lr_hostSent := b\<rparr>)"
  "(stamped nowMs a x)\<lparr>lr_quietSent := b\<rparr> = stamped nowMs a (x\<lparr>lr_quietSent := b\<rparr>)"
  "(stamped nowMs a x)\<lparr>lr_logTold := b\<rparr> = stamped nowMs a (x\<lparr>lr_logTold := b\<rparr>)"
  "(stamped nowMs a x)\<lparr>lr_text := t\<rparr> = stamped nowMs a (x\<lparr>lr_text := t\<rparr>)"
  "(stamped nowMs a x)\<lparr>lr_job := j\<rparr> = stamped nowMs a (x\<lparr>lr_job := j\<rparr>)"
  by (simp_all add: stamped_def)

lemma goes_trans:
  assumes "goes h nowMs r c a y L L'" "goes h nowMs r c b (f (row_at L' r)) L' L''"
    and "\<And>x. f (stamped nowMs a x) = stamped nowMs a (f x)"
  shows "goes h nowMs r c (a @ b) (f y) L L''"
  using assms by (simp add: goes_def)

subsection \<open>The settings, the log wish, and the rest\<close>

lemma config_goes:
  assumes "takes h r c L"
  shows "\<exists>L'. tell_config (listening h) r nowMs L = (True, L')
    \<and> goes h nowMs r c (if wl_haveConfig L \<and> \<not> lr_configSent (row_at L r) then [TR_Config (wl_config L)] else [])
        ((row_at L r)\<lparr>lr_configSent := (lr_configSent (row_at L r) \<or> wl_haveConfig L)\<rparr>) L L'"
proof (cases "wl_haveConfig L \<and> \<not> lr_configSent (row_at L r)")
  case True
  with flag_goes(1) [OF assms, of "\<lambda>x. x\<lparr>lr_configSent := True\<rparr>" nowMs "TR_Config (wl_config L)"] show ?thesis
    by (simp add: tell_config_def)
next
  case False
  then have "(row_at L r)\<lparr>lr_configSent := (lr_configSent (row_at L r) \<or> wl_haveConfig L)\<rparr> = row_at L r"
    by (cases "row_at L r") auto
  with False show ?thesis by (auto simp: tell_config_def goes_nothing)
qed

lemma name_goes:
  assumes "takes h r c L"
  shows "\<exists>L'. tell_name (listening h) r nowMs L = (True, L')
    \<and> goes h nowMs r c (if lr_hostKnown (row_at L r) \<and> \<not> lr_hostSent (row_at L r) then [TR_Name (lr_host (row_at L r))] else [])
        ((row_at L r)\<lparr>lr_hostSent := (lr_hostSent (row_at L r) \<or> lr_hostKnown (row_at L r))\<rparr>) L L'"
proof (cases "lr_hostKnown (row_at L r) \<and> \<not> lr_hostSent (row_at L r)")
  case True
  with flag_goes(1) [OF assms, of "\<lambda>x. x\<lparr>lr_hostSent := True\<rparr>" nowMs "TR_Name (lr_host (row_at L r))"] show ?thesis
    by (simp add: tell_name_def)
next
  case False
  then have "(row_at L r)\<lparr>lr_hostSent := (lr_hostSent (row_at L r) \<or> lr_hostKnown (row_at L r))\<rparr> = row_at L r"
    by (cases "row_at L r") auto
  with False show ?thesis by (auto simp: tell_name_def goes_nothing)
qed

lemma quiet_goes:
  assumes "takes h r c L"
  shows "\<exists>L'. tell_quiet (listening h) r nowMs L = (True, L')
    \<and> goes h nowMs r c (if lr_quietSent (row_at L r) then [] else [TR_Quiet (wl_quiet L)])
        ((row_at L r)\<lparr>lr_quietSent := True\<rparr>) L L'"
proof (cases "lr_quietSent (row_at L r)")
  case False
  with flag_goes(1) [OF assms, of "\<lambda>x. x\<lparr>lr_quietSent := True\<rparr>" nowMs "TR_Quiet (wl_quiet L)"] show ?thesis
    by (simp add: tell_quiet_def)
next
  case True
  then have "(row_at L r)\<lparr>lr_quietSent := True\<rparr> = row_at L r" by (cases "row_at L r") auto
  with True show ?thesis by (auto simp: tell_quiet_def goes_nothing)
qed

text \<open>A row with its settings.\<close>

definition with_settings :: "bool \<Rightarrow> WallLinkRow \<Rightarrow> WallLinkRow" where
  "with_settings haveConfig x = x\<lparr>lr_configSent := (lr_configSent x \<or> haveConfig),
     lr_hostSent := (lr_hostSent x \<or> lr_hostKnown x), lr_quietSent := True\<rparr>"

lemma settings_go:
  assumes "takes h r c L" "\<not> rc_busy (lr_contact (row_at L r))"
  shows "\<exists>L'. tellSettings (listening h) r nowMs L = (True, L')
    \<and> goes h nowMs r c (owed_settings L r) (with_settings (wl_haveConfig L) (row_at L r)) L L'"
proof (cases "lr_quietSent (row_at L r) \<and> (lr_configSent (row_at L r) \<or> \<not> wl_haveConfig L)
    \<and> (lr_hostSent (row_at L r) \<or> \<not> lr_hostKnown (row_at L r))")
  case True
  then have "with_settings (wl_haveConfig L) (row_at L r) = row_at L r"
    by (cases "row_at L r") (auto simp: with_settings_def)
  with True show ?thesis by (auto simp: tellSettings_def owed_settings_def Let_def goes_nothing)
next
  case False
  let ?x = "row_at L r"
  from config_goes [OF assms(1), of nowMs] obtain L1 where 1: "tell_config (listening h) r nowMs L = (True, L1)"
    "goes h nowMs r c (if wl_haveConfig L \<and> \<not> lr_configSent ?x then [TR_Config (wl_config L)] else [])
       (?x\<lparr>lr_configSent := (lr_configSent ?x \<or> wl_haveConfig L)\<rparr>) L L1" (is "goes _ _ _ _ ?m1 ?y1 _ _") by blast
  have t1: "takes h r c L1" by (rule takes_on [OF assms(1) 1(2)]) simp
  have r1: "row_at L1 r = stamped nowMs ?m1 ?y1" using 1(2) by (simp add: goes_def)
  from name_goes [OF t1, of nowMs] obtain L2 where 2: "tell_name (listening h) r nowMs L1 = (True, L2)"
    "goes h nowMs r c (if lr_hostKnown (row_at L1 r) \<and> \<not> lr_hostSent (row_at L1 r) then [TR_Name (lr_host (row_at L1 r))] else [])
       ((row_at L1 r)\<lparr>lr_hostSent := (lr_hostSent (row_at L1 r) \<or> lr_hostKnown (row_at L1 r))\<rparr>) L1 L2" by blast
  have t2: "takes h r c L2" by (rule takes_on [OF t1 2(2)]) simp
  have m: "lr_hostKnown (row_at L1 r) = lr_hostKnown ?x" "lr_hostSent (row_at L1 r) = lr_hostSent ?x"
    "lr_host (row_at L1 r) = lr_host ?x" by (simp_all add: r1)
  from goes_trans [where f = "\<lambda>x. x\<lparr>lr_hostSent := (lr_hostSent x \<or> lr_hostKnown x)\<rparr>", OF 1(2) 2(2)] have
    12: "goes h nowMs r c (?m1 @ (if lr_hostKnown ?x \<and> \<not> lr_hostSent ?x then [TR_Name (lr_host ?x)] else []))
      (?y1\<lparr>lr_hostSent := (lr_hostSent ?x \<or> lr_hostKnown ?x)\<rparr>) L L2" (is "goes _ _ _ _ ?m2 ?y2 _ _")
    unfolding m by simp
  then have q: "lr_quietSent (row_at L2 r) = lr_quietSent ?x" "wl_quiet L2 = wl_quiet L"
    by (simp_all add: goes_def for_all_def)
  from quiet_goes [OF t2, of nowMs] obtain L3 where 3: "tell_quiet (listening h) r nowMs L2 = (True, L3)"
    "goes h nowMs r c (if lr_quietSent (row_at L2 r) then [] else [TR_Quiet (wl_quiet L2)])
       ((row_at L2 r)\<lparr>lr_quietSent := True\<rparr>) L2 L3" by blast
  from goes_trans [where f = "\<lambda>x. x\<lparr>lr_quietSent := True\<rparr>", OF 12 3(2)] have
    "goes h nowMs r c (owed_settings L r) (with_settings (wl_haveConfig L) ?x) L L3"
    unfolding q owed_settings_def with_settings_def Let_def by simp
  with False assms(2) 1(1) 2(1) 3(1) show ?thesis by (auto simp: tellSettings_def Let_def)
qed

lemma log_goes:
  assumes "takes h r c L" "\<not> rc_busy (lr_contact (row_at L r))"
  shows "goes h nowMs r c (owed_log (row_at L r)) ((row_at L r)\<lparr>lr_logTold := lr_logWanted (row_at L r)\<rparr>) L
    (tick_log (listening h) nowMs r L)"
proof (cases "lr_logWanted (row_at L r) = lr_logTold (row_at L r)")
  case True
  then have "(row_at L r)\<lparr>lr_logTold := lr_logWanted (row_at L r)\<rparr> = row_at L r" by (cases "row_at L r") auto
  with True show ?thesis by (simp add: tick_log_def owed_log_def Let_def goes_nothing)
next
  case False
  with flag_goes(2) [OF assms(1), of "\<lambda>x. x\<lparr>lr_logTold := lr_logWanted x\<rparr>" nowMs "TR_LogCtl (lr_logWanted (row_at L r))"] assms(2)
  show ?thesis by (simp add: tick_log_def owed_log_def Let_def)
qed

lemma in_hand: "wallJobOverdue j nowMs = None \<Longrightarrow> rj_stage j = JS_Waiting \<longleftrightarrow>
    rj_stage j = JS_Waiting \<and> nowMs - rj_sinceMs j < 20000"
  by (auto simp: wallJobOverdue_def wallLinkElapsed_def WALL_JOB_HAND_OVER_MS_def not_le split: if_splits)

lemma owed_last_cong:
  assumes "lr_text y = lr_text x" "lr_contact y = lr_contact x"
    and "lr_job y = (if wallJobOverdue (lr_job x) nowMs = None then lr_job x else no_job)"
  shows "owed_last nowMs y = owed_last nowMs x"
proof (cases "wallJobOverdue (lr_job x) nowMs = None")
  case False
  then have "\<not> (rj_stage (lr_job x) = JS_Waiting \<and> nowMs - rj_sinceMs (lr_job x) < 20000)"
    by (auto simp: wallJobOverdue_def wallLinkElapsed_def WALL_JOB_HAND_OVER_MS_def not_le split: if_splits)
  with False assms show ?thesis by (auto simp: owed_last_def Let_def no_job_def)
qed (use assms in \<open>simp add: owed_last_def Let_def\<close>)

lemma job_after_cong:
  assumes "lr_text y = lr_text x" "lr_job y = (if wallJobOverdue (lr_job x) nowMs = None then lr_job x else no_job)"
  shows "job_after nowMs y = job_after nowMs x"
  using assms wallJobOverdue_fresh(1) [of nowMs] by (auto simp: job_after_def Let_def no_job_def)

lemma job_after_stamped: "job_after nowMs (stamped nowMs msgs x) = job_after nowMs x"
  by (simp add: job_after_def Let_def)

lemma show_goes:
  assumes "takes h r c L" "wallJobOverdue (lr_job (row_at L r)) nowMs = None"
    and row: "\<not> rc_busy (lr_contact (row_at L r))" "rc_connected (lr_contact (row_at L r))" "rc_helloSeen (lr_contact (row_at L r))"
  shows "goes h nowMs r c (owed_last nowMs (row_at L r))
    ((row_at L r)\<lparr>lr_text := (lr_text (row_at L r))\<lparr>rt_pending := False\<rparr>, lr_job := job_after nowMs (row_at L r)\<rparr>)
    L (tick_show (listening h) nowMs r L)"
proof -
  let ?x = "row_at L r" let ?t = "lr_text ?x" let ?j = "lr_job ?x"
  have same: "?x\<lparr>lr_text := ?t\<lparr>rt_pending := False\<rparr>, lr_job := k\<rparr> = ?x\<lparr>lr_job := k\<rparr>" if "\<not> rt_pending ?t" for k
    using that by (cases ?x; cases ?t) simp
  consider (texts) "rt_pending ?t" | (job) "\<not> rt_pending ?t" "rj_stage ?j = JS_Waiting"
    | (ping) "\<not> rt_pending ?t" "rj_stage ?j \<noteq> JS_Waiting" by blast
  then show ?thesis
  proof cases
    case texts
    have "job_after nowMs ?x = ?j" using texts assms(2) by (simp add: job_after_def Let_def)
    with texts row flag_goes(2) [OF assms(1), of "\<lambda>x. x\<lparr>lr_text := wallRowTextSent (lr_text x)\<rparr>" nowMs
      "TR_Show (rt_renderId ?t) (rt_commitAtMs ?t) (ucast (rt_speed ?t)) (rt_text ?t)"]
    show ?thesis
      by (simp add: tick_show_def owed_last_def Let_def wallRowTextDue_def wallRowTextSent_def)
  next
    case job
    have "job_after nowMs ?x = wallJobSent nowMs ?j" "rj_stage ?j = JS_Waiting \<and> nowMs - rj_sinceMs ?j < 20000"
      using job assms(2) in_hand [OF assms(2)] by (simp_all add: job_after_def wallJobSent_def Let_def)
    with job row flag_goes(2) [OF assms(1), of "\<lambda>x. x\<lparr>lr_job := wallJobSent nowMs (lr_job x)\<rparr>" nowMs "TR_Op (rj_op ?j)"]
    show ?thesis
      unfolding same [OF job(1)] by (simp add: tick_show_def owed_last_def Let_def wallRowTextDue_def wallJobDue_def)
  next
    case ping
    then have after: "?x\<lparr>lr_text := ?t\<lparr>rt_pending := False\<rparr>, lr_job := job_after nowMs ?x\<rparr> = ?x"
      using same assms(2) by (simp add: job_after_def Let_def)
    from send_goes [OF assms(1), of TR_Ping nowMs] ping row show ?thesis
      unfolding after
      by (auto simp: tick_show_def owed_last_def Let_def wallRowTextDue_def wallJobDue_def wallLinkPingDue_def
          wallLinkElapsed_def WALL_LINK_PING_IDLE_MS_def goes_nothing)
  qed
qed

text \<open>A row's turn in a pass.\<close>

lemma tick_row_goes:
  assumes "link_ok L" "r < WALL_LINK_MAX_ROWS" "takes_all h" "lr_conn (row_at L r) = Some c"
    and row: "\<not> rc_busy (lr_contact (row_at L r))" "\<not> wallLinkElapsed nowMs (rc_lastHeardMs (lr_contact (row_at L r))) WALL_LINK_LOST_MS"
  shows "row_at (tick_row (listening h) nowMs r L) r = row_after nowMs L r
    \<and> taken_by c (tick_row (listening h) nowMs r L) = taken_by c L @ map (lk_encode h) (owed nowMs L r)"
proof -
  let ?x = "row_at L r"
  define j where "j = (if wallJobOverdue (lr_job ?x) nowMs = None then lr_job ?x else no_job)"
  let ?J = "tick_job (listening h) nowMs r L"
  have len: "r < length (wl_rows L)" using link_okD(2) [OF assms(1)] assms(2) by simp
  have J: "row_at ?J r = ?x\<lparr>lr_job := j\<rparr>"
    using tick_job_row [OF len, of "listening h" nowMs] by (cases ?x) (auto simp: j_def)
  have J2: "for_all ?J = for_all L" "taken_by c ?J = taken_by c L" "length (wl_rows ?J) = length (wl_rows L)"
    using aside_tick(1) [of r c L h nowMs] by (simp_all add: aside_def only_row_def tick_job_def Let_def split: option.split)
  have on_time: "wallJobOverdue j nowMs = None" by (simp add: j_def wallJobOverdue_fresh)
  have up: "rc_connected (lr_contact ?x)" "rc_helloSeen (lr_contact ?x)"
    using link_okD(5) [OF assms(1,2)] assms(4) by (auto simp: row_fit_def)
  have tJ: "takes h r c ?J" using assms(3,4) J J2 len by (simp add: takes_def)
  have "\<not> rc_busy (lr_contact (row_at ?J r))" using J row(1) by simp
  from settings_go [OF tJ this, of nowMs] obtain S where S: "tellSettings (listening h) r nowMs ?J = (True, S)"
    "goes h nowMs r c (owed_settings ?J r) (with_settings (wl_haveConfig ?J) (row_at ?J r)) ?J S" by blast
  have owedS: "owed_settings ?J r = owed_settings L r" "wl_haveConfig ?J = wl_haveConfig L"
    using J2(1) by (simp_all add: owed_settings_def for_all_def J Let_def)
  note S2 = S(2) [unfolded owedS J]
  have tS: "takes h r c S" by (rule takes_on [OF tJ S(2)]) (simp add: with_settings_def)
  have rS: "row_at S r = stamped nowMs (owed_settings L r) (with_settings (wl_haveConfig L) (?x\<lparr>lr_job := j\<rparr>))"
    using S2 by (simp add: goes_def)
  have "\<not> rc_busy (lr_contact (row_at S r))" using row(1) by (simp add: rS with_settings_def)
  note logs = log_goes [OF tS this, of nowMs]
  have owedG: "owed_log (row_at S r) = owed_log ?x" by (simp add: rS owed_log_def with_settings_def)
  from goes_trans [where f = "\<lambda>x. x\<lparr>lr_logTold := lr_logWanted x\<rparr>", OF S2 logs [unfolded owedG]] have
    G: "goes h nowMs r c (owed_settings L r @ owed_log ?x)
      ((with_settings (wl_haveConfig L) (?x\<lparr>lr_job := j\<rparr>))\<lparr>lr_logTold := lr_logWanted ?x\<rparr>) ?J
      (tick_log (listening h) nowMs r S)" (is "goes _ _ _ _ ?first ?y _ ?G")
    by (simp add: with_settings_def)
  have tG: "takes h r c ?G" by (rule takes_on [OF tS logs]) simp
  have rG: "row_at ?G r = stamped nowMs ?first ?y" using G by (simp add: goes_def)
  have owedL: "owed_last nowMs (row_at ?G r) = owed_last nowMs (stamped nowMs ?first ?x)"
    by (rule owed_last_cong) (auto simp: rG with_settings_def j_def stamped_def)
  have jobG: "job_after nowMs (row_at ?G r) = job_after nowMs ?x"
    by (rule job_after_cong) (simp_all add: rG with_settings_def j_def)
  have "wallJobOverdue (lr_job (row_at ?G r)) nowMs = None" "\<not> rc_busy (lr_contact (row_at ?G r))"
    "rc_connected (lr_contact (row_at ?G r))" "rc_helloSeen (lr_contact (row_at ?G r))"
    using on_time row(1) up by (simp_all add: rG with_settings_def)
  note last_one = show_goes [OF tG this, unfolded owedL jobG]
  let ?T = "tick_show (listening h) nowMs r ?G"
  have T: "row_at ?T r = row_after nowMs L r" "taken_by c ?T = taken_by c L @ map (lk_encode h) (owed nowMs L r)"
    using last_one G J2(2)
    by (simp_all add: goes_def rG owed_def row_after_def with_settings_def Let_def job_after_stamped)
  have "tick_row (listening h) nowMs r L = ?T"
    using J row S(1) assms(4) by (simp add: tick_row_def Let_def)
  with T show ?thesis by simp
qed

lemma owed_cong:
  assumes "row_at M r = row_at L r" "for_all M = for_all L"
  shows "owed nowMs M r = owed nowMs L r" "row_after nowMs M r = row_after nowMs L r"
proof -
  have all: "wl_haveConfig M = wl_haveConfig L" "wl_config M = wl_config L" "wl_quiet M = wl_quiet L"
    using assms(2) by (simp_all add: for_all_def)
  have "owed_settings M r = owed_settings L r" by (simp add: owed_settings_def all assms(1) Let_def)
  then show owed: "owed nowMs M r = owed nowMs L r" by (simp add: owed_def assms(1))
  show "row_after nowMs M r = row_after nowMs L r" by (simp add: row_after_def owed all(1) assms(1))
qed

lemma link_tick_goes:
  assumes "link_ok L" "r < WALL_LINK_MAX_ROWS" "takes_all h" "lr_conn (row_at L r) = Some c"
    and "\<not> rc_busy (lr_contact (row_at L r))" "\<not> wallLinkElapsed nowMs (rc_lastHeardMs (lr_contact (row_at L r))) WALL_LINK_LOST_MS"
  shows "row_at (link_tick (listening h) nowMs L) r = row_after nowMs L r
    \<and> taken_by c (link_tick (listening h) nowMs L) = taken_by c L @ map (lk_encode h) (owed nowMs L r)"
proof -
  let ?h = "listening h"
  let ?C = "fold (tick_conn ?h nowMs) [0..<WALL_LINK_MAX_CONNS] L"
  let ?M = "fold (tick_row ?h nowMs) [0..<r] ?C"
  let ?N = "tick_row ?h nowMs r ?M"
  have C: "link_ok ?C" "row_at ?C r = row_at L r"
    using fold_tick_conn [OF assms(1), of "[0..<WALL_LINK_MAX_CONNS]" ?h nowMs r] by auto
  have conns: "taken_by c (fold (tick_conn ?h nowMs) is M) = taken_by c M
      \<and> for_all (fold (tick_conn ?h nowMs) is M) = for_all M" for "is" M
    by (induction "is" arbitrary: M) (simp_all add: tick_conn_def Let_def drop_aside)
  have c: "lr_conn (row_at ?C r) = Some c" using C(2) assms(4) by simp
  have M: "link_ok ?M" "row_at ?M r = row_at L r"
    using fold_tick_other [OF C(1), of "[0..<r]" r ?h nowMs] assms(2) C(2) by auto
  have M2: "taken_by c ?M = taken_by c L" "for_all ?M = for_all L"
    using fold_tick_aside [OF C(1) assms(2) c, of "[0..<r]" h nowMs] conns assms(2) by auto
  from M assms(4-6) tick_row_goes [OF M(1) assms(2,3), of c nowMs] have
    N: "row_at ?N r = row_after nowMs ?M r" "taken_by c ?N = taken_by c ?M @ map (lk_encode h) (owed nowMs ?M r)" by auto
  have same: "owed nowMs ?M r = owed nowMs L r" "row_after nowMs ?M r = row_after nowMs L r"
    using owed_cong [OF M(2) M2(2)] by simp_all
  have N2: "link_ok ?N" "lr_conn (row_at ?N r) = Some c"
    using link_ok_tick_row [OF M(1) assms(2), of ?h nowMs] N(1) same(2) assms(4) by (simp_all add: row_after_def Let_def)
  have later: "row_at (fold (tick_row ?h nowMs) [Suc r..<WALL_LINK_MAX_ROWS] ?N) r = row_at ?N r"
    "taken_by c (fold (tick_row ?h nowMs) [Suc r..<WALL_LINK_MAX_ROWS] ?N) = taken_by c ?N"
    using fold_tick_other [OF N2(1), of "[Suc r..<WALL_LINK_MAX_ROWS]" r ?h nowMs]
      fold_tick_aside [OF N2(1) assms(2) N2(2), of "[Suc r..<WALL_LINK_MAX_ROWS]" h nowMs] by auto
  have "[0..<WALL_LINK_MAX_ROWS] = [0..<r] @ r # [Suc r..<WALL_LINK_MAX_ROWS]"
    using assms(2) upt_add_eq_append [of 0 r "WALL_LINK_MAX_ROWS - r"] upt_conv_Cons by fastforce
  then have "link_tick ?h nowMs L = fold (tick_row ?h nowMs) [Suc r..<WALL_LINK_MAX_ROWS] ?N"
    by (simp add: link_tick_def)
  with later N same M2(1) show ?thesis by simp
qed

text \<open>C34: A pass of the task brings a row up to date, provided that the row is connected, not busy and heard from
  within 30 s, and that its messages fit and the sockets take what is written. What its connection takes in
  that pass is then exactly what the row is owed, each with the value of the moment and once: the settings,
  its host name and the quiet flag it has not been told, its log wish if that changed, and after these the
  latest text if one is pending, else the job if one waits and has waited less than 20 s, else a ping if
  nothing has been sent to it for 10 s. Afterwards the row keeps its text, none of this is owed any more, and
  a waiting job that is not overdue has been handed over unless the text went out in this pass, in which case
  it waits on as it was. Nothing else is written to that connection.\<close>
theorem pass_brings_row_up_to_date:
  assumes "(link_step (listening h))\<^sup>*\<^sup>* (fresh_link w) L" "r < WALL_LINK_MAX_ROWS"
    and "takes_all h" "lr_conn (row_at L r) = Some c" "\<not> rc_busy (lr_contact (row_at L r))"
    and "nowMs - rc_lastHeardMs (lr_contact (row_at L r)) < 30000"
  shows "taken_by c (link_tick (listening h) nowMs L) = taken_by c L @ map (lk_encode h) (owed nowMs L r)
    \<and> row_at (link_tick (listening h) nowMs L) r = row_after nowMs L r"
proof -
  have "\<not> wallLinkElapsed nowMs (rc_lastHeardMs (lr_contact (row_at L r))) WALL_LINK_LOST_MS"
    using assms(6) by (simp add: wallLinkElapsed_def WALL_LINK_LOST_MS_def not_le)
  from link_tick_goes [OF link_reach_ok [OF assms(1)] assms(2-5) this] show ?thesis by simp
qed

text \<open>The row of the demonstration, with its writes noted: a job asked for and a text set since its Hello.\<close>

definition heard_busy :: "((nat \<times> bytes) list \<times> (nat \<times> bytes) list) WallLinkCore" where
  "heard_busy =
     (let h = listening demo_hooks; L = snd (link_accept h 100 (fresh_link ([], [])));
          L = link_bytes h 0 [1, 7] 200 L;
          L = snd (startJob 2 \<lparr>wo_op_id = 9, wo_opcode = 16, wo_address = 0, wo_arg = 0\<rparr> 400 L)
      in setText 2 ''HELLO'' 80 0 L)"

lemma heard_busy_reach: "(link_step (listening demo_hooks))\<^sup>*\<^sup>* (fresh_link ([], [])) heard_busy"
proof -
  let ?h = "listening demo_hooks"
  let ?A = "snd (link_accept ?h 100 (fresh_link ([], [])))"
  let ?B = "link_bytes ?h 0 [1, 7] 200 ?A"
  have "link_step ?h (fresh_link ([], [])) ?A" by (rule step_accept)
  moreover have "link_step ?h ?A ?B" by (rule step_bytes) (simp add: WALL_LINK_MAX_CONNS_def)
  moreover have "link_step ?h ?B (snd (startJob 2 oper 400 ?B))" for oper by (rule step_startJob)
  ultimately have "(link_step ?h)\<^sup>*\<^sup>* (fresh_link ([], [])) (snd (startJob 2 oper 400 ?B))" for oper
    by (meson rtranclp.intros)
  then show ?thesis
    unfolding heard_busy_def Let_def by (rule rtranclp.rtrancl_into_rtrancl) (rule step_setText)
qed

lemma heard_busy_row: "lr_conn (row_at heard_busy 2) = Some 0" "\<not> rc_busy (lr_contact (row_at heard_busy 2))"
  "500 - rc_lastHeardMs (lr_contact (row_at heard_busy 2)) < 30000"
  "taken_by 0 heard_busy = [[1], [3]]"
  "owed 500 heard_busy 2 = [TR_Show 1 0 80 ''HELLO'']"
  "rj_stage (lr_job (row_after 500 heard_busy 2)) = JS_Waiting"
  by code_simp+

theorem pass_brings_row_up_to_date_witness:
  "taken_by 0 (link_tick (listening demo_hooks) 500 heard_busy) = taken_by 0 heard_busy @ [lk_encode demo_hooks (TR_Show 1 0 80 ''HELLO'')]
    \<and> rj_stage (lr_job (row_at (link_tick (listening demo_hooks) 500 heard_busy) 2)) = JS_Waiting"
  using pass_brings_row_up_to_date [OF heard_busy_reach _ demo_takes_all heard_busy_row(1-3)] heard_busy_row(5,6)
  by (simp add: WALL_LINK_MAX_ROWS_def)

end
