(* ===== verification/Wall_Update.thy ===== *)
theory Wall_Update
  imports Wall_Link
begin

text \<open>
  When the master offers its stored row image to a row board, and what it makes of the answers
  (Master/WallUpdatePolicy.h): one row at a time, a bounded number of attempts per row, turns. The revision
  of the stored image is an argument, \<open>None\<close> when there is none (\<open>nullptr\<close>); an offer goes out as
  \<open>linkTask\<close> of Master/WallLink.cpp makes it, to the row the rule names and only when the socket takes it.
\<close>

section \<open>The rule\<close>

definition WALL_UPDATE_ATTEMPT_CAP :: u8 where "WALL_UPDATE_ATTEMPT_CAP = 3"
definition WALL_UPDATE_HOLDOFF_MS :: u32 where "WALL_UPDATE_HOLDOFF_MS = 30000"
definition WALL_UPDATE_ANSWER_MS :: u32 where "WALL_UPDATE_ANSWER_MS = 20000"
definition WALL_UPDATE_DOWNLOAD_MS :: u32 where "WALL_UPDATE_DOWNLOAD_MS = 220000"
definition WALL_UPDATE_RETURN_MS :: u32 where "WALL_UPDATE_RETURN_MS = 120000"
definition WALL_UPDATE_HEALTHY_FORGIVE_MS :: u32 where "WALL_UPDATE_HEALTHY_FORGIVE_MS = 600000"
definition UPDATE_UNITS_BUSY :: u32 where "UPDATE_UNITS_BUSY = 2"

datatype WallUpdatePhase = UP_Idle | UP_Offered | UP_Downloading | UP_Returning

datatype WallUpdateEnd =
  UE_None | UE_Converged | UE_RolledBack | UE_StillRescue | UE_Failed | UE_Refused | UE_HeldOff | UE_NoAnswer | UE_TimedOut

record wl_UpdateState =
  us_rev :: string
  us_phase :: wl_UpdatePhase
  us_reason :: u32

record WallUpdateRow =
  ur_reachable :: bool
  ur_rescue :: bool
  ur_rev :: string

record WallUpdater =
  wu_phase :: WallUpdatePhase
  wu_row :: "nat option"
  wu_attempts :: "u8 list"
  wu_blocked :: "bool list"
  wu_rescueOffer :: bool
  wu_charged :: bool
  wu_heldOff :: bool
  wu_lastOffered :: int
  wu_sinceMs :: u32
  wu_heldOffAtMs :: u32
  wu_healthy :: "bool list"
  wu_healthySinceMs :: "u32 list"

definition fresh_updater :: WallUpdater where
  "fresh_updater = \<lparr>wu_phase = UP_Idle, wu_row = None, wu_attempts = replicate WALL_LINK_MAX_ROWS 0,
     wu_blocked = replicate WALL_LINK_MAX_ROWS False, wu_rescueOffer = False, wu_charged = False, wu_heldOff = False,
     wu_lastOffered = -1, wu_sinceMs = 0, wu_heldOffAtMs = 0, wu_healthy = replicate WALL_LINK_MAX_ROWS False,
     wu_healthySinceMs = replicate WALL_LINK_MAX_ROWS 0\<rparr>"

text \<open>Whether a row is due the stored image, and the row whose turn it is.\<close>

definition due_image :: "WallUpdateRow list \<Rightarrow> string \<Rightarrow> WallUpdater \<Rightarrow> nat \<Rightarrow> bool" where
  "due_image rows stored u i \<longleftrightarrow>
     \<not> (\<not> ur_reachable (rows ! i) \<or> wu_blocked u ! i \<or> ur_rev (rows ! i) = [])
     \<and> \<not> (ur_rev (rows ! i) = stored \<and> \<not> ur_rescue (rows ! i))"

text \<open>The \<open>n\<close>-th row after the one offered last.\<close>

definition turn :: "nat \<Rightarrow> int \<Rightarrow> nat \<Rightarrow> nat" where
  "turn count prev n = nat ((prev + int n) mod int count)"

definition nextCandidate :: "WallUpdateRow list \<Rightarrow> string option \<Rightarrow> u32 \<Rightarrow> WallUpdater \<Rightarrow> nat option" where
  "nextCandidate rows storedRev nowMs u =
     (if wu_phase u \<noteq> UP_Idle \<or> storedRev = None \<or> storedRev = Some [] then None
      else if wu_heldOff u \<and> \<not> wallLinkElapsed nowMs (wu_heldOffAtMs u) WALL_UPDATE_HOLDOFF_MS then None
      else let count = min (length rows) WALL_LINK_MAX_ROWS
           in List.find (due_image rows (the storedRev) u) (map (turn count (wu_lastOffered u)) [1..<Suc count]))"

definition forgive :: "nat \<Rightarrow> WallUpdater \<Rightarrow> WallUpdater" where
  "forgive r u = u\<lparr>wu_attempts := (wu_attempts u)[r := 0], wu_blocked := (wu_blocked u)[r := False]\<rparr>"

definition charge :: "WallUpdater \<Rightarrow> WallUpdater" where
  "charge u =
     (case wu_row u of
        None \<Rightarrow> u
      | Some r \<Rightarrow>
          if wu_charged u then u
          else let n = wu_attempts u ! r; n = (if n < 255 then n + 1 else n)
               in u\<lparr>wu_charged := True, wu_attempts := (wu_attempts u)[r := n],
                    wu_blocked := (if n \<ge> WALL_UPDATE_ATTEMPT_CAP then (wu_blocked u)[r := True] else wu_blocked u)\<rparr>)"

definition end_offer :: "WallUpdateEnd \<Rightarrow> bool \<Rightarrow> u32 \<Rightarrow> bool \<Rightarrow> WallUpdater \<Rightarrow> WallUpdateEnd \<times> WallUpdater" where
  "end_offer how costs nowMs holdOff u =
     (how, (if costs then charge u else u)\<lparr>wu_phase := UP_Idle, wu_row := None, wu_heldOff := holdOff, wu_heldOffAtMs := nowMs\<rparr>)"

definition upd_offered :: "nat \<Rightarrow> bool \<Rightarrow> u32 \<Rightarrow> WallUpdater \<Rightarrow> WallUpdater" where
  "upd_offered r rescue nowMs u =
     (let u = u\<lparr>wu_phase := UP_Offered, wu_row := Some r, wu_lastOffered := int r, wu_sinceMs := nowMs,
               wu_rescueOffer := rescue, wu_charged := False\<rparr>
      in if rescue then charge u else u)"

definition upd_answer :: "nat \<Rightarrow> wl_UpdateState \<Rightarrow> string \<Rightarrow> u32 \<Rightarrow> WallUpdater \<Rightarrow> WallUpdateEnd \<times> WallUpdater" where
  "upd_answer r state storedRev nowMs u =
     (if wu_row u \<noteq> Some r \<or> us_rev state \<noteq> storedRev then (UE_None, u)
      else if wu_phase u \<noteq> UP_Offered \<and> wu_phase u \<noteq> UP_Downloading then (UE_None, u)
      else (case us_phase state of
              UPDATE_DOWNLOADING \<Rightarrow> (UE_None, u\<lparr>wu_phase := UP_Downloading, wu_sinceMs := nowMs\<rparr>)
            | UPDATE_INSTALLED \<Rightarrow> (UE_None, u\<lparr>wu_phase := UP_Returning, wu_sinceMs := nowMs\<rparr>)
            | UPDATE_REFUSED \<Rightarrow>
                if us_reason state = UPDATE_UNITS_BUSY then end_offer UE_HeldOff False nowMs True u
                else end_offer UE_Refused True nowMs True u
            | UPDATE_FAILED \<Rightarrow> end_offer UE_Failed True nowMs True u))"

definition upd_hello ::
  "nat \<Rightarrow> string \<Rightarrow> bool \<Rightarrow> bool \<Rightarrow> string \<Rightarrow> u32 \<Rightarrow> WallUpdater \<Rightarrow> WallUpdateEnd \<times> WallUpdater" where
  "upd_hello r rev' rescue restarted storedRev nowMs u =
     (let u = (if r < WALL_LINK_MAX_ROWS then u\<lparr>wu_healthy := (wu_healthy u)[r := False]\<rparr> else u)
      in if wu_phase u = UP_Idle \<or> wu_row u \<noteq> Some r \<or> \<not> restarted then (UE_None, u)
         else if rescue then end_offer UE_StillRescue True nowMs True u
         else if rev' \<noteq> storedRev then end_offer UE_RolledBack True nowMs True u
         else end_offer UE_Converged False nowMs False (if \<not> wu_rescueOffer u then forgive r u else u))"

definition upd_tick :: "u32 \<Rightarrow> WallUpdater \<Rightarrow> WallUpdateEnd \<times> WallUpdater" where
  "upd_tick nowMs u =
     (case wu_phase u of
        UP_Idle \<Rightarrow> (UE_None, u)
      | UP_Offered \<Rightarrow> if \<not> wallLinkElapsed nowMs (wu_sinceMs u) WALL_UPDATE_ANSWER_MS then (UE_None, u)
                       else end_offer UE_NoAnswer False nowMs True u
      | UP_Downloading \<Rightarrow> if \<not> wallLinkElapsed nowMs (wu_sinceMs u) WALL_UPDATE_DOWNLOAD_MS then (UE_None, u)
                           else end_offer UE_TimedOut True nowMs True u
      | UP_Returning \<Rightarrow> if \<not> wallLinkElapsed nowMs (wu_sinceMs u) WALL_UPDATE_RETURN_MS then (UE_None, u)
                         else end_offer UE_TimedOut True nowMs True u)"

definition noteRev :: "nat \<Rightarrow> string \<Rightarrow> string \<Rightarrow> WallUpdater \<Rightarrow> WallUpdater" where
  "noteRev r oldRev newRev u =
     (if r \<ge> WALL_LINK_MAX_ROWS \<or> wu_row u = Some r then u
      else if oldRev = [] \<or> newRev = [] \<or> oldRev = newRev then u
      else forgive r u)"

definition upd_health :: "nat \<Rightarrow> bool \<Rightarrow> u32 \<Rightarrow> WallUpdater \<Rightarrow> WallUpdater" where
  "upd_health r well nowMs u =
     (if r \<ge> WALL_LINK_MAX_ROWS then u
      else if \<not> well then u\<lparr>wu_healthy := (wu_healthy u)[r := False]\<rparr>
      else if \<not> wu_healthy u ! r
      then u\<lparr>wu_healthy := (wu_healthy u)[r := True], wu_healthySinceMs := (wu_healthySinceMs u)[r := nowMs]\<rparr>
      else if wallLinkElapsed nowMs (wu_healthySinceMs u ! r) WALL_UPDATE_HEALTHY_FORGIVE_MS
      then (forgive r u)\<lparr>wu_healthySinceMs := (wu_healthySinceMs u)[r := nowMs]\<rparr>
      else u)"

definition newImage :: "u32 \<Rightarrow> WallUpdater \<Rightarrow> WallUpdater" where
  "newImage nowMs u = (fold forgive [0..<WALL_LINK_MAX_ROWS] u)\<lparr>wu_heldOff := True, wu_heldOffAtMs := nowMs\<rparr>"

definition retry :: "nat \<Rightarrow> WallUpdater \<Rightarrow> WallUpdater" where
  "retry r u = (forgive r u)\<lparr>wu_heldOff := False\<rparr>"

fun wallUpdatePhaseName :: "WallUpdatePhase \<Rightarrow> string" where
  "wallUpdatePhaseName UP_Offered = ''offered''"
| "wallUpdatePhaseName UP_Downloading = ''downloading''"
| "wallUpdatePhaseName UP_Returning = ''returning''"
| "wallUpdatePhaseName UP_Idle = ''idle''"

fun wallUpdateEndText :: "WallUpdateEnd \<Rightarrow> string" where
  "wallUpdateEndText UE_Converged = ''is on the stored image''"
| "wallUpdateEndText UE_RolledBack = ''came back on another rev''"
| "wallUpdateEndText UE_StillRescue = ''came back still in rescue mode''"
| "wallUpdateEndText UE_Failed = ''could not download or install it''"
| "wallUpdateEndText UE_Refused = ''refused the offer''"
| "wallUpdateEndText UE_HeldOff = ''is busy with its units, later''"
| "wallUpdateEndText UE_NoAnswer = ''did not answer the offer, later''"
| "wallUpdateEndText UE_TimedOut = ''was not heard from in time''"
| "wallUpdateEndText UE_None = []"

end
