(* ===== verification/Wall_Offers.thy ===== *)
theory Wall_Offers
  imports Wall_Update
begin

text \<open>
  What the offer rule promises over any course of events: a bounded number of failed or rescue offers per row
  until something speaks for a fresh look, and a turn for every row.
\<close>

section \<open>The course of events\<close>

text \<open>A call of the updater; a pass of the task offers the image to the row whose turn it is when the socket
  takes the message (\<open>sent\<close>).\<close>

datatype UpdEvent =
    EV_Pass "WallUpdateRow list" "string option" bool u32
  | EV_Answer nat wl_UpdateState string u32
  | EV_Hello nat string bool bool string u32
  | EV_Tick u32
  | EV_NoteRev nat string string
  | EV_Health nat bool u32
  | EV_NewImage u32
  | EV_Retry nat
  | EV_Reset

fun upd_event :: "UpdEvent \<Rightarrow> WallUpdater \<Rightarrow> WallUpdateEnd \<times> WallUpdater" where
  "upd_event (EV_Pass views stored sent nowMs) u =
     (case nextCandidate views stored nowMs u of
        None \<Rightarrow> (UE_None, u)
      | Some r \<Rightarrow> (UE_None, if sent then upd_offered r (ur_rescue (views ! r)) nowMs u else u))"
| "upd_event (EV_Answer r state stored nowMs) u = upd_answer r state stored nowMs u"
| "upd_event (EV_Hello r rev' rescue restarted stored nowMs) u = upd_hello r rev' rescue restarted stored nowMs u"
| "upd_event (EV_Tick nowMs) u = upd_tick nowMs u"
| "upd_event (EV_NoteRev r old new) u = (UE_None, noteRev r old new u)"
| "upd_event (EV_Health r well nowMs) u = (UE_None, upd_health r well nowMs u)"
| "upd_event (EV_NewImage nowMs) u = (UE_None, newImage nowMs u)"
| "upd_event (EV_Retry r) u = (UE_None, if r < WALL_LINK_MAX_ROWS then retry r u else u)"
| "upd_event EV_Reset u = (UE_None, fresh_updater)"

definition upd_run :: "UpdEvent list \<Rightarrow> WallUpdater \<Rightarrow> WallUpdater" where
  "upd_run evs u = fold (\<lambda>ev u. snd (upd_event ev u)) evs u"

lemma upd_run_simps [simp]: "upd_run [] u = u" "upd_run (ev # evs) u = upd_run evs (snd (upd_event ev u))"
  by (simp_all add: upd_run_def)

lemma upd_run_append: "upd_run (es @ fs) u = upd_run fs (upd_run es u)"
  by (simp add: upd_run_def)

section \<open>What the updater keeps\<close>

definition upd_ok :: "WallUpdater \<Rightarrow> bool" where
  "upd_ok u \<longleftrightarrow> length (wu_attempts u) = WALL_LINK_MAX_ROWS \<and> length (wu_blocked u) = WALL_LINK_MAX_ROWS
     \<and> (wu_row u = None \<longleftrightarrow> wu_phase u = UP_Idle)
     \<and> (\<forall>r. wu_row u = Some r \<longrightarrow> r < WALL_LINK_MAX_ROWS \<and> wu_charged u = wu_rescueOffer u
          \<and> (\<not> wu_charged u \<longrightarrow> unat (wu_attempts u ! r) < 3))
     \<and> (\<forall>r < WALL_LINK_MAX_ROWS. unat (wu_attempts u ! r) \<le> 3 \<and> (wu_blocked u ! r \<longleftrightarrow> unat (wu_attempts u ! r) = 3))
     \<and> -1 \<le> wu_lastOffered u \<and> wu_lastOffered u < int WALL_LINK_MAX_ROWS"

lemma upd_ok_fresh: "upd_ok fresh_updater"
  by (simp add: upd_ok_def fresh_updater_def)

lemma upd_ok_forgive: "upd_ok u \<Longrightarrow> upd_ok (forgive r u)"
  by (cases "r < WALL_LINK_MAX_ROWS") (auto simp: upd_ok_def forgive_def nth_list_update list_update_beyond)

lemma upd_ok_flags:
  "upd_ok (u\<lparr>wu_healthy := h\<rparr>) = upd_ok u" "upd_ok (u\<lparr>wu_healthySinceMs := s\<rparr>) = upd_ok u"
  "upd_ok (u\<lparr>wu_heldOff := b\<rparr>) = upd_ok u" "upd_ok (u\<lparr>wu_heldOffAtMs := t\<rparr>) = upd_ok u"
  by (simp_all add: upd_ok_def)

text \<open>Below the cap, one more attempt.\<close>

lemma one_more: "unat (n :: u8) < 3 \<Longrightarrow> unat (n + 1) = unat n + 1"
  by (simp add: unat_word_ariths)

lemma cap_reached: "n \<ge> WALL_UPDATE_ATTEMPT_CAP \<longleftrightarrow> 3 \<le> unat n"
  by (simp add: WALL_UPDATE_ATTEMPT_CAP_def word_le_nat_alt)

lemma charge_row:
  assumes "wu_row u = Some r" "\<not> wu_charged u" "unat (wu_attempts u ! r) < 3" "r < length (wu_attempts u)" "r < length (wu_blocked u)"
  shows "charge u = u\<lparr>wu_charged := True, wu_attempts := (wu_attempts u)[r := wu_attempts u ! r + 1],
    wu_blocked := (if unat (wu_attempts u ! r) = 2 then (wu_blocked u)[r := True] else wu_blocked u)\<rparr>"
proof -
  have "wu_attempts u ! r < 255" using assms(3) by (simp add: word_less_nat_alt)
  moreover have "3 \<le> unat (wu_attempts u ! r + 1) \<longleftrightarrow> unat (wu_attempts u ! r) = 2"
    using one_more [OF assms(3)] assms(3) by linarith
  ultimately show ?thesis using assms by (simp add: charge_def Let_def cap_reached)
qed

lemma charged_row: "wu_charged u \<Longrightarrow> charge u = u"
  by (simp add: charge_def split: option.split)

lemma end_offer_attempts:
  assumes "upd_ok u" "wu_row u = Some r"
  shows "upd_ok (snd (end_offer how costs nowMs holdOff u))
    \<and> (\<forall>q < WALL_LINK_MAX_ROWS. unat (wu_attempts (snd (end_offer how costs nowMs holdOff u)) ! q) =
         unat (wu_attempts u ! q) + of_bool (costs \<and> q = r \<and> \<not> wu_rescueOffer u))"
proof (cases "costs \<and> \<not> wu_charged u")
  case True
  from assms have r: "r < WALL_LINK_MAX_ROWS" "wu_charged u = wu_rescueOffer u" "unat (wu_attempts u ! r) < 3" "unat (wu_attempts u ! r) \<le> 3"
    using True by (auto simp: upd_ok_def)
  note c = charge_row [OF assms(2) _ r(3)]
  from assms(1) r(1) True c one_more [OF r(3)] show ?thesis
    using r by (auto simp: end_offer_def upd_ok_def nth_list_update)
next
  case False
  then have "(if costs then charge u else u) = u" by (auto simp: charged_row)
  with False assms show ?thesis by (auto simp: end_offer_def upd_ok_def)
qed

lemma find_turn:
  assumes "List.find P (map f [1..<Suc c]) = Some r"
  shows "\<exists>n. 1 \<le> n \<and> n \<le> c \<and> r = f n \<and> P r \<and> (\<forall>m. 1 \<le> m \<and> m < n \<longrightarrow> \<not> P (f m))"
proof -
  from assms obtain i where i: "i < c" "r = f (1 + i)" "P r" "\<forall>j < i. \<not> P (f (1 + j))"
    by (auto simp: find_Some_iff simp del: upt_Suc)
  have "\<not> P (f m)" if "1 \<le> m" "m < 1 + i" for m
    using i(4) that by (cases m) auto
  with i show ?thesis by (intro exI [of _ "1 + i"]) auto
qed

lemma turn_less: "0 < count \<Longrightarrow> turn count prev n < count"
  by (simp add: turn_def nat_less_iff)

lemma candidate_turn:
  assumes "nextCandidate rows stored nowMs u = Some r"
  obtains n where "1 \<le> n" "n \<le> min (length rows) WALL_LINK_MAX_ROWS" "r = turn (min (length rows) WALL_LINK_MAX_ROWS) (wu_lastOffered u) n"
    "due_image rows (the stored) u r"
    "\<And>m. 1 \<le> m \<Longrightarrow> m < n \<Longrightarrow> \<not> due_image rows (the stored) u (turn (min (length rows) WALL_LINK_MAX_ROWS) (wu_lastOffered u) m)"
    "wu_phase u = UP_Idle"
proof -
  from assms have idle: "wu_phase u = UP_Idle"
    and f: "List.find (due_image rows (the stored) u)
      (map (turn (min (length rows) WALL_LINK_MAX_ROWS) (wu_lastOffered u)) [1..<Suc (min (length rows) WALL_LINK_MAX_ROWS)]) = Some r"
    by (auto simp: nextCandidate_def Let_def simp del: upt_Suc split: if_splits)
  from find_turn [OF f] that idle show thesis by blast
qed

lemma candidate_ok:
  assumes "nextCandidate rows stored nowMs u = Some r"
  shows "wu_phase u = UP_Idle \<and> r < length rows \<and> r < WALL_LINK_MAX_ROWS \<and> due_image rows (the stored) u r"
proof -
  let ?c = "min (length rows) WALL_LINK_MAX_ROWS"
  from candidate_turn [OF assms] obtain n where
    n: "1 \<le> n" "n \<le> ?c" "r = turn ?c (wu_lastOffered u) n" "due_image rows (the stored) u r" "wu_phase u = UP_Idle" by metis
  then have "r < ?c" using turn_less [of ?c] by (metis less_le_trans less_numeral_extra(1) le_trans)
  with n show ?thesis by simp
qed

lemma offered_attempts:
  assumes "upd_ok u" "wu_phase u = UP_Idle" "r < WALL_LINK_MAX_ROWS" "\<not> wu_blocked u ! r"
  shows "upd_ok (upd_offered r rescue nowMs u)
    \<and> (\<forall>q < WALL_LINK_MAX_ROWS. unat (wu_attempts (upd_offered r rescue nowMs u) ! q) =
         unat (wu_attempts u ! q) + of_bool (rescue \<and> q = r))
    \<and> wu_row (upd_offered r rescue nowMs u) = Some r \<and> wu_rescueOffer (upd_offered r rescue nowMs u) = rescue"
proof -
  let ?u = "u\<lparr>wu_phase := UP_Offered, wu_row := Some r, wu_lastOffered := int r, wu_sinceMs := nowMs,
      wu_rescueOffer := rescue, wu_charged := False\<rparr>"
  from assms have low: "unat (wu_attempts u ! r) < 3" by (auto simp: upd_ok_def le_less)
  show ?thesis
  proof (cases rescue)
    case True
    have c: "charge ?u = ?u\<lparr>wu_charged := True, wu_attempts := (wu_attempts u)[r := wu_attempts u ! r + 1],
        wu_blocked := (if unat (wu_attempts u ! r) = 2 then (wu_blocked u)[r := True] else wu_blocked u)\<rparr>"
      using charge_row [of ?u r] low assms by (simp add: upd_ok_def)
    from True assms low one_more [OF low] show ?thesis
      unfolding upd_offered_def Let_def c by (auto simp: upd_ok_def nth_list_update)
  next
    case False
    with assms low show ?thesis by (auto simp: upd_offered_def upd_ok_def)
  qed
qed


lemma end_offer_simps [simp]: "fst (end_offer how c nowMs b u) = how" "wu_row (snd (end_offer how c nowMs b u)) = None"
  by (simp_all add: end_offer_def charge_def Let_def split: option.split)

section \<open>What an offer costs\<close>

text \<open>
  What ends the open offer badly: the row says that the download failed or refuses for a reason that will
  not pass, comes back from a restart still in rescue mode or on another revision, or is not heard from in
  time once it downloads or has installed. An offer that is not answered, or that a row busy with its units
  puts off, has not gone wrong.
\<close>

fun went_wrong :: "UpdEvent \<Rightarrow> WallUpdater \<Rightarrow> bool" where
  "went_wrong (EV_Answer r state stored nowMs) u \<longleftrightarrow>
     wu_row u = Some r \<and> us_rev state = stored \<and> wu_phase u \<in> {UP_Offered, UP_Downloading}
     \<and> (us_phase state = UPDATE_FAILED \<or> us_phase state = UPDATE_REFUSED \<and> us_reason state \<noteq> UPDATE_UNITS_BUSY)"
| "went_wrong (EV_Hello r rev' rescue restarted stored nowMs) u \<longleftrightarrow>
     wu_row u = Some r \<and> restarted \<and> (rescue \<or> rev' \<noteq> stored)"
| "went_wrong (EV_Tick nowMs) u \<longleftrightarrow>
     wu_phase u = UP_Downloading \<and> wallLinkElapsed nowMs (wu_sinceMs u) WALL_UPDATE_DOWNLOAD_MS
     \<or> wu_phase u = UP_Returning \<and> wallLinkElapsed nowMs (wu_sinceMs u) WALL_UPDATE_RETURN_MS"
| "went_wrong ev u \<longleftrightarrow> False"

fun rescue_offer :: "nat \<Rightarrow> UpdEvent \<Rightarrow> WallUpdater \<Rightarrow> bool" where
  "rescue_offer r (EV_Pass views stored sent nowMs) u \<longleftrightarrow>
     sent \<and> nextCandidate views stored nowMs u = Some r \<and> ur_rescue (views ! r)"
| "rescue_offer r ev u \<longleftrightarrow> False"

text \<open>What costs a row an attempt: an offer to it that went wrong, or one made to it in rescue mode.\<close>

definition costs :: "nat \<Rightarrow> UpdEvent \<Rightarrow> WallUpdater \<Rightarrow> bool" where
  "costs r ev u \<longleftrightarrow> wu_row u = Some r \<and> \<not> wu_rescueOffer u \<and> went_wrong ev u \<or> rescue_offer r ev u"

text \<open>The same by what the updater makes of the event.\<close>

definition bad_end :: "WallUpdateEnd \<Rightarrow> bool" where
  "bad_end how \<longleftrightarrow> how \<in> {UE_RolledBack, UE_StillRescue, UE_Failed, UE_Refused, UE_TimedOut}"

definition charged_for :: "nat \<Rightarrow> UpdEvent \<Rightarrow> WallUpdater \<Rightarrow> bool" where
  "charged_for r ev u \<longleftrightarrow>
     (wu_row u = Some r \<and> \<not> wu_rescueOffer u \<and> bad_end (fst (upd_event ev u)))
     \<or> (wu_row u = None \<and> wu_row (snd (upd_event ev u)) = Some r \<and> wu_rescueOffer (snd (upd_event ev u)))"

text \<open>What speaks for a fresh look at a row: another stored image, an operator, a changed table, another
  revision than before, ten minutes of unbroken health, or the row back on the image it was offered when the
  offer was not made to it in rescue mode.\<close>

fun fresh_look :: "nat \<Rightarrow> UpdEvent \<Rightarrow> WallUpdater \<Rightarrow> bool" where
  "fresh_look r (EV_NewImage nowMs) u = True"
| "fresh_look r EV_Reset u = True"
| "fresh_look r (EV_Retry q) u = (q = r)"
| "fresh_look r (EV_NoteRev q old new) u = (q = r \<and> old \<noteq> [] \<and> new \<noteq> [] \<and> old \<noteq> new)"
| "fresh_look r (EV_Health q well nowMs) u =
     (q = r \<and> well \<and> wu_healthy u ! r \<and> wallLinkElapsed nowMs (wu_healthySinceMs u ! r) WALL_UPDATE_HEALTHY_FORGIVE_MS)"
| "fresh_look r (EV_Hello q rev' rescue restarted stored nowMs) u =
     (q = r \<and> wu_row u = Some r \<and> \<not> wu_rescueOffer u \<and> restarted \<and> \<not> rescue \<and> rev' = stored)"
| "fresh_look r ev u = False"

lemma forgive_other:
  assumes "q \<noteq> r"
  shows "wu_attempts (forgive q u) ! r = wu_attempts u ! r" "wu_blocked (forgive q u) ! r = wu_blocked u ! r"
  using assms by (simp_all add: forgive_def)

lemma forgive_row [simp]: "wu_row (forgive q u) = wu_row u" "wu_rescueOffer (forgive q u) = wu_rescueOffer u"
  "wu_phase (forgive q u) = wu_phase u"
  by (simp_all add: forgive_def)

lemma fold_forgive_row: "wu_row (fold forgive qs u) = wu_row u"
  by (induction qs arbitrary: u) simp_all

lemma upd_ok_fold_forgive: "upd_ok u \<Longrightarrow> upd_ok (fold forgive qs u)"
  by (induction qs arbitrary: u) (simp_all add: upd_ok_forgive)

lemma upd_ok_event: "upd_ok u \<Longrightarrow> upd_ok (snd (upd_event ev u))"
proof (cases ev)
  case (EV_Pass views stored sent nowMs)
  assume ok: "upd_ok u"
  show ?thesis
  proof (cases "nextCandidate views stored nowMs u")
    case (Some r)
    from candidate_ok [OF Some] ok offered_attempts [OF ok, of r] Some EV_Pass show ?thesis
      by (auto simp: due_image_def)
  qed (use ok EV_Pass in simp)
next
  case (EV_Answer r state stored nowMs)
  assume ok: "upd_ok u"
  have "upd_ok (u\<lparr>wu_phase := ph, wu_sinceMs := t\<rparr>)" if "wu_row u = Some r" "ph \<noteq> UP_Idle" for ph t
    using ok that by (auto simp: upd_ok_def)
  with ok EV_Answer end_offer_attempts [OF ok, of r] show ?thesis
    by (auto simp: upd_answer_def split: wl_UpdatePhase.split)
next
  case (EV_Hello r rev' rescue restarted stored nowMs)
  assume ok: "upd_ok u"
  let ?u = "if r < WALL_LINK_MAX_ROWS then u\<lparr>wu_healthy := (wu_healthy u)[r := False]\<rparr> else u"
  have u: "upd_ok ?u" using ok by (simp add: upd_ok_flags)
  have "upd_ok (forgive r ?u)" by (rule upd_ok_forgive [OF u])
  with u EV_Hello end_offer_attempts [OF u, of r] end_offer_attempts [of "forgive r ?u" r] show ?thesis
    by (auto simp: upd_hello_def Let_def)
next
  case (EV_Tick nowMs)
  assume ok: "upd_ok u"
  show ?thesis
  proof (cases "wu_row u")
    case None
    with ok EV_Tick show ?thesis by (simp add: upd_tick_def upd_ok_def)
  next
    case (Some r)
    with ok EV_Tick end_offer_attempts [OF ok Some] show ?thesis by (simp add: upd_tick_def split: WallUpdatePhase.split)
  qed
qed (auto simp: noteRev_def upd_health_def newImage_def retry_def upd_ok_flags upd_ok_forgive upd_ok_fold_forgive upd_ok_fresh)

lemma costs_charged:
  assumes "upd_ok u"
  shows "costs r ev u = charged_for r ev u"
proof (cases ev)
  case (EV_Pass views stored sent nowMs)
  show ?thesis
  proof (cases "nextCandidate views stored nowMs u")
    case None
    then show ?thesis using EV_Pass by (simp add: costs_def charged_for_def bad_end_def)
  next
    case (Some q)
    from candidate_ok [OF Some] assms have q: "wu_phase u = UP_Idle" "q < WALL_LINK_MAX_ROWS" "\<not> wu_blocked u ! q" "wu_row u = None"
      by (auto simp: due_image_def upd_ok_def)
    from offered_attempts [OF assms q(1-3), of "ur_rescue (views ! q)" nowMs] Some EV_Pass q(4) show ?thesis
      by (auto simp: costs_def charged_for_def bad_end_def)
  qed
next
  case (EV_Answer q state stored nowMs)
  then show ?thesis
    by (auto simp: costs_def charged_for_def upd_answer_def bad_end_def split: wl_UpdatePhase.split)
next
  case (EV_Hello q rev' rescue restarted stored nowMs)
  with assms show ?thesis
    by (auto simp: costs_def charged_for_def upd_hello_def Let_def bad_end_def upd_ok_def)
next
  case (EV_Tick nowMs)
  with assms show ?thesis
    by (cases "wu_phase u") (auto simp: costs_def charged_for_def upd_tick_def bad_end_def upd_ok_def)
qed (auto simp: costs_def charged_for_def bad_end_def noteRev_def upd_health_def retry_def newImage_def
  fresh_updater_def simp: fold_forgive_row)

lemma attempts_charged:
  assumes "upd_ok u" "r < WALL_LINK_MAX_ROWS" "\<not> fresh_look r ev u"
  shows "unat (wu_attempts (snd (upd_event ev u)) ! r) = unat (wu_attempts u ! r) + of_bool (charged_for r ev u)"
proof (cases ev)
  case (EV_Pass views stored sent nowMs)
  show ?thesis
  proof (cases "nextCandidate views stored nowMs u")
    case None
    then show ?thesis using EV_Pass by (simp add: charged_for_def bad_end_def)
  next
    case (Some q)
    from candidate_ok [OF Some] assms(1) have q: "wu_phase u = UP_Idle" "q < WALL_LINK_MAX_ROWS" "\<not> wu_blocked u ! q" "wu_row u = None"
      by (auto simp: due_image_def upd_ok_def)
    from offered_attempts [OF assms(1) q(1-3), of "ur_rescue (views ! q)" nowMs] Some EV_Pass assms(2) q(4) show ?thesis
      by (auto simp: charged_for_def bad_end_def)
  qed
next
  case (EV_Answer q state stored nowMs)
  show ?thesis
  proof (cases "wu_row u = Some q")
    case True
    with EV_Answer end_offer_attempts [OF assms(1) True, THEN conjunct2, rule_format, OF assms(2)] show ?thesis
      by (simp add: upd_answer_def charged_for_def bad_end_def split: wl_UpdatePhase.split)
  qed (use EV_Answer in \<open>simp add: upd_answer_def charged_for_def bad_end_def\<close>)
next
  case (EV_Hello q rev' rescue restarted stored nowMs)
  define v where "v = (if q < WALL_LINK_MAX_ROWS then u\<lparr>wu_healthy := (wu_healthy u)[q := False]\<rparr> else u)"
  have v: "upd_ok v" "wu_row v = wu_row u" "wu_rescueOffer v = wu_rescueOffer u" "wu_attempts v = wu_attempts u" "wu_phase v = wu_phase u"
    using assms(1) by (simp_all add: v_def upd_ok_flags)
  have hello: "upd_event ev u =
    (if wu_phase v = UP_Idle \<or> wu_row v \<noteq> Some q \<or> \<not> restarted then (UE_None, v)
     else if rescue then end_offer UE_StillRescue True nowMs True v
     else if rev' \<noteq> stored then end_offer UE_RolledBack True nowMs True v
     else end_offer UE_Converged False nowMs False (if \<not> wu_rescueOffer v then forgive q v else v))"
    unfolding EV_Hello upd_event.simps upd_hello_def Let_def v_def by (rule refl)
  show ?thesis
  proof (cases "wu_phase u = UP_Idle \<or> wu_row u \<noteq> Some q \<or> \<not> restarted")
    case True
    then have "upd_event ev u = (UE_None, v)"
      using v hello by auto
    with v show ?thesis by (simp add: charged_for_def bad_end_def)
  next
    case False
    then have row: "wu_row v = Some q" using v by simp
    show ?thesis
    proof (cases "rescue \<or> rev' \<noteq> stored")
      case True
      then have ev: "upd_event ev u = end_offer (if rescue then UE_StillRescue else UE_RolledBack) True nowMs True v"
        using False v hello by auto
      from end_offer_attempts [OF v(1) row, THEN conjunct2, rule_format, OF assms(2)] v False show ?thesis
        unfolding charged_for_def ev by (simp add: bad_end_def)
    next
      case backed: False
      then have ev: "upd_event ev u = end_offer UE_Converged False nowMs False (if \<not> wu_rescueOffer u then forgive q v else v)"
        using False v hello by auto
      have "q \<noteq> r \<or> wu_rescueOffer u" using assms(3) EV_Hello backed False by auto
      with v False show ?thesis
        unfolding charged_for_def ev by (auto simp: bad_end_def end_offer_def forgive_other)
    qed
  qed
next
  case (EV_Tick nowMs)
  show ?thesis
  proof (cases "wu_row u")
    case None
    with assms(1) EV_Tick show ?thesis by (simp add: upd_tick_def upd_ok_def charged_for_def bad_end_def)
  next
    case (Some q)
    note ended = end_offer_attempts [OF assms(1) Some, THEN conjunct2, rule_format, OF assms(2)]
    show ?thesis
      by (cases "wu_phase u") (simp_all add: EV_Tick Some upd_tick_def charged_for_def bad_end_def ended)
  qed
next
  case (EV_NoteRev q old new)
  with assms(3) show ?thesis
    by (auto simp: noteRev_def forgive_other charged_for_def bad_end_def)
next
  case (EV_Health q well nowMs)
  with assms(3) show ?thesis
    by (cases "q = r") (auto simp: upd_health_def forgive_other charged_for_def bad_end_def)
next
  case (EV_Retry q)
  with assms(3) show ?thesis
    by (auto simp: retry_def forgive_other charged_for_def bad_end_def)
qed (use assms(3) in simp_all)


lemma attempts_event:
  assumes "upd_ok u" "r < WALL_LINK_MAX_ROWS" "\<not> fresh_look r ev u"
  shows "unat (wu_attempts (snd (upd_event ev u)) ! r) = unat (wu_attempts u ! r) + of_bool (costs r ev u)"
  unfolding costs_charged [OF assms(1)] by (rule attempts_charged [OF assms])

section \<open>Given up on\<close>

text \<open>How many of the events of a course cost a row an attempt, and whether one of them spoke for a fresh look.\<close>

fun cost_count :: "nat \<Rightarrow> UpdEvent list \<Rightarrow> WallUpdater \<Rightarrow> nat" where
  "cost_count r [] u = 0"
| "cost_count r (ev # evs) u = of_bool (costs r ev u) + cost_count r evs (snd (upd_event ev u))"

fun looked_afresh :: "nat \<Rightarrow> UpdEvent list \<Rightarrow> WallUpdater \<Rightarrow> bool" where
  "looked_afresh r [] u = False"
| "looked_afresh r (ev # evs) u = (fresh_look r ev u \<or> looked_afresh r evs (snd (upd_event ev u)))"

lemma upd_ok_run: "upd_ok u \<Longrightarrow> upd_ok (upd_run evs u)"
  by (induction evs arbitrary: u) (simp_all add: upd_ok_event)

lemma attempts_run:
  assumes "upd_ok u" "r < WALL_LINK_MAX_ROWS" "\<not> looked_afresh r evs u"
  shows "unat (wu_attempts (upd_run evs u) ! r) = unat (wu_attempts u ! r) + cost_count r evs u"
  using assms
proof (induction evs arbitrary: u)
  case (Cons ev evs)
  with attempts_event [of u r ev] upd_ok_event [of u ev] show ?case by simp
qed simp

text \<open>C37: Whatever the rows answer and whenever the master restarts an offer: until something speaks for a fresh
  look at a row (another stored image, an operator, a changed table, another revision than it had, ten
  minutes of unbroken health, or the row back on the image of an offer that was not made to it in rescue
  mode), every offer to it that goes wrong and every offer made to it in rescue mode costs it one attempt,
  and nothing else costs or returns one: not an offer that is never answered or that its unit jobs put off,
  and not coming back on the image after a rescue offer. There are at most three, and after the third it is
  given up on and is not the row an offer goes to.\<close>
theorem bad_image_costs_three_offers:
  assumes "r < WALL_LINK_MAX_ROWS" "\<not> looked_afresh r evs (upd_run past fresh_updater)"
  shows "unat (wu_attempts (upd_run evs (upd_run past fresh_updater)) ! r) =
      unat (wu_attempts (upd_run past fresh_updater) ! r) + cost_count r evs (upd_run past fresh_updater)
    \<and> unat (wu_attempts (upd_run evs (upd_run past fresh_updater)) ! r) \<le> 3
    \<and> (wu_blocked (upd_run evs (upd_run past fresh_updater)) ! r \<longleftrightarrow>
         unat (wu_attempts (upd_run evs (upd_run past fresh_updater)) ! r) = 3)
    \<and> cost_count r evs (upd_run past fresh_updater) \<le> 3
    \<and> (cost_count r evs (upd_run past fresh_updater) = 3 \<longrightarrow>
         nextCandidate rows stored nowMs (upd_run evs (upd_run past fresh_updater)) \<noteq> Some r)"
proof -
  let ?u = "upd_run past fresh_updater"
  have ok: "upd_ok ?u" by (rule upd_ok_run [OF upd_ok_fresh])
  have ok2: "upd_ok (upd_run evs ?u)" by (rule upd_ok_run [OF ok])
  note count = attempts_run [OF ok assms]
  have bound: "unat (wu_attempts (upd_run evs ?u) ! r) \<le> 3" "wu_blocked (upd_run evs ?u) ! r \<longleftrightarrow> unat (wu_attempts (upd_run evs ?u) ! r) = 3"
    using ok2 assms(1) by (simp_all add: upd_ok_def)
  have "nextCandidate rows stored nowMs (upd_run evs ?u) \<noteq> Some r" if "wu_blocked (upd_run evs ?u) ! r"
    using candidate_ok [of rows stored nowMs "upd_run evs ?u" r] that by (auto simp: due_image_def)
  with count bound show ?thesis by auto
qed


text \<open>Row 0 on another revision than the stored one, and three downloads that fail.\<close>

definition demo_views :: "WallUpdateRow list" where
  "demo_views = \<lparr>ur_reachable = True, ur_rescue = False, ur_rev = ''a1''\<rparr>
     # \<lparr>ur_reachable = True, ur_rescue = False, ur_rev = ''a1''\<rparr>
     # replicate 6 \<lparr>ur_reachable = False, ur_rescue = False, ur_rev = []\<rparr>"

definition demo_failed :: wl_UpdateState where
  "demo_failed = \<lparr>us_rev = ''b2'', us_phase = UPDATE_FAILED, us_reason = 0\<rparr>"

definition demo_one :: "WallUpdateRow list" where
  "demo_one = demo_views[1 := \<lparr>ur_reachable = False, ur_rescue = False, ur_rev = []\<rparr>]"

definition demo_fails :: "UpdEvent list" where
  "demo_fails =
     [EV_Pass demo_one (Some ''b2'') True 1000, EV_Answer 0 demo_failed ''b2'' 2000,
      EV_Pass demo_one (Some ''b2'') True 40000, EV_Answer 0 demo_failed ''b2'' 41000,
      EV_Pass demo_one (Some ''b2'') True 80000, EV_Answer 0 demo_failed ''b2'' 81000]"

lemma demo_fails_count: "cost_count 0 demo_fails fresh_updater = 3" "\<not> looked_afresh 0 demo_fails fresh_updater"
  by code_simp+

theorem bad_image_costs_three_offers_witness:
  "nextCandidate demo_one (Some ''b2'') 200000 (upd_run demo_fails fresh_updater) \<noteq> Some 0"
  using bad_image_costs_three_offers [of 0 demo_fails "[]" demo_one "Some ''b2''" 200000] demo_fails_count
  by (simp add: WALL_LINK_MAX_ROWS_def)

section \<open>A turn for every row\<close>

text \<open>The passes of a course that offer the image, to whom, and whether a row was due it at each.\<close>

fun offer_of :: "UpdEvent \<Rightarrow> WallUpdater \<Rightarrow> nat option" where
  "offer_of (EV_Pass views stored sent nowMs) u = (if sent then nextCandidate views stored nowMs u else None)"
| "offer_of ev u = None"

fun offers_made :: "UpdEvent list \<Rightarrow> WallUpdater \<Rightarrow> nat" where
  "offers_made [] u = 0"
| "offers_made (ev # evs) u = of_bool (offer_of ev u \<noteq> None) + offers_made evs (snd (upd_event ev u))"

fun waiting_at :: "nat \<Rightarrow> UpdEvent \<Rightarrow> WallUpdater \<Rightarrow> bool" where
  "waiting_at r (EV_Pass views stored sent nowMs) u \<longleftrightarrow>
     offer_of (EV_Pass views stored sent nowMs) u \<noteq> None \<longrightarrow>
       length views = WALL_LINK_MAX_ROWS \<and> due_image views (the stored) u r
       \<and> offer_of (EV_Pass views stored sent nowMs) u \<noteq> Some r"
| "waiting_at r EV_Reset u \<longleftrightarrow> False"
| "waiting_at r ev u \<longleftrightarrow> True"

fun waiting_throughout :: "nat \<Rightarrow> UpdEvent list \<Rightarrow> WallUpdater \<Rightarrow> bool" where
  "waiting_throughout r [] u \<longleftrightarrow> True"
| "waiting_throughout r (ev # evs) u \<longleftrightarrow> waiting_at r ev u \<and> waiting_throughout r evs (snd (upd_event ev u))"

definition rows_before :: "nat \<Rightarrow> WallUpdater \<Rightarrow> nat" where
  "rows_before r u = nat ((int r - wu_lastOffered u - 1) mod int WALL_LINK_MAX_ROWS)"

lemma lastOffered_charge [simp]: "wu_lastOffered (charge u) = wu_lastOffered u"
  by (simp add: charge_def Let_def split: option.split)

lemma lastOffered_end [simp]: "wu_lastOffered (snd (end_offer how c nowMs b u)) = wu_lastOffered u"
  by (simp add: end_offer_def)

lemma lastOffered_forgive [simp]: "wu_lastOffered (forgive r u) = wu_lastOffered u"
  by (simp add: forgive_def)

lemma lastOffered_fold [simp]: "wu_lastOffered (fold forgive qs u) = wu_lastOffered u"
  by (induction qs arbitrary: u) simp_all

lemma lastOffered_event:
  assumes "ev \<noteq> EV_Reset"
  shows "wu_lastOffered (snd (upd_event ev u)) = (case offer_of ev u of None \<Rightarrow> wu_lastOffered u | Some i \<Rightarrow> int i)"
proof (cases ev)
  case (EV_Pass views stored sent nowMs)
  then show ?thesis by (auto simp: upd_offered_def Let_def split: option.split)
next
  case (EV_Answer r state stored nowMs)
  then show ?thesis by (simp add: upd_answer_def split: wl_UpdatePhase.split)
next
  case (EV_Hello r rev' rescue restarted stored nowMs)
  then show ?thesis by (simp add: upd_hello_def Let_def)
next
  case (EV_Tick nowMs)
  then show ?thesis by (cases "wu_phase u") (simp_all add: upd_tick_def)
qed (use assms in \<open>simp_all add: noteRev_def upd_health_def newImage_def retry_def\<close>)

lemma turn_closer:
  assumes "nextCandidate rows stored nowMs u = Some i" "length rows = WALL_LINK_MAX_ROWS" "r < WALL_LINK_MAX_ROWS"
    and "due_image rows (the stored) u r" "i \<noteq> r"
  shows "nat ((int r - int i - 1) mod int WALL_LINK_MAX_ROWS) < rows_before r u"
proof -
  let ?c = "int WALL_LINK_MAX_ROWS" and ?d = "(int r - wu_lastOffered u - 1) mod int WALL_LINK_MAX_ROWS"
  have c: "0 < ?c" by (simp add: WALL_LINK_MAX_ROWS_def)
  then have d: "0 \<le> ?d" "?d < ?c" by simp_all
  have "turn WALL_LINK_MAX_ROWS (wu_lastOffered u) (nat ?d + 1) = nat ((wu_lastOffered u + (?d + 1)) mod ?c)"
    using d(1) by (simp add: turn_def add.commute)
  also have "(wu_lastOffered u + (?d + 1)) mod ?c = (wu_lastOffered u + 1 + (int r - wu_lastOffered u - 1)) mod ?c"
    by (metis add.assoc add.commute mod_add_right_eq)
  also have "nat \<dots> = r" using assms(3) by simp
  finally have r: "turn WALL_LINK_MAX_ROWS (wu_lastOffered u) (nat ?d + 1) = r" .
  from candidate_turn [OF assms(1)] assms(2) obtain n where n: "1 \<le> n" "n \<le> WALL_LINK_MAX_ROWS"
    "i = turn WALL_LINK_MAX_ROWS (wu_lastOffered u) n"
    "\<And>m. 1 \<le> m \<Longrightarrow> m < n \<Longrightarrow> \<not> due_image rows (the stored) u (turn WALL_LINK_MAX_ROWS (wu_lastOffered u) m)"
    by (metis min.idem)
  have "n \<le> nat ?d + 1" using n(4) [of "nat ?d + 1"] r assms(4) by force
  moreover have "n \<noteq> nat ?d + 1" using n(3) r assms(5) by auto
  ultimately have le: "int n \<le> ?d" using d(1) by linarith
  have i: "int i = (wu_lastOffered u + int n) mod ?c" using n(3) c by (simp add: turn_def)
  have "(int r - int i - 1) mod ?c = (int r - (wu_lastOffered u + int n) - 1) mod ?c"
    unfolding i by (simp only: mod_diff_right_eq mod_diff_left_eq [of "int r - (wu_lastOffered u + int n) mod ?c" ?c 1, symmetric])
      (simp only: mod_diff_left_eq)
  also have "\<dots> = (?d - int n) mod ?c"
    by (simp add: mod_diff_left_eq algebra_simps)
  also have "\<dots> = ?d - int n" using le d n(1) by (intro mod_pos_pos_trivial) auto
  finally show ?thesis using n(1) le by (simp add: rows_before_def)
qed

lemma waiting_bound:
  assumes "r < WALL_LINK_MAX_ROWS" "waiting_throughout r evs u"
  shows "offers_made evs u \<le> rows_before r u"
  using assms(2)
proof (induction evs arbitrary: u)
  case (Cons ev evs)
  then have rest: "offers_made evs (snd (upd_event ev u)) \<le> rows_before r (snd (upd_event ev u))"
    and at: "waiting_at r ev u" by simp_all
  then have "ev \<noteq> EV_Reset" by auto
  note prev = lastOffered_event [OF this]
  show ?case
  proof (cases "offer_of ev u")
    case None
    with rest prev show ?thesis by (simp add: rows_before_def)
  next
    case (Some i)
    then obtain views stored sent nowMs where ev: "ev = EV_Pass views stored sent nowMs" by (cases ev) auto
    with Some at have "nextCandidate views stored nowMs u = Some i" "length views = WALL_LINK_MAX_ROWS"
      "due_image views (the stored) u r" "i \<noteq> r" by (auto split: if_splits)
    from turn_closer [OF this(1,2) assms(1) this(3,4)]
    have "rows_before r (snd (upd_event ev u)) < rows_before r u" by (simp add: rows_before_def prev Some)
    with rest Some show ?thesis by simp
  qed
qed simp

text \<open>C38: The rows take turns: as long as a row is due the stored image at every offer the master makes, fewer
  than eight offers go to others before its own, whatever those others answer or fail to answer.\<close>
theorem every_row_gets_its_turn:
  assumes "r < WALL_LINK_MAX_ROWS" "waiting_throughout r evs (upd_run past fresh_updater)"
  shows "offers_made evs (upd_run past fresh_updater) < WALL_LINK_MAX_ROWS"
proof -
  have "rows_before r u < WALL_LINK_MAX_ROWS" for u
    by (simp add: rows_before_def nat_less_iff WALL_LINK_MAX_ROWS_def)
  with waiting_bound [OF assms] show ?thesis using le_less_trans by blast
qed

theorem every_row_gets_its_turn_witness:
  "offers_made [EV_Pass demo_views (Some ''b2'') True 1000, EV_Tick 21000] fresh_updater < WALL_LINK_MAX_ROWS"
proof -
  have "waiting_throughout 1 [EV_Pass demo_views (Some ''b2'') True 1000, EV_Tick 21000] fresh_updater" by code_simp
  then show ?thesis
    using every_row_gets_its_turn [of 1 _ "[]"] by (simp add: WALL_LINK_MAX_ROWS_def)
qed

end
