(* ===== verification/Event_Record.thy ===== *)
theory Event_Record
  imports SF_Prelude
begin

text \<open>
  The record of what happened on the wall (Master/EventRecordPolicy.h): the entries, how they wait for the
  clock, and how the two files are read back, newest first, with the glue of Master/EventRecord.cpp that reads
  a page over both. A file is its size and a read that may fail.
\<close>

section \<open>Entries\<close>

definition EVENT_RECORD_SIZE :: nat where "EVENT_RECORD_SIZE = 24"
definition EVENT_CHECK_MASK :: u8 where "EVENT_CHECK_MASK = 0x5A"
definition EVENT_FILE_RECORDS :: nat where "EVENT_FILE_RECORDS = 2048"
definition EVENT_STAGE_CAP :: nat where "EVENT_STAGE_CAP = 32"
definition EVENT_CLOCK_WAIT_MS :: u32 where "EVENT_CLOCK_WAIT_MS = 120000"
definition EVENT_AGO_MAX_S :: u32 where "EVENT_AGO_MAX_S = 604800"

definition EVENTS_DROPPED :: u8 where "EVENTS_DROPPED = 2"

definition eventKindName :: "u8 \<Rightarrow> string" where
  "eventKindName kind =
     (case map_of [(1, ''master-started''), (2, ''events-dropped''), (3, ''repeated''), (10, ''unit-reason-on''),
        (11, ''unit-reason-off''), (12, ''unit-restarted''), (20, ''board-reason-on''), (21, ''board-reason-off''),
        (22, ''row-started''), (30, ''job-done''), (31, ''job-failed''), (40, ''row-event''), (50, ''release-found''),
        (51, ''update-started'')] (unat kind) of
        Some name \<Rightarrow> name
      | None \<Rightarrow> ''?'')"

record EventRecord =
  er_timeS :: u32
  er_seq :: u32
  er_a :: u32
  er_b :: u32
  er_board :: u16
  er_kind :: u8
  er_detail :: u8
  er_unit :: u8

definition put32 :: "u32 \<Rightarrow> bytes" where
  "put32 v = [byte_of 0 v, byte_of 1 v, byte_of 2 v, byte_of 3 v]"

definition get32 :: "bytes \<Rightarrow> nat \<Rightarrow> u32" where
  "get32 p i = le32 (p ! i) (p ! (i + 1)) (p ! (i + 2)) (p ! (i + 3))"

definition event_check :: "bytes \<Rightarrow> u8" where
  "event_check p = fold (\<lambda>i x. if i \<noteq> 21 then x XOR p ! i else x) [0..<EVENT_RECORD_SIZE] EVENT_CHECK_MASK"

definition eventEncode :: "EventRecord \<Rightarrow> bytes" where
  "eventEncode r =
     (let p = put32 (er_timeS r) @ put32 (er_seq r) @ put32 (er_a r) @ put32 (er_b r)
            @ [byte_of 0 (er_board r), byte_of 1 (er_board r), er_kind r, er_detail r, er_unit r, 0, 0, 0]
      in p[21 := event_check p])"

definition eventDecode :: "bytes \<Rightarrow> EventRecord option" where
  "eventDecode p =
     (if p ! 21 \<noteq> event_check p then None
      else let r = \<lparr>er_timeS = get32 p 0, er_seq = get32 p 4, er_a = get32 p 8, er_b = get32 p 12,
                 er_board = le16 (p ! 16) (p ! 17), er_kind = p ! 18, er_detail = p ! 19, er_unit = p ! 20\<rparr>
           in if er_seq r \<noteq> 0 then Some r else None)"

text \<open>How a board and a revision are named in an entry. A missing string is \<open>None\<close>.\<close>

definition eventBoardKey :: "string option \<Rightarrow> u16" where
  "eventBoardKey name =
     (case name of
        None \<Rightarrow> 0
      | Some s \<Rightarrow>
          if s = [] then 0
          else let h = fold (\<lambda>c h. (h XOR of_nat (of_char c)) * 16777619) s (2166136261 :: u32);
                   key = ucast (h XOR drop_bit 16 h) :: u16
               in if key = 0 then 1 else key)"

definition hex_value :: "char \<Rightarrow> u32 option" where
  "hex_value c =
     (let n = of_char c :: nat
      in if 48 \<le> n \<and> n \<le> 57 then Some (of_nat (n - 48))
         else if 97 \<le> n \<and> n \<le> 102 then Some (of_nat (n - 97 + 10))
         else if 65 \<le> n \<and> n \<le> 70 then Some (of_nat (n - 65 + 10)) else None)"

fun hex_digits :: "string \<Rightarrow> u32 \<Rightarrow> u32" where
  "hex_digits [] n = n"
| "hex_digits (c # s) n = (case hex_value c of None \<Rightarrow> n | Some d \<Rightarrow> hex_digits s (push_bit 4 n OR d))"

definition eventRevNumber :: "string option \<Rightarrow> u32" where
  "eventRevNumber name = (case name of None \<Rightarrow> 0 | Some s \<Rightarrow> hex_digits (take 8 s) 0)"

definition eventAgoMs :: "u32 \<Rightarrow> u32" where
  "eventAgoMs agoS = (if agoS > EVENT_AGO_MAX_S then EVENT_AGO_MAX_S else agoS) * 1000"

section \<open>Waiting for the clock\<close>

record EventStage =
  es_q :: "(EventRecord \<times> u32) list"
  es_dropped :: u32

definition stage_put :: "EventRecord \<Rightarrow> u32 \<Rightarrow> EventStage \<Rightarrow> bool \<times> EventStage" where
  "stage_put r nowMs st =
     (if length (es_q st) \<ge> EVENT_STAGE_CAP
      then (False, if es_dropped st < 0xFFFFFFFF then st\<lparr>es_dropped := es_dropped st + 1\<rparr> else st)
      else (True, st\<lparr>es_q := es_q st @ [(r, nowMs)]\<rparr>))"

text \<open>The entries that may be written now, up to \<open>room\<close> of them, and those that stay.\<close>

fun take_due :: "u32 \<Rightarrow> bool \<Rightarrow> u32 \<Rightarrow> bool \<Rightarrow> u32 \<Rightarrow> nat \<Rightarrow> (EventRecord \<times> u32) list \<Rightarrow>
    EventRecord list \<times> (EventRecord \<times> u32) list \<times> u32" where
  "take_due nowEpochS clockSet nowMs force nextSeq room [] = ([], [], nextSeq)"
| "take_due nowEpochS clockSet nowMs force nextSeq room ((r, atMs) # q) =
     (if room = 0 then ([], (r, atMs) # q, nextSeq)
      else if \<not> clockSet \<and> \<not> force \<and> nowMs - atMs < EVENT_CLOCK_WAIT_MS then ([], (r, atMs) # q, nextSeq)
      else let ageS = (nowMs - atMs) div 1000;
               r = r\<lparr>er_timeS := (if clockSet \<and> nowEpochS > ageS then nowEpochS - ageS else 0), er_seq := nextSeq\<rparr>
           in case take_due nowEpochS clockSet nowMs force (nextSeq + 1) (room - 1) q of
                (out, rest, n) \<Rightarrow> (r # out, rest, n))"

definition no_event :: EventRecord where
  "no_event = \<lparr>er_timeS = 0, er_seq = 0, er_a = 0, er_b = 0, er_board = 0, er_kind = 0, er_detail = 0, er_unit = 0\<rparr>"

definition stage_take :: "u32 \<Rightarrow> bool \<Rightarrow> u32 \<Rightarrow> bool \<Rightarrow> u32 \<Rightarrow> nat \<Rightarrow> EventStage \<Rightarrow> EventRecord list \<times> u32 \<times> EventStage" where
  "stage_take nowEpochS clockSet nowMs force nextSeq cap st =
     (case take_due nowEpochS clockSet nowMs force nextSeq cap (es_q st) of
        (out, rest, nextSeq) \<Rightarrow>
          if es_dropped st > 0 \<and> rest = [] \<and> length out < cap \<and> (clockSet \<or> force \<or> out \<noteq> [])
          then (out @ [no_event\<lparr>er_kind := EVENTS_DROPPED, er_a := es_dropped st,
                         er_timeS := (if clockSet then nowEpochS else 0), er_seq := nextSeq\<rparr>],
                nextSeq + 1, st\<lparr>es_q := rest, es_dropped := 0\<rparr>)
          else (out, nextSeq, st\<lparr>es_q := rest\<rparr>))"

section \<open>The files\<close>

definition eventPadNeeded :: "nat \<Rightarrow> nat" where
  "eventPadNeeded fileSize = (EVENT_RECORD_SIZE - fileSize mod EVENT_RECORD_SIZE) mod EVENT_RECORD_SIZE"

definition eventShouldRotate :: "nat \<Rightarrow> bool" where
  "eventShouldRotate fileSize \<longleftrightarrow> fileSize \<ge> EVENT_FILE_RECORDS * EVENT_RECORD_SIZE"

record EventFile =
  ef_size :: nat
  ef_read :: "nat \<Rightarrow> nat \<Rightarrow> bytes option"

fun last_seq_from :: "EventFile \<Rightarrow> nat \<Rightarrow> u32" where
  "last_seq_from file 0 = 0"
| "last_seq_from file (Suc i) =
     (case ef_read file (i * EVENT_RECORD_SIZE) EVENT_RECORD_SIZE of
        None \<Rightarrow> 0
      | Some raw \<Rightarrow> (case eventDecode raw of Some r \<Rightarrow> er_seq r | None \<Rightarrow> last_seq_from file i))"

definition eventLastSeq :: "EventFile \<Rightarrow> u32" where
  "eventLastSeq file = last_seq_from file (ef_size file div EVENT_RECORD_SIZE)"

fun chunk_entries :: "bytes \<Rightarrow> u32 \<Rightarrow> nat \<Rightarrow> nat \<Rightarrow> EventRecord list \<Rightarrow> EventRecord list" where
  "chunk_entries raw earlier cap 0 out = out"
| "chunk_entries raw earlier cap (Suc i) out =
     (if length out \<ge> cap then out
      else case eventDecode (take EVENT_RECORD_SIZE (drop (i * EVENT_RECORD_SIZE) raw)) of
             None \<Rightarrow> chunk_entries raw earlier cap i out
           | Some r \<Rightarrow> if earlier \<noteq> 0 \<and> er_seq r \<ge> earlier then chunk_entries raw earlier cap i out
                        else chunk_entries raw earlier cap i (out @ [r]))"

function read_chunks :: "EventFile \<Rightarrow> u32 \<Rightarrow> nat \<Rightarrow> nat \<Rightarrow> EventRecord list \<Rightarrow> EventRecord list" where
  "read_chunks file earlier cap next out =
     (if next = 0 \<or> length out \<ge> cap then out
      else let n = min next 16; first = next - n
           in case ef_read file (first * EVENT_RECORD_SIZE) (n * EVENT_RECORD_SIZE) of
                None \<Rightarrow> out
              | Some raw \<Rightarrow> read_chunks file earlier cap first (chunk_entries raw earlier cap n out))"
  by pat_completeness auto
termination by (relation "measure (\<lambda>(_, _, _, next, _). next)") auto

declare read_chunks.simps [simp del]

definition eventPageRead :: "EventFile \<Rightarrow> u32 \<Rightarrow> nat \<Rightarrow> EventRecord list \<Rightarrow> EventRecord list" where
  "eventPageRead file earlier cap out =
     (let whole = ef_size file div EVENT_RECORD_SIZE
      in if whole = 0 \<or> length out \<ge> cap then out
         else if earlier \<noteq> 0
         then let newest = eventLastSeq file
              in if newest = 0 then out
                 else if newest \<ge> earlier
                 then let skip = unat (newest - earlier + 1)
                      in if skip \<ge> whole then out else read_chunks file earlier cap (whole - skip) out
                 else read_chunks file earlier cap whole out
         else read_chunks file earlier cap whole out)"

text \<open>The two files of Master/EventRecord.cpp; a file that does not exist or open is \<open>None\<close>.\<close>

definition pageOf :: "EventFile option \<Rightarrow> u32 \<Rightarrow> nat \<Rightarrow> EventRecord list \<Rightarrow> EventRecord list" where
  "pageOf file earlier cap out =
     (if length out \<ge> cap then out else case file of None \<Rightarrow> out | Some f \<Rightarrow> eventPageRead f earlier cap out)"

definition eventRecordPage :: "EventFile option \<Rightarrow> EventFile option \<Rightarrow> u32 \<Rightarrow> nat \<Rightarrow> EventRecord list" where
  "eventRecordPage cur prev earlier cap = pageOf prev earlier cap (pageOf cur earlier cap [])"

end
