(* ===== verification/Event_Pages.thy ===== *)
theory Event_Pages
  imports Event_Record
begin

text \<open>
  What the event record promises: an entry reads back as it was written, waiting entries are written in order
  with consecutive numbers, and a page of the two files is exactly their newest entries, as long as no number
  was given to an entry that was then not written.
\<close>

section \<open>Entries\<close>

lemma length_eventEncode [simp]: "length (eventEncode r) = EVENT_RECORD_SIZE"
  by (simp add: eventEncode_def put32_def Let_def EVENT_RECORD_SIZE_def)

lemma event_check_skips: "event_check (p[21 := x]) = event_check p"
  by (simp add: event_check_def EVENT_RECORD_SIZE_def upt_rec [of _ 24])

lemma event_round_trip: "er_seq r \<noteq> 0 \<Longrightarrow> eventDecode (eventEncode r) = Some r"
proof -
  let ?p = "put32 (er_timeS r) @ put32 (er_seq r) @ put32 (er_a r) @ put32 (er_b r)
            @ [byte_of 0 (er_board r), byte_of 1 (er_board r), er_kind r, er_detail r, er_unit r, 0, 0, 0]"
  assume seq: "er_seq r \<noteq> 0"
  have e: "eventEncode r = ?p[21 := event_check ?p]" by (simp add: eventEncode_def Let_def)
  have "eventEncode r ! 21 = event_check ?p" unfolding e by (simp add: put32_def)
  then have check: "eventEncode r ! 21 = event_check (eventEncode r)" unfolding e by (simp add: event_check_skips)
  have "get32 (eventEncode r) 0 = er_timeS r" "get32 (eventEncode r) 4 = er_seq r" "get32 (eventEncode r) 8 = er_a r"
    "get32 (eventEncode r) 12 = er_b r" "le16 (eventEncode r ! 16) (eventEncode r ! 17) = er_board r"
    "eventEncode r ! 18 = er_kind r" "eventEncode r ! 19 = er_detail r" "eventEncode r ! 20 = er_unit r"
    unfolding e by (simp_all add: get32_def put32_def)
  with seq check show ?thesis by (simp add: eventDecode_def Let_def)
qed

text \<open>The padding after a torn write may read as an entry: what was written of this one, completed with zeros,
  passes the check.\<close>

lemma padded_entry_may_pass:
  "eventDecode ([0, 0, 0, 0, 0x5A] @ replicate 19 0) = Some (no_event\<lparr>er_seq := 0x5A\<rparr>)"
  by code_simp

lemma take_due_spec:
  assumes "take_due nowEpochS clockSet nowMs force n room q = (out, rest, n')"
  shows "length out \<le> room \<and> rest = drop (length out) q \<and> n' = n + of_nat (length out)
    \<and> map (\<lambda>r. r\<lparr>er_timeS := 0, er_seq := 0\<rparr>) out = map (\<lambda>(r, at). r\<lparr>er_timeS := 0, er_seq := 0\<rparr>) (take (length out) q)
    \<and> (\<forall>i < length out. er_seq (out ! i) = n + of_nat i)"
  using assms
proof (induction nowEpochS clockSet nowMs force n room q arbitrary: out rest n' rule: take_due.induct)
  case (2 nowEpochS clockSet nowMs force n room r atMs q)
  show ?case
  proof (cases "room = 0 \<or> (\<not> clockSet \<and> \<not> force \<and> nowMs - atMs < EVENT_CLOCK_WAIT_MS)")
    case True
    with 2(2) show ?thesis by (auto split: if_splits)
  next
    case False
    let ?age = "(nowMs - atMs) div 1000"
    let ?r = "r\<lparr>er_timeS := (if clockSet \<and> nowEpochS > ?age then nowEpochS - ?age else 0), er_seq := n\<rparr>"
    obtain out1 rest1 n1 where t: "take_due nowEpochS clockSet nowMs force (n + 1) (room - 1) q = (out1, rest1, n1)"
      by (metis prod_cases3)
    from False 2(2) t have out: "out = ?r # out1" "rest = rest1" "n' = n1" by (auto simp: Let_def)
    have "length out1 \<le> room - 1 \<and> rest1 = drop (length out1) q \<and> n1 = n + 1 + of_nat (length out1)
      \<and> map (\<lambda>r. r\<lparr>er_timeS := 0, er_seq := 0\<rparr>) out1 = map (\<lambda>(r, at). r\<lparr>er_timeS := 0, er_seq := 0\<rparr>) (take (length out1) q)
      \<and> (\<forall>i < length out1. er_seq (out1 ! i) = n + 1 + of_nat i)"
      using 2(1) [OF _ _ refl refl t] False by auto
    with False show ?thesis unfolding out by (auto simp: nth_Cons split: nat.split)
  qed
qed auto

section \<open>A page is the newest entries\<close>

definition file_of :: "bytes \<Rightarrow> EventFile" where
  "file_of content = \<lparr>ef_size = length content,
     ef_read = (\<lambda>off n. if off + n \<le> length content then Some (take n (drop off content)) else None)\<rparr>"

definition block :: "bytes \<Rightarrow> nat \<Rightarrow> bytes" where
  "block content i = take EVENT_RECORD_SIZE (drop (i * EVENT_RECORD_SIZE) content)"

definition entries_in :: "bytes \<Rightarrow> nat \<Rightarrow> nat \<Rightarrow> EventRecord list" where
  "entries_in content a b = List.map_filter (\<lambda>i. eventDecode (block content i)) [a..<b]"

text \<open>What a file holds, oldest first, and which of it a page before a number may show.\<close>

definition log_entries :: "bytes \<Rightarrow> EventRecord list" where
  "log_entries content = entries_in content 0 (length content div EVENT_RECORD_SIZE)"

definition shown_before :: "u32 \<Rightarrow> EventRecord \<Rightarrow> bool" where
  "shown_before earlier r \<longleftrightarrow> earlier = 0 \<or> er_seq r < earlier"

definition newest_of :: "u32 \<Rightarrow> nat \<Rightarrow> EventRecord list \<Rightarrow> EventRecord list" where
  "newest_of earlier cap es = take cap (rev (filter (shown_before earlier) es))"

text \<open>No number was used up by an entry that is not there.\<close>

definition gapless :: "EventRecord list \<Rightarrow> bool" where
  "gapless es \<longleftrightarrow> map (\<lambda>r. unat (er_seq r)) es = [unat (er_seq (hd es))..<unat (er_seq (hd es)) + length es]"

lemma map_filter_append [simp]: "List.map_filter f (xs @ ys) = List.map_filter f xs @ List.map_filter f ys"
  by (simp add: List.map_filter_def)

lemma entries_in_snoc: "a \<le> i \<Longrightarrow> entries_in content a (Suc i) =
    entries_in content a i @ (case eventDecode (block content i) of None \<Rightarrow> [] | Some r \<Rightarrow> [r])"
  by (simp add: entries_in_def List.map_filter_def split: option.split)

lemma entries_in_split: "a \<le> b \<Longrightarrow> b \<le> c \<Longrightarrow> entries_in content a c = entries_in content a b @ entries_in content b c"
  unfolding entries_in_def using upt_add_eq_append [of a b "c - b"] by simp

lemma length_entries_in: "length (entries_in content a b) \<le> b - a"
  unfolding entries_in_def List.map_filter_def using length_filter_le [of _ "[a..<b]"] by (simp add: le_trans)

lemma entry_seq: "r \<in> set (entries_in content a b) \<Longrightarrow> er_seq r \<noteq> 0"
  by (auto simp: entries_in_def List.map_filter_def eventDecode_def Let_def split: if_splits)

lemma newest_of_append: "newest_of earlier cap (es @ fs) =
    newest_of earlier cap fs @ newest_of earlier (cap - length (newest_of earlier cap fs)) es"
  by (simp add: newest_of_def) (metis diff_is_0_eq' length_rev linorder_linear min.absorb1 min.absorb2 take0 take_eq_Nil diff_self_eq_0)


lemma newest_of_full [simp]: "newest_of earlier 0 es = []"
  by (simp add: newest_of_def)

lemma chunk_entries_newest:
  assumes "(first + n) * EVENT_RECORD_SIZE \<le> length content" "i \<le> n"
  shows "chunk_entries (take (n * EVENT_RECORD_SIZE) (drop (first * EVENT_RECORD_SIZE) content)) earlier cap i out
    = out @ newest_of earlier (cap - length out) (entries_in content first (first + i))"
  using assms(2)
proof (induction i arbitrary: out)
  case 0
  then show ?case by (simp add: entries_in_def newest_of_def)
next
  case (Suc i)
  let ?raw = "take (n * EVENT_RECORD_SIZE) (drop (first * EVENT_RECORD_SIZE) content)"
  have "EVENT_RECORD_SIZE + i * EVENT_RECORD_SIZE \<le> n * EVENT_RECORD_SIZE"
    using mult_le_mono1 [OF Suc.prems, of EVENT_RECORD_SIZE] by simp
  then have raw: "take EVENT_RECORD_SIZE (drop (i * EVENT_RECORD_SIZE) ?raw) = block content (first + i)"
    by (simp add: block_def drop_take add_mult_distrib add.commute min_def)
  have IH: "chunk_entries ?raw earlier cap i out' = out' @ newest_of earlier (cap - length out') (entries_in content first (first + i))" for out'
    using Suc by simp
  show ?case
  proof (cases "length out \<ge> cap")
    case True
    then show ?thesis by simp
  next
    case False
    show ?thesis
    proof (cases "eventDecode (block content (first + i))")
      case None
      with False raw IH show ?thesis by (simp add: entries_in_snoc)
    next
      case (Some r)
      have "newest_of earlier (cap - length out) [r] = (if shown_before earlier r then [r] else [])"
        using False by (simp add: newest_of_def)
      with False raw IH Some show ?thesis
        by (auto simp: entries_in_snoc newest_of_append shown_before_def not_less)
    qed
  qed
qed

lemma read_chunks_newest:
  assumes "next * EVENT_RECORD_SIZE \<le> length content"
  shows "read_chunks (file_of content) earlier cap next out = out @ newest_of earlier (cap - length out) (entries_in content 0 next)"
  using assms
proof (induction "file_of content" earlier cap "next" out rule: read_chunks.induct)
  case (1 earlier cap next' out)
  show ?case
  proof (cases "next' = 0 \<or> length out \<ge> cap")
    case True
    then show ?thesis by (subst read_chunks.simps) (auto simp: entries_in_def newest_of_def)
  next
    case False
    define n where "n = min next' 16"
    define first where "first = next' - n"
    have sum: "first + n = next'" by (simp add: first_def n_def)
    have "first * EVENT_RECORD_SIZE + n * EVENT_RECORD_SIZE \<le> length content"
      using 1(2) by (simp add: sum [symmetric] add_mult_distrib)
    then have room: "first * EVENT_RECORD_SIZE \<le> length content" by simp
    have read: "ef_read (file_of content) (first * EVENT_RECORD_SIZE) (n * EVENT_RECORD_SIZE)
        = Some (take (n * EVENT_RECORD_SIZE) (drop (first * EVENT_RECORD_SIZE) content))"
      using \<open>first * EVENT_RECORD_SIZE + n * EVENT_RECORD_SIZE \<le> length content\<close> by (simp add: file_of_def)
    let ?out = "chunk_entries (take (n * EVENT_RECORD_SIZE) (drop (first * EVENT_RECORD_SIZE) content)) earlier cap n out"
    have chunk: "?out = out @ newest_of earlier (cap - length out) (entries_in content first next')"
      using chunk_entries_newest [of first n content n earlier cap out] 1(2) sum by simp
    have "read_chunks (file_of content) earlier cap next' out = read_chunks (file_of content) earlier cap first ?out"
      using False read by (subst read_chunks.simps) (simp add: n_def [symmetric] first_def [symmetric] Let_def)
    also have "\<dots> = ?out @ newest_of earlier (cap - length ?out) (entries_in content 0 first)"
      by (rule 1(1) [OF False n_def first_def read room])
    also have "\<dots> = out @ newest_of earlier (cap - length out) (entries_in content 0 next')"
      unfolding chunk using entries_in_split [of 0 first next' content] sum
      by (simp add: newest_of_append)
    finally show ?thesis .
  qed
qed

lemma last_seq_newest:
  assumes "k * EVENT_RECORD_SIZE \<le> length content"
  shows "last_seq_from (file_of content) k = (if entries_in content 0 k = [] then 0 else er_seq (last (entries_in content 0 k)))"
  using assms
proof (induction k)
  case 0
  then show ?case by (simp add: entries_in_def List.map_filter_def)
next
  case (Suc k)
  then have "ef_read (file_of content) (k * EVENT_RECORD_SIZE) EVENT_RECORD_SIZE = Some (block content k)"
    by (simp add: file_of_def block_def)
  with Suc show ?case by (simp add: entries_in_snoc split: option.split)
qed

text \<open>In a gapless file the entries of the last blocks are not further back than their distance from the newest.\<close>

lemma gapless_tail:
  assumes "gapless (as @ bs)" "length bs \<le> unat (er_seq (last (as @ bs)) - earlier + 1)" "earlier \<noteq> 0"
    and "earlier \<le> er_seq (last (as @ bs))" "r \<in> set bs"
  shows "earlier \<le> er_seq r"
proof -
  let ?es = "as @ bs" and ?s = "unat (er_seq (hd (as @ bs)))"
  have nth: "unat (er_seq (?es ! i)) = ?s + i" if "i < length ?es" for i
    using arg_cong [OF assms(1) [unfolded gapless_def], of "\<lambda>xs. xs ! i"] that by (simp del: map_append)
  from assms(5) obtain j where j: "j < length bs" "bs ! j = r" by (auto simp: in_set_conv_nth)
  have r: "unat (er_seq r) = ?s + (length as + j)" using nth [of "length as + j"] j by (simp add: nth_append)
  have "bs \<noteq> []" using j by auto
  then have l: "unat (er_seq (last ?es)) = ?s + (length as + length bs - 1)"
    using nth [of "length ?es - 1"] last_conv_nth [of ?es] by simp
  have "unat (er_seq (last ?es) - earlier) = unat (er_seq (last ?es)) - unat earlier"
    using assms(4) by (simp add: unat_sub)
  moreover have "unat (er_seq (last ?es) - earlier + 1) \<le> unat (er_seq (last ?es) - earlier) + 1"
    by (simp add: unat_word_ariths(1) mod_less_eq_dividend)
  ultimately have "length bs \<le> unat (er_seq (last ?es)) - unat earlier + 1" using assms(2) by simp
  moreover have "unat earlier \<le> unat (er_seq (last ?es))" using assms(4) by (simp add: word_le_nat_alt)
  ultimately have "unat earlier \<le> unat (er_seq r)" using r l j by linarith
  then show ?thesis by (simp add: word_le_nat_alt)
qed


lemma page_newest:
  assumes "gapless (log_entries content)"
  shows "eventPageRead (file_of content) earlier cap out = out @ newest_of earlier (cap - length out) (log_entries content)"
proof -
  define whole where "whole = length content div EVENT_RECORD_SIZE"
  let ?E = "entries_in content 0 whole"
  have E: "log_entries content = ?E" by (simp add: log_entries_def whole_def)
  have size: "ef_size (file_of content) = length content" by (simp add: file_of_def)
  have fits: "k * EVENT_RECORD_SIZE \<le> length content" if "k \<le> whole" for k
    using mult_le_mono1 [OF that, of EVENT_RECORD_SIZE] div_times_less_eq_dividend [of "length content" EVENT_RECORD_SIZE]
    unfolding whole_def by linarith
  note read = read_chunks_newest [OF fits]
  consider (none) "whole = 0 \<or> length out \<ge> cap" | (newest) "whole \<noteq> 0" "length out < cap" "earlier = 0"
    | (earlier) "whole \<noteq> 0" "length out < cap" "earlier \<noteq> 0" by linarith
  then show ?thesis
  proof cases
    case none
    then show ?thesis by (auto simp: eventPageRead_def size whole_def [symmetric] E entries_in_def newest_of_def)
  next
    case newest
    then show ?thesis by (simp add: eventPageRead_def size whole_def [symmetric] read E Let_def)
  next
    case earlier
    have seq: "eventLastSeq (file_of content) = (if ?E = [] then 0 else er_seq (last ?E))"
      using last_seq_newest [OF fits [of whole]] by (simp add: eventLastSeq_def size whole_def [symmetric])
    show ?thesis
    proof (cases "?E = []")
      case True
      then show ?thesis using earlier seq by (simp add: eventPageRead_def size whole_def [symmetric] E newest_of_def Let_def)
    next
      case False
      let ?last = "er_seq (last ?E)"
      have seq: "eventLastSeq (file_of content) = ?last" "?last \<noteq> 0"
        using seq False entry_seq [of "last ?E" content 0 whole] by auto
      show ?thesis
      proof (cases "earlier \<le> ?last")
        case False
        with earlier seq show ?thesis
          by (simp add: eventPageRead_def size whole_def [symmetric] read E Let_def)
      next
        case le: True
        define skip where "skip = unat (?last - earlier + 1)"
        define first where "first = whole - skip"
        have split: "?E = entries_in content 0 first @ entries_in content first whole"
          by (rule entries_in_split) (simp_all add: first_def)
        have "length (entries_in content first whole) \<le> skip"
          using length_entries_in [of content first whole] by (simp add: first_def)
        then have "earlier \<le> er_seq r" if "r \<in> set (entries_in content first whole)" for r
          using gapless_tail [of "entries_in content 0 first" "entries_in content first whole" earlier r] that
            assms le earlier(3) by (simp add: E split [symmetric] skip_def)
        then have "newest_of earlier n (entries_in content first whole) = []" for n
          using earlier(3) by (auto simp: newest_of_def shown_before_def filter_empty_conv not_less)
        then have rest: "newest_of earlier n ?E = newest_of earlier n (entries_in content 0 first)" for n
          by (subst split) (simp add: newest_of_append)
        show ?thesis
        proof (cases "skip \<ge> whole")
          case True
          then have "first = 0" by (simp add: first_def)
          then have "newest_of earlier n ?E = []" for n using rest by (simp add: entries_in_def newest_of_def List.map_filter_def)
          with True earlier seq le show ?thesis
            by (simp add: eventPageRead_def size whole_def [symmetric] E skip_def [symmetric] Let_def)
        next
          case False
          with earlier seq le have "eventPageRead (file_of content) earlier cap out = read_chunks (file_of content) earlier cap first out"
            by (simp add: eventPageRead_def size whole_def [symmetric] skip_def [symmetric] first_def [symmetric] Let_def)
          moreover have "first \<le> whole" by (simp add: first_def)
          ultimately show ?thesis using read [of first earlier cap out] rest E by simp
        qed
      qed
    qed
  qed
qed

fun held :: "bytes option \<Rightarrow> EventRecord list" where
  "held None = []"
| "held (Some content) = log_entries content"

text \<open>C39: A page of the event record is exactly what it should be: the newest entries of the two files together
  with a number below the one asked for, newest first, as many as there is room for, whatever torn and padded
  stretches lie between the entries, as long as within each file no number is missing.\<close>
theorem event_page_complete:
  assumes "gapless (held cur)" "gapless (held prev)"
  shows "eventRecordPage (map_option file_of cur) (map_option file_of prev) earlier cap
    = newest_of earlier cap (held prev @ held cur)"
proof -
  have page: "pageOf (map_option file_of f) earlier cap out = out @ newest_of earlier (cap - length out) (held f)"
    if "gapless (held f)" for f out
  proof (cases f)
    case None
    then show ?thesis by (simp add: pageOf_def newest_of_def)
  next
    case (Some content)
    with that page_newest [of content earlier cap out] show ?thesis by (simp add: pageOf_def)
  qed
  show ?thesis
    unfolding eventRecordPage_def page [OF assms(1)] page [OF assms(2)] newest_of_append by simp
qed

text \<open>Two entries around a torn one in the current file, one in the older.\<close>

definition demo_event :: "u32 \<Rightarrow> EventRecord" where
  "demo_event seq = no_event\<lparr>er_seq := seq, er_kind := 30\<rparr>"

definition demo_cur :: bytes where
  "demo_cur = eventEncode (demo_event 2) @ take 9 (eventEncode (demo_event 3)) @ replicate 15 0 @ eventEncode (demo_event 3)"

definition demo_prev :: bytes where
  "demo_prev = eventEncode (demo_event 1)"

theorem event_page_complete_witness:
  "eventRecordPage (Some (file_of demo_cur)) (Some (file_of demo_prev)) 3 50 = [demo_event 2, demo_event 1]"
proof -
  have held: "held (Some demo_cur) = [demo_event 2, demo_event 3]" "held (Some demo_prev) = [demo_event 1]" by code_simp+
  have "gapless (held (Some demo_cur))" "gapless (held (Some demo_prev))"
    unfolding held by (simp_all add: gapless_def demo_event_def upt_rec)
  from event_page_complete [OF this, of 3 50] show ?thesis
    unfolding held by (simp add: newest_of_def shown_before_def demo_event_def)
qed

text \<open>Entries 4 and 5 were numbered but could not be written: the page before entry 3 comes out empty.\<close>

lemma lost_write_hides_entries:
  "eventRecordPage (Some (file_of (concat (map (\<lambda>n. eventEncode (demo_event n)) [1, 2, 3, 6, 7])))) None 3 50 = []"
  by code_simp

end
