(* ===== verification/Wall_Jobs.thy ===== *)
theory Wall_Jobs
  imports Reflash Wall_Link
begin

text \<open>
  A unit job from the operator to the row: what the master makes of a request (Master/WallJobs.h), and what a
  row makes of the job on the link (FollowerEsp01/FollowerLinkOps.h). Both boards share the value checks of
  Maintenance; a \<open>long\<close> of the boards has 32 bits and is an integer here.
\<close>

section \<open>The jobs\<close>

definition OPC_HOME :: u32 where "OPC_HOME = 1"
definition OPC_IDENTIFY :: u32 where "OPC_IDENTIFY = 2"
definition OPC_JOG :: u32 where "OPC_JOG = 3"
definition OPC_SET_OFFSET :: u32 where "OPC_SET_OFFSET = 4"
definition OPC_SELF_TEST :: u32 where "OPC_SELF_TEST = 5"
definition OPC_RESTART_UNIT :: u32 where "OPC_RESTART_UNIT = 6"
definition OPC_RESET_ODOMETER :: u32 where "OPC_RESET_ODOMETER = 7"
definition OPC_SET_GATES :: u32 where "OPC_SET_GATES = 8"
definition OPC_BOOT_INFO :: u32 where "OPC_BOOT_INFO = 9"
definition OPC_BOOT_DUMP :: u32 where "OPC_BOOT_DUMP = 10"
definition OPC_BOOT_UPDATE :: u32 where "OPC_BOOT_UPDATE = 11"
definition OPC_PROBE :: u32 where "OPC_PROBE = 13"
definition OPC_SET_ADDRESS :: u32 where "OPC_SET_ADDRESS = 14"
definition OPC_CLEAR_ADDRESS :: u32 where "OPC_CLEAR_ADDRESS = 15"

lemmas opcode_defs = OPC_HOME_def OPC_IDENTIFY_def OPC_JOG_def OPC_SET_OFFSET_def OPC_SELF_TEST_def OPC_RESTART_UNIT_def
  OPC_RESET_ODOMETER_def OPC_SET_GATES_def OPC_BOOT_INFO_def OPC_BOOT_DUMP_def OPC_BOOT_UPDATE_def OPC_UPDATE_UNITS_def
  OPC_PROBE_def OPC_SET_ADDRESS_def OPC_CLEAR_ADDRESS_def OPC_HOME_ALL_def

datatype WallJobUnit = JU_None | JU_One | JU_OneOrAll
datatype WallJobData = JD_None | JD_Json | JD_Bytes

record WallJobKind =
  jk_name :: string
  jk_opcode :: u32
  jk_unit :: WallJobUnit
  jk_arg :: "string option"
  jk_argRequired :: bool
  jk_data :: WallJobData

definition job_kind :: "string \<Rightarrow> u32 \<Rightarrow> WallJobUnit \<Rightarrow> string option \<Rightarrow> bool \<Rightarrow> WallJobData \<Rightarrow> WallJobKind" where
  "job_kind name opcode unit arg argRequired data =
     \<lparr>jk_name = name, jk_opcode = opcode, jk_unit = unit, jk_arg = arg, jk_argRequired = argRequired, jk_data = data\<rparr>"

definition WALL_JOB_KINDS :: "WallJobKind list" where
  "WALL_JOB_KINDS =
     [job_kind ''home'' OPC_HOME JU_One None False JD_None,
      job_kind ''identify'' OPC_IDENTIFY JU_One None False JD_None,
      job_kind ''jog'' OPC_JOG JU_One (Some ''steps'') True JD_None,
      job_kind ''set-offset'' OPC_SET_OFFSET JU_One (Some ''offset'') True JD_None,
      job_kind ''self-test'' OPC_SELF_TEST JU_One None False JD_Json,
      job_kind ''restart-unit'' OPC_RESTART_UNIT JU_One None False JD_None,
      job_kind ''reset-odometer'' OPC_RESET_ODOMETER JU_One None False JD_None,
      job_kind ''set-gates'' OPC_SET_GATES JU_One (Some ''gates'') True JD_None,
      job_kind ''boot-info'' OPC_BOOT_INFO JU_One None False JD_Json,
      job_kind ''boot-dump'' OPC_BOOT_DUMP JU_One None False JD_Bytes,
      job_kind ''boot-update'' OPC_BOOT_UPDATE JU_One None False JD_None,
      job_kind ''update-units'' OPC_UPDATE_UNITS JU_OneOrAll (Some ''force'') False JD_None,
      job_kind ''probe'' OPC_PROBE JU_None None False JD_None,
      job_kind ''set-address'' OPC_SET_ADDRESS JU_One (Some ''address'') True JD_None,
      job_kind ''clear-address'' OPC_CLEAR_ADDRESS JU_One None False JD_None,
      job_kind ''home-all'' OPC_HOME_ALL JU_None None False JD_None]"

definition wallJobFind :: "string \<Rightarrow> WallJobKind option" where
  "wallJobFind name = List.find (\<lambda>k. jk_name k = name) WALL_JOB_KINDS"

definition wallJobFindCode :: "u32 \<Rightarrow> WallJobKind option" where
  "wallJobFindCode opcode = List.find (\<lambda>k. jk_opcode k = opcode) WALL_JOB_KINDS"

definition WALL_TABLE_JOBS :: "(string \<times> u8) list" where
  "WALL_TABLE_JOBS =
     [(''pair'', 200), (''release'', 201), (''arrange'', 202), (''update'', 203), (''update-from-release'', 204),
      (''restart-units'', 205)]"

definition wallJobNumber :: "string \<Rightarrow> u8" where
  "wallJobNumber name =
     (case wallJobFind name of
        Some kind \<Rightarrow> ucast (jk_opcode kind)
      | None \<Rightarrow> (case List.find (\<lambda>j. fst j = name) WALL_TABLE_JOBS of Some j \<Rightarrow> snd j | None \<Rightarrow> 0))"

definition wallJobNumberName :: "u8 \<Rightarrow> string" where
  "wallJobNumberName number =
     (case List.find (\<lambda>j. snd j = number) WALL_TABLE_JOBS of
        Some j \<Rightarrow> fst j
      | None \<Rightarrow> (case wallJobFindCode (ucast number) of Some kind \<Rightarrow> jk_name kind | None \<Rightarrow> ''?''))"

section \<open>The master: from the request to the job\<close>

text \<open>\<open>Inl\<close> why not, \<open>Inr\<close> the job without its number.\<close>

definition job_unit :: "WallJobKind \<Rightarrow> int option \<Rightarrow> string + u32" where
  "job_unit kind unit =
     (if jk_unit kind = JU_None
      then (if unit \<noteq> None then Inl ''this job is for the whole row: leave target.unit out'' else Inr 0)
      else case unit of
             Some u \<Rightarrow> if u < 1 \<or> u > 126 then Inl ''target.unit is the unit's address, 1 to 126'' else Inr (word_of_int u)
           | None \<Rightarrow> if jk_unit kind = JU_One then Inl ''target.unit is required: the unit's address'' else Inr 0)"

definition job_arg :: "u32 \<Rightarrow> bool \<Rightarrow> int \<Rightarrow> string + u32" where
  "job_arg opcode haveUnit arg =
     (let judged = (\<lambda>v. if mv_httpStatus v \<noteq> 200 then Inl (mv_message v) else Inr (word_of_int arg)) in
      if opcode = OPC_JOG then judged (maintValidateJog arg)
      else if opcode = OPC_SET_OFFSET then judged (maintValidateOffset arg)
      else if opcode = OPC_SET_GATES then judged (maintValidateGates arg)
      else if opcode = OPC_SET_ADDRESS \<and> (arg < 1 \<or> arg > 126) then Inl ''args.address is the new address, 1 to 126''
      else if opcode = OPC_UPDATE_UNITS \<and> arg \<noteq> 0 \<and> arg \<noteq> 1 then Inl ''args.force is 1 or 0''
      else if opcode = OPC_UPDATE_UNITS \<and> arg = 1 \<and> \<not> haveUnit
      then Inl ''args.force needs target.unit: one unit at a time''
      else judged verdict_pass)"

definition wallJobBuild :: "WallJobKind \<Rightarrow> int option \<Rightarrow> int option \<Rightarrow> string + wl_Op" where
  "wallJobBuild kind unit arg =
     (case job_unit kind unit of
        Inl why \<Rightarrow> Inl why
      | Inr address \<Rightarrow>
          (let job = no_op\<lparr>wo_opcode := jk_opcode kind, wo_address := address\<rparr> in
           if jk_arg kind = None then (if arg \<noteq> None then Inl ''this job takes no args'' else Inr job)
           else case arg of
                  None \<Rightarrow> if jk_argRequired kind then Inl ''this job needs its value under args'' else Inr job
                | Some a \<Rightarrow> (case job_arg (jk_opcode kind) (unit \<noteq> None) a of
                               Inl why \<Rightarrow> Inl why
                             | Inr w \<Rightarrow> Inr (job\<lparr>wo_arg := w\<rparr>))))"

section \<open>The row: from the job to what it does\<close>

datatype wl_OpRefusal =
    REFUSAL_NONE | REFUSAL_UNKNOWN_OP | REFUSAL_BUSY | REFUSAL_RESCUE | REFUSAL_BAD_ADDRESS | REFUSAL_NO_UNIT
  | REFUSAL_UNIT_PROTOCOL | REFUSAL_BAD_ARG | REFUSAL_NO_MEMORY | REFUSAL_ADDRESS_TAKEN

fun wallJobRefusalText :: "wl_OpRefusal \<Rightarrow> string" where
  "wallJobRefusalText REFUSAL_UNKNOWN_OP = ''the row's firmware has no such job''"
| "wallJobRefusalText REFUSAL_BUSY = ''another unit job holds the row''"
| "wallJobRefusalText REFUSAL_RESCUE = ''the row is in rescue mode and leaves its units alone''"
| "wallJobRefusalText REFUSAL_BAD_ADDRESS = ''no such unit address on that row''"
| "wallJobRefusalText REFUSAL_NO_UNIT = ''no running unit at that address''"
| "wallJobRefusalText REFUSAL_UNIT_PROTOCOL = ''the unit speaks another protocol version: update it''"
| "wallJobRefusalText REFUSAL_BAD_ARG = ''the row refused the job's value''"
| "wallJobRefusalText REFUSAL_NO_MEMORY = ''the row is out of memory for this job''"
| "wallJobRefusalText REFUSAL_ADDRESS_TAKEN = ''another unit already answers at that address''"
| "wallJobRefusalText REFUSAL_NONE = ''the row refused the job''"

definition wallJobOutcomeText :: "nat \<Rightarrow> bool \<Rightarrow> MaintOutcome \<Rightarrow> MaintReason \<Rightarrow> string" where
  "wallJobOutcomeText cap ok outcome reason =
     (let why = maintReasonName reason in
      snprintf_text cap
        (if ok then (if why \<noteq> [] then why else ''ok'')
         else if outcome = MO_Pending then ''the result was lost on the board''
         else if why \<noteq> [] then maintOutcomeName outcome @ '': '' @ why else maintOutcomeName outcome))"

datatype FollowerOpKind =
    FO_None | FO_WriteOffset | FO_Jog | FO_Home | FO_Identify | FO_ResetOdometer | FO_SelfTest | FO_RebootToBootloader
  | FO_SetGates | FO_ReflashUnit | FO_BootUpdate | FO_BootInfo | FO_BootDump | FO_Probe | FO_SetAddress | FO_ClearAddress
  | FO_HomeAll

record FollowerLinkOpPlan =
  lp_refusal :: wl_OpRefusal
  lp_kind :: FollowerOpKind
  lp_addr :: u8
  lp_arg :: int

definition no_plan :: FollowerLinkOpPlan where
  "no_plan = \<lparr>lp_refusal = REFUSAL_NONE, lp_kind = FO_None, lp_addr = 0, lp_arg = 0\<rparr>"

definition followerLinkCheckUnit :: "u32 \<Rightarrow> UnitFacts list \<Rightarrow> wl_OpRefusal" where
  "followerLinkCheckUnit address units =
     (let status = mv_httpStatus (fst (maintValidateAddress (Some (snprintf_text 12 (show_dec (unat address)))) units))
      in if status = 200 then REFUSAL_NONE
         else if status = 404 then REFUSAL_NO_UNIT
         else if status = 409 then REFUSAL_UNIT_PROTOCOL
         else REFUSAL_BAD_ADDRESS)"

definition plan_refuse :: "wl_OpRefusal \<Rightarrow> FollowerLinkOpPlan" where
  "plan_refuse why = no_plan\<lparr>lp_refusal := why\<rparr>"

definition on_unit :: "u32 \<Rightarrow> int \<Rightarrow> UnitFacts list \<Rightarrow> FollowerOpKind \<Rightarrow> MaintVerdict \<Rightarrow> FollowerLinkOpPlan" where
  "on_unit address arg units kind argVerdict =
     (let unit = followerLinkCheckUnit address units
      in if unit \<noteq> REFUSAL_NONE then plan_refuse unit
         else if mv_httpStatus argVerdict \<noteq> 200 then plan_refuse REFUSAL_BAD_ARG
         else no_plan\<lparr>lp_kind := kind, lp_addr := ucast address, lp_arg := arg\<rparr>)"

definition plan_update_units :: "u32 \<Rightarrow> int \<Rightarrow> UnitFacts list \<Rightarrow> FollowerLinkOpPlan" where
  "plan_update_units address arg units =
     (if arg \<noteq> 0 \<and> arg \<noteq> 1 then plan_refuse REFUSAL_BAD_ARG
      else if address = 0 \<and> arg \<noteq> 0 then plan_refuse REFUSAL_BAD_ARG
      else if address \<noteq> 0 \<and> \<not> reflashAddressInRange (uint address) 1 (length units) then plan_refuse REFUSAL_BAD_ADDRESS
      else no_plan\<lparr>lp_kind := FO_ReflashUnit, lp_addr := ucast address, lp_arg := arg\<rparr>)"

definition plan_set_address :: "u32 \<Rightarrow> int \<Rightarrow> UnitFacts list \<Rightarrow> FollowerLinkOpPlan" where
  "plan_set_address address arg units =
     (let unit = followerLinkCheckUnit address units;
          status = mv_httpStatus (maintValidateSetAddressTarget arg (uint address) units)
      in if unit \<noteq> REFUSAL_NONE then plan_refuse unit
         else if status = 409 then plan_refuse REFUSAL_ADDRESS_TAKEN
         else if status \<noteq> 200 then plan_refuse REFUSAL_BAD_ARG
         else no_plan\<lparr>lp_kind := FO_SetAddress, lp_addr := ucast address, lp_arg := arg\<rparr>)"

definition followerLinkPlanOp :: "u32 \<Rightarrow> u32 \<Rightarrow> int \<Rightarrow> UnitFacts list \<Rightarrow> FollowerLinkOpPlan" where
  "followerLinkPlanOp opcode address arg units =
     (let unit_job = on_unit address arg units in
      if opcode = OPC_HOME then unit_job FO_Home verdict_pass
      else if opcode = OPC_IDENTIFY then unit_job FO_Identify verdict_pass
      else if opcode = OPC_JOG then unit_job FO_Jog (maintValidateJog arg)
      else if opcode = OPC_SET_OFFSET then unit_job FO_WriteOffset (maintValidateOffset arg)
      else if opcode = OPC_SELF_TEST then unit_job FO_SelfTest verdict_pass
      else if opcode = OPC_RESET_ODOMETER then unit_job FO_ResetOdometer verdict_pass
      else if opcode = OPC_SET_GATES then unit_job FO_SetGates (maintValidateGates arg)
      else if opcode = OPC_BOOT_INFO then unit_job FO_BootInfo verdict_pass
      else if opcode = OPC_BOOT_DUMP then unit_job FO_BootDump verdict_pass
      else if opcode = OPC_BOOT_UPDATE then unit_job FO_BootUpdate verdict_pass
      else if opcode = OPC_RESTART_UNIT
      then (if address < 1 \<or> address > 126 then plan_refuse REFUSAL_BAD_ADDRESS
            else no_plan\<lparr>lp_kind := FO_RebootToBootloader, lp_addr := ucast address\<rparr>)
      else if opcode = OPC_UPDATE_UNITS then plan_update_units address arg units
      else if opcode = OPC_PROBE then no_plan\<lparr>lp_kind := FO_Probe\<rparr>
      else if opcode = OPC_SET_ADDRESS then plan_set_address address arg units
      else if opcode = OPC_CLEAR_ADDRESS then unit_job FO_ClearAddress verdict_pass
      else if opcode = OPC_HOME_ALL then no_plan\<lparr>lp_kind := FO_HomeAll\<rparr>
      else plan_refuse REFUSAL_UNKNOWN_OP)"

definition followerLinkPhaseFor :: "MaintOutcome \<Rightarrow> wl_OpPhase" where
  "followerLinkPhaseFor outcome = (if outcome = MO_Pending then OP_RUNNING else if outcome = MO_Ok then OP_OK else OP_FAILED)"

definition followerLinkPieceLen :: "u32 \<Rightarrow> u32 \<Rightarrow> u32 \<Rightarrow> u32" where
  "followerLinkPieceLen whole offset pieceMax =
     (if offset \<ge> whole then 0 else if whole - offset < pieceMax then whole - offset else pieceMax)"

end
