(* ===== verification/SF_Decimal.thy ===== *)
theory SF_Decimal
  imports Maintenance
begin

text \<open>
  Decimal numbers as text: what \<open>show_dec\<close> writes, and that \<open>strtol\<close> reads it back.
\<close>

text \<open>A number written in decimal is read back by \<open>strtol\<close>.\<close>

lemma digit_facts:
  assumes "d < 10"
  shows "digit_value (digit d) = Some d" "\<not> c_space (digit d)" "digit d \<noteq> CHR ''-''" "digit d \<noteq> CHR ''+''"
    "digit d \<noteq> CHR ''x''" "digit d \<noteq> CHR ''X''" "digit d = CHR ''0'' \<longleftrightarrow> d = 0"
proof -
  have "d \<in> set [0..<10]" using assms by simp
  then have "d = 0 \<or> d = 1 \<or> d = 2 \<or> d = 3 \<or> d = 4 \<or> d = 5 \<or> d = 6 \<or> d = 7 \<or> d = 8 \<or> d = 9"
    by (simp add: upt_rec) auto
  then show "digit_value (digit d) = Some d" "\<not> c_space (digit d)" "digit d \<noteq> CHR ''-''" "digit d \<noteq> CHR ''+''"
    "digit d \<noteq> CHR ''x''" "digit d \<noteq> CHR ''X''" "digit d = CHR ''0'' \<longleftrightarrow> d = 0"
    by (elim disjE; simp add: digit_def digit_value_def c_space_def)+
qed

lemma show_dec_digits: "c \<in> set (show_dec n) \<Longrightarrow> \<exists>d < 10. c = digit d"
proof (induction n rule: show_dec.induct)
  case (1 n)
  then show ?case by (cases "n < 10") (auto simp: show_dec.simps [of n] intro: exI [of _ n] exI [of _ "n mod 10"])
qed

lemma show_dec_head: "n \<noteq> 0 \<Longrightarrow> hd (show_dec n) \<noteq> CHR ''0''"
proof (induction n rule: show_dec.induct)
  case (1 n)
  then show ?case
    using length_show_dec_pos [of "n div 10"] by (cases "n < 10") (auto simp: show_dec.simps [of n] digit_facts)
qed

lemma show_dec_value: "digits_value 10 (show_dec n) = n"
proof (induction n rule: show_dec.induct)
  case (1 n)
  then show ?case by (cases "n < 10") (simp_all add: show_dec.simps [of n] digits_value_def digit_facts)
qed

lemma strtol_show_dec:
  assumes "n < 2 ^ 31"
  shows "strtol 0 (show_dec n) = Some (int n, [])"
proof -
  let ?s = "show_dec n"
  have ne: "?s \<noteq> []" using length_show_dec_pos [of n] by auto
  have dig: "is_digit 10 c" "\<not> c_space c" "c \<noteq> CHR ''-''" "c \<noteq> CHR ''+''" "c \<noteq> CHR ''x''" "c \<noteq> CHR ''X''" if "c \<in> set ?s" for c
    using show_dec_digits [OF that] digit_facts by (auto simp: is_digit_def)
  have head: "hd ?s \<in> set ?s" using ne by simp
  have drop: "dropWhile c_space ?s = ?s" using dig(2) [OF head] ne by (cases ?s) auto
  have hex: "\<not> hex_prefix ?s"
    using dig(5,6) [of "?s ! 1"] by (auto simp: hex_prefix_def)
  have whole: "takeWhile (is_digit 10) ?s = ?s" "dropWhile (is_digit 10) ?s = []"
    using dig(1) by (simp_all add: takeWhile_eq_all_conv dropWhile_eq_Nil_conv)
  show ?thesis
  proof (cases "n = 0")
    case True
    have "strtol 0 (show_dec 0) = Some (0, [])" by code_simp
    with True show ?thesis by simp
  next
    case False
    with show_dec_head have "hd ?s \<noteq> CHR ''0''" by blast
    then show ?thesis
      using assms ne dig(3,4) [OF head] by (simp add: strtol_def drop hex whole show_dec_value clamp_long_def)
  qed
qed

end
