(* ===== verification/Row_Jobs.thy ===== *)
theory Row_Jobs
  imports Wall_Jobs SF_Decimal
begin

text \<open>
  The two ends of a unit job together: a job the master hands out is one the row knows, with a value the row
  takes, for the unit the operator named.
\<close>

lemma strtol_address: "n \<le> 126 \<Longrightarrow> strtol 0 (snprintf_text 12 (show_dec n)) = Some (int n, [])"
  using length_show_dec [of n 3] by (simp add: snprintf_text_def strtol_show_dec)

lemma address_word:
  assumes "1 \<le> u" "u \<le> 126"
  shows "uint (word_of_int u :: u32) = u" "unat (word_of_int u :: u32) = nat u"
proof -
  from assms show u: "uint (word_of_int u :: u32) = u" by (simp add: uint_word_of_int)
  then show "unat (word_of_int u :: u32) = nat u" by (simp add: unat_eq_nat_uint)
qed

lemma check_unit:
  assumes "1 \<le> u" "u \<le> 126"
  shows "followerLinkCheckUnit (word_of_int u) units =
    (if u > int (length units) \<or> uf_state (units ! nat (u - 1)) \<noteq> 1 then REFUSAL_NO_UNIT
     else if \<not> unitDrivable (units ! nat (u - 1)) then REFUSAL_UNIT_PROTOCOL else REFUSAL_NONE)"
proof -
  have "strtol 0 (snprintf_text 12 (show_dec (unat (word_of_int u :: u32)))) = Some (u, [])"
    using strtol_address [of "nat u"] assms by (simp add: address_word)
  with assms show ?thesis
    by (auto simp: followerLinkCheckUnit_def maintValidateAddress_def Let_def refuse_def verdict_pass_def not_le)
qed

lemma arg_word: "- (2 ^ 31) \<le> a \<Longrightarrow> a < 2 ^ 31 \<Longrightarrow> sint (word_of_int a :: u32) = a"
  by (simp add: sint_sbintrunc' signed_take_bit_int_eq_self)

lemma narrow_word: "(ucast (word_of_int u :: u32) :: u8) = word_of_int u"
  by transfer (simp add: take_bit_take_bit)

lemma build_unit:
  assumes "job_unit k unit = Inr address"
  shows "(jk_unit k = JU_None \<longrightarrow> unit = None \<and> address = 0) \<and> (unit = None \<longrightarrow> jk_unit k \<noteq> JU_One \<and> address = 0)
    \<and> (\<forall>u. unit = Some u \<longrightarrow> 1 \<le> u \<and> u \<le> 126 \<and> address = word_of_int u)"
  using assms by (auto simp: job_unit_def split: if_splits option.splits)

text \<open>What a job's name says the row is to do, and what a row may say to a job of the master.\<close>

definition job_work :: "WallJobKind \<Rightarrow> FollowerOpKind" where
  "job_work k = the (map_of
     [(''home'', FO_Home), (''identify'', FO_Identify), (''jog'', FO_Jog), (''set-offset'', FO_WriteOffset),
      (''self-test'', FO_SelfTest), (''restart-unit'', FO_RebootToBootloader), (''reset-odometer'', FO_ResetOdometer),
      (''set-gates'', FO_SetGates), (''boot-info'', FO_BootInfo), (''boot-dump'', FO_BootDump),
      (''boot-update'', FO_BootUpdate), (''update-units'', FO_ReflashUnit), (''probe'', FO_Probe),
      (''set-address'', FO_SetAddress), (''clear-address'', FO_ClearAddress), (''home-all'', FO_HomeAll)] (jk_name k))"

definition fair_answer :: "WallJobKind \<Rightarrow> int option \<Rightarrow> int option \<Rightarrow> UnitFacts list \<Rightarrow> FollowerLinkOpPlan \<Rightarrow> bool" where
  "fair_answer k unit arg units p \<longleftrightarrow>
     (case lp_refusal p of
        REFUSAL_NONE \<Rightarrow> lp_kind p = job_work k
          \<and> lp_addr p = (case unit of None \<Rightarrow> 0 | Some u \<Rightarrow> word_of_int u) \<and> lp_arg p = (case arg of None \<Rightarrow> 0 | Some a \<Rightarrow> a)
      | REFUSAL_NO_UNIT \<Rightarrow> (\<exists>u. unit = Some u \<and> (u > int (length units) \<or> uf_state (units ! nat (u - 1)) \<noteq> 1))
      | REFUSAL_UNIT_PROTOCOL \<Rightarrow> (\<exists>u. unit = Some u \<and> \<not> unitDrivable (units ! nat (u - 1)))
      | REFUSAL_BAD_ADDRESS \<Rightarrow> jk_opcode k = OPC_UPDATE_UNITS \<and> (\<exists>u. unit = Some u \<and> u > int (length units))
      | REFUSAL_BAD_ARG \<Rightarrow> jk_opcode k = OPC_SET_ADDRESS \<and> (\<exists>a. arg = Some a \<and> a > int (length units))
      | REFUSAL_ADDRESS_TAKEN \<Rightarrow> jk_opcode k = OPC_SET_ADDRESS \<and> (\<exists>a. arg = Some a \<and> uf_state (units ! nat (a - 1)) \<noteq> 0)
      | _ \<Rightarrow> False)"

lemma fair_on_unit:
  assumes "unit = Some u" "1 \<le> u" "u \<le> 126" "mv_httpStatus v = 200" "a = (case arg of None \<Rightarrow> 0 | Some a \<Rightarrow> a)"
  shows "fair_answer k unit arg units (on_unit (word_of_int u) a units (job_work k) v)"
  using assms
  by (auto simp: on_unit_def check_unit fair_answer_def plan_refuse_def no_plan_def narrow_word
      split: option.split)


lemma job_argD:
  assumes "job_arg opcode haveUnit a = Inr w"
  shows "w = word_of_int a" "opcode = OPC_JOG \<Longrightarrow> mv_httpStatus (maintValidateJog a) = 200"
    "opcode = OPC_SET_OFFSET \<Longrightarrow> mv_httpStatus (maintValidateOffset a) = 200"
    "opcode = OPC_SET_GATES \<Longrightarrow> mv_httpStatus (maintValidateGates a) = 200"
    "opcode = OPC_SET_ADDRESS \<Longrightarrow> 1 \<le> a \<and> a \<le> 126"
    "opcode = OPC_UPDATE_UNITS \<Longrightarrow> (a = 0 \<or> a = 1) \<and> (a = 1 \<longrightarrow> haveUnit)"
  using assms by (auto simp: job_arg_def Let_def opcode_defs split: if_splits)

text \<open>What a row makes of the jobs of the master's table.\<close>

lemma plan_shapes:
  assumes "k \<in> set WALL_JOB_KINDS"
    and "plan = followerLinkPlanOp (jk_opcode k) address a units"
  shows "jk_unit k = JU_One \<and> plan = on_unit address a units (job_work k) verdict_pass
    \<or> jk_unit k = JU_One \<and> jk_argRequired k \<and> jk_arg k \<noteq> None
        \<and> (\<exists>v. plan = on_unit address a units (job_work k) v
               \<and> (\<forall>haveUnit w. job_arg (jk_opcode k) haveUnit a = Inr w \<longrightarrow> mv_httpStatus v = 200))
    \<or> jk_opcode k = OPC_SET_ADDRESS \<and> job_work k = FO_SetAddress \<and> jk_unit k = JU_One \<and> jk_argRequired k \<and> jk_arg k \<noteq> None
        \<and> plan = plan_set_address address a units
    \<or> job_work k = FO_RebootToBootloader \<and> jk_unit k = JU_One \<and> jk_arg k = None
        \<and> plan = (if address < 1 \<or> address > 126 then plan_refuse REFUSAL_BAD_ADDRESS
                  else no_plan\<lparr>lp_kind := FO_RebootToBootloader, lp_addr := ucast address\<rparr>)
    \<or> jk_opcode k = OPC_UPDATE_UNITS \<and> job_work k = FO_ReflashUnit \<and> plan = plan_update_units address a units
    \<or> jk_unit k = JU_None \<and> jk_arg k = None \<and> plan = no_plan\<lparr>lp_kind := job_work k\<rparr>"
proof -
  have "job_arg 3 h a = Inr w \<Longrightarrow> mv_httpStatus (maintValidateJog a) = 200"
    "job_arg 4 h a = Inr w \<Longrightarrow> mv_httpStatus (maintValidateOffset a) = 200"
    "job_arg 8 h a = Inr w \<Longrightarrow> mv_httpStatus (maintValidateGates a) = 200" for h w
    by (auto dest: job_argD(2-4) simp: opcode_defs)
  then show ?thesis
    using assms(1) unfolding assms(2) WALL_JOB_KINDS_def list.set insert_iff empty_iff
    by (elim disjE) (simp_all add: job_kind_def job_work_def followerLinkPlanOp_def opcode_defs, blast+)
qed

text \<open>What the master has put into a job it accepted.\<close>

lemma built_job:
  assumes "wallJobBuild k unit arg = Inr job" "\<forall>a. arg = Some a \<longrightarrow> - (2 ^ 31) \<le> a \<and> a < 2 ^ 31"
    and "a = (case arg of None \<Rightarrow> 0 | Some a \<Rightarrow> a)"
  shows "job_unit k unit = Inr (wo_address job)" "wo_opcode job = jk_opcode k" "sint (wo_arg job) = a"
    and "jk_arg k = None \<longrightarrow> a = 0" "arg = None \<longrightarrow> a = 0 \<and> \<not> (jk_argRequired k \<and> jk_arg k \<noteq> None)"
    and "arg \<noteq> None \<longrightarrow> arg = Some a \<and> job_arg (jk_opcode k) (unit \<noteq> None) a = Inr (wo_arg job)"
proof -
  from assms(1) obtain address where u: "job_unit k unit = Inr address" by (auto simp: wallJobBuild_def split: sum.splits)
  with assms(1) show "job_unit k unit = Inr (wo_address job)" "wo_opcode job = jk_opcode k"
    by (auto simp: wallJobBuild_def Let_def no_op_def split: if_splits option.splits sum.splits)
  have none: "wo_arg job = 0 \<and> \<not> (jk_argRequired k \<and> jk_arg k \<noteq> None)" if "arg = None"
    using assms(1) u that by (auto simp: wallJobBuild_def Let_def no_op_def split: if_splits)
  have some: "jk_arg k \<noteq> None \<and> job_arg (jk_opcode k) (unit \<noteq> None) b = Inr (wo_arg job)" if "arg = Some b" for b
    using assms(1) u that by (auto simp: wallJobBuild_def Let_def no_op_def split: if_splits sum.splits)
  show "jk_arg k = None \<longrightarrow> a = 0" "arg = None \<longrightarrow> a = 0 \<and> \<not> (jk_argRequired k \<and> jk_arg k \<noteq> None)"
    "arg \<noteq> None \<longrightarrow> arg = Some a \<and> job_arg (jk_opcode k) (unit \<noteq> None) a = Inr (wo_arg job)"
    using none some assms(3) by (auto split: option.splits)
  show "sint (wo_arg job) = a"
    using none some assms(2,3) job_argD(1) arg_word by (cases arg) (auto, metis)
qed

lemma one_unit:
  assumes "job_unit k unit = Inr address" "jk_unit k = JU_One"
  obtains u where "unit = Some u" "1 \<le> u" "u \<le> 126" "address = word_of_int u"
  using build_unit [OF assms(1)] assms(2) by (cases unit) auto

lemma fair_set_address:
  assumes "unit = Some u" "1 \<le> u" "u \<le> 126" "arg = Some a" "1 \<le> a" "a \<le> 126"
    and "jk_opcode k = OPC_SET_ADDRESS" "job_work k = FO_SetAddress"
  shows "fair_answer k unit arg units (plan_set_address (word_of_int u) a units)"
  using assms
  by (auto simp: plan_set_address_def Let_def check_unit fair_answer_def plan_refuse_def no_plan_def narrow_word
      maintValidateSetAddressTarget_def refuse_def verdict_pass_def)

lemma fair_update_units:
  assumes "job_unit k unit = Inr address" "a = 0 \<or> a = 1 \<and> unit \<noteq> None" "a = (case arg of None \<Rightarrow> 0 | Some a \<Rightarrow> a)"
    and "jk_opcode k = OPC_UPDATE_UNITS" "job_work k = FO_ReflashUnit"
  shows "fair_answer k unit arg units (plan_update_units address a units)"
proof (cases unit)
  case None
  then have "address = 0" using build_unit [OF assms(1)] by simp
  with None assms(2-5) show ?thesis
    by (auto simp: plan_update_units_def fair_answer_def no_plan_def split: option.splits)
next
  case (Some v)
  with build_unit [OF assms(1)] have v: "1 \<le> v" "v \<le> 126" "address = word_of_int v" by auto
  then have "address \<noteq> 0" using address_word(1) [of v] by auto
  with Some v assms(2-5) show ?thesis
    by (auto simp: plan_update_units_def fair_answer_def no_plan_def plan_refuse_def reflashAddressInRange_def address_word
        narrow_word split: option.splits)
qed

text \<open>C36: A unit job the master accepts from an operator is one the row knows: the row takes it as
  the work its name says, for the same unit with the same value, or refuses it for what only the row can know, that no running unit is there, that
  it speaks another protocol, or that the row has no such place or it is taken.\<close>
theorem master_jobs_are_understood:
  assumes "k \<in> set WALL_JOB_KINDS" "wallJobBuild k unit arg = Inr job"
    and "\<forall>a. arg = Some a \<longrightarrow> - (2 ^ 31) \<le> a \<and> a < 2 ^ 31"
  shows "fair_answer k unit arg units (followerLinkPlanOp (wo_opcode job) (wo_address job) (sint (wo_arg job)) units)"
proof -
  define a where "a = (case arg of None \<Rightarrow> 0 | Some a \<Rightarrow> a)"
  note b = built_job [OF assms(2,3) a_def]
  note one = one_unit [OF b(1)]
  have on: "fair_answer k unit arg units (on_unit (wo_address job) a units (job_work k) v)"
    if k: "jk_unit k = JU_One" and v: "mv_httpStatus v = 200" for v
  proof -
    obtain u where "unit = Some u" "1 \<le> u" "u \<le> 126" "wo_address job = word_of_int u" by (rule one [OF k])
    with fair_on_unit [OF this(1-3) v a_def] show ?thesis by simp
  qed
  have judged: "arg = Some a \<and> job_arg (jk_opcode k) (unit \<noteq> None) a = Inr (wo_arg job)" if "jk_argRequired k" "jk_arg k \<noteq> None"
    using b(5,6) that by blast
  from plan_shapes [OF assms(1) refl, of "wo_address job" a units]
  show ?thesis unfolding b(2,3)
  proof (elim disjE conjE exE)
    assume k: "jk_opcode k = OPC_SET_ADDRESS" "job_work k = FO_SetAddress" "jk_unit k = JU_One" "jk_argRequired k" "jk_arg k \<noteq> None"
      and plan: "followerLinkPlanOp (jk_opcode k) (wo_address job) a units = plan_set_address (wo_address job) a units"
    note j = judged [OF k(4,5)]
    show "fair_answer k unit arg units (followerLinkPlanOp (jk_opcode k) (wo_address job) a units)"
      using one [OF k(3)] fair_set_address [of unit _ arg a k units] j job_argD(5) [OF conjunct2 [OF j] k(1)] k(1,2) plan
      by metis
  next
    assume k: "job_work k = FO_RebootToBootloader" "jk_unit k = JU_One" "jk_arg k = None"
      and plan: "followerLinkPlanOp (jk_opcode k) (wo_address job) a units = (if wo_address job < 1 \<or> wo_address job > 126
        then plan_refuse REFUSAL_BAD_ADDRESS else no_plan\<lparr>lp_kind := FO_RebootToBootloader, lp_addr := ucast (wo_address job)\<rparr>)"
    from one [OF k(2)] obtain v where v: "unit = Some v" "1 \<le> v" "v \<le> 126" "wo_address job = word_of_int v" by metis
    then have "\<not> (wo_address job < 1 \<or> wo_address job > 126)" by (simp add: word_less_alt address_word)
    then show "fair_answer k unit arg units (followerLinkPlanOp (jk_opcode k) (wo_address job) a units)"
      unfolding plan using v k b(4) a_def by (auto simp: fair_answer_def no_plan_def narrow_word split: option.splits)
  next
    assume k: "jk_opcode k = OPC_UPDATE_UNITS" "job_work k = FO_ReflashUnit"
      and plan: "followerLinkPlanOp (jk_opcode k) (wo_address job) a units = plan_update_units (wo_address job) a units"
    have "a = 0 \<or> a = 1 \<and> unit \<noteq> None"
      using b(5,6) job_argD(6) [of "jk_opcode k" "unit \<noteq> None" a, OF _ k(1)] by (cases arg) auto
    then show "fair_answer k unit arg units (followerLinkPlanOp (jk_opcode k) (wo_address job) a units)"
      unfolding plan by (rule fair_update_units [OF b(1) _ a_def k])
  next
    assume k: "jk_unit k = JU_None" "jk_arg k = None"
      and plan: "followerLinkPlanOp (jk_opcode k) (wo_address job) a units = no_plan\<lparr>lp_kind := job_work k\<rparr>"
    have "unit = None" using build_unit [OF b(1)] k(1) by simp
    with k(2) b(4) a_def show "fair_answer k unit arg units (followerLinkPlanOp (jk_opcode k) (wo_address job) a units)"
      unfolding plan by (auto simp: fair_answer_def no_plan_def split: option.splits)
  qed (use on judged in \<open>auto simp: verdict_pass_def\<close>)
qed

text \<open>Unit 3 asked to move 20 steps back, on a row that holds no units.\<close>

theorem master_jobs_are_understood_witness:
  "fair_answer (WALL_JOB_KINDS ! 2) (Some 3) (Some (-20)) [] (followerLinkPlanOp OPC_JOG 3 (-20) [])"
proof -
  have "wallJobBuild (WALL_JOB_KINDS ! 2) (Some 3) (Some (-20)) = Inr (no_op\<lparr>wo_opcode := OPC_JOG, wo_address := 3, wo_arg := - 20\<rparr>)"
    by (simp add: WALL_JOB_KINDS_def job_kind_def wallJobBuild_def job_unit_def job_arg_def maintValidateJog_def verdict_pass_def Let_def)
  from master_jobs_are_understood [OF _ this, of "[]"] show ?thesis
    by (simp add: WALL_JOB_KINDS_def no_op_def)
qed

text \<open>A job's number in the event record names it again.\<close>

lemma job_numbers_name_jobs:
  "\<forall>name \<in> set (map jk_name WALL_JOB_KINDS @ map fst WALL_TABLE_JOBS). wallJobNumberName (wallJobNumber name) = name"
  by code_simp

end
