(* ===== verification/Wall_Table.thy ===== *)
theory Wall_Table
  imports Wall_Layout SF_Decimal
begin

text \<open>
  The boards of a wall as the master stores them (Master/WallRows.h), with their hostnames
  (link/WallLinkNames.h), the check of a board's name (Master/DeviceIdentity.h) and of a private address
  (shared/LanOrigin.h). A table is the list of its rows in use; the scan of a stored string for separators
  is a split at them.
\<close>

section \<open>Names and addresses\<close>

definition DEVICE_NAME_MAX_LEN :: nat where "DEVICE_NAME_MAX_LEN = 24"
definition CLUSTER_HOST_MAX_LEN :: nat where "CLUSTER_HOST_MAX_LEN = 40"
definition WALL_ROW_ID_MAX :: nat where "WALL_ROW_ID_MAX = 32"
definition HOST_NAME_MAX :: nat where "HOST_NAME_MAX = 24"

definition label_char :: "char \<Rightarrow> bool" where
  "label_char c \<longleftrightarrow> (let n = of_char c :: nat in (97 \<le> n \<and> n \<le> 122) \<or> (48 \<le> n \<and> n \<le> 57) \<or> c = CHR ''-'')"

definition isValidDeviceName :: "string \<Rightarrow> bool" where
  "isValidDeviceName name \<longleftrightarrow> \<not> (length name < 1 \<or> length name > DEVICE_NAME_MAX_LEN)
     \<and> \<not> (hd name = CHR ''-'' \<or> last name = CHR ''-'') \<and> list_all label_char name"

definition wallHostNameValid :: "string option \<Rightarrow> bool" where
  "wallHostNameValid name =
     (case name of
        None \<Rightarrow> False
      | Some s \<Rightarrow> \<not> (length s = 0 \<or> length s > HOST_NAME_MAX) \<and> \<not> (hd s = CHR ''-'' \<or> last s = CHR ''-'')
          \<and> list_all label_char s)"

text \<open>The name written, empty when the place is no place or the buffer too small.\<close>

definition wallRowHostName :: "int \<Rightarrow> int \<Rightarrow> bool \<Rightarrow> nat \<Rightarrow> string" where
  "wallRowHostName row col shared cap =
     (if cap = 0 \<or> row < 1 \<or> row > 256 \<or> col < 1 \<or> col > 256 then []
      else let s = ''split-flap-row'' @ show_dec (nat row) @ (if shared then ''-c'' @ show_dec (nat col) else [])
           in if length s \<ge> cap \<or> length s > HOST_NAME_MAX then [] else s)"

definition dec_digit :: "char \<Rightarrow> bool" where
  "dec_digit c \<longleftrightarrow> 48 \<le> (of_char c :: nat) \<and> (of_char c :: nat) \<le> 57"

definition dec_value :: "char \<Rightarrow> nat" where
  "dec_value c = (of_char c :: nat) - 48"

text \<open>A private dotted quad: the loop over the host and a final dot.\<close>

fun lan_octets :: "string \<Rightarrow> nat \<Rightarrow> nat \<Rightarrow> nat list \<Rightarrow> nat list option" where
  "lan_octets [] value' digits octets = Some octets"
| "lan_octets (c # s) value' digits octets =
     (if c = CHR ''.''
      then if digits = 0 \<or> digits > 3 \<or> length octets \<ge> 4 then None else lan_octets s 0 0 (octets @ [value'])
      else if dec_digit c
      then if value' * 10 + dec_value c > 255 then None else lan_octets s (value' * 10 + dec_value c) (digits + 1) octets
      else None)"

definition lanPrivateIpv4 :: "string \<Rightarrow> bool" where
  "lanPrivateIpv4 host =
     (case lan_octets (host @ ''.'') 0 0 [] of
        None \<Rightarrow> False
      | Some o4 \<Rightarrow> length o4 = 4
          \<and> (o4 ! 0 = 10 \<or> o4 ! 0 = 127 \<or> (o4 ! 0 = 192 \<and> o4 ! 1 = 168) \<or> (o4 ! 0 = 172 \<and> 16 \<le> o4 ! 1 \<and> o4 ! 1 \<le> 31)))"

fun read_octet :: "nat \<Rightarrow> string \<Rightarrow> (nat \<times> string) option" where
  "read_octet value' [] = Some (value', [])"
| "read_octet value' (c # s) =
     (if dec_digit c then if value' * 10 + dec_value c > 255 then None else read_octet (value' * 10 + dec_value c) s
      else Some (value', c # s))"

fun host_octets :: "nat \<Rightarrow> string \<Rightarrow> nat list \<Rightarrow> (nat list \<times> string) option" where
  "host_octets 0 s out = Some (out, s)"
| "host_octets (Suc k) s out =
     (if s = [] \<or> \<not> dec_digit (hd s) then None
      else if hd s = CHR ''0'' \<and> tl s \<noteq> [] \<and> dec_digit (hd (tl s)) then None
      else case read_octet 0 s of
             None \<Rightarrow> None
           | Some (v, rest) \<Rightarrow>
               if k = 0 then Some (out @ [v], rest)
               else if rest = [] \<or> hd rest \<noteq> CHR ''.'' then None
               else host_octets k (tl rest) (out @ [v]))"

definition wallRowHostParse :: "string \<Rightarrow> bytes option" where
  "wallRowHostParse host =
     (case host_octets 4 host [] of
        None \<Rightarrow> None
      | Some (o4, rest) \<Rightarrow>
          if rest = [] \<and> o4 ! 0 \<noteq> 127 \<and> lanPrivateIpv4 host then Some (map of_nat o4) else None)"

section \<open>The table\<close>

record WallRowDef =
  rd_id :: string
  rd_host :: string
  rd_row :: u8
  rd_col :: u8
  rd_width :: u8

definition no_row :: WallRowDef where
  "no_row = \<lparr>rd_id = [], rd_host = [], rd_row = 0, rd_col = 0, rd_width = 0\<rparr>"

type_synonym WallRowsTable = "WallRowDef list"

definition wallRowIsOwn :: "WallRowDef \<Rightarrow> bool" where
  "wallRowIsOwn d \<longleftrightarrow> rd_id d = []"

definition index_of :: "('a \<Rightarrow> bool) \<Rightarrow> 'a list \<Rightarrow> nat option" where
  "index_of P xs = List.find (\<lambda>i. P (xs ! i)) [0..<length xs]"

definition wallRowsFind :: "WallRowsTable \<Rightarrow> string \<Rightarrow> nat option" where
  "wallRowsFind table name = (if name = [] then None else index_of (\<lambda>d. rd_id d = name) table)"

definition wallRowsOwn :: "WallRowsTable \<Rightarrow> nat option" where
  "wallRowsOwn table = index_of wallRowIsOwn table"

section \<open>The stored form\<close>

definition row_to_string :: "WallRowDef \<Rightarrow> string" where
  "row_to_string d = rd_id d @ ''|'' @ rd_host d @ ''|'' @ show_dec (unat (rd_row d)) @ ''|'' @ show_dec (unat (rd_col d))
     @ ''|'' @ show_dec (unat (rd_width d))"

fun join :: "string \<Rightarrow> string list \<Rightarrow> string" where
  "join sep [] = []"
| "join sep [s] = s"
| "join sep (s # ss) = s @ sep @ join sep ss"

definition wallRowsToString :: "WallRowsTable \<Rightarrow> string" where
  "wallRowsToString table = join '';'' (map row_to_string table)"

fun split_at :: "char \<Rightarrow> string \<Rightarrow> string list" where
  "split_at c [] = [[]]"
| "split_at c (d # s) = (if d = c then [] # split_at c s else (d # hd (split_at c s)) # tl (split_at c s))"

definition wallRowsParseByte :: "string \<Rightarrow> u8 option" where
  "wallRowsParseByte field =
     (if length field = 0 \<or> length field > 3 \<or> \<not> list_all dec_digit field then None
      else let v = foldl (\<lambda>v c. v * 10 + dec_value c) 0 field in if v > 255 then None else Some (of_nat v))"

definition row_from_string :: "string \<Rightarrow> WallRowDef option" where
  "row_from_string entry =
     (case split_at (CHR ''|'') entry of
        [name, host, row, col, width] \<Rightarrow>
          if length name > WALL_ROW_ID_MAX \<or> length host > CLUSTER_HOST_MAX_LEN then None
          else (case (wallRowsParseByte row, wallRowsParseByte col, wallRowsParseByte width) of
                  (Some r, Some c, Some w) \<Rightarrow> Some \<lparr>rd_id = name, rd_host = host, rd_row = r, rd_col = c, rd_width = w\<rparr>
                | _ \<Rightarrow> None)
      | _ \<Rightarrow> None)"

fun all_some :: "'a option list \<Rightarrow> 'a list option" where
  "all_some [] = Some []"
| "all_some (x # xs) = (case x of None \<Rightarrow> None | Some y \<Rightarrow> map_option ((#) y) (all_some xs))"

definition wallRowsFromString :: "string \<Rightarrow> WallRowsTable option" where
  "wallRowsFromString stored =
     (if stored = [] then Some []
      else let entries = split_at (CHR '';'') stored
           in if length entries > CLUSTER_MAX_MEMBERS then None else all_some (map row_from_string entries))"

section \<open>The grid\<close>

definition row_member :: "WallRowDef \<Rightarrow> ClusterMemberDef" where
  "row_member d = \<lparr>cm_host = (if wallRowIsOwn d then [] else ''row''), cm_row = rd_row d, cm_col = rd_col d, cm_width = rd_width d\<rparr>"

definition wallRowsLayout :: "WallRowsTable \<Rightarrow> ClusterMemberTable" where
  "wallRowsLayout table = \<lparr>ct_count = of_nat (length table),
     ct_members = map row_member table @ replicate (CLUSTER_MAX_MEMBERS - length table) \<lparr>cm_host = [], cm_row = 0, cm_col = 0, cm_width = 0\<rparr>\<rparr>"

fun rows_fault :: "bool \<Rightarrow> WallRowDef list \<Rightarrow> WallRowDef list \<Rightarrow> string option" where
  "rows_fault own earlier [] = None"
| "rows_fault own earlier (d # ds) =
     (if wallRowIsOwn d
      then if own then Some ''Only one row can be the master's own''
           else if rd_host d \<noteq> [] then Some ''The master's own row has no address''
           else rows_fault True (earlier @ [d]) ds
      else if \<not> isValidDeviceName (rd_id d) then Some ''A row id is not a board name''
      else if wallRowHostParse (rd_host d) = None then Some ''A row's address is not on the local network''
      else if rd_id d \<in> rd_id ` set earlier then Some ''Two rows carry the same id''
      else rows_fault own (earlier @ [d]) ds)"

definition wallRowsValidate :: "WallRowsTable \<Rightarrow> ClusterVerdict \<times> ClusterGrid" where
  "wallRowsValidate table =
     (case rows_fault False [] table of
        Some why \<Rightarrow> (\<lparr>cv_ok = False, cv_message = why\<rparr>, empty_grid)
      | None \<Rightarrow> validateMemberTable (wallRowsLayout table))"

section \<open>Changing the table\<close>

record WallRowPlace =
  pl_row :: int
  pl_col :: int
  pl_width :: int

definition judged_rows :: "WallRowsTable \<Rightarrow> string + WallRowsTable" where
  "judged_rows next =
     (let v = fst (wallRowsValidate next) in if cv_ok v then Inr next else Inl (cv_message v))"

definition wallRowsWithPaired :: "WallRowsTable \<Rightarrow> string \<Rightarrow> string \<Rightarrow> int \<Rightarrow> WallRowPlace \<Rightarrow> int \<Rightarrow> string + WallRowsTable" where
  "wallRowsWithPaired table name host reportedWidth place ownWidth =
     (if length name > WALL_ROW_ID_MAX \<or> length host > CLUSTER_HOST_MAX_LEN then Inl ''A row id is not a board name''
      else let next = (if table = [] \<and> ownWidth > 0 then [no_row\<lparr>rd_width := word_of_int ownWidth\<rparr>] else table)
           in case wallRowsFind next name of
                Some i \<Rightarrow> judged_rows (next[i := (next ! i)\<lparr>rd_host := host\<rparr>])
              | None \<Rightarrow>
                  if length next \<ge> CLUSTER_MAX_MEMBERS then Inl ''A Split-Flap has at most 8 boards''
                  else let below = fold (\<lambda>d b. max b (int (unat (rd_row d)) + 1)) next 0;
                           row = (if pl_row place \<ge> 0 then pl_row place else below);
                           col = (if pl_col place \<ge> 0 then pl_col place else 0);
                           width = (if pl_width place \<ge> 0 then pl_width place else reportedWidth)
                       in if width \<le> 0 then Inl ''A row without units has no place on the wall''
                          else if row > 255 \<or> col > 255 \<or> width > 255 then Inl ''Row index beyond the member cap''
                          else judged_rows (next @ [\<lparr>rd_id = name, rd_host = host, rd_row = word_of_int row,
                                 rd_col = word_of_int col, rd_width = word_of_int width\<rparr>]))"

definition close_up :: "u8 \<Rightarrow> WallRowsTable \<Rightarrow> WallRowsTable" where
  "close_up gone rows = map (\<lambda>d. if rd_row d > gone then d\<lparr>rd_row := rd_row d - 1\<rparr> else d) rows"

definition wallRowsWithout :: "WallRowsTable \<Rightarrow> string \<Rightarrow> string + WallRowsTable" where
  "wallRowsWithout table name =
     (case wallRowsFind table name of
        None \<Rightarrow> Inl ''No such row''
      | Some i \<Rightarrow>
          (let gone = rd_row (table ! i);
               next = take i table @ drop (i + 1) table;
               next = (if list_ex (\<lambda>d. rd_row d = gone) next then next else close_up gone next)
           in if next = [] \<or> (length next = 1 \<and> wallRowIsOwn (hd next)) then Inr [] else judged_rows next))"

section \<open>Names from places\<close>

definition wallRowsHostName :: "WallRowsTable \<Rightarrow> nat option \<Rightarrow> nat \<Rightarrow> string" where
  "wallRowsHostName table at cap =
     (case at of
        None \<Rightarrow> []
      | Some i \<Rightarrow>
          if cap = 0 \<or> i \<ge> length table then []
          else let d = table ! i;
                   shared = list_ex (\<lambda>j. j \<noteq> i \<and> rd_row (table ! j) = rd_row d) [0..<length table]
               in wallRowHostName (int (unat (rd_row d)) + 1) (int (unat (rd_col d)) + 1) shared cap)"

definition wallRowsOwnHostName :: "WallRowsTable \<Rightarrow> nat \<Rightarrow> string" where
  "wallRowsOwnHostName table cap =
     (if table = [] then wallRowHostName 1 1 False cap else wallRowsHostName table (wallRowsOwn table) cap)"

end
