(* ===== verification/Wall_Stored.thy ===== *)
theory Wall_Stored
  imports Wall_Table
begin

text \<open>
  A table of boards survives its storage, and the names its places give tell the boards apart.
\<close>

section \<open>Storage\<close>

lemma split_at_not_Nil [simp]: "split_at c s \<noteq> []"
  by (cases s) simp_all

lemma split_at_plain: "c \<notin> set s \<Longrightarrow> split_at c s = [s]"
  by (induction s) auto

lemma split_at_append: "c \<notin> set s \<Longrightarrow> split_at c (s @ c # t) = s # split_at c t"
  by (induction s) auto

lemma split_at_join: "ss \<noteq> [] \<Longrightarrow> \<forall>s \<in> set ss. c \<notin> set s \<Longrightarrow> split_at c (join [c] ss) = ss"
proof (induction "[c]" ss rule: join.induct)
  case (3 s t ss)
  then show ?case by (simp add: split_at_append)
qed (simp_all add: split_at_plain)

lemma dec_digit_digit: "d < 10 \<Longrightarrow> dec_digit (digit d) \<and> dec_value (digit d) = d"
proof -
  assume "d < 10"
  then have "d \<in> set [0..<10]" by simp
  then have "d = 0 \<or> d = 1 \<or> d = 2 \<or> d = 3 \<or> d = 4 \<or> d = 5 \<or> d = 6 \<or> d = 7 \<or> d = 8 \<or> d = 9"
    by (simp add: upt_rec) auto
  then show ?thesis by (elim disjE; simp add: digit_def dec_digit_def dec_value_def)
qed

lemma show_dec_plain: "c \<in> set (show_dec n) \<Longrightarrow> dec_digit c \<and> c \<noteq> CHR ''|'' \<and> c \<noteq> CHR '';''"
proof -
  assume "c \<in> set (show_dec n)"
  with show_dec_digits [of c n] dec_digit_digit have "dec_digit c" by blast
  then show ?thesis by (auto simp: dec_digit_def)
qed

lemma dec_value_show: "foldl (\<lambda>v c. v * 10 + dec_value c) 0 (show_dec n) = n"
proof (induction n rule: show_dec.induct)
  case (1 n)
  then show ?case by (cases "n < 10") (simp_all add: show_dec.simps [of n] dec_digit_digit)
qed

lemma parse_byte_show: "wallRowsParseByte (show_dec (unat (b :: u8))) = Some b"
proof -
  have "unat b < 256" using unsigned_less [of b, where 'a = nat] by simp
  then show ?thesis
    using length_show_u8 [of b] length_show_dec_pos [of "unat b"] show_dec_plain
    by (auto simp: wallRowsParseByte_def list_all_iff dec_value_show)
qed

definition storable :: "WallRowDef \<Rightarrow> bool" where
  "storable d \<longleftrightarrow> set (rd_id d) \<inter> {CHR ''|'', CHR '';''} = {} \<and> set (rd_host d) \<inter> {CHR ''|'', CHR '';''} = {}
     \<and> length (rd_id d) \<le> WALL_ROW_ID_MAX \<and> length (rd_host d) \<le> CLUSTER_HOST_MAX_LEN"

lemma row_round_trip: "storable d \<Longrightarrow> row_from_string (row_to_string d) = Some d"
proof -
  assume d: "storable d"
  have plain: "CHR ''|'' \<notin> set (show_dec n)" for n using show_dec_plain by blast
  have "split_at (CHR ''|'') (row_to_string d) =
      [rd_id d, rd_host d, show_dec (unat (rd_row d)), show_dec (unat (rd_col d)), show_dec (unat (rd_width d))]"
    using d plain by (simp add: row_to_string_def split_at_append split_at_plain storable_def)
  with d show ?thesis by (simp add: row_from_string_def parse_byte_show storable_def)
qed

lemma all_some_map: "\<forall>x \<in> set xs. f x = Some (g x) \<Longrightarrow> all_some (map f xs) = Some (map g xs)"
  by (induction xs) auto

lemma table_round_trip:
  assumes "\<forall>d \<in> set table. storable d" "length table \<le> CLUSTER_MAX_MEMBERS"
  shows "wallRowsFromString (wallRowsToString table) = Some table"
proof (cases "table = []")
  case True
  then show ?thesis by (simp add: wallRowsToString_def wallRowsFromString_def)
next
  case False
  have plain: "CHR '';'' \<notin> set (show_dec n)" for n using show_dec_plain by blast
  have "split_at (CHR '';'') (wallRowsToString table) = map row_to_string table"
    unfolding wallRowsToString_def using False assms(1) plain
    by (intro split_at_join) (auto simp: row_to_string_def storable_def)
  moreover have "wallRowsToString table \<noteq> []"
    using False by (cases table; cases "tl table") (auto simp: wallRowsToString_def row_to_string_def)
  ultimately show ?thesis
    using assms all_some_map [of table "row_from_string \<circ> row_to_string" "\<lambda>d. d"] row_round_trip
    by (auto simp: wallRowsFromString_def Let_def comp_def)
qed

text \<open>A checked table is storable: names are labels and addresses are dotted quads.\<close>

lemma lan_octets_chars: "lan_octets s v k octets = Some out \<Longrightarrow> c \<in> set s \<Longrightarrow> c = CHR ''.'' \<or> dec_digit c"
  by (induction s v k octets rule: lan_octets.induct) (auto split: if_splits)

lemma lan_octets_length:
  assumes "lan_octets s v k octets = Some out" "s \<noteq> []" "last s = CHR ''.''"
  shows "length octets < length out \<and> length s + k \<le> 4 * (length out - length octets)"
  using assms
proof (induction s v k octets rule: lan_octets.induct)
  case (2 c s v k octets)
  show ?case
  proof (cases "s = []")
    case True
    with 2(3,5) show ?thesis by (auto split: if_splits)
  next
    case False
    with 2(5) have s: "last s = CHR ''.''" by simp
    show ?thesis
    proof (cases "c = CHR ''.''")
      case True
      with 2(3) have k: "k \<le> 3" "lan_octets s 0 0 (octets @ [v]) = Some out" by (auto split: if_splits)
      have "length (octets @ [v]) < length out \<and> length s + 0 \<le> 4 * (length out - length (octets @ [v]))"
        by (rule 2(1)) (use True 2(3) k False s in \<open>auto split: if_splits\<close>)
      with k show ?thesis by auto
    next
      case other: False
      with 2(3) have "lan_octets s (v * 10 + dec_value c) (k + 1) octets = Some out" by (auto split: if_splits)
      with 2(2) 2(3) other False s show ?thesis by (auto split: if_splits)
    qed
  qed
qed simp

lemma host_storable:
  assumes "wallRowHostParse host \<noteq> None"
  shows "set host \<inter> {CHR ''|'', CHR '';''} = {} \<and> length host \<le> CLUSTER_HOST_MAX_LEN"
proof -
  from assms have "lanPrivateIpv4 host" by (auto simp: wallRowHostParse_def split: option.splits if_splits)
  then obtain out where out: "lan_octets (host @ ''.'') 0 0 [] = Some out" "length out = 4"
    by (auto simp: lanPrivateIpv4_def split: option.splits)
  from lan_octets_length [OF out(1)] out(2) have "length host \<le> 15" by simp
  moreover have "c = CHR ''.'' \<or> dec_digit c" if "c \<in> set host" for c
    using lan_octets_chars [OF out(1), of c] that by auto
  from this [of "CHR ''|''"] this [of "CHR '';''"] have "set host \<inter> {CHR ''|'', CHR '';''} = {}"
    by (auto simp: dec_digit_def)
  ultimately show ?thesis by (simp add: CLUSTER_HOST_MAX_LEN_def)
qed

lemma name_storable:
  assumes "isValidDeviceName name"
  shows "set name \<inter> {CHR ''|'', CHR '';''} = {} \<and> length name \<le> WALL_ROW_ID_MAX"
  using assms by (auto simp: isValidDeviceName_def list_all_iff label_char_def Let_def WALL_ROW_ID_MAX_def DEVICE_NAME_MAX_LEN_def)

lemma rows_fault_rows:
  assumes "rows_fault own earlier ds = None" "d \<in> set ds"
  shows "if wallRowIsOwn d then rd_host d = [] else isValidDeviceName (rd_id d) \<and> wallRowHostParse (rd_host d) \<noteq> None"
  using assms by (induction own earlier ds rule: rows_fault.induct) (auto split: if_splits)


text \<open>C35: Every table the master accepts is read back from its stored form exactly as it was, names, addresses
  and places, whatever the boards are called.\<close>
theorem accepted_table_is_read_back:
  assumes "cv_ok (fst (wallRowsValidate table))" "length table < 256"
  shows "wallRowsFromString (wallRowsToString table) = Some table"
proof (rule table_round_trip)
  from assms(1) have none: "rows_fault False [] table = None" and ok: "cv_ok (fst (validateMemberTable (wallRowsLayout table)))"
    by (auto simp: wallRowsValidate_def split: option.splits)
  show "\<forall>d \<in> set table. storable d"
  proof
    fix d
    assume "d \<in> set table"
    with rows_fault_rows [OF none] have
      "if wallRowIsOwn d then rd_host d = [] else isValidDeviceName (rd_id d) \<and> wallRowHostParse (rd_host d) \<noteq> None" .
    with name_storable host_storable show "storable d"
      by (auto simp: storable_def wallRowIsOwn_def split: if_splits)
  qed
  have "unat (of_nat (length table) :: u8) = length table" using assms(2) by (simp add: unat_of_nat)
  with ok show "length table \<le> CLUSTER_MAX_MEMBERS"
    by (auto simp: validateMemberTable_def wallRowsLayout_def Let_def not_less split: if_splits)
qed

definition demo_rows :: WallRowsTable where
  "demo_rows = [no_row\<lparr>rd_width := 10\<rparr>,
     \<lparr>rd_id = ''split-flap-9a3c1f'', rd_host = ''192.168.1.50'', rd_row = 1, rd_col = 0, rd_width = 5\<rparr>,
     \<lparr>rd_id = ''split-flap-7'', rd_host = ''10.0.0.7'', rd_row = 1, rd_col = 5, rd_width = 5\<rparr>]"

theorem accepted_table_is_read_back_witness:
  "wallRowsFromString (wallRowsToString demo_rows) = Some demo_rows"
proof -
  have "cv_ok (fst (wallRowsValidate demo_rows))" by code_simp
  then show ?thesis by (rule accepted_table_is_read_back) (simp add: demo_rows_def)
qed

section \<open>Names from places\<close>

lemma show_dec_inj: "show_dec m = show_dec n \<longleftrightarrow> m = n"
  using show_dec_value by metis

lemma show_dec_label: "list_all label_char (show_dec n)"
  using show_dec_plain [of _ n] by (auto simp: list_all_iff label_char_def dec_digit_def Let_def)

lemma show_dec_last: "last (show_dec n) \<noteq> CHR ''-''"
  using show_dec_plain [of "last (show_dec n)" n] length_show_dec_pos [of n] by (auto simp: dec_digit_def)

lemma show_dec_dash: "takeWhile (\<lambda>c. c \<noteq> CHR ''-'') (show_dec n @ s) = show_dec n @ takeWhile (\<lambda>c. c \<noteq> CHR ''-'') s"
proof -
  have "c \<noteq> CHR ''-''" if "c \<in> set (show_dec n)" for c
    using show_dec_plain [OF that] by (auto simp: dec_digit_def)
  then show ?thesis by (intro takeWhile_append2) auto
qed

definition place_suffix :: "bool \<Rightarrow> nat \<Rightarrow> string" where
  "place_suffix shared col = (if shared then ''-c'' @ show_dec col else [])"

lemma place_name_inj:
  assumes "show_dec m @ place_suffix a k = show_dec n @ place_suffix b l"
  shows "m = n \<and> a = b \<and> (a \<longrightarrow> k = l)"
proof -
  have "takeWhile (\<lambda>c. c \<noteq> CHR ''-'') (place_suffix d k) = []" for d k by (simp add: place_suffix_def)
  with arg_cong [OF assms, of "takeWhile (\<lambda>c. c \<noteq> CHR ''-'')"] have "m = n" by (simp add: show_dec_dash show_dec_inj)
  with assms show ?thesis by (auto simp: place_suffix_def show_dec_inj split: if_splits)
qed

definition on_shared_row :: "WallRowsTable \<Rightarrow> nat \<Rightarrow> bool" where
  "on_shared_row table i \<longleftrightarrow> (\<exists>j < length table. j \<noteq> i \<and> rd_row (table ! j) = rd_row (table ! i))"

lemma host_name_at:
  assumes "r < 256" "c < 256" "25 \<le> cap"
  shows "wallRowHostName (int r + 1) (int c + 1) shared cap = ''split-flap-row'' @ show_dec (r + 1) @ place_suffix shared (c + 1)"
proof -
  have len: "length (show_dec (r + 1)) \<le> 3" "length (show_dec (c + 1)) \<le> 3"
    using assms by (intro length_show_dec; simp)+
  have "nat (int r + 1) = r + 1" "nat (int c + 1) = c + 1" by simp_all
  with assms len show ?thesis by (simp add: wallRowHostName_def Let_def place_suffix_def HOST_NAME_MAX_def)
qed

lemma host_name:
  assumes "i < length table" "25 \<le> cap"
  shows "wallRowsHostName table (Some i) cap = ''split-flap-row'' @ show_dec (unat (rd_row (table ! i)) + 1)
    @ place_suffix (on_shared_row table i) (unat (rd_col (table ! i)) + 1)"
proof -
  have shared: "list_ex (\<lambda>j. j \<noteq> i \<and> rd_row (table ! j) = rd_row (table ! i)) [0..<length table] = on_shared_row table i"
    by (auto simp: list_ex_iff on_shared_row_def)
  have "wallRowsHostName table (Some i) cap =
      wallRowHostName (int (unat (rd_row (table ! i))) + 1) (int (unat (rd_col (table ! i))) + 1) (on_shared_row table i) cap"
    using assms by (simp add: wallRowsHostName_def Let_def shared)
  with host_name_at [OF unat_u8_less unat_u8_less assms(2)] show ?thesis by simp
qed

text \<open>The hostnames that places give are names a board takes, and boards at different places of a table have
  different ones.\<close>
lemma places_give_different_names:
  assumes "i < length table" "j < length table" "25 \<le> cap"
    and "(rd_row (table ! i), rd_col (table ! i)) \<noteq> (rd_row (table ! j), rd_col (table ! j))"
  shows "wallHostNameValid (Some (wallRowsHostName table (Some i) cap))
    \<and> wallRowsHostName table (Some i) cap \<noteq> wallRowsHostName table (Some j) cap"
proof
  let ?r = "unat (rd_row (table ! i))" and ?c = "unat (rd_col (table ! i))"
  have bounds: "?r < 256" "?c < 256" by (rule unat_u8_less)+
  then have len: "length (show_dec (?r + 1)) \<le> 3" "length (show_dec (?c + 1)) \<le> 3"
    by (intro length_show_dec; simp)+
  have ends: "show_dec n \<noteq> []" "last (show_dec n) \<noteq> CHR ''-''" for n
    using length_show_dec_pos [of n] show_dec_last by auto
  show "wallHostNameValid (Some (wallRowsHostName table (Some i) cap))"
    unfolding host_name [OF assms(1,3)] wallHostNameValid_def place_suffix_def HOST_NAME_MAX_def
    using len ends show_dec_label by (simp add: last_append) (auto simp: label_char_def Let_def)
  show "wallRowsHostName table (Some i) cap \<noteq> wallRowsHostName table (Some j) cap"
  proof
    assume "wallRowsHostName table (Some i) cap = wallRowsHostName table (Some j) cap"
    then have "show_dec (?r + 1) @ place_suffix (on_shared_row table i) (?c + 1)
        = show_dec (unat (rd_row (table ! j)) + 1) @ place_suffix (on_shared_row table j) (unat (rd_col (table ! j)) + 1)"
      unfolding host_name [OF assms(1,3)] host_name [OF assms(2,3)] by simp
    from place_name_inj [OF this] have same: "rd_row (table ! i) = rd_row (table ! j)"
      "on_shared_row table i \<longrightarrow> rd_col (table ! i) = rd_col (table ! j)" by (auto simp: word_unat_eq_iff)
    moreover from same(1) assms(1,2,4) have "on_shared_row table i" by (auto simp: on_shared_row_def)
    ultimately show False using assms(4) by simp
  qed
qed

lemma demo_names_differ:
  "wallHostNameValid (Some (wallRowsHostName demo_rows (Some 1) 25))
    \<and> wallRowsHostName demo_rows (Some 1) 25 \<noteq> wallRowsHostName demo_rows (Some 2) 25"
  by (rule places_give_different_names) (simp_all add: demo_rows_def)

end
